(* ===== verification/Prelude.thy ===== *)
theory Prelude
  imports
    Main
    "HOL-Library.Char_ord"
    "HOL-Library.Code_Target_Numeral"
    "HOL-Library.List_Lexorder"
    "HOL-Library.Word"
    "HOL-Library.Multiset"
begin

text \<open>
  What every component shares: Go strings as byte lists, the part of the packages
  \<open>strings\<close>, \<open>unicode/utf8\<close>, \<open>unicode\<close> and \<open>strconv\<close> the program calls, the wrap-around of
  \<open>int64\<close>, the contract of \<open>sort.Slice\<close>, and the generic lemmas the component proofs rest on.

  A Go string is a byte sequence, so it is a \<^typ>\<open>char list\<close> here (a \<^typ>\<open>char\<close> is one of 256
  bytes), and the order of \<open>List_Lexorder\<close> over \<open>Char_ord\<close> is Go's bytewise string order.
  A rune is a \<^typ>\<open>nat\<close>. The case tables of package \<open>unicode\<close> beyond ASCII are data, not code:
  they enter as the fields of a record of type \<open>unicode_tables\<close>, and no lemma assumes more
  of them than it states.
\<close>

type_synonym u64 = "64 word"
type_synonym rune = nat

named_theorems go_defs \<open>definitions of the library model that proofs unfold\<close>


lemma u64_inc_le: "(n::u64) \<noteq> - 1 \<Longrightarrow> n + 1 \<le> m \<longleftrightarrow> n < m"
proof -
  assume "n \<noteq> - 1"
  then have "1 + n \<noteq> 0" by (metis add.commute add_eq_0_iff2)
  then have "unat (1 + n) = Suc (unat n)" by (rule unatSuc)
  then show ?thesis by (simp add: word_le_nat_alt word_less_nat_alt Suc_le_eq add.commute)
qed


lemma sint_u64_of_int:
  assumes "- (2 ^ 63) \<le> n" and "n < 2 ^ 63"
  shows "sint (word_of_int n :: u64) = n"
proof -
  have "sint (word_of_int n :: u64) = signed_take_bit 63 n" by (simp add: signed_of_int)
  also have "\<dots> = n" using assms by (intro signed_take_bit_int_eq_self) auto
  finally show ?thesis .
qed


lemma find_unique:
  assumes "r \<in> set xs" and "P r" and "\<And>x. x \<in> set xs \<Longrightarrow> P x \<Longrightarrow> x = r"
  shows "List.find P xs = Some r"
proof (cases "List.find P xs")
  case None
  with assms(1,2) show ?thesis unfolding find_None_iff by blast
next
  case (Some x)
  then have "x \<in> set xs" and "P x" unfolding find_Some_iff by auto
  then have "x = r" by (rule assms(3))
  with Some show ?thesis by simp
qed


subsection \<open>Bytes and ASCII classes\<close>

definition byte :: "char \<Rightarrow> nat" where
  "byte c = of_char c"

lemma byte_less_256 [simp]: "byte c < 256"
  by (cases c) (simp add: byte_def)

lemma byte_inject [simp]: "byte a = byte b \<longleftrightarrow> a = b"
  by (simp add: byte_def of_char_eq_iff)

definition is_digit_byte :: "char \<Rightarrow> bool" where
  "is_digit_byte c \<longleftrightarrow> CHR ''0'' \<le> c \<and> c \<le> CHR ''9''"

definition is_upper_byte :: "char \<Rightarrow> bool" where
  "is_upper_byte c \<longleftrightarrow> CHR ''A'' \<le> c \<and> c \<le> CHR ''Z''"

definition is_lower_byte :: "char \<Rightarrow> bool" where
  "is_lower_byte c \<longleftrightarrow> CHR ''a'' \<le> c \<and> c \<le> CHR ''z''"

text \<open>The folding \<open>if 'A' <= c && c <= 'Z' { c += 'a' - 'A' }\<close> the scanners inline.\<close>

definition fold_byte :: "char \<Rightarrow> char" where
  "fold_byte c = (if is_upper_byte c then char_of (byte c + 32) else c)"

definition ascii_byte :: "char \<Rightarrow> bool" where
  "ascii_byte c \<longleftrightarrow> byte c < 128"


subsection \<open>UTF-8 as \<open>unicode/utf8\<close> decodes and encodes it\<close>

definition rune_error :: rune where
  "rune_error = 65533"

definition cont_byte :: "nat \<Rightarrow> nat \<Rightarrow> char \<Rightarrow> bool" where
  "cont_byte lo hi c \<longleftrightarrow> lo \<le> byte c \<and> byte c \<le> hi"

text \<open>
  \<open>utf8.DecodeRuneInString\<close>: the rune and its width; an ill-formed sequence yields
  \<^const>\<open>rune_error\<close> of width 1, the empty string width 0. The second byte of a three or four
  byte sequence has a restricted range after the lead bytes E0, ED, F0 and F4.
\<close>

fun decode_rune :: "string \<Rightarrow> rune \<times> nat" where
  "decode_rune [] = (rune_error, 0)"
| "decode_rune (c # cs) =
    (let b = byte c in
     if b < 128 then (b, 1)
     else if 194 \<le> b \<and> b \<le> 223 then
       (case cs of
          c1 # _ \<Rightarrow>
            if cont_byte 128 191 c1 then ((b - 192) * 64 + (byte c1 - 128), 2)
            else (rune_error, 1)
        | _ \<Rightarrow> (rune_error, 1))
     else if 224 \<le> b \<and> b \<le> 239 then
       (case cs of
          c1 # c2 # _ \<Rightarrow>
            if cont_byte (if b = 224 then 160 else 128) (if b = 237 then 159 else 191) c1
               \<and> cont_byte 128 191 c2
            then ((b - 224) * 4096 + (byte c1 - 128) * 64 + (byte c2 - 128), 3)
            else (rune_error, 1)
        | _ \<Rightarrow> (rune_error, 1))
     else if 240 \<le> b \<and> b \<le> 244 then
       (case cs of
          c1 # c2 # c3 # _ \<Rightarrow>
            if cont_byte (if b = 240 then 144 else 128) (if b = 244 then 143 else 191) c1
               \<and> cont_byte 128 191 c2 \<and> cont_byte 128 191 c3
            then ((b - 240) * 262144 + (byte c1 - 128) * 4096
                  + (byte c2 - 128) * 64 + (byte c3 - 128), 4)
            else (rune_error, 1)
        | _ \<Rightarrow> (rune_error, 1))
     else (rune_error, 1))"

lemma decode_rune_width:
  "s \<noteq> [] \<Longrightarrow> 1 \<le> snd (decode_rune s) \<and> snd (decode_rune s) \<le> length s"
  by (cases s) (auto simp: Let_def split: list.splits)

lemma decode_rune_ascii: "ascii_byte c \<Longrightarrow> decode_rune (c # cs) = (byte c, 1)"
  by (simp add: ascii_byte_def)

text \<open>\<open>utf8.EncodeRune\<close>: surrogates and values out of range are encoded as \<^const>\<open>rune_error\<close>.\<close>

definition encode_rune :: "rune \<Rightarrow> string" where
  "encode_rune r =
    (if r < 128 then [char_of r]
     else if r < 2048 then [char_of (192 + r div 64), char_of (128 + r mod 64)]
     else if (55296 \<le> r \<and> r \<le> 57343) \<or> 1114111 < r then map char_of [239, 191, 189 :: nat]
     else if r < 65536 then
       [char_of (224 + r div 4096), char_of (128 + r div 64 mod 64), char_of (128 + r mod 64)]
     else
       [char_of (240 + r div 262144), char_of (128 + r div 4096 mod 64),
        char_of (128 + r div 64 mod 64), char_of (128 + r mod 64)])"

text \<open>
  The runes of a string in the order \<open>for _, r := range s\<close> meets them, each with the bytes
  it was read from.
\<close>

function chunks :: "string \<Rightarrow> (rune \<times> string) list" where
  "chunks [] = []"
| "chunks (c # cs) =
    (let (r, n) = decode_rune (c # cs)
     in (r, take n (c # cs)) # chunks (drop n (c # cs)))"
  by pat_completeness auto
termination
proof (relation "measure length")
  fix c :: char and cs :: string and x :: "rune \<times> nat" and r n
  assume "x = decode_rune (c # cs)" and "(r, n) = x"
  then have "n = snd (decode_rune (c # cs))" by (metis snd_conv)
  with decode_rune_width [of "c # cs"] have "1 \<le> n" and "n \<le> length (c # cs)" by simp_all
  then show "(drop n (c # cs), c # cs) \<in> measure length" by simp
qed simp

definition runes :: "string \<Rightarrow> rune list" where
  "runes s = map fst (chunks s)"

lemma concat_chunks: "concat (map snd (chunks s)) = s"
proof (induction s rule: chunks.induct)
  case 1
  then show ?case by simp
next
  case (2 c cs)
  show ?case
    by (cases "decode_rune (c # cs)") (simp add: 2 del: decode_rune.simps)
qed

lemma chunks_ascii:
  assumes "ascii_byte c"
  shows "chunks (c # cs) = (byte c, [c]) # chunks cs"
  using assms by (simp add: decode_rune_ascii del: decode_rune.simps)

lemma runes_ascii: "list_all ascii_byte s \<Longrightarrow> runes s = map byte s"
  by (induction s) (auto simp: runes_def chunks_ascii simp del: chunks.simps(2))

declare chunks.simps(2) [simp del]


subsection \<open>Package \<open>unicode\<close>\<close>

record unicode_tables =
  ut_lower :: "rune \<Rightarrow> rune"
  ut_upper :: "rune \<Rightarrow> bool"

text \<open>\<open>unicode.ToLower\<close> and \<open>unicode.IsUpper\<close>: ASCII is computed, the rest is table data.\<close>

definition rune_lower :: "unicode_tables \<Rightarrow> rune \<Rightarrow> rune" where
  "rune_lower U r =
    (if r < 128 then (if 65 \<le> r \<and> r \<le> 90 then r + 32 else r) else ut_lower U r)"

definition rune_is_upper :: "unicode_tables \<Rightarrow> rune \<Rightarrow> bool" where
  "rune_is_upper U r = (if r < 128 then 65 \<le> r \<and> r \<le> 90 else ut_upper U r)"

text \<open>\<open>unicode.IsSpace\<close>, whose table is short enough to write out.\<close>

definition rune_is_space :: "rune \<Rightarrow> bool" where
  "rune_is_space r \<longleftrightarrow>
    (9 \<le> r \<and> r \<le> 13) \<or> r = 32 \<or> r = 133 \<or> r = 160 \<or> r = 5760 \<or>
    (8192 \<le> r \<and> r \<le> 8202) \<or> r = 8232 \<or> r = 8233 \<or> r = 8239 \<or> r = 8287 \<or> r = 12288"


subsection \<open>Package \<open>strings\<close>\<close>

definition str_lower :: "unicode_tables \<Rightarrow> string \<Rightarrow> string" where
  "str_lower U s = concat (map (\<lambda>r. encode_rune (rune_lower U r)) (runes s))"

definition has_prefix :: "string \<Rightarrow> string \<Rightarrow> bool" where
  "has_prefix s p \<longleftrightarrow> take (length p) s = p"

definition trim_prefix :: "string \<Rightarrow> string \<Rightarrow> string" where
  "trim_prefix s p = (if has_prefix s p then drop (length p) s else s)"

text \<open>\<open>strings.Index\<close>: the least offset at which \<open>t\<close> occurs, or \<^const>\<open>None\<close> for -1.\<close>

fun str_index :: "string \<Rightarrow> string \<Rightarrow> nat option" where
  "str_index [] t = (if t = [] then Some 0 else None)"
| "str_index (c # cs) t =
    (if has_prefix (c # cs) t then Some 0 else map_option Suc (str_index cs t))"

definition str_contains :: "string \<Rightarrow> string \<Rightarrow> bool" where
  "str_contains s t \<longleftrightarrow> str_index s t \<noteq> None"

fun index_byte :: "string \<Rightarrow> char \<Rightarrow> nat option" where
  "index_byte [] c = None"
| "index_byte (d # ds) c = (if d = c then Some 0 else map_option Suc (index_byte ds c))"

definition last_index_byte :: "string \<Rightarrow> char \<Rightarrow> nat option" where
  "last_index_byte s c = map_option (\<lambda>i. length s - 1 - i) (index_byte (rev s) c)"

definition contains_any :: "string \<Rightarrow> string \<Rightarrow> bool" where
  "contains_any s cs \<longleftrightarrow> list_ex (\<lambda>c. c \<in> set cs) s"

text \<open>\<open>strings.TrimSpace\<close> and \<open>strings.Fields\<close>, both over runes.\<close>

definition trim_space :: "string \<Rightarrow> string" where
  "trim_space s =
    concat (map snd (rev (dropWhile (\<lambda>(r, _). rune_is_space r)
      (rev (dropWhile (\<lambda>(r, _). rune_is_space r) (chunks s))))))"

fun split_fields :: "(rune \<times> string) list \<Rightarrow> string \<Rightarrow> string list" where
  "split_fields [] cur = (if cur = [] then [] else [cur])"
| "split_fields ((r, b) # rest) cur =
    (if rune_is_space r
     then (if cur = [] then split_fields rest [] else cur # split_fields rest [])
     else split_fields rest (cur @ b))"

definition str_fields :: "string \<Rightarrow> string list" where
  "str_fields s = split_fields (chunks s) []"

fun split_on :: "char \<Rightarrow> string \<Rightarrow> string list" where
  "split_on c [] = [[]]"
| "split_on c (d # ds) =
    (if d = c then [] # split_on c ds
     else case split_on c ds of [] \<Rightarrow> [[d]] | s # ss \<Rightarrow> (d # s) # ss)"

fun join_with :: "string \<Rightarrow> string list \<Rightarrow> string" where
  "join_with sep [] = []"
| "join_with sep [s] = s"
| "join_with sep (s # t # ss) = s @ sep @ join_with sep (t # ss)"

definition has_suffix :: "string \<Rightarrow> string \<Rightarrow> bool" where
  "has_suffix s p \<longleftrightarrow> has_prefix (rev s) (rev p)"

definition trim_suffix :: "string \<Rightarrow> string \<Rightarrow> string" where
  "trim_suffix s t = (if has_suffix s t then take (length s - length t) s else s)"

definition trim_right_byte :: "char \<Rightarrow> string \<Rightarrow> string" where
  "trim_right_byte c s = rev (dropWhile (\<lambda>d. d = c) (rev s))"



subsection \<open>Package \<open>path/filepath\<close> on Unix\<close>

text \<open>\<open>Clean\<close>: the stack of elements kept so far is reversed; \<open>..\<close> pops one where it can.\<close>

definition path_step :: "bool \<Rightarrow> string list \<Rightarrow> string \<Rightarrow> string list" where
  "path_step rooted st e =
    (if e = [] \<or> e = ''.'' then st
     else if e = ''..'' then
       (case st of
          [] \<Rightarrow> (if rooted then [] else [e])
        | t # ts \<Rightarrow> if t = ''..'' then e # st else ts)
     else e # st)"

definition path_clean :: "string \<Rightarrow> string" where
  "path_clean p =
    (let rooted = has_prefix p ''/'';
         body = join_with ''/'' (rev (foldl (path_step rooted) [] (split_on CHR ''/'' p)))
     in if rooted then CHR ''/'' # body else if body = [] then ''.'' else body)"

definition path_join :: "string list \<Rightarrow> string" where
  "path_join elems =
    (case dropWhile (\<lambda>e. e = []) elems of [] \<Rightarrow> [] | es \<Rightarrow> path_clean (join_with ''/'' es))"

definition path_dir :: "string \<Rightarrow> string" where
  "path_dir p =
    path_clean (case last_index_byte p CHR ''/'' of None \<Rightarrow> [] | Some i \<Rightarrow> take (i + 1) p)"


text \<open>Laws of the string functions that several components use.\<close>

lemma has_prefix_iff: "has_prefix s p \<longleftrightarrow> (\<exists>r. s = p @ r)"
  unfolding has_prefix_def by (metis append_eq_conv_conj append_take_drop_id)

lemma has_prefix_append [simp]: "has_prefix (p @ r) p"
  by (auto simp: has_prefix_iff)

lemma has_prefix_Nil [simp]: "has_prefix s []"
  by (simp add: has_prefix_def)

lemma has_prefix_trans: "has_prefix s p \<Longrightarrow> has_prefix p q \<Longrightarrow> has_prefix s q"
  by (auto simp: has_prefix_iff)

lemma split_on_ne [simp]: "split_on c s \<noteq> []"
  by (induction s) (auto split: list.splits)

lemma join_split_on [simp]: "join_with [c] (split_on c s) = s"
proof (induction s)
  case (Cons d ds)
  obtain p ps where ps: "split_on c ds = p # ps" by (cases "split_on c ds") auto
  have "join_with [c] ((d # p) # ps) = d # join_with [c] (p # ps)" by (cases ps) auto
  with Cons ps show ?case by simp
qed simp

lemma split_on_absent: "c \<notin> set s \<Longrightarrow> split_on c s = [s]"
  by (induction s) auto

lemma split_on_pieces: "p \<in> set (split_on c s) \<Longrightarrow> c \<notin> set p"
  by (induction s arbitrary: p) (auto split: list.splits if_splits)

lemma str_contains_iff: "str_contains s t \<longleftrightarrow> (\<exists>a b. s = a @ t @ b)"
proof (induction s)
  case Nil
  then show ?case by (auto simp: str_contains_def)
next
  case (Cons c cs)
  show ?case
  proof (cases "has_prefix (c # cs) t")
    case True
    then show ?thesis by (auto simp: str_contains_def has_prefix_iff intro: exI [of _ "[]"])
  next
    case False
    have "(\<exists>a b. c # cs = a @ t @ b) \<longleftrightarrow> (\<exists>a b. cs = a @ t @ b)"
    proof
      assume "\<exists>a b. c # cs = a @ t @ b"
      then obtain a b where ab: "c # cs = a @ t @ b" by blast
      with False have "a \<noteq> []" by (auto simp: has_prefix_iff)
      with ab show "\<exists>a b. cs = a @ t @ b" by (cases a) auto
    next
      assume "\<exists>a b. cs = a @ t @ b"
      then obtain a b where "cs = a @ t @ b" by blast
      then have "c # cs = (c # a) @ t @ b" by simp
      then show "\<exists>a b. c # cs = a @ t @ b" by blast
    qed
    with False Cons show ?thesis by (simp add: str_contains_def)
  qed
qed

lemma str_contains_mono: "str_contains s t \<Longrightarrow> str_contains t u \<Longrightarrow> str_contains s u"
proof -
  assume "str_contains s t" and "str_contains t u"
  then obtain a b c d where "s = a @ t @ b" and "t = c @ u @ d"
    by (auto simp: str_contains_iff)
  then have "s = (a @ c) @ u @ (d @ b)" by simp
  then show "str_contains s u" unfolding str_contains_iff by blast
qed


subsection \<open>\<open>int64\<close> and package \<open>strconv\<close>\<close>

text \<open>Go's signed 64-bit arithmetic wraps; \<open>wrap64\<close> is the value kept.\<close>

definition wrap64 :: "int \<Rightarrow> int" where
  "wrap64 n = (n + 2 ^ 63) mod 2 ^ 64 - 2 ^ 63"

definition int64 :: "int \<Rightarrow> bool" where
  "int64 n \<longleftrightarrow> - (2 ^ 63) \<le> n \<and> n < 2 ^ 63"

lemma wrap64_int64 [simp]: "int64 (wrap64 n)"
  by (auto simp: wrap64_def int64_def)

lemma wrap64_id: "int64 n \<Longrightarrow> wrap64 n = n"
  by (auto simp: wrap64_def int64_def)

text \<open>The value of a string of decimal digits.\<close>

definition digits_value :: "string \<Rightarrow> nat" where
  "digits_value s = foldl (\<lambda>n c. 10 * n + (byte c - 48)) 0 s"

definition all_digits :: "string \<Rightarrow> bool" where
  "all_digits s \<longleftrightarrow> s \<noteq> [] \<and> list_all is_digit_byte s"

text \<open>
  \<open>strconv.ParseInt(s, 10, 64)\<close>, and \<open>strconv.Atoi\<close> on a 64-bit target: an optional sign, digits,
  and a value in range; \<^const>\<open>None\<close> for either error.
\<close>

definition parse_int64 :: "string \<Rightarrow> int option" where
  "parse_int64 s =
    (let (neg, ds) =
       (case s of
          [] \<Rightarrow> (False, [])
        | c # cs \<Rightarrow>
            if c = CHR ''-'' then (True, cs)
            else if c = CHR ''+'' then (False, cs) else (False, s));
       n = (if neg then - int (digits_value ds) else int (digits_value ds))
     in if all_digits ds \<and> int64 n then Some n else None)"

text \<open>\<open>strconv.ParseUint(s, 10, 64)\<close>: digits only.\<close>

definition parse_uint64 :: "string \<Rightarrow> u64 option" where
  "parse_uint64 s =
    (if all_digits s \<and> digits_value s < 2 ^ 64 then Some (of_nat (digits_value s)) else None)"

text \<open>\<open>strconv.Itoa\<close> and \<open>strconv.FormatInt\<close> in base 10.\<close>

fun nat_digits :: "nat \<Rightarrow> string" where
  "nat_digits n =
    (if n < 10 then [char_of (48 + n)] else nat_digits (n div 10) @ [char_of (48 + n mod 10)])"

declare nat_digits.simps [simp del]

definition format_int :: "int \<Rightarrow> string" where
  "format_int n = (if n < 0 then CHR ''-'' # nat_digits (nat (- n)) else nat_digits (nat n))"

lemma byte_digit: "d < 10 \<Longrightarrow> byte (char_of (48 + d)) = 48 + d"
  by (simp add: byte_def)

lemma is_digit_byte_iff: "is_digit_byte c \<longleftrightarrow> 48 \<le> byte c \<and> byte c \<le> 57"
  by (simp add: is_digit_byte_def byte_def less_eq_char_def)

lemma nat_digits_correct: "all_digits (nat_digits n) \<and> digits_value (nat_digits n) = n"
proof (induction n rule: nat_digits.induct)
  case (1 n)
  show ?case
  proof (cases "n < 10")
    case True
    then show ?thesis
      by (subst (1 2) nat_digits.simps)
        (simp add: all_digits_def digits_value_def is_digit_byte_iff byte_digit)
  next
    case False
    with 1 have ih: "all_digits (nat_digits (n div 10))"
        "digits_value (nat_digits (n div 10)) = n div 10"
      by simp_all
    have "n mod 10 < 10" by simp
    with False ih show ?thesis
      by (subst (1 2) nat_digits.simps)
        (auto simp: all_digits_def digits_value_def is_digit_byte_iff byte_digit)
  qed
qed

lemma nat_digits_head: "\<exists>c cs. nat_digits n = c # cs \<and> is_digit_byte c"
  using nat_digits_correct [of n] by (cases "nat_digits n") (auto simp: all_digits_def)

lemma parse_format_int: "int64 n \<Longrightarrow> parse_int64 (format_int n) = Some n"
proof (cases "n < 0")
  case True
  assume "int64 n"
  with True nat_digits_correct [of "nat (- n)"] show ?thesis
    by (simp add: format_int_def parse_int64_def)
next
  case False
  assume "int64 n"
  moreover obtain c cs where c: "nat_digits (nat n) = c # cs" and "is_digit_byte c"
    using nat_digits_head by blast
  moreover from this have "c \<noteq> CHR ''-''" "c \<noteq> CHR ''+''"
    by (auto simp: is_digit_byte_iff byte_def)
  ultimately show ?thesis
    using False nat_digits_correct [of "nat n"] by (simp add: format_int_def parse_int64_def c)
qed


subsection \<open>The contract of \<open>sort.Slice\<close>\<close>

text \<open>
  \<open>sort.Slice\<close> is not stable, so its result is not a function of the comparison alone where the
  comparison leaves ties. The documented contract is what the daemon's callers rely on: the result
  is a permutation, and it is in order whenever \<open>less\<close> is a strict weak order.
\<close>

definition strict_weak :: "('a \<Rightarrow> 'a \<Rightarrow> bool) \<Rightarrow> bool" where
  "strict_weak lt \<longleftrightarrow>
    (\<forall>x. \<not> lt x x) \<and> (\<forall>x y z. lt x y \<longrightarrow> lt y z \<longrightarrow> lt x z) \<and>
    (\<forall>x y z. \<not> lt x y \<longrightarrow> \<not> lt y z \<longrightarrow> \<not> lt x z)"

locale slice_sort =
  fixes srt :: "('a \<Rightarrow> 'a \<Rightarrow> bool) \<Rightarrow> 'a list \<Rightarrow> 'a list"
  assumes srt_mset: "mset (srt lt xs) = mset xs"
    and srt_ordered: "strict_weak lt \<Longrightarrow> sorted_wrt (\<lambda>x y. \<not> lt y x) (srt lt xs)"
begin

lemma srt_set [simp]: "set (srt lt xs) = set xs"
  using srt_mset [of lt xs] by (metis set_mset_mset)

lemma srt_length [simp]: "length (srt lt xs) = length xs"
  using srt_mset [of lt xs] by (metis size_mset)

lemma srt_distinct [simp]: "distinct (srt lt xs) = distinct xs"
  using srt_mset [of lt xs] by (metis mset_eq_imp_distinct_iff)

end

text \<open>
  \<open>sort.SliceStable\<close> is a function: a stable insertion sort computes the one result it may return.
  It also satisfies the contract of \<open>sort.Slice\<close>.
\<close>

fun insert_stable :: "('a \<Rightarrow> 'a \<Rightarrow> bool) \<Rightarrow> 'a \<Rightarrow> 'a list \<Rightarrow> 'a list" where
  "insert_stable lt x [] = [x]"
| "insert_stable lt x (y # ys) =
    (if lt y x then y # insert_stable lt x ys else x # y # ys)"

fun stable_sort :: "('a \<Rightarrow> 'a \<Rightarrow> bool) \<Rightarrow> 'a list \<Rightarrow> 'a list" where
  "stable_sort lt [] = []"
| "stable_sort lt (x # xs) = insert_stable lt x (stable_sort lt xs)"

lemma mset_insert_stable: "mset (insert_stable lt x ys) = add_mset x (mset ys)"
  by (induction ys) auto

lemma mset_stable_sort: "mset (stable_sort lt xs) = mset xs"
  by (induction xs) (auto simp: mset_insert_stable)

lemma set_insert_stable: "set (insert_stable lt x ys) = insert x (set ys)"
  by (induction ys) auto

lemma insert_stable_ordered:
  assumes "strict_weak lt" and "sorted_wrt (\<lambda>x y. \<not> lt y x) ys"
  shows "sorted_wrt (\<lambda>x y. \<not> lt y x) (insert_stable lt x ys)"
  using assms(2)
proof (induction ys)
  case Nil
  then show ?case by simp
next
  case (Cons y ys)
  show ?case
  proof (cases "lt y x")
    case True
    with assms(1) have "\<not> lt x y" unfolding strict_weak_def by blast
    with True Cons show ?thesis by (auto simp: set_insert_stable)
  next
    case False
    from assms(1) have neg: "\<And>z. \<not> lt z y \<Longrightarrow> \<not> lt y x \<Longrightarrow> \<not> lt z x"
      unfolding strict_weak_def by blast
    from Cons.prems have "\<forall>z \<in> set ys. \<not> lt z y" by simp
    with False have "\<forall>z \<in> set ys. \<not> lt z x" using neg by blast
    with False Cons.prems show ?thesis by simp
  qed
qed

lemma stable_sort_ordered:
  "strict_weak lt \<Longrightarrow> sorted_wrt (\<lambda>x y. \<not> lt y x) (stable_sort lt xs)"
  by (induction xs) (simp_all add: insert_stable_ordered)

interpretation stable: slice_sort stable_sort
  by unfold_locales (simp_all add: mset_stable_sort stable_sort_ordered)

end
