(* ===== verification/Match.thy ===== *)
theory Match
  imports Prelude "HOL-Library.Sublist"
begin

text \<open>
  \<open>internal/match\<close>: query parsing with per-term smart case, substring matching with an ASCII fast
  path, highlight ranges, the subsequence matcher, and the incremental filter. The case tables of
  package \<open>unicode\<close> are the parameter \<open>U\<close>.
\<close>

record qterm =
  tm_text :: string
  tm_lower :: string
  tm_fold :: bool
  tm_ascii :: bool

type_synonym query = "qterm list"

definition is_ascii :: "string \<Rightarrow> bool" where
  "is_ascii s \<longleftrightarrow> list_all ascii_byte s"

definition has_upper :: "unicode_tables \<Rightarrow> string \<Rightarrow> bool" where
  "has_upper U s \<longleftrightarrow> list_ex (rune_is_upper U) (runes s)"

definition parse_term :: "unicode_tables \<Rightarrow> string \<Rightarrow> qterm" where
  "parse_term U f =
    (if has_upper U f
     then \<lparr>tm_text = f, tm_lower = [], tm_fold = False, tm_ascii = is_ascii f\<rparr>
     else \<lparr>tm_text = f, tm_lower = str_lower U f, tm_fold = True, tm_ascii = is_ascii f\<rparr>)"

definition parse_query :: "unicode_tables \<Rightarrow> string \<Rightarrow> query" where
  "parse_query U q = map (parse_term U) (str_fields q)"

definition query_empty :: "query \<Rightarrow> bool" where
  "query_empty q \<longleftrightarrow> q = []"


subsection \<open>Matching\<close>

text \<open>\<open>asciiFoldIndex\<close>: the inner loop compares folded bytes, the outer one tries each offset.\<close>

fun fold_match_at :: "string \<Rightarrow> string \<Rightarrow> bool" where
  "fold_match_at s [] = True"
| "fold_match_at [] (n # ns) = False"
| "fold_match_at (c # cs) (n # ns) = (fold_byte c = n \<and> fold_match_at cs ns)"

fun ascii_fold_index :: "string \<Rightarrow> string \<Rightarrow> nat option" where
  "ascii_fold_index [] needle = (if needle = [] then Some 0 else None)"
| "ascii_fold_index (c # cs) needle =
    (if fold_match_at (c # cs) needle then Some 0
     else map_option Suc (ascii_fold_index cs needle))"

definition term_match :: "unicode_tables \<Rightarrow> qterm \<Rightarrow> string \<Rightarrow> bool" where
  "term_match U t s =
    (if \<not> tm_fold t then str_contains s (tm_text t)
     else if tm_ascii t then ascii_fold_index s (tm_lower t) \<noteq> None
     else str_contains (str_lower U s) (tm_lower t))"

definition query_match :: "unicode_tables \<Rightarrow> query \<Rightarrow> string \<Rightarrow> bool" where
  "query_match U q s \<longleftrightarrow> list_all (\<lambda>t. term_match U t s) q"


subsection \<open>Highlight ranges\<close>

text \<open>\<open>matchFoldAt\<close> on the suffix of the string at the offset: the bytes consumed.\<close>

fun match_fold_at :: "unicode_tables \<Rightarrow> string \<Rightarrow> rune list \<Rightarrow> nat option" where
  "match_fold_at U s [] = Some 0"
| "match_fold_at U s (want # wants) =
    (if s = [] then None
     else let (r, size) = decode_rune s
          in if rune_lower U r \<noteq> want then None
             else map_option (\<lambda>m. size + m) (match_fold_at U (drop size s) wants))"

text \<open>The three scans of \<open>appendRanges\<close>, each producing the spans in the order it appends them.\<close>

function exact_ranges :: "string \<Rightarrow> string \<Rightarrow> nat \<Rightarrow> (nat \<times> nat) list" where
  "exact_ranges s t from =
    (if t = [] \<or> length s < from then []
     else case str_index (drop from s) t of
            None \<Rightarrow> []
          | Some i \<Rightarrow> (from + i, from + i + length t) # exact_ranges s t (from + i + 1))"
  by pat_completeness auto
termination
  by (relation "measure (\<lambda>(s, t, from). Suc (length s) - from)") auto

declare exact_ranges.simps [simp del]

definition ascii_ranges :: "string \<Rightarrow> string \<Rightarrow> (nat \<times> nat) list" where
  "ascii_ranges s lower =
    map (\<lambda>i. (i, i + length lower))
      (filter (\<lambda>i. fold_match_at (drop i s) lower)
        [0 ..< (if length s < length lower then 0 else Suc (length s - length lower))])"

fun fold_ranges ::
  "unicode_tables \<Rightarrow> rune list \<Rightarrow> (rune \<times> string) list \<Rightarrow> string \<Rightarrow> nat \<Rightarrow> (nat \<times> nat) list" where
  "fold_ranges U nr [] s i = []"
| "fold_ranges U nr ((r, b) # rest) s i =
    (case match_fold_at U s nr of
       None \<Rightarrow> []
     | Some m \<Rightarrow> [(i, i + m)]) @ fold_ranges U nr rest (drop (length b) s) (i + length b)"

definition term_ranges :: "unicode_tables \<Rightarrow> qterm \<Rightarrow> string \<Rightarrow> (nat \<times> nat) list" where
  "term_ranges U t s =
    (if tm_text t = [] then []
     else if \<not> tm_fold t then exact_ranges s (tm_text t) 0
     else if tm_ascii t then ascii_ranges s (tm_lower t)
     else fold_ranges U (runes (tm_lower t)) (chunks s) s 0)"

definition range_less :: "nat \<times> nat \<Rightarrow> nat \<times> nat \<Rightarrow> bool" where
  "range_less a b \<longleftrightarrow> (if fst a \<noteq> fst b then fst a < fst b else snd a < snd b)"

fun merge_from :: "nat \<times> nat \<Rightarrow> (nat \<times> nat) list \<Rightarrow> (nat \<times> nat) list" where
  "merge_from cur [] = [cur]"
| "merge_from (a, b) ((c, d) # rest) =
    (if c \<le> b then merge_from (a, if d > b then d else b) rest
     else (a, b) # merge_from (c, d) rest)"

definition merge_ranges :: "(nat \<times> nat) list \<Rightarrow> (nat \<times> nat) list" where
  "merge_ranges acc =
    (case stable_sort range_less acc of [] \<Rightarrow> [] | r # rs \<Rightarrow> merge_from r rs)"

definition query_ranges :: "unicode_tables \<Rightarrow> query \<Rightarrow> string \<Rightarrow> (nat \<times> nat) list" where
  "query_ranges U q s = merge_ranges (concat (map (\<lambda>t. term_ranges U t s) q))"


subsection \<open>The subsequence matcher\<close>

definition rune_eq :: "unicode_tables \<Rightarrow> bool \<Rightarrow> rune \<Rightarrow> rune \<Rightarrow> bool" where
  "rune_eq U fl a b \<longleftrightarrow> a = b \<or> (fl \<and> rune_lower U a = rune_lower U b)"

text \<open>The loop of \<open>Fuzzy\<close>: what is left of the pattern, the first match, and the gap count.\<close>

fun fuzzy_loop ::
  "unicode_tables \<Rightarrow> bool \<Rightarrow> rune list \<Rightarrow> rune list \<Rightarrow> int \<Rightarrow> int \<Rightarrow> int \<Rightarrow> int \<Rightarrow> rune list \<times> int \<times> int"
where
  "fuzzy_loop U fl [] pat prev first_at gaps idx = (pat, first_at, gaps)"
| "fuzzy_loop U fl (r # rs) [] prev first_at gaps idx =
    fuzzy_loop U fl rs [] prev first_at gaps (idx + 1)"
| "fuzzy_loop U fl (r # rs) (p # ps) prev first_at gaps idx =
    (if rune_eq U fl r p
     then fuzzy_loop U fl rs ps idx (if first_at < 0 then idx else first_at)
            (if idx \<noteq> prev + 1 then gaps + 1 else gaps) (idx + 1)
     else fuzzy_loop U fl rs (p # ps) prev first_at gaps (idx + 1))"

definition fuzzy :: "unicode_tables \<Rightarrow> string \<Rightarrow> string \<Rightarrow> bool \<times> int" where
  "fuzzy U pattern s =
    (if pattern = [] then (True, 0)
     else case fuzzy_loop U (\<not> has_upper U pattern) (runes s) (runes pattern) (-2) (-1) 0 0 of
            (rest, first_at, gaps) \<Rightarrow>
              if rest \<noteq> [] then (False, 0) else (True, gaps * 4 + first_at))"

text \<open>\<open>FuzzyRanges\<close>: the spans are built last first, so the run being extended is at the head.\<close>

fun fuzzy_spans ::
  "unicode_tables \<Rightarrow> bool \<Rightarrow> (rune \<times> string) list \<Rightarrow> rune list \<Rightarrow> nat \<Rightarrow> (nat \<times> nat) list
    \<Rightarrow> rune list \<times> (nat \<times> nat) list" where
  "fuzzy_spans U fl cs [] i out = ([], out)"
| "fuzzy_spans U fl [] (p # ps) i out = (p # ps, out)"
| "fuzzy_spans U fl ((r, b) # cs) (p # ps) i out =
    (if rune_eq U fl r p
     then fuzzy_spans U fl cs ps (i + length b)
            (case out of
               (x, y) # out' \<Rightarrow>
                 if y = i then (x, i + length b) # out' else (i, i + length b) # out
             | [] \<Rightarrow> [(i, i + length b)])
     else fuzzy_spans U fl cs (p # ps) (i + length b) out)"

definition fuzzy_ranges :: "unicode_tables \<Rightarrow> string \<Rightarrow> string \<Rightarrow> (nat \<times> nat) list option" where
  "fuzzy_ranges U pattern s =
    (if pattern = [] then None
     else case fuzzy_spans U (\<not> has_upper U pattern) (chunks s) (runes pattern) 0 [] of
            (rest, out) \<Rightarrow> if rest \<noteq> [] then None else Some (rev out))"


subsection \<open>The incremental filter\<close>

record mfilter =
  f_prev_query :: string
  f_query :: query
  f_prev_len :: nat
  f_matched :: "nat list"

definition new_filter :: mfilter where
  "new_filter = \<lparr>f_prev_query = [], f_query = [], f_prev_len = 0, f_matched = []\<rparr>"

definition filter_apply ::
  "unicode_tables \<Rightarrow> mfilter \<Rightarrow> string \<Rightarrow> string list \<Rightarrow> mfilter \<times> nat list" where
  "filter_apply U f q cmds =
    (let query = parse_query U q;
         incremental = has_prefix q (f_prev_query f) \<and> f_prev_len f \<le> length cmds;
         dst = (if incremental
                then filter (\<lambda>i. query_match U query (cmds ! i)) (f_matched f) @
                     filter (\<lambda>i. query_match U query (cmds ! i)) [f_prev_len f ..< length cmds]
                else filter (\<lambda>i. query_match U query (cmds ! i)) [0 ..< length cmds])
     in (\<lparr>f_prev_query = q, f_query = query, f_prev_len = length cmds, f_matched = dst\<rparr>, dst))"

definition filter_reset :: "mfilter \<Rightarrow> mfilter" where
  "filter_reset f = \<lparr>f_prev_query = [], f_query = [], f_prev_len = 0, f_matched = []\<rparr>"

text \<open>The reference the filter is measured against: every row, tested from scratch.\<close>

definition full_scan :: "unicode_tables \<Rightarrow> string \<Rightarrow> string list \<Rightarrow> nat list" where
  "full_scan U q cmds = filter (\<lambda>i. query_match U (parse_query U q) (cmds ! i)) [0 ..< length cmds]"


section \<open>Correctness\<close>

subsection \<open>The ASCII fast path\<close>

lemma fold_match_at_iff: "fold_match_at s n \<longleftrightarrow> has_prefix (map fold_byte s) n"
  by (induction s n rule: fold_match_at.induct) (auto simp: has_prefix_def)

lemma ascii_fold_index_iff:
  "ascii_fold_index s n \<noteq> None \<longleftrightarrow> str_contains (map fold_byte s) n"
proof (induction s n rule: ascii_fold_index.induct)
  case (1 n)
  then show ?case by (simp add: str_contains_def)
next
  case (2 c cs n)
  have "fold_match_at (c # cs) n \<longleftrightarrow> has_prefix (fold_byte c # map fold_byte cs) n"
    by (simp only: fold_match_at_iff list.map)
  with 2 show ?case by (simp add: str_contains_def del: fold_match_at.simps)
qed

lemma byte_fold: "byte (fold_byte c) = (if 65 \<le> byte c \<and> byte c \<le> 90 then byte c + 32 else byte c)"
  by (auto simp: fold_byte_def is_upper_byte_def byte_def less_eq_char_def)

lemma encode_byte: "n < 128 \<Longrightarrow> encode_rune n = [char_of n]"
  by (simp add: encode_rune_def)

lemma lower_ascii_byte:
  assumes "ascii_byte c"
  shows "encode_rune (rune_lower U (byte c)) = [fold_byte c]"
proof -
  have "rune_lower U (byte c) = byte (fold_byte c)"
    using assms by (simp add: rune_lower_def byte_fold ascii_byte_def)
  moreover have "byte (fold_byte c) < 128"
    using assms by (simp add: byte_fold ascii_byte_def)
  ultimately show ?thesis by (simp add: encode_byte byte_def)
qed

lemma str_lower_ascii: "is_ascii s \<Longrightarrow> str_lower U s = map fold_byte s"
  unfolding str_lower_def is_ascii_def
  by (simp add: runes_ascii) (induction s, auto simp: lower_ascii_byte)

lemma has_upper_ascii: "is_ascii s \<Longrightarrow> has_upper U s \<longleftrightarrow> list_ex is_upper_byte s"
  unfolding has_upper_def is_ascii_def
  by (simp add: runes_ascii)
    (induction s, auto simp: rune_is_upper_def ascii_byte_def is_upper_byte_def less_eq_char_def byte_def)

lemma no_upper_fold: "\<not> list_ex is_upper_byte s \<Longrightarrow> map fold_byte s = s"
  by (induction s) (auto simp: fold_byte_def)

lemma term_match_ascii:
  assumes "is_ascii f"
  shows "term_match U (parse_term U f) s \<longleftrightarrow>
    (if list_ex is_upper_byte f then str_contains s f else str_contains (map fold_byte s) f)"
  using assms
  by (simp add: term_match_def parse_term_def has_upper_ascii str_lower_ascii no_upper_fold
      ascii_fold_index_iff del: not_None_eq)


subsection \<open>Typing forward narrows the matches\<close>

lemma is_ascii_append: "is_ascii (p @ r) \<longleftrightarrow> is_ascii p \<and> is_ascii r"
  by (simp add: is_ascii_def)

lemma str_contains_prefix: "str_contains s (f @ r) \<Longrightarrow> str_contains s f"
  unfolding str_contains_iff by (metis append.assoc)

lemma str_contains_fold:
  "str_contains s f \<Longrightarrow> \<not> list_ex is_upper_byte f \<Longrightarrow> str_contains (map fold_byte s) f"
  unfolding str_contains_iff by (metis map_append no_upper_fold)

lemma term_match_prefix:
  assumes "is_ascii (f @ r)" and "term_match U (parse_term U (f @ r)) s"
  shows "term_match U (parse_term U f) s"
proof -
  have f: "is_ascii f" using assms(1) by (simp add: is_ascii_append)
  show ?thesis
    using assms(2) unfolding term_match_ascii [OF assms(1)] term_match_ascii [OF f]
    by (auto split: if_splits intro: str_contains_prefix str_contains_fold)
qed

lemma split_fields_prefix:
  assumes "f \<in> set (split_fields (map (\<lambda>c. (byte c, [c])) p) cur)"
  shows "\<exists>e. f @ e \<in> set (split_fields (map (\<lambda>c. (byte c, [c])) (p @ r)) cur)"
  using assms
proof (induction p arbitrary: cur)
  case Nil
  then have "cur \<noteq> []" and f: "f = cur" by (auto split: if_splits)
  moreover have "cur \<noteq> [] \<Longrightarrow>
      \<exists>e. cur @ e \<in> set (split_fields (map (\<lambda>c. (byte c, [c])) r) cur)" for cur
  proof (induction r arbitrary: cur)
    case Nil
    then show ?case by (auto intro: exI [of _ "[]"])
  next
    case (Cons c r)
    show ?case
    proof (cases "rune_is_space (byte c)")
      case True
      with Cons.prems show ?thesis by (auto intro: exI [of _ "[]"])
    next
      case False
      from Cons.IH [of "cur @ [c]"]
      obtain e where "(cur @ [c]) @ e \<in> set (split_fields (map (\<lambda>c. (byte c, [c])) r) (cur @ [c]))"
        by auto
      with False show ?thesis by (auto intro: exI [of _ "c # e"])
    qed
  qed
  ultimately show ?case by simp
next
  case (Cons c p)
  show ?case
  proof (cases "rune_is_space (byte c)")
    case True
    with Cons.prems Cons.IH [of "[]"] show ?thesis
      by (auto split: if_splits intro: exI [of _ "[]"])
  next
    case False
    with Cons.prems Cons.IH [of "cur @ [c]"] show ?thesis by auto
  qed
qed

lemma chunks_of_ascii: "is_ascii s \<Longrightarrow> chunks s = map (\<lambda>c. (byte c, [c])) s"
  unfolding is_ascii_def by (induction s) (auto simp: chunks_ascii)

lemma str_fields_prefix:
  assumes "is_ascii (p @ r)" and "f \<in> set (str_fields p)"
  shows "\<exists>e. f @ e \<in> set (str_fields (p @ r))"
proof -
  have "is_ascii p" using assms(1) by (simp add: is_ascii_append)
  then show ?thesis
    using assms(2) split_fields_prefix [of f p "[]" r]
    unfolding str_fields_def chunks_of_ascii [OF assms(1)] by (simp only: chunks_of_ascii)
qed

lemma fields_ascii:
  "list_all (\<lambda>x. is_ascii (snd x)) cs \<Longrightarrow> is_ascii cur \<Longrightarrow> g \<in> set (split_fields cs cur) \<Longrightarrow> is_ascii g"
  by (induction cs cur rule: split_fields.induct) (auto simp: is_ascii_append is_ascii_def split: if_splits)

lemma str_fields_ascii: "is_ascii q \<Longrightarrow> g \<in> set (str_fields q) \<Longrightarrow> is_ascii g"
  unfolding str_fields_def
  by (rule fields_ascii [of "chunks q" "[]"]) (auto simp: chunks_of_ascii is_ascii_def list_all_iff)

lemma query_match_prefix:
  assumes "is_ascii (p @ r)" and "query_match U (parse_query U (p @ r)) s"
  shows "query_match U (parse_query U p) s"
  unfolding query_match_def parse_query_def list_all_iff
proof safe
  fix t assume "t \<in> set (map (parse_term U) (str_fields p))"
  then obtain f where f: "f \<in> set (str_fields p)" and t: "t = parse_term U f" by auto
  from str_fields_prefix [OF assms(1) f]
  obtain e where e: "f @ e \<in> set (str_fields (p @ r))" by blast
  then have "term_match U (parse_term U (f @ e)) s"
    using assms(2) by (auto simp: query_match_def parse_query_def list_all_iff)
  with str_fields_ascii [OF assms(1) e] show "term_match U t s"
    unfolding t by (rule term_match_prefix)
qed


subsection \<open>The incremental filter agrees with the full scan\<close>

text \<open>
  What the filter remembers, relative to the corpus it is next applied to: its match set is the
  full scan of the previous query over the rows it has seen.
\<close>

definition filter_ok :: "unicode_tables \<Rightarrow> mfilter \<Rightarrow> string list \<Rightarrow> bool" where
  "filter_ok U f cmds \<longleftrightarrow>
    f_prev_len f \<le> length cmds \<and>
    f_matched f = full_scan U (f_prev_query f) (take (f_prev_len f) cmds)"

lemma full_scan_take:
  "n \<le> length cmds \<Longrightarrow>
    full_scan U q (take n cmds) = filter (\<lambda>i. query_match U (parse_query U q) (cmds ! i)) [0 ..< n]"
  unfolding full_scan_def by (auto intro!: filter_cong)

lemma filter_apply_scan:
  assumes ok: "filter_ok U f cmds" and q: "is_ascii q"
  shows "snd (filter_apply U f q cmds) = full_scan U q cmds"
proof (cases "has_prefix q (f_prev_query f) \<and> f_prev_len f \<le> length cmds")
  case True
  let ?P = "\<lambda>i. query_match U (parse_query U q) (cmds ! i)"
  let ?Q = "\<lambda>i. query_match U (parse_query U (f_prev_query f)) (cmds ! i)"
  from True obtain r where r: "q = f_prev_query f @ r" by (auto simp: has_prefix_iff)
  have le: "f_prev_len f \<le> length cmds" using True by simp
  have narrow: "?P i \<Longrightarrow> ?Q i" for i
    using query_match_prefix [of "f_prev_query f" r U] q r by blast
  have "f_matched f = filter ?Q [0 ..< f_prev_len f]"
    using ok by (simp add: filter_ok_def full_scan_take)
  then have "filter ?P (f_matched f) = filter ?P [0 ..< f_prev_len f]"
    using narrow by (auto simp: filter_filter intro!: filter_cong)
  moreover have "[0 ..< length cmds] = [0 ..< f_prev_len f] @ [f_prev_len f ..< length cmds]"
    using le by (metis le0 le_Suc_ex upt_add_eq_append)
  ultimately show ?thesis
    using True by (simp add: filter_apply_def Let_def full_scan_def)
next
  case False
  then show ?thesis by (auto simp: filter_apply_def Let_def full_scan_def)
qed

lemma filter_apply_ok:
  assumes "filter_ok U f cmds" and "is_ascii q"
  shows "filter_ok U (fst (filter_apply U f q cmds)) (cmds @ new)"
proof -
  have "f_matched (fst (filter_apply U f q cmds)) = snd (filter_apply U f q cmds)"
    and "f_prev_query (fst (filter_apply U f q cmds)) = q"
    and "f_prev_len (fst (filter_apply U f q cmds)) = length cmds"
    by (simp_all add: filter_apply_def Let_def)
  with filter_apply_scan [OF assms] show ?thesis by (simp add: filter_ok_def)
qed

text \<open>A search session: queries typed one after the other, the corpus growing between them.\<close>

fun filter_session ::
  "unicode_tables \<Rightarrow> mfilter \<Rightarrow> string list \<Rightarrow> (string \<times> string list) list \<Rightarrow> nat list list" where
  "filter_session U f cmds [] = []"
| "filter_session U f cmds ((q, new) # rest) =
    (let (f', out) = filter_apply U f q (cmds @ new)
     in out # filter_session U f' (cmds @ new) rest)"

fun scan_session :: "unicode_tables \<Rightarrow> string list \<Rightarrow> (string \<times> string list) list \<Rightarrow> nat list list" where
  "scan_session U cmds [] = []"
| "scan_session U cmds ((q, new) # rest) =
    full_scan U q (cmds @ new) # scan_session U (cmds @ new) rest"

lemma filter_ok_more: "filter_ok U f cmds \<Longrightarrow> filter_ok U f (cmds @ new)"
  by (simp add: filter_ok_def)

lemma filter_session_scan:
  "filter_ok U f cmds \<Longrightarrow> list_all (\<lambda>(q, _). is_ascii q) steps \<Longrightarrow>
    filter_session U f cmds steps = scan_session U cmds steps"
proof (induction steps arbitrary: f cmds)
  case (Cons st steps)
  obtain q new where st: "st = (q, new)" by (cases st)
  have ok: "filter_ok U f (cmds @ new)" and q: "is_ascii q"
    using Cons.prems filter_ok_more by (auto simp: st)
  obtain f' out where r: "filter_apply U f q (cmds @ new) = (f', out)" by fastforce
  have "filter_ok U f' (cmds @ new)"
    using filter_apply_ok [OF ok q, of "[]"] by (simp add: r)
  with Cons.IH [of f' "cmds @ new"] Cons.prems filter_apply_scan [OF ok q]
  show ?case by (simp add: st r)
qed simp

lemma new_filter_ok: "filter_ok U new_filter cmds"
  by (simp add: filter_ok_def new_filter_def full_scan_def)

lemma filter_reset_ok: "filter_ok U (filter_reset f) cmds"
  by (simp add: filter_ok_def filter_reset_def full_scan_def)


subsection \<open>The subsequence matcher\<close>

text \<open>The greedy left-to-right loop consumes the pattern exactly when it embeds in the string.\<close>

lemma fuzzy_loop_emb:
  "fst (fuzzy_loop U fl rs pat prev first_at gaps idx) = [] \<longleftrightarrow>
    list_emb (\<lambda>p r. rune_eq U fl r p) pat rs"
  by (induction U fl rs pat prev first_at gaps idx rule: fuzzy_loop.induct) auto

lemma fuzzy_spans_emb:
  "fst (fuzzy_spans U fl cs pat i out) = [] \<longleftrightarrow>
    list_emb (\<lambda>p r. rune_eq U fl r p) pat (map fst cs)"
  by (induction U fl cs pat i out rule: fuzzy_spans.induct) (auto split: list.splits)

lemma runes_Nil_iff [simp]: "runes s = [] \<longleftrightarrow> s = []"
  unfolding runes_def by (cases s) (auto simp: chunks.simps(2) split: prod.splits)

lemma fuzzy_emb:
  "fst (fuzzy U pattern s) \<longleftrightarrow>
    list_emb (\<lambda>p r. rune_eq U (\<not> has_upper U pattern) r p) (runes pattern) (runes s)"
proof (cases "pattern = []")
  case True
  then show ?thesis by (simp add: fuzzy_def runes_def)
next
  case False
  then show ?thesis
    using fuzzy_loop_emb [of U "\<not> has_upper U pattern" "runes s" "runes pattern" "-2" "-1" 0 0]
    by (auto simp: fuzzy_def split: prod.splits)
qed

lemma fuzzy_ranges_emb:
  "fuzzy_ranges U pattern s \<noteq> None \<longleftrightarrow> pattern \<noteq> [] \<and> fst (fuzzy U pattern s)"
proof (cases "pattern = []")
  case False
  then show ?thesis
    using fuzzy_spans_emb [of U "\<not> has_upper U pattern" "chunks s" "runes pattern" 0 "[]"]
    by (auto simp: fuzzy_ranges_def fuzzy_emb runes_def split: prod.splits)
qed (simp add: fuzzy_ranges_def)

text \<open>The score is never negative, and zero only for a gap-free match at the start.\<close>

lemma fuzzy_loop_score:
  assumes "0 \<le> gaps" and "-1 \<le> first_at" and "0 \<le> idx"
    and "fuzzy_loop U fl rs pat prev first_at gaps idx = (left, fa, g)"
  shows "gaps \<le> g \<and> -1 \<le> fa \<and> (0 \<le> first_at \<longrightarrow> fa = first_at) \<and>
    (pat \<noteq> [] \<and> left = [] \<longrightarrow> 0 \<le> fa)"
  using assms
proof (induction U fl rs pat prev first_at gaps idx rule: fuzzy_loop.induct)
  case (3 U fl r rs p ps prev first_at gaps idx)
  show ?case
  proof (cases "rune_eq U fl r p")
    case True
    from 3(1) [OF True] 3(3-) True show ?thesis
      by (cases ps) (auto split: if_splits)
  next
    case False
    from 3(2) [OF False] 3(3-) False show ?thesis by auto
  qed
qed auto

subsection \<open>Merged highlight ranges\<close>

definition covers :: "(nat \<times> nat) list \<Rightarrow> nat set" where
  "covers rs = (\<Union>(a, b) \<in> set rs. {a ..< b})"

fun spaced :: "(nat \<times> nat) list \<Rightarrow> bool" where
  "spaced ((a, b) # (c, d) # rest) = (b < c \<and> spaced ((c, d) # rest))"
| "spaced rs = True"

lemma merge_from_spaced:
  "\<exists>b'. b \<le> b' \<and> (\<exists>tl. merge_from (a, b) rs = (a, b') # tl) \<and> spaced (merge_from (a, b) rs)"
proof (induction rs arbitrary: a b)
  case (Cons r rs)
  obtain c d where r: "r = (c, d)" by (cases r)
  show ?case
  proof (cases "c \<le> b")
    case True
    with Cons [of "if d > b then d else b" a] show ?thesis by (auto simp: r)
  next
    case False
    from Cons [of d c] obtain e tl where "merge_from (c, d) rs = (c, e) # tl"
      and "spaced (merge_from (c, d) rs)" by blast
    with False show ?thesis by (auto simp: r)
  qed
qed simp

lemma covers_Cons [simp]: "covers ((a, b) # rs) = {a ..< b} \<union> covers rs"
  and covers_Nil [simp]: "covers [] = {}"
  by (auto simp: covers_def)

lemma merge_from_covers:
  "sorted_wrt (\<lambda>x y. fst x \<le> fst y) ((a, b) # rs) \<Longrightarrow> list_all (\<lambda>(c, d). c \<le> d) ((a, b) # rs) \<Longrightarrow>
    covers (merge_from (a, b) rs) = covers ((a, b) # rs)"
proof (induction rs arbitrary: a b)
  case (Cons r rs)
  obtain c d where r: "r = (c, d)" by (cases r)
  show ?case
  proof (cases "c \<le> b")
    case True
    from Cons.prems have "covers (merge_from (a, if d > b then d else b) rs)
        = covers ((a, if d > b then d else b) # rs)"
      by (intro Cons.IH) (auto simp: r)
    with True Cons.prems show ?thesis by (auto simp: r)
  next
    case False
    with Cons.IH [of c d] Cons.prems show ?thesis by (auto simp: r)
  qed
qed simp

lemma range_less_weak: "strict_weak range_less"
  unfolding strict_weak_def range_less_def by (auto split: if_splits)

lemma covers_cong: "set rs = set rs' \<Longrightarrow> covers rs = covers rs'"
  by (simp add: covers_def)

lemma merge_ranges_spaced: "spaced (merge_ranges acc)"
proof (cases "stable_sort range_less acc")
  case (Cons r rs)
  with merge_from_spaced [of "snd r" "fst r" rs] show ?thesis by (auto simp: merge_ranges_def)
qed (simp add: merge_ranges_def)

lemma merge_ranges_covers:
  assumes "list_all (\<lambda>(a, b). a \<le> b) acc"
  shows "covers (merge_ranges acc) = covers acc"
proof -
  let ?s = "stable_sort range_less acc"
  have "sorted_wrt (\<lambda>x y. \<not> range_less y x) ?s"
    by (rule stable_sort_ordered [OF range_less_weak])
  then have sorted: "sorted_wrt (\<lambda>x y. fst x \<le> fst y) ?s"
    by (rule sorted_wrt_mono_rel [rotated]) (auto simp: range_less_def split: if_splits)
  have all: "list_all (\<lambda>(a, b). a \<le> b) ?s" using assms by (simp add: list_all_iff)
  have "covers (merge_ranges acc) = covers ?s"
  proof (cases ?s)
    case (Cons r rs)
    with merge_from_covers [of "fst r" "snd r" rs] sorted all show ?thesis
      by (simp add: merge_ranges_def)
  qed (simp add: merge_ranges_def)
  also have "\<dots> = covers acc" by (rule covers_cong) simp
  finally show ?thesis .
qed


subsection \<open>Where typing forward does not narrow\<close>

text \<open>
  A table with one entry beyond the identity: U+212A, the Kelvin sign, lowers to \<open>k\<close>. The query
  \<open>k\<close> is ASCII and takes the byte scan, which the three bytes of the Kelvin sign never meet; the
  longer query \<open>k U+00E5\<close> is not ASCII, folds whole strings, and does match.
\<close>

definition kelvin_tables :: unicode_tables where
  "kelvin_tables = \<lparr>ut_lower = (\<lambda>r. if r = 8490 then 107 else r), ut_upper = (\<lambda>r. r = 8490)\<rparr>"

definition kelvin_row :: string where
  "kelvin_row = [CHR 0xE2, CHR 0x84, CHR 0xAA, CHR 0xC3, CHR 0xA5]"

definition k_aring :: string where
  "k_aring = [CHR ''k'', CHR 0xC3, CHR 0xA5]"


lemma kelvin_chunks:
  "chunks kelvin_row = [(8490, [CHR 0xE2, CHR 0x84, CHR 0xAA]), (229, [CHR 0xC3, CHR 0xA5])]"
  by (simp add: kelvin_row_def chunks.simps(2) byte_def cont_byte_def)

lemma k_aring_chunks: "chunks k_aring = [(107, ''k''), (229, [CHR 0xC3, CHR 0xA5])]"
  by (simp add: k_aring_def chunks.simps(2) byte_def cont_byte_def)

lemma kelvin_lower: "str_lower kelvin_tables kelvin_row = k_aring"
  by (simp add: str_lower_def runes_def kelvin_chunks rune_lower_def kelvin_tables_def encode_rune_def
      k_aring_def char_of_def bit_Suc_0_iff)

lemma kelvin_ascii_query: "parse_query U ''k'' = [parse_term U ''k'']"
  by (simp add: parse_query_def str_fields_def chunks_of_ascii is_ascii_def ascii_byte_def byte_def
      rune_is_space_def)

lemma kelvin_miss: "\<not> term_match U (parse_term U ''k'') kelvin_row"
  by (subst term_match_ascii)
    (simp_all add: is_ascii_def ascii_byte_def byte_def is_upper_byte_def less_eq_char_def kelvin_row_def
      fold_byte_def str_contains_def has_prefix_def)

lemma kelvin_query: "parse_query kelvin_tables k_aring =
    [\<lparr>tm_text = k_aring, tm_lower = k_aring, tm_fold = True, tm_ascii = False\<rparr>]"
proof -
  have fields: "str_fields k_aring = [k_aring]"
    by (simp add: str_fields_def k_aring_chunks rune_is_space_def) (simp add: k_aring_def)
  have "\<not> has_upper kelvin_tables k_aring"
    by (simp add: has_upper_def runes_def k_aring_chunks rune_is_upper_def kelvin_tables_def)
  moreover have "str_lower kelvin_tables k_aring = k_aring"
    unfolding str_lower_def runes_def k_aring_chunks
    by (simp add: rune_lower_def kelvin_tables_def encode_rune_def k_aring_def char_of_def bit_Suc_0_iff)
  moreover have "\<not> is_ascii k_aring"
    by (simp add: is_ascii_def k_aring_def ascii_byte_def byte_def)
  ultimately show ?thesis by (simp add: parse_query_def fields parse_term_def)
qed

lemma kelvin_hit: "query_match kelvin_tables (parse_query kelvin_tables k_aring) kelvin_row"
  by (simp add: kelvin_query query_match_def term_match_def kelvin_lower)
    (simp add: k_aring_def str_contains_def has_prefix_def)


subsection \<open>Highlights and matches\<close>

lemma str_index_found: "str_index s t = Some i \<Longrightarrow> i + length t \<le> length s"
proof (induction s t arbitrary: i rule: str_index.induct)
  case (2 c cs t)
  show ?case
  proof (cases "has_prefix (c # cs) t")
    case True
    then obtain r where "c # cs = t @ r" by (auto simp: has_prefix_iff)
    then have "length t \<le> length (c # cs)" by (metis le_add1 length_append)
    with True 2(2) show ?thesis by simp
  next
    case False
    with 2 show ?thesis by (cases "str_index cs t") auto
  qed
qed (auto split: if_splits)

lemma exact_ranges_in: "(a, b) \<in> set (exact_ranges s t from) \<Longrightarrow> a < b \<and> b \<le> length s"
proof (induction s t "from" rule: exact_ranges.induct)
  case (1 s t "from")
  show ?case
  proof (cases "t = [] \<or> length s < from \<or> str_index (drop from s) t = None")
    case True
    then have "exact_ranges s t from = []" by (subst exact_ranges.simps) auto
    with 1(2) show ?thesis by simp
  next
    case False
    then obtain i where i: "str_index (drop from s) t = Some i" by auto
    with str_index_found [OF i] False have "from + i + length t \<le> length s" by auto
    moreover have "exact_ranges s t from =
        (from + i, from + i + length t) # exact_ranges s t (from + i + 1)"
      using False i by (subst exact_ranges.simps) simp
    ultimately show ?thesis using 1 False i by auto
  qed
qed

lemma exact_ranges_any: "t \<noteq> [] \<Longrightarrow> exact_ranges s t 0 \<noteq> [] \<longleftrightarrow> str_contains s t"
  by (subst exact_ranges.simps) (simp add: str_contains_def split: option.split)

lemma fold_match_length: "fold_match_at s n \<Longrightarrow> length n \<le> length s"
  by (induction s n rule: fold_match_at.induct) auto

lemma fold_index_any: "ascii_fold_index s n \<noteq> None \<longleftrightarrow> (\<exists>i \<le> length s. fold_match_at (drop i s) n)"
proof (induction s n rule: ascii_fold_index.induct)
  case (1 n)
  then show ?case by (cases n) auto
next
  case (2 c cs n)
  have "(\<exists>i \<le> length (c # cs). fold_match_at (drop i (c # cs)) n) \<longleftrightarrow>
      fold_match_at (c # cs) n \<or> (\<exists>i \<le> length cs. fold_match_at (drop i cs) n)"
    by (metis Suc_le_mono drop0 drop_Suc_Cons le0 length_Cons not0_implies_Suc)
  with 2 show ?case by (simp del: fold_match_at.simps)
qed

lemma ascii_ranges_any: "ascii_ranges s n \<noteq> [] \<longleftrightarrow> ascii_fold_index s n \<noteq> None"
proof -
  have "i < (if length s < length n then 0 else Suc (length s - length n)) \<longleftrightarrow> i \<le> length s"
    if "fold_match_at (drop i s) n" "i \<le> length s" for i
    using fold_match_length [OF that(1)] that(2) by auto
  moreover have "i < (if length s < length n then 0 else Suc (length s - length n)) \<Longrightarrow> i \<le> length s" for i
    by (auto split: if_splits)
  ultimately have "ascii_ranges s n \<noteq> [] \<longleftrightarrow> (\<exists>i \<le> length s. fold_match_at (drop i s) n)"
    unfolding ascii_ranges_def by (simp only: map_is_Nil_conv filter_empty_conv set_upt) fastforce
  then show ?thesis by (simp only: fold_index_any)
qed

lemma ascii_ranges_in: "n \<noteq> [] \<Longrightarrow> (a, b) \<in> set (ascii_ranges s n) \<Longrightarrow> a < b \<and> b \<le> length s"
  by (auto simp: ascii_ranges_def split: if_splits)

lemma term_ranges_ascii:
  assumes "is_ascii f" and "f \<noteq> []"
  shows "term_ranges U (parse_term U f) s =
    (if list_ex is_upper_byte f then exact_ranges s f 0 else ascii_ranges s f)"
  using assms by (simp add: term_ranges_def parse_term_def has_upper_ascii str_lower_ascii no_upper_fold)

lemma term_ranges_match:
  assumes "is_ascii f" and "f \<noteq> []"
  shows "term_ranges U (parse_term U f) s \<noteq> [] \<longleftrightarrow> term_match U (parse_term U f) s"
    and "(a, b) \<in> set (term_ranges U (parse_term U f) s) \<Longrightarrow> a < b \<and> b \<le> length s"
proof -
  show "term_ranges U (parse_term U f) s \<noteq> [] \<longleftrightarrow> term_match U (parse_term U f) s"
    using assms by (simp add: term_ranges_ascii term_match_ascii exact_ranges_any ascii_ranges_any
        ascii_fold_index_iff del: not_None_eq)
  show "(a, b) \<in> set (term_ranges U (parse_term U f) s) \<Longrightarrow> a < b \<and> b \<le> length s"
    using assms exact_ranges_in ascii_ranges_in by (auto simp: term_ranges_ascii split: if_splits)
qed

lemma str_fields_ne: "f \<in> set (str_fields q) \<Longrightarrow> f \<noteq> []"
proof -
  have "f \<in> set (split_fields cs cur) \<Longrightarrow> f \<noteq> []" for cs cur
    by (induction cs cur rule: split_fields.induct) (auto split: if_splits)
  then show "f \<in> set (str_fields q) \<Longrightarrow> f \<noteq> []" by (simp add: str_fields_def)
qed


subsection \<open>Properties\<close>

text \<open>C16 Incremental search agrees with a full scan: from an empty filter, whatever ASCII queries are
  typed and however the corpus grows between keystrokes, every answer is the list of rows that match
  the query from scratch.\<close>

theorem filter_session_full:
  assumes "list_all (\<lambda>(q, _). is_ascii q) steps"
  shows "filter_session U new_filter cmds steps = scan_session U cmds steps"
  by (rule filter_session_scan [OF new_filter_ok assms])

lemma filter_session_full_witness:
  "filter_session kelvin_tables new_filter [''git log'', ''ls'']
     [(''g'', []), (''gi'', [''Git status'']), (''G'', [])] =
   scan_session kelvin_tables [''git log'', ''ls''] [(''g'', []), (''gi'', [''Git status'']), (''G'', [])]"
  by (rule filter_session_full) (simp add: is_ascii_def ascii_byte_def byte_def)

text \<open>Outside ASCII the incremental filter loses rows: with the Kelvin sign lowering to k, the row
  Kelvin-sign a-ring does not match the query k, so extending the query to k a-ring, which the row
  does match, answers nothing.\<close>

theorem filter_incremental_kelvin:
  "(let f = fst (filter_apply kelvin_tables new_filter ''k'' [kelvin_row])
    in snd (filter_apply kelvin_tables f k_aring [kelvin_row])) = [] \<and>
   full_scan kelvin_tables k_aring [kelvin_row] = [0]"
proof -
  have "has_prefix k_aring ''k''" by (simp add: k_aring_def has_prefix_def)
  then show ?thesis
    using kelvin_hit kelvin_miss [of kelvin_tables]
    by (simp add: full_scan_def filter_apply_def new_filter_def Let_def kelvin_ascii_query
        query_match_def)
qed

text \<open>Highlight spans of an ASCII query: they are in order and never touch, lie inside the row, cover
  exactly the bytes of the occurrences of the terms, and a term has an occurrence exactly when it
  matches the row.\<close>

theorem query_ranges_match:
  assumes "is_ascii q"
  shows "spaced (query_ranges U (parse_query U q) s) \<and>
    covers (query_ranges U (parse_query U q) s) =
      (\<Union>t \<in> set (parse_query U q). covers (term_ranges U t s)) \<and>
    covers (query_ranges U (parse_query U q) s) \<subseteq> {..< length s} \<and>
    (\<forall>t \<in> set (parse_query U q). covers (term_ranges U t s) \<noteq> {} \<longleftrightarrow> term_match U t s)"
proof -
  let ?ts = "parse_query U q"
  let ?acc = "concat (map (\<lambda>t. term_ranges U t s) ?ts)"
  have spans: "a < b \<and> b \<le> length s" if "t \<in> set ?ts" and "(a, b) \<in> set (term_ranges U t s)" for t a b
  proof -
    from that(1) obtain f where "t = parse_term U f" "f \<in> set (str_fields q)"
      by (auto simp: parse_query_def)
    with that(2) str_fields_ascii [OF assms] str_fields_ne show ?thesis
      using term_ranges_match(2) by blast
  qed
  have "list_all (\<lambda>(a, b). a \<le> b) ?acc"
    using spans by (fastforce simp: list_all_iff)
  then have cov: "covers (query_ranges U ?ts s) = (\<Union>t \<in> set ?ts. covers (term_ranges U t s))"
    unfolding query_ranges_def by (simp add: merge_ranges_covers) (auto simp: covers_def)
  have inside: "(\<Union>t \<in> set ?ts. covers (term_ranges U t s)) \<subseteq> {..< length s}"
    using spans by (fastforce simp: covers_def)
  have "covers (term_ranges U t s) \<noteq> {} \<longleftrightarrow> term_match U t s" if t: "t \<in> set ?ts" for t
  proof -
    from t obtain f where f: "t = parse_term U f" "f \<in> set (str_fields q)"
      by (auto simp: parse_query_def)
    have "covers (term_ranges U t s) \<noteq> {} \<longleftrightarrow> term_ranges U t s \<noteq> []"
      using spans [OF t] by (cases "term_ranges U t s") (fastforce simp: covers_def)+
    then show ?thesis
      using f str_fields_ascii [OF assms] str_fields_ne term_ranges_match(1) by metis
  qed
  with cov inside show ?thesis by (simp add: query_ranges_def merge_ranges_spaced)
qed

lemma query_ranges_match_witness:
  "spaced (query_ranges kelvin_tables (parse_query kelvin_tables ''an na'') ''Banana'')"
proof -
  have "is_ascii ''an na''" by (simp add: is_ascii_def ascii_byte_def byte_def)
  then show ?thesis by (rule query_ranges_match [THEN conjunct1])
qed

text \<open>The subsequence matcher accepts exactly the patterns whose runes embed in order in the string
  (case folded unless the pattern has an upper case letter), its score is not negative, and highlight
  spans exist for exactly the accepted non-empty patterns.\<close>

theorem fuzzy_subsequence:
  "(fst (fuzzy U pattern s) \<longleftrightarrow>
      list_emb (\<lambda>p r. rune_eq U (\<not> has_upper U pattern) r p) (runes pattern) (runes s)) \<and>
   0 \<le> snd (fuzzy U pattern s) \<and>
   (fuzzy_ranges U pattern s \<noteq> None \<longleftrightarrow> pattern \<noteq> [] \<and> fst (fuzzy U pattern s))"
proof -
  have "0 \<le> snd (fuzzy U pattern s)"
  proof (cases "fuzzy_loop U (\<not> has_upper U pattern) (runes s) (runes pattern) (-2) (-1) 0 0")
    case (fields left fa g)
    with fuzzy_loop_score [OF _ _ _ fields] show ?thesis
      by (cases "pattern = []") (auto simp: fuzzy_def)
  qed
  with fuzzy_emb [of U pattern s] fuzzy_ranges_emb [of U pattern s] show ?thesis by blast
qed

end
