(* ===== verification/Bolt.thy ===== *)
theory Bolt
  imports Prelude
begin

text \<open>
  The embedded key-value store \<open>go.etcd.io/bbolt\<close> is third-party code, so it is a parameter of the
  model: the record type \<open>kv\<close> holds the operations of one bucket the program calls, and the locale
  \<open>bucket\<close> states their documented behaviour. A bucket is an ordered map from byte keys to values; a
  cursor walks it in ascending byte order of the keys; \<open>NextSequence\<close> is a counter kept with the
  bucket. The locale is interpreted on a write-log implementation, \<open>log_kv\<close>, on which the witnesses
  evaluate.

  A value is a \<open>blob\<close>: the bytes \<open>json.Marshal\<close> made of a document, or other bytes.
  \<open>json.Unmarshal\<close> fails on the latter, so the branches of the code that handle an undecodable row
  stay in the model.

  The second half is \<open>encoding/binary\<close>'s big-endian key, which makes byte order and numeric order
  agree.
\<close>

record ('b, 'v) kv =
  kv_empty :: 'b
  kv_get :: "'b \<Rightarrow> string \<Rightarrow> 'v option"
  kv_put :: "'b \<Rightarrow> string \<Rightarrow> 'v \<Rightarrow> 'b"
  kv_del :: "'b \<Rightarrow> string \<Rightarrow> 'b"
  kv_items :: "'b \<Rightarrow> (string \<times> 'v) list"
  kv_seq :: "'b \<Rightarrow> u64"
  kv_next :: "'b \<Rightarrow> 'b"

datatype 'j blob = Doc 'j | Raw string

fun unmarshal :: "'j blob \<Rightarrow> 'j option" where
  "unmarshal (Doc j) = Some j"
| "unmarshal (Raw s) = None"

text \<open>A put seen through the walk: the entry lands at its place in key order.\<close>

fun put_sorted :: "string \<Rightarrow> 'v \<Rightarrow> (string \<times> 'v) list \<Rightarrow> (string \<times> 'v) list" where
  "put_sorted k v [] = [(k, v)]"
| "put_sorted k v ((k', w) # xs) =
    (if k < k' then (k, v) # (k', w) # xs
     else if k = k' then (k, v) # xs
     else (k', w) # put_sorted k v xs)"

lemma map_of_put_sorted:
  "map_of (put_sorted k v xs) k' = (if k' = k then Some v else map_of xs k')"
  by (induction k v xs rule: put_sorted.induct) auto

lemma keys_put_sorted: "set (map fst (put_sorted k v xs)) = insert k (set (map fst xs))"
  by (induction k v xs rule: put_sorted.induct) auto

lemma put_sorted_sorted:
  "sorted_wrt (<) (map fst xs) \<Longrightarrow> sorted_wrt (<) (map fst (put_sorted k v xs))"
proof (induction k v xs rule: put_sorted.induct)
  case (2 k v k' w xs)
  then show ?case using keys_put_sorted [of k v xs]
    by (auto simp del: set_map dest: order.strict_trans)
qed simp

text \<open>Cursor positions derived from the walk: \<open>Seek\<close> and \<open>Last\<close>.\<close>

definition kv_seek :: "('b, 'v) kv \<Rightarrow> 'b \<Rightarrow> string \<Rightarrow> (string \<times> 'v) list" where
  "kv_seek K b k = dropWhile (\<lambda>(k', _). k' < k) (kv_items K b)"

definition kv_last_key :: "('b, 'v) kv \<Rightarrow> 'b \<Rightarrow> string option" where
  "kv_last_key K b =
    (if kv_items K b = [] then None else Some (fst (last (kv_items K b))))"


subsection \<open>The contract of a bucket\<close>

locale bucket =
  fixes K :: "('b, 'v) kv"
  assumes get_items: "kv_get K b k = map_of (kv_items K b) k"
    and items_sorted: "sorted_wrt (<) (map fst (kv_items K b))"
    and get_empty [simp]: "kv_get K (kv_empty K) k = None"
    and get_put [simp]: "kv_get K (kv_put K b k v) k' = (if k' = k then Some v else kv_get K b k')"
    and get_del [simp]: "kv_get K (kv_del K b k) k' = (if k' = k then None else kv_get K b k')"
    and get_next [simp]: "kv_get K (kv_next K b) k = kv_get K b k"
    and seq_empty [simp]: "kv_seq K (kv_empty K) = 0"
    and seq_put [simp]: "kv_seq K (kv_put K b k v) = kv_seq K b"
    and seq_del [simp]: "kv_seq K (kv_del K b k) = kv_seq K b"
    and seq_next [simp]: "kv_seq K (kv_next K b) = kv_seq K b + 1"
begin

lemma items_distinct [simp]: "distinct (map fst (kv_items K b))"
  using items_sorted [of b] by (simp add: strict_sorted_iff)

lemma mem_items: "(k, v) \<in> set (kv_items K b) \<longleftrightarrow> kv_get K b k = Some v"
  by (simp add: get_items)

lemma key_items: "k \<in> set (map fst (kv_items K b)) \<longleftrightarrow> kv_get K b k \<noteq> None"
  by (metis get_items map_of_eq_None_iff set_map)

lemma items_unique:
  assumes "sorted_wrt (<) (map fst xs)" and "\<And>k. kv_get K b k = map_of xs k"
  shows "kv_items K b = xs"
proof -
  have d: "distinct (map fst xs)" using assms(1) by (simp add: strict_sorted_iff)
  have mem: "set (kv_items K b) = set xs"
    using assms(2) d by (auto simp: mem_items)
  then have "map fst (kv_items K b) = map fst xs"
    using items_sorted [of b] assms(1)
    by (intro sorted_distinct_set_unique) (auto simp: strict_sorted_iff image_iff)
  with mem d show ?thesis
    by (metis distinct_map inj_on_map_eq_map items_distinct map_eq_imp_length_eq
        sup.idem)
qed

lemma items_eqI: "(\<And>k. kv_get K b k = kv_get K c k) \<Longrightarrow> kv_items K b = kv_items K c"
  by (rule items_unique) (simp_all add: items_sorted get_items)

lemma items_put_max:
  assumes "\<And>k'. kv_get K b k' \<noteq> None \<Longrightarrow> k' < k"
  shows "kv_items K (kv_put K b k v) = kv_items K b @ [(k, v)]"
proof (rule items_unique)
  have "\<forall>k' \<in> set (map fst (kv_items K b)). k' < k" using assms key_items by blast
  then show "sorted_wrt (<) (map fst (kv_items K b @ [(k, v)]))"
    using items_sorted [of b] by (auto simp: sorted_wrt_append)
  have "kv_get K b k = None" using assms by blast
  then show "kv_get K (kv_put K b k v) k' = map_of (kv_items K b @ [(k, v)]) k'" for k'
    unfolding get_put by (auto simp: get_items map_add_def split: option.splits)
qed

lemma items_put_old:
  assumes "kv_get K b k \<noteq> None"
  shows "kv_items K (kv_put K b k v) = map (\<lambda>(k', w). (k', if k' = k then v else w)) (kv_items K b)"
proof (rule items_unique)
  let ?f = "\<lambda>(k', w). (k', if k' = k then v else w)"
  have keys: "map fst (map ?f xs) = map fst xs" for xs by (induction xs) auto
  show "sorted_wrt (<) (map fst (map ?f (kv_items K b)))"
    unfolding keys by (rule items_sorted)
  have "map_of (map ?f xs) k' = (if k' = k \<and> map_of xs k \<noteq> None then Some v else map_of xs k')"
    for xs k' by (induction xs) auto
  then show "kv_get K (kv_put K b k v) k' = map_of (map ?f (kv_items K b)) k'" for k'
    unfolding get_put using assms by (simp add: get_items)
qed

lemma items_map:
  assumes "\<And>k. kv_get K c k = map_option f (kv_get K b k)"
  shows "kv_items K c = map (\<lambda>(k, v). (k, f v)) (kv_items K b)"
proof (rule items_unique)
  have keys: "map fst (map (\<lambda>(k, v). (k, f v)) xs) = map fst xs" for xs :: "(string \<times> 'v) list"
    by (induction xs) auto
  show "sorted_wrt (<) (map fst (map (\<lambda>(k, v). (k, f v)) (kv_items K b)))"
    unfolding keys by (rule items_sorted)
  have "map_of (map (\<lambda>(k, v). (k, f v)) xs) k = map_option f (map_of xs k)"
    for xs :: "(string \<times> 'v) list" and k
    by (induction xs) auto
  then show "kv_get K c k = map_of (map (\<lambda>(k, v). (k, f v)) (kv_items K b)) k" for k
    unfolding assms unfolding get_items by simp
qed

lemma items_put: "kv_items K (kv_put K b k v) = put_sorted k v (kv_items K b)"
proof (rule items_unique)
  show "sorted_wrt (<) (map fst (put_sorted k v (kv_items K b)))"
    by (rule put_sorted_sorted) (rule items_sorted)
  show "kv_get K (kv_put K b k v) k' = map_of (put_sorted k v (kv_items K b)) k'" for k'
    unfolding map_of_put_sorted get_put by (simp add: get_items)
qed

lemma items_del_first:
  assumes "kv_items K b = (k, v) # rest"
  shows "kv_items K (kv_del K b k) = rest"
proof (rule items_unique)
  have sorted: "sorted_wrt (<) (map fst ((k, v) # rest))"
    using items_sorted [of b] assms by simp
  then show "sorted_wrt (<) (map fst rest)" by simp
  from sorted have "map_of rest k = None" by (auto simp: map_of_eq_None_iff)
  then show "kv_get K (kv_del K b k) k' = map_of rest k'" for k'
    unfolding get_del using assms by (simp add: get_items)
qed

lemma items_next [simp]: "kv_items K (kv_next K b) = kv_items K b"
  by (rule items_eqI) simp

lemma items_Nil: "kv_items K b = [] \<longleftrightarrow> (\<forall>k. kv_get K b k = None)"
proof
  assume "kv_items K b = []"
  then show "\<forall>k. kv_get K b k = None" by (simp add: get_items)
next
  assume none: "\<forall>k. kv_get K b k = None"
  show "kv_items K b = []"
  proof (cases "kv_items K b")
    case (Cons x xs)
    then have "kv_get K b (fst x) = Some (snd x)" by (simp add: get_items)
    with none show ?thesis by simp
  qed
qed

lemma items_empty [simp]: "kv_items K (kv_empty K) = []"
  by (simp add: items_Nil)

lemma last_key_None: "kv_last_key K b = None \<longleftrightarrow> (\<forall>k. kv_get K b k = None)"
  by (simp add: kv_last_key_def items_Nil)

lemma last_key_Some:
  assumes "kv_last_key K b = Some k"
  shows "kv_get K b k \<noteq> None" and "\<And>k'. kv_get K b k' \<noteq> None \<Longrightarrow> k' \<le> k"
proof -
  from assms have ne: "kv_items K b \<noteq> []" and k: "k = last (map fst (kv_items K b))"
    by (auto simp: kv_last_key_def last_map split: if_splits)
  then have "k \<in> set (map fst (kv_items K b))" by (metis last_in_set map_is_Nil_conv)
  then show "kv_get K b k \<noteq> None" using key_items by blast
  fix k' assume "kv_get K b k' \<noteq> None"
  then have mem: "k' \<in> set (map fst (kv_items K b))" using key_items by blast
  have "\<forall>x \<in> set xs. x \<le> last xs" if "sorted xs" for xs :: "string list"
    using that by (induction xs) (auto split: if_splits)
  moreover have "sorted (map fst (kv_items K b))"
    using items_sorted [of b] by (simp add: strict_sorted_iff)
  ultimately show "k' \<le> k" using mem unfolding k by blast
qed

lemma seek_eq: "kv_seek K b k = filter (\<lambda>(k', _). k \<le> k') (kv_items K b)"
proof -
  have "dropWhile (\<lambda>(k', _). k' < k) xs = filter (\<lambda>(k', _). k \<le> k') xs"
    if "sorted_wrt (<) (map fst xs)" for xs :: "(string \<times> 'v) list"
    using that
  proof (induction xs)
    case Nil
    then show ?case by simp
  next
    case (Cons x xs)
    show ?case
    proof (cases "fst x < k")
      case True
      with Cons show ?thesis by (auto simp: case_prod_beta)
    next
      case False
      with Cons.prems have "filter (\<lambda>(k', _). k \<le> k') xs = xs"
        by (intro filter_True) (auto simp: case_prod_beta not_less dest: order.strict_implies_order
            intro: order.trans)
      with False show ?thesis by (simp add: case_prod_unfold not_less)
    qed
  qed
  then show ?thesis unfolding kv_seek_def using items_sorted by blast
qed

end


subsection \<open>A write log implements the contract\<close>

type_synonym 'v log_bucket = "(string \<times> 'v) list \<times> u64"

definition log_items :: "'v log_bucket \<Rightarrow> (string \<times> 'v) list" where
  "log_items b = map (\<lambda>k. (k, the (map_of (fst b) k))) (sort (remdups (map fst (fst b))))"

definition log_kv :: "('v log_bucket, 'v) kv" where
  "log_kv =
    \<lparr>kv_empty = ([], 0),
     kv_get = \<lambda>b k. map_of (fst b) k,
     kv_put = \<lambda>b k v. ((k, v) # fst b, snd b),
     kv_del = \<lambda>b k. (filter (\<lambda>(k', _). k' \<noteq> k) (fst b), snd b),
     kv_items = log_items,
     kv_seq = snd,
     kv_next = \<lambda>b. (fst b, snd b + 1)\<rparr>"

lemma map_of_map_keys:
  "map_of (map (\<lambda>k. (k, f k)) ks) k = (if k \<in> set ks then Some (f k) else None)"
  by (induction ks) auto

lemma map_of_filter_ne:
  "map_of (filter (\<lambda>(k', _). k' \<noteq> k) xs) k' = (if k' = k then None else map_of xs k')"
  by (induction xs) auto

lemma map_of_log_items: "map_of (log_items b) k = map_of (fst b) k"
proof (cases "map_of (fst b) k")
  case None
  then have "k \<notin> fst ` set (fst b)" by (simp add: map_of_eq_None_iff)
  with None show ?thesis by (simp add: log_items_def map_of_map_keys)
next
  case (Some v)
  then have "k \<in> fst ` set (fst b)" by (metis map_of_eq_None_iff option.distinct(1))
  with Some show ?thesis by (simp add: log_items_def map_of_map_keys)
qed

interpretation log: bucket log_kv
proof (unfold_locales, goal_cases)
  case (1 b k)
  then show ?case by (simp add: log_kv_def map_of_log_items)
next
  case (2 b)
  then show ?case by (simp add: log_kv_def log_items_def strict_sorted_iff comp_def)
qed (simp_all add: log_kv_def map_of_filter_ne)


subsection \<open>Big-endian keys\<close>

fun be_bytes :: "nat \<Rightarrow> nat \<Rightarrow> string" where
  "be_bytes 0 n = []"
| "be_bytes (Suc k) n = be_bytes k (n div 256) @ [char_of (n mod 256)]"

definition be_value :: "string \<Rightarrow> nat" where
  "be_value b = foldl (\<lambda>acc c. acc * 256 + byte c) 0 b"

text \<open>\<open>seqKey\<close> and \<open>beUint64\<close>: the 8-byte key of a sequence number and its reading back.\<close>

definition seq_key :: "u64 \<Rightarrow> string" where
  "seq_key n = be_bytes 8 (unat n)"

definition be_uint64 :: "string \<Rightarrow> u64" where
  "be_uint64 b = (if length b \<noteq> 8 then 0 else of_nat (be_value b))"

lemma length_be_bytes [simp]: "length (be_bytes k n) = k"
  by (induction k arbitrary: n) auto

lemma be_value_snoc: "be_value (b @ [c]) = be_value b * 256 + byte c"
  by (simp add: be_value_def)

lemma be_value_Cons: "be_value (c # b) = byte c * 256 ^ length b + be_value b"
proof (induction b rule: rev_induct)
  case Nil
  then show ?case by (simp add: be_value_def)
next
  case (snoc d b)
  have "be_value (c # b @ [d]) = be_value (c # b) * 256 + byte d"
    using be_value_snoc [of "c # b" d] by simp
  with snoc show ?case by (simp add: be_value_snoc algebra_simps)
qed

lemma be_value_less: "be_value b < 256 ^ length b"
proof (induction b)
  case Nil
  then show ?case by (simp add: be_value_def)
next
  case (Cons c b)
  have "byte c \<le> 255" using byte_less_256 [of c] by linarith
  then have "byte c * 256 ^ length b \<le> 255 * 256 ^ length b" by (rule mult_right_mono) simp
  then have "byte c * 256 ^ length b + be_value b < 256 * 256 ^ length b"
    using Cons by linarith
  then show ?case by (simp add: be_value_Cons)
qed

lemma be_value_bytes: "be_value (be_bytes k n) = n mod 256 ^ k"
proof (induction k arbitrary: n)
  case 0
  then show ?case by (simp add: be_value_def)
next
  case (Suc k)
  have "n mod (256 * 256 ^ k) = 256 * (n div 256 mod 256 ^ k) + n mod 256"
    by (rule mod_mult2_eq)
  with Suc show ?case by (simp add: be_value_snoc byte_def algebra_simps)
qed

lemma byte_less_iff: "byte c < byte d \<longleftrightarrow> c < d"
  by (simp add: byte_def less_char_def)

lemma be_value_Cons_less:
  assumes "length cs = length ds" and "c < d"
  shows "be_value (c # cs) < be_value (d # ds)"
proof -
  have "byte c + 1 \<le> byte d" using assms(2) by (simp add: byte_less_iff Suc_le_eq)
  then have "(byte c + 1) * 256 ^ length ds \<le> byte d * 256 ^ length ds"
    by (rule mult_right_mono) simp
  moreover have "be_value cs < 256 ^ length ds"
    using be_value_less [of cs] assms(1) by simp
  ultimately show ?thesis using assms(1) by (simp add: be_value_Cons algebra_simps)
qed

lemma be_value_less_iff: "length a = length b \<Longrightarrow> be_value a < be_value b \<longleftrightarrow> a < b"
proof (induction a b rule: list_induct2)
  case Nil
  then show ?case by simp
next
  case (Cons c cs d ds)
  consider "c < d" | "d < c" | "c = d" by (rule linorder_cases)
  then show ?case
  proof cases
    case 1
    then show ?thesis using be_value_Cons_less [of cs ds c d] Cons.hyps by simp
  next
    case 2
    then have "be_value (d # ds) < be_value (c # cs)"
      using be_value_Cons_less [of ds cs d c] Cons.hyps by simp
    with 2 show ?thesis by auto
  next
    case 3
    with Cons show ?thesis by (simp add: be_value_Cons)
  qed
qed

lemma length_seq_key [simp]: "length (seq_key n) = 8"
  by (simp add: seq_key_def)

lemma be_value_seq_key: "be_value (seq_key n) = unat n"
proof -
  have "unat n < 256 ^ 8" using unsigned_less [of n, where ?'a = nat] by simp
  then show ?thesis by (simp add: seq_key_def be_value_bytes)
qed

lemma be_uint64_seq_key [simp]: "be_uint64 (seq_key n) = n"
  by (simp add: be_uint64_def be_value_seq_key)

lemma seq_key_inject [simp]: "seq_key m = seq_key n \<longleftrightarrow> m = n"
  by (metis be_uint64_seq_key)

lemma seq_key_less [simp]: "seq_key m < seq_key n \<longleftrightarrow> m < n"
  using be_value_less_iff [of "seq_key m" "seq_key n"]
  by (simp add: be_value_seq_key word_less_nat_alt)

lemma seq_key_le [simp]: "seq_key m \<le> seq_key n \<longleftrightarrow> m \<le> n"
  by (simp add: linorder_not_less [symmetric])

end
