(* ===== verification/History_Record.thy ===== *)
theory History_Record
  imports Prelude
begin

text \<open>
  \<open>internal/rec\<close>: the record every part of the program exchanges, its type tags, and the
  deterministic id of an imported command. \<open>sha256.Sum256\<close> is the parameter \<open>H\<close>; a fresh ULID
  (\<open>rec.NewID\<close>, clock and random source) is an input wherever one is drawn.

  \<open>json_rec\<close> is what \<open>json.Unmarshal\<close> reads back after \<open>json.Marshal\<close>: every field survives, but a
  byte of a string that is not part of well-formed UTF-8 comes back as U+FFFD.
\<close>

definition type_cmd :: string where [simp]: "type_cmd = ''''"
definition type_delete :: string where [simp]: "type_delete = ''delete''"
definition type_tag :: string where [simp]: "type_tag = ''tag''"
definition type_prompt :: string where [simp]: "type_prompt = ''prompt''"

definition tag_op_add :: string where [simp]: "tag_op_add = ''''"
definition tag_op_remove :: string where [simp]: "tag_op_remove = ''remove''"

record hrec =
  r_id :: string
  r_type :: string
  r_target_id :: string
  r_host_id :: string
  r_hostname :: string
  r_seq :: u64
  r_session :: string
  r_cmd :: string
  r_cwd :: string
  r_exit :: "int option"
  r_dur_ms :: "int option"
  r_start_ms :: int
  r_executor :: string
  r_prompt_id :: string
  r_prompt :: string
  r_tag_name :: string
  r_tag_desc :: string
  r_tag_op :: string
  r_tags :: "string list"
  r_deleted_ms :: int
  r_key_id :: string

text \<open>\<open>rec.Record{}\<close>, Go's zero value.\<close>

definition zero_rec :: hrec where
  "zero_rec =
    \<lparr>r_id = '''', r_type = '''', r_target_id = '''', r_host_id = '''', r_hostname = '''',
     r_seq = 0, r_session = '''', r_cmd = '''', r_cwd = '''', r_exit = None, r_dur_ms = None,
     r_start_ms = 0, r_executor = '''', r_prompt_id = '''', r_prompt = '''', r_tag_name = '''',
     r_tag_desc = '''', r_tag_op = '''', r_tags = [], r_deleted_ms = 0, r_key_id = ''''\<rparr>"

definition deleted :: "hrec \<Rightarrow> bool" where
  "deleted r \<longleftrightarrow> r_deleted_ms r \<noteq> 0"

definition hex_digit :: "nat \<Rightarrow> char" where
  "hex_digit n = (if n < 10 then char_of (48 + n) else char_of (87 + n))"

definition hex_encode :: "string \<Rightarrow> string" where
  "hex_encode s = concat (map (\<lambda>c. [hex_digit (byte c div 16), hex_digit (byte c mod 16)]) s)"

definition import_id :: "(string \<Rightarrow> string) \<Rightarrow> string \<Rightarrow> int \<Rightarrow> string \<Rightarrow> string" where
  "import_id H host_id start_ms cmd =
    take 32 (hex_encode
      (H (''import|'' @ host_id @ ''|'' @ format_int start_ms @ ''|'' @ cmd)))"

text \<open>The JSON round trip of one string, and of a record.\<close>

definition json_str :: "string \<Rightarrow> string" where
  "json_str s =
    concat (map (\<lambda>(r, b). if r = rune_error \<and> length b = 1 then encode_rune rune_error else b)
      (chunks s))"

definition json_rec :: "hrec \<Rightarrow> hrec" where
  "json_rec r = r
    \<lparr>r_id := json_str (r_id r), r_type := json_str (r_type r),
     r_target_id := json_str (r_target_id r), r_host_id := json_str (r_host_id r),
     r_hostname := json_str (r_hostname r), r_session := json_str (r_session r),
     r_cmd := json_str (r_cmd r), r_cwd := json_str (r_cwd r),
     r_executor := json_str (r_executor r), r_prompt_id := json_str (r_prompt_id r),
     r_prompt := json_str (r_prompt r), r_tag_name := json_str (r_tag_name r),
     r_tag_desc := json_str (r_tag_desc r), r_tag_op := json_str (r_tag_op r),
     r_tags := map json_str (r_tags r), r_key_id := json_str (r_key_id r)\<rparr>"

lemma json_str_ascii_Cons: "ascii_byte c \<Longrightarrow> json_str (c # cs) = c # json_str cs"
  by (simp add: json_str_def chunks_ascii ascii_byte_def rune_error_def)

lemma json_str_Nil [simp]: "json_str [] = []"
  by (simp add: json_str_def)

lemma json_str_ascii: "list_all ascii_byte s \<Longrightarrow> json_str s = s"
  by (induction s) (auto simp: json_str_ascii_Cons)

text \<open>A string no byte of which is replaced is a fixed point: well-formed UTF-8 survives.\<close>

definition valid_utf8 :: "string \<Rightarrow> bool" where
  "valid_utf8 s \<longleftrightarrow> list_all (\<lambda>(r, b). \<not> (r = rune_error \<and> length b = 1)) (chunks s)"

lemma json_str_valid: "valid_utf8 s \<Longrightarrow> json_str s = s"
proof -
  assume "valid_utf8 s"
  then have "map (\<lambda>(r, b). if r = rune_error \<and> length b = 1 then encode_rune rune_error else b)
      (chunks s) = map snd (chunks s)"
    by (auto simp: valid_utf8_def list_all_iff intro!: map_cong)
  then show ?thesis unfolding json_str_def by (metis concat_chunks)
qed

lemma decode_rune_extend:
  assumes "decode_rune (c # cs) = (r, n)" and "\<not> (r = rune_error \<and> n = 1)"
  shows "decode_rune (take n (c # cs) @ t) = (r, n)"
  using assms
  by (auto simp: Let_def split: if_splits list.splits)

lemma chunks_valid_step:
  assumes "decode_rune b = (r, length b)" and "b \<noteq> []" and "\<And>t. decode_rune (b @ t) = (r, length b)"
  shows "chunks (b @ t) = (r, b) # chunks t"
proof -
  obtain c cs where b: "b = c # cs" using assms(2) by (cases b) auto
  show ?thesis using assms(3) [of t] by (simp add: b chunks.simps(2) del: decode_rune.simps)
qed

lemma json_str_step:
  assumes "decode_rune (c # cs) = (r, n)"
  shows "json_str (c # cs) =
    (if r = rune_error \<and> n = 1 then encode_rune rune_error else take n (c # cs)) @ json_str (drop n (c # cs))"
proof -
  have "1 \<le> n" "n \<le> length (c # cs)" using decode_rune_width [of "c # cs"] assms by auto
  then have "length (take n (c # cs)) = n" by simp
  then show ?thesis using assms by (simp add: json_str_def chunks.simps(2) del: decode_rune.simps)
qed

lemma valid_json_str: "valid_utf8 (json_str s)"
proof (induction s rule: chunks.induct)
  case 1
  then show ?case by (simp add: valid_utf8_def)
next
  case (2 c cs)
  obtain r n where d: "decode_rune (c # cs) = (r, n)" by force
  have n: "1 \<le> n" "n \<le> length (c # cs)" using decode_rune_width [of "c # cs"] d by auto
  have ih: "valid_utf8 (json_str (drop n (c # cs)))" by (rule 2 [OF d [symmetric] refl])
  show ?case
  proof (cases "r = rune_error \<and> n = 1")
    case True
    have len3: "length (encode_rune rune_error) = 3" by (simp add: encode_rune_def rune_error_def)
    have "chunks (encode_rune rune_error @ t) = (rune_error, encode_rune rune_error) # chunks t" for t
      by (rule chunks_valid_step) (simp_all add: encode_rune_def rune_error_def byte_def cont_byte_def)
    then show ?thesis using ih True
      len3 unfolding json_str_step [OF d] by (simp add: valid_utf8_def)
  next
    case False
    let ?b = "take n (c # cs)"
    have len: "length ?b = n" using n by simp
    have "decode_rune (?b @ t) = (r, n)" for t by (rule decode_rune_extend [OF d False])
    then have ext: "decode_rune (?b @ t) = (r, length ?b)" for t using len by simp
    have "?b \<noteq> []" using n by (cases n) auto
    then have "chunks (?b @ t) = (r, ?b) # chunks t" for t
      by (rule chunks_valid_step [OF ext [of "[]", unfolded append_Nil2] _ ext])
    then show ?thesis using ih False len unfolding json_str_step [OF d] by (auto simp: valid_utf8_def)
  qed
qed

lemma json_str_idem [simp]: "json_str (json_str s) = json_str s"
  by (rule json_str_valid [OF valid_json_str])

lemma json_str_Nil_iff: "json_str s = [] \<longleftrightarrow> s = []"
proof (cases s)
  case Nil
  then show ?thesis by simp
next
  case (Cons c cs)
  obtain r n where d: "decode_rune (c # cs) = (r, n)" by force
  with decode_rune_width [of "c # cs"] have "1 \<le> n" by simp
  moreover have "encode_rune rune_error \<noteq> []" by (simp add: encode_rune_def)
  ultimately show ?thesis
    by (auto simp: Cons json_str_def chunks.simps(2) d simp del: decode_rune.simps)
qed

lemma json_rec_sel [simp]:
  "r_seq (json_rec r) = r_seq r" "r_exit (json_rec r) = r_exit r"
  "r_dur_ms (json_rec r) = r_dur_ms r" "r_start_ms (json_rec r) = r_start_ms r"
  "r_deleted_ms (json_rec r) = r_deleted_ms r" "r_id (json_rec r) = json_str (r_id r)"
  "r_type (json_rec r) = json_str (r_type r)" "r_cmd (json_rec r) = json_str (r_cmd r)"
  "r_target_id (json_rec r) = json_str (r_target_id r)"
  by (simp_all add: json_rec_def)

lemma json_rec_set_deleted: "json_rec (r\<lparr>r_deleted_ms := t\<rparr>) = (json_rec r)\<lparr>r_deleted_ms := t\<rparr>"
  by (simp add: json_rec_def)

lemma json_rec_idem [simp]: "json_rec (json_rec r) = json_rec r"
  by (simp add: json_rec_def comp_def)

end
