(* ===== verification/Store.thy ===== *)
theory Store
  imports Bolt History_Record
begin

text \<open>
  \<open>internal/store\<close>: the local history database. Three buckets: \<open>history\<close> (8-byte sequence key to
  record JSON), \<open>ids\<close> (record id to sequence key) and \<open>meta\<close>. Every operation is given the bucket
  operations \<open>K\<close>; a transaction that fails returns no new state, which is bbolt's rollback. The
  clock (\<open>now\<close>) and fresh ULIDs are inputs. The file lock and the opening of the file are outside the
  model, as is \<open>BackupTo\<close>, which hands the transaction to bbolt.
\<close>

datatype store_error =
    DecodeFailed
  | SchemaBad string
  | SchemaNewer int
  | RecordNotFound string
  | IndexedButMissing string

record 'b store =
  st_history :: 'b
  st_ids :: 'b
  st_meta :: 'b
  st_host_id :: string
  st_hostname :: string
  st_schema :: int

type_synonym 'b hist_kv = "('b, hrec blob) kv"

definition meta_host_id :: string where [simp]: "meta_host_id = ''host_id''"
definition meta_hostname :: string where [simp]: "meta_hostname = ''hostname''"
definition meta_schema :: string where [simp]: "meta_schema = ''schema''"

definition schema_version :: int where [simp]: "schema_version = 1"

text \<open>The bytes of a stored value; the index and meta buckets hold nothing but raw bytes.\<close>

fun raw_bytes :: "'j blob \<Rightarrow> string" where
  "raw_bytes (Raw s) = s"
| "raw_bytes (Doc _) = []"

definition marshal_rec :: "hrec \<Rightarrow> hrec blob" where
  "marshal_rec r = Doc (json_rec r)"

text \<open>\<open>seqKey\<close> of this package.\<close>

abbreviation store_seq_key :: "u64 \<Rightarrow> string" where
  "store_seq_key \<equiv> seq_key"


subsection \<open>Opening\<close>

definition check_schema :: "'b hist_kv \<Rightarrow> 'b \<Rightarrow> store_error + (int \<times> 'b)" where
  "check_schema K mb =
    (case kv_get K mb meta_schema of
       None \<Rightarrow> Inr (schema_version, kv_put K mb meta_schema (Raw (format_int schema_version)))
     | Some raw \<Rightarrow>
         (case parse_int64 (raw_bytes raw) of
            None \<Rightarrow> Inl (SchemaBad (raw_bytes raw))
          | Some v \<Rightarrow>
              if v < 1 then Inl (SchemaBad (raw_bytes raw))
              else if v > schema_version then Inl (SchemaNewer v)
              else Inr (v, mb)))"

text \<open>
  The transaction of \<open>Open\<close>: \<open>hostname\<close> is what the OS reported ("" on failure), \<open>fresh\<close> the ULID
  drawn when the database has no host id yet.
\<close>

definition open_store ::
  "'b hist_kv \<Rightarrow> string \<Rightarrow> string \<Rightarrow> 'b \<Rightarrow> 'b \<Rightarrow> 'b \<Rightarrow> store_error + 'b store" where
  "open_store K hostname fresh hb ib mb =
    (case check_schema K mb of
       Inl e \<Rightarrow> Inl e
     | Inr (schema, mb1) \<Rightarrow>
         let mb2 = (if kv_get K mb1 meta_host_id = None
                    then kv_put K mb1 meta_host_id (Raw fresh) else mb1);
             mb3 = (if hostname \<noteq> [] then kv_put K mb2 meta_hostname (Raw hostname) else mb2);
             str = (\<lambda>v. case v of None \<Rightarrow> [] | Some x \<Rightarrow> raw_bytes x)
         in Inr \<lparr>st_history = hb, st_ids = ib, st_meta = mb3,
                 st_host_id = str (kv_get K mb3 meta_host_id),
                 st_hostname = str (kv_get K mb3 meta_hostname),
                 st_schema = schema\<rparr>)"


subsection \<open>Appending\<close>

text \<open>
  The tombstone step of \<open>appendOne\<close>: a delete record whose target is in this store stamps the
  target's row.
\<close>

definition apply_tombstone ::
  "'b hist_kv \<Rightarrow> int \<Rightarrow> 'b \<Rightarrow> hrec \<Rightarrow> 'b \<Rightarrow> store_error + 'b" where
  "apply_tombstone K now ib r hb =
    (if r_type r = type_delete \<and> r_target_id r \<noteq> [] then
       (case kv_get K ib (r_target_id r) of
          None \<Rightarrow> Inr hb
        | Some tkey \<Rightarrow>
            (case kv_get K hb (raw_bytes tkey) of
               None \<Rightarrow> Inr hb
             | Some v \<Rightarrow>
                 (case unmarshal v of
                    None \<Rightarrow> Inl DecodeFailed
                  | Some target \<Rightarrow>
                      let ts = (if r_start_ms r = 0 then now else r_start_ms r)
                      in Inr (kv_put K hb (raw_bytes tkey)
                           (marshal_rec (target\<lparr>r_deleted_ms := ts\<rparr>))))))
     else Inr hb)"

definition append_one ::
  "'b hist_kv \<Rightarrow> int \<Rightarrow> string \<Rightarrow> 'b store \<Rightarrow> hrec \<Rightarrow> store_error + ('b store \<times> hrec \<times> bool)" where
  "append_one K now fresh s r =
    (case (if r_id r \<noteq> [] then kv_get K (st_ids s) (r_id r) else None) of
       Some key \<Rightarrow>
         (case kv_get K (st_history s) (raw_bytes key) of
            None \<Rightarrow> Inr (s, zero_rec, False)
          | Some v \<Rightarrow>
              (case unmarshal v of
                 None \<Rightarrow> Inl DecodeFailed
               | Some existing \<Rightarrow> Inr (s, existing, False)))
     | None \<Rightarrow>
         let hb1 = kv_next K (st_history s);
             sq = kv_seq K hb1;
             r1 = r\<lparr>r_seq := sq, r_host_id := st_host_id s, r_hostname := st_hostname s,
                    r_id := (if r_id r = [] then fresh else r_id r)\<rparr>
         in (case apply_tombstone K now (st_ids s) r1 hb1 of
               Inl e \<Rightarrow> Inl e
             | Inr hb2 \<Rightarrow>
                 Inr (s\<lparr>st_history := kv_put K hb2 (store_seq_key sq) (marshal_rec r1),
                        st_ids := kv_put K (st_ids s) (r_id r1) (Raw (store_seq_key sq))\<rparr>,
                      r1, True)))"

text \<open>\<open>Append\<close> and \<open>AppendBatch\<close>: one transaction each, so an error leaves the store as it was.\<close>

definition store_append ::
  "'b hist_kv \<Rightarrow> int \<Rightarrow> string \<Rightarrow> 'b store \<Rightarrow> hrec \<Rightarrow> 'b store \<times> (store_error + hrec)" where
  "store_append K now fresh s r =
    (case append_one K now fresh s r of
       Inl e \<Rightarrow> (s, Inl e)
     | Inr (s', out, _) \<Rightarrow> (s', Inr out))"

fun append_all ::
  "'b hist_kv \<Rightarrow> int \<Rightarrow> string list \<Rightarrow> 'b store \<Rightarrow> hrec list \<Rightarrow> nat \<Rightarrow> store_error + ('b store \<times> nat)"
where
  "append_all K now fresh s [] added = Inr (s, added)"
| "append_all K now fresh s (r # rs) added =
    (case append_one K now (case fresh of [] \<Rightarrow> [] | f # _ \<Rightarrow> f) s r of
       Inl e \<Rightarrow> Inl e
     | Inr (s', _, ok) \<Rightarrow>
         append_all K now (tl fresh) s' rs (if ok then added + 1 else added))"

definition append_batch ::
  "'b hist_kv \<Rightarrow> int \<Rightarrow> string list \<Rightarrow> 'b store \<Rightarrow> hrec list \<Rightarrow> 'b store \<times> (store_error + nat)" where
  "append_batch K now fresh s rs =
    (case append_all K now fresh s rs 0 of
       Inl e \<Rightarrow> (s, Inl e)
     | Inr (s', added) \<Rightarrow> (s', Inr added))"


subsection \<open>Reading\<close>

text \<open>
  A record belongs to the searchable corpus when it is a command and is not tombstoned.
\<close>

definition is_command :: "hrec \<Rightarrow> bool" where
  "is_command r \<longleftrightarrow>
    \<not> (r_type r = type_delete \<or> r_type r = type_tag \<or> r_type r = type_prompt) \<and> r_deleted_ms r = 0"

text \<open>The cursor loops: the first row that does not decode ends the scan with an error.\<close>

fun scan_rows :: "(hrec \<Rightarrow> bool) \<Rightarrow> (string \<times> hrec blob) list \<Rightarrow> store_error + hrec list" where
  "scan_rows keep [] = Inr []"
| "scan_rows keep ((k, v) # rows) =
    (case unmarshal v of
       None \<Rightarrow> Inl DecodeFailed
     | Some r \<Rightarrow>
         (case scan_rows keep rows of
            Inl e \<Rightarrow> Inl e
          | Inr out \<Rightarrow> Inr (if keep r then r # out else out)))"

definition all_records :: "'b hist_kv \<Rightarrow> 'b store \<Rightarrow> store_error + hrec list" where
  "all_records K s = scan_rows is_command (kv_items K (st_history s))"

definition records_of_type :: "'b hist_kv \<Rightarrow> string \<Rightarrow> 'b store \<Rightarrow> store_error + hrec list" where
  "records_of_type K typ s = scan_rows (\<lambda>r. r_type r = typ) (kv_items K (st_history s))"

definition tag_records :: "'b hist_kv \<Rightarrow> 'b store \<Rightarrow> store_error + hrec list" where
  "tag_records K s = records_of_type K type_tag s"

definition prompt_records :: "'b hist_kv \<Rightarrow> 'b store \<Rightarrow> store_error + hrec list" where
  "prompt_records K s = records_of_type K type_prompt s"

fun count_rows :: "(string \<times> hrec blob) list \<Rightarrow> nat \<Rightarrow> store_error + nat" where
  "count_rows [] n = Inr n"
| "count_rows ((k, v) # rows) n =
    (case unmarshal v of
       None \<Rightarrow> Inl DecodeFailed
     | Some r \<Rightarrow> count_rows rows (if is_command r then n + 1 else n))"

definition count_records :: "'b hist_kv \<Rightarrow> 'b store \<Rightarrow> store_error + nat" where
  "count_records K s = count_rows (kv_items K (st_history s)) 0"

text \<open>\<open>Since\<close>: the loop appends first and checks the limit after.\<close>

fun since_rows :: "int \<Rightarrow> (string \<times> hrec blob) list \<Rightarrow> hrec list \<Rightarrow> store_error + hrec list" where
  "since_rows limit [] out = Inr out"
| "since_rows limit ((k, v) # rows) out =
    (case unmarshal v of
       None \<Rightarrow> Inl DecodeFailed
     | Some r \<Rightarrow>
         (let out' = out @ [r]
          in if limit > 0 \<and> int (length out') \<ge> limit then Inr out'
             else since_rows limit rows out'))"

definition since :: "'b hist_kv \<Rightarrow> 'b store \<Rightarrow> u64 \<Rightarrow> int \<Rightarrow> store_error + hrec list" where
  "since K s sq limit =
    since_rows limit (kv_seek K (st_history s) (store_seq_key (sq + 1))) []"

definition last_seq :: "'b hist_kv \<Rightarrow> 'b store \<Rightarrow> u64" where
  "last_seq K s = kv_seq K (st_history s)"

definition mark_deleted ::
  "'b hist_kv \<Rightarrow> int \<Rightarrow> 'b store \<Rightarrow> string \<Rightarrow> int \<Rightarrow> 'b store \<times> store_error option" where
  "mark_deleted K now s rid ts =
    (let ts' = (if ts = 0 then now else ts) in
     case kv_get K (st_ids s) rid of
       None \<Rightarrow> (s, Some (RecordNotFound rid))
     | Some key \<Rightarrow>
         (case kv_get K (st_history s) (raw_bytes key) of
            None \<Rightarrow> (s, Some (IndexedButMissing rid))
          | Some v \<Rightarrow>
              (case unmarshal v of
                 None \<Rightarrow> (s, Some DecodeFailed)
               | Some r \<Rightarrow>
                   (s\<lparr>st_history := kv_put K (st_history s) (raw_bytes key)
                        (marshal_rec (r\<lparr>r_deleted_ms := ts'\<rparr>))\<rparr>, None))))"

definition store_meta :: "'b hist_kv \<Rightarrow> 'b store \<Rightarrow> string \<Rightarrow> string" where
  "store_meta K s key =
    (case kv_get K (st_meta s) key of None \<Rightarrow> [] | Some v \<Rightarrow> raw_bytes v)"

definition set_meta :: "'b hist_kv \<Rightarrow> 'b store \<Rightarrow> string \<Rightarrow> string \<Rightarrow> 'b store" where
  "set_meta K s key val = s\<lparr>st_meta := kv_put K (st_meta s) key (Raw val)\<rparr>"



subsection \<open>The abstract store\<close>

text \<open>
  What the three buckets stand for is the list of stored records in sequence order; the index is a
  lookup by id in that list. \<open>store_ok\<close> is the representation invariant.
\<close>

definition row_of :: "string \<times> hrec blob \<Rightarrow> hrec" where
  "row_of kv = (case snd kv of Doc r \<Rightarrow> r | Raw _ \<Rightarrow> zero_rec)"

lemma row_of_Doc [simp]: "row_of (k, Doc r) = r"
  by (simp add: row_of_def)

definition stream :: "'b hist_kv \<Rightarrow> 'b store \<Rightarrow> hrec list" where
  "stream K s = map row_of (kv_items K (st_history s))"

definition store_ok :: "'b hist_kv \<Rightarrow> 'b store \<Rightarrow> bool" where
  "store_ok K s \<longleftrightarrow>
    (\<forall>k v. kv_get K (st_history s) k = Some v \<longrightarrow>
       (\<exists>r. v = Doc r \<and> k = seq_key (r_seq r) \<and> 0 < r_seq r \<and>
          r_seq r \<le> kv_seq K (st_history s) \<and>
          kv_get K (st_ids s) (r_id r) = Some (Raw (seq_key (r_seq r))))) \<and>
    (\<forall>i v. kv_get K (st_ids s) i = Some v \<longrightarrow>
       i \<noteq> [] \<and> json_str i = i \<and>
       (\<exists>r. v = Raw (seq_key (r_seq r)) \<and> r_id r = i \<and>
          kv_get K (st_history s) (seq_key (r_seq r)) = Some (Doc r)))"

text \<open>The specification of an append, over the list of rows.\<close>

definition stamp_target :: "int \<Rightarrow> hrec \<Rightarrow> hrec \<Rightarrow> hrec" where
  "stamp_target now r x =
    (if r_type r = type_delete \<and> r_target_id r \<noteq> [] \<and> r_id x = r_target_id r
     then json_rec (x\<lparr>r_deleted_ms := (if r_start_ms r = 0 then now else r_start_ms r)\<rparr>) else x)"

definition spec_append ::
  "u64 \<Rightarrow> string \<Rightarrow> string \<Rightarrow> int \<Rightarrow> string \<Rightarrow> hrec list \<Rightarrow> hrec \<Rightarrow> hrec list \<times> hrec \<times> bool" where
  "spec_append sq host hostname now fresh rows r =
    (case (if r_id r = [] then None else List.find (\<lambda>x. r_id x = r_id r) rows) of
       Some x \<Rightarrow> (rows, x, False)
     | None \<Rightarrow>
         let r1 = r\<lparr>r_seq := sq, r_host_id := host, r_hostname := hostname,
                    r_id := (if r_id r = [] then fresh else r_id r)\<rparr>
         in (map (stamp_target now r1) rows @ [json_rec r1], r1, True))"

text \<open>An id the store can file a record under: it survives JSON and is not the empty string.\<close>

definition good_id :: "string \<Rightarrow> bool" where
  "good_id i \<longleftrightarrow> i \<noteq> [] \<and> json_str i = i"

text \<open>The store's client view of a bucket: the contract at the type of the history database.\<close>

locale history_bucket = bucket K
  for K :: "('b, hrec blob) kv"
begin

lemma store_ok_history:
  "store_ok K s \<Longrightarrow> kv_get K (st_history s) k = Some v \<Longrightarrow>
    \<exists>r. v = Doc r \<and> k = seq_key (r_seq r) \<and> 0 < r_seq r \<and> r_seq r \<le> kv_seq K (st_history s) \<and>
      kv_get K (st_ids s) (r_id r) = Some (Raw (seq_key (r_seq r)))"
  unfolding store_ok_def by blast

lemma store_ok_ids:
  "store_ok K s \<Longrightarrow> kv_get K (st_ids s) i = Some v \<Longrightarrow>
    i \<noteq> [] \<and> json_str i = i \<and>
    (\<exists>r. v = Raw (seq_key (r_seq r)) \<and> r_id r = i \<and>
      kv_get K (st_history s) (seq_key (r_seq r)) = Some (Doc r))"
  unfolding store_ok_def by blast

lemma stream_mem:
  assumes "store_ok K s"
  shows "r \<in> set (stream K s) \<longleftrightarrow> kv_get K (st_history s) (seq_key (r_seq r)) = Some (Doc r)"
proof
  assume "r \<in> set (stream K s)"
  then obtain k v where kv: "kv_get K (st_history s) k = Some v" "r = row_of (k, v)"
    by (auto simp: stream_def mem_items)
  with store_ok_history [OF assms kv(1)] show
    "kv_get K (st_history s) (seq_key (r_seq r)) = Some (Doc r)"
    by (auto simp: row_of_def)
next
  assume "kv_get K (st_history s) (seq_key (r_seq r)) = Some (Doc r)"
  then have "(seq_key (r_seq r), Doc r) \<in> set (kv_items K (st_history s))" by (simp add: mem_items)
  then show "r \<in> set (stream K s)" by (force simp: stream_def row_of_def)
qed

lemma ids_stream:
  assumes "store_ok K s" and "r \<in> set (stream K s)"
  shows "kv_get K (st_ids s) (r_id r) = Some (Raw (seq_key (r_seq r)))"
  using assms by (metis stream_mem store_ok_history blob.inject(1))

lemma ids_None:
  assumes "store_ok K s"
  shows "kv_get K (st_ids s) i = None \<longleftrightarrow> (\<forall>r \<in> set (stream K s). r_id r \<noteq> i)"
proof
  assume "kv_get K (st_ids s) i = None"
  with ids_stream [OF assms] show "\<forall>r \<in> set (stream K s). r_id r \<noteq> i" by fastforce
next
  assume none: "\<forall>r \<in> set (stream K s). r_id r \<noteq> i"
  show "kv_get K (st_ids s) i = None"
  proof (cases "kv_get K (st_ids s) i")
    case (Some v)
    with store_ok_ids [OF assms Some] none stream_mem [OF assms] show ?thesis by blast
  qed
qed

lemma find_stream:
  assumes "store_ok K s"
  shows "List.find (\<lambda>x. r_id x = i) (stream K s) =
    (case kv_get K (st_ids s) i of
       None \<Rightarrow> None
     | Some key \<Rightarrow> Option.bind (kv_get K (st_history s) (raw_bytes key)) unmarshal)"
proof (cases "kv_get K (st_ids s) i")
  case None
  with ids_None [OF assms, of i] have "List.find (\<lambda>x. r_id x = i) (stream K s) = None"
    by (simp add: find_None_iff)
  with None show ?thesis by simp
next
  case (Some v)
  with store_ok_ids [OF assms Some] obtain r where r: "v = Raw (seq_key (r_seq r))" "r_id r = i"
      "kv_get K (st_history s) (seq_key (r_seq r)) = Some (Doc r)" by blast
  have uniq: "x = r" if "x \<in> set (stream K s)" "r_id x = i" for x
  proof -
    have "seq_key (r_seq x) = seq_key (r_seq r)"
      using ids_stream [OF assms that(1)] Some r(1) that(2) by simp
    moreover have "kv_get K (st_history s) (seq_key (r_seq x)) = Some (Doc x)"
      using that(1) stream_mem [OF assms] by blast
    ultimately have "Some (Doc x) = Some (Doc r)" using r(3) by metis
    then show ?thesis by (metis blob.inject(1) option.inject)
  qed
  have "List.find (\<lambda>x. r_id x = i) (stream K s) = Some r"
  proof (rule find_unique)
    show "r \<in> set (stream K s)" using r(3) stream_mem [OF assms] by blast
    show "r_id r = i" by (rule r(2))
    show "x = r" if "x \<in> set (stream K s)" and "r_id x = i" for x
      using that by (rule uniq)
  qed
  then show ?thesis using Some r by simp
qed

lemma history_all_docs:
  "store_ok K s \<Longrightarrow> (k, v) \<in> set (kv_items K (st_history s)) \<Longrightarrow> v = Doc (row_of (k, v))"
  by (auto simp: mem_items row_of_def dest!: store_ok_history)

lemma scan_rows_ok:
  "\<forall>(k, v) \<in> set xs. v = Doc (row_of (k, v)) \<Longrightarrow>
    scan_rows keep xs = Inr (filter keep (map row_of xs))"
proof (induction xs)
  case Nil
  then show ?case by simp
next
  case (Cons x xs)
  obtain k r where "x = (k, Doc r)" using Cons.prems by (cases x) auto
  with Cons show ?case by auto
qed

lemma count_rows_ok:
  "\<forall>(k, v) \<in> set xs. v = Doc (row_of (k, v)) \<Longrightarrow>
    count_rows xs n = Inr (n + length (filter is_command (map row_of xs)))"
proof (induction xs arbitrary: n)
  case Nil
  then show ?case by simp
next
  case (Cons x xs)
  obtain k r where "x = (k, Doc r)" using Cons.prems by (cases x) auto
  with Cons show ?case by auto
qed

lemma since_rows_ok:
  "\<forall>(k, v) \<in> set xs. v = Doc (row_of (k, v)) \<Longrightarrow>
    limit \<le> 0 \<or> int (length out) < limit \<Longrightarrow>
    since_rows limit xs out =
      Inr (out @ (if limit \<le> 0 then map row_of xs
                  else take (nat limit - length out) (map row_of xs)))"
proof (induction xs arbitrary: out)
  case Nil
  then show ?case by simp
next
  case (Cons x xs)
  obtain k r where x: "x = (k, Doc r)" using Cons.prems by (cases x) auto
  show ?case
  proof (cases "limit > 0 \<and> int (length (out @ [r])) \<ge> limit")
    case True
    with Cons.prems(2) have "nat limit - length out = Suc 0" by auto
    with True x show ?thesis by simp
  next
    case False
    with Cons.prems have "limit \<le> 0 \<or> int (length (out @ [r])) < limit" by auto
    moreover have "nat limit - length out = Suc (nat limit - Suc (length out))" if "\<not> limit \<le> 0"
      using that Cons.prems(2) by linarith
    ultimately show ?thesis using Cons.IH [of "out @ [r]"] Cons.prems(1) False x
      by auto
  qed
qed

lemma history_docs: "store_ok K s \<Longrightarrow> \<forall>(k, v) \<in> set (kv_items K (st_history s)). v = Doc (row_of (k, v))"
  using history_all_docs by auto

lemma all_records_stream: "store_ok K s \<Longrightarrow> all_records K s = Inr (filter is_command (stream K s))"
  by (simp add: all_records_def stream_def scan_rows_ok history_docs)

lemma records_of_type_stream:
  "store_ok K s \<Longrightarrow> records_of_type K typ s = Inr (filter (\<lambda>r. r_type r = typ) (stream K s))"
  by (simp add: records_of_type_def stream_def scan_rows_ok history_docs)

lemma count_records_stream:
  "store_ok K s \<Longrightarrow> count_records K s = Inr (length (filter is_command (stream K s)))"
  by (simp add: count_records_def stream_def count_rows_ok history_docs)

lemma stream_sorted: "store_ok K s \<Longrightarrow> sorted_wrt (<) (map r_seq (stream K s))"
proof -
  assume ok: "store_ok K s"
  have keys: "map (\<lambda>x. seq_key (r_seq (row_of x))) (kv_items K (st_history s)) =
      map fst (kv_items K (st_history s))"
    by (rule map_cong [OF refl]) (use store_ok_history [OF ok] in \<open>force simp: mem_items row_of_def\<close>)
  have "sorted_wrt (\<lambda>m n. seq_key m < seq_key n) (map r_seq (stream K s))"
    using items_sorted [of "st_history s"]
    by (simp add: stream_def sorted_wrt_map comp_def flip: keys)
  then show ?thesis by simp
qed

lemma since_stream:
  assumes "store_ok K s" and "sq \<noteq> - 1"
  shows "since K s sq limit =
    Inr ((if limit \<le> 0 then (\<lambda>xs. xs) else take (nat limit)) (filter (\<lambda>r. sq < r_seq r) (stream K s)))"
proof -
  have "seq_key (sq + 1) \<le> k \<longleftrightarrow> sq < r_seq (row_of (k, v))"
    if "(k, v) \<in> set (kv_items K (st_history s))" for k v
  proof -
    from that store_ok_history [OF assms(1)] have "k = seq_key (r_seq (row_of (k, v)))"
      by (force simp: mem_items row_of_def)
    moreover have "sq + 1 \<le> n \<longleftrightarrow> sq < n" for n
      using assms(2) by (rule u64_inc_le)
    ultimately show ?thesis by (metis seq_key_le)
  qed
  then have "kv_seek K (st_history s) (seq_key (sq + 1)) =
      filter (\<lambda>x. sq < r_seq (row_of x)) (kv_items K (st_history s))"
    by (auto simp: seek_eq intro!: filter_cong)
  then show ?thesis
    using history_docs [OF assms(1)]
    by (auto simp: since_def since_rows_ok stream_def filter_map comp_def)
qed

lemma tombstone_effect:
  assumes ok: "store_ok K s" and hb: "\<And>k. kv_get K hb k = kv_get K (st_history s) k"
  shows "\<exists>hb'. apply_tombstone K now (st_ids s) r hb = Inr hb' \<and> kv_seq K hb' = kv_seq K hb \<and>
    (\<forall>k. kv_get K hb' k = map_option (map_blob (stamp_target now r)) (kv_get K (st_history s) k))"
proof -
  define del where "del \<longleftrightarrow> r_type r = type_delete \<and> r_target_id r \<noteq> []"
  have other: "stamp_target now r x = x" if "\<not> del \<or> r_id x \<noteq> r_target_id r" for x
    using that by (auto simp: del_def stamp_target_def)
  have docs: "\<exists>x. v = Doc x \<and> kv_get K (st_ids s) (r_id x) = Some (Raw k)"
    if "kv_get K (st_history s) k = Some v" for k v
    using store_ok_history [OF ok that] by blast
  show ?thesis
  proof (cases "del \<and> kv_get K (st_ids s) (r_target_id r) \<noteq> None")
    case False
    have "apply_tombstone K now (st_ids s) r hb = Inr hb"
      using False by (auto simp: apply_tombstone_def del_def)
    moreover have "map_option (map_blob (stamp_target now r)) (kv_get K (st_history s) k) =
        kv_get K (st_history s) k" for k
    proof (cases "kv_get K (st_history s) k")
      case (Some v)
      with docs obtain x where x: "v = Doc x" "kv_get K (st_ids s) (r_id x) = Some (Raw k)" by blast
      with False have "\<not> del \<or> r_id x \<noteq> r_target_id r" by auto
      with Some x other show ?thesis by simp
    qed simp
    ultimately show ?thesis using hb by auto
  next
    case True
    then obtain v where "kv_get K (st_ids s) (r_target_id r) = Some v" by blast
    with store_ok_ids [OF ok this] obtain x where
      x: "kv_get K (st_ids s) (r_target_id r) = Some (Raw (seq_key (r_seq x)))"
        "r_id x = r_target_id r" "kv_get K (st_history s) (seq_key (r_seq x)) = Some (Doc x)"
      by blast
    define hb' where "hb' = kv_put K hb (seq_key (r_seq x)) (Doc (stamp_target now r x))"
    have "apply_tombstone K now (st_ids s) r hb = Inr hb'"
      using True x hb by (simp add: apply_tombstone_def hb'_def marshal_rec_def stamp_target_def
          del_def)
    moreover have "kv_get K hb' k =
        map_option (map_blob (stamp_target now r)) (kv_get K (st_history s) k)" for k
    proof (cases "k = seq_key (r_seq x)")
      case True
      then show ?thesis using x by (simp add: hb'_def)
    next
      case False
      show ?thesis
      proof (cases "kv_get K (st_history s) k")
        case None
        then show ?thesis using False hb by (simp add: hb'_def)
      next
        case (Some w)
        with docs obtain y where y: "w = Doc y" "kv_get K (st_ids s) (r_id y) = Some (Raw k)"
          by blast
        with x False have "r_id y \<noteq> r_target_id r" by auto
        then show ?thesis using other Some y False hb by (simp add: hb'_def)
      qed
    qed
    ultimately show ?thesis by (auto simp: hb'_def)
  qed
qed

lemma stamp_target_keeps:
  "json_str (r_id x) = r_id x \<Longrightarrow>
    r_id (stamp_target now r x) = r_id x \<and> r_seq (stamp_target now r x) = r_seq x"
  by (auto simp: stamp_target_def)

text \<open>The two branches of \<open>appendOne\<close>.\<close>

lemma append_one_known:
  assumes "store_ok K s" and "r_id r \<noteq> []" and "kv_get K (st_ids s) (r_id r) \<noteq> None"
  shows "\<exists>x. List.find (\<lambda>x. r_id x = r_id r) (stream K s) = Some x \<and>
    append_one K now fresh s r = Inr (s, x, False)"
proof -
  obtain v where v: "kv_get K (st_ids s) (r_id r) = Some v" using assms(3) by blast
  with store_ok_ids [OF assms(1) v] obtain x where
    "v = Raw (seq_key (r_seq x))" "kv_get K (st_history s) (seq_key (r_seq x)) = Some (Doc x)"
    by blast
  with v assms(2) show ?thesis by (simp add: append_one_def find_stream [OF assms(1)])
qed

lemma append_one_fresh:
  assumes ok: "store_ok K s" and room: "kv_seq K (st_history s) \<noteq> - 1"
    and r1: "r1 = r\<lparr>r_seq := kv_seq K (st_history s) + 1, r_host_id := st_host_id s,
      r_hostname := st_hostname s, r_id := (if r_id r = [] then fresh else r_id r)\<rparr>"
    and gid: "good_id (r_id r1)" and new: "kv_get K (st_ids s) (r_id r1) = None"
  obtains s' where "append_one K now fresh s r = Inr (s', r1, True)" and "store_ok K s'"
    and "stream K s' = map (stamp_target now r1) (stream K s) @ [json_rec r1]"
    and "kv_seq K (st_history s') = kv_seq K (st_history s) + 1"
    and "st_host_id s' = st_host_id s" and "st_hostname s' = st_hostname s"
    and "\<And>i. kv_get K (st_ids s') i =
      (if i = r_id r1 then Some (Raw (seq_key (r_seq r1))) else kv_get K (st_ids s) i)"
proof -
  let ?sq = "kv_seq K (st_history s) + 1"
  have above: "n < ?sq" if "n \<le> kv_seq K (st_history s)" for n
    using that room u64_inc_le [of "kv_seq K (st_history s)" ?sq] by simp
  from tombstone_effect [OF ok, of "kv_next K (st_history s)" now r1] obtain hb where
    hb: "apply_tombstone K now (st_ids s) r1 (kv_next K (st_history s)) = Inr hb"
      "kv_seq K hb = ?sq"
      "\<And>k. kv_get K hb k = map_option (map_blob (stamp_target now r1)) (kv_get K (st_history s) k)"
    by auto
  define s' where "s' = s\<lparr>st_history := kv_put K hb (seq_key ?sq) (Doc (json_rec r1)),
      st_ids := kv_put K (st_ids s) (r_id r1) (Raw (seq_key ?sq))\<rparr>"
  have none: "(if r_id r \<noteq> [] then kv_get K (st_ids s) (r_id r) else None) = None"
    using new r1 by (simp split: if_splits)
  have res: "append_one K now fresh s r = Inr (s', r1, True)"
    unfolding append_one_def none using hb(1) r1 by (simp add: Let_def s'_def marshal_rec_def)
  have items_hb: "kv_items K hb =
      map (\<lambda>(k, v). (k, map_blob (stamp_target now r1) v)) (kv_items K (st_history s))"
    by (rule items_map) (rule hb(3))
  have max: "k' < seq_key ?sq" if "kv_get K hb k' \<noteq> None" for k'
  proof -
    from that hb(3) obtain v where "kv_get K (st_history s) k' = Some v" by fastforce
    with store_ok_history [OF ok] show ?thesis using above by fastforce
  qed
  have items': "kv_items K (st_history s') = kv_items K hb @ [(seq_key ?sq, Doc (json_rec r1))]"
    using items_put_max [OF max] by (simp add: s'_def)
  have "map (row_of \<circ> (\<lambda>(k, v). (k, map_blob (stamp_target now r1) v))) (kv_items K (st_history s)) =
      map (stamp_target now r1 \<circ> row_of) (kv_items K (st_history s))"
  proof (rule map_cong [OF refl])
    fix x assume "x \<in> set (kv_items K (st_history s))"
    then obtain k y where "x = (k, Doc y)" using history_docs [OF ok] by (cases x) auto
    then show "(row_of \<circ> (\<lambda>(k, v). (k, map_blob (stamp_target now r1) v))) x =
        (stamp_target now r1 \<circ> row_of) x"
      by simp
  qed
  then have str: "stream K s' = map (stamp_target now r1) (stream K s) @ [json_rec r1]"
    by (simp add: stream_def items' items_hb)
  have seq1: "r_seq r1 = ?sq" and idr: "r_id (json_rec r1) = r_id r1"
    using r1 gid by (simp_all add: good_id_def)
  have pos: "0 < ?sq" using above [of 0] by (metis word_zero_le)
  have ids': "kv_get K (st_ids s') i =
      (if i = r_id r1 then Some (Raw (seq_key ?sq)) else kv_get K (st_ids s) i)" for i
    by (simp add: s'_def)
  have "store_ok K s'"
    unfolding store_ok_def
  proof (intro conjI allI impI)
    fix k v assume v: "kv_get K (st_history s') k = Some v"
    show "\<exists>x. v = Doc x \<and> k = seq_key (r_seq x) \<and> 0 < r_seq x \<and>
        r_seq x \<le> kv_seq K (st_history s') \<and>
        kv_get K (st_ids s') (r_id x) = Some (Raw (seq_key (r_seq x)))"
    proof (cases "k = seq_key ?sq")
      case True
      with v have "v = Doc (json_rec r1)" by (simp add: s'_def)
      with True seq1 idr pos show ?thesis using hb(2) by (simp add: ids') (simp add: s'_def)
    next
      case False
      with v hb(3) obtain w where w: "kv_get K (st_history s) k = Some w"
          "v = map_blob (stamp_target now r1) w"
        by (auto simp: s'_def)
      with store_ok_history [OF ok w(1)] obtain x where x: "w = Doc x" "k = seq_key (r_seq x)"
          "0 < r_seq x" "r_seq x \<le> kv_seq K (st_history s)"
          "kv_get K (st_ids s) (r_id x) = Some (Raw (seq_key (r_seq x)))"
        by blast
      with store_ok_ids [OF ok x(5)] have "json_str (r_id x) = r_id x" by blast
      then have keep: "r_id (stamp_target now r1 x) = r_id x" "r_seq (stamp_target now r1 x) = r_seq x"
        using stamp_target_keeps by blast+
      have "r_id x \<noteq> r_id r1" using x(5) new by auto
      moreover have "r_seq x \<le> ?sq" using above x(4) by (metis order.strict_implies_order)
      ultimately show ?thesis using w(2) x keep hb(2) by (simp add: ids') (simp add: s'_def)
    qed
  next
    fix i v assume v: "kv_get K (st_ids s') i = Some v"
    have "good_id i \<and> (\<exists>x. v = Raw (seq_key (r_seq x)) \<and> r_id x = i \<and>
        kv_get K (st_history s') (seq_key (r_seq x)) = Some (Doc x))"
    proof (cases "i = r_id r1")
      case True
      with v gid idr seq1 show ?thesis
        by (intro conjI exI [of _ "json_rec r1"]) (simp_all add: ids', simp add: s'_def)
    next
      case False
      with v have vi: "kv_get K (st_ids s) i = Some v" by (simp add: ids')
      with store_ok_ids [OF ok vi] obtain x where x: "i \<noteq> []" "json_str i = i"
          "v = Raw (seq_key (r_seq x))" "r_id x = i"
          "kv_get K (st_history s) (seq_key (r_seq x)) = Some (Doc x)"
        by blast
      have "r_seq x \<noteq> ?sq"
        using store_ok_history [OF ok x(5)] above by fastforce
      moreover have "r_id (stamp_target now r1 x) = i" "r_seq (stamp_target now r1 x) = r_seq x"
        using stamp_target_keeps x(2,4) by auto
      ultimately show ?thesis using x hb(3)
        by (intro conjI exI [of _ "stamp_target now r1 x"]) (simp_all add: s'_def good_id_def)
    qed
    then show "i \<noteq> []" and "json_str i = i" and "\<exists>x. v = Raw (seq_key (r_seq x)) \<and> r_id x = i \<and>
        kv_get K (st_history s') (seq_key (r_seq x)) = Some (Doc x)"
      by (auto simp: good_id_def)
  qed
  then show thesis
    using that [OF res] str hb(2) ids' seq1 by (simp add: s'_def)
qed

end

interpretation log_hist: history_bucket log_kv
  by unfold_locales

text \<open>Batches, in the contract of the buckets.\<close>

context history_bucket
begin

lemma append_one_spec:
  assumes ok: "store_ok K s" and room: "kv_seq K (st_history s) \<noteq> - 1"
    and i: "i = (if r_id r = [] then fresh else r_id r)" "good_id i"
    and new: "r_id r = [] \<Longrightarrow> kv_get K (st_ids s) fresh = None"
    and spec: "spec_append (kv_seq K (st_history s) + 1) (st_host_id s) (st_hostname s) now fresh
      (stream K s) r = (rows, out, added)"
  obtains s' where "append_one K now fresh s r = Inr (s', out, added)" and "store_ok K s'"
    and "stream K s' = rows"
    and "kv_seq K (st_history s') = kv_seq K (st_history s) + (if added then 1 else 0)"
    and "kv_get K (st_ids s') i \<noteq> None"
    and "\<And>j. kv_get K (st_ids s) j \<noteq> None \<Longrightarrow> kv_get K (st_ids s') j \<noteq> None"
    and "added \<longleftrightarrow> r_id r = [] \<or> kv_get K (st_ids s) (r_id r) = None"
proof (cases "r_id r \<noteq> [] \<and> kv_get K (st_ids s) (r_id r) \<noteq> None")
  case True
  with append_one_known [OF ok, of r now fresh] obtain x where
    x: "List.find (\<lambda>x. r_id x = r_id r) (stream K s) = Some x"
      "append_one K now fresh s r = Inr (s, x, False)" by blast
  with True spec have "rows = stream K s" "out = x" "\<not> added" by (auto simp: spec_append_def)
  with x True i ok show ?thesis by (intro that [of s]) auto
next
  case False
  define r1 where "r1 = r\<lparr>r_seq := kv_seq K (st_history s) + 1, r_host_id := st_host_id s,
      r_hostname := st_hostname s, r_id := (if r_id r = [] then fresh else r_id r)\<rparr>"
  have id1: "r_id r1 = i" using i(1) by (simp add: r1_def)
  have none: "kv_get K (st_ids s) (r_id r1) = None"
    using False new unfolding id1 i(1) by auto
  have "(if r_id r = [] then None else List.find (\<lambda>x. r_id x = r_id r) (stream K s)) = None"
    using False ids_None [OF ok, of "r_id r"] by (auto simp: find_None_iff)
  with spec have out: "rows = map (stamp_target now r1) (stream K s) @ [json_rec r1]" "out = r1" "added"
    by (auto simp: spec_append_def r1_def Let_def)
  have g: "good_id (r_id r1)" using i(2) id1 by simp
  obtain s' where s': "append_one K now fresh s r = Inr (s', r1, True)" "store_ok K s'"
      "stream K s' = map (stamp_target now r1) (stream K s) @ [json_rec r1]"
      "kv_seq K (st_history s') = kv_seq K (st_history s) + 1"
      "st_host_id s' = st_host_id s" "st_hostname s' = st_hostname s"
      "\<And>j. kv_get K (st_ids s') j =
        (if j = r_id r1 then Some (Raw (seq_key (r_seq r1))) else kv_get K (st_ids s) j)"
    by (rule append_one_fresh [where now = now and fresh = fresh and r = r, OF ok room r1_def g none])
      (rule that, assumption+)
  have "kv_get K (st_ids s') i \<noteq> None" and
    "kv_get K (st_ids s) j \<noteq> None \<Longrightarrow> kv_get K (st_ids s') j \<noteq> None" for j
    using s'(7) id1 by auto
  with s'(1-4) out False show ?thesis by (intro that [of s']) auto
qed

lemma append_all_known:
  "\<forall>r \<in> set rs. r_id r \<noteq> [] \<and> kv_get K (st_ids s) (r_id r) \<noteq> None \<Longrightarrow> store_ok K s \<Longrightarrow>
    append_all K now fresh s rs n = Inr (s, n)"
proof (induction rs arbitrary: fresh)
  case (Cons r rs)
  have "r_id r \<noteq> []" and "kv_get K (st_ids s) (r_id r) \<noteq> None" using Cons.prems(1) by auto
  from append_one_known [OF Cons.prems(2) this] obtain x where
    "append_one K now (case fresh of [] \<Rightarrow> [] | f # _ \<Rightarrow> f) s r = Inr (s, x, False)" by blast
  with Cons show ?case by simp
qed simp

lemma append_all_good:
  "store_ok K s \<Longrightarrow> \<forall>r \<in> set rs. good_id (r_id r) \<Longrightarrow>
    unat (kv_seq K (st_history s)) + length rs < 2 ^ 64 \<Longrightarrow>
    \<exists>s' m. append_all K now fresh s rs n = Inr (s', m) \<and> store_ok K s' \<and>
      m + length (stream K s) = n + length (stream K s') \<and>
      (\<forall>r \<in> set rs. kv_get K (st_ids s') (r_id r) \<noteq> None) \<and>
      (\<forall>j. kv_get K (st_ids s) j \<noteq> None \<longrightarrow> kv_get K (st_ids s') j \<noteq> None)"
proof (induction rs arbitrary: s n fresh)
  case (Cons r rs)
  let ?f = "case fresh of [] \<Rightarrow> [] | f # _ \<Rightarrow> f"
  let ?sq = "kv_seq K (st_history s)"
  have ne: "r_id r \<noteq> []" and g: "good_id (r_id r)" using Cons.prems(2) by (auto simp: good_id_def)
  have small: "unat ?sq < 2 ^ 64 - 1" using Cons.prems(3) by simp
  then have room: "?sq \<noteq> - 1" by (auto simp: unsigned_minus_1_eq_mask mask_eq_exp_minus_1)
  obtain rows out added where spec: "spec_append (?sq + 1) (st_host_id s) (st_hostname s) now ?f
      (stream K s) r = (rows, out, added)" by (metis prod_cases3)
  obtain s1 where s1: "append_one K now ?f s r = Inr (s1, out, added)" "store_ok K s1" "stream K s1 = rows"
      "kv_seq K (st_history s1) = ?sq + (if added then 1 else 0)"
      "kv_get K (st_ids s1) (r_id r) \<noteq> None"
      "\<And>j. kv_get K (st_ids s) j \<noteq> None \<Longrightarrow> kv_get K (st_ids s1) j \<noteq> None"
    by (rule append_one_spec [OF Cons.prems(1) room _ g _ spec]) (use ne in auto)
  have len: "length rows = length (stream K s) + (if added then 1 else 0)"
    using spec by (auto simp: spec_append_def Let_def split: option.splits if_splits)
  have "unat (kv_seq K (st_history s1)) \<le> unat ?sq + 1"
    unfolding s1(4) by (cases added) (simp_all add: unat_word_ariths)
  then have "unat (kv_seq K (st_history s1)) + length rs < 2 ^ 64" using Cons.prems(3) by simp
  from Cons.IH [where n = "if added then n + 1 else n" and fresh = "tl fresh", OF s1(2) _ this] Cons.prems(2) obtain s' m
    where s': "append_all K now (tl fresh) s1 rs (if added then n + 1 else n) = Inr (s', m)"
      "store_ok K s'" "m + length (stream K s1) = (if added then n + 1 else n) + length (stream K s')"
      "\<forall>r \<in> set rs. kv_get K (st_ids s') (r_id r) \<noteq> None"
      "\<forall>j. kv_get K (st_ids s1) j \<noteq> None \<longrightarrow> kv_get K (st_ids s') j \<noteq> None"
    by auto
  have "append_all K now fresh s (r # rs) n = Inr (s', m)" using s1(1) s'(1) by simp
  moreover have "m + length (stream K s) = n + length (stream K s')"
    using s'(3) len s1(3) by (simp split: if_splits)
  moreover have "\<forall>x \<in> set (r # rs). kv_get K (st_ids s') (r_id x) \<noteq> None"
    using s'(4,5) s1(5) by (simp del: not_None_eq)
  moreover have "\<forall>j. kv_get K (st_ids s) j \<noteq> None \<longrightarrow> kv_get K (st_ids s') j \<noteq> None"
    using s'(5) s1(6) by blast
  ultimately show ?case using s'(2) by blast
qed simp

end


subsection \<open>Properties\<close>

lemma hist_of_bucket: "bucket K \<Longrightarrow> history_bucket (K :: 'b hist_kv)"
  by (simp add: history_bucket_def)

text \<open>A one-row history, the concrete input of the examples below.\<close>

definition ls_rec :: hrec where
  "ls_rec = zero_rec\<lparr>r_id := ''a'', r_seq := 1, r_cmd := ''ls''\<rparr>"

definition ls_store :: "hrec blob log_bucket store" where
  "ls_store = \<lparr>st_history = ([(seq_key 1, Doc ls_rec)], 1), st_ids = ([(''a'', Raw (seq_key 1))], 0),
     st_meta = ([], 0), st_host_id = ''h'', st_hostname = ''box'', st_schema = 1\<rparr>"

lemma ascii_id: "json_str [c] = [c]" if "ascii_byte c"
  using that by (simp add: json_str_ascii)

lemma good_id_letter: "ascii_byte c \<Longrightarrow> good_id [c]"
  by (simp add: good_id_def ascii_id)

lemma ls_store_ok: "store_ok log_kv ls_store"
proof -
  have "Doc ls_rec = Doc ls_rec \<and> seq_key 1 = seq_key (r_seq ls_rec) \<and> 0 < r_seq ls_rec \<and>
      r_seq ls_rec \<le> 1 \<and> r_id ls_rec = ''a''"
    by (simp add: ls_rec_def)
  then show ?thesis
    unfolding store_ok_def
    by (intro conjI allI impI exI [of _ ls_rec])
      (auto simp: ls_store_def log_kv_def ascii_id ascii_byte_def byte_def split: if_splits)
qed

lemma ls_store_sel [simp]:
  "kv_seq log_kv (st_history ls_store) = 1"
  "kv_get log_kv (st_ids ls_store) i = (if i = ''a'' then Some (Raw (seq_key 1)) else None)"
  "stream log_kv ls_store = [ls_rec]" "r_id ls_rec = ''a''"
  by (simp_all add: ls_store_def log_kv_def stream_def log_items_def ls_rec_def)

lemma zero_rec_sel [simp]: "r_id zero_rec = []" "r_start_ms zero_rec = 0" "r_deleted_ms zero_rec = 0"
  by (simp_all add: zero_rec_def)

text \<open>C8 An append refines its specification over the list of rows: a known id is answered with the
  stored record and changes nothing; a new record gets the next sequence number and this host's
  identity, is appended at the end, and a delete record stamps its target. The invariant of the three
  buckets is kept.\<close>

theorem append_refines:
  assumes "bucket K" and "store_ok K s" and "kv_seq K (st_history s) \<noteq> - 1"
    and "good_id (if r_id r = [] then fresh else r_id r)"
    and "r_id r = [] \<Longrightarrow> kv_get K (st_ids s) fresh = None"
  shows "case spec_append (kv_seq K (st_history s) + 1) (st_host_id s) (st_hostname s) now fresh
      (stream K s) r of (rows, out, added) \<Rightarrow>
    \<exists>s'. append_one K now fresh s r = Inr (s', out, added) \<and> store_ok K s' \<and> stream K s' = rows"
proof -
  obtain rows out added where spec: "spec_append (kv_seq K (st_history s) + 1) (st_host_id s)
      (st_hostname s) now fresh (stream K s) r = (rows, out, added)" by (metis prod_cases3)
  obtain s' where "append_one K now fresh s r = Inr (s', out, added)" "store_ok K s'" "stream K s' = rows"
    using history_bucket.append_one_spec [OF hist_of_bucket [OF assms(1)] assms(2,3) refl assms(4,5) spec]
    by blast
  with spec show ?thesis by auto
qed

lemma append_refines_witness:
  "\<exists>s' out. append_one log_kv 5 ''f'' ls_store (zero_rec\<lparr>r_type := ''delete'', r_target_id := ''a''\<rparr>) =
      Inr (s', out, True) \<and> r_seq out = 2 \<and> map r_deleted_ms (stream log_kv s') = [5, 0]"
  using append_refines [OF log.bucket_axioms ls_store_ok,
      of "zero_rec\<lparr>r_type := ''delete'', r_target_id := ''a''\<rparr>" "''f''" 5]
  by (auto simp: spec_append_def stamp_target_def good_id_letter ascii_byte_def byte_def Let_def)

text \<open>Importing is idempotent: a batch of records that carry their ids is stored, the reported number
  is the number of rows gained, and running the same batch again adds nothing and leaves the store
  untouched.\<close>

theorem import_twice:
  assumes "bucket K" and "store_ok K s" and "\<forall>r \<in> set rs. good_id (r_id r)"
    and "unat (kv_seq K (st_history s)) + length rs < 2 ^ 64"
  shows "\<exists>s' n. append_batch K now fresh s rs = (s', Inr n) \<and> store_ok K s' \<and>
    length (stream K s') = length (stream K s) + n \<and>
    append_batch K now' fresh' s' rs = (s', Inr 0)"
proof -
  note hist = hist_of_bucket [OF assms(1)]
  from history_bucket.append_all_good [OF hist assms(2-4), of now fresh 0] obtain s' n where
    s': "append_all K now fresh s rs 0 = Inr (s', n)" "store_ok K s'"
      "n + length (stream K s) = length (stream K s')"
      "\<forall>r \<in> set rs. kv_get K (st_ids s') (r_id r) \<noteq> None"
    by auto
  have "append_all K now' fresh' s' rs 0 = Inr (s', 0)"
    using s'(2,4) assms(3) by (intro history_bucket.append_all_known [OF hist]) (auto simp: good_id_def)
  with s' show ?thesis by (simp add: append_batch_def)
qed

lemma import_twice_witness:
  "\<exists>s' n. append_batch log_kv 5 [] ls_store [zero_rec\<lparr>r_id := ''b''\<rparr>, ls_rec] = (s', Inr n) \<and>
    append_batch log_kv 9 [] s' [zero_rec\<lparr>r_id := ''b''\<rparr>, ls_rec] = (s', Inr 0)"
  using import_twice [OF log.bucket_axioms ls_store_ok, of "[zero_rec\<lparr>r_id := ''b''\<rparr>, ls_rec]"]
  by (fastforce simp: good_id_letter ascii_byte_def byte_def)

lemma stamped_command:
  assumes "r_type r = type_delete" and "r_target_id r \<noteq> []"
    and "(if r_start_ms r = 0 then now else r_start_ms r) \<noteq> 0"
  shows "is_command (stamp_target now r x) \<longleftrightarrow> is_command x \<and> r_id x \<noteq> r_target_id r"
  using assms by (auto simp: stamp_target_def is_command_def)

text \<open>The append of a delete record: the stamped stream, and the commands left in it.\<close>

lemma delete_stream:
  assumes "bucket K" and "store_ok K s" and "kv_seq K (st_history s) \<noteq> - 1"
    and "good_id (if r_id r = [] then fresh else r_id r)"
    and "kv_get K (st_ids s) (if r_id r = [] then fresh else r_id r) = None"
    and "r_type r = type_delete" and "r_target_id r \<noteq> []"
    and "(if r_start_ms r = 0 then now else r_start_ms r) \<noteq> 0"
  obtains s' r1 where "append_one K now fresh s r = Inr (s', r1, True)" and "store_ok K s'"
    and "stream K s' = map (stamp_target now r1) (stream K s) @ [json_rec r1]"
    and "kv_seq K (st_history s') = kv_seq K (st_history s) + 1"
    and "filter is_command (stream K s') = filter (\<lambda>x. is_command x \<and> r_id x \<noteq> r_target_id r) (stream K s)"
proof -
  note hist = hist_of_bucket [OF assms(1)]
  let ?P = "\<lambda>x. is_command x \<and> r_id x \<noteq> r_target_id r"
  define r1 where "r1 = r\<lparr>r_seq := kv_seq K (st_history s) + 1, r_host_id := st_host_id s,
      r_hostname := st_hostname s, r_id := (if r_id r = [] then fresh else r_id r)\<rparr>"
  have r1: "r_type r1 = type_delete" "r_target_id r1 = r_target_id r"
      "(if r_start_ms r1 = 0 then now else r_start_ms r1) \<noteq> 0"
    using assms(6,8) by (simp_all add: r1_def split: if_splits)
  have g: "good_id (r_id r1)" "kv_get K (st_ids s) (r_id r1) = None" using assms(4,5) by (simp_all add: r1_def)
  obtain s' where s': "append_one K now fresh s r = Inr (s', r1, True)" "store_ok K s'"
      "stream K s' = map (stamp_target now r1) (stream K s) @ [json_rec r1]"
      "kv_seq K (st_history s') = kv_seq K (st_history s) + 1"
    using history_bucket.append_one_fresh [OF hist assms(2,3) r1_def g] by blast
  have "json_str type_delete = type_delete" by (simp add: json_str_ascii ascii_byte_def byte_def)
  then have "\<not> is_command (json_rec r1)" using r1(1) by (simp add: is_command_def)
  moreover have "filter is_command (map (stamp_target now r1) xs) = filter ?P xs" for xs
  proof (induction xs)
    case (Cons x xs)
    have "is_command (stamp_target now r1 x) \<longleftrightarrow> ?P x"
      using stamped_command [of r1 now x] r1 assms(7) by simp
    moreover have "stamp_target now r1 x = x" if "?P x"
      using that r1(2) by (simp add: stamp_target_def)
    ultimately show ?case using Cons by auto
  qed simp
  ultimately have "filter is_command (stream K s') = filter ?P (stream K s)" using s'(3) by simp
  with s' show ?thesis by (rule that)
qed

text \<open>C37 A tombstone hides exactly its target: after a delete record for it is appended, a search over all
  records returns the commands it returned before, without the target, and the count agrees.\<close>

theorem delete_hides_target:
  assumes "bucket K" and "store_ok K s" and "kv_seq K (st_history s) \<noteq> - 1"
    and "good_id (if r_id r = [] then fresh else r_id r)"
    and "kv_get K (st_ids s) (if r_id r = [] then fresh else r_id r) = None"
    and "r_type r = type_delete" and "r_target_id r \<noteq> []"
    and "(if r_start_ms r = 0 then now else r_start_ms r) \<noteq> 0"
  shows "\<exists>s' out. store_append K now fresh s r = (s', Inr out) \<and> store_ok K s' \<and>
    all_records K s' = Inr (filter (\<lambda>x. is_command x \<and> r_id x \<noteq> r_target_id r) (stream K s)) \<and>
    count_records K s' =
      Inr (length (filter (\<lambda>x. is_command x \<and> r_id x \<noteq> r_target_id r) (stream K s)))"
proof -
  note hist = hist_of_bucket [OF assms(1)]
  obtain s' r1 where s': "append_one K now fresh s r = Inr (s', r1, True)" "store_ok K s'"
      "filter is_command (stream K s') = filter (\<lambda>x. is_command x \<and> r_id x \<noteq> r_target_id r) (stream K s)"
    by (rule delete_stream [OF assms])
  then show ?thesis
    using history_bucket.all_records_stream [OF hist s'(2)] history_bucket.count_records_stream [OF hist s'(2)]
    by (auto simp: store_append_def)
qed

lemma delete_hides_target_witness:
  "\<exists>s' out. store_append log_kv 5 ''f'' ls_store (zero_rec\<lparr>r_type := ''delete'', r_target_id := ''a''\<rparr>) =
      (s', Inr out) \<and> all_records log_kv s' = Inr []"
  using delete_hides_target [OF log.bucket_axioms ls_store_ok,
      of "zero_rec\<lparr>r_type := ''delete'', r_target_id := ''a''\<rparr>" "''f''" 5]
  by (fastforce simp: good_id_letter ascii_byte_def byte_def)

text \<open>Reading on from a sequence number returns the stored rows above it in ascending order, all of
  them without a limit, the first ones otherwise; so a reader that asks again from the last row it
  was given misses nothing.\<close>

theorem since_reads_on:
  assumes "bucket K" and "store_ok K s" and "sq \<noteq> - 1"
  shows "sorted_wrt (<) (map r_seq (stream K s)) \<and>
    since K s sq limit = Inr (if limit \<le> 0 then filter (\<lambda>r. sq < r_seq r) (stream K s)
      else take (nat limit) (filter (\<lambda>r. sq < r_seq r) (stream K s)))"
  using history_bucket.stream_sorted [OF hist_of_bucket [OF assms(1)] assms(2)]
    history_bucket.since_stream [OF hist_of_bucket [OF assms(1)] assms(2,3), of limit]
  by simp

lemma since_reads_on_witness: "since log_kv ls_store 0 10 = Inr [ls_rec]"
  using since_reads_on [OF log.bucket_axioms ls_store_ok, of 0 10]
  by (simp add: ls_rec_def)

text \<open>Opening: a database written by a newer schema is refused; once opened, a database opens again
  with the same host id, whatever hostname the system reports then, and the same rows.\<close>

theorem open_keeps_host:
  assumes "bucket K"
  shows "(\<forall>raw v. kv_get K mb meta_schema = Some raw \<longrightarrow> parse_int64 (raw_bytes raw) = Some v \<longrightarrow>
      schema_version < v \<longrightarrow> open_store K hostname fresh hb ib mb = Inl (SchemaNewer v)) \<and>
    (\<forall>s. open_store K hostname fresh hb ib mb = Inr s \<longrightarrow>
       (\<exists>s'. open_store K hostname' fresh' (st_history s) (st_ids s) (st_meta s) = Inr s' \<and>
         st_host_id s' = st_host_id s \<and> stream K s' = stream K s \<and> st_ids s' = st_ids s))"
proof (intro conjI allI impI)
  fix raw v assume "kv_get K mb meta_schema = Some raw" "parse_int64 (raw_bytes raw) = Some v"
    "schema_version < v"
  then show "open_store K hostname fresh hb ib mb = Inl (SchemaNewer v)"
    by (simp add: open_store_def check_schema_def)
next
  fix s assume open1: "open_store K hostname fresh hb ib mb = Inr s"
  note put = bucket.get_put [OF assms]
  have one: "parse_int64 (format_int 1) = Some 1" by (rule parse_format_int) (simp add: int64_def)
  have schema: "\<exists>raw. kv_get K (st_meta s) meta_schema = Some raw \<and> parse_int64 (raw_bytes raw) = Some 1"
    using open1 one
    by (auto simp: open_store_def check_schema_def put Let_def split: option.splits if_splits)
  have host: "\<exists>raw. kv_get K (st_meta s) meta_host_id = Some raw \<and> raw_bytes raw = st_host_id s"
    using open1
    by (auto simp: open_store_def check_schema_def put Let_def split: option.splits if_splits sum.splits)
  have "check_schema K (st_meta s) = Inr (1, st_meta s)"
    using schema by (auto simp: check_schema_def)
  with host show "\<exists>s'. open_store K hostname' fresh' (st_history s) (st_ids s) (st_meta s) = Inr s' \<and>
      st_host_id s' = st_host_id s \<and> stream K s' = stream K s \<and> st_ids s' = st_ids s"
    by (auto simp: open_store_def put Let_def stream_def)
qed

lemma open_keeps_host_witness:
  "\<exists>s'. open_store log_kv ''new'' ''f'' (st_history ls_store) (st_ids ls_store)
      ([(''host_id'', Raw ''h''), (''schema'', Raw (format_int 1))], 0) = Inr s' \<and>
    (\<exists>s''. open_store log_kv ''x'' ''g'' (st_history s') (st_ids s') (st_meta s') = Inr s'' \<and>
      st_host_id s'' = st_host_id s')"
proof -
  let ?mb = "([(''host_id'', Raw ''h''), (''schema'', Raw (format_int 1))], 0) :: hrec blob log_bucket"
  have "parse_int64 (format_int 1) = Some 1" by (rule parse_format_int) (simp add: int64_def)
  then obtain s' where "open_store log_kv ''new'' ''f'' (st_history ls_store) (st_ids ls_store) ?mb = Inr s'"
    by (simp add: open_store_def check_schema_def log_kv_def)
  with open_keeps_host [OF log.bucket_axioms] show ?thesis by blast
qed

end
