(* ===== verification/Spool.thy ===== *)
theory Spool
  imports Bolt History_Record
begin

text \<open>
  \<open>internal/spool\<close>: the handoff directory between \<open>yore record\<close> and the store. A published file
  carries the name suffix \<open>.jsonl\<close>, a file still being written \<open>.tmp\<close>; the two name spaces are the
  two fields of \<open>spool_dir\<close>. A file is its complete lines (each the JSON of a record, or bytes that do
  not decode) and the bytes after the last newline.

  The second half is the concurrent view: writers and one drainer interleave, one file operation per
  step, and a writer may die at any of them.
\<close>

record spool_file =
  sf_lines :: "hrec blob list"
  sf_tail :: string
  sf_mtime :: int

record spool_dir =
  sp_jsonl :: "(string \<times> spool_file) list"
  sp_tmp :: "(string \<times> spool_file) list"

text \<open>The operation of \<open>Append\<close> that the operating system refused, if any.\<close>

datatype append_fault =
  FaultMkdir | FaultOpen | FaultWrite | FaultSync | FaultClose | FaultRename

definition tmp_ttl :: int where "tmp_ttl = 3600"

text \<open>\<open>fmt.Sprintf("%019d-%d-%d", nanos, pid, n)\<close> for a clock past the epoch.\<close>

definition pad_left :: "nat \<Rightarrow> string \<Rightarrow> string" where
  "pad_left w s = replicate (w - length s) CHR ''0'' @ s"

definition spool_name :: "nat \<Rightarrow> nat \<Rightarrow> nat \<Rightarrow> string" where
  "spool_name nanos pid n =
    pad_left 19 (nat_digits nanos) @ ''-'' @ nat_digits pid @ ''-'' @ nat_digits n"

text \<open>
  \<open>Append\<close>: the temporary file is removed on every failure after it was created, so the directory is
  unchanged; success publishes one complete line under the final name.
\<close>

definition spool_append ::
  "append_fault option \<Rightarrow> int \<Rightarrow> string \<Rightarrow> hrec \<Rightarrow> spool_dir \<Rightarrow> spool_dir \<times> append_fault option" where
  "spool_append fault now base r d =
    (case fault of
       Some f \<Rightarrow> (d, Some f)
     | None \<Rightarrow>
         (d\<lparr>sp_jsonl := (base, \<lparr>sf_lines = [Doc (json_rec r)], sf_tail = [], sf_mtime = now\<rparr>)
              # filter (\<lambda>(n, _). n \<noteq> base) (sp_jsonl d)\<rparr>, None))"

text \<open>
  \<open>drainFile\<close>: \<open>fn\<close> is the caller's consumer, with its own state and its own error. A line that does
  not decode, and a tail without a newline, end the file silently.
\<close>

fun drain_lines ::
  "('s \<Rightarrow> hrec \<Rightarrow> 's \<times> 'e option) \<Rightarrow> hrec blob list \<Rightarrow> 's \<Rightarrow> nat \<Rightarrow> 's \<times> nat \<times> 'e option" where
  "drain_lines fn [] s n = (s, n, None)"
| "drain_lines fn (line # lines) s n =
    (case unmarshal line of
       None \<Rightarrow> (s, n, None)
     | Some r \<Rightarrow>
         (case fn s r of
            (s', Some e) \<Rightarrow> (s', n, Some e)
          | (s', None) \<Rightarrow> drain_lines fn lines s' (n + 1)))"

definition drain_file ::
  "('s \<Rightarrow> hrec \<Rightarrow> 's \<times> 'e option) \<Rightarrow> spool_dir \<Rightarrow> string \<Rightarrow> 's \<Rightarrow> 's \<times> nat \<times> 'e option" where
  "drain_file fn d path s =
    (case map_of (sp_jsonl d) path of
       None \<Rightarrow> (s, 0, None)
     | Some f \<Rightarrow> drain_lines fn (sf_lines f) s 0)"

definition remove_file :: "string \<Rightarrow> spool_dir \<Rightarrow> spool_dir" where
  "remove_file path d = d\<lparr>sp_jsonl := filter (\<lambda>(n, _). n \<noteq> path) (sp_jsonl d)\<rparr>"

fun drain_files ::
  "('s \<Rightarrow> hrec \<Rightarrow> 's \<times> 'e option) \<Rightarrow> string list \<Rightarrow> spool_dir \<Rightarrow> 's \<Rightarrow> nat
    \<Rightarrow> spool_dir \<times> 's \<times> nat \<times> 'e option" where
  "drain_files fn [] d s tot = (d, s, tot, None)"
| "drain_files fn (path # paths) d s tot =
    (case drain_file fn d path s of
       (s', n, Some e) \<Rightarrow> (d, s', tot + n, Some e)
     | (s', n, None) \<Rightarrow> drain_files fn paths (remove_file path d) s' (tot + n))"

definition sweep_tmp :: "int \<Rightarrow> spool_dir \<Rightarrow> spool_dir" where
  "sweep_tmp now d = d\<lparr>sp_tmp := filter (\<lambda>(_, f). sf_mtime f > now - tmp_ttl) (sp_tmp d)\<rparr>"

definition spool_drain ::
  "('s \<Rightarrow> hrec \<Rightarrow> 's \<times> 'e option) \<Rightarrow> int \<Rightarrow> spool_dir \<Rightarrow> 's
    \<Rightarrow> spool_dir \<times> 's \<times> nat \<times> 'e option" where
  "spool_drain fn now d s =
    (case drain_files fn (sort (map fst (sp_jsonl d))) d s 0 of
       (d', s', tot, Some e) \<Rightarrow> (d', s', tot, Some e)
     | (d', s', tot, None) \<Rightarrow> (sweep_tmp now d', s', tot, None))"


subsection \<open>What a drain delivers\<close>

text \<open>The records of a file that a drain reaches: the lines before the first that does not decode.\<close>

definition readable :: "spool_file \<Rightarrow> hrec list" where
  "readable f = map (the \<circ> unmarshal) (takeWhile (\<lambda>l. unmarshal l \<noteq> None) (sf_lines f))"

definition spooled :: "spool_dir \<Rightarrow> hrec list" where
  "spooled d =
    concat (map (\<lambda>n. readable (the (map_of (sp_jsonl d) n))) (sort (map fst (sp_jsonl d))))"

definition collect :: "hrec list \<Rightarrow> hrec \<Rightarrow> hrec list \<times> unit option" where
  "collect acc r = (acc @ [r], None)"

lemma drain_lines_total:
  assumes "\<And>s r. snd (fn s r) = None"
  shows "drain_lines fn lines s n =
    (foldl (\<lambda>s r. fst (fn s r)) s
       (map (the \<circ> unmarshal) (takeWhile (\<lambda>l. unmarshal l \<noteq> None) lines)),
     n + length (takeWhile (\<lambda>l. unmarshal l \<noteq> None) lines), None)"
proof (induction lines arbitrary: s n)
  case Nil
  then show ?case by simp
next
  case (Cons line lines)
  show ?case
  proof (cases "unmarshal line")
    case (Some r)
    obtain s' where "fn s r = (s', None)" using assms [of s r] by (cases "fn s r") auto
    with Some Cons show ?thesis by simp
  qed simp
qed

lemma map_of_remove_file:
  "map_of (sp_jsonl (remove_file p d)) n = (if n = p then None else map_of (sp_jsonl d) n)"
  by (simp add: remove_file_def map_of_filter_ne)

lemma drain_files_total:
  assumes "\<And>s r. snd (fn s r) = None" and "distinct paths"
    and "\<forall>p \<in> set paths. map_of (sp_jsonl d) p \<noteq> None"
  shows "drain_files fn paths d s tot =
    (foldl (\<lambda>d p. remove_file p d) d paths,
     foldl (\<lambda>s r. fst (fn s r)) s
       (concat (map (\<lambda>p. readable (the (map_of (sp_jsonl d) p))) paths)),
     tot + length (concat (map (\<lambda>p. readable (the (map_of (sp_jsonl d) p))) paths)), None)"
  using assms(2,3)
proof (induction paths arbitrary: d s tot)
  case Nil
  then show ?case by simp
next
  case (Cons p ps)
  obtain f where f: "map_of (sp_jsonl d) p = Some f" using Cons.prems(2) by auto
  have here: "drain_file fn d p s =
      (foldl (\<lambda>s r. fst (fn s r)) s (readable f), length (readable f), None)"
    by (simp add: drain_file_def f drain_lines_total [OF assms(1)] readable_def)
  have same: "map (\<lambda>q. readable (the (map_of (sp_jsonl (remove_file p d)) q))) ps =
      map (\<lambda>q. readable (the (map_of (sp_jsonl d) q))) ps"
    using Cons.prems(1) by (auto simp: map_of_remove_file)
  have "\<forall>q \<in> set ps. map_of (sp_jsonl (remove_file p d)) q \<noteq> None"
    using Cons.prems by (auto simp: map_of_remove_file)
  with Cons.IH [of "remove_file p d"] Cons.prems(1) show ?case
    by (simp add: here f same)
qed

lemma foldl_remove_file:
  "sp_jsonl (foldl (\<lambda>d p. remove_file p d) d ps) = filter (\<lambda>(n, _). n \<notin> set ps) (sp_jsonl d)"
  by (induction ps arbitrary: d) (auto simp: remove_file_def intro!: filter_cong)

lemma foldl_remove_file_tmp:
  "sp_tmp (foldl (\<lambda>d p. remove_file p d) d ps) = sp_tmp d"
  by (induction ps arbitrary: d) (auto simp: remove_file_def)

lemma foldl_collect: "foldl (\<lambda>s r. fst (collect s r)) acc rs = acc @ rs"
  by (induction rs arbitrary: acc) (auto simp: collect_def)

lemma drain_collect:
  assumes "distinct (map fst (sp_jsonl d))"
  shows "spool_drain collect now d [] =
    (sweep_tmp now (d\<lparr>sp_jsonl := []\<rparr>), spooled d, length (spooled d), None)"
proof -
  have "\<forall>p \<in> set (sort (map fst (sp_jsonl d))). map_of (sp_jsonl d) p \<noteq> None"
    by (metis map_of_eq_None_iff set_map set_sort)
  moreover have "snd (collect s r) = None" for s r by (simp add: collect_def)
  moreover have "foldl (\<lambda>d p. remove_file p d) d (sort (map fst (sp_jsonl d))) = d\<lparr>sp_jsonl := []\<rparr>"
    by (rule spool_dir.equality)
      (simp_all add: foldl_remove_file foldl_remove_file_tmp filter_empty_conv, force)
  ultimately show ?thesis
    using assms by (simp add: spool_drain_def drain_files_total spooled_def foldl_collect)
qed

text \<open>A consumer that fails leaves the file it was reading, and every later one, in place.\<close>

lemma drain_files_error:
  "drain_files fn paths d s tot = (d', s', n, Some e) \<Longrightarrow> distinct paths \<Longrightarrow>
    \<exists>dn p rest. paths = dn @ p # rest \<and>
      sp_jsonl d' = filter (\<lambda>(m, _). m \<notin> set dn) (sp_jsonl d)"
proof (induction paths arbitrary: d s tot)
  case Nil
  then show ?case by simp
next
  case (Cons p ps)
  show ?case
  proof (cases "drain_file fn d p s")
    case (fields s1 k err)
    show ?thesis
    proof (cases err)
      case None
      with fields Cons.prems have "drain_files fn ps (remove_file p d) s1 (tot + k) = (d', s', n, Some e)"
        by simp
      with Cons.IH Cons.prems(2) obtain ds q rest where
        "ps = ds @ q # rest" "sp_jsonl d' = filter (\<lambda>(m, _). m \<notin> set ds) (sp_jsonl (remove_file p d))"
        by (metis distinct.simps(2))
      then show ?thesis
        by (intro exI [of _ "p # ds"] exI [of _ q] exI [of _ rest])
          (auto simp: remove_file_def intro!: filter_cong)
    next
      case (Some e')
      with fields Cons.prems have "d' = d" by simp
      then show ?thesis by (intro exI [of _ "[]"] exI [of _ p] exI [of _ ps]) simp
    qed
  qed
qed


subsection \<open>Names sort by time\<close>

lemma digits_value_Cons:
  "digits_value (c # s) = (byte c - 48) * 10 ^ length s + digits_value s"
proof (induction s rule: rev_induct)
  case Nil
  then show ?case by (simp add: digits_value_def)
next
  case (snoc d s)
  have "digits_value ((c # s) @ [d]) = 10 * digits_value (c # s) + (byte d - 48)"
    "digits_value (s @ [d]) = 10 * digits_value s + (byte d - 48)"
    by (simp_all add: digits_value_def)
  with snoc show ?case by (simp add: algebra_simps)
qed

lemma digits_value_bound: "list_all is_digit_byte s \<Longrightarrow> digits_value s < 10 ^ length s"
proof (induction s)
  case Nil
  then show ?case by (simp add: digits_value_def)
next
  case (Cons c s)
  have "byte c - 48 \<le> 9" using Cons.prems by (auto simp: is_digit_byte_iff)
  then have "(byte c - 48) * 10 ^ length s \<le> 9 * 10 ^ length s" by (rule mult_right_mono) simp
  moreover have "digits_value s < 10 ^ length s" using Cons by simp
  ultimately have "(byte c - 48) * 10 ^ length s + digits_value s < 10 * 10 ^ length s"
    by linarith
  then show ?case by (simp add: digits_value_Cons)
qed

lemma digits_less_append:
  assumes "length a = length b" and "list_all is_digit_byte a" and "list_all is_digit_byte b"
    and "digits_value a < digits_value b"
  shows "a @ x < b @ y"
  using assms
proof (induction a b rule: list_induct2)
  case Nil
  then show ?case by simp
next
  case (Cons c cs d ds)
  have "digits_value ds < 10 ^ length cs" "digits_value cs < 10 ^ length cs"
    using Cons digits_value_bound [of ds] digits_value_bound [of cs] by simp_all
  consider "c < d" | "c = d" | "d < c" by (rule linorder_cases)
  then show ?case
  proof cases
    case 3
    then have "byte d - 48 + 1 \<le> byte c - 48"
      using Cons.prems by (auto simp: is_digit_byte_iff byte_less_iff [symmetric])
    then have "(byte d - 48 + 1) * 10 ^ length ds \<le> (byte c - 48) * 10 ^ length ds"
      by (rule mult_right_mono) simp
    then have "digits_value (d # ds) < digits_value (c # cs)"
      using Cons.hyps \<open>digits_value ds < 10 ^ length cs\<close>
      by (simp add: digits_value_Cons algebra_simps)
    with Cons.prems(3) show ?thesis by simp
  qed (use Cons in \<open>auto simp: digits_value_Cons\<close>)
qed

lemma pad_left_props:
  assumes "n < 10 ^ w" and "0 < w"
  shows "length (pad_left w (nat_digits n)) = w" and "list_all is_digit_byte (pad_left w (nat_digits n))"
    and "digits_value (pad_left w (nat_digits n)) = n"
proof -
  have d: "list_all is_digit_byte (nat_digits n)" "digits_value (nat_digits n) = n"
    using nat_digits_correct [of n] by (simp_all add: all_digits_def)
  have zeros: "digits_value (replicate k CHR ''0'' @ s) = digits_value s" for k s
    by (induction k) (simp_all add: digits_value_Cons byte_def)
  have "length (nat_digits n) \<le> w" using assms
  proof (induction n arbitrary: w rule: nat_digits.induct)
    case (1 n)
    show ?case
    proof (cases "n < 10")
      case True
      with 1 show ?thesis by (subst nat_digits.simps) simp
    next
      case False
      then obtain v where v: "w = Suc v" "0 < v" using "1.prems" by (cases w; cases "w - 1") auto
      with "1.prems" have "n div 10 < 10 ^ v" by (simp add: div_less_iff_less_mult mult.commute)
      with "1.IH" [OF False, of v] v False show ?thesis by (subst nat_digits.simps) simp
    qed
  qed
  then show "length (pad_left w (nat_digits n)) = w" by (simp add: pad_left_def)
  show "list_all is_digit_byte (pad_left w (nat_digits n))"
    using d(1) by (auto simp: pad_left_def list_all_iff is_digit_byte_iff byte_def)
  show "digits_value (pad_left w (nat_digits n)) = n"
    using d(2) by (simp add: pad_left_def zeros)
qed

lemma spool_name_less:
  assumes "m < n" and "n < 10 ^ 19"
  shows "spool_name m p i < spool_name n q j"
  unfolding spool_name_def
  by (rule digits_less_append) (use assms pad_left_props [of m 19] pad_left_props [of n 19] in simp_all)



subsection \<open>Writers and a drainer interleaved\<close>

text \<open>
  Writer \<open>w\<close> publishes the record \<open>rc w\<close> under the base name \<open>nm w\<close>. Its program counter follows
  \<open>Append\<close>: create the temporary file, write and sync it, rename it; it may die before the rename.
  The drainer follows \<open>Drain\<close>: list the published names, read a file, hand its record over, remove the
  file, and at the end sweep some temporary files, even one a slow writer still holds: the writer then
  writes to an unlinked file and its rename fails. The drainer, too, may stop at any point.
\<close>

datatype writer_pc = W_Start | W_Created | W_Written | W_Published | W_Dead

datatype drain_pc =
    D_Idle
  | D_Files "string list"
  | D_Read string hrec "string list"
  | D_Remove string "string list"

record spool_sys =
  ss_pc :: "nat \<Rightarrow> writer_pc"
  ss_tmp :: "string \<Rightarrow> hrec option option"
  ss_pub :: "string \<Rightarrow> hrec option"
  ss_drain :: drain_pc
  ss_delivered :: "hrec list"

definition spool_init :: spool_sys where
  "spool_init =
    \<lparr>ss_pc = (\<lambda>_. W_Start), ss_tmp = Map.empty, ss_pub = Map.empty, ss_drain = D_Idle,
     ss_delivered = []\<rparr>"

inductive spool_step ::
  "(nat \<Rightarrow> string) \<Rightarrow> (nat \<Rightarrow> hrec) \<Rightarrow> spool_sys \<Rightarrow> spool_sys \<Rightarrow> bool" for nm rc where
  w_create: "ss_pc s w = W_Start \<Longrightarrow> ss_tmp s (nm w) = None \<Longrightarrow>
    spool_step nm rc s (s\<lparr>ss_pc := (ss_pc s)(w := W_Created),
      ss_tmp := (ss_tmp s)(nm w := Some None)\<rparr>)"
| w_write: "ss_pc s w = W_Created \<Longrightarrow>
    spool_step nm rc s (s\<lparr>ss_pc := (ss_pc s)(w := W_Written),
      ss_tmp := (if ss_tmp s (nm w) = None then ss_tmp s
                 else (ss_tmp s)(nm w := Some (Some (rc w))))\<rparr>)"
| w_rename: "ss_pc s w = W_Written \<Longrightarrow> ss_tmp s (nm w) = Some (Some r) \<Longrightarrow>
    spool_step nm rc s (s\<lparr>ss_pc := (ss_pc s)(w := W_Published),
      ss_tmp := (ss_tmp s)(nm w := None), ss_pub := (ss_pub s)(nm w := Some r)\<rparr>)"
| w_die: "ss_pc s w \<noteq> W_Published \<Longrightarrow>
    spool_step nm rc s (s\<lparr>ss_pc := (ss_pc s)(w := W_Dead)\<rparr>)"
| d_glob: "ss_drain s = D_Idle \<Longrightarrow> set ns = dom (ss_pub s) \<Longrightarrow> sorted_wrt (<) ns \<Longrightarrow>
    spool_step nm rc s (s\<lparr>ss_drain := D_Files ns\<rparr>)"
| d_gone: "ss_drain s = D_Files (n # ns) \<Longrightarrow> ss_pub s n = None \<Longrightarrow>
    spool_step nm rc s (s\<lparr>ss_drain := D_Files ns\<rparr>)"
| d_read: "ss_drain s = D_Files (n # ns) \<Longrightarrow> ss_pub s n = Some r \<Longrightarrow>
    spool_step nm rc s (s\<lparr>ss_drain := D_Read n r ns\<rparr>)"
| d_deliver: "ss_drain s = D_Read n r ns \<Longrightarrow>
    spool_step nm rc s (s\<lparr>ss_drain := D_Remove n ns, ss_delivered := ss_delivered s @ [r]\<rparr>)"
| d_remove: "ss_drain s = D_Remove n ns \<Longrightarrow>
    spool_step nm rc s (s\<lparr>ss_drain := D_Files ns, ss_pub := (ss_pub s)(n := None)\<rparr>)"
| d_sweep: "ss_drain s = D_Files [] \<Longrightarrow>
    spool_step nm rc s (s\<lparr>ss_drain := D_Idle,
      ss_tmp := (\<lambda>n. if n \<in> old then None else ss_tmp s n)\<rparr>)"
| d_stop: "spool_step nm rc s (s\<lparr>ss_drain := D_Idle\<rparr>)"

inductive spool_reachable :: "(nat \<Rightarrow> string) \<Rightarrow> (nat \<Rightarrow> hrec) \<Rightarrow> spool_sys \<Rightarrow> bool" for nm rc where
  start: "spool_reachable nm rc spool_init"
| more: "spool_reachable nm rc s \<Longrightarrow> spool_step nm rc s t \<Longrightarrow> spool_reachable nm rc t"

definition spool_inv :: "(nat \<Rightarrow> string) \<Rightarrow> (nat \<Rightarrow> hrec) \<Rightarrow> spool_sys \<Rightarrow> bool" where
  "spool_inv nm rc s \<longleftrightarrow>
    (\<forall>w. ss_pc s w = W_Written \<longrightarrow> ss_tmp s (nm w) \<in> {None, Some (Some (rc w))}) \<and>
    (\<forall>w r. ss_pub s (nm w) = Some r \<longrightarrow> r = rc w) \<and>
    (\<forall>w. ss_pc s w = W_Published \<longrightarrow>
       ss_pub s (nm w) = Some (rc w) \<or> rc w \<in> set (ss_delivered s)) \<and>
    (case ss_drain s of
       D_Read n r ns \<Rightarrow> (\<forall>w. nm w = n \<longrightarrow> r = rc w)
     | D_Remove n ns \<Rightarrow> (\<forall>w. nm w = n \<longrightarrow> rc w \<in> set (ss_delivered s))
     | _ \<Rightarrow> True)"

lemma spool_inv_init: "spool_inv nm rc spool_init"
  by (simp add: spool_inv_def spool_init_def)

lemma spool_step_inv:
  assumes "inj nm" and "spool_step nm rc s t" and "spool_inv nm rc s"
  shows "spool_inv nm rc t"
proof -
  have nm: "nm v = nm w \<longleftrightarrow> v = w" for v w using assms(1) by (simp add: inj_eq)
  from assms(2,3) show ?thesis
  proof (induction rule: spool_step.induct)
    case (w_rename s w r)
    then have "r = rc w" by (auto simp: spool_inv_def)
    with w_rename show ?case by (auto simp: spool_inv_def nm split: drain_pc.splits)
  next
    case (d_sweep s old)
    then show ?case by (simp add: spool_inv_def)
  qed (auto simp: spool_inv_def nm split: drain_pc.splits)
qed

lemma spool_reachable_inv:
  assumes "spool_reachable nm rc s" and "inj nm"
  shows "spool_inv nm rc s"
  using assms(1)
proof (induction rule: spool_reachable.induct)
  case start
  show ?case by (rule spool_inv_init)
next
  case (more s t)
  then show ?case using assms(2) by (blast intro: spool_step_inv)
qed


subsection \<open>Properties\<close>

text \<open>A drain hands over, in file-name order, every record before the first torn line of each published
  file, reports their number, and leaves no published file behind; temporary files younger than an
  hour stay.\<close>

theorem drain_all:
  assumes "distinct (map fst (sp_jsonl d))"
  shows "spool_drain collect now d [] =
    (d\<lparr>sp_jsonl := [], sp_tmp := filter (\<lambda>(_, f). sf_mtime f > now - 3600) (sp_tmp d)\<rparr>,
     spooled d, length (spooled d), None)"
  using drain_collect [OF assms, of now] by (simp add: sweep_tmp_def tmp_ttl_def)

lemma drain_all_witness:
  "fst (snd (spool_drain collect 5000
     \<lparr>sp_jsonl = [(''b'', \<lparr>sf_lines = [Doc zero_rec], sf_tail = [], sf_mtime = 0\<rparr>),
        (''a'', \<lparr>sf_lines = [Doc (zero_rec\<lparr>r_cmd := ''ls''\<rparr>), Raw ''x'', Doc zero_rec], sf_tail = [],
           sf_mtime = 0\<rparr>)],
      sp_tmp = []\<rparr> [])) = [zero_rec\<lparr>r_cmd := ''ls''\<rparr>, zero_rec]"
  by (subst drain_all) (simp_all add: spooled_def readable_def)

text \<open>Spool names sort by time: a record spooled at an earlier nanosecond sorts, and so drains, before a
  later one, whatever process ids and counters follow.\<close>

theorem spool_names_sort:
  assumes "m < n" and "n < 10 ^ 19"
  shows "spool_name m p i < spool_name n q j"
  using assms by (rule spool_name_less)

lemma spool_names_sort_witness: "spool_name 999 12345 9 < spool_name 1000 1 1"
  by (rule spool_names_sort) simp_all

text \<open>When the consumer refuses a record the drain stops there: the file it was reading and every later
  file survive, and only files fully handed over before it are gone.\<close>

theorem drain_error_keeps_files:
  assumes "spool_drain fn now d s = (d', s', n, Some e)" and "distinct (map fst (sp_jsonl d))"
  shows "\<exists>dn p rest. sort (map fst (sp_jsonl d)) = dn @ p # rest \<and>
    sp_jsonl d' = filter (\<lambda>(m, _). m \<notin> set dn) (sp_jsonl d) \<and>
    (\<forall>q \<in> set (p # rest). map_of (sp_jsonl d') q = map_of (sp_jsonl d) q)"
proof -
  have dist: "distinct (sort (map fst (sp_jsonl d)))" using assms(2) by simp
  have "drain_files fn (sort (map fst (sp_jsonl d))) d s 0 = (d', s', n, Some e)"
    using assms(1) by (auto simp: spool_drain_def split: prod.splits option.splits)
  from drain_files_error [OF this dist] obtain dn p rest where
    r: "sort (map fst (sp_jsonl d)) = dn @ p # rest"
      "sp_jsonl d' = filter (\<lambda>(m, _). m \<notin> set dn) (sp_jsonl d)" by blast
  have new: "q \<notin> set dn" if "q \<in> set (p # rest)" for q using that dist unfolding r(1) by auto
  have kept: "map_of (filter (\<lambda>(m, _). m \<notin> S) xs) q = map_of xs q" if "q \<notin> S" for S q and xs :: "(string \<times> spool_file) list"
    using that by (induction xs) auto
  show ?thesis
  proof (intro exI conjI ballI)
    fix q assume "q \<in> set (p # rest)"
    then show "map_of (sp_jsonl d') q = map_of (sp_jsonl d) q"
      unfolding r(2) by (intro kept new)
  qed (rule r)+
qed

lemma drain_error_keeps_files_witness:
  "\<exists>d' n. spool_drain (\<lambda>(s::unit) r. (s, Some ())) 0
      \<lparr>sp_jsonl = [(''a'', \<lparr>sf_lines = [Doc zero_rec], sf_tail = [], sf_mtime = 0\<rparr>)], sp_tmp = []\<rparr> () =
      (d', (), n, Some ()) \<and> map_of (sp_jsonl d') ''a'' \<noteq> None"
proof -
  let ?d = "\<lparr>sp_jsonl = [(''a'', \<lparr>sf_lines = [Doc zero_rec], sf_tail = [], sf_mtime = 0\<rparr>)], sp_tmp = []\<rparr>"
  let ?fn = "\<lambda>(s::unit) r::hrec. (s, Some ())"
  have run: "spool_drain ?fn 0 ?d () = (?d, (), 0, Some ())"
    by (simp add: spool_drain_def drain_file_def)
  have "distinct (map fst (sp_jsonl ?d))" by simp
  from drain_error_keeps_files [OF run this] have "map_of (sp_jsonl ?d) ''a'' \<noteq> None" by simp
  with run show ?thesis by blast
qed



end
