(* ===== verification/Ingest.thy ===== *)
theory Ingest
  imports Store Spool
begin

text \<open>
  \<open>(*Store).IngestSpool\<close>: the composition of a spool drain and one batch append. The drain removes the
  files before the batch is committed.
\<close>

datatype ingest_error = IngestDrain | IngestStore store_error

definition ingest_spool ::
  "'b hist_kv \<Rightarrow> int \<Rightarrow> string list \<Rightarrow> 'b store \<Rightarrow> spool_dir \<Rightarrow>
    'b store \<times> spool_dir \<times> (ingest_error + nat)" where
  "ingest_spool K now fresh s d =
    (case spool_drain collect (now div 1000) d [] of
       (d', _, _, Some _) \<Rightarrow> (s, d', Inl IngestDrain)
     | (d', drained, _, None) \<Rightarrow>
         if drained = [] then (s, d', Inr 0)
         else (case append_batch K now fresh s drained of
                 (s', Inl e) \<Rightarrow> (s', d', Inl (IngestStore e))
               | (s', Inr added) \<Rightarrow> (s', d', Inr added)))"


lemma ingest_run:
  assumes "distinct (map fst (sp_jsonl d))" and "spooled d \<noteq> []"
  shows "ingest_spool K now fresh s d =
    (case append_batch K now fresh s (spooled d) of
       (s', Inl e) \<Rightarrow> (s', sweep_tmp (now div 1000) (d\<lparr>sp_jsonl := []\<rparr>), Inl (IngestStore e))
     | (s', Inr added) \<Rightarrow> (s', sweep_tmp (now div 1000) (d\<lparr>sp_jsonl := []\<rparr>), Inr added))"
  using assms(2) by (simp add: ingest_spool_def drain_collect [OF assms(1)])

lemma batch_error_keeps: "append_batch K now fresh s rs = (s', Inl e) \<Longrightarrow> s' = s"
  by (auto simp: append_batch_def split: sum.splits)


subsection \<open>Properties\<close>

text \<open>Ingesting a spool of records that carry their ids succeeds: every readable spooled record is in the
  store afterwards under its id, the number reported is the number of rows gained, and the spool is
  empty.\<close>

theorem ingest_stores_all:
  assumes "bucket K" and "store_ok K s" and "distinct (map fst (sp_jsonl d))"
    and "\<forall>r \<in> set (spooled d). good_id (r_id r)"
    and "unat (kv_seq K (st_history s)) + length (spooled d) < 2 ^ 64"
  shows "\<exists>s' d' n. ingest_spool K now fresh s d = (s', d', Inr n) \<and> store_ok K s' \<and> sp_jsonl d' = [] \<and>
    length (stream K s') = length (stream K s) + n \<and>
    (\<forall>r \<in> set (spooled d). \<exists>x \<in> set (stream K s'). r_id x = r_id r)"
proof (cases "spooled d = []")
  case True
  then show ?thesis using assms(2)
    by (simp add: ingest_spool_def drain_collect [OF assms(3)] sweep_tmp_def)
next
  case False
  note hist = hist_of_bucket [OF assms(1)]
  from history_bucket.append_all_good [OF hist assms(2,4,5), of now fresh 0] obtain s' n where
    s': "append_all K now fresh s (spooled d) 0 = Inr (s', n)" "store_ok K s'"
      "n + length (stream K s) = length (stream K s')"
      "\<forall>r \<in> set (spooled d). kv_get K (st_ids s') (r_id r) \<noteq> None"
    by auto
  have "\<exists>x \<in> set (stream K s'). r_id x = r_id r" if "r \<in> set (spooled d)" for r
    using s'(4) that history_bucket.ids_None [OF hist s'(2)] by blast
  with s' False show ?thesis
    by (simp add: ingest_run [OF assms(3)] append_batch_def sweep_tmp_def)
qed

lemma ingest_stores_all_witness:
  "\<exists>s' d' n. ingest_spool log_kv 9 [] ls_store
      \<lparr>sp_jsonl = [(''n'', \<lparr>sf_lines = [Doc (zero_rec\<lparr>r_id := ''b''\<rparr>)], sf_tail = [], sf_mtime = 0\<rparr>)],
       sp_tmp = []\<rparr> = (s', d', Inr n) \<and> sp_jsonl d' = []"
proof -
  let ?d = "\<lparr>sp_jsonl = [(''n'', \<lparr>sf_lines = [Doc (zero_rec\<lparr>r_id := ''b''\<rparr>)], sf_tail = [], sf_mtime = 0\<rparr>)],
      sp_tmp = []\<rparr>"
  have "spooled ?d = [zero_rec\<lparr>r_id := ''b''\<rparr>]" by (simp add: spooled_def readable_def)
  then show ?thesis
    using ingest_stores_all [OF log.bucket_axioms ls_store_ok, of ?d 9 "[]"]
    by (auto simp: good_id_letter ascii_byte_def byte_def)
qed

text \<open>The spool files are gone before the batch commits: when the append fails, the store is as it was
  and the spooled records are nowhere any more.\<close>

theorem ingest_failure_loses:
  assumes "distinct (map fst (sp_jsonl d))" and "spooled d \<noteq> []"
    and "snd (append_batch K now fresh s (spooled d)) = Inl e"
  shows "\<exists>d'. ingest_spool K now fresh s d = (s, d', Inl (IngestStore e)) \<and> sp_jsonl d' = []"
proof -
  obtain s' where s': "append_batch K now fresh s (spooled d) = (s', Inl e)"
    using assms(3) by (metis prod.collapse)
  with batch_error_keeps [OF s'] show ?thesis by (simp add: ingest_run [OF assms(1,2)] sweep_tmp_def)
qed

lemma ingest_failure_loses_witness:
  "\<exists>d'. ingest_spool log_kv 9 [] (ls_store\<lparr>st_history := ([(seq_key 1, Raw ''torn'')], 1)\<rparr>)
      \<lparr>sp_jsonl = [(''n'', \<lparr>sf_lines = [Doc (zero_rec\<lparr>r_id := ''b''\<rparr>), Doc ls_rec], sf_tail = [], sf_mtime = 0\<rparr>)],
       sp_tmp = []\<rparr> =
      (ls_store\<lparr>st_history := ([(seq_key 1, Raw ''torn'')], 1)\<rparr>, d', Inl (IngestStore DecodeFailed)) \<and>
    sp_jsonl d' = []"
proof -
  let ?d = "\<lparr>sp_jsonl = [(''n'', \<lparr>sf_lines = [Doc (zero_rec\<lparr>r_id := ''b''\<rparr>), Doc ls_rec], sf_tail = [],
      sf_mtime = 0\<rparr>)], sp_tmp = []\<rparr>"
  let ?s = "ls_store\<lparr>st_history := ([(seq_key 1, Raw ''torn'')], 1)\<rparr>"
  have sp: "spooled ?d = [zero_rec\<lparr>r_id := ''b''\<rparr>, ls_rec]" by (simp add: spooled_def readable_def)
  have "type_delete \<noteq> r_type zero_rec" by (simp add: zero_rec_def)
  then have "snd (append_batch log_kv 9 [] ?s (spooled ?d)) = Inl DecodeFailed"
    unfolding sp append_batch_def
    by (simp add: append_one_def apply_tombstone_def Let_def log_kv_def ls_store_def ls_rec_def)
  then show ?thesis using ingest_failure_loses [of ?d] sp by simp
qed

end
