(* ===== verification/Wire.thy ===== *)
theory Wire
  imports History_Record
begin

text \<open>
  \<open>internal/wire\<close>: the JSON types of the sync server's HTTP API. A \<open>[]byte\<close> field is the bytes it
  holds (JSON carries it as base64, which loses nothing); a pointer field is an \<open>option\<close>.
\<close>

definition device_pending :: string where [simp]: "device_pending = ''pending''"
definition device_active :: string where [simp]: "device_active = ''active''"
definition device_revoked :: string where [simp]: "device_revoked = ''revoked''"

definition token_open :: string where [simp]: "token_open = ''open''"
definition token_claimed :: string where [simp]: "token_claimed = ''claimed''"
definition token_expired :: string where [simp]: "token_expired = ''expired''"
definition token_revoked :: string where [simp]: "token_revoked = ''revoked''"

record device =
  dv_id :: string
  dv_name :: string
  dv_pub_key :: string
  dv_sign_key :: string
  dv_status :: string
  dv_created_ms :: int

record register_req =
  rq_id :: string
  rq_name :: string
  rq_pub_key :: string
  rq_sign_key :: string

record register_resp =
  rr_device :: device
  rr_group_formed :: bool

record token_resp =
  tr_token :: string
  tr_expires_ms :: int

record enroll_token =
  et_id :: string
  et_state :: string
  et_created_ms :: int
  et_expires_ms :: int
  et_claimed_ms :: int
  et_claimed_by :: string
  et_revoked_ms :: int

record hk_wrap =
  hw_device_id :: string
  hw_blob :: string
  hw_hk_version :: int

record recovery_init =
  ri_salt :: string
  ri_pub_key :: string
  ri_sign_key :: string
  ri_wrap :: hk_wrap

record dek_wrap =
  dk_key_id :: string
  dk_device_id :: string
  dk_epoch :: int
  dk_blob :: string
  dk_hk_version :: int

record dek_list_resp =
  dl_wraps :: "dek_wrap list"
  dl_next_cursor :: string

record rotate_req =
  ro_hk_version :: int
  ro_hk_wraps :: "hk_wrap list"
  ro_dek_wraps :: "dek_wrap list"
  ro_recovery_wrap :: "hk_wrap option"

record push_record =
  ps_seq :: u64
  ps_id :: string
  ps_key_id :: string
  ps_blob :: string

record push_req =
  pq_host_id :: string
  pq_records :: "push_record list"

record push_resp =
  pp_stored :: int
  pp_max_seq :: u64

record pull_record =
  pl_seq :: u64
  pl_id :: string
  pl_key_id :: string
  pl_blob :: string
  pl_created_ms :: int

record pull_resp =
  pr_records :: "pull_record list"
  pr_next_after :: "u64 option"

record host_info =
  hi_host_id :: string
  hi_max_seq :: u64

text \<open>What a pull record reads back as after it was stored as JSON.\<close>

definition json_pull :: "pull_record \<Rightarrow> pull_record" where
  "json_pull p = p\<lparr>pl_id := json_str (pl_id p), pl_key_id := json_str (pl_key_id p)\<rparr>"

text \<open>The same for a data key wrap.\<close>

definition json_dek :: "dek_wrap \<Rightarrow> dek_wrap" where
  "json_dek d = d\<lparr>dk_key_id := json_str (dk_key_id d), dk_device_id := json_str (dk_device_id d)\<rparr>"

lemma json_pull_sel [simp]:
  "pl_seq (json_pull p) = pl_seq p" "pl_blob (json_pull p) = pl_blob p"
  "pl_created_ms (json_pull p) = pl_created_ms p"
  by (simp_all add: json_pull_def)

end
