(* ===== verification/RStore.thy ===== *)
theory RStore
  imports Bolt Wire
begin

text \<open>
  \<open>internal/rstore\<close>: the daemon's on-disk cache of other machines' sealed records. One bucket per
  remote host, \<open>stream:\<close> followed by its id, maps 8-byte sequence keys to pull records; \<open>cursors\<close> and
  \<open>counts\<close> hold one 8-byte number per host. The buckets enter as three parameters: \<open>K\<close> for a stream,
  \<open>R\<close> for the name space of streams (bucket name to bucket), \<open>C\<close> for the two number buckets.
  A failing transaction returns no new state. The opening of the file and its lock are not modelled.
\<close>

datatype rstore_error = EmptyHostID | DecodeCached string u64

record ('r, 'c) rstore =
  rs_streams :: 'r
  rs_cursors :: 'c
  rs_counts :: 'c

type_synonym 'b pull_kv = "('b, pull_record blob) kv"

definition stream_prefix :: string where
  "stream_prefix = ''stream:''"

text \<open>The state \<open>Open\<close> leaves in a fresh file.\<close>

definition rstore_fresh :: "('r, 'b) kv \<Rightarrow> ('c, string) kv \<Rightarrow> ('r, 'c) rstore" where
  "rstore_fresh R C =
    \<lparr>rs_streams = kv_empty R, rs_cursors = kv_empty C, rs_counts = kv_empty C\<rparr>"

definition rstore_hosts :: "('r, 'b) kv \<Rightarrow> ('r, 'c) rstore \<Rightarrow> string list" where
  "rstore_hosts R s =
    map (\<lambda>(name, _). drop (length stream_prefix) name)
      (filter (\<lambda>(name, _). has_prefix name stream_prefix) (kv_items R (rs_streams s)))"

definition rstore_cursors :: "('c, string) kv \<Rightarrow> ('r, 'c) rstore \<Rightarrow> (string \<times> u64) list" where
  "rstore_cursors C s = map (\<lambda>(h, v). (h, be_uint64 v)) (kv_items C (rs_cursors s))"

fun decode_rows :: "string \<Rightarrow> (string \<times> pull_record blob) list \<Rightarrow> rstore_error + pull_record list" where
  "decode_rows host [] = Inr []"
| "decode_rows host ((k, v) # rows) =
    (case unmarshal v of
       None \<Rightarrow> Inl (DecodeCached host (be_uint64 k))
     | Some pr \<Rightarrow>
         (case decode_rows host rows of Inl e \<Rightarrow> Inl e | Inr out \<Rightarrow> Inr (pr # out)))"

definition rstore_records ::
  "'b pull_kv \<Rightarrow> ('r, 'b) kv \<Rightarrow> ('r, 'c) rstore \<Rightarrow> string \<Rightarrow> rstore_error + pull_record list" where
  "rstore_records K R s host =
    (case kv_get R (rs_streams s) (stream_prefix @ host) of
       None \<Rightarrow> Inr []
     | Some b \<Rightarrow> decode_rows host (kv_items K b))"

text \<open>\<open>loadCount\<close>: an absent entry reads as zero; the conversion to \<open>int\<close> is the signed reading.\<close>

definition load_count :: "('c, string) kv \<Rightarrow> ('r, 'c) rstore \<Rightarrow> string \<Rightarrow> int" where
  "load_count C s host =
    sint (be_uint64 (case kv_get C (rs_counts s) host of None \<Rightarrow> [] | Some v \<Rightarrow> v))"

text \<open>\<open>trim\<close>: re-seek to the first key and delete it, until the excess is gone or nothing is left.\<close>

fun trim_loop :: "'b pull_kv \<Rightarrow> nat \<Rightarrow> 'b \<Rightarrow> int \<Rightarrow> 'b \<times> int" where
  "trim_loop K 0 b n = (b, n)"
| "trim_loop K (Suc excess) b n =
    (case kv_items K b of
       [] \<Rightarrow> (b, n)
     | (k, _) # _ \<Rightarrow> trim_loop K excess (kv_del K b k) (n + 1))"

definition rs_trim :: "'b pull_kv \<Rightarrow> 'b \<Rightarrow> int \<Rightarrow> int \<Rightarrow> 'b \<times> int" where
  "rs_trim K b cnt keep =
    (if keep \<le> 0 \<or> cnt \<le> keep then (b, 0) else trim_loop K (nat (cnt - keep)) b 0)"

fun put_pulls :: "'b pull_kv \<Rightarrow> pull_record list \<Rightarrow> 'b \<Rightarrow> int \<Rightarrow> 'b \<times> int" where
  "put_pulls K [] b cnt = (b, cnt)"
| "put_pulls K (p # ps) b cnt =
    (let key = seq_key (pl_seq p);
         fresh = (kv_get K b key = None);
         b' = kv_put K b key (Doc (json_pull p))
     in put_pulls K ps b' (if fresh then cnt + 1 else cnt))"

definition rstore_append ::
  "'b pull_kv \<Rightarrow> ('r, 'b) kv \<Rightarrow> ('c, string) kv \<Rightarrow> ('r, 'c) rstore \<Rightarrow> string \<Rightarrow> pull_record list \<Rightarrow> u64 \<Rightarrow> int
    \<Rightarrow> ('r, 'c) rstore \<times> (rstore_error + int)" where
  "rstore_append K R C s host recs cursor keep =
    (if host = [] then (s, Inl EmptyHostID)
     else
       let b = (case kv_get R (rs_streams s) (stream_prefix @ host) of
                  None \<Rightarrow> kv_empty K | Some b \<Rightarrow> b);
           (b1, cnt) = put_pulls K recs b (load_count C s host);
           (b2, trimmed) = rs_trim K b1 cnt keep
       in (\<lparr>rs_streams = kv_put R (rs_streams s) (stream_prefix @ host) b2,
            rs_cursors = kv_put C (rs_cursors s) host (seq_key cursor),
            rs_counts = kv_put C (rs_counts s) host (seq_key (word_of_int (cnt - trimmed)))\<rparr>,
           Inr trimmed))"

text \<open>\<open>Reset\<close>: the bucket names are collected first, then each is deleted.\<close>

definition rstore_reset :: "('r, 'b) kv \<Rightarrow> ('c, string) kv \<Rightarrow> ('r, 'c) rstore \<Rightarrow> ('r, 'c) rstore" where
  "rstore_reset R C s =
    \<lparr>rs_streams = foldl (kv_del R) (rs_streams s) (map fst (kv_items R (rs_streams s))),
     rs_cursors = kv_empty C, rs_counts = kv_empty C\<rparr>"


subsection \<open>The abstract cache\<close>

text \<open>Per host, the cache stands for a list of records in sequence order.\<close>

fun upsert :: "pull_record \<Rightarrow> pull_record list \<Rightarrow> pull_record list" where
  "upsert p [] = [p]"
| "upsert p (x # xs) =
    (if pl_seq p < pl_seq x then p # x # xs
     else if pl_seq p = pl_seq x then p # xs
     else x # upsert p xs)"

definition merged :: "pull_record list \<Rightarrow> pull_record list \<Rightarrow> pull_record list" where
  "merged old recs = foldl (\<lambda>acc p. upsert (json_pull p) acc) old recs"

definition newest :: "int \<Rightarrow> 'a list \<Rightarrow> 'a list" where
  "newest keep xs = (if keep \<le> 0 then xs else drop (length xs - nat keep) xs)"

definition pull_rows :: "(string \<times> pull_record blob) list \<Rightarrow> pull_record list \<Rightarrow> bool" where
  "pull_rows items ps \<longleftrightarrow> items = map (\<lambda>p. (seq_key (pl_seq p), Doc p)) ps"

definition cached ::
  "'b pull_kv \<Rightarrow> ('r, 'b) kv \<Rightarrow> ('r, 'c) rstore \<Rightarrow> string \<Rightarrow> pull_record list \<Rightarrow> bool" where
  "cached K R s host ps \<longleftrightarrow>
    (case kv_get R (rs_streams s) (stream_prefix @ host) of
       None \<Rightarrow> ps = [] | Some b \<Rightarrow> pull_rows (kv_items K b) ps)"

definition rstore_ok ::
  "'b pull_kv \<Rightarrow> ('r, 'b) kv \<Rightarrow> ('c, string) kv \<Rightarrow> ('r, 'c) rstore \<Rightarrow> bool" where
  "rstore_ok K R C s \<longleftrightarrow>
    (\<forall>host. host \<noteq> [] \<longrightarrow> (\<exists>ps. cached K R s host ps \<and> load_count C s host = int (length ps)))"

lemma put_sorted_upsert:
  "put_sorted (seq_key (pl_seq p)) (Doc p) (map (\<lambda>p. (seq_key (pl_seq p), Doc p)) ps) =
    map (\<lambda>p. (seq_key (pl_seq p), Doc p)) (upsert p ps)"
  by (induction p ps rule: upsert.induct) auto

lemma length_upsert:
  "sorted_wrt (<) (map pl_seq ps) \<Longrightarrow>
    length (upsert p ps) = (if pl_seq p \<in> pl_seq ` set ps then length ps else Suc (length ps))"
proof (induction p ps rule: upsert.induct)
  case (2 p x xs)
  show ?case
  proof (cases "pl_seq p < pl_seq x")
    case True
    with 2(2) have "pl_seq p \<notin> pl_seq ` set (x # xs)" by (auto dest: order.strict_trans)
    with True show ?thesis by auto
  next
    case False
    with 2 show ?thesis by auto
  qed
qed simp

lemma rows_lookup:
  "map_of (map (\<lambda>p. (seq_key (pl_seq p), Doc p)) ps) (seq_key n) = None \<longleftrightarrow> n \<notin> pl_seq ` set ps"
  by (induction ps) auto

lemma decode_rows_ok: "pull_rows items ps \<Longrightarrow> decode_rows host items = Inr ps"
  unfolding pull_rows_def by (induction ps arbitrary: items) auto

lemma newest_length: "int (length (newest keep xs)) =
    int (length xs) - (if keep \<le> 0 \<or> int (length xs) \<le> keep then 0 else int (length xs) - keep)"
  by (auto simp: newest_def nat_le_iff of_nat_diff)

lemma newest_all: "int (length xs) \<le> keep \<Longrightarrow> newest keep xs = xs"
  by (simp add: newest_def nat_le_iff)


subsection \<open>The cache over any bucket implementation\<close>

locale rstore_db =
  str: bucket K + root: bucket R + num: bucket C
  for K :: "('b, pull_record blob) kv" and R :: "('r, 'b) kv" and C :: "('c, string) kv"
begin

lemma rows_sorted: "pull_rows (kv_items K b) ps \<Longrightarrow> sorted_wrt (<) (map pl_seq ps)"
  using str.items_sorted [of b] by (simp add: pull_rows_def comp_def sorted_wrt_map)

lemma put_pulls_ok:
  assumes "pull_rows (kv_items K b) ps" and "put_pulls K recs b cnt = (b', cnt')"
  shows "pull_rows (kv_items K b') (merged ps recs) \<and>
    cnt' = cnt + int (length (merged ps recs)) - int (length ps)"
  using assms
proof (induction recs arbitrary: b ps cnt)
  case Nil
  then show ?case by (simp add: merged_def)
next
  case (Cons p recs)
  let ?b = "kv_put K b (seq_key (pl_seq p)) (Doc (json_pull p))"
  let ?ps = "upsert (json_pull p) ps"
  let ?cnt = "if kv_get K b (seq_key (pl_seq p)) = None then cnt + 1 else cnt"
  have items: "kv_items K b = map (\<lambda>p. (seq_key (pl_seq p), Doc p)) ps"
    using Cons.prems(1) by (simp add: pull_rows_def)
  have rows: "pull_rows (kv_items K ?b) ?ps"
    using put_sorted_upsert [of "json_pull p" ps]
    by (simp add: pull_rows_def str.items_put items)
  have "kv_get K b (seq_key (pl_seq p)) = None \<longleftrightarrow> pl_seq p \<notin> pl_seq ` set ps"
    unfolding str.get_items items by (rule rows_lookup)
  then have "?cnt = cnt + int (length ?ps) - int (length ps)"
    using length_upsert [OF rows_sorted [OF Cons.prems(1)], of "json_pull p"] by auto
  moreover have "put_pulls K recs ?b ?cnt = (b', cnt')"
    using Cons.prems(2) by (simp add: Let_def)
  ultimately show ?case
    using Cons.IH [OF rows, of ?cnt] by (simp add: merged_def)
qed

lemma trim_loop_ok:
  assumes "pull_rows (kv_items K b) ps" and "trim_loop K n b d = (b', d')"
  shows "pull_rows (kv_items K b') (drop n ps) \<and> d' = d + int (min n (length ps))"
  using assms
proof (induction n arbitrary: b ps d)
  case (Suc n)
  show ?case
  proof (cases ps)
    case Nil
    with Suc.prems show ?thesis by (simp add: pull_rows_def)
  next
    case (Cons q qs)
    then have items: "kv_items K b = (seq_key (pl_seq q), Doc q) # map (\<lambda>p. (seq_key (pl_seq p), Doc p)) qs"
      using Suc.prems(1) by (simp add: pull_rows_def)
    have "pull_rows (kv_items K (kv_del K b (seq_key (pl_seq q)))) qs"
      using str.items_del_first [OF items] by (simp add: pull_rows_def)
    from Suc.IH [OF this, of "d + 1"] Suc.prems(2) items Cons show ?thesis by simp
  qed
qed simp

lemma rs_trim_ok:
  assumes "pull_rows (kv_items K b) ps" and "rs_trim K b (int (length ps)) keep = (b', t)"
  shows "pull_rows (kv_items K b') (newest keep ps) \<and>
    t = int (length ps) - int (length (newest keep ps))"
proof (cases "keep \<le> 0 \<or> int (length ps) \<le> keep")
  case True
  with assms newest_all [of ps keep] show ?thesis by (auto simp: rs_trim_def newest_def)
next
  case False
  then have "nat (int (length ps) - keep) = length ps - nat keep" by linarith
  with False assms trim_loop_ok [of b ps "length ps - nat keep" 0 b' t] show ?thesis
    by (auto simp: rs_trim_def newest_def)
qed

lemma cached_records: "cached K R s host ps \<Longrightarrow> rstore_records K R s host = Inr ps"
  unfolding cached_def rstore_records_def by (auto split: option.splits intro: decode_rows_ok)

lemma cached_unique: "cached K R s host ps \<Longrightarrow> cached K R s host qs \<Longrightarrow> ps = qs"
  by (metis cached_records sum.inject(2))

text \<open>One append, on a host whose cached records and count agree.\<close>

lemma append_ok:
  assumes host: "host \<noteq> []" and old: "cached K R s host ps"
    and cnt: "load_count C s host = int (length ps)"
    and bound: "int (length (merged ps recs)) < 2 ^ 63"
  obtains s' where
    "rstore_append K R C s host recs cursor keep =
       (s', Inr (int (length (merged ps recs)) - int (length (newest keep (merged ps recs)))))"
    and "cached K R s' host (newest keep (merged ps recs))"
    and "load_count C s' host = int (length (newest keep (merged ps recs)))"
    and "kv_get C (rs_cursors s') host = Some (seq_key cursor)"
    and "\<And>h. h \<noteq> host \<Longrightarrow> kv_get R (rs_streams s') (stream_prefix @ h) =
      kv_get R (rs_streams s) (stream_prefix @ h)"
    and "\<And>h. h \<noteq> host \<Longrightarrow> load_count C s' h = load_count C s h"
    and "\<And>h. h \<noteq> host \<Longrightarrow> kv_get C (rs_cursors s') h = kv_get C (rs_cursors s) h"
proof -
  let ?new = "newest keep (merged ps recs)"
  let ?b = "case kv_get R (rs_streams s) (stream_prefix @ host) of None \<Rightarrow> kv_empty K | Some b \<Rightarrow> b"
  have rows: "pull_rows (kv_items K ?b) ps"
    using old by (auto simp: cached_def pull_rows_def split: option.splits)
  obtain b1 c1 where p: "put_pulls K recs ?b (int (length ps)) = (b1, c1)" by fastforce
  with put_pulls_ok [OF rows p] have rows1: "pull_rows (kv_items K b1) (merged ps recs)"
    and c1: "c1 = int (length (merged ps recs))" by simp_all
  obtain b2 t where t: "rs_trim K b1 c1 keep = (b2, t)" by fastforce
  with rs_trim_ok [OF rows1, of keep b2 t] c1 have rows2: "pull_rows (kv_items K b2) ?new"
    and t': "t = int (length (merged ps recs)) - int (length ?new)" by simp_all
  have "length ?new \<le> length (merged ps recs)" by (simp add: newest_def)
  then have "sint (word_of_int (int (length ?new)) :: u64) = int (length ?new)"
    using bound by (intro sint_u64_of_int) auto
  then have readback: "sint (word_of_int (c1 - t) :: u64) = int (length ?new)"
    using t' c1 by simp
  show thesis
  proof (rule that)
    show "rstore_append K R C s host recs cursor keep =
        (\<lparr>rs_streams = kv_put R (rs_streams s) (stream_prefix @ host) b2,
          rs_cursors = kv_put C (rs_cursors s) host (seq_key cursor),
          rs_counts = kv_put C (rs_counts s) host (seq_key (word_of_int (c1 - t)))\<rparr>,
         Inr (int (length (merged ps recs)) - int (length ?new)))"
      using host p t t' cnt by (simp add: rstore_append_def Let_def)
  qed (use rows2 readback in \<open>simp_all add: cached_def load_count_def\<close>)
qed

lemma append_keeps_ok:
  assumes ok: "rstore_ok K R C s"
    and bound: "\<And>ps. cached K R s host ps \<Longrightarrow> int (length (merged ps recs)) < 2 ^ 63"
  shows "rstore_ok K R C (fst (rstore_append K R C s host recs cursor keep))"
proof (cases "host = []")
  case True
  with ok show ?thesis by (simp add: rstore_append_def)
next
  case False
  with ok obtain ps where ps: "cached K R s host ps" "load_count C s host = int (length ps)"
    unfolding rstore_ok_def by blast
  obtain s' where s': "fst (rstore_append K R C s host recs cursor keep) = s'"
      "cached K R s' host (newest keep (merged ps recs))"
      "load_count C s' host = int (length (newest keep (merged ps recs)))"
      "\<And>h. h \<noteq> host \<Longrightarrow> kv_get R (rs_streams s') (stream_prefix @ h) =
        kv_get R (rs_streams s) (stream_prefix @ h)"
      "\<And>h. h \<noteq> host \<Longrightarrow> load_count C s' h = load_count C s h"
    by (rule append_ok [OF False ps bound [OF ps(1)], of cursor keep]) (metis fst_conv)
  show ?thesis
    unfolding s'(1) rstore_ok_def
  proof (intro allI impI)
    fix h :: string assume h: "h \<noteq> []"
    show "\<exists>ps. cached K R s' h ps \<and> load_count C s' h = int (length ps)"
    proof (cases "h = host")
      case True
      with s' show ?thesis by blast
    next
      case False
      from ok h obtain qs where "cached K R s h qs" "load_count C s h = int (length qs)"
        unfolding rstore_ok_def by blast
      with s'(4,5) [OF False] show ?thesis by (auto simp: cached_def)
    qed
  qed
qed

lemma fresh_ok: "rstore_ok K R C (rstore_fresh R C)"
  by (simp add: rstore_ok_def rstore_fresh_def cached_def load_count_def be_uint64_def)

lemma foldl_del:
  "kv_get R (foldl (kv_del R) r ks) k = (if k \<in> set ks then None else kv_get R r k)"
  by (induction ks arbitrary: r) auto

lemma reset_empty: "kv_get R (rs_streams (rstore_reset R C s)) k = None"
proof (cases "kv_get R (rs_streams s) k")
  case (Some v)
  then have "k \<in> set (map fst (kv_items R (rs_streams s)))" using root.key_items by blast
  then show ?thesis by (simp add: rstore_reset_def foldl_del del: set_map)
qed (simp add: rstore_reset_def foldl_del)

lemma reset_ok: "rstore_ok K R C (rstore_reset R C s)"
proof -
  have "load_count C (rstore_reset R C s) h = 0" for h
    by (simp add: load_count_def rstore_reset_def be_uint64_def)
  then show ?thesis by (simp add: rstore_ok_def cached_def reset_empty)
qed

end

text \<open>The write log provides the three buckets.\<close>

interpretation log_cache: rstore_db log_kv log_kv log_kv
  by unfold_locales


subsection \<open>Properties\<close>

lemma rstore_db_of: "bucket K \<Longrightarrow> bucket R \<Longrightarrow> bucket C \<Longrightarrow> rstore_db K R C"
  by (simp add: rstore_db_def)

text \<open>C17 A pulled page lands in the cache as specified: the host's rows become the newest \<open>keep\<close> of the
  merge of what was there with the page (a record with a known sequence number replaces it), the
  reported number is what was trimmed, the cursor is the page's, every other host is untouched, and
  the stored count of every host stays the number of its rows.\<close>

theorem rstore_append_merges:
  assumes "bucket K" and "bucket R" and "bucket C" and "rstore_ok K R C s" and "host \<noteq> []"
    and "rstore_records K R s host = Inr ps" and "int (length ps) + int (length recs) < 2 ^ 63"
  shows "\<exists>s'. rstore_append K R C s host recs cursor keep =
      (s', Inr (int (length (merged ps recs)) - int (length (newest keep (merged ps recs))))) \<and>
    rstore_ok K R C s' \<and>
    rstore_records K R s' host = Inr (newest keep (merged ps recs)) \<and>
    kv_get C (rs_cursors s') host = Some (seq_key cursor) \<and>
    (\<forall>h. h \<noteq> host \<longrightarrow> rstore_records K R s' h = rstore_records K R s h \<and>
      kv_get C (rs_cursors s') h = kv_get C (rs_cursors s) h)"
proof -
  note db = rstore_db_of [OF assms(1-3)]
  from assms(4,5) obtain qs where qs: "cached K R s host qs" "load_count C s host = int (length qs)"
    unfolding rstore_ok_def by blast
  with rstore_db.cached_records [OF db qs(1)] assms(6) have "qs = ps" by simp
  note c = qs [unfolded this]
  have up: "length (upsert p xs) \<le> Suc (length xs)" for p xs
    by (induction p xs rule: upsert.induct) auto
  have "length (merged ps recs) \<le> length ps + length recs" for ps
  proof (induction recs arbitrary: ps)
    case (Cons a recs)
    have "length (merged (upsert (json_pull a) ps) recs) \<le> length (upsert (json_pull a) ps) + length recs"
      by (rule Cons)
    with up [of "json_pull a" ps] show ?case by (simp add: merged_def)
  qed (simp add: merged_def)
  then have bound: "int (length (merged ps recs)) < 2 ^ 63" using assms(7) by (metis of_nat_add of_nat_le_iff order.strict_trans1)
  obtain s' where s': "rstore_append K R C s host recs cursor keep =
       (s', Inr (int (length (merged ps recs)) - int (length (newest keep (merged ps recs)))))"
    "cached K R s' host (newest keep (merged ps recs))"
    "load_count C s' host = int (length (newest keep (merged ps recs)))"
    "kv_get C (rs_cursors s') host = Some (seq_key cursor)"
    "\<And>h. h \<noteq> host \<Longrightarrow> kv_get R (rs_streams s') (stream_prefix @ h) =
      kv_get R (rs_streams s) (stream_prefix @ h)"
    "\<And>h. h \<noteq> host \<Longrightarrow> load_count C s' h = load_count C s h"
    "\<And>h. h \<noteq> host \<Longrightarrow> kv_get C (rs_cursors s') h = kv_get C (rs_cursors s) h"
    by (rule rstore_db.append_ok [OF db assms(5) c bound, of cursor keep]) (rule that, assumption+)
  have "int (length (merged qs recs)) < 2 ^ 63" if "cached K R s host qs" for qs
    using rstore_db.cached_unique [OF db that c(1)] bound by simp
  then have "rstore_ok K R C s'"
    using rstore_db.append_keeps_ok [OF db assms(4), of host recs cursor keep] s'(1) by simp
  then show ?thesis
    using s' rstore_db.cached_records [OF db s'(2)] by (auto simp: rstore_records_def)
qed

lemma rstore_append_merges_witness:
  "\<exists>s'. rstore_append log_kv log_kv log_kv (rstore_fresh log_kv log_kv) ''h''
      [\<lparr>pl_seq = 2, pl_id = ''b'', pl_key_id = [], pl_blob = [], pl_created_ms = 0\<rparr>,
       \<lparr>pl_seq = 1, pl_id = ''a'', pl_key_id = [], pl_blob = [], pl_created_ms = 0\<rparr>] 2 1 = (s', Inr 1) \<and>
    rstore_records log_kv log_kv s' ''h'' =
      Inr [json_pull \<lparr>pl_seq = 2, pl_id = ''b'', pl_key_id = [], pl_blob = [], pl_created_ms = 0\<rparr>]"
  using rstore_append_merges [OF log.bucket_axioms log.bucket_axioms log.bucket_axioms log_cache.fresh_ok,
      of "''h''" "[]" "[\<lparr>pl_seq = 2, pl_id = ''b'', pl_key_id = [], pl_blob = [], pl_created_ms = 0\<rparr>,
       \<lparr>pl_seq = 1, pl_id = ''a'', pl_key_id = [], pl_blob = [], pl_created_ms = 0\<rparr>]" 2 1]
  by (auto simp: merged_def newest_def json_pull_def rstore_records_def rstore_fresh_def)

text \<open>Reset empties the cache: no host, no record, no cursor and no count is left, and the cache is
  consistent.\<close>

theorem rstore_reset_empty:
  assumes "bucket K" and "bucket R" and "bucket C"
  shows "rstore_hosts R (rstore_reset R C s) = [] \<and> rstore_cursors C (rstore_reset R C s) = [] \<and>
    rstore_records K R (rstore_reset R C s) host = Inr [] \<and> load_count C (rstore_reset R C s) host = 0 \<and>
    rstore_ok K R C (rstore_reset R C s)"
proof -
  note db = rstore_db_of [OF assms]
  have "kv_items R (rs_streams (rstore_reset R C s)) = []"
    using rstore_db.reset_empty [OF db] bucket.items_Nil [OF assms(2)] by blast
  moreover have "kv_items C (rs_cursors (rstore_reset R C s)) = []"
    by (simp add: rstore_reset_def bucket.items_empty [OF assms(3)])
  ultimately show ?thesis
    using rstore_db.reset_empty [OF db] rstore_db.reset_ok [OF db] bucket.get_empty [OF assms(3)]
    by (simp add: rstore_hosts_def rstore_cursors_def rstore_records_def load_count_def)
      (simp add: rstore_reset_def be_uint64_def)
qed

lemma rstore_reset_empty_witness:
  "rstore_hosts log_kv (rstore_reset log_kv log_kv
     (\<lparr>rs_streams = ([(''stream:h'', ([] :: (string \<times> pull_record blob) list, 0::u64))], 0), rs_cursors = ([(''h'', seq_key 4)], 0),
       rs_counts = ([], 0)\<rparr>)) = []"
  using rstore_reset_empty [OF log.bucket_axioms log.bucket_axioms log.bucket_axioms] by blast

end
