(* ===== verification/Importer.thy ===== *)
theory Importer
  imports History_Record
begin

unbundle bit_operations_syntax

text \<open>
  \<open>internal/importer\<close>: zsh and bash history files parsed into records. A file is the bytes read; the
  read error of \<open>io.ReadAll\<close> is outside the model. \<open>sha256\<close> inside \<open>rec.ImportID\<close> is the parameter
  \<open>H\<close>.
\<close>

definition nl :: char where "nl = CHR 0x0A"
definition cr :: char where "cr = CHR 0x0D"
definition backslash :: char where "backslash = CHR 0x5C"


subsection \<open>Discovery\<close>

record source =
  src_path :: string
  src_format :: string

text \<open>\<open>regular\<close> answers whether a path is an existing regular file.\<close>

definition auto_candidates :: "string \<Rightarrow> source list" where
  "auto_candidates home =
    [\<lparr>src_path = path_join [home, ''.zsh_history''], src_format = ''zsh''\<rparr>,
     \<lparr>src_path = path_join [home, ''.config'', ''zsh'', ''.zsh_history''], src_format = ''zsh''\<rparr>,
     \<lparr>src_path = path_join [home, ''.zhistory''], src_format = ''zsh''\<rparr>,
     \<lparr>src_path = path_join [home, ''.bash_history''], src_format = ''bash''\<rparr>]"

definition auto_sources :: "(string \<Rightarrow> bool) \<Rightarrow> string \<Rightarrow> source list" where
  "auto_sources regular home = filter (\<lambda>c. regular (src_path c)) (auto_candidates home)"


subsection \<open>Physical lines\<close>

definition drop_cr :: "string \<Rightarrow> string" where
  "drop_cr b = (if b \<noteq> [] \<and> last b = cr then butlast b else b)"

text \<open>The loop keeps the bytes since the last newline; here they are the accumulator.\<close>

fun lines_from :: "string \<Rightarrow> string \<Rightarrow> string list" where
  "lines_from cur [] = (if cur = [] then [] else [drop_cr cur])"
| "lines_from cur (c # cs) =
    (if c = nl then drop_cr cur # lines_from [] cs else lines_from (cur @ [c]) cs)"

definition physical_lines :: "string \<Rightarrow> string list" where
  "physical_lines b = lines_from [] b"


subsection \<open>bash\<close>

text \<open>\<open>sec * 1000\<close> is Go's wrapping multiplication.\<close>

definition bash_timestamp :: "string \<Rightarrow> int option" where
  "bash_timestamp line =
    (if length line < 2 \<or> hd line \<noteq> CHR ''#'' then None
     else if \<not> list_all is_digit_byte (tl line) then None
     else case parse_int64 (tl line) of
            None \<Rightarrow> None
          | Some sec \<Rightarrow> Some (wrap64 (sec * 1000)))"

definition import_rec ::
  "(string \<Rightarrow> string) \<Rightarrow> string \<Rightarrow> int \<Rightarrow> int option \<Rightarrow> string \<Rightarrow> hrec" where
  "import_rec H host start_ms dur cmd = zero_rec
    \<lparr>r_id := import_id H host start_ms cmd, r_session := ''import'', r_cmd := cmd,
     r_start_ms := start_ms, r_dur_ms := dur\<rparr>"

fun bash_lines :: "(string \<Rightarrow> string) \<Rightarrow> string \<Rightarrow> int \<Rightarrow> string list \<Rightarrow> hrec list" where
  "bash_lines H host pending [] = []"
| "bash_lines H host pending (line # rest) =
    (case bash_timestamp line of
       Some ms \<Rightarrow> bash_lines H host ms rest
     | None \<Rightarrow>
         if trim_space line = [] then bash_lines H host pending rest
         else import_rec H host pending None line # bash_lines H host 0 rest)"

definition import_bash :: "(string \<Rightarrow> string) \<Rightarrow> string \<Rightarrow> string \<Rightarrow> hrec list" where
  "import_bash H host raw = bash_lines H host 0 (physical_lines raw)"


subsection \<open>zsh\<close>

definition meta_char :: char where "meta_char = CHR 0x83"

text \<open>\<open>b ^ metaShift\<close>\<close>

definition meta_flip :: "char \<Rightarrow> char" where
  "meta_flip c = char_of (byte c XOR 32)"

fun unmetafy :: "string \<Rightarrow> string" where
  "unmetafy [] = []"
| "unmetafy [b] = [b]"
| "unmetafy (b # c # rest) =
    (if b = meta_char then meta_flip c # unmetafy rest else b # unmetafy (c # rest))"

definition ends_with_backslash :: "string \<Rightarrow> bool" where
  "ends_with_backslash s \<longleftrightarrow> s \<noteq> [] \<and> last s = backslash"

text \<open>The inner loop of \<open>Zsh\<close>: join while the growing entry still ends in a backslash.\<close>

fun join_lines :: "string \<Rightarrow> string list \<Rightarrow> string \<times> string list" where
  "join_lines logical [] = (logical, [])"
| "join_lines logical (l # ls) =
    (if ends_with_backslash logical then join_lines (butlast logical @ [nl] @ l) ls
     else (logical, l # ls))"

lemma join_lines_shorter: "join_lines logical ls = (e, rest) \<Longrightarrow> length rest \<le> length ls"
  by (induction logical ls rule: join_lines.induct) (auto split: if_splits)

function zsh_entries :: "string list \<Rightarrow> string list" where
  "zsh_entries [] = []"
| "zsh_entries (l # ls) =
    (case join_lines l ls of (logical, rest) \<Rightarrow> logical # zsh_entries rest)"
  by pat_completeness auto
termination
  by (relation "measure length") (auto dest!: sym [of "(_, _)"] join_lines_shorter)

text \<open>\<open>parseExtended\<close>, reading off the string instead of indexing it.\<close>

definition parse_extended :: "string \<Rightarrow> (int \<times> int \<times> string) option" where
  "parse_extended line =
    (if \<not> has_prefix line '': '' then None
     else
       let r1 = dropWhile (\<lambda>c. c = CHR '' '') (tl line);
           start_str = takeWhile is_digit_byte r1;
           r2 = dropWhile is_digit_byte r1
       in if start_str = [] \<or> \<not> has_prefix r2 '':'' then None
          else
            let r3 = tl r2;
                sign = (if has_prefix r3 ''-'' then ''-'' else []);
                r4 = drop (length sign) r3;
                ds = takeWhile is_digit_byte r4;
                r5 = dropWhile is_digit_byte r4
            in if ds = [] \<or> \<not> has_prefix r5 '';'' then None
               else case (parse_int64 start_str, parse_int64 (sign @ ds)) of
                      (Some start, Some elapsed) \<Rightarrow> Some (start, elapsed, tl r5)
                    | _ \<Rightarrow> None)"

definition parse_zsh_line :: "string \<Rightarrow> int \<times> int option \<times> string" where
  "parse_zsh_line line =
    (case parse_extended line of
       Some (start, elapsed, cmd) \<Rightarrow>
         (wrap64 (start * 1000), if elapsed \<ge> 0 then Some (wrap64 (elapsed * 1000)) else None, cmd)
     | None \<Rightarrow> (0, None, line))"

fun zsh_records :: "(string \<Rightarrow> string) \<Rightarrow> string \<Rightarrow> string list \<Rightarrow> hrec list" where
  "zsh_records H host [] = []"
| "zsh_records H host (logical # rest) =
    (case parse_zsh_line logical of (start_ms, dur, cmd) \<Rightarrow>
       if trim_space cmd = [] then zsh_records H host rest
       else import_rec H host start_ms dur cmd # zsh_records H host rest)"

definition import_zsh :: "(string \<Rightarrow> string) \<Rightarrow> string \<Rightarrow> string \<Rightarrow> hrec list" where
  "import_zsh H host raw = zsh_records H host (zsh_entries (map unmetafy (physical_lines raw)))"


section \<open>Correctness\<close>

subsection \<open>Metafication\<close>

text \<open>zsh's writer: the bytes it escapes, and the escape.\<close>

definition meta_special :: "char \<Rightarrow> bool" where
  "meta_special c \<longleftrightarrow> byte c = 0 \<or> (131 \<le> byte c \<and> byte c \<le> 162)"

definition metafy :: "string \<Rightarrow> string" where
  "metafy s = concat (map (\<lambda>c. if meta_special c then [meta_char, meta_flip c] else [c]) s)"

lemma byte_char_of: "byte (char_of n) = n mod 256"
  by (simp add: byte_def)

lemma xor_32_small: "n < 256 \<Longrightarrow> (n XOR 32) mod 256 = (n XOR 32 :: nat)"
  using take_bit_xor [of 8 n 32] by (simp add: take_bit_eq_mod)

lemma byte_meta_flip: "byte (meta_flip c) = byte c XOR 32"
  by (simp add: meta_flip_def byte_char_of xor_32_small)

lemma meta_flip_flip [simp]: "meta_flip (meta_flip c) = c"
proof -
  have "byte (meta_flip (meta_flip c)) = byte c"
    by (simp add: byte_meta_flip xor.assoc)
  then show ?thesis by simp
qed

lemma meta_flip_plain: "meta_special c \<Longrightarrow> meta_flip c \<noteq> nl \<and> meta_flip c \<noteq> cr"
proof -
  assume special: "meta_special c"
  have "byte nl = 10" "byte cr = 13" by (simp_all add: nl_def cr_def byte_def)
  then have "\<not> meta_special (meta_flip nl)" "\<not> meta_special (meta_flip cr)"
    by (simp_all add: meta_special_def byte_meta_flip)
  with special show ?thesis by (metis meta_flip_flip)
qed

lemma unmetafy_plain: "c \<noteq> meta_char \<Longrightarrow> unmetafy (c # t) = c # unmetafy t"
  by (cases t) simp_all

lemma unmetafy_metafy: "unmetafy (metafy s) = s"
proof (induction s)
  case (Cons c s)
  show ?case
  proof (cases "meta_special c")
    case True
    with Cons show ?thesis by (simp add: metafy_def)
  next
    case False
    then have "c \<noteq> meta_char" by (auto simp: meta_special_def meta_char_def byte_def)
    with False Cons show ?thesis by (simp add: metafy_def unmetafy_plain)
  qed
qed (simp add: metafy_def)

lemma metafy_no_nl: "nl \<notin> set s \<Longrightarrow> nl \<notin> set (metafy s)"
proof (induction s)
  case (Cons c s)
  have "nl \<noteq> meta_char" by (simp add: nl_def meta_char_def)
  with Cons meta_flip_plain [of c] show ?case by (auto simp: metafy_def)
qed (simp add: metafy_def)

lemma metafy_snoc: "metafy (s @ [c]) = metafy s @ (if meta_special c then [meta_char, meta_flip c] else [c])"
  by (simp add: metafy_def)

lemma drop_cr_metafy: "s = [] \<or> last s \<noteq> cr \<Longrightarrow> drop_cr (metafy s) = metafy s"
proof (cases s rule: rev_cases)
  case (snoc xs c)
  moreover assume "s = [] \<or> last s \<noteq> cr"
  ultimately show ?thesis using meta_flip_plain [of c] by (auto simp: drop_cr_def metafy_snoc)
qed (simp add: metafy_def drop_cr_def)


subsection \<open>Lines\<close>

lemma lines_from_line:
  "nl \<notin> set l \<Longrightarrow> lines_from cur (l @ nl # rest) = drop_cr (cur @ l) # lines_from [] rest"
  by (induction l arbitrary: cur) auto

lemma physical_lines_written:
  assumes "\<And>l. l \<in> set ls \<Longrightarrow> nl \<notin> set l"
  shows "physical_lines (concat (map (\<lambda>l. l @ [nl]) ls)) = map drop_cr ls"
  unfolding physical_lines_def using assms
proof (induction ls)
  case (Cons l ls)
  then show ?case
    using lines_from_line [of l "[]" "concat (map (\<lambda>l. l @ [nl]) ls)"] by simp
qed simp


subsection \<open>What zsh writes is read back\<close>

text \<open>An entry of an extended history file: start and elapsed seconds, and the command.\<close>

definition zsh_text :: "int \<times> int \<times> string \<Rightarrow> string" where
  "zsh_text e = (case e of (start, elapsed, cmd) \<Rightarrow>
     '': '' @ format_int start @ '':'' @ format_int elapsed @ '';'' @ cmd)"

definition zsh_escape :: "string \<Rightarrow> string" where
  "zsh_escape s = concat (map (\<lambda>c. if c = nl then [backslash, nl] else [c]) s)"

definition zsh_file :: "(int \<times> int \<times> string) list \<Rightarrow> string" where
  "zsh_file es = concat (map (\<lambda>e. metafy (zsh_escape (zsh_text e)) @ [nl]) es)"

definition zsh_writable :: "int \<times> int \<times> string \<Rightarrow> bool" where
  "zsh_writable e \<longleftrightarrow> (case e of (start, elapsed, cmd) \<Rightarrow>
     0 \<le> start \<and> int64 (start * 1000) \<and> 0 \<le> elapsed \<and> int64 (elapsed * 1000) \<and>
     trim_space cmd \<noteq> [] \<and> last cmd \<noteq> backslash \<and> last cmd \<noteq> cr)"

fun esc_lines :: "string list \<Rightarrow> string list" where
  "esc_lines (p # q # ps) = (p @ [backslash]) # esc_lines (q # ps)"
| "esc_lines [p] = [p]"
| "esc_lines [] = []"

lemma esc_lines_Cons:
  "esc_lines ((c # p) # ps) = (c # hd (esc_lines (p # ps))) # tl (esc_lines (p # ps))"
  by (cases ps) auto

lemma esc_lines_ne [simp]: "esc_lines ps = [] \<longleftrightarrow> ps = []"
  by (cases ps rule: esc_lines.cases) auto

lemma metafy_Cons_nl: "metafy (nl # s) = nl # metafy s"
  and metafy_Cons_backslash: "metafy (backslash # s) = backslash # metafy s"
  by (simp_all add: metafy_def meta_special_def nl_def backslash_def byte_def)

lemma metafy_append: "metafy (s @ t) = metafy s @ metafy t"
  by (simp add: metafy_def)

lemma metafy_Nil [simp]: "metafy [] = []"
  by (simp add: metafy_def)

lemma written_lines:
  "metafy (zsh_escape s) @ [nl] =
    concat (map (\<lambda>l. l @ [nl]) (map metafy (esc_lines (split_on nl s))))"
proof (induction s)
  case (Cons c s)
  obtain p ps where ps: "split_on nl s = p # ps" by (cases "split_on nl s") auto
  show ?case
  proof (cases "c = nl")
    case True
    with Cons ps show ?thesis
      by (simp add: zsh_escape_def metafy_Cons_backslash metafy_Cons_nl)
  next
    case False
    obtain l ls where e: "esc_lines (p # ps) = l # ls"
      by (cases "esc_lines (p # ps)") auto
    have plain: "metafy (c # x) = metafy [c] @ metafy x" for x
      using metafy_append [of "[c]" x] by simp
    have "metafy (zsh_escape (c # s)) @ [nl] = metafy [c] @ metafy (zsh_escape s) @ [nl]"
      using False by (simp add: zsh_escape_def plain [of "concat _"])
    also have "\<dots> = metafy (c # l) @ [nl] @ concat (map (\<lambda>l. l @ [nl]) (map metafy ls))"
      using Cons ps e by (simp add: plain [of l])
    finally show ?thesis using False ps e by (simp add: esc_lines_Cons)
  qed
qed (simp add: zsh_escape_def)

lemma join_esc_lines:
  "ps \<noteq> [] \<Longrightarrow> \<not> ends_with_backslash (acc @ join_with [nl] ps) \<Longrightarrow>
    join_lines (acc @ hd (esc_lines ps)) (tl (esc_lines ps) @ rest) = (acc @ join_with [nl] ps, rest)"
proof (induction ps arbitrary: acc rule: esc_lines.induct)
  case (1 p q ps)
  have "esc_lines (q # ps) = hd (esc_lines (q # ps)) # tl (esc_lines (q # ps))" by simp
  moreover have "butlast (acc @ p @ [backslash]) = acc @ p"
    by (metis append_assoc butlast_snoc)
  moreover have "ends_with_backslash (acc @ p @ [backslash])" by (simp add: ends_with_backslash_def)
  ultimately have "join_lines (acc @ hd (esc_lines (p # q # ps))) (tl (esc_lines (p # q # ps)) @ rest) =
      join_lines ((acc @ p @ [nl]) @ hd (esc_lines (q # ps))) (tl (esc_lines (q # ps)) @ rest)"
    by (metis append.assoc append_Cons esc_lines.simps(1) join_lines.simps(2) list.sel(1) list.sel(3))
  also have "\<dots> = ((acc @ p @ [nl]) @ join_with [nl] (q # ps), rest)"
    using 1(3) by (intro 1(1)) simp_all
  finally show ?case by simp
next
  case (2 p)
  then show ?case by (cases rest) auto
qed simp

lemma zsh_entries_written:
  assumes "\<And>t. t \<in> set ts \<Longrightarrow> \<not> ends_with_backslash t"
  shows "zsh_entries (concat (map (\<lambda>t. esc_lines (split_on nl t)) ts)) = ts"
  using assms
proof (induction ts)
  case (Cons t ts)
  let ?e = "esc_lines (split_on nl t)"
  obtain l ls where e: "?e = l # ls" by (cases ?e) auto
  have "join_lines l (ls @ concat (map (\<lambda>t. esc_lines (split_on nl t)) ts)) =
      (t, concat (map (\<lambda>t. esc_lines (split_on nl t)) ts))"
    using join_esc_lines [of "split_on nl t" "[]"] Cons.prems e by simp
  with Cons e show ?case by simp
qed simp


lemma takeWhile_digits:
  "list_all P s \<Longrightarrow> \<not> P c \<Longrightarrow> takeWhile P (s @ c # t) = s"
  "list_all P s \<Longrightarrow> \<not> P c \<Longrightarrow> dropWhile P (s @ c # t) = c # t"
  by (induction s) auto

lemma format_nonneg: "0 \<le> n \<Longrightarrow> format_int n = nat_digits (nat n)"
  by (simp add: format_int_def)

lemma nat_digits_all: "list_all is_digit_byte (nat_digits n)" "nat_digits n \<noteq> []"
  using nat_digits_correct [of n] by (simp_all add: all_digits_def)

lemma digit_chars [simp]:
  "\<not> is_digit_byte CHR '':''" "\<not> is_digit_byte CHR '';''" "\<not> is_digit_byte CHR '' ''"
  "\<not> is_digit_byte CHR ''-''" "\<not> is_digit_byte nl"
  by (simp_all add: is_digit_byte_iff byte_def nl_def)

lemma parse_extended_written:
  assumes "0 \<le> start" "int64 start" "0 \<le> elapsed" "int64 elapsed"
  shows "parse_extended (zsh_text (start, elapsed, cmd)) = Some (start, elapsed, cmd)"
proof -
  let ?s = "nat_digits (nat start)" and ?e = "nat_digits (nat elapsed)"
  obtain c cs where c: "?s = c # cs" "is_digit_byte c" using nat_digits_head by blast
  obtain d ds where d: "?e = d # ds" "is_digit_byte d" using nat_digits_head by blast
  have sp: "dropWhile (\<lambda>c. c = CHR '' '') (?s @ t) = ?s @ t" for t
    using c by (auto simp: is_digit_byte_iff byte_def)
  have nosign: "\<not> has_prefix (?e @ t) ''-''" for t
    using d by (auto simp: has_prefix_def)
  have p: "parse_int64 ?s = Some start" "parse_int64 ?e = Some elapsed"
    using parse_format_int assms format_nonneg by metis+
  show ?thesis
    using assms nat_digits_all p sp nosign
    by (simp add: zsh_text_def parse_extended_def format_nonneg takeWhile_digits has_prefix_def)
qed

lemma int64_smaller: "0 \<le> n \<Longrightarrow> int64 (n * 1000) \<Longrightarrow> int64 n"
  by (auto simp: int64_def)

lemma zsh_records_written:
  "\<forall>e \<in> set es. zsh_writable e \<Longrightarrow>
    zsh_records H host (map zsh_text es) =
      map (\<lambda>(start, elapsed, cmd). import_rec H host (start * 1000) (Some (elapsed * 1000)) cmd) es"
proof (induction es)
  case (Cons e es)
  obtain start elapsed cmd where e: "e = (start, elapsed, cmd)" by (cases e)
  have "parse_extended (zsh_text e) = Some (start, elapsed, cmd)"
    using Cons.prems int64_smaller by (auto simp: e zsh_writable_def intro!: parse_extended_written)
  with Cons show ?case
    by (auto simp: e parse_zsh_line_def zsh_writable_def wrap64_id)
qed simp

lemma trim_space_Nil [simp]: "trim_space [] = []"
  by (simp add: trim_space_def)

lemma zsh_text_last: "cmd \<noteq> [] \<Longrightarrow> last (zsh_text (start, elapsed, cmd)) = last cmd"
  by (simp add: zsh_text_def)

lemma zsh_text_ne [simp]: "zsh_text e \<noteq> []"
  by (cases e) (simp add: zsh_text_def)

lemma esc_lines_last:
  assumes "l \<in> set (esc_lines ps)"
  shows "l = [] \<or> last l = backslash \<or> l = last ps"
  using assms by (induction ps rule: esc_lines.induct) auto

lemma join_ne: "ps \<noteq> [] \<Longrightarrow> last ps \<noteq> [] \<Longrightarrow> join_with sep ps \<noteq> []"
proof (induction sep ps rule: join_with.induct)
  case (3 sep s t ss)
  then have "join_with sep (t # ss) \<noteq> []" by simp
  then show ?case by simp
qed simp_all

lemma last_join: "ps \<noteq> [] \<Longrightarrow> last ps \<noteq> [] \<Longrightarrow> last (join_with sep ps) = last (last ps)"
proof (induction sep ps rule: join_with.induct)
  case (3 sep s t ss)
  then have "join_with sep (t # ss) \<noteq> []"
    by (intro join_ne) simp_all
  with 3 show ?case by simp
qed simp_all

lemma esc_lines_no_nl:
  "(\<And>p. p \<in> set ps \<Longrightarrow> nl \<notin> set p) \<Longrightarrow> l \<in> set (esc_lines ps) \<Longrightarrow> nl \<notin> set l"
proof (induction ps rule: esc_lines.induct)
  case (1 p q ps)
  have "nl \<noteq> backslash" by (simp add: nl_def backslash_def)
  with 1 show ?case by auto
qed simp_all


lemma written_line_ok:
  assumes "zsh_writable e" and "l \<in> set (esc_lines (split_on nl (zsh_text e)))"
  shows "nl \<notin> set l" and "l = [] \<or> last l \<noteq> cr"
proof -
  let ?ps = "split_on nl (zsh_text e)"
  show "nl \<notin> set l" using esc_lines_no_nl [OF _ assms(2)] split_on_pieces by blast
  obtain start elapsed cmd where e: "e = (start, elapsed, cmd)" by (cases e)
  have "cmd \<noteq> []" using assms(1) by (auto simp: e zsh_writable_def)
  then have "last (zsh_text e) \<noteq> cr" using assms(1) by (auto simp: e zsh_writable_def zsh_text_last)
  then have "last ?ps = [] \<or> last (last ?ps) \<noteq> cr"
    using last_join [of ?ps "[nl]"] by auto
  moreover have "backslash \<noteq> cr" by (simp add: backslash_def cr_def)
  ultimately show "l = [] \<or> last l \<noteq> cr" using esc_lines_last [OF assms(2)] by auto
qed

lemma zsh_text_end: "zsh_writable e \<Longrightarrow> \<not> ends_with_backslash (zsh_text e)"
proof -
  assume w: "zsh_writable e"
  obtain start elapsed cmd where e: "e = (start, elapsed, cmd)" by (cases e)
  with w have "cmd \<noteq> []" by (auto simp: zsh_writable_def)
  with w show ?thesis by (auto simp: e ends_with_backslash_def zsh_writable_def zsh_text_last)
qed

lemma zsh_round_trip:
  assumes "\<forall>e \<in> set es. zsh_writable e"
  shows "import_zsh H host (zsh_file es) =
    map (\<lambda>(start, elapsed, cmd). import_rec H host (start * 1000) (Some (elapsed * 1000)) cmd) es"
proof -
  let ?lines = "concat (map (\<lambda>e. esc_lines (split_on nl (zsh_text e))) es)"
  have ok: "nl \<notin> set l \<and> (l = [] \<or> last l \<noteq> cr)" if "l \<in> set ?lines" for l
  proof -
    from that obtain e where "e \<in> set es" "l \<in> set (esc_lines (split_on nl (zsh_text e)))"
      by auto
    with assms show ?thesis using written_line_ok by blast
  qed
  have "zsh_file es = concat (map (\<lambda>l. l @ [nl]) (map metafy ?lines))"
    unfolding zsh_file_def by (induction es) (simp_all only: written_lines list.map concat.simps
        map_append concat_append)
  then have "physical_lines (zsh_file es) = map drop_cr (map metafy ?lines)"
    using ok metafy_no_nl by (simp only:) (intro physical_lines_written, auto)
  also have "\<dots> = map metafy ?lines" using ok drop_cr_metafy by simp
  finally have "map unmetafy (physical_lines (zsh_file es)) = ?lines"
    by (simp add: comp_def unmetafy_metafy)
  moreover have "zsh_entries ?lines = map zsh_text es"
  proof -
    have "\<not> ends_with_backslash t" if "t \<in> set (map zsh_text es)" for t
      using that assms zsh_text_end by auto
    then show ?thesis using zsh_entries_written [of "map zsh_text es"] by (simp add: comp_def)
  qed
  ultimately show ?thesis using zsh_records_written [OF assms] by (simp add: import_zsh_def)
qed


subsection \<open>What bash writes is read back\<close>

definition bash_file :: "(int \<times> string) list \<Rightarrow> string" where
  "bash_file es =
    concat (map (\<lambda>(sec, cmd). CHR ''#'' # format_int sec @ nl # cmd @ [nl]) es)"

definition bash_writable :: "int \<times> string \<Rightarrow> bool" where
  "bash_writable e \<longleftrightarrow> (case e of (sec, cmd) \<Rightarrow>
     0 \<le> sec \<and> int64 (sec * 1000) \<and> nl \<notin> set cmd \<and> trim_space cmd \<noteq> [] \<and> last cmd \<noteq> cr \<and>
     bash_timestamp cmd = None)"

lemma bash_timestamp_written:
  assumes "0 \<le> sec" and "int64 (sec * 1000)"
  shows "bash_timestamp (CHR ''#'' # format_int sec) = Some (sec * 1000)"
proof -
  have p: "parse_int64 (nat_digits (nat sec)) = Some sec"
    using parse_format_int [OF int64_smaller [OF assms]] format_nonneg assms(1) by metis
  obtain c cs where c: "nat_digits (nat sec) = c # cs" using nat_digits_head by blast
  then have "\<not> length (CHR ''#'' # nat_digits (nat sec)) < 2" by simp
  with p nat_digits_all(1) [of "nat sec"] assms show ?thesis
    by (simp add: bash_timestamp_def format_nonneg wrap64_id)
qed

lemma drop_cr_digits: "0 \<le> sec \<Longrightarrow> drop_cr (CHR ''#'' # format_int sec) = CHR ''#'' # format_int sec"
proof -
  assume "0 \<le> sec"
  moreover have "last (nat_digits n) \<noteq> cr" for n
  proof
    assume "last (nat_digits n) = cr"
    then have "is_digit_byte cr"
      using nat_digits_all [of n] last_in_set [of "nat_digits n"] by (metis list_all_iff)
    then show False by (simp add: is_digit_byte_iff cr_def byte_def)
  qed
  ultimately show ?thesis using nat_digits_all by (simp add: drop_cr_def format_nonneg)
qed

lemma bash_round_trip:
  assumes "\<forall>e \<in> set es. bash_writable e"
  shows "import_bash H host (bash_file es) =
    map (\<lambda>(sec, cmd). import_rec H host (sec * 1000) None cmd) es"
  using assms
proof (induction es)
  case Nil
  then show ?case by (simp add: import_bash_def bash_file_def physical_lines_def)
next
  case (Cons e es)
  obtain sec cmd where e: "e = (sec, cmd)" by (cases e)
  have w: "0 \<le> sec" "int64 (sec * 1000)" "nl \<notin> set cmd" "trim_space cmd \<noteq> []" "last cmd \<noteq> cr"
      "bash_timestamp cmd = None"
    using Cons.prems by (simp_all add: e bash_writable_def)
  have "nl \<notin> set (CHR ''#'' # format_int sec)"
    using nat_digits_all(1) [of "nat sec"] w(1) digit_chars(5)
    by (auto simp: format_nonneg list_all_iff) (simp add: nl_def)
  from lines_from_line [OF this, of "[]"] lines_from_line [OF w(3), of "[]"]
  have "physical_lines (bash_file (e # es)) =
      drop_cr (CHR ''#'' # format_int sec) # drop_cr cmd # physical_lines (bash_file es)"
    by (simp add: e bash_file_def physical_lines_def)
  with w Cons show ?case
    by (simp add: e import_bash_def drop_cr_digits bash_timestamp_written)
      (simp add: drop_cr_def w)
qed


lemma bash_timestamp_digits:
  assumes "0 \<le> sec" and "int64 sec"
  shows "bash_timestamp (CHR ''#'' # format_int sec) = Some (wrap64 (sec * 1000))"
proof -
  have p: "parse_int64 (nat_digits (nat sec)) = Some sec"
    using parse_format_int [OF assms(2)] format_nonneg assms(1) by metis
  obtain c cs where c: "nat_digits (nat sec) = c # cs" using nat_digits_head by blast
  then have "\<not> length (CHR ''#'' # nat_digits (nat sec)) < 2" by simp
  with p nat_digits_all(1) [of "nat sec"] assms show ?thesis
    by (simp add: bash_timestamp_def format_nonneg)
qed


subsection \<open>Properties\<close>



text \<open>bash history round trip: timestamped entries are read back as exactly those entries, in order.\<close>

theorem bash_import_round_trip:
  assumes "\<forall>e \<in> set es. bash_writable e"
  shows "import_bash H host (bash_file es) =
    map (\<lambda>(sec, cmd). import_rec H host (sec * 1000) None cmd) es"
  by (rule bash_round_trip [OF assms])

lemma bash_import_round_trip_witness:
  "import_bash (\<lambda>s. s) ''h'' (bash_file [(7, ''# note''), (9, ''ls'')]) =
    [import_rec (\<lambda>s. s) ''h'' 7000 None ''# note'', import_rec (\<lambda>s. s) ''h'' 9000 None ''ls'']"
proof -
  have t: "trim_space (CHR ''#'' # cs) \<noteq> []" "trim_space (CHR ''l'' # cs) \<noteq> []" for cs
    by (simp_all add: trim_space_def chunks_ascii ascii_byte_def byte_def rune_is_space_def dropWhile_append3)
  have "\<forall>e \<in> set [(7, ''# note''), (9, ''ls'')]. bash_writable e"
    using t by (simp add: bash_writable_def int64_def nl_def cr_def bash_timestamp_def is_digit_byte_iff byte_def)
  from bash_import_round_trip [OF this] show ?thesis by simp
qed

text \<open>A bash timestamp is read as long as its seconds fit 64 bits, and its milliseconds then wrap around:
  the largest such line stands one second before the epoch instead of being a literal command.\<close>

theorem bash_timestamp_wraps:
  assumes "0 \<le> sec" and "int64 sec"
  shows "bash_timestamp (CHR ''#'' # format_int sec) = Some (wrap64 (sec * 1000))"
  by (rule bash_timestamp_digits [OF assms])

lemma bash_timestamp_wraps_witness:
  "bash_timestamp (CHR ''#'' # format_int 9223372036854775807) = Some (- 1000)"
  by (subst bash_timestamp_wraps) (simp_all add: int64_def wrap64_def)

text \<open>A zsh line ending in two backslashes is joined to the next line all the same: the two entries
  become one command.\<close>

theorem zsh_double_backslash_joins:
  "import_zsh H host (''echo a'' @ [backslash, backslash, nl] @ ''ls'' @ [nl]) =
    [import_rec H host 0 None (''echo a'' @ [backslash, nl] @ ''ls'')]"
proof -
  have t: "trim_space (CHR ''e'' # cs) \<noteq> []" for cs
    by (simp add: trim_space_def chunks_ascii ascii_byte_def byte_def rune_is_space_def dropWhile_append3)
  have l: "physical_lines (''echo a'' @ [backslash, backslash, nl] @ ''ls'' @ [nl]) =
      [''echo a'' @ [backslash, backslash], ''ls'']"
    by (simp add: physical_lines_def nl_def backslash_def drop_cr_def cr_def)
  show ?thesis
    unfolding import_zsh_def l
    by (simp add: ends_with_backslash_def t parse_zsh_line_def parse_extended_def has_prefix_def meta_char_def
        backslash_def nl_def)
qed

end
