(* ===== verification/Risk_Parse.thy ===== *)
theory Risk_Parse
  imports Prelude
begin

text \<open>
  \<open>internal/risk/parse.go\<close>: the lexer, the cut into command segments, the resolution of a segment's
  command word, and the queries the rules are written against.
\<close>

record tok =
  tk_val :: string
  tk_quoted :: bool
  tk_op :: bool

definition subst_mark :: string where
  "subst_mark = [CHR 0x00, CHR ''('']"


subsection \<open>Lexing\<close>

text \<open>The locals of \<open>lex\<close>; the stack of suspended double-quote states has its top at the head.\<close>

record lex_state =
  lx_out :: "tok list"
  lx_cur :: string
  lx_quoted :: bool
  lx_has :: bool
  lx_double :: bool
  lx_stack :: "bool list"

definition lex_start :: lex_state where
  "lex_start = \<lparr>lx_out = [], lx_cur = [], lx_quoted = False, lx_has = False, lx_double = False,
     lx_stack = []\<rparr>"

definition lex_flush :: "lex_state \<Rightarrow> lex_state" where
  "lex_flush st =
    (if lx_has st
     then st\<lparr>lx_out := lx_out st @ [\<lparr>tk_val = lx_cur st, tk_quoted = lx_quoted st, tk_op = False\<rparr>],
             lx_cur := [], lx_quoted := False, lx_has := False\<rparr>
     else st)"

definition lex_emit :: "string \<Rightarrow> lex_state \<Rightarrow> lex_state" where
  "lex_emit v st =
    (let st' = lex_flush st
     in st'\<lparr>lx_out := lx_out st' @ [\<lparr>tk_val = v, tk_quoted = False, tk_op = True\<rparr>]\<rparr>)"

definition lex_word :: "string \<Rightarrow> bool \<Rightarrow> lex_state \<Rightarrow> lex_state" where
  "lex_word s q st =
    st\<lparr>lx_cur := lx_cur st @ s, lx_has := True, lx_quoted := (if q then True else lx_quoted st)\<rparr>"

definition lex_open :: "lex_state \<Rightarrow> lex_state" where
  "lex_open st =
    (let st' = lex_emit subst_mark st
     in st'\<lparr>lx_stack := lx_double st' # lx_stack st', lx_double := False\<rparr>)"

definition lex_close :: "lex_state \<Rightarrow> lex_state" where
  "lex_close st =
    (let st' = lex_emit subst_mark st
     in st'\<lparr>lx_double := hd (lx_stack st'), lx_stack := tl (lx_stack st')\<rparr>)"

function lex_loop :: "lex_state \<Rightarrow> string \<Rightarrow> lex_state" where
  "lex_loop st [] = st"
| "lex_loop st (c # cs) =
    (if c = CHR ''$'' \<and> has_prefix cs ''('' then lex_loop (lex_open st) (tl cs)
     else if c = CHR 0x60 then lex_loop (lex_emit subst_mark st) cs
     else if c = CHR '')'' \<and> lx_stack st \<noteq> [] then lex_loop (lex_close st) cs
     else if lx_double st then
       (if c = CHR 0x22 then lex_loop (st\<lparr>lx_double := False\<rparr>) cs
        else lex_loop (lex_word [c] True st) cs)
     else if c = CHR 0x5C \<and> cs \<noteq> [] then lex_loop (lex_word [hd cs] False st) (tl cs)
     else if c = CHR 0x22 then
       lex_loop (st\<lparr>lx_double := True, lx_has := True, lx_quoted := True\<rparr>) cs
     else if c = CHR 0x27 then
       (case index_byte cs (CHR 0x27) of
          None \<Rightarrow> lex_word cs True st
        | Some j \<Rightarrow> lex_loop (lex_word (take j cs) True st) (drop (j + 1) cs))
     else if c = CHR '' '' \<or> c = CHR 0x09 \<or> c = CHR 0x0A \<or> c = CHR 0x0D then
       lex_loop (lex_flush st) cs
     else if c = CHR ''|'' \<or> c = CHR ''&'' \<or> c = CHR '';'' then
       (if has_prefix cs [c] then lex_loop (lex_emit [c, c] st) (tl cs)
        else lex_loop (lex_emit [c] st) cs)
     else if c = CHR ''<'' \<and> has_prefix cs ''('' then
       lex_loop ((lex_emit subst_mark st)\<lparr>lx_stack := lx_double st # lx_stack st\<rparr>) (tl cs)
     else if c = CHR ''('' \<or> c = CHR '')'' then lex_loop (lex_emit subst_mark st) cs
     else if c = CHR ''>'' then
       (if has_prefix cs ''>'' then lex_loop (lex_emit ''>>'' st) (tl cs)
        else lex_loop (lex_emit ''>'' st) cs)
     else if c = CHR ''<'' then lex_loop (lex_emit ''<'' st) cs
     else lex_loop (lex_word [c] False st) cs)"
  by pat_completeness auto
termination
  by (relation "measure (length \<circ> snd)") (auto simp: less_Suc_eq_le)

declare lex_loop.simps(2) [simp del]

definition lex :: "string \<Rightarrow> tok list" where
  "lex s = lx_out (lex_flush (lex_loop lex_start s))"


subsection \<open>Segments\<close>

record segment =
  sg_head :: string
  sg_head_raw :: string
  sg_all :: "tok list"
  sg_args :: "tok list"
  sg_words :: "string list"
  sg_redirs :: "string list"
  sg_sudo :: bool
  sg_inert :: bool
  sg_piped :: bool

definition splitters :: "string list" where
  "splitters = [''|'', ''||'', ''&&'', '';'', '';;'', ''&'', subst_mark]"

definition exec_args :: "string list" where
  "exec_args = [''-exec'', ''-execdir'', ''-ok'', ''-okdir'']"

definition wrappers :: "string list" where
  "wrappers =
    [''sudo'', ''doas'', ''env'', ''command'', ''builtin'', ''exec'', ''nohup'', ''time'', ''nice'',
     ''ionice'', ''stdbuf'', ''setsid'', ''timeout'', ''xargs'', ''watch'']"

definition priv_wrappers :: "string list" where
  "priv_wrappers = [''sudo'', ''doas'']"

definition wrapper_value_flags :: "string list" where
  "wrapper_value_flags = [''-u'', ''-g'', ''-p'', ''-C'', ''--user'', ''--group'']"

definition inert_flags :: "string list" where
  "inert_flags = [''--help'', ''--version'', ''--dry-run'', ''--dryrun'', ''--usage'']"

definition basename :: "string \<Rightarrow> string" where
  "basename s =
    (case last_index_byte s (CHR ''/'') of
       Some i \<Rightarrow> if i + 1 < length s then drop (i + 1) s else s
     | None \<Rightarrow> s)"

definition is_assignment :: "string \<Rightarrow> bool" where
  "is_assignment s =
    (case index_byte s (CHR ''='') of
       None \<Rightarrow> False
     | Some i \<Rightarrow>
         0 < i \<and>
         list_all (\<lambda>j. s ! j = CHR ''_'' \<or> is_lower_byte (s ! j) \<or> is_upper_byte (s ! j) \<or>
             (j \<noteq> 0 \<and> is_digit_byte (s ! j))) [0 ..< i])"

definition is_number :: "string \<Rightarrow> bool" where
  "is_number s \<longleftrightarrow> s \<noteq> [] \<and> list_all (\<lambda>c. is_digit_byte c \<or> c = CHR ''.'') s"

text \<open>The first loop of \<open>resolve\<close>: what is left without redirections, and their targets.\<close>

fun split_redirs :: "tok list \<Rightarrow> tok list \<times> string list" where
  "split_redirs [] = ([], [])"
| "split_redirs [t] = (if tk_op t then ([], []) else ([t], []))"
| "split_redirs (t # u # ts) =
    (if tk_op t then
       (if \<not> tk_op u then (case split_redirs ts of (p, r) \<Rightarrow> (p, tk_val u # r))
        else split_redirs (u # ts))
     else (case split_redirs (u # ts) of (p, r) \<Rightarrow> (t # p, r)))"

text \<open>The inner loop over a wrapper's own flags and numbers.\<close>

fun skip_flags :: "tok list \<Rightarrow> tok list" where
  "skip_flags [] = []"
| "skip_flags [t] =
    (if \<not> tk_quoted t \<and> (tk_val t \<in> set wrapper_value_flags \<or> has_prefix (tk_val t) ''-'' \<or>
        is_number (tk_val t))
     then [] else [t])"
| "skip_flags (t # u # ts) =
    (if tk_quoted t then t # u # ts
     else if tk_val t \<in> set wrapper_value_flags then skip_flags ts
     else if has_prefix (tk_val t) ''-'' \<or> is_number (tk_val t) then skip_flags (u # ts)
     else t # u # ts)"

lemma skip_flags_length: "length (skip_flags ts) \<le> length ts"
  by (induction ts rule: skip_flags.induct) (auto intro: le_SucI)

text \<open>The outer loop: the command word, as resolved and as written, its arguments, and \<open>sudo\<close>.\<close>

function resolve_head :: "tok list \<Rightarrow> bool \<Rightarrow> string \<times> string \<times> tok list \<times> bool" where
  "resolve_head [] su = ([], [], [], su)"
| "resolve_head (t # ts) su =
    (if tk_quoted t then ([], [], [], su)
     else if is_assignment (tk_val t) then resolve_head ts su
     else
       let base = basename (tk_val t)
       in if base \<notin> set wrappers then (base, tk_val t, ts, su)
          else resolve_head (skip_flags ts) (su \<or> base \<in> set priv_wrappers))"
  by pat_completeness auto
termination
  by (relation "measure (length \<circ> fst)") (auto simp: le_imp_less_Suc skip_flags_length)

definition resolve :: "tok list \<Rightarrow> bool \<Rightarrow> segment option" where
  "resolve toks piped =
    (case split_redirs toks of (plain, redirs) \<Rightarrow>
       if plain = [] \<and> redirs = [] then None
       else case resolve_head plain False of (head, raw, args, su) \<Rightarrow>
         let own = filter (\<lambda>a. \<not> tk_quoted a) args
         in Some \<lparr>sg_head = head, sg_head_raw = raw, sg_all = plain, sg_args = args,
               sg_words = map tk_val (filter (\<lambda>a. \<not> has_prefix (tk_val a) ''-'') own),
               sg_redirs = redirs, sg_sudo = su,
               sg_inert = list_ex (\<lambda>a. takeWhile (\<lambda>c. c \<noteq> CHR ''='') (tk_val a) \<in> set inert_flags) own,
               sg_piped = piped\<rparr>)"


subsection \<open>Parsing\<close>

record cmdline =
  cl_raw :: string
  cl_segs :: "segment list"
  cl_depth :: nat

fun cut_segments :: "tok list \<Rightarrow> tok list \<Rightarrow> bool \<Rightarrow> segment list" where
  "cut_segments [] cur piped = (case resolve cur piped of None \<Rightarrow> [] | Some s \<Rightarrow> [s])"
| "cut_segments (t # ts) cur piped =
    (if tk_op t \<and> tk_val t \<in> set splitters then
       (case resolve cur piped of None \<Rightarrow> [] | Some s \<Rightarrow> [s]) @
         cut_segments ts [] (tk_val t = ''|'')
     else if tk_op t then cut_segments ts (cur @ [t]) piped
     else if \<not> tk_quoted t \<and> tk_val t \<in> set exec_args then
       (case resolve cur piped of None \<Rightarrow> [] | Some s \<Rightarrow> [s]) @ cut_segments ts [] False
     else cut_segments ts (cur @ [t]) piped)"

definition parse :: "string \<Rightarrow> nat \<Rightarrow> cmdline" where
  "parse raw depth = \<lparr>cl_raw = raw, cl_segs = cut_segments (lex raw) [] False, cl_depth = depth\<rparr>"


subsection \<open>Queries\<close>

definition each :: "cmdline \<Rightarrow> (segment \<Rightarrow> bool) \<Rightarrow> bool" where
  "each c f \<longleftrightarrow> list_ex (\<lambda>s. \<not> sg_inert s \<and> f s) (cl_segs c)"

definition seg_is :: "segment \<Rightarrow> string \<Rightarrow> string list \<Rightarrow> bool" where
  "seg_is s head ws \<longleftrightarrow> sg_head s = head \<and> take (length ws) (sg_words s) = ws"

definition cl_cmd :: "string list \<Rightarrow> cmdline \<Rightarrow> bool" where
  "cl_cmd names c \<longleftrightarrow> each c (\<lambda>s. sg_head s \<in> set names)"

definition cl_sub :: "string \<Rightarrow> string list \<Rightarrow> cmdline \<Rightarrow> bool" where
  "cl_sub head ws c \<longleftrightarrow> each c (\<lambda>s. seg_is s head ws)"

definition short_flag :: "segment \<Rightarrow> char \<Rightarrow> bool" where
  "short_flag s letter \<longleftrightarrow>
    list_ex (\<lambda>a. \<not> tk_quoted a \<and> 2 \<le> length (tk_val a) \<and> tk_val a ! 0 = CHR ''-'' \<and>
        tk_val a ! 1 \<noteq> CHR ''-'' \<and> letter \<in> set (tl (tk_val a))) (sg_args s)"

definition long_flag :: "segment \<Rightarrow> string \<Rightarrow> bool" where
  "long_flag s name \<longleftrightarrow>
    list_ex (\<lambda>a. \<not> tk_quoted a \<and> (tk_val a = name \<or> has_prefix (tk_val a) (name @ ''=''))) (sg_args s)"

definition has_arg :: "segment \<Rightarrow> string \<Rightarrow> bool" where
  "has_arg s v \<longleftrightarrow> list_ex (\<lambda>a. tk_val a = v) (sg_args s)"

definition arg_prefix :: "segment \<Rightarrow> string \<Rightarrow> bool" where
  "arg_prefix s p \<longleftrightarrow> list_ex (\<lambda>a. has_prefix (tk_val a) p) (sg_args s)"

definition interpreters :: "string list" where
  "interpreters =
    [''sh'', ''bash'', ''zsh'', ''ksh'', ''dash'', ''ash'', ''fish'', ''eval'', ''source'', ''.'',
     ''python'', ''python2'', ''python3'', ''perl'', ''ruby'', ''node'', ''php'', ''deno'',
     ''bun'', ''Rscript'', ''osascript'', ''powershell'', ''pwsh'']"

definition payloads :: "cmdline \<Rightarrow> string list" where
  "payloads c =
    concat (map (\<lambda>s.
      if cl_depth c = 0 \<and> sg_head s \<notin> set interpreters then []
      else map tk_val
        (filter (\<lambda>a. tk_quoted a \<and> trim_space (tk_val a) \<noteq> [])
          (if 0 < cl_depth c then sg_all s else sg_args s))) (cl_segs c))"



section \<open>Correctness\<close>

subsection \<open>The work a line can cause\<close>

text \<open>The bytes of word tokens, the ones an interpreter may be handed.\<close>

definition toks_size :: "tok list \<Rightarrow> nat" where
  "toks_size ts = sum_list (map (\<lambda>t. if tk_op t then 0 else length (tk_val t)) ts)"

lemma toks_size_simps [simp]:
  "toks_size [] = 0"
  "toks_size (t # ts) = (if tk_op t then 0 else length (tk_val t)) + toks_size ts"
  "toks_size (ts @ us) = toks_size ts + toks_size us"
  by (simp_all add: toks_size_def)

definition lex_size :: "lex_state \<Rightarrow> nat" where
  "lex_size st = toks_size (lx_out st) + length (lx_cur st)"

lemma lex_size_steps [simp]:
  "lex_size (lex_flush st) = lex_size st"
  "lex_size (lex_emit v st) = lex_size st"
  "lex_size (lex_word s q st) = lex_size st + length s"
  "lex_size (lex_open st) = lex_size st"
  "lex_size (lex_close st) = lex_size st"
  "lex_size (st\<lparr>lx_double := d\<rparr>) = lex_size st"
  "lex_size (st\<lparr>lx_stack := k\<rparr>) = lex_size st"
  "lex_size (st\<lparr>lx_has := h\<rparr>) = lex_size st"
  "lex_size (st\<lparr>lx_quoted := q\<rparr>) = lex_size st"
  by (simp_all add: lex_size_def lex_flush_def lex_emit_def lex_word_def lex_open_def lex_close_def
      Let_def)

text \<open>Each branch of the loop hands on no more bytes than it was given.\<close>

definition lex_progress :: "nat \<Rightarrow> nat \<Rightarrow> lex_state \<Rightarrow> bool" where
  "lex_progress n m r \<longleftrightarrow>
    (\<exists>st cs. r = lex_loop st cs \<and> length cs \<le> n \<and> lex_size st + length cs \<le> m)"

lemma lex_progress_if:
  "(b \<Longrightarrow> lex_progress n m x) \<Longrightarrow> (\<not> b \<Longrightarrow> lex_progress n m y) \<Longrightarrow>
    lex_progress n m (if b then x else y)"
  by simp

lemma lex_progress_loop:
  "length cs \<le> n \<Longrightarrow> lex_size st + length cs \<le> m \<Longrightarrow> lex_progress n m (lex_loop st cs)"
  by (auto simp: lex_progress_def)

lemma lex_progress_quote:
  assumes "lex_size st + length cs \<le> m"
  shows "lex_progress (length cs) m
    (case index_byte cs q of
       None \<Rightarrow> lex_word cs True st
     | Some j \<Rightarrow> lex_loop (lex_word (take j cs) True st) (drop (j + 1) cs))"
proof (cases "index_byte cs q")
  case None
  then show ?thesis
    using lex_progress_loop [of "[]" "length cs" "lex_word cs True st" m] assms by simp
next
  case (Some j)
  with assms show ?thesis by (auto intro!: lex_progress_loop)
qed

lemma lex_loop_progress: "lex_progress (length cs) (lex_size st + Suc (length cs)) (lex_loop st (c # cs))"
  unfolding lex_loop.simps(2)
  by (intro lex_progress_if lex_progress_loop lex_progress_quote) (simp_all add: le_SucI)

lemma lex_loop_size: "lex_size (lex_loop st s) \<le> lex_size st + length s"
proof (induction "length s" arbitrary: st s rule: less_induct)
  case less
  show ?case
  proof (cases s)
    case (Cons c cs)
    from lex_loop_progress [of cs st c] obtain st' cs' where
      "lex_loop st (c # cs) = lex_loop st' cs'" "length cs' \<le> length cs"
      "lex_size st' + length cs' \<le> lex_size st + Suc (length cs)"
      unfolding lex_progress_def by blast
    with less [of cs' st'] Cons show ?thesis by simp
  qed simp
qed

lemma lex_size_bound: "toks_size (lex s) \<le> length s"
proof -
  have "toks_size (lex s) \<le> lex_size (lex_flush (lex_loop lex_start s))"
    by (simp add: lex_def lex_size_def)
  also have "\<dots> \<le> lex_size lex_start + length s" using lex_loop_size by simp
  finally show ?thesis by (simp add: lex_size_def lex_start_def)
qed


definition segs_size :: "segment list \<Rightarrow> nat" where
  "segs_size ss = sum_list (map (\<lambda>s. toks_size (sg_all s)) ss)"

lemma segs_size_simps [simp]:
  "segs_size [] = 0" "segs_size (s # ss) = toks_size (sg_all s) + segs_size ss"
  "segs_size (ss @ ss') = segs_size ss + segs_size ss'"
  by (simp_all add: segs_size_def)

lemma split_redirs_size: "toks_size (fst (split_redirs ts)) \<le> toks_size ts"
  by (induction ts rule: split_redirs.induct) (auto split: prod.splits)

lemma split_redirs_words: "t \<in> set (fst (split_redirs ts)) \<Longrightarrow> \<not> tk_op t"
  by (induction ts rule: split_redirs.induct) (auto split: prod.splits if_splits)

definition resolved :: "tok list \<Rightarrow> bool \<Rightarrow> segment list" where
  "resolved cur piped = (case resolve cur piped of None \<Rightarrow> [] | Some s \<Rightarrow> [s])"

lemma resolved_size: "segs_size (resolved cur piped) \<le> toks_size cur"
  using split_redirs_size [of cur]
  by (auto simp: resolved_def resolve_def Let_def split: prod.splits)

lemma cut_segments_resolved:
  "cut_segments [] cur piped = resolved cur piped"
  "cut_segments (t # ts) cur piped =
    (if tk_op t \<and> tk_val t \<in> set splitters then resolved cur piped @ cut_segments ts [] (tk_val t = ''|'')
     else if tk_op t then cut_segments ts (cur @ [t]) piped
     else if \<not> tk_quoted t \<and> tk_val t \<in> set exec_args then resolved cur piped @ cut_segments ts [] False
     else cut_segments ts (cur @ [t]) piped)"
  by (simp_all add: resolved_def)

declare cut_segments.simps [simp del]

lemma cut_segments_size: "segs_size (cut_segments ts cur piped) \<le> toks_size cur + toks_size ts"
proof (induction ts arbitrary: cur piped)
  case Nil
  then show ?case using resolved_size by (simp add: cut_segments_resolved)
next
  case (Cons t ts)
  have "segs_size (resolved cur piped) + segs_size (cut_segments ts [] p) \<le>
      toks_size cur + toks_size (t # ts)" for p
    using Cons [of "[]" p] resolved_size [of cur piped] by simp
  moreover have "segs_size (cut_segments ts (cur @ [t]) piped) \<le> toks_size cur + toks_size (t # ts)"
    using Cons [of "cur @ [t]" piped] by simp
  ultimately show ?case by (simp only: cut_segments_resolved segs_size_simps split: if_split) blast
qed

lemma resolve_head_suffix:
  "resolve_head ts su = (h, raw, args, su') \<Longrightarrow> toks_size args \<le> toks_size ts \<and> set args \<subseteq> set ts"
proof (induction ts su rule: resolve_head.induct)
  case (2 t ts su)
  have "toks_size (skip_flags us) \<le> toks_size us \<and> set (skip_flags us) \<subseteq> set us" for us
    by (induction us rule: skip_flags.induct) (auto intro: le_SucI trans_le_add2)
  with 2 show ?case by (fastforce simp: Let_def split: if_splits intro: order_trans)
qed simp

lemma quoted_size:
  "sum_list (map length (map tk_val (filter (\<lambda>a. tk_quoted a \<and> P a) ts))) \<le> toks_size ts"
  if "\<forall>t \<in> set ts. \<not> tk_op t"
  using that by (induction ts) auto


definition seg_ok :: "segment \<Rightarrow> bool" where
  "seg_ok s \<longleftrightarrow> (\<forall>t \<in> set (sg_all s). \<not> tk_op t) \<and> set (sg_args s) \<subseteq> set (sg_all s) \<and>
    toks_size (sg_args s) \<le> toks_size (sg_all s)"

lemma resolved_ok: "s \<in> set (resolved cur piped) \<Longrightarrow> seg_ok s"
  using split_redirs_words [of _ cur] resolve_head_suffix
  by (fastforce simp: resolved_def resolve_def seg_ok_def Let_def split: prod.splits if_splits)

lemma cut_segments_ok: "s \<in> set (cut_segments ts cur piped) \<Longrightarrow> seg_ok s"
  by (induction ts arbitrary: cur piped)
    (auto simp: cut_segments_resolved dest: resolved_ok split: if_splits)

text \<open>What a line hands to interpreters is never longer than the line.\<close>

lemma payloads_size:
  assumes "\<And>s. s \<in> set (cl_segs c) \<Longrightarrow> seg_ok s"
  shows "sum_list (map length (payloads c)) \<le> segs_size (cl_segs c)"
proof -
  let ?f = "\<lambda>s. if cl_depth c = 0 \<and> sg_head s \<notin> set interpreters then []
      else map tk_val (filter (\<lambda>a. tk_quoted a \<and> trim_space (tk_val a) \<noteq> [])
        (if 0 < cl_depth c then sg_all s else sg_args s))"
  have one: "sum_list (map length (?f s)) \<le> toks_size (sg_all s)" if "seg_ok s" for s
  proof -
    let ?ts = "if 0 < cl_depth c then sg_all s else sg_args s"
    have "toks_size ?ts \<le> toks_size (sg_all s)" and "\<forall>t \<in> set ?ts. \<not> tk_op t"
      using that by (auto simp: seg_ok_def)
    with quoted_size [of ?ts "\<lambda>a. trim_space (tk_val a) \<noteq> []"] show ?thesis by simp
  qed
  have "sum_list (map length (concat (map ?f ss))) \<le> segs_size ss"
    if "\<And>s. s \<in> set ss \<Longrightarrow> seg_ok s" for ss
    using that
  proof (induction ss)
    case (Cons s ss)
    with one [of s] show ?case by (simp only: list.map concat.simps map_append sum_list_append
        segs_size_simps) (rule add_mono, auto)
  qed simp
  from this [OF assms] show ?thesis by (simp only: payloads_def)
qed

lemma parse_payloads_size: "sum_list (map length (payloads (parse raw depth))) \<le> length raw"
proof -
  have "sum_list (map length (payloads (parse raw depth))) \<le> segs_size (cl_segs (parse raw depth))"
    by (rule payloads_size) (auto simp: parse_def dest: cut_segments_ok)
  also have "\<dots> \<le> toks_size (lex raw)"
    using cut_segments_size [of "lex raw" "[]" False] by (simp add: parse_def)
  also have "\<dots> \<le> length raw" by (rule lex_size_bound)
  finally show ?thesis .
qed



subsection \<open>A written line is read back\<close>

text \<open>A word as a shell user writes it: bare, of characters with no meaning, or in single quotes.\<close>

type_synonym shell_word = "bool \<times> string"

definition plain_char :: "char \<Rightarrow> bool" where
  "plain_char c \<longleftrightarrow> c \<notin> set ([CHR 0x60, CHR 0x22, CHR 0x27, CHR 0x5C, CHR 0x09, CHR 0x0A, CHR 0x0D] @
     ''$() |&;<>'')"

fun word_ok :: "shell_word \<Rightarrow> bool" where
  "word_ok (quoted, w) = (if quoted then CHR 0x27 \<notin> set w else w \<noteq> [] \<and> list_all plain_char w)"

fun render :: "shell_word \<Rightarrow> string" where
  "render (quoted, w) = (if quoted then CHR 0x27 # w @ [CHR 0x27] else w)"

fun tok_of :: "shell_word \<Rightarrow> tok" where
  "tok_of (quoted, w) = \<lparr>tk_val = w, tk_quoted = quoted, tk_op = False\<rparr>"

definition shell_line :: "shell_word list \<Rightarrow> string" where
  "shell_line ws = join_with '' '' (map render ws)"

lemma lex_word_word: "lex_word t q (lex_word s q st) = lex_word (s @ t) q st"
  by (simp add: lex_word_def)

lemma lex_loop_plain_char:
  "plain_char c \<Longrightarrow> \<not> lx_double st \<Longrightarrow> lex_loop st (c # cs) = lex_loop (lex_word [c] False st) cs"
  by (subst lex_loop.simps(2)) (simp add: plain_char_def)

lemma lex_loop_plain:
  "list_all plain_char w \<Longrightarrow> w \<noteq> [] \<Longrightarrow> \<not> lx_double st \<Longrightarrow>
    lex_loop st (w @ rest) = lex_loop (lex_word w False st) rest"
proof (induction w arbitrary: st)
  case (Cons c w)
  then have "lex_loop st ((c # w) @ rest) = lex_loop (lex_word [c] False st) (w @ rest)"
    using lex_loop_plain_char [of c st "w @ rest"] by simp
  also have "\<dots> = lex_loop (lex_word (c # w) False st) rest"
  proof (cases "w = []")
    case False
    have "\<not> lx_double (lex_word [c] False st)" using Cons.prems(3) by (simp add: lex_word_def)
    with Cons False show ?thesis by (simp add: lex_word_word)
  qed simp
  finally show ?case .
qed simp

lemma index_byte_append: "c \<notin> set w \<Longrightarrow> index_byte (w @ c # rest) c = Some (length w)"
  by (induction w) auto

lemma lex_loop_quoted:
  "CHR 0x27 \<notin> set w \<Longrightarrow> \<not> lx_double st \<Longrightarrow>
    lex_loop st (CHR 0x27 # w @ CHR 0x27 # rest) = lex_loop (lex_word w True st) rest"
  by (subst lex_loop.simps(2)) (simp add: index_byte_append)

lemma lex_loop_render:
  "word_ok w \<Longrightarrow> \<not> lx_double st \<Longrightarrow>
    lex_loop st (render w @ rest) = lex_loop (lex_word (snd w) (fst w) st) rest"
  by (cases w) (auto simp: lex_loop_plain lex_loop_quoted)

lemma lex_loop_space:
  "\<not> lx_double st \<Longrightarrow> lex_loop st (CHR '' '' # cs) = lex_loop (lex_flush st) cs"
  by (subst lex_loop.simps(2)) simp

definition lex_clean :: "lex_state \<Rightarrow> bool" where
  "lex_clean st \<longleftrightarrow> lx_cur st = [] \<and> \<not> lx_quoted st \<and> \<not> lx_has st \<and> \<not> lx_double st"

lemma lex_flush_word:
  assumes "lex_clean st"
  shows "lx_out (lex_flush (lex_word (snd w) (fst w) st)) = lx_out st @ [tok_of w]"
    and "lex_clean (lex_flush (lex_word (snd w) (fst w) st))"
  using assms by (cases w; simp add: lex_clean_def lex_flush_def lex_word_def)+

lemma lex_loop_line:
  "lex_clean st \<Longrightarrow> list_all word_ok ws \<Longrightarrow>
    lx_out (lex_flush (lex_loop st (shell_line ws))) = lx_out st @ map tok_of ws"
proof (induction ws arbitrary: st)
  case Nil
  then show ?case by (simp add: shell_line_def lex_flush_def lex_clean_def)
next
  case (Cons w ws)
  let ?st = "lex_flush (lex_word (snd w) (fst w) st)"
  have nd: "\<not> lx_double st" "\<not> lx_double (lex_word (snd w) (fst w) st)"
    using Cons.prems(1) by (simp_all add: lex_clean_def lex_word_def)
  show ?case
  proof (cases ws)
    case Nil
    then have "lex_loop st (shell_line (w # ws)) = lex_word (snd w) (fst w) st"
      using lex_loop_render [of w st "[]"] Cons.prems nd by (simp add: shell_line_def)
    then show ?thesis using lex_flush_word(1) [OF Cons.prems(1), of w] Nil by simp
  next
    case (Cons v vs)
    have "shell_line (w # ws) = render w @ CHR '' '' # shell_line ws"
      using Cons by (simp add: shell_line_def)
    then have "lex_loop st (shell_line (w # ws)) = lex_loop ?st (shell_line ws)"
      using lex_loop_render [of w st "CHR '' '' # shell_line ws"] Cons.prems nd
      by (simp add: lex_loop_space)
    then show ?thesis
      using Cons.IH [of ?st] lex_flush_word [OF Cons.prems(1), of w] Cons.prems by simp
  qed
qed

lemma lex_shell_line: "list_all word_ok ws \<Longrightarrow> lex (shell_line ws) = map tok_of ws"
  using lex_loop_line [of lex_start ws] by (simp add: lex_def lex_clean_def lex_start_def)

text \<open>A line of plain words is one segment.\<close>

lemma cut_plain:
  assumes "\<And>t. t \<in> set ts \<Longrightarrow> \<not> tk_op t \<and> (tk_quoted t \<or> tk_val t \<notin> set exec_args)"
  shows "cut_segments ts cur piped = resolved (cur @ ts) piped"
  using assms by (induction ts arbitrary: cur) (auto simp: cut_segments_resolved)

lemma split_redirs_plain: "\<forall>t \<in> set ts. \<not> tk_op t \<Longrightarrow> split_redirs ts = (ts, [])"
  by (induction ts rule: split_redirs.induct) auto



text \<open>A word that can stand in command position, and the line \<open>pre... head args...\<close>.\<close>

definition command_word :: "string \<Rightarrow> bool" where
  "command_word h \<longleftrightarrow>
    \<not> is_assignment h \<and> basename h \<notin> set wrappers \<and> \<not> has_prefix h ''-'' \<and> \<not> is_number h"

definition wrapped :: "string list \<Rightarrow> string \<Rightarrow> shell_word list \<Rightarrow> shell_word list" where
  "wrapped pre h args = map (Pair False) pre @ (False, h) # args"

definition acting_args :: "shell_word list \<Rightarrow> bool" where
  "acting_args args \<longleftrightarrow> list_all (\<lambda>(q, w). q \<or> w \<notin> set exec_args) args"

definition inert_args :: "shell_word list \<Rightarrow> bool" where
  "inert_args args \<longleftrightarrow> list_ex (\<lambda>(q, w). \<not> q \<and> takeWhile (\<lambda>c. c \<noteq> CHR ''='') w \<in> set inert_flags) args"

lemma wrappers_plain:
  "list_all (\<lambda>w. \<not> is_assignment w \<and> basename w = w \<and> \<not> has_prefix w ''-'' \<and> \<not> is_number w \<and>
     w \<notin> set exec_args) wrappers"
  by code_simp

lemma flags_dashed:
  "list_all (\<lambda>w. has_prefix w ''-'') exec_args" "list_all (\<lambda>w. has_prefix w ''-'') wrapper_value_flags"
  by code_simp+

lemma skip_flags_stop:
  assumes "\<not> has_prefix (tk_val t) ''-''" and "\<not> is_number (tk_val t)"
  shows "skip_flags (t # ts) = t # ts"
proof -
  have "tk_val t \<notin> set wrapper_value_flags" using assms(1) flags_dashed(2) by (auto simp: list_all_iff)
  with assms show ?thesis by (cases ts) simp_all
qed

lemma resolve_head_wrapped:
  assumes "set pre \<subseteq> set wrappers" and "command_word h"
  shows "resolve_head (map tok_of (wrapped pre h args)) su =
    (basename h, h, map tok_of args, su \<or> list_ex (\<lambda>p. p \<in> set priv_wrappers) pre)"
  using assms(1)
proof (induction pre arbitrary: su)
  case Nil
  then show ?case using assms(2) by (simp add: wrapped_def command_word_def Let_def)
next
  case (Cons p pre)
  then have p: "p \<in> set wrappers" "\<not> is_assignment p" "basename p = p"
    using wrappers_plain by (auto simp: list_all_iff)
  have "\<exists>t ts. map tok_of (wrapped pre h args) = t # ts \<and> \<not> has_prefix (tk_val t) ''-'' \<and>
      \<not> is_number (tk_val t)"
  proof (cases pre)
    case Nil
    then show ?thesis using assms(2) by (simp add: wrapped_def command_word_def)
  next
    case (Cons q qs)
    then have "q \<in> set wrappers" using Cons.prems by simp
    then show ?thesis using Cons wrappers_plain by (simp add: wrapped_def list_all_iff)
  qed
  then have skip: "skip_flags (map tok_of (wrapped pre h args)) = map tok_of (wrapped pre h args)"
    using skip_flags_stop by metis
  have "map tok_of (wrapped (p # pre) h args) = tok_of (False, p) # map tok_of (wrapped pre h args)"
    by (simp add: wrapped_def)
  then show ?case using p skip Cons by (simp add: Let_def disj_assoc)
qed

lemma parse_wrapped:
  assumes "list_all word_ok (wrapped pre h args)" and "set pre \<subseteq> set wrappers"
    and "command_word h" and "acting_args args"
  shows "cl_segs (parse (shell_line (wrapped pre h args)) d) =
    [\<lparr>sg_head = basename h, sg_head_raw = h, sg_all = map tok_of (wrapped pre h args),
      sg_args = map tok_of args,
      sg_words = map snd (filter (\<lambda>(q, w). \<not> q \<and> \<not> has_prefix w ''-'') args),
      sg_redirs = [], sg_sudo = list_ex (\<lambda>p. p \<in> set priv_wrappers) pre,
      sg_inert = inert_args args, sg_piped = False\<rparr>]"
proof -
  let ?ts = "map tok_of (wrapped pre h args)"
  have op: "\<not> tk_op (tok_of w)" for w by (cases w) simp
  have "h \<notin> set exec_args"
    using assms(3) flags_dashed(1) by (auto simp: command_word_def list_all_iff)
  moreover have "p \<notin> set exec_args" if "p \<in> set pre" for p
    using that assms(2) wrappers_plain by (auto simp: list_all_iff)
  ultimately have "\<not> tk_op t \<and> (tk_quoted t \<or> tk_val t \<notin> set exec_args)" if "t \<in> set ?ts" for t
    using that assms(4) by (auto simp: wrapped_def acting_args_def list_all_iff op)
  then have "cut_segments ?ts [] False = resolved ?ts False" using cut_plain [of ?ts "[]"] by simp
  moreover have "split_redirs ?ts = (?ts, [])" by (rule split_redirs_plain) (auto simp: op)
  moreover have "?ts \<noteq> []" by (simp add: wrapped_def)
  moreover have "map tk_val (filter (\<lambda>a. \<not> has_prefix (tk_val a) ''-'')
        (filter (\<lambda>a. \<not> tk_quoted a) (map tok_of args))) =
      map snd (filter (\<lambda>(q, w). \<not> q \<and> \<not> has_prefix w ''-'') args)"
    by (induction args) auto
  moreover have "list_ex (\<lambda>a. takeWhile (\<lambda>c. c \<noteq> CHR ''='') (tk_val a) \<in> set inert_flags)
        (filter (\<lambda>a. \<not> tk_quoted a) (map tok_of args)) = inert_args args"
    unfolding inert_args_def by (induction args) auto
  ultimately show ?thesis
    using resolve_head_wrapped [OF assms(2,3), of args False] lex_shell_line [OF assms(1)]
    by (simp add: parse_def resolved_def resolve_def Let_def)
qed

end
