(* ===== verification/Regex.thy ===== *)
theory Regex
  imports Prelude
begin

text \<open>
  The fragment of package \<open>regexp\<close> the compiled-in patterns use: rune classes, sequence,
  alternation, repetition, the text anchors and the ASCII word boundary. Only \<open>MatchString\<close>, an
  unanchored search that answers yes or no, is called on them, so a pattern denotes the set of
  places a match from a place can end. A place is the text before it, reversed, and the text after.
\<close>

datatype regex =
    REps
  | RSet "rune \<Rightarrow> bool"
  | RSeq regex regex
  | RAlt regex regex
  | RStar regex
  | RBegin
  | REnd
  | RWordB

type_synonym place = "rune list \<times> rune list"

definition word_rune :: "rune \<Rightarrow> bool" where
  "word_rune r \<longleftrightarrow>
    (48 \<le> r \<and> r \<le> 57) \<or> (65 \<le> r \<and> r \<le> 90) \<or> (97 \<le> r \<and> r \<le> 122) \<or> r = 95"

definition word_at :: "rune list \<Rightarrow> bool" where
  "word_at rs \<longleftrightarrow> (case rs of [] \<Rightarrow> False | r # _ \<Rightarrow> word_rune r)"

text \<open>Repetition: keep going as long as the text shrinks.\<close>

fun star_ends :: "(place \<Rightarrow> place list) \<Rightarrow> nat \<Rightarrow> place \<Rightarrow> place list" where
  "star_ends f 0 p = [p]"
| "star_ends f (Suc n) p =
    p # concat (map (\<lambda>q. if length (snd q) < length (snd p) then star_ends f n q else []) (f p))"

primrec re_ends :: "regex \<Rightarrow> place \<Rightarrow> place list" where
  "re_ends REps p = [p]"
| "re_ends (RSet P) p =
    (case snd p of [] \<Rightarrow> [] | r # rest \<Rightarrow> if P r then [(r # fst p, rest)] else [])"
| "re_ends (RSeq a b) p = concat (map (re_ends b) (re_ends a p))"
| "re_ends (RAlt a b) p = re_ends a p @ re_ends b p"
| "re_ends (RStar a) p = star_ends (re_ends a) (length (snd p)) p"
| "re_ends RBegin p = (if fst p = [] then [p] else [])"
| "re_ends REnd p = (if snd p = [] then [p] else [])"
| "re_ends RWordB p = (if word_at (fst p) \<noteq> word_at (snd p) then [p] else [])"

fun re_search :: "regex \<Rightarrow> rune list \<Rightarrow> rune list \<Rightarrow> bool" where
  "re_search r pre [] = (re_ends r (pre, []) \<noteq> [])"
| "re_search r pre (x # xs) = (re_ends r (pre, x # xs) \<noteq> [] \<or> re_search r (x # pre) xs)"

definition match_string :: "regex \<Rightarrow> string \<Rightarrow> bool" where
  "match_string r s = re_search r [] (runes s)"


subsection \<open>Pattern syntax\<close>

fun rseqs :: "regex list \<Rightarrow> regex" where
  "rseqs [] = REps"
| "rseqs [r] = r"
| "rseqs (r # s # rs) = RSeq r (rseqs (s # rs))"

fun ralts :: "regex list \<Rightarrow> regex" where
  "ralts [] = RSet (\<lambda>_. False)"
| "ralts [r] = r"
| "ralts (r # s # rs) = RAlt r (ralts (s # rs))"

definition rplus :: "regex \<Rightarrow> regex" where
  "rplus r = RSeq r (RStar r)"

definition ropt :: "regex \<Rightarrow> regex" where
  "ropt r = RAlt r REps"

text \<open>
  Under \<open>(?i)\<close> a class is closed under simple case folding: the two ASCII cases, and for \<open>k\<close> and
  \<open>s\<close> the Kelvin sign U+212A and the long s U+017F, the only other runes that fold to ASCII.
\<close>

definition folds :: "rune \<Rightarrow> rune list" where
  "folds r =
    (if 65 \<le> r \<and> r \<le> 90 then [r, r + 32] @ (if r = 75 then [8490] else if r = 83 then [383] else [])
     else if 97 \<le> r \<and> r \<le> 122 then
       [r, r - 32] @ (if r = 107 then [8490] else if r = 115 then [383] else [])
     else if r = 8490 then [r, 75, 107]
     else if r = 383 then [r, 83, 115]
     else [r])"

definition fold_class :: "(rune \<Rightarrow> bool) \<Rightarrow> regex" where
  "fold_class P = RSet (\<lambda>r. list_ex P (folds r))"

definition rune_in :: "string \<Rightarrow> rune \<Rightarrow> bool" where
  "rune_in cs r \<longleftrightarrow> list_ex (\<lambda>c. byte c = r) cs"

text \<open>A literal, its case-folding variant, and the Perl classes.\<close>

definition rlit :: "string \<Rightarrow> regex" where
  "rlit s = rseqs (map (\<lambda>c. RSet (\<lambda>r. r = byte c)) s)"

definition rlit_i :: "string \<Rightarrow> regex" where
  "rlit_i s = rseqs (map (\<lambda>c. fold_class (\<lambda>r. r = byte c)) s)"

definition space_rune :: "rune \<Rightarrow> bool" where
  "space_rune r \<longleftrightarrow> r = 9 \<or> r = 10 \<or> r = 12 \<or> r = 13 \<or> r = 32"

definition r_space :: regex where "r_space = RSet space_rune"
definition r_nonspace :: regex where "r_nonspace = RSet (\<lambda>r. \<not> space_rune r)"
definition r_any :: regex where "r_any = RSet (\<lambda>r. r \<noteq> 10)"
definition r_word_i :: regex where "r_word_i = fold_class word_rune"


subsection \<open>The matcher computes the relation the pattern denotes\<close>

inductive re_step :: "regex \<Rightarrow> place \<Rightarrow> place \<Rightarrow> bool" where
  Eps: "re_step REps p p"
| Set: "P r \<Longrightarrow> re_step (RSet P) (pre, r # rest) (r # pre, rest)"
| Seq: "re_step a p q \<Longrightarrow> re_step b q s \<Longrightarrow> re_step (RSeq a b) p s"
| AltL: "re_step a p q \<Longrightarrow> re_step (RAlt a b) p q"
| AltR: "re_step b p q \<Longrightarrow> re_step (RAlt a b) p q"
| Star0: "re_step (RStar a) p p"
| StarS: "re_step a p q \<Longrightarrow> re_step (RStar a) q s \<Longrightarrow> re_step (RStar a) p s"
| Begin: "re_step RBegin ([], post) ([], post)"
| End: "re_step REnd (pre, []) (pre, [])"
| WordB: "word_at pre \<noteq> word_at post \<Longrightarrow> re_step RWordB (pre, post) (pre, post)"

inductive_simps re_step_simps:
  "re_step REps p q" "re_step (RSet P) p q" "re_step (RSeq a b) p q" "re_step (RAlt a b) p q"
  "re_step RBegin p q" "re_step REnd p q" "re_step RWordB p q"

text \<open>A match moves forward over the text: both ends split the same text.\<close>

lemma re_step_text: "re_step r p q \<Longrightarrow> rev (fst q) @ snd q = rev (fst p) @ snd p \<and>
    length (snd q) \<le> length (snd p)"
  by (induction rule: re_step.induct) auto

lemma re_step_same:
  assumes "re_step r p q" and "\<not> length (snd q) < length (snd p)"
  shows "q = p"
proof -
  from re_step_text [OF assms(1)] assms(2)
  have "length (snd q) = length (snd p)" and "rev (fst q) @ snd q = rev (fst p) @ snd p" by auto
  then show ?thesis by (auto simp: prod_eq_iff)
qed

lemma star_ends_iff:
  assumes f: "\<And>p q. q \<in> set (f p) \<longleftrightarrow> re_step a p q"
  shows "length (snd p) \<le> n \<Longrightarrow> q \<in> set (star_ends f n p) \<longleftrightarrow> re_step (RStar a) p q"
proof (induction n arbitrary: p)
  case 0
  have "q = p" if "re_step (RStar a) p q"
    using re_step_same [OF that] 0 by simp
  then show ?case by (auto intro: Star0)
next
  case (Suc n)
  have "re_step (RStar a) p q \<Longrightarrow> q = p \<or>
      (\<exists>m. re_step a p m \<and> length (snd m) < length (snd p) \<and> re_step (RStar a) m q)"
  proof (induction "RStar a" p q rule: re_step.induct)
    case (StarS p m q)
    then show ?case using re_step_same by blast
  qed simp
  moreover have "m \<in> set (f p) \<Longrightarrow> length (snd m) < length (snd p) \<Longrightarrow>
      q \<in> set (star_ends f n m) \<longleftrightarrow> re_step (RStar a) m q" for m
    using Suc by simp
  ultimately show ?case by (auto simp: f intro: Star0 StarS)
qed

lemma re_ends_iff: "q \<in> set (re_ends r p) \<longleftrightarrow> re_step r p q"
proof (induction r arbitrary: p q)
  case (RStar a)
  then show ?case using star_ends_iff [of "re_ends a" a p "length (snd p)" q] by simp
next
  case (RSeq a b)
  have "q \<in> set (re_ends (RSeq a b) p) \<longleftrightarrow> (\<exists>m. m \<in> set (re_ends a p) \<and> q \<in> set (re_ends b m))"
    by auto
  also have "\<dots> \<longleftrightarrow> re_step (RSeq a b) p q"
    unfolding RSeq re_step_simps by (metis prod.collapse)
  finally show ?case .
qed (case_tac [!] p, auto simp: re_step_simps split: list.splits)

lemma re_ends_ne: "re_ends r p \<noteq> [] \<longleftrightarrow> (\<exists>q. re_step r p q)"
proof -
  have "re_ends r p \<noteq> [] \<longleftrightarrow> (\<exists>q. q \<in> set (re_ends r p))" by (cases "re_ends r p") auto
  then show ?thesis by (simp add: re_ends_iff)
qed

text \<open>So the search answers yes exactly when some factor of the text matches in its context.\<close>

lemma re_search_iff:
  "re_search r pre post \<longleftrightarrow> (\<exists>a b q. post = a @ b \<and> re_step r (rev a @ pre, b) q)"
proof (induction post arbitrary: pre)
  case Nil
  have "re_search r pre [] \<longleftrightarrow> (\<exists>q. re_step r (pre, []) q)" by (simp add: re_ends_ne)
  then show ?case by simp
next
  case (Cons x xs)
  have "re_search r pre (x # xs) \<longleftrightarrow>
      (\<exists>q. re_step r (pre, x # xs) q) \<or> (\<exists>a b q. xs = a @ b \<and> re_step r (rev a @ x # pre, b) q)"
    by (simp add: re_ends_ne Cons del: not_None_eq)
  also have "\<dots> \<longleftrightarrow> (\<exists>a b q. x # xs = a @ b \<and> re_step r (rev a @ pre, b) q)" (is "?L \<longleftrightarrow> ?R")
  proof
    assume ?L
    then show ?R
    proof (elim disjE exE conjE)
      fix q assume "re_step r (pre, x # xs) q"
      then have "x # xs = [] @ x # xs \<and> re_step r (rev [] @ pre, x # xs) q" by simp
      then show ?R by blast
    next
      fix a b q assume "xs = a @ b" "re_step r (rev a @ x # pre, b) q"
      then have "x # xs = (x # a) @ b \<and> re_step r (rev (x # a) @ pre, b) q" by simp
      then show ?R by blast
    qed
  next
    assume ?R
    then obtain a b q where ab: "x # xs = a @ b" "re_step r (rev a @ pre, b) q" by blast
    show ?L
    proof (cases a)
      case Nil
      with ab have "re_step r (pre, x # xs) q" by simp
      then show ?thesis by blast
    next
      case (Cons y ys)
      with ab have "xs = ys @ b \<and> re_step r (rev ys @ x # pre, b) q" by simp
      then show ?thesis by blast
    qed
  qed
  finally show ?case .
qed

end
