(* ===== verification/Risk_Rules.thy ===== *)
theory Risk_Rules
  imports Risk_Parse Regex
begin

text \<open>
  \<open>internal/risk/risk.go\<close> and \<open>rules.go\<close>: the severity levels and the compiled-in rule table. Each
  Go matcher is a definition of the same name over the parsed command; the sets of names are lists.
\<close>

subsection \<open>Levels\<close>

text \<open>The constructor \<open>LNone\<close> is Go's \<open>None\<close>.\<close>

datatype level = LNone | Low | Medium | High | Critical

fun level_num :: "level \<Rightarrow> nat" where
  "level_num LNone = 0"
| "level_num Low = 1"
| "level_num Medium = 2"
| "level_num High = 3"
| "level_num Critical = 4"

lemma level_num_inject [simp]: "level_num a = level_num b \<longleftrightarrow> a = b"
  by (cases a; cases b) simp_all

instantiation level :: linorder
begin

definition less_eq_level :: "level \<Rightarrow> level \<Rightarrow> bool" where
  "less_eq_level a b \<longleftrightarrow> level_num a \<le> level_num b"

definition less_level :: "level \<Rightarrow> level \<Rightarrow> bool" where
  "less_level a b \<longleftrightarrow> level_num a < level_num b"

instance
  by standard (auto simp: less_eq_level_def less_level_def)

end

lemma level_bot [simp]: "LNone \<le> l"
  by (simp add: less_eq_level_def)

lemma level_top [simp]: "l \<le> Critical"
  by (cases l) (simp_all add: less_eq_level_def)

fun level_string :: "level \<Rightarrow> string" where
  "level_string Low = ''low''"
| "level_string Medium = ''medium''"
| "level_string High = ''high''"
| "level_string Critical = ''critical''"
| "level_string LNone = ''safe''"

fun level_glyph :: "level \<Rightarrow> string" where
  "level_glyph Critical = [CHR 0xE2, CHR 0x9B, CHR 0x94]"
| "level_glyph High = [CHR 0xE2, CHR 0x9A, CHR 0xA0]"
| "level_glyph Medium = [CHR 0xE2, CHR 0x96, CHR 0xB2]"
| "level_glyph Low = [CHR 0xE2, CHR 0x80, CHR 0xA2]"
| "level_glyph LNone = [CHR 0xE2, CHR 0x9C, CHR 0x93]"

definition parse_level :: "unicode_tables \<Rightarrow> string \<Rightarrow> level" where
  "parse_level U s =
    (let l = str_lower U (trim_space s)
     in if l = ''low'' then Low
        else if l = ''medium'' then Medium
        else if l = ''high'' then High
        else if l = ''critical'' then Critical
        else LNone)"

record assessment =
  as_level :: level
  as_category :: string
  as_reason :: string

record rule =
  ru_level :: level
  ru_category :: string
  ru_reason :: string
  ru_match :: "cmdline \<Rightarrow> bool"

definition is_non_executing :: "string \<Rightarrow> bool" where
  "is_non_executing cmd \<longleftrightarrow>
    cmd = [] \<or> has_prefix cmd ''#'' \<or> has_prefix cmd ''alias '' \<or>
    ((has_prefix cmd ''echo '' \<or> has_prefix cmd ''printf '' \<or> cmd = ''echo'') \<and>
     \<not> contains_any cmd (''|&;><'' @ [CHR 0x60]) \<and> \<not> str_contains cmd ''$('')"


subsection \<open>Name sets\<close>

definition shells :: "string list" where
  "shells = [''sh'', ''bash'', ''zsh'', ''ksh'', ''dash'', ''ash'', ''fish'']"

definition fetchers :: "string list" where
  "fetchers = [''curl'', ''wget'', ''aria2c'', ''httpie'', ''http'']"

definition db_clients :: "string list" where
  "db_clients =
    [''psql'', ''mysql'', ''mariadb'', ''sqlite3'', ''mongo'', ''mongosh'', ''redis-cli'',
     ''clickhouse-client'', ''cockroach'', ''duckdb'', ''pgcli'', ''mycli'']"

definition cloud_delete :: "string list" where
  "cloud_delete =
    [''delete'', ''terminate-instances'', ''rb'', ''destroy'', ''remove'', ''delete-user'',
     ''delete-bucket'', ''deregister'', ''purge'']"

definition readers :: "string list" where
  "readers = [''cat'', ''less'', ''more'', ''head'', ''tail'', ''bat'', ''strings'', ''xxd'', ''od'']"

definition copiers :: "string list" where
  "copiers = [''cp'', ''scp'', ''rsync'', ''tar'', ''zip'', ''install'', ''sftp'']"

text \<open>\<open>set\<close> drops duplicates; \<open>keys\<close> returns the names in some order, which no caller observes.\<close>

definition pkg_install :: "string \<Rightarrow> string list" where
  "pkg_install head = (case map_of
    [(''npm'', [''install'', ''i'', ''add'', ''ci'']), (''yarn'', [''add'', ''install'']),
     (''pnpm'', [''add'', ''install'', ''i'']), (''bun'', [''add'', ''install'']),
     (''pip'', [''install'']), (''pip3'', [''install'']), (''uv'', [''add'', ''sync'']),
     (''poetry'', [''add'', ''install'']), (''cargo'', [''add'', ''install'']),
     (''go'', [''install'', ''get'']), (''gem'', [''install'']), (''brew'', [''install'']),
     (''apt'', [''install'']), (''apt-get'', [''install'']), (''dnf'', [''install'']),
     (''yum'', [''install'']), (''apk'', [''add'']), (''zypper'', [''install'']),
     (''nix-env'', [''-i'']), (''composer'', [''require'', ''install''])] head of
     None \<Rightarrow> [] | Some ws \<Rightarrow> ws)"

definition pkg_remove :: "string \<Rightarrow> string list" where
  "pkg_remove head = (case map_of
    [(''npm'', [''uninstall'', ''remove'', ''rm'']), (''yarn'', [''remove'']), (''pnpm'', [''remove'']),
     (''pip'', [''uninstall'']), (''pip3'', [''uninstall'']), (''uv'', [''remove'']),
     (''cargo'', [''uninstall'']), (''gem'', [''uninstall'']), (''brew'', [''uninstall'', ''remove'']),
     (''apt'', [''remove'', ''purge'', ''autoremove'']),
     (''apt-get'', [''remove'', ''purge'', ''autoremove'']), (''dnf'', [''remove'', ''erase'']),
     (''yum'', [''remove'', ''erase'']), (''apk'', [''del'']), (''zypper'', [''remove''])] head of
     None \<Rightarrow> [] | Some ws \<Rightarrow> ws)"


subsection \<open>Patterns\<close>

definition re_drop :: regex where
  "re_drop = rseqs [RWordB, rlit_i ''drop'', rplus r_space,
     ralts [rlit_i ''table'', rlit_i ''database'', rlit_i ''schema'', rlit_i ''index'',
       rlit_i ''collection''], RWordB]"

definition re_truncate :: regex where
  "re_truncate = rseqs [RWordB, rlit_i ''truncate'', rplus r_space,
     ralts [RSeq (rlit_i ''table'') RWordB, r_word_i]]"

definition re_flush :: regex where
  "re_flush = rseqs [RWordB, rlit_i ''flush'', ralts [rlit_i ''all'', rlit_i ''db''], RWordB]"

definition re_drop_call :: regex where
  "re_drop_call = rseqs [rlit_i ''.drop('', RStar r_space, rlit_i '')'']"

definition re_fork_bomb :: regex where
  "re_fork_bomb = rseqs [rlit_i '':'', RStar r_space, rlit_i ''('', RStar r_space, rlit_i '')'',
     RStar r_space, rlit_i ''{'', RStar r_any, rlit_i ''|'', RStar r_any, rlit_i ''&'', RStar r_any,
     rlit_i ''}'', RStar r_space, rlit_i '';'']"

definition sql_lead :: regex where
  "sql_lead = rseqs [RBegin, RStar r_space,
     ralts [rlit_i ''drop'', rlit_i ''truncate'',
       rseqs [rlit_i ''delete'', rplus r_space, rlit_i ''from''], rlit_i ''update'',
       rlit_i ''flushall'', rlit_i ''flushdb''], RWordB]"

definition looks_like_sql :: "string \<Rightarrow> bool" where
  "looks_like_sql s = match_string sql_lead s"

definition sql_mutate :: regex where
  "sql_mutate = rseqs [RWordB,
     ralts [rseqs [rlit_i ''delete'', rplus r_space, rlit_i ''from'', rplus r_space, rplus r_nonspace],
       rseqs [rlit_i ''update'', rplus r_space, rplus r_nonspace, rplus r_space, rlit_i ''set'', RWordB]]]"

definition sql_where :: regex where
  "sql_where = rseqs [RWordB, rlit_i ''where'', RWordB]"

definition device_path :: regex where
  "device_path = rseqs [RBegin, rlit ''/dev/'',
     ralts (map rlit [''sd'', ''nvme'', ''disk'', ''hd'', ''vd'', ''mmcblk'', ''xvd''])]"

definition is_device :: "string \<Rightarrow> bool" where
  "is_device p = match_string device_path p"

definition script_ext :: regex where
  "script_ext = rseqs [rlit ''.'',
     ralts (map rlit [''sh'', ''bash'', ''zsh'', ''ksh'', ''py'', ''rb'', ''pl'', ''ps1'']), REnd]"

definition alnum_lower :: "rune \<Rightarrow> bool" where
  "alnum_lower r \<longleftrightarrow> (97 \<le> r \<and> r \<le> 122) \<or> (48 \<le> r \<and> r \<le> 57)"

definition secret_path :: regex where
  "secret_path = ralts
     [rseqs [rlit_i ''/etc/'', ralts [rlit_i ''shadow'', rlit_i ''sudoers'']],
      rseqs [rlit_i ''.ssh/id_'', rplus (fold_class alnum_lower), REnd],
      rseqs [rlit_i ''.ssh/id_'', rplus (fold_class alnum_lower), r_space],
      rseqs [rlit_i ''.pem'', REnd], rseqs [rlit_i ''.p12'', REnd],
      rlit_i ''.aws/credentials'', rlit_i ''.kube/config'', rlit_i ''.netrc'', rlit_i ''.npmrc'',
      rlit_i ''id_rsa'', rlit_i ''id_ed25519'']"

definition env_rune :: "rune \<Rightarrow> bool" where
  "env_rune r \<longleftrightarrow> (65 \<le> r \<and> r \<le> 90) \<or> (48 \<le> r \<and> r \<le> 57) \<or> r = 95"

definition secret_name :: regex where
  "secret_name = rseqs [RBegin, RStar (fold_class env_rune),
     ralts [rlit_i ''SECRET'', rlit_i ''TOKEN'', rlit_i ''PASSWORD'', rlit_i ''PASSWD'',
       rseqs [rlit_i ''API'', ropt (rlit_i ''_''), rlit_i ''KEY''],
       rseqs [rlit_i ''PRIVATE'', ropt (rlit_i ''_''), rlit_i ''KEY''],
       rseqs [rlit_i ''ACCESS'', ropt (rlit_i ''_''), rlit_i ''KEY''], rlit_i ''CREDENTIAL''],
     RStar (fold_class env_rune), rlit_i ''='']"

text \<open>
  \<open>symbolicMode.FindStringSubmatch\<close>: the three groups of \<open>^([ugoa]*)([-+=])([rwxXstugo]*)$\<close>. The
  operator is not in the first class, so the split is forced.
\<close>

definition symbolic_mode :: "string \<Rightarrow> (string \<times> char \<times> string) option" where
  "symbolic_mode s =
    (let who = takeWhile (\<lambda>c. c \<in> set ''ugoa'') s;
         rest = dropWhile (\<lambda>c. c \<in> set ''ugoa'') s
     in case rest of
          [] \<Rightarrow> None
        | oper # perms \<Rightarrow>
            if oper \<in> set ''-+='' \<and> list_all (\<lambda>c. c \<in> set ''rwxXstugo'') perms
            then Some (who, oper, perms) else None)"

record octal_mode =
  om_special :: nat
  om_owner :: nat
  om_group :: nat
  om_other :: nat

definition parse_octal :: "string \<Rightarrow> octal_mode option" where
  "parse_octal s =
    (if \<not> list_all (\<lambda>c. CHR ''0'' \<le> c \<and> c \<le> CHR ''7'') s then None
     else case map (\<lambda>c. byte c - 48) s of
            [a, b, c] \<Rightarrow> Some \<lparr>om_special = 0, om_owner = a, om_group = b, om_other = c\<rparr>
          | [a, b, c, d] \<Rightarrow> Some \<lparr>om_special = a, om_owner = b, om_group = c, om_other = d\<rparr>
          | _ \<Rightarrow> None)"


subsection \<open>Destructive\<close>

definition sql_re :: "regex \<Rightarrow> cmdline \<Rightarrow> bool" where
  "sql_re re c \<longleftrightarrow>
    match_string re (cl_raw c) \<and> (each c (\<lambda>s. sg_head s \<in> set db_clients) \<or> looks_like_sql (cl_raw c))"

definition raw_re :: "regex \<Rightarrow> cmdline \<Rightarrow> bool" where
  "raw_re re c \<longleftrightarrow> match_string re (cl_raw c)"

definition git_sub :: "string list \<Rightarrow> cmdline \<Rightarrow> bool" where
  "git_sub ws c \<longleftrightarrow> cl_sub ''git'' ws c"

definition git_flag :: "string \<Rightarrow> string \<Rightarrow> cmdline \<Rightarrow> bool" where
  "git_flag w flag c \<longleftrightarrow> each c (\<lambda>s. seg_is s ''git'' [w] \<and> long_flag s flag)"

definition match_rm_rf :: "cmdline \<Rightarrow> bool" where
  "match_rm_rf c \<longleftrightarrow> each c (\<lambda>s.
    sg_head s = ''rm'' \<and>
    (short_flag s CHR ''r'' \<or> short_flag s CHR ''R'' \<or> long_flag s ''--recursive'') \<and>
    (short_flag s CHR ''f'' \<or> long_flag s ''--force''))"

definition match_git_push_force :: "cmdline \<Rightarrow> bool" where
  "match_git_push_force c \<longleftrightarrow> each c (\<lambda>s.
    seg_is s ''git'' [''push''] \<and> \<not> long_flag s ''--force-with-lease'' \<and>
    \<not> long_flag s ''--force-if-includes'' \<and>
    (long_flag s ''--force'' \<or> long_flag s ''--mirror'' \<or> short_flag s CHR ''f''))"

definition match_git_push_delete :: "cmdline \<Rightarrow> bool" where
  "match_git_push_delete c \<longleftrightarrow> each c (\<lambda>s.
    seg_is s ''git'' [''push''] \<and>
    (long_flag s ''--delete'' \<or> short_flag s CHR ''d'' \<or>
     list_ex (\<lambda>w. has_prefix w '':'' \<and> 1 < length w) (tl (sg_words s))))"

definition match_git_push :: "cmdline \<Rightarrow> bool" where
  "match_git_push c \<longleftrightarrow> cl_sub ''git'' [''push''] c"

definition match_git_clean :: "cmdline \<Rightarrow> bool" where
  "match_git_clean c \<longleftrightarrow> each c (\<lambda>s.
    seg_is s ''git'' [''clean''] \<and> (short_flag s CHR ''f'' \<or> long_flag s ''--force''))"

definition match_git_discard :: "cmdline \<Rightarrow> bool" where
  "match_git_discard c \<longleftrightarrow> each c (\<lambda>s.
    seg_is s ''git'' [''reset''] \<or> seg_is s ''git'' [''restore''] \<or>
    seg_is s ''git'' [''stash'', ''drop''] \<or> seg_is s ''git'' [''stash'', ''clear''] \<or>
    seg_is s ''git'' [''tag'', ''-d''] \<or>
    (seg_is s ''git'' [''checkout''] \<and> has_arg s ''--'') \<or>
    (seg_is s ''git'' [''branch''] \<and> (short_flag s CHR ''d'' \<or> short_flag s CHR ''D'')) \<or>
    (seg_is s ''git'' [''tag''] \<and> (short_flag s CHR ''d'' \<or> long_flag s ''--delete'')) \<or>
    seg_is s ''git'' [''submodule'', ''deinit''] \<or> seg_is s ''git'' [''gc''] \<or>
    seg_is s ''git'' [''prune''])"

definition match_git_rebase :: "cmdline \<Rightarrow> bool" where
  "match_git_rebase c \<longleftrightarrow>
    cl_sub ''git'' [''rebase''] c \<or> cl_sub ''git'' [''cherry-pick''] c \<or>
    cl_sub ''git'' [''commit'', ''--amend''] c"

definition match_disk_write :: "cmdline \<Rightarrow> bool" where
  "match_disk_write c \<longleftrightarrow> each c (\<lambda>s.
    list_ex is_device (sg_redirs s) \<or>
    (sg_head s = ''dd'' \<and>
     list_ex (\<lambda>a. has_prefix (tk_val a) ''of='' \<and> is_device (trim_prefix (tk_val a) ''of='')) (sg_args s)))"

definition match_mkfs :: "cmdline \<Rightarrow> bool" where
  "match_mkfs c \<longleftrightarrow> each c (\<lambda>s.
    sg_head s = ''mkfs'' \<or> has_prefix (sg_head s) ''mkfs.'' \<or> sg_head s = ''mke2fs'' \<or>
    sg_head s = ''newfs'')"

definition match_sql_no_where :: "cmdline \<Rightarrow> bool" where
  "match_sql_no_where c \<longleftrightarrow>
    match_string sql_mutate (cl_raw c) \<and> \<not> match_string sql_where (cl_raw c) \<and>
    (each c (\<lambda>s. sg_head s \<in> set db_clients) \<or> looks_like_sql (cl_raw c))"

definition match_find_delete :: "cmdline \<Rightarrow> bool" where
  "match_find_delete c \<longleftrightarrow> each c (\<lambda>s. sg_head s = ''find'' \<and> long_flag s ''-delete'')"

definition match_truncate :: "cmdline \<Rightarrow> bool" where
  "match_truncate c \<longleftrightarrow> each c (\<lambda>s.
    sg_head s = ''truncate'' \<or> (sg_head s = [] \<and> sg_redirs s \<noteq> []))"


subsection \<open>Infrastructure, cloud and containers\<close>

definition match_iac_destroy :: "cmdline \<Rightarrow> bool" where
  "match_iac_destroy c \<longleftrightarrow>
    cl_sub ''terraform'' [''destroy''] c \<or> cl_sub ''tofu'' [''destroy''] c \<or>
    cl_sub ''pulumi'' [''destroy''] c \<or> cl_sub ''terragrunt'' [''destroy''] c \<or>
    cl_sub ''cdk'' [''destroy''] c \<or> cl_sub ''serverless'' [''remove''] c"

definition match_iac_auto_approve :: "cmdline \<Rightarrow> bool" where
  "match_iac_auto_approve c \<longleftrightarrow> each c (\<lambda>s.
    sg_head s \<in> set [''terraform'', ''tofu'', ''terragrunt'', ''pulumi''] \<and>
    (long_flag s ''--auto-approve'' \<or> long_flag s ''-auto-approve'' \<or> short_flag s CHR ''y''))"

definition match_iac_apply :: "cmdline \<Rightarrow> bool" where
  "match_iac_apply c \<longleftrightarrow>
    cl_sub ''terraform'' [''apply''] c \<or> cl_sub ''tofu'' [''apply''] c \<or>
    cl_sub ''pulumi'' [''up''] c \<or> cl_sub ''terragrunt'' [''apply''] c \<or>
    cl_sub ''kubectl'' [''apply''] c \<or> cl_sub ''helm'' [''upgrade''] c \<or>
    cl_sub ''helm'' [''install''] c \<or> cl_sub ''ansible-playbook'' [] c"

definition match_kubectl_namespace :: "cmdline \<Rightarrow> bool" where
  "match_kubectl_namespace c \<longleftrightarrow> each c (\<lambda>s.
    (seg_is s ''kubectl'' [''delete''] \<or> seg_is s ''oc'' [''delete'']) \<and>
    (list_ex (\<lambda>w. w \<in> set [''namespace'', ''namespaces'', ''ns'', ''all'', ''pvc'', ''crd''])
       (tl (sg_words s)) \<or>
     long_flag s ''--all'' \<or> long_flag s ''--all-namespaces''))"

definition match_kubectl_delete :: "cmdline \<Rightarrow> bool" where
  "match_kubectl_delete c \<longleftrightarrow>
    cl_sub ''kubectl'' [''delete''] c \<or> cl_sub ''oc'' [''delete''] c \<or>
    cl_sub ''kubectl'' [''drain''] c \<or> cl_sub ''kubectl'' [''cordon''] c"

definition match_helm_remove :: "cmdline \<Rightarrow> bool" where
  "match_helm_remove c \<longleftrightarrow>
    cl_sub ''helm'' [''uninstall''] c \<or> cl_sub ''helm'' [''delete''] c \<or> cl_sub ''helm'' [''rollback''] c"

definition match_cloud_delete :: "cmdline \<Rightarrow> bool" where
  "match_cloud_delete c \<longleftrightarrow> each c (\<lambda>s.
    sg_head s \<in> set [''aws'', ''gcloud'', ''az'', ''doctl'', ''flyctl'', ''fly'', ''heroku'', ''gsutil'',
      ''s3cmd''] \<and>
    list_ex (\<lambda>w. w \<in> set cloud_delete \<or> has_prefix w ''delete-'' \<or> has_prefix w ''terminate-'')
      (sg_words s))"

definition match_bucket_wipe :: "cmdline \<Rightarrow> bool" where
  "match_bucket_wipe c \<longleftrightarrow> each c (\<lambda>s.
    sg_head s \<in> set [''aws'', ''gsutil'', ''s3cmd'', ''rclone'', ''mc''] \<and>
    list_ex (\<lambda>w. w \<in> set [''rm'', ''rb'', ''delete'', ''purge'']) (sg_words s) \<and>
    (long_flag s ''--recursive'' \<or> short_flag s CHR ''r'' \<or> long_flag s ''--force''))"

definition match_container_remove :: "cmdline \<Rightarrow> bool" where
  "match_container_remove c \<longleftrightarrow> each c (\<lambda>s.
    sg_head s \<in> set [''docker'', ''podman'', ''nerdctl'', ''docker-compose''] \<and>
    list_ex (\<lambda>w. w \<in> set [''rm'', ''kill'', ''stop'', ''prune'', ''down'']) (sg_words s))"

definition match_docker_prune :: "cmdline \<Rightarrow> bool" where
  "match_docker_prune c \<longleftrightarrow> each c (\<lambda>s.
    sg_head s \<in> set [''docker'', ''podman'', ''nerdctl''] \<and> list_ex (\<lambda>w. w = ''prune'') (sg_words s))"

definition match_volume_remove :: "cmdline \<Rightarrow> bool" where
  "match_volume_remove c \<longleftrightarrow>
    cl_sub ''docker'' [''volume'', ''rm''] c \<or> cl_sub ''podman'' [''volume'', ''rm''] c \<or>
    cl_sub ''docker'' [''volume'', ''prune''] c \<or> cl_sub ''docker'' [''compose'', ''down''] c"

text \<open>\<open>&&\<close> binds tighter than \<open>||\<close>: only \<open>--network\<close> asks for the argument \<open>host\<close>.\<close>

definition match_privileged_container :: "cmdline \<Rightarrow> bool" where
  "match_privileged_container c \<longleftrightarrow> each c (\<lambda>s.
    (sg_head s = ''docker'' \<or> sg_head s = ''podman'' \<or> sg_head s = ''nerdctl'') \<and>
    (seg_is s (sg_head s) [''run''] \<or> seg_is s (sg_head s) [''create''] \<or>
     seg_is s (sg_head s) [''exec'']) \<and>
    (long_flag s ''--privileged'' \<or> long_flag s ''--pid'' \<or> long_flag s ''--net'' \<or>
     (long_flag s ''--network'' \<and> has_arg s ''host'') \<or>
     list_ex (\<lambda>a. has_prefix (tk_val a) ''/:/'' \<or> tk_val a = ''/:/host'' \<or>
       has_prefix (tk_val a) ''/var/run/docker.sock'') (sg_args s)))"



subsection \<open>Packages and supply chain\<close>

definition match_package_install :: "cmdline \<Rightarrow> bool" where
  "match_package_install c \<longleftrightarrow> each c (\<lambda>s.
    (sg_head s = ''uv'' \<and> take 2 (sg_words s) = [''pip'', ''install'']) \<or>
    (sg_head s = ''pacman'' \<and> (short_flag s CHR ''S'' \<or> long_flag s ''--sync'')) \<or>
    list_ex (\<lambda>w. sg_words s \<noteq> [] \<and> hd (sg_words s) = w) (pkg_install (sg_head s)))"

definition match_package_remove :: "cmdline \<Rightarrow> bool" where
  "match_package_remove c \<longleftrightarrow> each c (\<lambda>s.
    (sg_head s = ''pacman'' \<and> (short_flag s CHR ''R'' \<or> long_flag s ''--remove'')) \<or>
    list_ex (\<lambda>w. sg_words s \<noteq> [] \<and> hd (sg_words s) = w) (pkg_remove (sg_head s)))"

definition match_publish :: "cmdline \<Rightarrow> bool" where
  "match_publish c \<longleftrightarrow>
    cl_sub ''npm'' [''publish''] c \<or> cl_sub ''yarn'' [''publish''] c \<or> cl_sub ''pnpm'' [''publish''] c \<or>
    cl_sub ''cargo'' [''publish''] c \<or> cl_sub ''gem'' [''push''] c \<or> cl_sub ''twine'' [''upload''] c \<or>
    cl_sub ''docker'' [''push''] c \<or> cl_sub ''podman'' [''push''] c \<or> cl_sub ''helm'' [''push''] c \<or>
    cl_sub ''poetry'' [''publish''] c \<or> cl_sub ''uv'' [''publish''] c \<or>
    cl_sub ''goreleaser'' [''release''] c"


subsection \<open>Executing code\<close>

definition match_pipe_to_shell :: "cmdline \<Rightarrow> bool" where
  "match_pipe_to_shell c \<longleftrightarrow>
    cl_cmd fetchers c \<and> each c (\<lambda>s. sg_piped s \<and> sg_head s \<in> set interpreters)"

definition match_run_fetched :: "cmdline \<Rightarrow> bool" where
  "match_run_fetched c \<longleftrightarrow> cl_cmd fetchers c \<and> cl_cmd interpreters c"

definition match_pipe_into_shell :: "cmdline \<Rightarrow> bool" where
  "match_pipe_into_shell c \<longleftrightarrow> each c (\<lambda>s. sg_piped s \<and> sg_head s \<in> set shells)"

definition match_local_script :: "cmdline \<Rightarrow> bool" where
  "match_local_script c \<longleftrightarrow> each c (\<lambda>s.
    match_string script_ext (sg_head_raw s) \<or>
    (sg_head s \<in> set interpreters \<and> list_ex (match_string script_ext) (sg_words s)))"

definition match_local_binary :: "cmdline \<Rightarrow> bool" where
  "match_local_binary c \<longleftrightarrow> each c (\<lambda>s.
    has_prefix (sg_head_raw s) ''./'' \<or> has_prefix (sg_head_raw s) ''../'')"

definition match_reverse_shell :: "cmdline \<Rightarrow> bool" where
  "match_reverse_shell c \<longleftrightarrow> each c (\<lambda>s.
    sg_head s \<in> set [''nc'', ''ncat'', ''netcat'', ''socat''] \<and>
    (long_flag s ''-e'' \<or> long_flag s ''-c'' \<or>
     list_ex (\<lambda>a. str_contains (tk_val a) ''/bin/sh'' \<or> str_contains (tk_val a) ''/bin/bash'' \<or>
       has_prefix (tk_val a) ''EXEC:'') (sg_args s)))"


subsection \<open>Permissions, accounts and secrets\<close>

text \<open>\<open>d & 2\<close> and \<open>d & 6\<close> on an octal digit.\<close>

definition bit_write :: "nat \<Rightarrow> bool" where
  "bit_write d \<longleftrightarrow> d div 2 mod 2 = 1"

definition bit_setid :: "nat \<Rightarrow> bool" where
  "bit_setid d \<longleftrightarrow> d div 2 mod 4 \<noteq> 0"

definition match_chmod_writable :: "cmdline \<Rightarrow> bool" where
  "match_chmod_writable c \<longleftrightarrow> each c (\<lambda>s.
    sg_head s = ''chmod'' \<and> sg_words s \<noteq> [] \<and>
    (case parse_octal (hd (sg_words s)) of
       Some m \<Rightarrow> bit_write (om_group m) \<or> bit_write (om_other m)
     | None \<Rightarrow>
         (case symbolic_mode (hd (sg_words s)) of
            None \<Rightarrow> False
          | Some (who, oper, perms) \<Rightarrow>
              oper \<noteq> CHR ''-'' \<and> CHR ''w'' \<in> set perms \<and> (who = [] \<or> contains_any who ''goa''))))"

definition match_chmod_setid :: "cmdline \<Rightarrow> bool" where
  "match_chmod_setid c \<longleftrightarrow> each c (\<lambda>s.
    sg_head s = ''chmod'' \<and> sg_words s \<noteq> [] \<and>
    (case parse_octal (hd (sg_words s)) of
       Some m \<Rightarrow> bit_setid (om_special m)
     | None \<Rightarrow>
         (case symbolic_mode (hd (sg_words s)) of
            None \<Rightarrow> False
          | Some (who, oper, perms) \<Rightarrow> oper \<noteq> CHR ''-'' \<and> CHR ''s'' \<in> set perms)))"

definition match_chown_recursive :: "cmdline \<Rightarrow> bool" where
  "match_chown_recursive c \<longleftrightarrow> each c (\<lambda>s.
    (sg_head s = ''chown'' \<or> sg_head s = ''chgrp'') \<and>
    (short_flag s CHR ''R'' \<or> long_flag s ''--recursive''))"

definition match_partition_edit :: "cmdline \<Rightarrow> bool" where
  "match_partition_edit c \<longleftrightarrow> each c (\<lambda>s.
    sg_head s \<in> set [''fdisk'', ''parted'', ''sgdisk'', ''gdisk'', ''cfdisk'', ''sfdisk''] \<and>
    \<not> short_flag s CHR ''l'' \<and> \<not> long_flag s ''--list'' \<and> \<not> long_flag s ''--print'')"

definition match_rsync_delete :: "cmdline \<Rightarrow> bool" where
  "match_rsync_delete c \<longleftrightarrow> each c (\<lambda>s.
    sg_head s = ''rsync'' \<and>
    list_ex (\<lambda>a. \<not> tk_quoted a \<and> has_prefix (tk_val a) ''--delete'') (sg_args s))"

definition match_ephemeral_run :: "cmdline \<Rightarrow> bool" where
  "match_ephemeral_run c \<longleftrightarrow> each c (\<lambda>s.
    (sg_head s \<in> set [''npx'', ''uvx'', ''bunx'', ''pnpx'', ''dlx''] \<and> sg_words s \<noteq> []) \<or>
    (sg_head s \<in> set [''pipx'', ''pnpm'', ''yarn''] \<and> sg_words s \<noteq> [] \<and>
     (hd (sg_words s) = ''run'' \<or> hd (sg_words s) = ''dlx'')) \<or>
    (sg_head s = ''go'' \<and> sg_words s \<noteq> [] \<and> hd (sg_words s) = ''run'' \<and>
     arg_prefix s ''github.com/''))"

definition match_schedule_edit :: "cmdline \<Rightarrow> bool" where
  "match_schedule_edit c \<longleftrightarrow> each c (\<lambda>s.
    sg_head s = ''at'' \<or> sg_head s = ''batch'' \<or>
    ((sg_head s = ''crontab'' \<or> sg_head s = ''systemd-run'') \<and>
     \<not> short_flag s CHR ''l'' \<and> \<not> long_flag s ''--list''))"

definition match_upload :: "cmdline \<Rightarrow> bool" where
  "match_upload c \<longleftrightarrow> each c (\<lambda>s.
    sg_piped s \<and> sg_head s \<in> set fetchers \<and>
    list_ex (long_flag s)
      [''-d'', ''--data'', ''--data-binary'', ''--data-raw'', ''-F'', ''--form'', ''-T'',
       ''--upload-file'', ''--post-file'', ''--post-data''])"

definition touches_secret :: "string list \<Rightarrow> cmdline \<Rightarrow> bool" where
  "touches_secret verbs c \<longleftrightarrow> each c (\<lambda>s.
    sg_head s \<in> set verbs \<and> list_ex (match_string secret_path) (sg_words s))"

definition match_reads_secret :: "cmdline \<Rightarrow> bool" where
  "match_reads_secret c \<longleftrightarrow> touches_secret readers c"

definition match_copies_secret :: "cmdline \<Rightarrow> bool" where
  "match_copies_secret c \<longleftrightarrow> touches_secret copiers c"

definition match_exports_secret :: "cmdline \<Rightarrow> bool" where
  "match_exports_secret c \<longleftrightarrow> each c (\<lambda>s.
    (sg_head s = ''gpg'' \<and>
     (long_flag s ''--export-secret-keys'' \<or> long_flag s ''--export-secret-subkeys'')) \<or>
    (sg_head s = ''security'' \<and> sg_words s \<noteq> [] \<and> hd (sg_words s) = ''dump-keychain''))"

text \<open>Unlike the others, \<open>matchSecretEnv\<close> and \<open>matchSudo\<close> loop over the segments themselves.\<close>

definition match_secret_env :: "cmdline \<Rightarrow> bool" where
  "match_secret_env c \<longleftrightarrow>
    list_ex (\<lambda>s.
      list_ex (\<lambda>t. \<not> tk_quoted t \<and> match_string secret_name (tk_val t)) (sg_all s) \<or>
      (sg_head s = ''export'' \<and> list_ex (match_string secret_name) (sg_words s))) (cl_segs c)"


subsection \<open>System state\<close>

definition match_sudo :: "cmdline \<Rightarrow> bool" where
  "match_sudo c \<longleftrightarrow> list_ex (\<lambda>s. sg_sudo s \<and> \<not> sg_inert s) (cl_segs c)"

definition match_halt_reboot :: "cmdline \<Rightarrow> bool" where
  "match_halt_reboot c \<longleftrightarrow>
    cl_cmd [''shutdown'', ''reboot'', ''halt'', ''poweroff''] c \<or>
    each c (\<lambda>s.
      if sg_head s = ''init'' \<or> sg_head s = ''telinit''
      then sg_words s \<noteq> [] \<and> (hd (sg_words s) = ''0'' \<or> hd (sg_words s) = ''6'')
      else sg_head s = ''systemctl'' \<and> sg_words s \<noteq> [] \<and>
        hd (sg_words s) \<in> set [''reboot'', ''poweroff'', ''halt''])"

definition match_service_state :: "cmdline \<Rightarrow> bool" where
  "match_service_state c \<longleftrightarrow> each c (\<lambda>s.
    sg_head s \<in> set [''systemctl'', ''service'', ''launchctl'', ''rc-service'', ''supervisorctl''] \<and>
    list_ex (\<lambda>w. w \<in> set [''stop'', ''disable'', ''mask'', ''restart'', ''unload'', ''kill''])
      (sg_words s))"

definition match_firewall_down :: "cmdline \<Rightarrow> bool" where
  "match_firewall_down c \<longleftrightarrow> each c (\<lambda>s.
    (sg_head s \<in> set [''iptables'', ''ip6tables'', ''nft''] \<and>
     (short_flag s CHR ''F'' \<or> short_flag s CHR ''X'' \<or> long_flag s ''--flush'' \<or>
      (sg_words s \<noteq> [] \<and> hd (sg_words s) = ''flush''))) \<or>
    (sg_head s = ''ufw'' \<and> sg_words s \<noteq> [] \<and>
     (hd (sg_words s) = ''disable'' \<or> hd (sg_words s) = ''reset'')) \<or>
    (sg_head s = ''pfctl'' \<and> (short_flag s CHR ''d'' \<or> short_flag s CHR ''F'')) \<or>
    (sg_head s = ''setenforce'' \<and> sg_words s \<noteq> [] \<and>
     (hd (sg_words s) = ''0'' \<or> hd (sg_words s) = ''Permissive'')))"

definition match_crontab_wipe :: "cmdline \<Rightarrow> bool" where
  "match_crontab_wipe c \<longleftrightarrow> each c (\<lambda>s. sg_head s = ''crontab'' \<and> short_flag s CHR ''r'')"

definition match_network :: "cmdline \<Rightarrow> bool" where
  "match_network c \<longleftrightarrow> cl_cmd
    [''curl'', ''wget'', ''ssh'', ''scp'', ''rsync'', ''sftp'', ''ftp'', ''nc'', ''ncat'', ''telnet'',
     ''aria2c'', ''http'', ''httpie'', ''mosh''] c"


subsection \<open>The table\<close>

definition mk_rule :: "level \<Rightarrow> string \<Rightarrow> string \<Rightarrow> (cmdline \<Rightarrow> bool) \<Rightarrow> rule" where
  "mk_rule l cat why m = \<lparr>ru_level = l, ru_category = cat, ru_reason = why, ru_match = m\<rparr>"

definition critical_rules :: "rule list" where
  "critical_rules = map (\<lambda>(cat, why, m). mk_rule Critical cat why m)
    [(''destructive'', ''recursive force delete'', match_rm_rf),
     (''destructive'', ''force-push rewrites remote history'', match_git_push_force),
     (''destructive'', ''deletes a remote branch'', match_git_push_delete),
     (''destructive'', ''hard reset discards work'', git_flag ''reset'' ''--hard''),
     (''destructive'', ''rewrites every commit in the repo'', git_sub [''filter-branch'']),
     (''destructive'', ''expires the reflog, the last way back'', git_sub [''reflog'', ''expire'']),
     (''destructive'', ''drops a database object'', sql_re re_drop),
     (''destructive'', ''empties a table'', sql_re re_truncate),
     (''destructive'', ''unfiltered DELETE or UPDATE'', match_sql_no_where),
     (''destructive'', ''flushes the entire keyspace'', sql_re re_flush),
     (''destructive'', ''drops a collection'', sql_re re_drop_call),
     (''destructive'', ''overwrites a raw disk device'', match_disk_write),
     (''destructive'', ''formats a filesystem'', match_mkfs),
     (''destructive'', ''erases filesystem signatures'', cl_cmd [''wipefs'']),
     (''destructive'', ''shreds files beyond recovery'', cl_cmd [''shred'']),
     (''infra'', ''destroys managed infrastructure'', match_iac_destroy),
     (''infra'', ''applies infrastructure changes unattended'', match_iac_auto_approve),
     (''infra'', ''deletes a whole namespace'', match_kubectl_namespace),
     (''cloud'', ''deletes cloud resources'', match_cloud_delete),
     (''cloud'', ''empties a bucket recursively'', match_bucket_wipe),
     (''script-exec'', ''fork bomb'', raw_re re_fork_bomb),
     (''script-exec'', ''binds a shell to a socket'', match_reverse_shell)]"

definition high_rules :: "rule list" where
  "high_rules = map (\<lambda>(cat, why, m). mk_rule High cat why m)
    [(''package-install'', ''installs packages'', match_package_install),
     (''supply-chain'', ''publishes an artifact the world can pull'', match_publish),
     (''script-exec'', ''pipes a download straight into a shell'', match_pipe_to_shell),
     (''script-exec'', ''runs code fetched over the network'', match_run_fetched),
     (''script-exec'', ''pipes data into a shell'', match_pipe_into_shell),
     (''script-exec'', ''executes a local script'', match_local_script),
     (''permission'', ''grants group- or world-writable access'', match_chmod_writable),
     (''permission'', ''sets the setuid or setgid bit'', match_chmod_setid),
     (''permission'', ''recursive ownership change'', match_chown_recursive),
     (''destructive'', ''force-cleans untracked files'', match_git_clean),
     (''destructive'', ''deletes matched files in place'', match_find_delete),
     (''destructive'', ''removes packages'', match_package_remove),
     (''destructive'', ''removes a container volume'', match_volume_remove),
     (''destructive'', ''reclaims unreferenced docker state'', match_docker_prune),
     (''destructive'', ''deletes cluster resources'', match_kubectl_delete),
     (''destructive'', ''removes a release and its resources'', match_helm_remove),
     (''destructive'', ''rewrites the partition table'', match_partition_edit),
     (''destructive'', ''deletes every scheduled job'', match_crontab_wipe),
     (''destructive'', ''mirrors a deletion to the destination'', match_rsync_delete),
     (''script-exec'', ''runs a package fetched on the spot'', match_ephemeral_run),
     (''account'', ''changes who can log in'',
       cl_cmd [''useradd'', ''userdel'', ''usermod'', ''adduser'', ''deluser'', ''groupadd'',
         ''groupdel'', ''passwd'', ''chpasswd'', ''visudo'']),
     (''secret'', ''reads private key material'', match_reads_secret),
     (''secret'', ''copies private key material'', match_copies_secret),
     (''secret'', ''exports secret keys'', match_exports_secret),
     (''permission'', ''changes access control lists'', cl_cmd [''setfacl'', ''chacl'']),
     (''network'', ''tears down host firewalling'', match_firewall_down),
     (''container'', ''runs a container with host privileges'', match_privileged_container),
     (''system'', ''halts or reboots the machine'', match_halt_reboot)]"

definition medium_rules :: "rule list" where
  "medium_rules = map (\<lambda>(cat, why, m). mk_rule Medium cat why m)
    [(''privilege'', ''runs as root'', match_sudo),
     (''privilege'', ''switches user'', cl_cmd [''su'', ''pkexec'']),
     (''container'', ''removes or kills containers'', match_container_remove),
     (''process'', ''kills processes'', cl_cmd [''kill'', ''killall'', ''pkill'']),
     (''destructive'', ''discards git state'', match_git_discard),
     (''destructive'', ''rewrites local history'', match_git_rebase),
     (''destructive'', ''truncates a file'', match_truncate),
     (''system'', ''changes service state'', match_service_state),
     (''system'', ''edits the schedule'', match_schedule_edit),
     (''network'', ''uploads piped data off the machine'', match_upload),
     (''script-exec'', ''runs an executable from this directory'', match_local_binary),
     (''infra'', ''applies infrastructure changes'', match_iac_apply)]"

definition low_rules :: "rule list" where
  "low_rules = map (\<lambda>(cat, why, m). mk_rule Low cat why m)
    [(''network'', ''reaches the network'', match_network),
     (''vcs'', ''pushes to a remote'', match_git_push),
     (''secret'', ''puts a secret in the environment'', match_secret_env)]"

definition rules :: "rule list" where
  "rules = critical_rules @ high_rules @ medium_rules @ low_rules"

end
