(* ===== verification/Risk.thy ===== *)
theory Risk
  imports Risk_Rules
begin

text \<open>
  \<open>internal/risk/ruleset.go\<close>: compiling a rule set, and the assessment of a command. The syntax of
  user patterns is the regexp library's: \<open>regexp.Compile\<close> is the parameter \<open>CR\<close>, which gives the
  test \<open>MatchString\<close> of a valid pattern and \<^const>\<open>None\<close> for an invalid one. Reading and decoding
  \<open>risk.toml\<close> (a third-party TOML package) enters as its outcome, the type \<open>toml_read\<close>.
\<close>

type_synonym compile_re = "string \<Rightarrow> (string \<Rightarrow> bool) option"

record ruleset =
  rs_rules :: "rule list"
  rs_ignores :: "(string \<times> (string \<Rightarrow> bool)) list"

record spec =
  sp_pattern :: string
  sp_level :: string
  sp_category :: string
  sp_reason :: string

datatype risk_warning =
    InvalidRule string
  | UnknownLevel string string
  | InvalidIgnore string
  | Unreadable
  | Unparseable

datatype toml_read = Absent | ReadError | ParseError | Parsed "spec list" "string list"

definition default_ruleset :: ruleset where
  "default_ruleset = \<lparr>rs_rules = rules, rs_ignores = []\<rparr>"

fun compile_specs ::
  "unicode_tables \<Rightarrow> compile_re \<Rightarrow> spec list \<Rightarrow> rule list \<times> risk_warning list" where
  "compile_specs U CR [] = ([], [])"
| "compile_specs U CR (sp # sps) =
    (case compile_specs U CR sps of (rs, ws) \<Rightarrow>
       if trim_space (sp_pattern sp) = [] then (rs, ws)
       else case CR (sp_pattern sp) of
         None \<Rightarrow> (rs, InvalidRule (sp_pattern sp) # ws)
       | Some re \<Rightarrow>
           let level = parse_level U (sp_level sp)
           in if level = LNone then (rs, UnknownLevel (sp_pattern sp) (sp_level sp) # ws)
              else (mk_rule level
                      (if sp_category sp = [] then ''user'' else sp_category sp)
                      (if sp_reason sp = [] then ''matches '' @ sp_pattern sp else sp_reason sp)
                      (\<lambda>c. re (cl_raw c)) # rs, ws))"

fun compile_ignores ::
  "compile_re \<Rightarrow> string list \<Rightarrow> (string \<times> (string \<Rightarrow> bool)) list \<times> risk_warning list" where
  "compile_ignores CR [] = ([], [])"
| "compile_ignores CR (pat # pats) =
    (case compile_ignores CR pats of (res, ws) \<Rightarrow>
       if trim_space pat = [] then (res, ws)
       else case CR pat of
         None \<Rightarrow> (res, InvalidIgnore pat # ws)
       | Some re \<Rightarrow> ((pat, re) # res, ws))"

definition compile ::
  "unicode_tables \<Rightarrow> compile_re \<Rightarrow> spec list \<Rightarrow> string list \<Rightarrow> ruleset \<times> risk_warning list" where
  "compile U CR specs ignore =
    (case compile_specs U CR specs of (rs, ws) \<Rightarrow>
     case compile_ignores CR ignore of (res, ws') \<Rightarrow>
       (\<lparr>rs_rules = rules @ rs, rs_ignores = res\<rparr>, ws @ ws'))"

fun load :: "unicode_tables \<Rightarrow> compile_re \<Rightarrow> toml_read \<Rightarrow> ruleset \<times> risk_warning list" where
  "load U CR Absent = (default_ruleset, [])"
| "load U CR ReadError = (default_ruleset, [Unreadable])"
| "load U CR ParseError = (default_ruleset, [Unparseable])"
| "load U CR (Parsed specs ignore) = compile U CR specs ignore"


subsection \<open>Assessment\<close>

definition max_payload_depth :: nat where [simp]: "max_payload_depth = 3"

definition no_match :: assessment where
  "no_match = \<lparr>as_level = LNone, as_category = ''safe'', as_reason = ''no risky pattern matched''\<rparr>"

definition verdict :: "rule \<Rightarrow> assessment" where
  "verdict r = \<lparr>as_level = ru_level r, as_category = ru_category r, as_reason = ru_reason r\<rparr>"

text \<open>The scan of the table: a rule is tried only if it would raise the level; critical ends it.\<close>

fun scan_rules :: "rule list \<Rightarrow> cmdline \<Rightarrow> assessment \<Rightarrow> assessment" where
  "scan_rules [] c best = best"
| "scan_rules (r # rs) c best =
    (if as_level best < ru_level r \<and> ru_match r c
     then (if ru_level r = Critical then verdict r else scan_rules rs c (verdict r))
     else scan_rules rs c best)"

text \<open>The scan of the payloads, given the assessment of one payload.\<close>

fun scan_payloads :: "(string \<Rightarrow> assessment) \<Rightarrow> string list \<Rightarrow> assessment \<Rightarrow> assessment" where
  "scan_payloads f [] best = best"
| "scan_payloads f (p # ps) best =
    (let a = f p
     in if as_level best < as_level a
        then (if as_level a = Critical then a else scan_payloads f ps a)
        else scan_payloads f ps best)"

text \<open>
  The early returns of \<open>assess\<close> test the best verdict for \<open>Critical\<close>, after the rules and at the depth
  bound. The recursion is on the depth left.
\<close>

function assess :: "ruleset \<Rightarrow> cmdline \<Rightarrow> assessment" where
  "assess rs c =
    (let best = scan_rules (rs_rules rs) c no_match
     in if as_level best = Critical \<or> max_payload_depth \<le> cl_depth c then best
        else scan_payloads (\<lambda>p. assess rs (parse p (cl_depth c + 1))) (payloads c) best)"
  by pat_completeness auto
termination
  by (relation "measure (\<lambda>(rs, c). max_payload_depth - cl_depth c)") (auto simp: parse_def)

declare assess.simps [simp del]

definition assess_command :: "ruleset \<Rightarrow> string \<Rightarrow> assessment" where
  "assess_command rs cmd =
    (let c = trim_space cmd
     in if is_non_executing c
        then \<lparr>as_level = LNone, as_category = ''safe'', as_reason = ''no side effects''\<rparr>
        else case List.find (\<lambda>(_, re). re c) (rs_ignores rs) of
          Some (pat, _) \<Rightarrow>
            \<lparr>as_level = LNone, as_category = ''ignored'', as_reason = ''matches ignore pattern '' @ pat\<rparr>
        | None \<Rightarrow> assess rs (parse c 0))"

text \<open>The package-level \<open>Assess\<close>.\<close>

definition assess_default :: "string \<Rightarrow> assessment" where
  "assess_default cmd = assess_command default_ruleset cmd"



section \<open>Correctness\<close>

subsection \<open>The highest severity wins\<close>

text \<open>Everything an assessment looks at: the line, and what its interpreters are handed, nested.\<close>

function reached :: "cmdline \<Rightarrow> cmdline list" where
  "reached c = c #
    (if max_payload_depth \<le> cl_depth c then []
     else concat (map (\<lambda>p. reached (parse p (cl_depth c + 1))) (payloads c)))"
  by pat_completeness auto
termination
  by (relation "measure (\<lambda>c. max_payload_depth - cl_depth c)") (auto simp: parse_def)

declare reached.simps [simp del]

definition hits :: "rule list \<Rightarrow> cmdline list \<Rightarrow> level set" where
  "hits rs cs = {ru_level r | r c. r \<in> set rs \<and> c \<in> set cs \<and> ru_match r c}"

lemma hits_finite [simp]: "finite (hits rs cs)"
proof -
  have "hits rs cs \<subseteq> ru_level ` set rs" by (auto simp: hits_def)
  then show ?thesis by (rule finite_subset) simp
qed

definition top_level :: "rule list \<Rightarrow> cmdline list \<Rightarrow> level" where
  "top_level rs cs = Max (insert LNone (hits rs cs))"

lemma top_level_le:
  "top_level rs cs \<le> l \<longleftrightarrow> (\<forall>r \<in> set rs. \<forall>c \<in> set cs. ru_match r c \<longrightarrow> ru_level r \<le> l)"
  unfolding top_level_def by (auto simp: hits_def)

lemma level_eqI: "(\<And>l. (a :: level) \<le> l \<longleftrightarrow> b \<le> l) \<Longrightarrow> a = b"
  by (meson antisym order_refl)

lemma critical_le [simp]: "Critical \<le> l \<longleftrightarrow> l = Critical"
  by (auto intro: antisym)

lemma scan_rules_le:
  "as_level (scan_rules rs c best) \<le> l \<longleftrightarrow>
    as_level best \<le> l \<and> (\<forall>r \<in> set rs. ru_match r c \<longrightarrow> ru_level r \<le> l)"
proof (induction rs c best rule: scan_rules.induct)
  case (2 r rs c best)
  show ?case
  proof (cases "as_level best < ru_level r \<and> ru_match r c")
    case True
    then show ?thesis using 2 by (auto simp: verdict_def intro: less_imp_le)
  next
    case False
    then show ?thesis using 2 by (auto simp: not_less)
  qed
qed simp

lemma scan_payloads_le:
  "as_level (scan_payloads f ps best) \<le> l \<longleftrightarrow>
    as_level best \<le> l \<and> (\<forall>p \<in> set ps. as_level (f p) \<le> l)"
proof (induction f ps best rule: scan_payloads.induct)
  case (2 f p ps best)
  show ?case
  proof (cases "as_level best < as_level (f p)")
    case True
    then show ?thesis using 2 by (auto simp: Let_def intro: less_imp_le)
  next
    case False
    then show ?thesis using 2 by (auto simp: Let_def not_less)
  qed
qed simp

lemma assess_le:
  "as_level (assess rs c) \<le> l \<longleftrightarrow>
    (\<forall>r \<in> set (rs_rules rs). \<forall>d \<in> set (reached c). ru_match r d \<longrightarrow> ru_level r \<le> l)"
proof (induction rs c rule: assess.induct)
  case (1 rs c)
  let ?best = "scan_rules (rs_rules rs) c no_match"
  have best: "as_level ?best \<le> l \<longleftrightarrow> (\<forall>r \<in> set (rs_rules rs). ru_match r c \<longrightarrow> ru_level r \<le> l)"
    using scan_rules_le [of "rs_rules rs" c no_match l] by (simp add: no_match_def)
  show ?case
  proof (cases "max_payload_depth \<le> cl_depth c")
    case True
    then show ?thesis using best by (subst assess.simps, subst reached.simps) (simp add: Let_def)
  next
    case False
    show ?thesis
    proof (cases "as_level ?best = Critical")
      case True
      have "l = Critical \<or> \<not> (\<forall>r \<in> set (rs_rules rs). ru_match r c \<longrightarrow> ru_level r \<le> l)"
        using best True by auto
      then show ?thesis
        using best True by (subst assess.simps, subst reached.simps) (auto simp: Let_def)
    next
      case ne: False
      have "as_level (assess rs c) \<le> l \<longleftrightarrow> as_level ?best \<le> l \<and>
          (\<forall>p \<in> set (payloads c). as_level (assess rs (parse p (cl_depth c + 1))) \<le> l)"
        using False ne by (subst assess.simps) (simp add: Let_def scan_payloads_le)
      moreover have set: "set (reached c) =
          insert c (\<Union>p \<in> set (payloads c). set (reached (parse p (cl_depth c + 1))))"
        using False by (subst reached.simps) simp
      moreover have "as_level (assess rs (parse p (cl_depth c + 1))) \<le> l \<longleftrightarrow>
          (\<forall>r \<in> set (rs_rules rs). \<forall>d \<in> set (reached (parse p (cl_depth c + 1))).
            ru_match r d \<longrightarrow> ru_level r \<le> l)" for p
        using 1 [OF refl, of p] False ne by blast
      ultimately show ?thesis unfolding set using best by (simp only: ball_simps UN_iff) blast
    qed
  qed
qed

lemma assess_top: "as_level (assess rs c) = top_level (rs_rules rs) (reached c)"
  by (rule level_eqI) (simp only: assess_le top_level_le)

lemma top_level_rules: "top_level (rs @ rs') cs = max (top_level rs cs) (top_level rs' cs)"
  by (rule level_eqI) (auto simp: top_level_le)


subsection \<open>Every verdict is a rule's\<close>

lemma scan_rules_verdict:
  "scan_rules rs c best = best \<or>
    (\<exists>r \<in> set rs. ru_match r c \<and> scan_rules rs c best = verdict r)"
proof (induction rs c best rule: scan_rules.induct)
  case (2 r rs c best)
  then show ?case by (cases "as_level best < ru_level r \<and> ru_match r c") auto
qed simp

lemma scan_payloads_verdict:
  "scan_payloads f ps best = best \<or> (\<exists>p \<in> set ps. scan_payloads f ps best = f p)"
proof (induction f ps best rule: scan_payloads.induct)
  case (2 f p ps best)
  then show ?case by (cases "as_level best < as_level (f p)") (auto simp: Let_def)
qed simp

lemma assess_verdict:
  "assess rs c = no_match \<or>
    (\<exists>r \<in> set (rs_rules rs). \<exists>d \<in> set (reached c). ru_match r d \<and> assess rs c = verdict r)"
proof (induction rs c rule: assess.induct)
  case (1 rs c)
  let ?best = "scan_rules (rs_rules rs) c no_match"
  have c: "c \<in> set (reached c)" by (subst reached.simps) simp
  have best: "?best = no_match \<or> (\<exists>r \<in> set (rs_rules rs). \<exists>d \<in> set (reached c). ru_match r d \<and> ?best = verdict r)"
    using scan_rules_verdict [of "rs_rules rs" c no_match] c by blast
  show ?case
  proof (cases "as_level ?best = Critical \<or> max_payload_depth \<le> cl_depth c")
    case True
    then have "assess rs c = ?best" by (subst assess.simps) (simp add: Let_def)
    with best show ?thesis by simp
  next
    case False
    then have eq: "assess rs c =
        scan_payloads (\<lambda>p. assess rs (parse p (cl_depth c + 1))) (payloads c) ?best"
      by (subst assess.simps) (auto simp: Let_def)
    have sub: "set (reached (parse p (cl_depth c + 1))) \<subseteq> set (reached c)" if "p \<in> set (payloads c)" for p
      using False that by (subst (2) reached.simps) auto
    from scan_payloads_verdict [of "\<lambda>p. assess rs (parse p (cl_depth c + 1))" "payloads c" ?best] eq
    consider "assess rs c = ?best"
      | p where "p \<in> set (payloads c)" "assess rs c = assess rs (parse p (cl_depth c + 1))" by auto
    then show ?thesis
    proof cases
      case 1
      with best show ?thesis by simp
    next
      case 2
      with 1 [OF refl] False sub show ?thesis by (metis subsetD)
    qed
  qed
qed



subsection \<open>Bounded work\<close>

lemma sum_list_concat_le:
  "(\<And>p. p \<in> set ps \<Longrightarrow> sum_list (f p) \<le> k * length p) \<Longrightarrow>
    sum_list (concat (map f ps)) \<le> k * sum_list (map length ps)"
  by (induction ps) (auto simp: add_mult_distrib2 intro: add_mono)

lemma reached_size:
  "d \<le> 3 \<Longrightarrow> sum_list (map (\<lambda>c. length (cl_raw c)) (reached (parse raw d))) \<le> (4 - d) * length raw"
proof (induction "3 - d" arbitrary: d raw)
  case 0
  then show ?case by (subst reached.simps) (simp add: parse_def)
next
  case (Suc n)
  let ?c = "parse raw d"
  let ?f = "\<lambda>p. map (\<lambda>c. length (cl_raw c)) (reached (parse p (d + 1)))"
  have d: "cl_depth ?c = d" "cl_raw ?c = raw" by (simp_all add: parse_def)
  have "sum_list (?f p) \<le> (3 - d) * length p" for p
    using Suc.hyps(1) [of "d + 1" p] Suc.hyps(2) by simp
  then have "sum_list (concat (map ?f (payloads ?c))) \<le> (3 - d) * sum_list (map length (payloads ?c))"
    by (intro sum_list_concat_le)
  also have "\<dots> \<le> (3 - d) * length raw"
    by (rule mult_left_mono) (simp_all add: parse_payloads_size)
  finally have "sum_list (concat (map ?f (payloads ?c))) \<le> (3 - d) * length raw" .
  moreover have "map (\<lambda>c. length (cl_raw c)) (reached ?c) = length raw # concat (map ?f (payloads ?c))"
  proof -
    have "\<not> max_payload_depth \<le> cl_depth ?c" using Suc.hyps(2) d by simp
    then show ?thesis by (subst reached.simps) (simp add: d map_concat comp_def)
  qed
  moreover have "(4 - d) * length raw = length raw + (3 - d) * length raw"
    using Suc.hyps(2) Suc.prems by (metis Suc_diff_le add.commute diff_Suc_Suc eval_nat_numeral(3)
        mult_Suc numeral_3_eq_3 semiring_norm(2) semiring_norm(8) Suc_numeral)
  ultimately show ?case by simp
qed


subsection \<open>User rules only escalate\<close>

lemma compile_rules:
  "rs_rules (fst (compile U CR specs ignore)) = rules @ fst (compile_specs U CR specs)"
  by (simp add: compile_def split: prod.splits)

lemma compile_level:
  "as_level (assess (fst (compile U CR specs ignore)) c) =
    max (as_level (assess default_ruleset c))
      (top_level (fst (compile_specs U CR specs)) (reached c))"
  by (simp add: assess_top compile_rules top_level_rules default_ruleset_def)

text \<open>A user rule is kept exactly when its pattern is not blank, compiles, and names a level.\<close>

definition spec_live :: "unicode_tables \<Rightarrow> compile_re \<Rightarrow> spec \<Rightarrow> bool" where
  "spec_live U CR sp \<longleftrightarrow>
    trim_space (sp_pattern sp) \<noteq> [] \<and> CR (sp_pattern sp) \<noteq> None \<and> parse_level U (sp_level sp) \<noteq> LNone"

lemma compile_specs_live:
  "map ru_level (fst (compile_specs U CR specs)) =
    map (\<lambda>sp. parse_level U (sp_level sp)) (filter (spec_live U CR) specs)"
  by (induction specs) (auto simp: spec_live_def mk_rule_def Let_def split: prod.splits option.splits)

lemma compile_specs_match:
  "\<exists>r \<in> set (fst (compile_specs U CR specs)). ru_level r = parse_level U (sp_level sp) \<and> ru_match r c"
  if "sp \<in> set specs" "spec_live U CR sp" "CR (sp_pattern sp) = Some re" "re (cl_raw c)"
  using that
proof (induction specs)
  case (Cons x xs)
  obtain rs ws where e: "compile_specs U CR xs = (rs, ws)" by fastforce
  show ?case
  proof (cases "x = sp")
    case True
    with Cons.prems e show ?thesis by (simp add: spec_live_def mk_rule_def Let_def)
  next
    case False
    with Cons e obtain r where "r \<in> set rs" "ru_level r = parse_level U (sp_level sp)" "ru_match r c"
      by auto
    with e show ?thesis by (auto simp: Let_def split: option.splits)
  qed
qed simp


subsection \<open>Which lines are recursive force deletes\<close>

definition cluster :: "char \<Rightarrow> shell_word \<Rightarrow> bool" where
  "cluster letter a \<longleftrightarrow> (case a of (q, w) \<Rightarrow>
     \<not> q \<and> 2 \<le> length w \<and> w ! 0 = CHR ''-'' \<and> w ! 1 \<noteq> CHR ''-'' \<and> letter \<in> set (tl w))"

lemma short_flag_args:
  "sg_args s = map tok_of args \<Longrightarrow> short_flag s letter \<longleftrightarrow> list_ex (cluster letter) args"
proof -
  have "(list_ex (\<lambda>a. \<not> tk_quoted a \<and> 2 \<le> length (tk_val a) \<and> tk_val a ! 0 = CHR ''-'' \<and>
      tk_val a ! 1 \<noteq> CHR ''-'' \<and> letter \<in> set (tl (tk_val a))) (map tok_of args)) =
      list_ex (cluster letter) args"
    unfolding cluster_def by (induction args) (auto split: prod.splits)
  then show "sg_args s = map tok_of args \<Longrightarrow> ?thesis" unfolding short_flag_def by simp
qed

lemma index_byte_None: "c \<notin> set s \<Longrightarrow> index_byte s c = None"
  by (induction s) auto

lemma basename_self: "CHR ''/'' \<notin> set s \<Longrightarrow> basename s = s"
  by (simp add: basename_def last_index_byte_def index_byte_None)

lemma rules_first: "rules = mk_rule Critical ''destructive'' ''recursive force delete'' match_rm_rf # tl rules"
  by (simp add: rules_def critical_rules_def)

lemma assess_rm:
  assumes "match_rm_rf c"
  shows "assess default_ruleset c =
    \<lparr>as_level = Critical, as_category = ''destructive'', as_reason = ''recursive force delete''\<rparr>"
proof -
  have "scan_rules rules c no_match =
      verdict (mk_rule Critical ''destructive'' ''recursive force delete'' match_rm_rf)"
    using assms by (subst rules_first) (simp add: no_match_def mk_rule_def less_level_def)
  then show ?thesis
    by (subst assess.simps) (simp add: Let_def default_ruleset_def verdict_def mk_rule_def)
qed

lemma reached_payload:
  assumes "cl_depth c < 3" and "p \<in> set (payloads c)"
  shows "set (reached (parse p (cl_depth c + 1))) \<subseteq> set (reached c)"
  using assms by (subst (2) reached.simps) auto

lemma assess_payload:
  assumes "cl_depth c < 3" and "p \<in> set (payloads c)"
  shows "as_level (assess rs (parse p (cl_depth c + 1))) \<le> as_level (assess rs c)"
proof -
  have "\<forall>r \<in> set (rs_rules rs). \<forall>d \<in> set (reached c). ru_match r d \<longrightarrow> ru_level r \<le> as_level (assess rs c)"
    using assess_le [of rs c "as_level (assess rs c)"] by simp
  with reached_payload [OF assms] show ?thesis by (auto simp: assess_le)
qed


text \<open>The words a segment is compared by never begin with a dash.\<close>

lemma resolved_words:
  "s \<in> set (resolved cur piped) \<Longrightarrow> w \<in> set (sg_words s) \<Longrightarrow> \<not> has_prefix w ''-''"
  by (auto simp: resolved_def resolve_def Let_def split: prod.splits if_splits)

lemma cut_segments_words:
  "s \<in> set (cut_segments ts cur piped) \<Longrightarrow> w \<in> set (sg_words s) \<Longrightarrow> \<not> has_prefix w ''-''"
  by (induction ts arbitrary: cur piped)
    (auto simp: cut_segments_resolved dest: resolved_words split: if_splits)

lemma sub_flag_dead:
  assumes "has_prefix w ''-''" and "w \<in> set ws"
  shows "\<not> cl_sub h ws (parse raw d)"
proof
  assume "cl_sub h ws (parse raw d)"
  then obtain s where s: "s \<in> set (cut_segments (lex raw) [] False)" "take (length ws) (sg_words s) = ws"
    by (auto simp: cl_sub_def each_def seg_is_def parse_def list_ex_iff)
  then have "w \<in> set (sg_words s)" using assms(2) by (metis in_set_takeD)
  with cut_segments_words [OF s(1)] assms(1) show False by blast
qed


subsection \<open>Properties\<close>



text \<open>The work one line can cause is bounded: the lines assessed for a command, counting what nested
  interpreters are handed at every depth, are together at most four times as long as the command.\<close>

theorem assess_work_bounded:
  "sum_list (map (\<lambda>c. length (cl_raw c)) (reached (parse raw 0))) \<le> 4 * length raw"
  using reached_size [of 0 raw] by simp

text \<open>C28 The lexer reads back what a shell user writes: for words that are bare or in single quotes, joined
  by blanks, the tokens are those words in order, with their quoting, and none is an operator.\<close>

theorem lex_reads_words:
  assumes "list_all word_ok ws"
  shows "lex (shell_line ws) = map (\<lambda>(q, w). \<lparr>tk_val = w, tk_quoted = q, tk_op = False\<rparr>) ws"
proof -
  have "map tok_of ws = map (\<lambda>(q, w). \<lparr>tk_val = w, tk_quoted = q, tk_op = False\<rparr>) ws"
    by (induction ws) auto
  with lex_shell_line [OF assms] show ?thesis by simp
qed

lemma lex_reads_words_witness:
  "lex (shell_line [(False, ''rm''), (True, ''a; b'')]) =
    [\<lparr>tk_val = ''rm'', tk_quoted = False, tk_op = False\<rparr>, \<lparr>tk_val = ''a; b'', tk_quoted = True, tk_op = False\<rparr>]"
  by (subst lex_reads_words) (simp_all add: plain_char_def)


lemma rm_wrapped:
  "list_all word_ok (wrapped [''sudo'', ''nice''] ''/bin/rm'' [(False, ''-rf''), (True, ''a b'')])"
  "set [''sudo'', ''nice''] \<subseteq> set wrappers" "command_word ''/bin/rm''" "command_word ''rm''" "command_word ''bash''"
  "acting_args [(False, ''-rf''), (True, ''a b'')]"
  "basename ''/bin/rm'' = ''rm''" "basename ''rm'' = ''rm''" "basename ''bash'' = ''bash''"
  by (simp_all add: wrapped_def plain_char_def wrappers_def command_word_def is_assignment_def basename_def
      last_index_byte_def is_number_def is_digit_byte_iff byte_def has_prefix_def acting_args_def exec_args_def)





text \<open>What an interpreter is handed counts: a line that runs a quoted command through a shell or another
  interpreter, behind any wrappers, is at least as risky as that command on its own.\<close>

theorem payload_counts:
  assumes "set pre \<subseteq> set wrappers" and "command_word h" and "basename h \<in> set interpreters"
    and "list_all word_ok (wrapped pre h args)" and "acting_args args"
    and "(True, p) \<in> set args" and "trim_space p \<noteq> []"
  shows "as_level (assess rs (parse p 1)) \<le> as_level (assess rs (parse (shell_line (wrapped pre h args)) 0))"
proof -
  let ?c = "parse (shell_line (wrapped pre h args)) 0"
  obtain s where s: "cl_segs ?c = [s]" "sg_head s = basename h" "sg_args s = map tok_of args"
    using parse_wrapped [OF assms(4,1,2,5), of 0] by simp
  have "tok_of (True, p) \<in> set (sg_args s)" using s(3) assms(6) by force
  moreover have "cl_depth ?c = 0" by (simp add: parse_def)
  ultimately have "p \<in> set (payloads ?c)"
    using s(1,2) assms(3,7) by (force simp: payloads_def)
  then show ?thesis using assess_payload [of ?c p rs] by (simp add: parse_def)
qed

lemma payload_counts_witness:
  "as_level (assess default_ruleset (parse ''rm -rf /'' 1)) \<le>
    as_level (assess default_ruleset (parse (shell_line (wrapped [''sudo''] ''bash''
      [(False, ''-c''), (True, ''rm -rf /'')])) 0))"
proof (rule payload_counts)
  show "set [''sudo''] \<subseteq> set wrappers" "acting_args [(False, ''-c''), (True, ''rm -rf /'')]"
    "(True, ''rm -rf /'') \<in> set [(False, ''-c''), (True, ''rm -rf /'')]"
    "list_all word_ok (wrapped [''sudo''] ''bash'' [(False, ''-c''), (True, ''rm -rf /'')])"
    by (simp_all add: wrappers_def acting_args_def exec_args_def wrapped_def plain_char_def)
  show "command_word ''bash''" by (rule rm_wrapped)
  show "basename ''bash'' \<in> set interpreters" by (simp add: rm_wrapped(9) interpreters_def)
  show "trim_space ''rm -rf /'' \<noteq> []"
    by (simp add: trim_space_def chunks_ascii ascii_byte_def byte_def rune_is_space_def)
qed

text \<open>User rules only add severity: compiling a user rule set never lowers the level the built-in rules
  give a line, a valid rule whose pattern matches raises it to at least its own level, and broken rules
  are skipped without disabling the others.\<close>

theorem user_rules_escalate:
  "as_level (assess default_ruleset c) \<le> as_level (assess (fst (compile U CR specs ignore)) c) \<and>
   (\<forall>sp \<in> set specs. \<forall>re. spec_live U CR sp \<longrightarrow> CR (sp_pattern sp) = Some re \<longrightarrow> re (cl_raw c) \<longrightarrow>
     parse_level U (sp_level sp) \<le> as_level (assess (fst (compile U CR specs ignore)) c)) \<and>
   map ru_level (fst (compile_specs U CR specs)) =
     map (\<lambda>sp. parse_level U (sp_level sp)) (filter (spec_live U CR) specs)"
proof -
  let ?us = "fst (compile_specs U CR specs)"
  note lvl = compile_level [of U CR specs ignore c]
  have "as_level (assess default_ruleset c) \<le> as_level (assess (fst (compile U CR specs ignore)) c)"
    unfolding lvl by (rule max.cobounded1)
  moreover have "parse_level U (sp_level sp) \<le> as_level (assess (fst (compile U CR specs ignore)) c)"
    if sp: "sp \<in> set specs" "spec_live U CR sp" "CR (sp_pattern sp) = Some re" "re (cl_raw c)" for sp re
  proof -
    obtain r where r: "r \<in> set ?us" "ru_level r = parse_level U (sp_level sp)" "ru_match r c"
      using compile_specs_match [where CR = CR and U = U and c = c, OF sp] by blast
    have "c \<in> set (reached c)" by (subst reached.simps) simp
    with r top_level_le [of ?us "reached c" "top_level ?us (reached c)"]
    have "parse_level U (sp_level sp) \<le> top_level ?us (reached c)" by fastforce
    then show ?thesis unfolding lvl by (rule max.coboundedI2)
  qed
  ultimately show ?thesis using compile_specs_live by blast
qed

lemma user_rules_escalate_witness:
  "High \<le> as_level (assess (fst (compile \<lparr>ut_lower = (\<lambda>r. r), ut_upper = (\<lambda>_. False)\<rparr>
     (\<lambda>pat. Some (\<lambda>s. str_contains s pat))
     [\<lparr>sp_pattern = ''dep'', sp_level = ''high'', sp_category = [], sp_reason = []\<rparr>] [])) (parse ''deploy'' 0))"
proof -
  let ?U = "\<lparr>ut_lower = (\<lambda>r. r), ut_upper = (\<lambda>_. False)\<rparr>"
  let ?sp = "\<lparr>sp_pattern = ''dep'', sp_level = ''high'', sp_category = [], sp_reason = []\<rparr>"
  let ?CR = "\<lambda>pat. Some (\<lambda>s. str_contains s pat)"
  have high: "parse_level ?U ''high'' = High" by code_simp
  have "trim_space ''dep'' \<noteq> []" by code_simp
  with high have "spec_live ?U ?CR ?sp" by (simp add: spec_live_def)
  moreover have "str_contains (cl_raw (parse ''deploy'' 0)) ''dep''"
    by (simp add: parse_def str_contains_def has_prefix_def)
  ultimately show ?thesis
    using user_rules_escalate [of "parse ''deploy'' 0" ?U ?CR "[?sp]" "[]"] high by auto
qed

text \<open>The rule for \<open>git commit --amend\<close> never fires: a subcommand pattern that holds a flag matches no
  line, because the words it is compared with leave flags out.\<close>

theorem flag_subcommand_dead:
  assumes "has_prefix w ''-''" and "w \<in> set ws"
  shows "\<not> cl_sub h ws (parse raw d)"
  by (rule sub_flag_dead [OF assms])

lemma flag_subcommand_dead_witness:
  "\<not> cl_sub ''git'' [''commit'', ''--amend''] (parse ''git commit --amend'' 0)"
  by (rule flag_subcommand_dead [of "''--amend''"]) (simp_all add: has_prefix_def)

text \<open>A newline does not separate commands, nor does a duration stop \<open>timeout\<close> from hiding one: a recursive
  delete on the second line of a command, or behind \<open>timeout 30s\<close>, is assessed as safe, although alone
  it is critical.\<close>

theorem newline_hides_command:
  "as_level (assess_default (''ls'' @ [CHR 0x0A] @ ''rm -rf /'')) = LNone \<and>
   as_level (assess_default ''timeout 30s rm -rf /'') = LNone \<and>
   as_level (assess_default ''timeout 30 rm -rf /'') = Critical \<and>
   as_level (assess_default ''rm -rf /'') = Critical"
  by code_simp

text \<open>A line that defines an alias is never assessed beyond it: a recursive delete after the semicolon is
  reported as having no side effects.\<close>

theorem alias_hides_command:
  "assess_command rs ''alias x=y; rm -rf /'' =
    \<lparr>as_level = LNone, as_category = ''safe'', as_reason = ''no side effects''\<rparr>"
proof -
  have "trim_space ''alias x=y; rm -rf /'' = ''alias x=y; rm -rf /''"
    by (simp add: trim_space_def chunks_ascii ascii_byte_def byte_def rune_is_space_def)
  then show ?thesis by (simp add: assess_command_def is_non_executing_def has_prefix_def)
qed

end
