(* ===== verification/Reqsign.thy ===== *)
theory Reqsign
  imports History_Record
begin

text \<open>
  \<open>internal/reqsign\<close>: the canonical string of a request, signing and verification. Ed25519 and
  SHA-256 are parameters. Times are nanoseconds since the epoch, as integers: \<open>time.Time.Sub\<close>
  saturates where the difference does not fit, which is far outside the window either way.
  \<open>base64.RawURLEncoding\<close> is written out.
\<close>

record crypto =
  cr_sha256 :: "string \<Rightarrow> string"
  cr_verify :: "string \<Rightarrow> string \<Rightarrow> string \<Rightarrow> bool"

text \<open>The headers of a request the server reads; an absent header is the empty string.\<close>

record headers =
  hd_device :: string
  hd_timestamp :: string
  hd_nonce :: string
  hd_signature :: string
  hd_token :: string

definition second :: int where "second = 1000000000"

definition skew :: int where "skew = 300 * second"

definition unix_seconds :: "int \<Rightarrow> int" where "unix_seconds t = t div second"

definition unix_milli :: "int \<Rightarrow> int" where "unix_milli t = t div 1000000"


subsection \<open>base64url without padding\<close>

definition b64_alphabet :: string where
  "b64_alphabet = ''ABCDEFGHIJKLMNOPQRSTUVWXYZabcdefghijklmnopqrstuvwxyz0123456789-_''"

fun b64_groups :: "nat list \<Rightarrow> nat list" where
  "b64_groups [] = []"
| "b64_groups [a] = [a div 4, a mod 4 * 16]"
| "b64_groups [a, b] = [a div 4, a mod 4 * 16 + b div 16, b mod 16 * 4]"
| "b64_groups (a # b # c # rest) =
    [a div 4, a mod 4 * 16 + b div 16, b mod 16 * 4 + c div 64, c mod 64] @ b64_groups rest"

definition b64_encode :: "string \<Rightarrow> string" where
  "b64_encode s = map (\<lambda>n. b64_alphabet ! n) (b64_groups (map byte s))"

text \<open>The decoder: one group of 2 or 3 symbols may end the text; a lone symbol is an error.\<close>

fun b64_bytes :: "nat list \<Rightarrow> nat list option" where
  "b64_bytes [] = Some []"
| "b64_bytes [a] = None"
| "b64_bytes [a, b] = Some [a * 4 + b div 16]"
| "b64_bytes [a, b, c] = Some [a * 4 + b div 16, b mod 16 * 16 + c div 4]"
| "b64_bytes (a # b # c # d # rest) =
    map_option (\<lambda>t. [a * 4 + b div 16, b mod 16 * 16 + c div 4, c mod 4 * 64 + d] @ t) (b64_bytes rest)"

fun b64_symbols :: "string \<Rightarrow> nat list option" where
  "b64_symbols [] = Some []"
| "b64_symbols (c # cs) =
    (if c = CHR 0x0A \<or> c = CHR 0x0D then b64_symbols cs
     else case index_byte b64_alphabet c of
            None \<Rightarrow> None
          | Some n \<Rightarrow> map_option (\<lambda>ns. n # ns) (b64_symbols cs))"

definition b64_decode :: "string \<Rightarrow> string option" where
  "b64_decode s = Option.bind (b64_symbols s) (\<lambda>ns. map_option (map char_of) (b64_bytes ns))"


subsection \<open>Signing and verifying\<close>

definition newline :: string where "newline = [CHR 0x0A]"

definition canonical ::
  "crypto \<Rightarrow> string \<Rightarrow> string \<Rightarrow> string \<Rightarrow> string \<Rightarrow> string \<Rightarrow> string" where
  "canonical C meth target timestamp nonce body =
    meth @ newline @ target @ newline @ timestamp @ newline @ nonce @ newline @
    hex_encode (cr_sha256 C body)"

text \<open>\<open>Sign\<close>: \<open>nb\<close> is the 16 random bytes, \<open>signer\<close> the device's signer.\<close>

definition sign_request ::
  "crypto \<Rightarrow> (string \<Rightarrow> string) \<Rightarrow> string \<Rightarrow> string \<Rightarrow> string \<Rightarrow> string \<Rightarrow> string \<Rightarrow> int \<Rightarrow> headers" where
  "sign_request C signer nb device meth target body now =
    (let nonce = b64_encode nb;
         ts = format_int (unix_seconds now)
     in \<lparr>hd_device = device, hd_timestamp = ts, hd_nonce = nonce,
         hd_signature = b64_encode (signer (canonical C meth target ts nonce body)), hd_token = []\<rparr>)"

datatype sig_error = ErrMissing | ErrTimestamp | ErrSignature

definition verify_request ::
  "crypto \<Rightarrow> headers \<Rightarrow> string \<Rightarrow> string \<Rightarrow> string \<Rightarrow> string \<Rightarrow> int \<Rightarrow> sig_error option" where
  "verify_request C h meth target body pub now =
    (if hd_timestamp h = [] \<or> hd_nonce h = [] \<or> hd_signature h = [] then Some ErrMissing
     else case parse_int64 (hd_timestamp h) of
       None \<Rightarrow> Some ErrTimestamp
     | Some tsec \<Rightarrow>
         let d = now - tsec * second
         in if d > skew \<or> d < - skew then Some ErrTimestamp
            else case b64_decode (hd_signature h) of
              None \<Rightarrow> Some ErrSignature
            | Some sg \<Rightarrow>
                if length pub \<noteq> 32 \<or>
                   \<not> cr_verify C pub (canonical C meth target (hd_timestamp h) (hd_nonce h) body) sg
                then Some ErrSignature else None)"


section \<open>Correctness\<close>

lemma b64_groups_small: "\<forall>n \<in> set ns. n < 256 \<Longrightarrow> n \<in> set (b64_groups ns) \<Longrightarrow> n < 64"
  by (induction ns rule: b64_groups.induct) (auto; presburger?)+

lemma b64_bytes_groups: "\<forall>n \<in> set ns. n < 256 \<Longrightarrow> b64_bytes (b64_groups ns) = Some ns"
  by (induction ns rule: b64_groups.induct) (auto simp: algebra_simps; presburger?)+

lemma length_alphabet: "length b64_alphabet = 64"
  by (simp add: b64_alphabet_def)

lemma alphabet_index: "n < 64 \<Longrightarrow> index_byte b64_alphabet (b64_alphabet ! n) = Some n"
proof -
  have "list_all (\<lambda>n. index_byte b64_alphabet (b64_alphabet ! n) = Some n) [0 ..< 64]"
    by code_simp
  then show "n < 64 \<Longrightarrow> ?thesis" by (simp add: list_all_iff)
qed

lemma alphabet_plain: "n < 64 \<Longrightarrow> b64_alphabet ! n \<noteq> CHR 0x0A \<and> b64_alphabet ! n \<noteq> CHR 0x0D"
proof -
  have "list_all (\<lambda>c. c \<noteq> CHR 0x0A \<and> c \<noteq> CHR 0x0D) b64_alphabet" by code_simp
  then show "n < 64 \<Longrightarrow> ?thesis" by (simp add: list_all_length length_alphabet)
qed

lemma b64_symbols_map:
  "\<forall>n \<in> set ns. n < 64 \<Longrightarrow> b64_symbols (map (\<lambda>n. b64_alphabet ! n) ns) = Some ns"
  by (induction ns) (simp_all add: alphabet_index alphabet_plain)

lemma char_of_byte [simp]: "char_of (byte c) = c"
  by (simp add: byte_def)

lemma b64_round_trip: "b64_decode (b64_encode s) = Some s"
proof -
  let ?ns = "map byte s"
  have small: "\<forall>n \<in> set ?ns. n < 256" by simp
  then have "\<forall>n \<in> set (b64_groups ?ns). n < 64" using b64_groups_small by blast
  then have "b64_symbols (b64_encode s) = Some (b64_groups ?ns)"
    unfolding b64_encode_def by (rule b64_symbols_map)
  with b64_bytes_groups [OF small] show ?thesis by (simp add: b64_decode_def comp_def)
qed


subsection \<open>The canonical string determines the request\<close>

lemma hex_digit_inject: "m < 16 \<Longrightarrow> n < 16 \<Longrightarrow> hex_digit m = hex_digit n \<longleftrightarrow> m = n"
proof -
  have "list_all (\<lambda>m. list_all (\<lambda>n. hex_digit m = hex_digit n \<longrightarrow> m = n) [0 ..< 16]) [0 ..< 16]"
    by code_simp
  then show "m < 16 \<Longrightarrow> n < 16 \<Longrightarrow> ?thesis" by (auto simp: list_all_iff)
qed

lemma hex_encode_inject: "hex_encode s = hex_encode t \<Longrightarrow> s = t"
proof (induction s arbitrary: t)
  case Nil
  then show ?case by (cases t) (simp_all add: hex_encode_def)
next
  case (Cons c s)
  then obtain d u where t: "t = d # u" by (cases t) (simp_all add: hex_encode_def)
  with Cons.prems have "hex_digit (byte c div 16) = hex_digit (byte d div 16)"
      "hex_digit (byte c mod 16) = hex_digit (byte d mod 16)" "hex_encode s = hex_encode u"
    by (simp_all add: hex_encode_def)
  moreover have "byte e div 16 < 16" for e using byte_less_256 [of e] by (simp add: less_mult_imp_div_less)
  ultimately have "byte c div 16 = byte d div 16" "byte c mod 16 = byte d mod 16" "s = u"
    using Cons.IH by (simp_all add: hex_digit_inject)
  then have "byte c = byte d" by (metis div_mult_mod_eq)
  with t \<open>s = u\<close> show ?case by simp
qed

lemma cut_at_newline:
  "c \<notin> set a \<Longrightarrow> c \<notin> set b \<Longrightarrow> a @ c # r = b @ c # q \<Longrightarrow> a = b \<and> r = q"
proof (induction a arbitrary: b)
  case Nil
  then show ?case by (cases b) auto
next
  case (Cons x a)
  then show ?case by (cases b) auto
qed


lemma sign_verify:
  assumes "\<And>m. cr_verify C pub m (signer m)" and "\<And>m. signer m \<noteq> []" and "length pub = 32"
    and "nb \<noteq> []" and "int64 (unix_seconds t)"
  shows "verify_request C (sign_request C signer nb device meth target body t) meth target body pub now =
    (if \<bar>now - unix_seconds t * second\<bar> \<le> skew then None else Some ErrTimestamp)"
proof -
  have ne: "b64_encode s \<noteq> []" if "s \<noteq> []" for s
    using that by (cases "map byte s" rule: b64_groups.cases) (auto simp: b64_encode_def)
  have "format_int n \<noteq> []" for n
    using nat_digits_head [of "nat n"] by (auto simp: format_int_def)
  with assms ne parse_format_int [OF assms(5)] show ?thesis
    by (auto simp: verify_request_def sign_request_def Let_def b64_round_trip)
qed


subsection \<open>Properties\<close>

text \<open>A request signed by a device verifies under its key exactly while the server clock is within five
  minutes of the signing second, in either direction; outside it is refused for its timestamp.\<close>

theorem signed_request_window:
  assumes "\<And>m. cr_verify C pub m (signer m)" and "\<And>m. signer m \<noteq> []" and "length pub = 32"
    and "nb \<noteq> []" and "int64 (unix_seconds t)"
  shows "verify_request C (sign_request C signer nb device meth target body t) meth target body pub now =
    (if \<bar>now - unix_seconds t * second\<bar> \<le> skew then None else Some ErrTimestamp)"
  using assms by (rule sign_verify)

lemma signed_request_window_witness:
  "verify_request \<lparr>cr_sha256 = (\<lambda>s. s), cr_verify = (\<lambda>_ m sg. sg = CHR ''s'' # m)\<rparr>
     (sign_request \<lparr>cr_sha256 = (\<lambda>s. s), cr_verify = (\<lambda>_ m sg. sg = CHR ''s'' # m)\<rparr> (\<lambda>m. CHR ''s'' # m) ''n'' ''dev'' ''GET'' ''/v1/hosts'' []
       1700000000000000000) ''GET'' ''/v1/hosts'' [] (replicate 32 CHR ''k'') 1700000300000000000 = None"
  by (subst signed_request_window)
    (simp_all add: canonical_def unix_seconds_def second_def skew_def int64_def)

text \<open>The signed string determines the request: with no newline in the four header fields, two requests
  with the same canonical string agree in method, target, timestamp and nonce and in the hash of the
  body. The device id is not part of it.\<close>

theorem canonical_injective:
  assumes "canonical C m t ts n b = canonical C m' t' ts' n' b'"
    and "\<forall>x \<in> {m, t, ts, n, m', t', ts', n'}. CHR 0x0A \<notin> set x"
  shows "m = m' \<and> t = t' \<and> ts = ts' \<and> n = n' \<and> cr_sha256 C b = cr_sha256 C b'"
proof -
  note eq = assms(1) [unfolded canonical_def newline_def append_Cons append_Nil]
  have m: "m = m'" and e1: "t @ CHR 0x0A # ts @ CHR 0x0A # n @ CHR 0x0A # hex_encode (cr_sha256 C b) =
      t' @ CHR 0x0A # ts' @ CHR 0x0A # n' @ CHR 0x0A # hex_encode (cr_sha256 C b')"
    using cut_at_newline [OF _ _ eq] assms(2) by auto
  have t: "t = t'" and e2: "ts @ CHR 0x0A # n @ CHR 0x0A # hex_encode (cr_sha256 C b) =
      ts' @ CHR 0x0A # n' @ CHR 0x0A # hex_encode (cr_sha256 C b')"
    using cut_at_newline [OF _ _ e1] assms(2) by auto
  have ts: "ts = ts'" and e3: "n @ CHR 0x0A # hex_encode (cr_sha256 C b) =
      n' @ CHR 0x0A # hex_encode (cr_sha256 C b')"
    using cut_at_newline [OF _ _ e2] assms(2) by auto
  have "n = n'" "hex_encode (cr_sha256 C b) = hex_encode (cr_sha256 C b')"
    using cut_at_newline [OF _ _ e3] assms(2) by auto
  with m t ts hex_encode_inject show ?thesis by blast
qed

lemma canonical_injective_witness:
  "canonical \<lparr>cr_sha256 = (\<lambda>s. s), cr_verify = (\<lambda>_ _ _. True)\<rparr> ''GET'' ''/a'' ''1'' ''n'' ''x'' \<noteq>
   canonical \<lparr>cr_sha256 = (\<lambda>s. s), cr_verify = (\<lambda>_ _ _. True)\<rparr> ''GET'' ''/a'' ''1'' ''n'' ''y''"
  using canonical_injective [of "\<lparr>cr_sha256 = (\<lambda>s. s), cr_verify = (\<lambda>_ _ _. True)\<rparr>"
    "''GET''" "''/a''" "''1''" "''n''" "''x''" "''GET''" "''/a''" "''1''" "''n''" "''y''"] by auto

end
