(* ===== verification/Cryptobox.thy ===== *)
theory Cryptobox
  imports Reqsign
begin

text \<open>
  \<open>internal/cryptobox\<close>: the key hierarchy. A device key seals the History Key, the History Key wraps
  the epoch data keys, a data key seals records. The primitives of \<open>golang.org/x/crypto\<close> (XChaCha20-
  Poly1305, X25519, Argon2id) and of the standard library (HKDF, Ed25519) are the fields of a record
  \<open>cbox\<close>; the laws the code relies on are the assumptions of the locale \<open>sealed_box\<close>. Keys are the bytes
  of their 32-byte arrays, random bytes are arguments, and wiping key material has no effect here.
\<close>

type_synonym key = string

record cbox =
  cx_seal :: "key \<Rightarrow> string \<Rightarrow> string \<Rightarrow> string \<Rightarrow> string"
  cx_open :: "key \<Rightarrow> string \<Rightarrow> string \<Rightarrow> string \<Rightarrow> string option"
  cx_dh :: "key \<Rightarrow> key \<Rightarrow> key option"
  cx_base :: key
  cx_hkdf :: "key \<Rightarrow> string \<Rightarrow> key"
  cx_argon :: "string \<Rightarrow> string \<Rightarrow> string"
  cx_ed_key :: "key \<Rightarrow> string"
  cx_ed_pub :: "string \<Rightarrow> string"
  cx_ed_sign :: "string \<Rightarrow> string \<Rightarrow> string"

datatype crypto_error = Truncated | LowOrder | KeyFormat | KeyLength | CurveError | NotAuthentic

definition hk_wrap_domain :: string where "hk_wrap_domain = ''github.com/mach6/yore/hk-wrap/v1''"
definition dek_wrap_domain :: string where "dek_wrap_domain = ''github.com/mach6/yore/dek-wrap/v1''"
definition rec_seal_domain :: string where "rec_seal_domain = ''github.com/mach6/yore/rec/v1''"
definition legacy_hk_wrap_domain :: string where "legacy_hk_wrap_domain = ''yore/hk-wrap/v1''"
definition legacy_dek_wrap_domain :: string where "legacy_dek_wrap_domain = ''yore/dek-wrap/v1''"
definition legacy_rec_seal_domain :: string where "legacy_rec_seal_domain = ''yore/rec/v1''"
definition device_prefix :: string where "device_prefix = ''yore-device2.''"

definition key_size :: nat where "key_size = 32"
definition nonce_size :: nat where "nonce_size = 24"

definition bar :: string where "bar = ''|''"

definition is_all_zero :: "string \<Rightarrow> bool" where
  "is_all_zero b \<longleftrightarrow> list_all (\<lambda>c. c = CHR 0x00) b"


subsection \<open>Authenticated encryption\<close>

definition seal_aead :: "cbox \<Rightarrow> string \<Rightarrow> key \<Rightarrow> string \<Rightarrow> string \<Rightarrow> string" where
  "seal_aead X nonce k plaintext aad = nonce @ cx_seal X k nonce plaintext aad"

definition open_aead :: "cbox \<Rightarrow> key \<Rightarrow> string \<Rightarrow> string \<Rightarrow> crypto_error + string" where
  "open_aead X k blob aad =
    (if length blob < nonce_size then Inl Truncated
     else case cx_open X k (take nonce_size blob) (drop nonce_size blob) aad of
       None \<Rightarrow> Inl NotAuthentic
     | Some pt \<Rightarrow> Inr pt)"


subsection \<open>Records\<close>

record record_aad =
  ad_record_id :: string
  ad_host_id :: string
  ad_seq :: u64
  ad_key_id :: string

text \<open>\<open>strconv.FormatUint\<close>, and the AAD string under a domain separator.\<close>

definition format_uint :: "u64 \<Rightarrow> string" where "format_uint w = nat_digits (unat w)"

definition aad_bytes :: "string \<Rightarrow> record_aad \<Rightarrow> string" where
  "aad_bytes domain a =
    domain @ bar @ ad_record_id a @ bar @ ad_host_id a @ bar @ format_uint (ad_seq a) @ bar @ ad_key_id a"

definition seal_record :: "cbox \<Rightarrow> string \<Rightarrow> string \<Rightarrow> key \<Rightarrow> record_aad \<Rightarrow> string" where
  "seal_record X nonce plaintext dek a = seal_aead X nonce dek plaintext (aad_bytes rec_seal_domain a)"

definition open_record :: "cbox \<Rightarrow> string \<Rightarrow> key \<Rightarrow> record_aad \<Rightarrow> crypto_error + string" where
  "open_record X blob dek a =
    (case open_aead X dek blob (aad_bytes rec_seal_domain a) of
       Inr pt \<Rightarrow> Inr pt
     | Inl e \<Rightarrow>
         (case open_aead X dek blob (aad_bytes legacy_rec_seal_domain a) of
            Inr pt \<Rightarrow> Inr pt
          | Inl _ \<Rightarrow> Inl e))"


subsection \<open>Data keys\<close>

definition dek_aad :: "string \<Rightarrow> string \<Rightarrow> string \<Rightarrow> int \<Rightarrow> int \<Rightarrow> string" where
  "dek_aad domain key_id device_id epoch hk_version =
    domain @ bar @ key_id @ bar @ device_id @ bar @ format_int epoch @ bar @ format_int hk_version"

definition wrap_dek ::
  "cbox \<Rightarrow> string \<Rightarrow> key \<Rightarrow> key \<Rightarrow> string \<Rightarrow> string \<Rightarrow> int \<Rightarrow> int \<Rightarrow> string" where
  "wrap_dek X nonce dek hk key_id device_id epoch hk_version =
    seal_aead X nonce hk dek (dek_aad dek_wrap_domain key_id device_id epoch hk_version)"

definition unwrap_dek ::
  "cbox \<Rightarrow> string \<Rightarrow> key \<Rightarrow> string \<Rightarrow> string \<Rightarrow> int \<Rightarrow> int \<Rightarrow> crypto_error + key" where
  "unwrap_dek X blob hk key_id device_id epoch hk_version =
    (case (case open_aead X hk blob (dek_aad dek_wrap_domain key_id device_id epoch hk_version) of
             Inr pt \<Rightarrow> Inr pt
           | Inl e \<Rightarrow>
               (case open_aead X hk blob (dek_aad legacy_dek_wrap_domain key_id device_id epoch hk_version) of
                  Inr pt \<Rightarrow> Inr pt
                | Inl _ \<Rightarrow> Inl e)) of
       Inl e \<Rightarrow> Inl e
     | Inr pt \<Rightarrow> if length pt \<noteq> key_size then Inl KeyLength else Inr pt)"

text \<open>\<open>EpochStart\<close>: \<open>t\<close> and \<open>width\<close> in nanoseconds; Go's \<open>%\<close> truncates, the code makes it floor.\<close>

definition epoch_start :: "int \<Rightarrow> int \<Rightarrow> int" where
  "epoch_start ms width =
    (let w = (if width < 0 then - (- width div 1000000) else width div 1000000)
     in if w \<le> 0 then ms
        else let r = (if ms < 0 then - (- ms mod w) else ms mod w);
                 r' = (if r < 0 then r + w else r)
             in wrap64 (ms - r'))"


subsection \<open>Device keys\<close>

record device_key =
  kx_priv :: key
  kx_pub :: key
  kx_seed :: key
  kx_sign_priv :: string
  kx_sign_pub :: string

definition derive_sign :: "cbox \<Rightarrow> device_key \<Rightarrow> device_key" where
  "derive_sign X k =
    (let p = cx_ed_key X (kx_seed k) in k\<lparr>kx_sign_priv := p, kx_sign_pub := cx_ed_pub X p\<rparr>)"

definition generate_device_key :: "cbox \<Rightarrow> string \<Rightarrow> string \<Rightarrow> crypto_error + device_key" where
  "generate_device_key X priv seed =
    (case cx_dh X priv (cx_base X) of
       None \<Rightarrow> Inl CurveError
     | Some pub \<Rightarrow>
         Inr (derive_sign X \<lparr>kx_priv = priv, kx_pub = pub, kx_seed = seed, kx_sign_priv = [], kx_sign_pub = []\<rparr>))"

definition public_from_bytes :: "string \<Rightarrow> crypto_error + key" where
  "public_from_bytes b = (if length b \<noteq> key_size then Inl KeyLength else Inr b)"

definition marshal_device_key :: "device_key \<Rightarrow> string" where
  "marshal_device_key k = device_prefix @ b64_encode (kx_priv k @ kx_pub k @ kx_seed k)"

definition parse_device_key :: "cbox \<Rightarrow> string \<Rightarrow> crypto_error + device_key" where
  "parse_device_key X s =
    (let line = trim_space s
     in if \<not> has_prefix line device_prefix then Inl KeyFormat
        else case b64_decode (trim_prefix line device_prefix) of
          None \<Rightarrow> Inl KeyFormat
        | Some raw \<Rightarrow>
            if length raw \<noteq> 3 * key_size then Inl KeyFormat
            else
              let k = derive_sign X \<lparr>kx_priv = take key_size raw, kx_pub = take key_size (drop key_size raw),
                    kx_seed = drop (2 * key_size) raw, kx_sign_priv = [], kx_sign_pub = []\<rparr>
              in case cx_dh X (kx_priv k) (cx_base X) of
                   None \<Rightarrow> Inl CurveError
                 | Some derived \<Rightarrow> if derived \<noteq> kx_pub k then Inl KeyFormat else Inr k)"


subsection \<open>The History Key\<close>

definition hk_wrap_key :: "cbox \<Rightarrow> string \<Rightarrow> key \<Rightarrow> key \<Rightarrow> key \<Rightarrow> key" where
  "hk_wrap_key X domain shared eph_pub recipient_pub =
    cx_hkdf X shared (domain @ bar @ b64_encode eph_pub @ bar @ b64_encode recipient_pub)"

definition wrap_hk :: "cbox \<Rightarrow> string \<Rightarrow> string \<Rightarrow> key \<Rightarrow> key \<Rightarrow> crypto_error + string" where
  "wrap_hk X eph_priv nonce hk recipient_pub =
    (case cx_dh X eph_priv (cx_base X) of
       None \<Rightarrow> Inl CurveError
     | Some eph_pub \<Rightarrow>
         (case cx_dh X eph_priv recipient_pub of
            None \<Rightarrow> Inl CurveError
          | Some shared \<Rightarrow>
              if is_all_zero shared then Inl LowOrder
              else Inr (eph_pub @ nonce @
                cx_seal X (hk_wrap_key X hk_wrap_domain shared eph_pub recipient_pub) nonce hk hk_wrap_domain)))"

definition unwrap_hk_under :: "cbox \<Rightarrow> string \<Rightarrow> string \<Rightarrow> device_key \<Rightarrow> crypto_error + key" where
  "unwrap_hk_under X domain blob k =
    (if length blob < key_size + nonce_size then Inl Truncated
     else
       let eph_pub = take key_size blob; nonce = take nonce_size (drop key_size blob);
           ct = drop (key_size + nonce_size) blob
       in case cx_dh X (kx_priv k) eph_pub of
            None \<Rightarrow> Inl CurveError
          | Some shared \<Rightarrow>
              if is_all_zero shared then Inl LowOrder
              else case cx_open X (hk_wrap_key X domain shared eph_pub (kx_pub k)) nonce ct domain of
                     None \<Rightarrow> Inl NotAuthentic
                   | Some pt \<Rightarrow> if length pt \<noteq> key_size then Inl KeyLength else Inr pt)"

definition unwrap_hk :: "cbox \<Rightarrow> string \<Rightarrow> device_key \<Rightarrow> crypto_error + key" where
  "unwrap_hk X blob k =
    (case unwrap_hk_under X hk_wrap_domain blob k of
       Inr hk \<Rightarrow> Inr hk
     | Inl e \<Rightarrow>
         (case unwrap_hk_under X legacy_hk_wrap_domain blob k of Inr hk \<Rightarrow> Inr hk | Inl _ \<Rightarrow> Inl e))"


subsection \<open>Recovery\<close>

record recovery_key_set =
  rk_pub :: key
  rk_priv :: key
  rk_sign_priv :: string
  rk_sign_pub :: string

definition recovery_groups :: nat where "recovery_groups = 8"
definition recovery_per_group :: nat where "recovery_per_group = 4"
definition salt_size :: nat where "salt_size = 16"

definition base32_alphabet :: string where
  "base32_alphabet = ''0123456789ABCDEFGHJKMNPQRSTVWXYZ''"

text \<open>The loops of \<open>NewRecoveryPhrase\<close> and \<open>VerificationCode\<close>: groups of symbols joined by dashes.\<close>

definition base32_groups :: "nat \<Rightarrow> nat \<Rightarrow> string \<Rightarrow> string" where
  "base32_groups groups per b =
    join_with ''-'' (map (\<lambda>g. map (\<lambda>i. base32_alphabet ! (byte (b ! (g * per + i)) mod 32)) [0 ..< per]) [0 ..< groups])"

definition new_recovery_phrase :: "string \<Rightarrow> string" where
  "new_recovery_phrase b = base32_groups recovery_groups recovery_per_group b"

text \<open>\<open>up\<close> is \<open>unicode.ToUpper\<close> outside ASCII.\<close>

definition rune_upper :: "(rune \<Rightarrow> rune) \<Rightarrow> rune \<Rightarrow> rune" where
  "rune_upper up r = (if r < 128 then (if 97 \<le> r \<and> r \<le> 122 then r - 32 else r) else up r)"

definition normalize_recovery_phrase :: "(rune \<Rightarrow> rune) \<Rightarrow> string \<Rightarrow> string" where
  "normalize_recovery_phrase up s =
    concat (map encode_rune (filter (\<lambda>r. \<not> (r = 45 \<or> r = 32 \<or> r = 9))
      (map (rune_upper up) (runes (trim_space s)))))"

definition derive_recovery_key ::
  "cbox \<Rightarrow> (rune \<Rightarrow> rune) \<Rightarrow> string \<Rightarrow> string \<Rightarrow> crypto_error + recovery_key_set" where
  "derive_recovery_key X up phrase salt =
    (let norm = normalize_recovery_phrase up phrase
     in if norm = [] then Inl KeyFormat
        else if length salt \<noteq> salt_size then Inl KeyLength
        else
          let out = cx_argon X norm salt; priv = take key_size out
          in case cx_dh X priv (cx_base X) of
               None \<Rightarrow> Inl CurveError
             | Some pub \<Rightarrow>
                 let sp = cx_ed_key X (drop key_size out)
                 in Inr \<lparr>rk_pub = pub, rk_priv = priv, rk_sign_priv = sp, rk_sign_pub = cx_ed_pub X sp\<rparr>)"

definition device_key_for :: "recovery_key_set \<Rightarrow> device_key" where
  "device_key_for k = \<lparr>kx_priv = rk_priv k, kx_pub = rk_pub k, kx_seed = replicate key_size CHR 0x00,
     kx_sign_priv = rk_sign_priv k, kx_sign_pub = rk_sign_pub k\<rparr>"

text \<open>\<open>VerificationCode\<close> of \<open>internal/syncer\<close>, over the sum of the public key.\<close>

definition verification_code :: "(string \<Rightarrow> string) \<Rightarrow> key \<Rightarrow> string" where
  "verification_code H pub = base32_groups 6 4 (H (''github.com/mach6/yore/verify/v1|'' @ pub))"


section \<open>Correctness\<close>

text \<open>
  What the code relies on. An AEAD opens what it sealed, and a blob that opens is the sealing of what
  came out; X25519 of the base point always yields a key, two honest keys agree, on something not zero.
\<close>

locale sealed_box =
  fixes X :: cbox
  assumes open_seal: "cx_open X k n (cx_seal X k n p a) a = Some p"
    and open_sealed: "cx_open X k n c a = Some p \<Longrightarrow> c = cx_seal X k n p a"
    and dh_base: "length s = 32 \<Longrightarrow> \<exists>p. cx_dh X s (cx_base X) = Some p"
    and dh_length: "cx_dh X s p = Some q \<Longrightarrow> length q = 32"
    and dh_agree: "cx_dh X s (cx_base X) = Some A \<Longrightarrow> cx_dh X t (cx_base X) = Some B \<Longrightarrow>
      cx_dh X s B = cx_dh X t A"
    and dh_nonzero: "cx_dh X s (cx_base X) = Some A \<Longrightarrow> cx_dh X t (cx_base X) = Some B \<Longrightarrow>
      \<exists>Z. cx_dh X s B = Some Z \<and> \<not> is_all_zero Z"
begin

lemma open_aead_seal: "length nonce = 24 \<Longrightarrow> open_aead X k (seal_aead X nonce k p a) a = Inr p"
  by (simp add: open_aead_def seal_aead_def nonce_size_def open_seal)

lemma open_aead_sealed:
  assumes "open_aead X k blob a = Inr p"
  shows "blob = seal_aead X (take 24 blob) k p a \<and> 24 \<le> length blob"
proof -
  from assms have "24 \<le> length blob" "cx_open X k (take 24 blob) (drop 24 blob) a = Some p"
    by (auto simp: open_aead_def nonce_size_def split: if_splits option.splits)
  with open_sealed [of k "take 24 blob" "drop 24 blob" a p] show ?thesis
    by (metis append_take_drop_id seal_aead_def)
qed

lemma open_record_seal: "length nonce = 24 \<Longrightarrow> open_record X (seal_record X nonce p dek a) dek a = Inr p"
  by (simp add: open_record_def seal_record_def open_aead_seal)

lemma open_record_sealed:
  assumes "open_record X blob dek a = Inr p"
  obtains d where "d \<in> {rec_seal_domain, legacy_rec_seal_domain}"
    and "blob = seal_aead X (take 24 blob) dek p (aad_bytes d a)" and "24 \<le> length blob"
  using assms by (auto simp: open_record_def split: sum.splits dest!: open_aead_sealed)

lemma unwrap_wrap_dek:
  "length nonce = 24 \<Longrightarrow> length dek = 32 \<Longrightarrow>
    unwrap_dek X (wrap_dek X nonce dek hk i d e v) hk i d e v = Inr dek"
  by (simp add: unwrap_dek_def wrap_dek_def open_aead_seal key_size_def)

lemma generated:
  assumes "generate_device_key X priv seed = Inr k"
  shows "cx_dh X priv (cx_base X) = Some (kx_pub k)" "kx_priv k = priv" "kx_seed k = seed"
    "k = derive_sign X k"
  using assms by (auto simp: generate_device_key_def derive_sign_def Let_def split: option.splits)

lemma unwrap_wrap_hk:
  assumes "cx_dh X (kx_priv k) (cx_base X) = Some (kx_pub k)"
    and "length nonce = 24" and "length eph = 32" and "length hk = 32"
  shows "\<exists>blob. wrap_hk X eph nonce hk (kx_pub k) = Inr blob \<and> unwrap_hk X blob k = Inr hk"
proof -
  obtain E where E: "cx_dh X eph (cx_base X) = Some E" using dh_base [OF assms(3)] by blast
  obtain Z where Z: "cx_dh X eph (kx_pub k) = Some Z" "\<not> is_all_zero Z" using dh_nonzero [OF E assms(1)] by blast
  moreover have "cx_dh X (kx_priv k) E = Some Z" using dh_agree [OF E assms(1)] Z by simp
  ultimately show ?thesis using E dh_length [OF E] assms(2,4)
    by (simp add: wrap_hk_def unwrap_hk_def unwrap_hk_under_def key_size_def nonce_size_def open_seal Let_def)
qed

end


subsection \<open>The AAD names its position\<close>

lemma split_at_bar:
  assumes "CHR ''|'' \<notin> set a" and "CHR ''|'' \<notin> set b" and "a @ bar @ s = b @ bar @ t"
  shows "a = b \<and> s = t"
  using assms
proof (induction a arbitrary: b)
  case Nil
  then show ?case by (cases b) (auto simp: bar_def)
next
  case (Cons x a)
  then show ?case by (cases b) (auto simp: bar_def)
qed

lemma nat_digits_inject: "nat_digits m = nat_digits n \<longleftrightarrow> m = n"
  using nat_digits_correct by metis

lemma nat_digits_no_bar: "CHR ''|'' \<notin> set (nat_digits n)"
proof
  assume "CHR ''|'' \<in> set (nat_digits n)"
  with nat_digits_correct [of n] have "is_digit_byte CHR ''|''" by (auto simp: all_digits_def list_all_iff)
  then show False by (simp add: is_digit_byte_iff byte_def)
qed

lemma format_uint_inject: "format_uint v = format_uint w \<longleftrightarrow> v = w"
  by (simp add: format_uint_def nat_digits_inject word_unat_eq_iff)

lemma aad_inject:
  assumes "aad_bytes d a = aad_bytes d b"
    and "CHR ''|'' \<notin> set (ad_record_id a)" "CHR ''|'' \<notin> set (ad_record_id b)"
    and "CHR ''|'' \<notin> set (ad_host_id a)" "CHR ''|'' \<notin> set (ad_host_id b)"
  shows "a = b"
proof -
  from assms(1) have "ad_record_id a @ bar @ ad_host_id a @ bar @ format_uint (ad_seq a) @ bar @ ad_key_id a =
      ad_record_id b @ bar @ ad_host_id b @ bar @ format_uint (ad_seq b) @ bar @ ad_key_id b"
    by (simp add: aad_bytes_def bar_def)
  from split_at_bar [OF assms(2,3) this] have 1: "ad_record_id a = ad_record_id b"
    and "ad_host_id a @ bar @ format_uint (ad_seq a) @ bar @ ad_key_id a =
      ad_host_id b @ bar @ format_uint (ad_seq b) @ bar @ ad_key_id b" by auto
  from split_at_bar [OF assms(4,5) this(2)] have 2: "ad_host_id a = ad_host_id b"
    and "format_uint (ad_seq a) @ bar @ ad_key_id a = format_uint (ad_seq b) @ bar @ ad_key_id b" by auto
  from split_at_bar [OF _ _ this(2)] have "ad_seq a = ad_seq b" "ad_key_id a = ad_key_id b"
    by (auto simp: format_uint_def nat_digits_no_bar nat_digits_inject word_unat_eq_iff)
  with 1 2 show ?thesis by simp
qed

lemma aad_domains: "aad_bytes rec_seal_domain a \<noteq> aad_bytes legacy_rec_seal_domain b"
  by (simp add: aad_bytes_def rec_seal_domain_def legacy_rec_seal_domain_def)


subsection \<open>Base64 and base32 text\<close>

definition plain_byte :: "char \<Rightarrow> bool" where
  "plain_byte c \<longleftrightarrow> ascii_byte c \<and> \<not> rune_is_space (byte c)"

lemma chunks_plain: "list_all ascii_byte s \<Longrightarrow> chunks s = map (\<lambda>c. (byte c, [c])) s"
  by (induction s) (simp_all add: chunks_ascii)

lemma trim_space_plain: "list_all plain_byte s \<Longrightarrow> trim_space s = s"
proof -
  assume p: "list_all plain_byte s"
  then have "list_all ascii_byte s" by (auto simp: list_all_iff plain_byte_def)
  then have c: "chunks s = map (\<lambda>c. (byte c, [c])) s" by (rule chunks_plain)
  have drop: "dropWhile (\<lambda>(r, _). rune_is_space r) (map (\<lambda>c. (byte c, [c])) t) = map (\<lambda>c. (byte c, [c])) t"
    if "set t \<subseteq> set s" for t
    using that p by (cases t) (auto simp: list_all_iff plain_byte_def)
  have snd: "concat (map snd (map (\<lambda>c. (byte c, [c])) t)) = t" for t by (induction t) auto
  have "trim_space s = concat (map snd (map (\<lambda>c. (byte c, [c])) s))"
    unfolding trim_space_def c drop [OF subset_refl] rev_map [symmetric]
    by (simp add: drop rev_map del: map_map)
  with snd show ?thesis by simp
qed

lemma b64_alphabet_plain: "list_all plain_byte b64_alphabet"
  by (simp add: b64_alphabet_def plain_byte_def ascii_byte_def byte_def rune_is_space_def)

lemma b64_encode_plain: "list_all plain_byte (b64_encode s)"
proof -
  have "\<forall>n \<in> set (map byte s). n < 256" by (simp add: byte_def)
  then have "\<forall>n \<in> set (b64_groups (map byte s)). n < 64" using b64_groups_small by blast
  then show ?thesis using b64_alphabet_plain
    by (auto simp: b64_encode_def list_all_iff length_alphabet)
qed



subsection \<open>An instance of the primitives\<close>

text \<open>
  Keys are agreed in the odd residues modulo 256, bytewise; a sealed text carries its key, nonce and
  additional data behind the plaintext.
\<close>

definition odd_byte :: "char \<Rightarrow> nat" where "odd_byte c = 2 * byte c + 1"

definition demo_box :: cbox where
  "demo_box = \<lparr>
     cx_seal = (\<lambda>k n p a. p @ k @ n @ a),
     cx_open = (\<lambda>k n c a. let t = k @ n @ a; m = length c - length t
       in if length t \<le> length c \<and> drop m c = t then Some (take m c) else None),
     cx_dh = (\<lambda>s p. if length s = 32 \<and> length p = 32
       then Some (map2 (\<lambda>x y. char_of (odd_byte x * byte y)) s p) else None),
     cx_base = replicate 32 CHR 0x01,
     cx_hkdf = (\<lambda>s i. take 32 (s @ i)),
     cx_argon = (\<lambda>p s. take 64 (p @ replicate 64 CHR 0x00)),
     cx_ed_key = (\<lambda>s. s), cx_ed_pub = (\<lambda>s. s), cx_ed_sign = (\<lambda>k m. CHR ''s'' # m)\<rparr>"

lemma byte_of_nat [simp]: "byte (char_of n) = n mod 256"
  by (simp add: byte_def)

lemma demo_base: "length s = 32 \<Longrightarrow>
    cx_dh demo_box s (cx_base demo_box) = Some (map (\<lambda>x. char_of (odd_byte x)) s)"
  by (auto simp: demo_box_def byte_def [of "CHR 0x01"] intro!: nth_equalityI)

lemma odd_mult: "char_of (odd_byte x * (odd_byte y mod 256)) \<noteq> CHR 0x00"
proof
  assume z: "char_of (odd_byte x * (odd_byte y mod 256)) = CHR 0x00"
  have "byte CHR 0x00 = 0" by (simp add: byte_def)
  then have "(odd_byte x * odd_byte y) mod 256 = 0"
    using byte_of_nat [of "odd_byte x * (odd_byte y mod 256)"] unfolding z by (simp only: mod_mult_right_eq)
  then have "2 dvd odd_byte x * odd_byte y" using dvd_trans [of 2 256 "odd_byte x * odd_byte y"] by auto
  moreover have "odd (odd_byte x)" "odd (odd_byte y)" by (simp_all add: odd_byte_def)
  ultimately show False by simp
qed

interpretation demo_box: sealed_box demo_box
proof
  fix k n p a c assume "cx_open demo_box k n c a = Some p"
  then show "c = cx_seal demo_box k n p a"
    by (auto simp: demo_box_def Let_def split: if_splits) (metis append_take_drop_id)
next
  fix s t A B assume A: "cx_dh demo_box s (cx_base demo_box) = Some A" and B: "cx_dh demo_box t (cx_base demo_box) = Some B"
  then have len: "length s = 32" "length t = 32" by (auto simp: demo_box_def split: if_splits)
  with A B have AB: "A = map (\<lambda>x. char_of (odd_byte x)) s" "B = map (\<lambda>x. char_of (odd_byte x)) t"
    by (simp_all add: demo_base)
  show "cx_dh demo_box s B = cx_dh demo_box t A"
    using len by (auto simp: AB demo_box_def mod_mult_right_eq mult.commute intro!: nth_equalityI)
  let ?Z = "map2 (\<lambda>x y. char_of (odd_byte x * byte y)) s B"
  obtain x xs y ys where "s = x # xs" "B = char_of (odd_byte y) # ys"
    using len AB by (cases s; cases t) auto
  then have "hd ?Z = char_of (odd_byte x * (odd_byte y mod 256))" "?Z \<noteq> []" by auto
  moreover note odd_mult [of x y]
  ultimately have "\<not> is_all_zero ?Z" by (cases ?Z) (auto simp: is_all_zero_def)
  then show "\<exists>Z. cx_dh demo_box s B = Some Z \<and> \<not> is_all_zero Z"
    using len by (simp add: AB demo_box_def)
qed (auto simp: demo_box_def Let_def split: if_splits)


lemma marshal_plain: "list_all plain_byte (marshal_device_key k)"
  using b64_encode_plain by (simp add: marshal_device_key_def device_prefix_def plain_byte_def
    ascii_byte_def byte_def rune_is_space_def)

lemma parse_marshal:
  assumes "sealed_box X" and "generate_device_key X priv seed = Inr k" and "length priv = 32" and "length seed = 32"
  shows "parse_device_key X (marshal_device_key k) = Inr k"
proof -
  note g = sealed_box.generated [OF assms(1,2)]
  have pub: "length (kx_pub k) = 32" by (rule sealed_box.dh_length [OF assms(1) g(1)])
  have "trim_space (marshal_device_key k) = marshal_device_key k" by (rule trim_space_plain) (rule marshal_plain)
  then have "parse_device_key X (marshal_device_key k) = Inr (derive_sign X k)"
    using g(1-3) pub assms(3,4)
    by (simp add: parse_device_key_def marshal_device_key_def has_prefix_def trim_prefix_def b64_round_trip
      key_size_def derive_sign_def Let_def)
  with g(4) show ?thesis by simp
qed

subsection \<open>Properties\<close>

text \<open>C23 A device can open what is wrapped for it: the History Key wrapped for a generated device key's
  public half is unwrapped by that key, after the key was written out and read back.\<close>

theorem device_unwraps_hk:
  assumes "sealed_box X" and "generate_device_key X priv seed = Inr k"
    and "length priv = 32" and "length seed = 32"
    and "length eph = 32" and "length nonce = 24" and "length hk = 32"
  shows "parse_device_key X (marshal_device_key k) = Inr k \<and>
    (\<exists>blob. wrap_hk X eph nonce hk (kx_pub k) = Inr blob \<and> unwrap_hk X blob k = Inr hk)"
  using parse_marshal [OF assms(1-4)] sealed_box.unwrap_wrap_hk [OF assms(1), of k nonce eph hk]
    sealed_box.generated [OF assms(1,2)] assms(5-7) by auto

lemma device_unwraps_hk_witness:
  "\<exists>k blob. generate_device_key demo_box (replicate 32 CHR ''p'') (replicate 32 CHR ''s'') = Inr k \<and>
    wrap_hk demo_box (replicate 32 CHR ''e'') (replicate 24 CHR ''n'') (replicate 32 CHR ''h'') (kx_pub k) = Inr blob \<and>
    unwrap_hk demo_box blob k = Inr (replicate 32 CHR ''h'')"
proof -
  obtain k where k: "generate_device_key demo_box (replicate 32 CHR ''p'') (replicate 32 CHR ''s'') = Inr k"
    by (simp add: generate_device_key_def demo_base)
  from device_unwraps_hk [OF demo_box.sealed_box_axioms k, of "replicate 32 CHR ''e''" "replicate 24 CHR ''n''"
      "replicate 32 CHR ''h''"] k show ?thesis by simp
qed

text \<open>C19 A sealed record cannot be moved: if one blob opens under the same data key at two positions whose
  ids hold no bar, either the positions are the same or the blob is one ciphertext sealed under two
  different additional-data strings.\<close>

theorem record_position_bound:
  assumes "sealed_box X" and "open_record X blob dek a = Inr p" and "open_record X blob dek b = Inr q"
    and "\<forall>s \<in> {ad_record_id a, ad_record_id b, ad_host_id a, ad_host_id b}. CHR ''|'' \<notin> set s"
  shows "a = b \<or> (\<exists>n s t. s \<noteq> t \<and> seal_aead X n dek p s = blob \<and> seal_aead X n dek q t = blob)"
proof (cases "a = b")
  case False
  obtain d where d: "d \<in> {rec_seal_domain, legacy_rec_seal_domain}"
      "blob = seal_aead X (take 24 blob) dek p (aad_bytes d a)" "24 \<le> length blob"
    by (rule sealed_box.open_record_sealed [OF assms(1,2)])
  obtain e where e: "e \<in> {rec_seal_domain, legacy_rec_seal_domain}"
      "blob = seal_aead X (take 24 blob) dek q (aad_bytes e b)" "24 \<le> length blob"
    by (rule sealed_box.open_record_sealed [OF assms(1,3)])
  have "aad_bytes d a \<noteq> aad_bytes e b"
  proof (cases "d = e")
    case True
    with aad_inject [of d a b] False assms(4) show ?thesis by auto
  next
    case False
    with d(1) e(1) show ?thesis using aad_domains [of a b] aad_domains [of b a] by auto
  qed
  with d(2) e(2) show ?thesis by metis
qed simp

lemma record_position_bound_witness:
  "let a = \<lparr>ad_record_id = ''r'', ad_host_id = ''h'', ad_seq = 1, ad_key_id = ''n''\<rparr>;
       n = replicate 24 CHR ''n''
   in open_record demo_box (seal_record demo_box n ''cmd'' ''k'' a) ''k'' a = Inr ''cmd'' \<and>
     (a = a \<or> (\<exists>n' s t. s \<noteq> t \<and> seal_aead demo_box n' ''k'' ''cmd'' s = seal_record demo_box n ''cmd'' ''k'' a \<and>
       seal_aead demo_box n' ''k'' ''cmd'' t = seal_record demo_box n ''cmd'' ''k'' a))"
proof -
  let ?a = "\<lparr>ad_record_id = ''r'', ad_host_id = ''h'', ad_seq = 1, ad_key_id = ''n''\<rparr>"
  have "open_record demo_box (seal_record demo_box (replicate 24 CHR ''n'') ''cmd'' ''k'' ?a) ''k'' ?a = Inr ''cmd''"
    by (rule demo_box.open_record_seal) simp
  from record_position_bound [OF demo_box.sealed_box_axioms this this] this show ?thesis by simp
qed

text \<open>Epochs tile the time line: with a positive width in milliseconds, the epoch of a time starts at the
  multiple of the width at or just before it, so every device computes the same boundary.\<close>

theorem epoch_start_tiles:
  assumes "0 < width div 1000000" and "int64 ms" and "int64 (ms - width div 1000000)"
  shows "epoch_start ms width = ms div (width div 1000000) * (width div 1000000)"
proof -
  let ?w = "width div 1000000"
  have "0 \<le> width" using assms(1) by presburger
  define r where "r = (if ms < 0 then - (- ms mod ?w) else ms mod ?w)"
  have r: "(if r < 0 then r + ?w else r) = ms mod ?w"
    using assms(1) unfolding r_def
    by (auto simp: zmod_zminus1_eq_if split: if_splits) (use pos_mod_sign [of ?w ms] in linarith)+
  have "0 \<le> ms mod ?w" "ms mod ?w < ?w" using assms(1) by simp_all
  then have "int64 (ms - ms mod ?w)" using assms(2,3) by (auto simp: int64_def)
  moreover have "ms - ms mod ?w = ms div ?w * ?w" by (simp add: minus_mod_eq_div_mult)
  ultimately show ?thesis
    using \<open>0 \<le> width\<close> assms(1) r
    by (simp add: epoch_start_def Let_def r_def [symmetric] wrap64_id)
qed

lemma epoch_start_tiles_witness:
  "epoch_start (- 1) (86400000000000) = - 86400000"
  by (subst epoch_start_tiles) (simp_all add: int64_def)

end
