(* ===== verification/Syncer.thy ===== *)
theory Syncer
  imports Cryptobox Store Wire
begin

text \<open>
  \<open>internal/syncer\<close>: the sync engine of one machine. Its state is the record \<open>syncer\<close> (identity and the
  key caches in RAM), the local history store, and a world \<open>'w\<close> outside: the network, the server, the
  random source. The methods of \<open>HTTPClient\<close> are the fields of a record \<open>api\<close>, so the engine is written
  over any transport. A step takes the whole \<open>rig\<close> and gives it back with a result or an error.
  The JSON encoding of a record's payload is the record \<open>codec\<close>.
\<close>

datatype net_error =
    ApiError nat string string
  | Transport

datatype sync_error =
    Net net_error
  | Crypto crypto_error
  | StoreFailed store_error
  | NoHistoryKey
  | NoProgress u64
  | NoDekWrap string
  | BadPayload
  | BadWatermark string
  | NoSurvivors
  | DeviceNotFound string
  | NoKeyHeld

text \<open>\<open>HTTPClient\<close>, and what the engine draws from \<open>crypto/rand\<close> and \<open>rec.NewID\<close>.\<close>

record 'w api =
  ap_hosts :: "'w \<Rightarrow> 'w \<times> (net_error + host_info list)"
  ap_push :: "push_req \<Rightarrow> 'w \<Rightarrow> 'w \<times> (net_error + push_resp)"
  ap_pull :: "string \<Rightarrow> u64 \<Rightarrow> nat \<Rightarrow> 'w \<Rightarrow> 'w \<times> (net_error + pull_resp)"
  ap_hk_wrap :: "string \<Rightarrow> 'w \<Rightarrow> 'w \<times> (net_error + hk_wrap)"
  ap_list_dek :: "string \<Rightarrow> nat \<Rightarrow> 'w \<Rightarrow> 'w \<times> (net_error + dek_list_resp)"
  ap_upload_dek :: "dek_wrap list \<Rightarrow> 'w \<Rightarrow> 'w \<times> (net_error + int)"
  ap_register :: "register_req \<Rightarrow> string \<Rightarrow> 'w \<Rightarrow> 'w \<times> (net_error + register_resp)"
  ap_activate :: "string \<Rightarrow> hk_wrap \<Rightarrow> 'w \<Rightarrow> 'w \<times> (net_error + unit)"
  ap_revoke :: "string \<Rightarrow> 'w \<Rightarrow> 'w \<times> (net_error + unit)"
  ap_devices :: "'w \<Rightarrow> 'w \<times> (net_error + device list)"
  ap_rotate :: "rotate_req \<Rightarrow> 'w \<Rightarrow> 'w \<times> (net_error + unit)"
  ap_init_recovery :: "recovery_init \<Rightarrow> 'w \<Rightarrow> 'w \<times> (net_error + unit)"
  ap_recovery_pub :: "'w \<Rightarrow> 'w \<times> (net_error + string)"
  ap_random :: "nat \<Rightarrow> 'w \<Rightarrow> 'w \<times> string"
  ap_new_id :: "'w \<Rightarrow> 'w \<times> string"

record syncer =
  sy_device :: string
  sy_key :: device_key
  sy_epoch :: int
  sy_sync_prompts :: bool
  sy_hk :: "(key \<times> int) option"
  sy_by_epoch :: "int \<Rightarrow> (string \<times> key) option"
  sy_by_key :: "string \<Rightarrow> key option"
  sy_wraps :: "string \<Rightarrow> dek_wrap option"

text \<open>\<open>New\<close>: the device id is the store's host id.\<close>

definition new_syncer :: "'b store \<Rightarrow> device_key \<Rightarrow> int \<Rightarrow> syncer" where
  "new_syncer st dev epoch = \<lparr>sy_device = st_host_id st, sy_key = dev, sy_epoch = epoch,
     sy_sync_prompts = True, sy_hk = None, sy_by_epoch = Map.empty, sy_by_key = Map.empty,
     sy_wraps = Map.empty\<rparr>"

definition set_sync_prompts :: "bool \<Rightarrow> syncer \<Rightarrow> syncer" where
  "set_sync_prompts v sy = sy\<lparr>sy_sync_prompts := v\<rparr>"

definition pushable :: "syncer \<Rightarrow> hrec \<Rightarrow> bool" where
  "pushable sy r \<longleftrightarrow> r_type r \<noteq> type_prompt \<or> sy_sync_prompts sy"

record ('w, 'b) rig =
  rg_world :: 'w
  rg_sync :: syncer
  rg_store :: "'b store"

text \<open>A step, and steps in sequence: the first error ends the run.\<close>

type_synonym ('w, 'b, 'a) step = "('w, 'b) rig \<Rightarrow> ('w, 'b) rig \<times> (sync_error + 'a)"

definition give :: "'a \<Rightarrow> ('w, 'b, 'a) step" where "give x g = (g, Inr x)"

definition fail_with :: "sync_error \<Rightarrow> ('w, 'b, 'a) step" where "fail_with e g = (g, Inl e)"

definition andthen :: "('w, 'b, 'a) step \<Rightarrow> ('a \<Rightarrow> ('w, 'b, 'c) step) \<Rightarrow> ('w, 'b, 'c) step" where
  "andthen m f g = (case m g of (g', Inl e) \<Rightarrow> (g', Inl e) | (g', Inr x) \<Rightarrow> f x g')"

definition net :: "('w \<Rightarrow> 'w \<times> (net_error + 'a)) \<Rightarrow> ('w, 'b, 'a) step" where
  "net f g = (case f (rg_world g) of
     (w, Inl e) \<Rightarrow> (g\<lparr>rg_world := w\<rparr>, Inl (Net e))
   | (w, Inr x) \<Rightarrow> (g\<lparr>rg_world := w\<rparr>, Inr x))"

definition draw :: "('w \<Rightarrow> 'w \<times> 'a) \<Rightarrow> ('w, 'b, 'a) step" where
  "draw f g = (case f (rg_world g) of (w, x) \<Rightarrow> (g\<lparr>rg_world := w\<rparr>, Inr x))"

definition crypto_step :: "crypto_error + 'a \<Rightarrow> ('w, 'b, 'a) step" where
  "crypto_step r = (case r of Inl e \<Rightarrow> fail_with (Crypto e) | Inr x \<Rightarrow> give x)"

definition with_sync :: "(syncer \<Rightarrow> ('w, 'b, 'a) step) \<Rightarrow> ('w, 'b, 'a) step" where
  "with_sync f g = f (rg_sync g) g"

definition put_sync :: "(syncer \<Rightarrow> syncer) \<Rightarrow> ('w, 'b, unit) step" where
  "put_sync f g = (g\<lparr>rg_sync := f (rg_sync g)\<rparr>, Inr ())"


subsection \<open>The payload of a record\<close>

record payload =
  pd_v :: int
  pd_id :: string
  pd_host_id :: string
  pd_hostname :: string
  pd_session :: string
  pd_cmd :: string
  pd_cwd :: string
  pd_exit :: "int option"
  pd_dur_ms :: "int option"
  pd_start_ms :: int
  pd_executor :: string
  pd_type :: string
  pd_target_id :: string
  pd_prompt_id :: string
  pd_prompt :: string
  pd_tag_name :: string
  pd_tag_desc :: string
  pd_tag_op :: string

record codec =
  cd_encode :: "payload \<Rightarrow> string"
  cd_decode :: "string \<Rightarrow> payload option"

definition payload_of :: "hrec \<Rightarrow> payload" where
  "payload_of r =
    \<lparr>pd_v = 2, pd_id = r_id r, pd_host_id = r_host_id r, pd_hostname = r_hostname r,
     pd_session = r_session r, pd_cmd = r_cmd r, pd_cwd = r_cwd r, pd_exit = r_exit r,
     pd_dur_ms = r_dur_ms r, pd_start_ms = r_start_ms r, pd_executor = r_executor r,
     pd_type = r_type r, pd_target_id = r_target_id r, pd_prompt_id = r_prompt_id r,
     pd_prompt = r_prompt r, pd_tag_name = r_tag_name r, pd_tag_desc = r_tag_desc r,
     pd_tag_op = r_tag_op r\<rparr>"

definition marshal_payload :: "codec \<Rightarrow> hrec \<Rightarrow> string" where
  "marshal_payload C r = cd_encode C (payload_of r)"

definition record_of_payload :: "payload \<Rightarrow> string \<Rightarrow> u64 \<Rightarrow> string \<Rightarrow> hrec" where
  "record_of_payload p host sq key_id =
    \<lparr>r_id = pd_id p, r_type = pd_type p, r_target_id = pd_target_id p, r_host_id = host,
     r_hostname = pd_hostname p, r_seq = sq, r_session = pd_session p, r_cmd = pd_cmd p,
     r_cwd = pd_cwd p, r_exit = pd_exit p, r_dur_ms = pd_dur_ms p, r_start_ms = pd_start_ms p,
     r_executor = pd_executor p, r_prompt_id = pd_prompt_id p, r_prompt = pd_prompt p,
     r_tag_name = pd_tag_name p, r_tag_desc = pd_tag_desc p, r_tag_op = pd_tag_op p, r_tags = [],
     r_deleted_ms = 0, r_key_id = key_id\<rparr>"

definition record_from_payload ::
  "codec \<Rightarrow> string \<Rightarrow> string \<Rightarrow> u64 \<Rightarrow> string \<Rightarrow> sync_error + hrec" where
  "record_from_payload C pt host sq key_id =
    (case cd_decode C pt of
       None \<Rightarrow> Inl BadPayload
     | Some p \<Rightarrow> Inr (record_of_payload p host sq key_id))"


subsection \<open>The History Key\<close>

text \<open>\<open>GetHKWrap\<close>: a 404 is the normal answer for a device that is not active.\<close>

definition get_hk_wrap :: "'w api \<Rightarrow> string \<Rightarrow> 'w \<Rightarrow> 'w \<times> (net_error + hk_wrap option)" where
  "get_hk_wrap A device w =
    (case ap_hk_wrap A device w of
       (w', Inr wrap) \<Rightarrow> (w', Inr (Some wrap))
     | (w', Inl e) \<Rightarrow>
         (case e of
            ApiError st _ _ \<Rightarrow> if st = 404 then (w', Inr None) else (w', Inl e)
          | Transport \<Rightarrow> (w', Inl e)))"

definition resolve_hk :: "cbox \<Rightarrow> 'w api \<Rightarrow> ('w, 'b, key \<times> int) step" where
  "resolve_hk X A = with_sync (\<lambda>sy.
    case sy_hk sy of
      Some kv \<Rightarrow> give kv
    | None \<Rightarrow>
        andthen (net (get_hk_wrap A (sy_device sy))) (\<lambda>found.
          case found of
            None \<Rightarrow> fail_with NoHistoryKey
          | Some wrap \<Rightarrow>
              andthen (crypto_step (unwrap_hk X (hw_blob wrap) (sy_key sy))) (\<lambda>hk.
              andthen (put_sync (\<lambda>sy. sy\<lparr>sy_hk := Some (hk, hw_hk_version wrap)\<rparr>)) (\<lambda>_.
              give (hk, hw_hk_version wrap)))))"

definition set_hk :: "key \<Rightarrow> int \<Rightarrow> syncer \<Rightarrow> syncer" where
  "set_hk hk version sy = sy\<lparr>sy_hk := Some (hk, version), sy_wraps := Map.empty\<rparr>"


subsection \<open>Pushing\<close>

definition meta_last_uploaded :: string where "meta_last_uploaded = ''last_uploaded_seq''"
definition dek_page_limit :: nat where "dek_page_limit = 1000"
definition push_batch_limit :: nat where "push_batch_limit = 1000"
definition max_push_bytes :: nat where "max_push_bytes = 8 * 1024 * 1024"

definition ensure_push_dek ::
  "cbox \<Rightarrow> 'w api \<Rightarrow> key \<Rightarrow> int \<Rightarrow> int \<Rightarrow> ('w, 'b, string \<times> key) step" where
  "ensure_push_dek X A hk version epoch = with_sync (\<lambda>sy.
    case sy_by_epoch sy epoch of
      Some entry \<Rightarrow> give entry
    | None \<Rightarrow>
        andthen (draw (ap_random A key_size)) (\<lambda>dek.
        andthen (draw (ap_new_id A)) (\<lambda>kid.
        andthen (draw (ap_random A nonce_size)) (\<lambda>nonce.
          let wrap = \<lparr>dk_key_id = kid, dk_device_id = sy_device sy, dk_epoch = epoch,
                dk_blob = wrap_dek X nonce dek hk kid (sy_device sy) epoch version,
                dk_hk_version = version\<rparr>
          in andthen (net (ap_upload_dek A [wrap])) (\<lambda>_.
             andthen (put_sync (\<lambda>sy. sy
               \<lparr>sy_by_epoch := (sy_by_epoch sy)(epoch \<mapsto> (kid, dek)),
                sy_by_key := (sy_by_key sy)(kid \<mapsto> dek),
                sy_wraps := (sy_wraps sy)(kid \<mapsto> wrap)\<rparr>)) (\<lambda>_.
             give (kid, dek)))))))"

text \<open>\<open>base64.StdEncoding.EncodedLen\<close>, and \<open>pushRecordSize\<close>.\<close>

definition encoded_len :: "nat \<Rightarrow> nat" where "encoded_len n = (n + 2) div 3 * 4"

definition push_record_size :: "push_record \<Rightarrow> nat" where
  "push_record_size p =
    64 + length (ps_id p) + length (ps_key_id p) + encoded_len (length (ps_blob p))"

definition aad_of :: "hrec \<Rightarrow> string \<Rightarrow> record_aad" where
  "aad_of r kid =
    \<lparr>ad_record_id = r_id r, ad_host_id = r_host_id r, ad_seq = r_seq r, ad_key_id = kid\<rparr>"

text \<open>
  The inner loop of \<open>Push\<close>: \<open>i\<close> is the index in the batch, \<open>recs\<close> the sealed records so far, \<open>idx\<close> the
  batch index each came from, \<open>consumed\<close> how much of the batch is dealt with.
\<close>

fun seal_batch ::
  "cbox \<Rightarrow> codec \<Rightarrow> 'w api \<Rightarrow> key \<Rightarrow> int \<Rightarrow> nat \<Rightarrow> hrec list \<Rightarrow> push_record list \<Rightarrow> nat list \<Rightarrow> nat \<Rightarrow> nat
    \<Rightarrow> ('w, 'b, push_record list \<times> nat list \<times> nat) step" where
  "seal_batch X C A hk version i [] recs idx sz consumed = give (recs, idx, consumed)"
| "seal_batch X C A hk version i (r # rs) recs idx sz consumed = with_sync (\<lambda>sy.
    if \<not> pushable sy r then seal_batch X C A hk version (i + 1) rs recs idx sz (i + 1)
    else
      andthen (ensure_push_dek X A hk version (epoch_start (r_start_ms r) (sy_epoch sy))) (\<lambda>entry.
      andthen (draw (ap_random A nonce_size)) (\<lambda>nonce.
        let blob = seal_record X nonce (marshal_payload C r) (snd entry) (aad_of r (fst entry));
            pr = \<lparr>ps_seq = r_seq r, ps_id = r_id r, ps_key_id = fst entry, ps_blob = blob\<rparr>;
            n = push_record_size pr
        in if recs \<noteq> [] \<and> sz + n > max_push_bytes then give (recs, idx, consumed)
           else seal_batch X C A hk version (i + 1) rs (recs @ [pr]) (idx @ [i]) (sz + n) (i + 1))))"

definition retryable_smaller :: "net_error \<Rightarrow> bool" where
  "retryable_smaller e = (case e of ApiError st _ _ \<Rightarrow> st = 413 \<or> st = 400 | Transport \<Rightarrow> False)"

text \<open>\<open>pushWithBackoff\<close>: the batch is halved while the server may accept a smaller one.\<close>

fun push_backoff :: "'w api \<Rightarrow> nat \<Rightarrow> push_record list \<Rightarrow> ('w, 'b, nat) step" where
  "push_backoff A n recs = (\<lambda>g.
    case net (ap_push A \<lparr>pq_host_id = sy_device (rg_sync g), pq_records = take n recs\<rparr>) g of
      (g', Inr _) \<Rightarrow> (g', Inr n)
    | (g', Inl (Net e)) \<Rightarrow>
        if n \<le> 1 \<or> \<not> retryable_smaller e then (g', Inl (Net e))
        else push_backoff A (n div 2) recs g'
    | (g', Inl e) \<Rightarrow> (g', Inl e))"

declare push_backoff.simps [simp del]

definition read_watermark :: "'b hist_kv \<Rightarrow> ('w, 'b, u64) step" where
  "read_watermark K g =
    (let v = store_meta K (rg_store g) meta_last_uploaded
     in if v = [] then (g, Inr 0)
        else case parse_uint64 v of
          None \<Rightarrow> (g, Inl (BadWatermark v))
        | Some n \<Rightarrow> (g, Inr n))"

definition write_watermark :: "'b hist_kv \<Rightarrow> u64 \<Rightarrow> ('w, 'b, unit) step" where
  "write_watermark K sq g =
    (g\<lparr>rg_store := set_meta K (rg_store g) meta_last_uploaded (format_uint sq)\<rparr>, Inr ())"

text \<open>
  One pass of the outer loop: \<^const>\<open>None\<close> when there is nothing left, else the new watermark and how
  many records were uploaded.
\<close>

definition push_round ::
  "cbox \<Rightarrow> codec \<Rightarrow> 'b hist_kv \<Rightarrow> 'w api \<Rightarrow> key \<Rightarrow> int \<Rightarrow> u64 \<Rightarrow> ('w, 'b, (u64 \<times> nat) option) step" where
  "push_round X C K A hk version watermark g =
    (case since K (rg_store g) watermark (int push_batch_limit) of
       Inl e \<Rightarrow> (g, Inl (StoreFailed e))
     | Inr batch \<Rightarrow>
         if batch = [] then (g, Inr None)
         else
           andthen (seal_batch X C A hk version 0 batch [] [] 0 0) (\<lambda>(recs, idx, consumed).
             if consumed = 0 then fail_with (NoProgress (r_seq (hd batch)))
             else if recs = [] then
               (let wm = r_seq (batch ! (consumed - 1))
                in andthen (write_watermark K wm) (\<lambda>_. give (Some (wm, 0))))
             else
               andthen (push_backoff A (length recs) recs) (\<lambda>sent.
                 let wm = (if sent = length recs then r_seq (batch ! (consumed - 1))
                           else r_seq (batch ! (idx ! (sent - 1))))
                 in andthen (write_watermark K wm) (\<lambda>_. give (Some (wm, sent))))) g)"

text \<open>
  The outer loop; \<open>fuel\<close> bounds its passes. The result is how many records were uploaded and the
  error that ended it, if any; \<^const>\<open>None\<close> means the fuel ran out.
\<close>

fun push_rounds ::
  "nat \<Rightarrow> cbox \<Rightarrow> codec \<Rightarrow> 'b hist_kv \<Rightarrow> 'w api \<Rightarrow> key \<Rightarrow> int \<Rightarrow> u64 \<Rightarrow> nat \<Rightarrow> ('w, 'b) rig
    \<Rightarrow> ('w, 'b) rig \<times> (nat \<times> sync_error option) option" where
  "push_rounds 0 X C K A hk version watermark pushed g = (g, None)"
| "push_rounds (Suc fuel) X C K A hk version watermark pushed g =
    (case push_round X C K A hk version watermark g of
       (g', Inl e) \<Rightarrow> (g', Some (pushed, Some e))
     | (g', Inr None) \<Rightarrow> (g', Some (pushed, None))
     | (g', Inr (Some (wm, sent))) \<Rightarrow> push_rounds fuel X C K A hk version wm (pushed + sent) g')"

definition push ::
  "nat \<Rightarrow> cbox \<Rightarrow> codec \<Rightarrow> 'b hist_kv \<Rightarrow> 'w api \<Rightarrow> ('w, 'b) rig
    \<Rightarrow> ('w, 'b) rig \<times> (nat \<times> sync_error option) option" where
  "push fuel X C K A g =
    (case resolve_hk X A g of
       (g', Inl e) \<Rightarrow> (g', Some (0, Some e))
     | (g', Inr (hk, version)) \<Rightarrow>
         (case read_watermark K g' of
            (g'', Inl e) \<Rightarrow> (g'', Some (0, Some e))
          | (g'', Inr watermark) \<Rightarrow> push_rounds fuel X C K A hk version watermark 0 g''))"


subsection \<open>Pulling\<close>

text \<open>
  The page loop of \<open>PullCiphertext\<close> for one host, and the loop over the hosts; \<open>fuel\<close> bounds the pages
  of one host. Go's maps from host to records and to cursors are functions here.
\<close>

fun pull_pages ::
  "nat \<Rightarrow> 'w api \<Rightarrow> string \<Rightarrow> u64 \<Rightarrow> pull_record list \<Rightarrow> ('w, 'b) rig
    \<Rightarrow> ('w, 'b) rig \<times> (sync_error + pull_record list \<times> u64) option" where
  "pull_pages 0 A host after out g = (g, None)"
| "pull_pages (Suc fuel) A host after out g =
    (case net (ap_pull A host after push_batch_limit) g of
       (g', Inl e) \<Rightarrow> (g', Some (Inl e))
     | (g', Inr resp) \<Rightarrow>
         let after' = (if pr_records resp = [] then after else pl_seq (last (pr_records resp)));
             out' = out @ pr_records resp
         in if pr_next_after resp = None then (g', Some (Inr (out', after')))
            else pull_pages fuel A host after' out' g')"

fun pull_hosts ::
  "nat \<Rightarrow> 'w api \<Rightarrow> host_info list \<Rightarrow> (string \<Rightarrow> pull_record list) \<Rightarrow> (string \<Rightarrow> u64) \<Rightarrow> ('w, 'b) rig
    \<Rightarrow> ('w, 'b) rig \<times> (sync_error + (string \<Rightarrow> pull_record list) \<times> (string \<Rightarrow> u64)) option" where
  "pull_hosts fuel A [] out cursors g = (g, Some (Inr (out, cursors)))"
| "pull_hosts fuel A (h # hs) out cursors g =
    (if hi_host_id h = sy_device (rg_sync g) then pull_hosts fuel A hs out cursors g
     else case pull_pages fuel A (hi_host_id h) (cursors (hi_host_id h)) (out (hi_host_id h)) g of
       (g', None) \<Rightarrow> (g', None)
     | (g', Some (Inl e)) \<Rightarrow> (g', Some (Inl e))
     | (g', Some (Inr (prs, after))) \<Rightarrow>
         pull_hosts fuel A hs (out(hi_host_id h := prs)) (cursors(hi_host_id h := after)) g')"

definition pull_ciphertext ::
  "nat \<Rightarrow> 'w api \<Rightarrow> (string \<Rightarrow> u64) \<Rightarrow> ('w, 'b) rig
    \<Rightarrow> ('w, 'b) rig \<times> (sync_error + (string \<Rightarrow> pull_record list) \<times> (string \<Rightarrow> u64)) option" where
  "pull_ciphertext fuel A cursors g =
    (case net (ap_hosts A) g of
       (g', Inl e) \<Rightarrow> (g', Some (Inl e))
     | (g', Inr hosts) \<Rightarrow> pull_hosts fuel A hosts (\<lambda>_. []) cursors g')"


subsection \<open>Opening records\<close>

definition add_wraps :: "dek_wrap list \<Rightarrow> (string \<Rightarrow> dek_wrap option) \<Rightarrow> string \<Rightarrow> dek_wrap option" where
  "add_wraps ws m = foldl (\<lambda>m w. if m (dk_key_id w) = None then m(dk_key_id w \<mapsto> w) else m) m ws"

text \<open>\<open>refreshDEKWrapsLocked\<close>; \<open>fuel\<close> bounds the pages.\<close>

fun refresh_wraps ::
  "nat \<Rightarrow> 'w api \<Rightarrow> string \<Rightarrow> ('w, 'b) rig \<Rightarrow> ('w, 'b) rig \<times> (sync_error + unit) option" where
  "refresh_wraps 0 A cursor g = (g, None)"
| "refresh_wraps (Suc fuel) A cursor g =
    (case net (ap_list_dek A cursor dek_page_limit) g of
       (g', Inl e) \<Rightarrow> (g', Some (Inl e))
     | (g', Inr resp) \<Rightarrow>
         let g'' = g'\<lparr>rg_sync := (rg_sync g')
               \<lparr>sy_wraps := add_wraps (dl_wraps resp) (sy_wraps (rg_sync g'))\<rparr>\<rparr>
         in if dl_next_cursor resp = [] then (g'', Some (Inr ()))
            else refresh_wraps fuel A (dl_next_cursor resp) g'')"

definition unwrap_held ::
  "cbox \<Rightarrow> key \<Rightarrow> string \<Rightarrow> ('w, 'b, key) step" where
  "unwrap_held X hk kid = with_sync (\<lambda>sy.
    case sy_wraps sy kid of
      None \<Rightarrow> fail_with (NoDekWrap kid)
    | Some w \<Rightarrow>
        andthen (crypto_step (unwrap_dek X (dk_blob w) hk (dk_key_id w) (dk_device_id w) (dk_epoch w)
          (dk_hk_version w))) (\<lambda>dek.
        andthen (put_sync (\<lambda>sy. sy\<lparr>sy_by_key := (sy_by_key sy)(kid \<mapsto> dek)\<rparr>)) (\<lambda>_.
        give dek)))"

definition dek_for_key ::
  "nat \<Rightarrow> cbox \<Rightarrow> 'w api \<Rightarrow> key \<Rightarrow> string \<Rightarrow> ('w, 'b) rig \<Rightarrow> ('w, 'b) rig \<times> (sync_error + key) option" where
  "dek_for_key fuel X A hk kid g =
    (case sy_by_key (rg_sync g) kid of
       Some dek \<Rightarrow> (g, Some (Inr dek))
     | None \<Rightarrow>
         (case (if sy_wraps (rg_sync g) kid = None then refresh_wraps fuel A [] g else (g, Some (Inr ()))) of
            (g', None) \<Rightarrow> (g', None)
          | (g', Some (Inl e)) \<Rightarrow> (g', Some (Inl e))
          | (g', Some (Inr _)) \<Rightarrow> (case unwrap_held X hk kid g' of (g'', r) \<Rightarrow> (g'', Some r))))"

definition open_one ::
  "nat \<Rightarrow> cbox \<Rightarrow> codec \<Rightarrow> 'w api \<Rightarrow> key \<Rightarrow> string \<Rightarrow> pull_record \<Rightarrow> ('w, 'b) rig
    \<Rightarrow> ('w, 'b) rig \<times> (sync_error + hrec) option" where
  "open_one fuel X C A hk host pr g =
    (case dek_for_key fuel X A hk (pl_key_id pr) g of
       (g', None) \<Rightarrow> (g', None)
     | (g', Some (Inl e)) \<Rightarrow> (g', Some (Inl e))
     | (g', Some (Inr dek)) \<Rightarrow>
         (case open_record X (pl_blob pr) dek
                 \<lparr>ad_record_id = pl_id pr, ad_host_id = host, ad_seq = pl_seq pr, ad_key_id = pl_key_id pr\<rparr> of
            Inl e \<Rightarrow> (g', Some (Inl (Crypto e)))
          | Inr pt \<Rightarrow> (g', Some (record_from_payload C pt host (pl_seq pr) (pl_key_id pr)))))"

fun open_each ::
  "nat \<Rightarrow> cbox \<Rightarrow> codec \<Rightarrow> 'w api \<Rightarrow> key \<Rightarrow> string \<Rightarrow> pull_record list \<Rightarrow> ('w, 'b) rig
    \<Rightarrow> ('w, 'b) rig \<times> (sync_error + hrec list) option" where
  "open_each fuel X C A hk host [] g = (g, Some (Inr []))"
| "open_each fuel X C A hk host (pr # prs) g =
    (case open_one fuel X C A hk host pr g of
       (g', None) \<Rightarrow> (g', None)
     | (g', Some (Inl e)) \<Rightarrow> (g', Some (Inl e))
     | (g', Some (Inr r)) \<Rightarrow>
         (case open_each fuel X C A hk host prs g' of
            (g'', Some (Inr rs)) \<Rightarrow> (g'', Some (Inr (r # rs)))
          | x \<Rightarrow> x))"

definition open_records ::
  "nat \<Rightarrow> cbox \<Rightarrow> codec \<Rightarrow> 'w api \<Rightarrow> string \<Rightarrow> pull_record list \<Rightarrow> ('w, 'b) rig
    \<Rightarrow> ('w, 'b) rig \<times> (sync_error + hrec list) option" where
  "open_records fuel X C A host prs g =
    (if prs = [] then (g, Some (Inr []))
     else case resolve_hk X A g of
       (g', Inl e) \<Rightarrow> (g', Some (Inl e))
     | (g', Inr (hk, _)) \<Rightarrow> open_each fuel X C A hk host prs g')"

end
