(* ===== verification/Sync_Contract.thy ===== *)
theory Sync_Contract
  imports Syncer
begin

text \<open>
  What the sync engine relies on, and what it keeps. The locale \<open>sync_server\<close> is the contract of the
  transport: \<open>streams w h\<close> are the records the server holds for host \<open>h\<close>, by sequence number, and
  \<open>deks w\<close> the data key wraps, in the worlds that are \<open>valid\<close>. The first write of a record or a wrap stays; a request that fails may or
  may not have been carried out, since the answer may be lost on the way back.
\<close>

definition json_push :: "push_record \<Rightarrow> push_record" where
  "json_push p = p\<lparr>ps_id := json_str (ps_id p), ps_key_id := json_str (ps_key_id p)\<rparr>"

definition add_records :: "push_record list \<Rightarrow> (u64 \<Rightarrow> push_record option) \<Rightarrow> u64 \<Rightarrow> push_record option" where
  "add_records ps m =
    foldl (\<lambda>m p. if m (ps_seq p) = None then m(ps_seq p \<mapsto> json_push p) else m) m ps"

definition add_deks :: "dek_wrap list \<Rightarrow> (string \<Rightarrow> dek_wrap option) \<Rightarrow> string \<Rightarrow> dek_wrap option" where
  "add_deks ws m =
    foldl (\<lambda>m d. if m (json_str (dk_key_id d)) = None then m(json_str (dk_key_id d) \<mapsto> json_dek d) else m) m ws"

text \<open>The records after a sequence number, in order, and the wraps after a cursor.\<close>

definition pulled_as :: "pull_record \<Rightarrow> push_record" where
  "pulled_as p = \<lparr>ps_seq = pl_seq p, ps_id = pl_id p, ps_key_id = pl_key_id p, ps_blob = pl_blob p\<rparr>"

definition records_after :: "(u64 \<Rightarrow> push_record option) \<Rightarrow> u64 \<Rightarrow> push_record list" where
  "records_after m after = map (\<lambda>q. the (m q)) (sorted_list_of_set {q \<in> dom m. after < q})"

definition deks_after :: "(string \<Rightarrow> dek_wrap option) \<Rightarrow> string \<Rightarrow> dek_wrap list" where
  "deks_after m cursor =
    map (\<lambda>k. the (m k)) (sorted_list_of_set {k \<in> dom m. cursor = [] \<or> cursor < k})"

text \<open>
  A wrap the History Key opens to \<open>dek\<close>; a stored record that opens to the payload of the local record
  \<open>r\<close>; a server stream that holds nothing but such records; the engine's key cache in step with the
  server.
\<close>

definition holds_key :: "cbox \<Rightarrow> key \<Rightarrow> (string \<Rightarrow> dek_wrap option) \<Rightarrow> string \<Rightarrow> key \<Rightarrow> bool" where
  "holds_key X hk D kid dek \<longleftrightarrow>
    (\<exists>d. D kid = Some d \<and> dk_key_id d = kid \<and>
       unwrap_dek X (dk_blob d) hk kid (dk_device_id d) (dk_epoch d) (dk_hk_version d) = Inr dek)"

definition good_push ::
  "cbox \<Rightarrow> codec \<Rightarrow> key \<Rightarrow> (string \<Rightarrow> dek_wrap option) \<Rightarrow> hrec \<Rightarrow> push_record \<Rightarrow> bool" where
  "good_push X C hk D r p \<longleftrightarrow>
    ps_seq p = r_seq r \<and> ps_id p = r_id r \<and> json_str (ps_key_id p) = ps_key_id p \<and>
    (\<exists>dek. holds_key X hk D (ps_key_id p) dek \<and>
       open_record X (ps_blob p) dek (aad_of r (ps_key_id p)) = Inr (marshal_payload C r))"

definition mirrors ::
  "cbox \<Rightarrow> codec \<Rightarrow> key \<Rightarrow> (string \<Rightarrow> dek_wrap option) \<Rightarrow> (u64 \<Rightarrow> push_record option) \<Rightarrow> hrec list \<Rightarrow> bool"
where
  "mirrors X C hk D S rows \<longleftrightarrow>
    (\<forall>q p. S q = Some p \<longrightarrow> (\<exists>r \<in> set rows. r_seq r = q \<and> good_push X C hk D r p))"

definition keys_ok :: "cbox \<Rightarrow> key \<Rightarrow> (string \<Rightarrow> dek_wrap option) \<Rightarrow> syncer \<Rightarrow> bool" where
  "keys_ok X hk D sy \<longleftrightarrow>
    (\<forall>e kid dek. sy_by_epoch sy e = Some (kid, dek) \<longrightarrow> json_str kid = kid \<and> holds_key X hk D kid dek)"

definition uploaded :: "syncer \<Rightarrow> (u64 \<Rightarrow> push_record option) \<Rightarrow> hrec list \<Rightarrow> u64 \<Rightarrow> bool" where
  "uploaded sy S rows mark \<longleftrightarrow>
    (\<forall>r \<in> set rows. pushable sy r \<longrightarrow> r_seq r \<le> mark \<longrightarrow> S (r_seq r) \<noteq> None)"

text \<open>What a step of the engine never changes.\<close>

definition same_self :: "syncer \<Rightarrow> syncer \<Rightarrow> bool" where
  "same_self sy sy' \<longleftrightarrow> sy_device sy' = sy_device sy \<and> sy_key sy' = sy_key sy \<and> sy_epoch sy' = sy_epoch sy \<and>
     sy_sync_prompts sy' = sy_sync_prompts sy \<and> sy_hk sy' = sy_hk sy"

lemma same_self_refl [simp]: "same_self sy sy"
  by (simp add: same_self_def)

lemma same_self_trans [trans]: "same_self a b \<Longrightarrow> same_self b c \<Longrightarrow> same_self a c"
  by (simp add: same_self_def)

lemma same_pushable: "same_self a b \<Longrightarrow> pushable b r = pushable a r"
  by (simp add: same_self_def pushable_def)

lemma holds_key_mono: "D \<subseteq>\<^sub>m D' \<Longrightarrow> holds_key X hk D kid dek \<Longrightarrow> holds_key X hk D' kid dek"
  by (auto simp: holds_key_def map_le_def dom_def)

lemma good_push_mono: "D \<subseteq>\<^sub>m D' \<Longrightarrow> good_push X C hk D r p \<Longrightarrow> good_push X C hk D' r p"
  by (auto simp: good_push_def dest: holds_key_mono)

lemma mirrors_mono: "D \<subseteq>\<^sub>m D' \<Longrightarrow> mirrors X C hk D S rows \<Longrightarrow> mirrors X C hk D' S rows"
  unfolding mirrors_def by (meson good_push_mono)

lemma keys_ok_mono: "D \<subseteq>\<^sub>m D' \<Longrightarrow> keys_ok X hk D sy \<Longrightarrow> keys_ok X hk D' sy"
  unfolding keys_ok_def by (meson holds_key_mono)

lemma add_records_le: "m \<subseteq>\<^sub>m add_records ps m"
proof (induction ps arbitrary: m)
  case (Cons p ps)
  have "m \<subseteq>\<^sub>m (if m (ps_seq p) = None then m(ps_seq p \<mapsto> json_push p) else m)"
    by (auto simp: map_le_def)
  also have "\<dots> \<subseteq>\<^sub>m add_records ps \<dots>" by (rule Cons.IH)
  finally show ?case by (simp add: add_records_def)
qed (simp add: add_records_def)

lemma add_records_new:
  "add_records ps m q = Some p \<Longrightarrow> m q = Some p \<or> (\<exists>r \<in> set ps. ps_seq r = q \<and> p = json_push r)"
proof (induction ps arbitrary: m)
  case (Cons a ps)
  let ?m = "if m (ps_seq a) = None then m(ps_seq a \<mapsto> json_push a) else m"
  from Cons.prems have "add_records ps ?m q = Some p" by (simp add: add_records_def)
  from Cons.IH [OF this] show ?case by (auto split: if_splits)
qed (simp add: add_records_def)

lemma add_records_all: "r \<in> set ps \<Longrightarrow> add_records ps m (ps_seq r) \<noteq> None"
proof (induction ps arbitrary: m)
  case (Cons a ps)
  let ?m = "if m (ps_seq a) = None then m(ps_seq a \<mapsto> json_push a) else m"
  have eq: "add_records (a # ps) m = add_records ps ?m" by (simp add: add_records_def)
  show ?case
  proof (cases "r = a")
    case True
    have "ps_seq a \<in> dom ?m" by auto
    moreover have "\<forall>k \<in> dom ?m. ?m k = add_records ps ?m k"
      using add_records_le [of ?m ps] unfolding map_le_def .
    ultimately have "add_records ps ?m (ps_seq a) = ?m (ps_seq a)" by (metis (no_types))
    with \<open>ps_seq a \<in> dom ?m\<close> show ?thesis unfolding eq True by (simp only: dom_def mem_Collect_eq not_False_eq_True)
  next
    case False
    with Cons show ?thesis unfolding eq by simp
  qed
qed simp

lemma add_deks_one:
  "D (json_str (dk_key_id d)) = None \<Longrightarrow> add_deks [d] D = D(json_str (dk_key_id d) \<mapsto> json_dek d)"
  by (simp add: add_deks_def)

lemma add_deks_le: "D \<subseteq>\<^sub>m add_deks ds D"
proof (induction ds arbitrary: D)
  case (Cons d ds)
  have "D \<subseteq>\<^sub>m (if D (json_str (dk_key_id d)) = None then D(json_str (dk_key_id d) \<mapsto> json_dek d) else D)"
    by (auto simp: map_le_def)
  also have "\<dots> \<subseteq>\<^sub>m add_deks ds \<dots>" by (rule Cons.IH)
  finally show ?case by (simp add: add_deks_def)
qed (simp add: add_deks_def)

text \<open>What a push, acknowledged or not, leaves in a stream.\<close>

definition pushed_into ::
  "push_record list \<Rightarrow> (u64 \<Rightarrow> push_record option) \<Rightarrow> (u64 \<Rightarrow> push_record option) \<Rightarrow> bool" where
  "pushed_into recs S S' \<longleftrightarrow>
    S \<subseteq>\<^sub>m S' \<and> (\<forall>q p. S' q = Some p \<longrightarrow> S q = Some p \<or> (\<exists>x \<in> set recs. ps_seq x = q \<and> p = json_push x))"

lemma pushed_into_refl [simp]: "pushed_into recs S S"
  by (simp add: pushed_into_def)

lemma pushed_into_trans:
  assumes "pushed_into recs S S'" and "pushed_into recs S' S''"
  shows "pushed_into recs S S''"
proof -
  have "S \<subseteq>\<^sub>m S''" using assms map_le_trans unfolding pushed_into_def by blast
  with assms show ?thesis unfolding pushed_into_def by blast
qed

lemma pushed_into_add: "set ps \<subseteq> set recs \<Longrightarrow> pushed_into recs S (add_records ps S)"
  using add_records_le add_records_new unfolding pushed_into_def by blast

lemma map_le_at: "S \<subseteq>\<^sub>m S' \<Longrightarrow> S q \<noteq> None \<Longrightarrow> S' q \<noteq> None"
  unfolding map_le_def dom_def by simp

lemma uploaded_mono: "S \<subseteq>\<^sub>m S' \<Longrightarrow> uploaded sy S rows mark \<Longrightarrow> uploaded sy S' rows mark"
  unfolding uploaded_def by (meson map_le_at)

lemma sorted_below:
  assumes "sorted_wrt (<) (map f xs)" and "k < length xs" and "x \<in> set xs" and "f x \<le> (f (xs ! k) :: 'a :: linorder)"
  shows "\<exists>j \<le> k. x = xs ! j"
proof -
  from assms(3) obtain j where j: "j < length xs" "x = xs ! j" by (auto simp: in_set_conv_nth)
  have "f (xs ! k) < f (xs ! j)" if "k < j"
    using assms(1) that j(1) by (auto simp: sorted_wrt_iff_nth_less)
  with j assms(4) have "j \<le> k" by (meson leD not_le_imp_less)
  with j show ?thesis by blast
qed

lemma filter_upt_prefix:
  assumes "m < length (filter P [0 ..< n])" and "j \<le> filter P [0 ..< n] ! m" and "P j"
  shows "\<exists>m' \<le> m. filter P [0 ..< n] ! m' = j"
proof -
  let ?xs = "filter P [0 ..< n]"
  have "?xs ! m \<in> set ?xs" using assms(1) by (rule nth_mem)
  then have "j \<in> set ?xs" using assms(2,3) by auto
  moreover have "sorted_wrt (<) (map (\<lambda>x. x) ?xs)"
    by (simp add: sorted_wrt_filter)
  ultimately show ?thesis using sorted_below [of "\<lambda>x. x" ?xs m j] assms(1,2) by auto
qed

text \<open>
  What holds between two passes of the push: the server's stream mirrors the local one, everything
  pushable up to the watermark is there, and the key cache is in step.
\<close>

definition push_inv ::
  "('w \<Rightarrow> string \<Rightarrow> u64 \<Rightarrow> push_record option) \<Rightarrow> ('w \<Rightarrow> string \<Rightarrow> dek_wrap option) \<Rightarrow> ('w \<Rightarrow> bool)
    \<Rightarrow> cbox \<Rightarrow> codec \<Rightarrow> key \<Rightarrow> 'b hist_kv \<Rightarrow> ('w, 'b) rig \<Rightarrow> u64 \<Rightarrow> bool" where
  "push_inv streams deks valid X C hk K g mark \<longleftrightarrow>
     valid (rg_world g) \<and> keys_ok X hk (deks (rg_world g)) (rg_sync g) \<and>
     json_str (sy_device (rg_sync g)) = sy_device (rg_sync g) \<and>
     store_ok K (rg_store g) \<and> kv_seq K (st_history (rg_store g)) \<noteq> - 1 \<and> mark \<noteq> - 1 \<and>
     mirrors X C hk (deks (rg_world g)) (streams (rg_world g) (sy_device (rg_sync g))) (stream K (rg_store g)) \<and>
     uploaded (rg_sync g) (streams (rg_world g) (sy_device (rg_sync g))) (stream K (rg_store g)) mark"

text \<open>The watermark a store has recorded.\<close>

definition marked :: "'b hist_kv \<Rightarrow> 'b store \<Rightarrow> u64 \<Rightarrow> bool" where
  "marked K st mark \<longleftrightarrow>
    (let v = store_meta K st meta_last_uploaded in if v = [] then mark = 0 else parse_uint64 v = Some mark)"

lemma marked_read: "marked K (rg_store g) mark \<Longrightarrow> read_watermark K g = (g, Inr mark)"
  by (simp add: marked_def read_watermark_def Let_def split: if_splits)

lemma parse_format_uint: "parse_uint64 (format_uint w) = Some w"
  using nat_digits_correct [of "unat w"] unsigned_less [of w, where 'a = nat]
  by (simp add: parse_uint64_def format_uint_def)

lemma marked_format: "store_meta K st meta_last_uploaded = format_uint mark \<Longrightarrow> marked K st mark"
proof -
  assume "store_meta K st meta_last_uploaded = format_uint mark"
  moreover have "format_uint mark \<noteq> []" using nat_digits_head [of "unat mark"] by (auto simp: format_uint_def)
  ultimately show ?thesis by (simp add: marked_def parse_format_uint)
qed

locale sync_server =
  fixes A :: "'w api"
    and streams :: "'w \<Rightarrow> string \<Rightarrow> u64 \<Rightarrow> push_record option"
    and deks :: "'w \<Rightarrow> string \<Rightarrow> dek_wrap option"
    and valid :: "'w \<Rightarrow> bool"
  assumes push_law: "ap_push A rq w = (w', r) \<Longrightarrow> valid w \<Longrightarrow> json_str (pq_host_id rq) = pq_host_id rq \<Longrightarrow> valid w' \<and>
      deks w' = deks w \<and>
      (streams w' = streams w \<and> (\<exists>e. r = Inl e) \<or>
       streams w' = (streams w)(pq_host_id rq := add_records (pq_records rq) (streams w (pq_host_id rq))))"
    and upload_law: "ap_upload_dek A ws w = (w', ru) \<Longrightarrow> valid w \<Longrightarrow> valid w' \<and>
      streams w' = streams w \<and> (deks w' = deks w \<and> (\<exists>e. ru = Inl e) \<or> deks w' = add_deks ws (deks w))"
    and random_law: "ap_random A n w = (w', bs) \<Longrightarrow> valid w \<Longrightarrow> valid w' \<and> streams w' = streams w \<and> deks w' = deks w \<and> length bs = n"
    and new_id_law: "ap_new_id A w = (w', i) \<Longrightarrow> valid w \<Longrightarrow> valid w' \<and>
      streams w' = streams w \<and> deks w' = deks w \<and> deks w i = None \<and> json_str i = i"
    and hk_law: "ap_hk_wrap A d w = (w', rh) \<Longrightarrow> valid w \<Longrightarrow> valid w' \<and> streams w' = streams w \<and> deks w' = deks w"
    and pull_law: "ap_pull A h after limit w = (w', rp) \<Longrightarrow> valid w \<Longrightarrow> valid w' \<and> streams w' = streams w \<and> deks w' = deks w"
    and pull_page: "ap_pull A h after limit w = (w', Inr resp) \<Longrightarrow> valid w \<Longrightarrow> after \<noteq> - 1 \<Longrightarrow> 0 < limit \<Longrightarrow> limit \<le> 1000 \<Longrightarrow>
      map pulled_as (pr_records resp) = take limit (records_after (streams w h) after) \<and>
      pr_next_after resp = (if limit < length (records_after (streams w h) after)
        then Some (pl_seq (last (pr_records resp))) else None)"
    and list_dek_law: "ap_list_dek A c limit w = (w', rl) \<Longrightarrow> valid w \<Longrightarrow> valid w' \<and> streams w' = streams w \<and> deks w' = deks w"
    and list_dek_page: "ap_list_dek A c limit w = (w', Inr dresp) \<Longrightarrow> valid w \<Longrightarrow> 0 < limit \<Longrightarrow> limit \<le> 1000 \<Longrightarrow>
      dl_wraps dresp = take limit (deks_after (deks w) c) \<and>
      dl_next_cursor dresp = (if limit < length (deks_after (deks w) c)
        then dk_key_id (last (dl_wraps dresp)) else [])"
    and finite_streams: "valid w \<Longrightarrow> finite (dom (streams w h))"
    and finite_deks: "valid w \<Longrightarrow> finite (dom (deks w))"
    and stream_seq: "valid w \<Longrightarrow> streams w h q = Some sp \<Longrightarrow> ps_seq sp = q"
    and dek_key: "valid w \<Longrightarrow> deks w k = Some sd \<Longrightarrow> dk_key_id sd = k \<and> k \<noteq> []"

end
