(* ===== verification/Sync_Push.thy ===== *)
theory Sync_Push
  imports Sync_Contract
begin

text \<open>
  What \<open>Push\<close> of \<open>internal/syncer\<close> keeps: between any two requests, failed ones included, the server's
  stream of this host holds nothing but sealed copies of local records, and everything up to the
  recorded watermark is there.
\<close>

context sync_server
begin

text \<open>Steps that only read: the server's records and wraps stay.\<close>

lemma draw_random:
  assumes "draw (ap_random A n) g = (g', r)" and "valid (rg_world g)"
  obtains bs where "r = Inr bs" and "length bs = n" and "valid (rg_world g')"
    and "streams (rg_world g') = streams (rg_world g)" and "deks (rg_world g') = deks (rg_world g)"
    and "rg_sync g' = rg_sync g" and "rg_store g' = rg_store g"
proof -
  obtain w bs where w: "ap_random A n (rg_world g) = (w, bs)" by fastforce
  with random_law [OF this assms(2)] assms(1) that show ?thesis by (auto simp: draw_def)
qed

lemma draw_new_id:
  assumes "draw (ap_new_id A) g = (g', r)" and "valid (rg_world g)"
  obtains i where "r = Inr i" and "deks (rg_world g) i = None" and "json_str i = i" and "valid (rg_world g')"
    and "streams (rg_world g') = streams (rg_world g)" and "deks (rg_world g') = deks (rg_world g)"
    and "rg_sync g' = rg_sync g" and "rg_store g' = rg_store g"
proof -
  obtain w i where w: "ap_new_id A (rg_world g) = (w, i)" by fastforce
  with new_id_law [OF this assms(2)] assms(1) that show ?thesis by (auto simp: draw_def)
qed

text \<open>What a step of the push keeps, whatever its result.\<close>

definition kept :: "cbox \<Rightarrow> key \<Rightarrow> ('w, 'b) rig \<Rightarrow> ('w, 'b) rig \<Rightarrow> bool" where
  "kept X hk g g' \<longleftrightarrow> valid (rg_world g') \<and> deks (rg_world g) \<subseteq>\<^sub>m deks (rg_world g') \<and>
     streams (rg_world g') = streams (rg_world g) \<and> rg_store g' = rg_store g \<and>
     same_self (rg_sync g) (rg_sync g') \<and> keys_ok X hk (deks (rg_world g')) (rg_sync g')"

lemma kept_trans: "kept X hk a b \<Longrightarrow> kept X hk b c \<Longrightarrow> kept X hk a c"
  unfolding kept_def using map_le_trans same_self_trans by metis

lemma ensure_push_dek_ok:
  assumes "sealed_box X" and "ensure_push_dek X A hk version epoch g = (g', r)"
    and "valid (rg_world g)" and "keys_ok X hk (deks (rg_world g)) (rg_sync g)"
    and "json_str (sy_device (rg_sync g)) = sy_device (rg_sync g)"
  shows "kept X hk g g' \<and>
    (\<forall>kid dek. r = Inr (kid, dek) \<longrightarrow> json_str kid = kid \<and> holds_key X hk (deks (rg_world g')) kid dek)"
proof (cases "sy_by_epoch (rg_sync g) epoch")
  case (Some entry)
  with assms show ?thesis
    by (cases entry) (auto simp: ensure_push_dek_def with_sync_def give_def kept_def keys_ok_def)
next
  case None
  let ?dev = "sy_device (rg_sync g)"
  obtain g1 r1 where 1: "draw (ap_random A key_size) g = (g1, r1)" by fastforce
  obtain dek where dek: "r1 = Inr dek" "length dek = key_size" "valid (rg_world g1)"
      "streams (rg_world g1) = streams (rg_world g)" "deks (rg_world g1) = deks (rg_world g)"
      "rg_sync g1 = rg_sync g" "rg_store g1 = rg_store g"
    by (rule draw_random [OF 1 assms(3)])
  obtain g2 r2 where 2: "draw (ap_new_id A) g1 = (g2, r2)" by fastforce
  obtain kid where kid: "r2 = Inr kid" "deks (rg_world g1) kid = None" "json_str kid = kid" "valid (rg_world g2)"
      "streams (rg_world g2) = streams (rg_world g1)" "deks (rg_world g2) = deks (rg_world g1)"
      "rg_sync g2 = rg_sync g1" "rg_store g2 = rg_store g1"
    by (rule draw_new_id [OF 2 dek(3)])
  obtain g3 r3 where 3: "draw (ap_random A nonce_size) g2 = (g3, r3)" by fastforce
  obtain nonce where nonce: "r3 = Inr nonce" "length nonce = nonce_size" "valid (rg_world g3)"
      "streams (rg_world g3) = streams (rg_world g2)" "deks (rg_world g3) = deks (rg_world g2)"
      "rg_sync g3 = rg_sync g2" "rg_store g3 = rg_store g2"
    by (rule draw_random [OF 3 kid(4)])
  let ?wrap = "\<lparr>dk_key_id = kid, dk_device_id = ?dev, dk_epoch = epoch,
    dk_blob = wrap_dek X nonce dek hk kid ?dev epoch version, dk_hk_version = version\<rparr>"
  obtain w4 r4 where 4: "ap_upload_dek A [?wrap] (rg_world g3) = (w4, r4)" by fastforce
  note law = upload_law [OF 4 nonce(3)]
  have json: "json_dek ?wrap = ?wrap" using kid(3) assms(5) by (simp add: json_dek_def)
  have add: "add_deks [?wrap] (deks (rg_world g3)) = (deks (rg_world g))(kid \<mapsto> ?wrap)"
    using kid(2,3) dek(5) kid(6) nonce(5) json add_deks_one [of "deks (rg_world g3)" ?wrap] by simp
  have le: "deks (rg_world g) \<subseteq>\<^sub>m deks w4"
    using law add dek(5) kid(2,6) nonce(5) by (auto simp: map_le_def)
  show ?thesis
  proof (cases r4)
    case (Inl e)
    then have "g' = g3\<lparr>rg_world := w4\<rparr>" and "r = Inl (Net e)"
      using assms(2) None 1 2 3 4 dek(1) kid(1) nonce(1)
      by (simp_all add: ensure_push_dek_def with_sync_def andthen_def net_def Let_def)
    with law le assms(4) dek kid nonce show ?thesis by (auto simp: kept_def intro: keys_ok_mono)
  next
    case (Inr n)
    then have d4: "deks w4 = (deks (rg_world g))(kid \<mapsto> ?wrap)" using law add by auto
    have g': "rg_world g' = w4" "rg_store g' = rg_store g" "r = Inr (kid, dek)"
      "rg_sync g' = (rg_sync g)\<lparr>sy_by_epoch := (sy_by_epoch (rg_sync g))(epoch \<mapsto> (kid, dek)),
         sy_by_key := (sy_by_key (rg_sync g))(kid \<mapsto> dek), sy_wraps := (sy_wraps (rg_sync g))(kid \<mapsto> ?wrap)\<rparr>"
      using assms(2) None 1 2 3 4 dek kid nonce Inr
      by (auto simp: ensure_push_dek_def with_sync_def andthen_def net_def put_sync_def give_def Let_def)
    have "unwrap_dek X (wrap_dek X nonce dek hk kid ?dev epoch version) hk kid ?dev epoch version = Inr dek"
      using sealed_box.unwrap_wrap_dek [OF assms(1)] nonce(2) dek(2)
      by (simp add: nonce_size_def key_size_def)
    then have holds: "holds_key X hk (deks w4) kid dek" by (simp add: holds_key_def d4)
    have "keys_ok X hk (deks w4) (rg_sync g')"
      using keys_ok_mono [OF le assms(4)] holds kid(3) by (simp add: keys_ok_def g')
    with law le g' holds kid dek nonce show ?thesis by (simp add: kept_def same_self_def)
  qed
qed

text \<open>Which records of the batch are uploaded, and that what was sealed for them opens to them.\<close>

definition sealed_upto ::
  "cbox \<Rightarrow> codec \<Rightarrow> key \<Rightarrow> ('w, 'b) rig \<Rightarrow> hrec list \<Rightarrow> nat \<Rightarrow> nat list \<Rightarrow> push_record list \<Rightarrow> bool" where
  "sealed_upto X C hk g b i idx recs \<longleftrightarrow>
     idx = filter (\<lambda>j. pushable (rg_sync g) (b ! j)) [0 ..< i] \<and>
     list_all2 (\<lambda>j p. good_push X C hk (deks (rg_world g)) (b ! j) p) idx recs"

lemma sealed_upto_kept:
  assumes "kept X hk g g'" and "sealed_upto X C hk g b i idx recs"
  shows "sealed_upto X C hk g' b i idx recs"
proof -
  have "pushable (rg_sync g') r = pushable (rg_sync g) r" for r
    using assms(1) same_pushable unfolding kept_def by blast
  moreover have "good_push X C hk (deks (rg_world g)) r p \<Longrightarrow> good_push X C hk (deks (rg_world g')) r p" for r p
    using assms(1) good_push_mono unfolding kept_def by blast
  ultimately show ?thesis using assms(2)
    unfolding sealed_upto_def by (auto elim: list_all2_mono)
qed

lemma sealed_upto_skip:
  "sealed_upto X C hk g b i idx recs \<Longrightarrow> \<not> pushable (rg_sync g) (b ! i) \<Longrightarrow> sealed_upto X C hk g b (Suc i) idx recs"
  by (auto simp: sealed_upto_def)

lemma sealed_upto_add:
  "sealed_upto X C hk g b i idx recs \<Longrightarrow> pushable (rg_sync g) (b ! i) \<Longrightarrow>
    good_push X C hk (deks (rg_world g)) (b ! i) p \<Longrightarrow> sealed_upto X C hk g b (Suc i) (idx @ [i]) (recs @ [p])"
  by (auto simp: sealed_upto_def intro: list_all2_appendI)

lemma seal_batch_ok:
  assumes "sealed_box X"
  shows "seal_batch X C A hk v i rs recs idx sz i g = (g', r) \<Longrightarrow> b = pre @ rs \<Longrightarrow> i = length pre \<Longrightarrow>
    valid (rg_world g) \<Longrightarrow> keys_ok X hk (deks (rg_world g)) (rg_sync g) \<Longrightarrow>
    json_str (sy_device (rg_sync g)) = sy_device (rg_sync g) \<Longrightarrow>
    sealed_upto X C hk g b i idx recs \<Longrightarrow>
    kept X hk g g' \<and> (\<forall>recs' idx' c. r = Inr (recs', idx', c) \<longrightarrow>
      i \<le> c \<and> c \<le> length b \<and> (rs \<noteq> [] \<longrightarrow> recs = [] \<longrightarrow> i < c) \<and> sealed_upto X C hk g' b c idx' recs')"
proof (induction rs arbitrary: pre i recs idx sz g)
  case Nil
  then show ?case by (auto simp: give_def kept_def)
next
  case (Cons x rs)
  have bi: "b ! i = x" "Suc i \<le> length b" using Cons.prems(2,3) by auto
  have pre: "b = (pre @ [x]) @ rs" "Suc i = length (pre @ [x])" using Cons.prems(2,3) by simp_all
  show ?case
  proof (cases "pushable (rg_sync g) x")
    case False
    then have "seal_batch X C A hk v (Suc i) rs recs idx sz (Suc i) g = (g', r)"
      using Cons.prems(1) by (simp add: with_sync_def)
    from Cons.IH [OF this pre Cons.prems(4-6)] sealed_upto_skip [OF Cons.prems(7)] False bi show ?thesis by auto
  next
    case True
    let ?e = "epoch_start (r_start_ms x) (sy_epoch (rg_sync g))"
    obtain g1 r1 where 1: "ensure_push_dek X A hk v ?e g = (g1, r1)" by fastforce
    note ens = ensure_push_dek_ok [OF assms 1 Cons.prems(4-6)]
    show ?thesis
    proof (cases r1)
      case (Inl e)
      with 1 True Cons.prems(1) have "g' = g1" "r = Inl e" by (auto simp: with_sync_def andthen_def)
      with ens show ?thesis by simp
    next
      case (Inr entry)
      obtain kid dek where entry: "entry = (kid, dek)" by fastforce
      with ens Inr have kid: "json_str kid = kid" "holds_key X hk (deks (rg_world g1)) kid dek" by auto
      from ens have k1: "kept X hk g g1" by simp
      then have v1: "valid (rg_world g1)" by (simp add: kept_def)
      obtain g2 r2 where 2: "draw (ap_random A nonce_size) g1 = (g2, r2)" by fastforce
      obtain nonce where n: "r2 = Inr nonce" "length nonce = nonce_size" "valid (rg_world g2)"
          "streams (rg_world g2) = streams (rg_world g1)" "deks (rg_world g2) = deks (rg_world g1)"
          "rg_sync g2 = rg_sync g1" "rg_store g2 = rg_store g1"
        by (rule draw_random [OF 2 v1])
      have k2: "kept X hk g g2" using k1 n by (simp add: kept_def)
      let ?p = "\<lparr>ps_seq = r_seq x, ps_id = r_id x, ps_key_id = kid,
        ps_blob = seal_record X nonce (marshal_payload C x) dek (aad_of x kid)\<rparr>"
      have good: "good_push X C hk (deks (rg_world g2)) x ?p"
        using kid n(2,5) sealed_box.open_record_seal [OF assms]
        by (auto simp: good_push_def nonce_size_def)
      have up: "sealed_upto X C hk g2 b i idx recs" by (rule sealed_upto_kept [OF k2 Cons.prems(7)])
      show ?thesis
      proof (cases "recs \<noteq> [] \<and> sz + push_record_size ?p > max_push_bytes")
        case stop: True
        with 1 2 Inr entry n(1) True Cons.prems(1) have "g' = g2" "r = Inr (recs, idx, i)"
          by (auto simp: with_sync_def andthen_def give_def Let_def)
        with k2 up stop bi show ?thesis by auto
      next
        case False
        with 1 2 Inr entry n(1) True Cons.prems(1)
        have go: "seal_batch X C A hk v (Suc i) rs (recs @ [?p]) (idx @ [i]) (sz + push_record_size ?p) (Suc i) g2 = (g', r)"
          by (auto simp: with_sync_def andthen_def Let_def split: if_splits)
        have push2: "pushable (rg_sync g2) (b ! i)"
          using True k2 bi same_pushable unfolding kept_def by blast
        have dev: "json_str (sy_device (rg_sync g2)) = sy_device (rg_sync g2)"
          using k2 Cons.prems(6) by (simp add: kept_def same_self_def)
        have kk: "valid (rg_world g2)" "keys_ok X hk (deks (rg_world g2)) (rg_sync g2)"
          using k2 by (simp_all add: kept_def)
        have "sealed_upto X C hk g2 b (Suc i) (idx @ [i]) (recs @ [?p])"
          by (rule sealed_upto_add [OF up push2]) (simp add: bi good)
        from Cons.IH [OF go pre kk dev this] kept_trans [OF k2] bi show ?thesis by auto
      qed
    qed
  qed
qed

lemma push_backoff_ok:
  "push_backoff A n recs g = (g', r) \<Longrightarrow> valid (rg_world g) \<Longrightarrow> 0 < n \<Longrightarrow> n \<le> length recs \<Longrightarrow>
    h = sy_device (rg_sync g) \<Longrightarrow> json_str h = h \<Longrightarrow>
    valid (rg_world g') \<and> deks (rg_world g') = deks (rg_world g) \<and> rg_sync g' = rg_sync g \<and>
    rg_store g' = rg_store g \<and> pushed_into recs (streams (rg_world g) h) (streams (rg_world g') h) \<and>
    (\<forall>h'. h' \<noteq> h \<longrightarrow> streams (rg_world g') h' = streams (rg_world g) h') \<and>
    (\<forall>m. r = Inr m \<longrightarrow> 0 < m \<and> m \<le> n \<and>
      (\<forall>p \<in> set (take m recs). streams (rg_world g') h (ps_seq p) \<noteq> None))"
proof (induction n arbitrary: g rule: less_induct)
  case (less n)
  let ?rq = "\<lparr>pq_host_id = h, pq_records = take n recs\<rparr>"
  obtain w rr where w: "ap_push A ?rq (rg_world g) = (w, rr)" by fastforce
  have hj: "json_str (pq_host_id ?rq) = pq_host_id ?rq" using less.prems(6) by simp
  note law = push_law [OF w less.prems(2) hj]
  have into: "pushed_into recs (streams (rg_world g) h) (streams w h)"
    using law pushed_into_add [OF set_take_subset] by auto
  have other: "\<forall>h'. h' \<noteq> h \<longrightarrow> streams w h' = streams (rg_world g) h'" using law by auto
  show ?case
  proof (cases rr)
    case (Inr resp)
    then have "streams w h = add_records (take n recs) (streams (rg_world g) h)" using law by auto
    then have all: "\<forall>p \<in> set (take n recs). streams w h (ps_seq p) \<noteq> None" using add_records_all by auto
    have "g' = g\<lparr>rg_world := w\<rparr>" "r = Inr n"
      using less.prems(1,5) w Inr by (simp_all add: push_backoff.simps [of A n recs] net_def)
    with law into other all less.prems(3) show ?thesis by simp
  next
    case (Inl e)
    show ?thesis
    proof (cases "n \<le> 1 \<or> \<not> retryable_smaller e")
      case True
      then have "g' = g\<lparr>rg_world := w\<rparr>" "r = Inl (Net e)"
        using less.prems(1,5) w Inl by (auto simp: push_backoff.simps [of A n recs] net_def)
      with law into other show ?thesis by simp
    next
      case False
      let ?g = "g\<lparr>rg_world := w\<rparr>"
      have again: "push_backoff A (n div 2) recs ?g = (g', r)"
        using less.prems(1,5) w Inl False by (simp add: push_backoff.simps [of A n recs] net_def)
      have half: "0 < n div 2" "n div 2 \<le> length recs" using False less.prems(4) by auto
      have v: "valid (rg_world ?g)" and h: "h = sy_device (rg_sync ?g)" using law less.prems(5) by simp_all
      have lt: "n div 2 < n" using less.prems(3) by simp
      note ih = less.IH [OF lt again v half h less.prems(6)]
      with law other pushed_into_trans [OF into] lt show ?thesis by auto
    qed
  qed
qed

lemma stream_set_meta [simp]:
  "stream K (set_meta K st k v) = stream K st" "store_ok K (set_meta K st k v) = store_ok K st"
  "st_history (set_meta K st k v) = st_history st" "st_host_id (set_meta K st k v) = st_host_id st"
  by (simp_all add: set_meta_def stream_def store_ok_def)

lemma good_push_json:
  "good_push X C hk D r p \<Longrightarrow> json_str (r_id r) = r_id r \<Longrightarrow> json_push p = p"
  by (cases p) (simp add: good_push_def json_push_def)

lemma mirrors_pushed:
  assumes "mirrors X C hk D S rows" and "pushed_into recs S S'"
    and "\<forall>p \<in> set recs. \<exists>r \<in> set rows. good_push X C hk D r p \<and> json_str (r_id r) = r_id r"
  shows "mirrors X C hk D S' rows"
  unfolding mirrors_def
proof (intro allI impI)
  fix q p assume "S' q = Some p"
  with assms(2) consider "S q = Some p" | x where "x \<in> set recs" "ps_seq x = q" "p = json_push x"
    unfolding pushed_into_def by blast
  then show "\<exists>r \<in> set rows. r_seq r = q \<and> good_push X C hk D r p"
  proof cases
    case 1
    with assms(1) show ?thesis unfolding mirrors_def by blast
  next
    case 2
    with assms(3) obtain r where "r \<in> set rows" "good_push X C hk D r x" "json_str (r_id r) = r_id r" by blast
    with 2 good_push_json [of X C hk D r x] show ?thesis by (auto simp: good_push_def)
  qed
qed

text \<open>The records of a batch, in the order of their sequence numbers.\<close>

lemma uploaded_batch:
  assumes sorted: "sorted_wrt (<) (map r_seq rows)" and mark: "uploaded sy S rows mark"
    and batch: "batch = take n (filter (\<lambda>r. mark < r_seq r) rows)" and k: "k < length batch"
    and le: "S \<subseteq>\<^sub>m S'" and up: "\<And>j. j \<le> k \<Longrightarrow> pushable sy (batch ! j) \<Longrightarrow> S' (r_seq (batch ! j)) \<noteq> None"
  shows "uploaded sy S' rows (r_seq (batch ! k)) \<and> mark < r_seq (batch ! k)"
  unfolding uploaded_def
proof (intro conjI ballI impI)
  let ?rest = "filter (\<lambda>r. mark < r_seq r) rows"
  have rest: "sorted_wrt (<) (map r_seq ?rest)"
    using sorted by (simp add: sorted_wrt_map sorted_wrt_filter)
  have nth: "batch ! j = ?rest ! j" if "j \<le> k" for j using that k batch by simp
  have kl: "k < length ?rest" using k batch by simp
  fix r assume r: "r \<in> set rows" "pushable sy r" "r_seq r \<le> r_seq (batch ! k)"
  show "S' (r_seq r) \<noteq> None"
  proof (cases "mark < r_seq r")
    case False
    with mark r obtain p where "S (r_seq r) = Some p" unfolding uploaded_def by fastforce
    with le show ?thesis by (auto simp: map_le_def dom_def)
  next
    case True
    with r nth [of k] sorted_below [OF rest kl, of r] obtain j where "j \<le> k" "r = ?rest ! j" by auto
    with nth up r(2) show ?thesis by auto
  qed
next
  have "batch ! k \<in> set batch" using k by simp
  then show "mark < r_seq (batch ! k)" using batch by (auto dest: in_set_takeD)
qed

lemma push_inv_kept:
  assumes "kept X hk g g'" and "push_inv streams deks valid X C hk K g mark"
  shows "push_inv streams deks valid X C hk K g' mark"
proof -
  have self: "same_self (rg_sync g) (rg_sync g')" using assms(1) by (simp add: kept_def)
  have "uploaded (rg_sync g') S rows mark = uploaded (rg_sync g) S rows mark" for S rows
    by (simp add: uploaded_def same_pushable [OF self])
  with assms self mirrors_mono [of "deks (rg_world g)" "deks (rg_world g')"] show ?thesis
    unfolding push_inv_def kept_def by (simp add: same_self_def)
qed

text \<open>After a batch was acknowledged up to row \<open>k\<close>: the watermark moves there.\<close>

lemma push_inv_move:
  assumes K: "bucket (K :: 'b hist_kv)" and inv: "push_inv streams deks valid X C hk K g mark"
    and batch: "batch = take n (filter (\<lambda>r. mark < r_seq r) (stream K (rg_store g)))" and k: "k < length batch"
    and w: "valid w" "deks w = deks (rg_world g)"
    and into: "pushed_into recs (streams (rg_world g) (sy_device (rg_sync g))) (streams w (sy_device (rg_sync g)))"
    and good: "\<forall>p \<in> set recs. \<exists>r \<in> set (stream K (rg_store g)). good_push X C hk (deks (rg_world g)) r p \<and>
      json_str (r_id r) = r_id r"
    and up: "\<And>j. j \<le> k \<Longrightarrow> pushable (rg_sync g) (batch ! j) \<Longrightarrow>
      streams w (sy_device (rg_sync g)) (r_seq (batch ! j)) \<noteq> None"
    and g': "rg_world g' = w" "rg_sync g' = rg_sync g" "rg_store g' = set_meta K (rg_store g) i v"
  shows "push_inv streams deks valid X C hk K g' (r_seq (batch ! k)) \<and> mark < r_seq (batch ! k)"
proof -
  let ?rows = "stream K (rg_store g)" and ?h = "sy_device (rg_sync g)"
  from inv have ok: "store_ok K (rg_store g)" and room: "kv_seq K (st_history (rg_store g)) \<noteq> - 1"
    and mir: "mirrors X C hk (deks (rg_world g)) (streams (rg_world g) ?h) ?rows"
    and upl: "uploaded (rg_sync g) (streams (rg_world g) ?h) ?rows mark"
    by (simp_all add: push_inv_def)
  note sorted = history_bucket.stream_sorted [OF hist_of_bucket [OF K] ok]
  have le: "streams (rg_world g) ?h \<subseteq>\<^sub>m streams w ?h" using into by (simp add: pushed_into_def)
  note moved = uploaded_batch [OF sorted upl batch k le up]
  have "batch ! k \<in> set batch" using k by simp
  then have "batch ! k \<in> set ?rows" using batch by (auto dest: in_set_takeD)
  then have "kv_get K (st_history (rg_store g)) (seq_key (r_seq (batch ! k))) = Some (Doc (batch ! k))"
    using history_bucket.stream_mem [OF hist_of_bucket [OF K] ok] by simp
  from history_bucket.store_ok_history [OF hist_of_bucket [OF K] ok this] have "r_seq (batch ! k) \<le> kv_seq K (st_history (rg_store g))" by auto
  with room have "r_seq (batch ! k) \<noteq> - 1" by (metis word_order.extremum_unique)
  with moved inv w g' mirrors_pushed [OF mir into good] show ?thesis
    by (simp add: push_inv_def)
qed

lemma sealed_good:
  assumes K: "bucket (K :: 'b hist_kv)" and ok: "store_ok K (rg_store g)"
    and up: "sealed_upto X C hk g batch c idx recs" and c: "c \<le> length batch"
    and sub: "set batch \<subseteq> set (stream K (rg_store g))"
  shows "\<forall>p \<in> set recs. \<exists>x \<in> set (stream K (rg_store g)). good_push X C hk (deks (rg_world g)) x p \<and>
    json_str (r_id x) = r_id x"
proof
  fix p assume "p \<in> set recs"
  then obtain m where m: "m < length recs" "recs ! m = p" by (auto simp: in_set_conv_nth)
  with up have g: "good_push X C hk (deks (rg_world g)) (batch ! (idx ! m)) p" "m < length idx"
    by (auto simp: sealed_upto_def list_all2_conv_all_nth)
  from g(2) have "idx ! m \<in> set idx" by (rule nth_mem)
  with up c have "idx ! m < length batch" by (auto simp: sealed_upto_def)
  then have mem: "batch ! (idx ! m) \<in> set (stream K (rg_store g))" using sub nth_mem by blast
  have "json_str (r_id (batch ! (idx ! m))) = r_id (batch ! (idx ! m))"
    using history_bucket.ids_stream [OF hist_of_bucket [OF K] ok mem]
      history_bucket.store_ok_ids [OF hist_of_bucket [OF K] ok] by blast
  with g(1) mem show "\<exists>x \<in> set (stream K (rg_store g)). good_push X C hk (deks (rg_world g)) x p \<and>
    json_str (r_id x) = r_id x" by blast
qed

text \<open>The rows a short send covers: those whose sealed record is among the first \<open>m\<close>.\<close>

lemma sealed_sent:
  assumes up: "sealed_upto X C hk g batch c idx recs" and m: "0 < m" "m \<le> length recs"
    and j: "j \<le> (if m = length recs then c - 1 else idx ! (m - 1))" "pushable (rg_sync g) (batch ! j)" "0 < c"
  shows "\<exists>p \<in> set (take m recs). ps_seq p = r_seq (batch ! j)"
proof -
  from up have idx: "idx = filter (\<lambda>j. pushable (rg_sync g) (batch ! j)) [0 ..< c]"
    and all2: "list_all2 (\<lambda>j p. good_push X C hk (deks (rg_world g)) (batch ! j) p) idx recs"
    unfolding sealed_upto_def by blast+
  have len: "length idx = length recs" using all2 by (rule list_all2_lengthD)
  have "\<exists>i < m. idx ! i = j"
  proof (cases "m = length recs")
    case True
    with j have "j \<in> set idx" using idx by auto
    with True len show ?thesis by (auto simp: in_set_conv_nth)
  next
    case False
    with j(1) have "j \<le> idx ! (m - 1)" by simp
    moreover have "m - 1 < length idx" using m len by linarith
    ultimately obtain i where "i \<le> m - 1" "idx ! i = j"
      using filter_upt_prefix [of "m - 1" "\<lambda>j. pushable (rg_sync g) (batch ! j)" c j] j(2) idx by auto
    moreover from this m have "i < m" by linarith
    ultimately show ?thesis by blast
  qed
  then obtain i where i: "i < m" "idx ! i = j" by blast
  with m have il: "i < length recs" by linarith
  with all2 i have "good_push X C hk (deks (rg_world g)) (batch ! j) (recs ! i)"
    by (auto simp: list_all2_conv_all_nth)
  then have "ps_seq (recs ! i) = r_seq (batch ! j)" by (simp add: good_push_def)
  moreover have "recs ! i \<in> set (take m recs)"
    using i(1) il m nth_mem [of i "take m recs"] by simp
  ultimately show ?thesis by blast
qed

text \<open>The rest of a pass once the batch is sealed.\<close>

definition after_seal ::
  "'b hist_kv \<Rightarrow> hrec list \<Rightarrow> push_record list \<Rightarrow> nat list \<Rightarrow> nat \<Rightarrow> ('w, 'b, (u64 \<times> nat) option) step" where
  "after_seal K batch recs idx c =
    (if recs = [] then
       (let wm = r_seq (batch ! (c - 1)) in andthen (write_watermark K wm) (\<lambda>_. give (Some (wm, 0))))
     else
       andthen (push_backoff A (length recs) recs) (\<lambda>sent.
         let wm = (if sent = length recs then r_seq (batch ! (c - 1)) else r_seq (batch ! (idx ! (sent - 1))))
         in andthen (write_watermark K wm) (\<lambda>_. give (Some (wm, sent)))))"

lemma meta_set: "bucket (K :: 'b hist_kv) \<Longrightarrow> store_meta K (set_meta K st k v) k = v"
  by (simp add: store_meta_def set_meta_def bucket.get_put)

lemma after_seal_ok:
  assumes K: "bucket (K :: 'b hist_kv)" and inv: "push_inv streams deks valid X C hk K g mark"
    and batch: "batch = take n (filter (\<lambda>r. mark < r_seq r) (stream K (rg_store g)))"
    and c: "0 < c" "c \<le> length batch" and up: "sealed_upto X C hk g batch c idx recs"
    and run: "after_seal K batch recs idx c g = (g', r)"
  shows "\<exists>mark'. push_inv streams deks valid X C hk K g' mark' \<and> rg_sync g' = rg_sync g \<and>
    stream K (rg_store g') = stream K (rg_store g) \<and> st_host_id (rg_store g') = st_host_id (rg_store g) \<and>
    r \<noteq> Inr None \<and> (\<forall>e. r = Inl e \<longrightarrow> mark' = mark) \<and>
    (mark' = mark \<and> rg_store g' = rg_store g \<or> store_meta K (rg_store g') meta_last_uploaded = format_uint mark') \<and>
    (\<forall>wm n. r = Inr (Some (wm, n)) \<longrightarrow> wm = mark' \<and> mark < wm \<and> wm \<in> r_seq ` set (stream K (rg_store g)))"
proof (cases "recs = []")
  let ?h = "sy_device (rg_sync g)" and ?rows = "stream K (rg_store g)"
  from inv have ok: "store_ok K (rg_store g)" and v: "valid (rg_world g)" and dev: "json_str ?h = ?h"
    by (simp_all add: push_inv_def)
  have sub: "set batch \<subseteq> set ?rows" using batch by (auto dest: in_set_takeD)
  note good = sealed_good [OF K ok up c(2) sub]
  have row: "r_seq (batch ! k) \<in> r_seq ` set ?rows" if "k < length batch" for k
    using nth_mem [OF that] sub by blast
  have c1: "c - 1 < length batch" using c by linarith
  {
    case True
    let ?wm = "r_seq (batch ! (c - 1))"
    have res: "g' = g\<lparr>rg_store := set_meta K (rg_store g) meta_last_uploaded (format_uint ?wm)\<rparr>" "r = Inr (Some (?wm, 0))"
      using run True by (simp_all add: after_seal_def andthen_def write_watermark_def give_def Let_def)
    from True up have "idx = []" by (auto simp: sealed_upto_def)
    moreover have "filter (\<lambda>j. pushable (rg_sync g) (batch ! j)) [0 ..< c] = idx"
      using up unfolding sealed_upto_def by (rule conjunct1 [THEN sym])
    ultimately have "streams (rg_world g) ?h (r_seq (batch ! j)) \<noteq> None"
      if "j \<le> c - 1" "pushable (rg_sync g) (batch ! j)" for j
      using that c(1) by (auto simp: filter_empty_conv)
    from push_inv_move [OF K inv batch c1 v refl pushed_into_refl good this, of g'] res row [OF c1]
    meta_set [OF K] show ?thesis by (intro exI [of _ ?wm]) simp
  next
    case False
    obtain g2 r2 where 2: "push_backoff A (length recs) recs g = (g2, r2)" by fastforce
    from push_backoff_ok [OF 2 v _ _ refl] False dev
    have b: "valid (rg_world g2)" "deks (rg_world g2) = deks (rg_world g)" "rg_sync g2 = rg_sync g"
        "rg_store g2 = rg_store g"
      and into: "pushed_into recs (streams (rg_world g) ?h) (streams (rg_world g2) ?h)"
      and sent: "\<And>m. r2 = Inr m \<Longrightarrow> 0 < m \<and> m \<le> length recs \<and>
        (\<forall>p \<in> set (take m recs). streams (rg_world g2) ?h (ps_seq p) \<noteq> None)" by auto
    show ?thesis
    proof (cases r2)
      case (Inl e)
      then have res: "g' = g2" "r = Inl e" using run False 2 by (simp_all add: after_seal_def andthen_def)
      have "uploaded (rg_sync g) (streams (rg_world g2) ?h) ?rows mark"
        using inv into by (auto simp: push_inv_def pushed_into_def intro: uploaded_mono)
      with inv mirrors_pushed [OF _ into good] b have "push_inv streams deks valid X C hk K g2 mark" by (simp add: push_inv_def)
      with res b show ?thesis by (intro exI [of _ mark]) simp
    next
      case (Inr m)
      note sent = sent [OF Inr]
      define k where "k = (if m = length recs then c - 1 else idx ! (m - 1))"
      have "length idx = length recs" using up by (auto simp: sealed_upto_def dest: list_all2_lengthD)
      then have "idx ! (m - 1) \<in> set idx" using sent by (intro nth_mem) linarith
      then have k: "k < length batch" using up c by (auto simp: sealed_upto_def k_def)
      have cover: "streams (rg_world g2) ?h (r_seq (batch ! j)) \<noteq> None"
        if "j \<le> k" "pushable (rg_sync g) (batch ! j)" for j
        using sealed_sent [OF up _ _ that(1) [unfolded k_def] that(2) c(1)] sent by metis
      have res: "g' = g2\<lparr>rg_store := set_meta K (rg_store g2) meta_last_uploaded (format_uint (r_seq (batch ! k)))\<rparr>"
          "r = Inr (Some (r_seq (batch ! k), m))"
        using run False 2 Inr unfolding k_def
        by (cases "m = length recs"; simp add: after_seal_def andthen_def write_watermark_def give_def Let_def)+
      have "push_inv streams deks valid X C hk K g' (r_seq (batch ! k)) \<and> mark < r_seq (batch ! k)"
        by (rule push_inv_move [OF K inv batch k b(1,2) into good cover]) (simp_all add: res b)
      with res row [OF k] b meta_set [OF K] show ?thesis by (intro exI [of _ "r_seq (batch ! k)"]) simp
    qed
  }
qed

lemma push_round_ok:
  assumes box: "sealed_box X" and K: "bucket (K :: 'b hist_kv)"
    and run: "push_round X C K A hk version mark g = (g', r)" and inv: "push_inv streams deks valid X C hk K g mark"
  shows "\<exists>mark'. push_inv streams deks valid X C hk K g' mark' \<and> same_self (rg_sync g) (rg_sync g') \<and>
    stream K (rg_store g') = stream K (rg_store g) \<and> st_host_id (rg_store g') = st_host_id (rg_store g) \<and>
    (r = Inr None \<longrightarrow> mark' = mark \<and> (\<forall>x \<in> set (stream K (rg_store g)). r_seq x \<le> mark)) \<and>
    (\<forall>e. r = Inl e \<longrightarrow> mark' = mark) \<and>
    (mark' = mark \<and> rg_store g' = rg_store g \<or> store_meta K (rg_store g') meta_last_uploaded = format_uint mark') \<and>
    (\<forall>wm n. r = Inr (Some (wm, n)) \<longrightarrow> wm = mark' \<and> mark < wm \<and> wm \<in> r_seq ` set (stream K (rg_store g)))"
proof -
  let ?rows = "stream K (rg_store g)"
  define batch where "batch = take push_batch_limit (filter (\<lambda>r. mark < r_seq r) ?rows)"
  from inv have ok: "store_ok K (rg_store g)" and mark: "mark \<noteq> - 1" and v: "valid (rg_world g)"
    and keys: "keys_ok X hk (deks (rg_world g)) (rg_sync g)"
    and dev: "json_str (sy_device (rg_sync g)) = sy_device (rg_sync g)"
    by (simp_all add: push_inv_def)
  have since: "since K (rg_store g) mark (int push_batch_limit) = Inr batch"
    using history_bucket.since_stream [OF hist_of_bucket [OF K] ok mark]
    by (simp add: push_batch_limit_def batch_def)
  show ?thesis
  proof (cases "batch = []")
    case True
    then have "filter (\<lambda>r. mark < r_seq r) ?rows = []" by (simp add: push_batch_limit_def batch_def)
    then have "\<forall>x \<in> set ?rows. r_seq x \<le> mark" by (auto simp: filter_empty_conv not_less)
    moreover have "g' = g" "r = Inr None" using run since True by (simp_all add: push_round_def)
    ultimately show ?thesis using inv by (intro exI [of _ mark]) simp
  next
    case False
    obtain g1 r1 where 1: "seal_batch X C A hk version 0 batch [] [] 0 0 g = (g1, r1)" by fastforce
    have "sealed_upto X C hk g batch 0 [] []" by (simp add: sealed_upto_def)
    from seal_batch_ok [OF box 1 _ _ v keys dev this, of "[]"] False
    have k1: "kept X hk g g1" and sealed: "\<And>recs idx c. r1 = Inr (recs, idx, c) \<Longrightarrow>
        c \<le> length batch \<and> 0 < c \<and> sealed_upto X C hk g1 batch c idx recs" by auto
    have inv1: "push_inv streams deks valid X C hk K g1 mark" by (rule push_inv_kept [OF k1 inv])
    have self1: "same_self (rg_sync g) (rg_sync g1)" and st1: "rg_store g1 = rg_store g"
      using k1 by (simp_all add: kept_def)
    have batch1: "batch = take push_batch_limit (filter (\<lambda>r. mark < r_seq r) (stream K (rg_store g1)))"
      using st1 by (simp add: batch_def)
    show ?thesis
    proof (cases r1)
      case (Inl e)
      then have "g' = g1" "r = Inl e" using run since False 1 by (simp_all add: push_round_def andthen_def)
      with inv1 self1 st1 show ?thesis by (intro exI [of _ mark]) simp
    next
      case (Inr out)
      obtain recs idx c where out: "out = (recs, idx, c)" by (cases out)
      with sealed Inr have c: "0 < c" "c \<le> length batch" and up: "sealed_upto X C hk g1 batch c idx recs" by auto
      have "after_seal K batch recs idx c g1 = (g', r)"
        using run since False 1 Inr out c(1) by (simp add: push_round_def andthen_def after_seal_def)
      from after_seal_ok [OF K inv1 batch1 c up this] self1 st1 show ?thesis by auto
    qed
  qed
qed

lemma push_rounds_ok:
  assumes box: "sealed_box X" and K: "bucket (K :: 'b hist_kv)"
  shows "push_inv streams deks valid X C hk K g mark \<Longrightarrow> marked K (rg_store g) mark \<Longrightarrow>
    length (filter (\<lambda>x. mark < r_seq x) (stream K (rg_store g))) < fuel \<Longrightarrow>
    \<exists>g' n err mark'. push_rounds fuel X C K A hk version mark pushed g = (g', Some (n, err)) \<and>
      push_inv streams deks valid X C hk K g' mark' \<and> marked K (rg_store g') mark' \<and>
      same_self (rg_sync g) (rg_sync g') \<and> stream K (rg_store g') = stream K (rg_store g) \<and>
      (err = None \<longrightarrow> (\<forall>x \<in> set (stream K (rg_store g)). r_seq x \<le> mark'))"
proof (induction fuel arbitrary: g mark pushed)
  case (Suc fuel)
  obtain g1 r where 1: "push_round X C K A hk version mark g = (g1, r)" by fastforce
  from push_round_ok [OF box K 1 Suc.prems(1)] obtain mark1 where
    inv1: "push_inv streams deks valid X C hk K g1 mark1" and self1: "same_self (rg_sync g) (rg_sync g1)"
    and rows: "stream K (rg_store g1) = stream K (rg_store g)"
    and last: "r = Inr None \<longrightarrow> mark1 = mark \<and> (\<forall>x \<in> set (stream K (rg_store g)). r_seq x \<le> mark)"
    and meta: "mark1 = mark \<and> rg_store g1 = rg_store g \<or> store_meta K (rg_store g1) meta_last_uploaded = format_uint mark1"
    and moved: "\<forall>wm n. r = Inr (Some (wm, n)) \<longrightarrow> wm = mark1 \<and> mark < wm \<and> wm \<in> r_seq ` set (stream K (rg_store g))"
    by blast
  have marked1: "marked K (rg_store g1) mark1" using meta Suc.prems(2) by (auto simp: marked_format)
  show ?case
  proof (cases r)
    case (Inl e)
    with 1 inv1 marked1 self1 rows show ?thesis by auto
  next
    case (Inr out)
    show ?thesis
    proof (cases out)
      case None
      with Inr 1 inv1 marked1 self1 rows last show ?thesis by auto
    next
      case (Some wn)
      obtain wm n where wn: "wn = (wm, n)" by fastforce
      with moved Inr Some obtain x where wm: "wm = mark1" "mark < mark1" "x \<in> set (stream K (rg_store g))" "r_seq x = mark1"
        by auto
      have "length (filter (\<lambda>x. mark1 < r_seq x) (stream K (rg_store g))) <
          length (filter (\<lambda>x. mark < r_seq x) (stream K (rg_store g)))"
      proof -
        let ?rest = "filter (\<lambda>x. mark < r_seq x) (stream K (rg_store g))"
        have "filter (\<lambda>x. mark1 < r_seq x) ?rest = filter (\<lambda>x. mark1 < r_seq x) (stream K (rg_store g))"
          using wm(2) by (auto intro!: filter_cong)
        moreover have "length (filter (\<lambda>x. mark1 < r_seq x) ?rest) < length ?rest"
          using wm by (intro length_filter_less [where x = x]) auto
        ultimately show ?thesis by simp
      qed
      then have fuel: "length (filter (\<lambda>x. mark1 < r_seq x) (stream K (rg_store g1))) < fuel"
        using Suc.prems(3) rows by simp
      from Suc.IH [OF inv1 marked1 fuel, of "pushed + n"] same_self_trans [OF self1] rows show ?thesis
        by (auto simp: 1 Inr Some wn wm(1))
    qed
  qed
qed simp

lemma resolve_hk_keeps:
  assumes "resolve_hk X A g = (g', r)" and "valid (rg_world g)"
  shows "valid (rg_world g') \<and> streams (rg_world g') = streams (rg_world g) \<and> deks (rg_world g') = deks (rg_world g) \<and>
    rg_store g' = rg_store g \<and> (\<exists>kv. rg_sync g' = (rg_sync g)\<lparr>sy_hk := kv\<rparr>)"
proof (cases "sy_hk (rg_sync g)")
  case (Some kv)
  with assms show ?thesis by (auto simp: resolve_hk_def with_sync_def give_def intro!: exI [of _ "Some kv"])
next
  case None
  obtain w rr where w: "ap_hk_wrap A (sy_device (rg_sync g)) (rg_world g) = (w, rr)" by fastforce
  note law = hk_law [OF w assms(2)]
  have same: "\<exists>kv. rg_sync g = (rg_sync g)\<lparr>sy_hk := kv\<rparr>" using None by (intro exI [of _ None]) simp
  from assms(1) None w law same show ?thesis
    by (auto simp: resolve_hk_def with_sync_def andthen_def net_def get_hk_wrap_def crypto_step_def give_def
      fail_with_def put_sync_def split: sum.splits net_error.splits if_splits)
qed

lemma push_ok:
  assumes box: "sealed_box X" and K: "bucket (K :: 'b hist_kv)"
    and group: "\<And>g1 k v. resolve_hk X A g = (g1, Inr (k, v)) \<Longrightarrow> k = hk"
    and inv: "push_inv streams deks valid X C hk K g mark" and marked: "marked K (rg_store g) mark"
    and fuel: "length (stream K (rg_store g)) < fuel"
  shows "\<exists>g' n err mark'. push fuel X C K A g = (g', Some (n, err)) \<and>
    push_inv streams deks valid X C hk K g' mark' \<and> marked K (rg_store g') mark' \<and>
    sy_device (rg_sync g') = sy_device (rg_sync g) \<and> sy_sync_prompts (rg_sync g') = sy_sync_prompts (rg_sync g) \<and>
    stream K (rg_store g') = stream K (rg_store g) \<and>
    (err = None \<longrightarrow> (\<forall>x \<in> set (stream K (rg_store g)). r_seq x \<le> mark'))"
proof -
  obtain g1 r where 1: "resolve_hk X A g = (g1, r)" by fastforce
  from inv have v: "valid (rg_world g)" by (simp add: push_inv_def)
  from resolve_hk_keeps [OF 1 v] obtain kv where k: "valid (rg_world g1)" "streams (rg_world g1) = streams (rg_world g)"
      "deks (rg_world g1) = deks (rg_world g)" "rg_store g1 = rg_store g" "rg_sync g1 = (rg_sync g)\<lparr>sy_hk := kv\<rparr>"
    by blast
  have inv1: "push_inv streams deks valid X C hk K g1 mark"
    using inv k by (simp add: push_inv_def keys_ok_def uploaded_def pushable_def)
  show ?thesis
  proof (cases r)
    case (Inl e)
    with 1 inv1 marked k show ?thesis by (auto simp: push_def)
  next
    case (Inr kv')
    obtain key version where kv': "kv' = (key, version)" by fastforce
    with group 1 Inr have key: "key = hk" by simp
    have read: "read_watermark K g1 = (g1, Inr mark)" using marked k(4) by (simp add: marked_read)
    have "length (filter (\<lambda>x. mark < r_seq x) (stream K (rg_store g1))) < fuel"
      using fuel k(4) le_less_trans [OF length_filter_le] by simp
    moreover have "marked K (rg_store g1) mark" using marked k(4) by simp
    ultimately obtain g' n err mark' where
      out: "push_rounds fuel X C K A hk version mark 0 g1 = (g', Some (n, err))"
        "push_inv streams deks valid X C hk K g' mark'" "marked K (rg_store g') mark'"
        "same_self (rg_sync g1) (rg_sync g')" "stream K (rg_store g') = stream K (rg_store g1)"
        "err = None \<longrightarrow> (\<forall>x \<in> set (stream K (rg_store g1)). r_seq x \<le> mark')"
      using push_rounds_ok [OF box K inv1, of fuel version 0] by blast
    then show ?thesis using 1 Inr kv' key read k by (auto simp: push_def same_self_def)
  qed
qed

end

end
