(* ===== verification/Sync_Pull.thy ===== *)
theory Sync_Pull
  imports Sync_Contract
begin

text \<open>
  What \<open>PullCiphertext\<close> and \<open>OpenRecords\<close> of \<open>internal/syncer\<close> deliver: the page loops read a whole
  stream and the whole set of wraps, and every record that mirrors a local one opens to it.
\<close>

subsection \<open>Pages of a sorted list\<close>

lemma sorted_after:
  assumes "finite D"
  shows "sorted_list_of_set {q \<in> D. P q} = filter P (sorted_list_of_set (D :: 'a :: linorder set))"
  by (rule sorted_distinct_set_unique) (use assms in \<open>auto intro: sorted_wrt_filter\<close>)

lemma filter_after_nth:
  fixes xs :: "'a :: linorder list"
  assumes "sorted_wrt (<) xs" and "0 < n" and "n < length xs"
  shows "filter (\<lambda>x. xs ! (n - 1) < x) xs = drop n xs"
proof -
  have "\<not> xs ! (n - 1) < x" if "x \<in> set (take n xs)" for x
  proof -
    from that obtain i where "i < n" "x = xs ! i" using assms(3) by (auto simp: in_set_conv_nth)
    then show ?thesis using assms sorted_wrt_nth_less [of "(<)" xs i "n - 1"]
      by (cases "i = n - 1") force+
  qed
  then have "filter (\<lambda>x. xs ! (n - 1) < x) (take n xs) = []" by (simp add: filter_empty_conv)
  moreover have "xs ! (n - 1) < x" if "x \<in> set (drop n xs)" for x
  proof -
    from that obtain i where "i < length xs - n" "x = xs ! (n + i)" by (auto simp: in_set_conv_nth)
    then show ?thesis using assms sorted_wrt_nth_less [of "(<)" xs "n - 1" "n + i"] by simp
  qed
  then have "filter (\<lambda>x. xs ! (n - 1) < x) (drop n xs) = drop n xs" by (simp add: filter_id_conv)
  ultimately show ?thesis by (metis append_Nil append_take_drop_id filter_append)
qed

lemma filter_next_page:
  fixes xs :: "'a :: linorder list"
  assumes "sorted_wrt (<) xs" and "0 < n" and "n < length (filter P xs)"
    and up: "\<And>x y. P x \<Longrightarrow> x < y \<Longrightarrow> P y"
  shows "filter (\<lambda>x. filter P xs ! (n - 1) < x) xs = drop n (filter P xs)"
proof -
  let ?R = "filter P xs"
  have "?R ! (n - 1) \<in> set ?R" using assms(3) by (intro nth_mem) linarith
  then have "P (?R ! (n - 1))" by simp
  define b where "b = ?R ! (n - 1)"
  have "P b" using \<open>P (?R ! (n - 1))\<close> by (simp add: b_def)
  have "filter (\<lambda>x. b < x) ?R = filter (\<lambda>x. b < x) xs"
    unfolding filter_filter by (rule filter_cong [OF refl]) (use up [OF \<open>P b\<close>] in blast)
  then have "filter (\<lambda>x. ?R ! (n - 1) < x) xs = filter (\<lambda>x. ?R ! (n - 1) < x) ?R" by (simp add: b_def)
  with filter_after_nth [OF sorted_wrt_filter [OF assms(1)] assms(2,3)] show ?thesis by simp
qed

lemma last_take: "0 < n \<Longrightarrow> n \<le> length xs \<Longrightarrow> last (take n xs) = xs ! (n - 1)"
  by (subst last_conv_nth) (auto simp: min_def)

lemma strict_sorted_set: "sorted_wrt (<) (sorted_list_of_set (D :: 'a :: linorder set))"
  by (simp add: strict_sorted_list_of_set)

lemma records_after_eq:
  "finite (dom m) \<Longrightarrow> records_after m a = map (\<lambda>q. the (m q)) (filter (\<lambda>q. a < q) (sorted_list_of_set (dom m)))"
  by (simp add: records_after_def sorted_after)

lemma records_next_page:
  assumes "finite (dom m)" and "0 < n" and "n < length (records_after m a)"
    and key: "\<And>q p. m q = Some p \<Longrightarrow> ps_seq p = q"
  shows "records_after m (ps_seq (last (take n (records_after m a)))) = drop n (records_after m a)"
proof -
  let ?L = "sorted_list_of_set (dom m)"
  let ?R = "filter (\<lambda>q. a < q) ?L"
  have n: "n < length ?R" using assms(1,3) by (simp add: records_after_eq)
  have "?R ! (n - 1) \<in> set ?R" using n by (intro nth_mem) linarith
  then have "?R ! (n - 1) \<in> dom m" using assms(1) by simp
  moreover have "last (take n (records_after m a)) = the (m (?R ! (n - 1)))"
    using n assms(1,2) by (simp add: records_after_eq last_take)
  ultimately have "ps_seq (last (take n (records_after m a))) = ?R ! (n - 1)" using key by auto
  moreover have "filter (\<lambda>q. ?R ! (n - 1) < q) ?L = drop n ?R"
    by (rule filter_next_page [OF strict_sorted_set assms(2) n]) auto
  ultimately show ?thesis using assms(1) by (simp add: records_after_eq drop_map)
qed

lemma deks_after_eq:
  "finite (dom m) \<Longrightarrow> deks_after m c = map (\<lambda>k. the (m k)) (filter (\<lambda>k. c = [] \<or> c < k) (sorted_list_of_set (dom m)))"
  by (simp add: deks_after_def sorted_after)

lemma deks_next_page:
  assumes "finite (dom m)" and "0 < n" and "n < length (deks_after m c)"
    and key: "\<And>k d. m k = Some d \<Longrightarrow> dk_key_id d = k \<and> k \<noteq> []"
  shows "deks_after m (dk_key_id (last (take n (deks_after m c)))) = drop n (deks_after m c) \<and>
    dk_key_id (last (take n (deks_after m c))) \<noteq> []"
proof -
  let ?L = "sorted_list_of_set (dom m)" and ?P = "\<lambda>k. c = [] \<or> c < k"
  let ?R = "filter ?P ?L"
  have n: "n < length ?R" using assms(1,3) by (simp add: deks_after_eq)
  have "?R ! (n - 1) \<in> set ?R" using n by (intro nth_mem) linarith
  then have "?R ! (n - 1) \<in> dom m" using assms(1) by simp
  moreover have "last (take n (deks_after m c)) = the (m (?R ! (n - 1)))"
    using n assms(1,2) by (simp add: deks_after_eq last_take)
  ultimately have "dk_key_id (last (take n (deks_after m c))) = ?R ! (n - 1)" "?R ! (n - 1) \<noteq> []" using key by auto
  moreover have "filter (\<lambda>q. ?R ! (n - 1) < q) ?L = drop n ?R"
    by (rule filter_next_page [OF strict_sorted_set assms(2) n]) auto
  ultimately show ?thesis using assms(1) by (simp add: deks_after_eq drop_map)
qed


subsection \<open>The wrap cache\<close>

lemma add_wraps_Cons:
  "add_wraps (w # ws) m = add_wraps ws (if m (dk_key_id w) = None then m(dk_key_id w \<mapsto> w) else m)"
  by (simp add: add_wraps_def)

lemma add_wraps_le: "m \<subseteq>\<^sub>m add_wraps ws m"
proof (induction ws arbitrary: m)
  case (Cons w ws)
  have "m \<subseteq>\<^sub>m (if m (dk_key_id w) = None then m(dk_key_id w \<mapsto> w) else m)" by (auto simp: map_le_def)
  also have "\<dots> \<subseteq>\<^sub>m add_wraps ws \<dots>" by (rule Cons.IH)
  finally show ?case by (simp add: add_wraps_Cons)
qed (simp add: add_wraps_def)

lemma add_wraps_within:
  "m \<subseteq>\<^sub>m D \<Longrightarrow> \<forall>w \<in> set ws. D (dk_key_id w) = Some w \<Longrightarrow> add_wraps ws m \<subseteq>\<^sub>m D"
proof (induction ws arbitrary: m)
  case (Cons w ws)
  have "(if m (dk_key_id w) = None then m(dk_key_id w \<mapsto> w) else m) \<subseteq>\<^sub>m D"
    using Cons.prems by (auto simp: map_le_def)
  from Cons.IH [OF this] Cons.prems(2) show ?case by (simp add: add_wraps_Cons)
qed (simp add: add_wraps_def)

lemma add_wraps_all: "w \<in> set ws \<Longrightarrow> add_wraps ws m (dk_key_id w) \<noteq> None"
proof (induction ws arbitrary: m)
  case (Cons a ws)
  let ?m = "if m (dk_key_id a) = None then m(dk_key_id a \<mapsto> a) else m"
  show ?case
  proof (cases "w = a")
    case True
    have "?m (dk_key_id a) \<noteq> None" by simp
    with map_le_at [OF add_wraps_le [of ?m ws]] show ?thesis unfolding add_wraps_Cons True by blast
  next
    case False
    with Cons show ?thesis by (simp add: add_wraps_Cons)
  qed
qed simp

text \<open>The engine's caches agree with the server.\<close>

definition cache_ok :: "cbox \<Rightarrow> key \<Rightarrow> (string \<Rightarrow> dek_wrap option) \<Rightarrow> syncer \<Rightarrow> bool" where
  "cache_ok X hk D sy \<longleftrightarrow> sy_wraps sy \<subseteq>\<^sub>m D \<and>
    (\<forall>kid dek. sy_by_key sy kid = Some dek \<longrightarrow> holds_key X hk D kid dek)"

lemma holds_key_unique: "holds_key X hk D kid a \<Longrightarrow> holds_key X hk D kid b \<Longrightarrow> a = b"
  by (auto simp: holds_key_def)

definition net_only :: "sync_error + 'a \<Rightarrow> bool" where
  "net_only r \<longleftrightarrow> (\<forall>e. r = Inl e \<longrightarrow> (\<exists>x. e = Net x))"

text \<open>A step of the pull leaves the server and the rest of the engine alone.\<close>

definition pull_kept :: "('w, 'b) rig \<Rightarrow> ('w, 'b) rig \<Rightarrow> bool" where
  "pull_kept g g' \<longleftrightarrow> rg_store g' = rg_store g \<and> sy_hk (rg_sync g') = sy_hk (rg_sync g) \<and>
    sy_device (rg_sync g') = sy_device (rg_sync g) \<and> sy_key (rg_sync g') = sy_key (rg_sync g)"

lemma pull_kept_trans: "pull_kept a b \<Longrightarrow> pull_kept b c \<Longrightarrow> pull_kept a c"
  by (simp add: pull_kept_def)

lemma pulled_as_seq: "ps_seq (pulled_as p) = pl_seq p"
  by (simp add: pulled_as_def)

text \<open>The JSON round trip of a payload, and the codec's promise.\<close>

definition json_payload :: "payload \<Rightarrow> payload" where
  "json_payload p = p
    \<lparr>pd_id := json_str (pd_id p), pd_host_id := json_str (pd_host_id p), pd_hostname := json_str (pd_hostname p),
     pd_session := json_str (pd_session p), pd_cmd := json_str (pd_cmd p), pd_cwd := json_str (pd_cwd p),
     pd_executor := json_str (pd_executor p), pd_type := json_str (pd_type p),
     pd_target_id := json_str (pd_target_id p), pd_prompt_id := json_str (pd_prompt_id p),
     pd_prompt := json_str (pd_prompt p), pd_tag_name := json_str (pd_tag_name p),
     pd_tag_desc := json_str (pd_tag_desc p), pd_tag_op := json_str (pd_tag_op p)\<rparr>"

definition codec_ok :: "codec \<Rightarrow> bool" where
  "codec_ok C \<longleftrightarrow> (\<forall>p. cd_decode C (cd_encode C p) = Some (json_payload p))"

text \<open>What of a local record another machine sees: its tags, tombstone mark and key id are its own.\<close>

definition shared :: "hrec \<Rightarrow> hrec" where
  "shared r = r\<lparr>r_tags := [], r_deleted_ms := 0, r_key_id := []\<rparr>"

lemma shared_payload:
  assumes "json_rec r = r" and "r_host_id r = host"
  shows "shared (record_of_payload (json_payload (payload_of r)) host (r_seq r) kid) = shared r"
proof -
  have "json_payload (payload_of r) = payload_of (json_rec r)"
    by (simp add: json_payload_def payload_of_def json_rec_def)
  with assms show ?thesis by (simp add: shared_def record_of_payload_def payload_of_def)
qed

context sync_server
begin

definition still :: "'w \<Rightarrow> 'w \<Rightarrow> bool" where
  "still w w' \<longleftrightarrow> valid w' \<and> streams w' = streams w \<and> deks w' = deks w"

lemma still_trans: "still a b \<Longrightarrow> still b c \<Longrightarrow> still a c"
  by (simp add: still_def)

lemma pull_pages_ok:
  "valid (rg_world g) \<Longrightarrow> after \<noteq> - 1 \<Longrightarrow> length (records_after (streams (rg_world g) host) after) < fuel \<Longrightarrow>
    \<exists>g' r. pull_pages fuel A host after out g = (g', Some r) \<and> still (rg_world g) (rg_world g') \<and>
      rg_sync g' = rg_sync g \<and> rg_store g' = rg_store g \<and> net_only r \<and>
      (\<forall>prs a. r = Inr (prs, a) \<longrightarrow>
        map pulled_as prs = map pulled_as out @ records_after (streams (rg_world g) host) after)"
proof (induction fuel arbitrary: after out g)
  case (Suc fuel)
  let ?R = "records_after (streams (rg_world g) host) after"
  obtain w rr where w: "ap_pull A host after push_batch_limit (rg_world g) = (w, rr)" by fastforce
  have st: "still (rg_world g) w" using pull_law [OF w Suc.prems(1)] by (simp add: still_def)
  show ?case
  proof (cases rr)
    case (Inl e)
    with w st show ?thesis by (simp add: net_def net_only_def)
  next
    case (Inr resp)
    have pos: "(0::nat) < push_batch_limit" "push_batch_limit \<le> 1000" by (simp_all add: push_batch_limit_def)
    from pull_page [OF w [unfolded Inr] Suc.prems(1,2) pos]
    have page: "map pulled_as (pr_records resp) = take push_batch_limit ?R"
      and nxt: "pr_next_after resp = (if push_batch_limit < length ?R then Some (pl_seq (last (pr_records resp))) else None)"
      by simp_all
    show ?thesis
    proof (cases "push_batch_limit < length ?R")
      case False
      with nxt page w Inr st show ?thesis by (simp add: net_def net_only_def Let_def)
    next
      case True
      have fin: "finite (dom (streams (rg_world g) host))" by (rule finite_streams [OF Suc.prems(1)])
      have ne: "pr_records resp \<noteq> []" using page True pos by (cases "pr_records resp") auto
      let ?after = "pl_seq (last (pr_records resp))"
      have "pulled_as (last (pr_records resp)) = last (take push_batch_limit ?R)"
        using ne page last_map [of "pr_records resp" pulled_as] by simp
      then have key: "?after = ps_seq (last (take push_batch_limit ?R))" by (metis pulled_as_seq)
      have rest: "records_after (streams (rg_world g) host) ?after = drop push_batch_limit ?R"
        unfolding key by (rule records_next_page [OF fin pos(1) True]) (rule stream_seq [OF Suc.prems(1)])
      have nomax: "?after \<noteq> - 1"
      proof
        assume "?after = - 1"
        then have "records_after (streams (rg_world g) host) ?after = []"
          by (simp add: records_after_def word_order.extremum_strict)
        with rest True show False by simp
      qed
      let ?g = "g\<lparr>rg_world := w\<rparr>"
      have go: "pull_pages (Suc fuel) A host after out g = pull_pages fuel A host ?after (out @ pr_records resp) ?g"
        using w Inr nxt True ne by (simp add: net_def Let_def)
      have v: "valid (rg_world ?g)" and same: "streams (rg_world ?g) = streams (rg_world g)"
        using st by (simp_all add: still_def)
      have fuel: "length (records_after (streams (rg_world ?g) host) ?after) < fuel"
        using rest same True pos Suc.prems(3) by simp
      have join: "map pulled_as (pr_records resp) @ records_after (streams (rg_world g) host) ?after = ?R"
        unfolding page rest by simp
      from Suc.IH [OF v nomax fuel, of "out @ pr_records resp"] go same join st still_trans show ?thesis by fastforce
    qed
  qed
qed simp

lemma refresh_wraps_ok:
  "valid (rg_world g) \<Longrightarrow> cache_ok X hk (deks (rg_world g)) (rg_sync g) \<Longrightarrow>
    length (deks_after (deks (rg_world g)) cursor) < fuel \<Longrightarrow>
    \<exists>g' r. refresh_wraps fuel A cursor g = (g', Some r) \<and> still (rg_world g) (rg_world g') \<and> pull_kept g g' \<and>
      cache_ok X hk (deks (rg_world g)) (rg_sync g') \<and> sy_wraps (rg_sync g) \<subseteq>\<^sub>m sy_wraps (rg_sync g') \<and> net_only r \<and>
      (\<forall>x. r = Inr x \<longrightarrow> (\<forall>d \<in> set (deks_after (deks (rg_world g)) cursor). sy_wraps (rg_sync g') (dk_key_id d) \<noteq> None))"
proof (induction fuel arbitrary: cursor g)
  case (Suc fuel)
  let ?D = "deks (rg_world g)" and ?R = "deks_after (deks (rg_world g)) cursor"
  obtain w rr where w: "ap_list_dek A cursor dek_page_limit (rg_world g) = (w, rr)" by fastforce
  have st: "still (rg_world g) w" using list_dek_law [OF w Suc.prems(1)] by (simp add: still_def)
  show ?case
  proof (cases rr)
    case (Inl e)
    with w st Suc.prems(2) show ?thesis by (simp add: net_def net_only_def pull_kept_def)
  next
    case (Inr resp)
    have pos: "(0::nat) < dek_page_limit" "dek_page_limit \<le> 1000" by (simp_all add: dek_page_limit_def)
    from list_dek_page [OF w [unfolded Inr] Suc.prems(1) pos]
    have page: "dl_wraps resp = take dek_page_limit ?R"
      and nxt: "dl_next_cursor resp = (if dek_page_limit < length ?R then dk_key_id (last (dl_wraps resp)) else [])"
      by simp_all
    have fin: "finite (dom ?D)" by (rule finite_deks [OF Suc.prems(1)])
    have mem: "?D (dk_key_id d) = Some d" if d: "d \<in> set ?R" for d
    proof -
      from d fin obtain k where k: "k \<in> dom ?D" "d = the (?D k)" by (auto simp: deks_after_eq)
      then obtain d' where d': "?D k = Some d'" by blast
      with k dek_key [OF Suc.prems(1) d'] show ?thesis by simp
    qed
    let ?g = "g\<lparr>rg_world := w, rg_sync := (rg_sync g)\<lparr>sy_wraps := add_wraps (dl_wraps resp) (sy_wraps (rg_sync g))\<rparr>\<rparr>"
    have cache: "cache_ok X hk ?D (rg_sync ?g)"
      using Suc.prems(2) page mem add_wraps_within [of "sy_wraps (rg_sync g)" ?D "dl_wraps resp"]
      by (auto simp: cache_ok_def dest: in_set_takeD)
    have le: "sy_wraps (rg_sync g) \<subseteq>\<^sub>m sy_wraps (rg_sync ?g)" using add_wraps_le by simp
    have got: "sy_wraps (rg_sync ?g) (dk_key_id d) \<noteq> None" if "d \<in> set (take dek_page_limit ?R)" for d
      using that page add_wraps_all by simp
    show ?thesis
    proof (cases "dek_page_limit < length ?R")
      case False
      then have "take dek_page_limit ?R = ?R" by simp
      with got False nxt w Inr st cache le show ?thesis
        by (simp add: net_def net_only_def pull_kept_def Let_def)
    next
      case True
      let ?c = "dk_key_id (last (take dek_page_limit ?R))"
      from deks_next_page [OF fin pos(1) True dek_key [OF Suc.prems(1)]]
      have rest: "deks_after ?D ?c = drop dek_page_limit ?R" "?c \<noteq> []" by simp_all
      have go: "refresh_wraps (Suc fuel) A cursor g = refresh_wraps fuel A ?c ?g"
        using w Inr nxt True page rest(2) by (simp add: net_def Let_def)
      have v: "valid (rg_world ?g)" and same: "deks (rg_world ?g) = ?D" using st by (simp_all add: still_def)
      have fuel: "length (deks_after (deks (rg_world ?g)) ?c) < fuel" using rest same True pos Suc.prems(3) by simp
      from Suc.IH [OF v _ fuel] cache same obtain g' r where ih: "refresh_wraps fuel A ?c ?g = (g', Some r)"
          "still w (rg_world g')" "pull_kept ?g g'" "cache_ok X hk ?D (rg_sync g')"
          "sy_wraps (rg_sync ?g) \<subseteq>\<^sub>m sy_wraps (rg_sync g')" "net_only r"
          "\<forall>x. r = Inr x \<longrightarrow> (\<forall>d \<in> set (deks_after ?D ?c). sy_wraps (rg_sync g') (dk_key_id d) \<noteq> None)"
        by auto
      have "\<forall>d \<in> set ?R. sy_wraps (rg_sync g') (dk_key_id d) \<noteq> None" if "r = Inr x" for x
      proof
        fix d assume "d \<in> set ?R"
        then have "d \<in> set (take dek_page_limit ?R) \<or> d \<in> set (drop dek_page_limit ?R)"
          by (metis Un_iff append_take_drop_id set_append)
        with ih(7) that rest(1) got map_le_at [OF ih(5)] show "sy_wraps (rg_sync g') (dk_key_id d) \<noteq> None" by auto
      qed
      with go ih st still_trans map_le_trans [OF le ih(5)] show ?thesis by (auto simp: pull_kept_def)
    qed
  qed
qed simp

lemma dek_for_key_ok:
  assumes v: "valid (rg_world g)" and cache: "cache_ok X hk (deks (rg_world g)) (rg_sync g)"
    and fuel: "card (dom (deks (rg_world g))) < fuel" and key: "holds_key X hk (deks (rg_world g)) kid dek"
  shows "\<exists>g' r. dek_for_key fuel X A hk kid g = (g', Some r) \<and> still (rg_world g) (rg_world g') \<and> pull_kept g g' \<and>
    cache_ok X hk (deks (rg_world g)) (rg_sync g') \<and> (r = Inr dek \<or> (\<exists>x. r = Inl (Net x)))"
proof (cases "sy_by_key (rg_sync g) kid")
  case (Some a)
  with cache key have "a = dek" using holds_key_unique unfolding cache_ok_def by blast
  with Some v cache show ?thesis by (simp add: dek_for_key_def still_def pull_kept_def)
next
  case None
  let ?D = "deks (rg_world g)"
  from key obtain d where d: "?D kid = Some d" "dk_key_id d = kid"
      "unwrap_dek X (dk_blob d) hk kid (dk_device_id d) (dk_epoch d) (dk_hk_version d) = Inr dek"
    by (auto simp: holds_key_def)
  have unwrap: "\<exists>g2. unwrap_held X hk kid g1 = (g2, Inr dek) \<and> rg_world g2 = rg_world g1 \<and> pull_kept g1 g2 \<and>
      cache_ok X hk ?D (rg_sync g2)"
    if "sy_wraps (rg_sync g1) kid \<noteq> None" and "cache_ok X hk ?D (rg_sync g1)" for g1 :: "('w, 'c) rig"
  proof -
    from that have "sy_wraps (rg_sync g1) kid = Some d" using d(1) by (fastforce simp: cache_ok_def map_le_def dom_def)
    with that(2) d key show ?thesis
      by (simp add: unwrap_held_def with_sync_def andthen_def crypto_step_def give_def put_sync_def pull_kept_def
        cache_ok_def)
  qed
  show ?thesis
  proof (cases "sy_wraps (rg_sync g) kid = None")
    case False
    from unwrap [OF False cache] None False v show ?thesis by (auto simp: dek_for_key_def still_def)
  next
    case True
    have fin: "finite (dom ?D)" by (rule finite_deks [OF v])
    have len: "length (deks_after ?D []) < fuel" using fuel fin by (simp add: deks_after_eq)
    from refresh_wraps_ok [OF v cache len] obtain g1 r where 1: "refresh_wraps fuel A [] g = (g1, Some r)"
        "still (rg_world g) (rg_world g1)" "pull_kept g g1" "cache_ok X hk ?D (rg_sync g1)" "net_only r"
        "\<forall>x. r = Inr x \<longrightarrow> (\<forall>d \<in> set (deks_after ?D []). sy_wraps (rg_sync g1) (dk_key_id d) \<noteq> None)"
      by blast
    show ?thesis
    proof (cases r)
      case (Inl e)
      with 1 None True show ?thesis by (auto simp: dek_for_key_def net_only_def)
    next
      case (Inr u)
      have "kid \<in> dom ?D" using d(1) by blast
      then have "the (?D kid) \<in> set (deks_after ?D [])" using fin by (simp add: deks_after_eq)
      with d(1) have "d \<in> set (deks_after ?D [])" by simp
      with 1(6) Inr d(2) have "sy_wraps (rg_sync g1) kid \<noteq> None" by auto
      from unwrap [OF this 1(4)] 1 None True Inr show ?thesis
        by (auto simp: dek_for_key_def still_def intro: pull_kept_trans)
    qed
  qed
qed

lemma open_one_ok:
  assumes v: "valid (rg_world g)" and cache: "cache_ok X hk (deks (rg_world g)) (rg_sync g)"
    and fuel: "card (dom (deks (rg_world g))) < fuel" and C: "codec_ok C"
    and good: "good_push X C hk (deks (rg_world g)) x (pulled_as pr)"
    and row: "json_rec x = x" "r_host_id x = host"
  shows "\<exists>g' r. open_one fuel X C A hk host pr g = (g', Some r) \<and> still (rg_world g) (rg_world g') \<and> pull_kept g g' \<and>
    cache_ok X hk (deks (rg_world g)) (rg_sync g') \<and> net_only r \<and> (\<forall>y. r = Inr y \<longrightarrow> shared y = shared x)"
proof -
  from good obtain dek where dek: "holds_key X hk (deks (rg_world g)) (pl_key_id pr) dek"
      "open_record X (pl_blob pr) dek (aad_of x (pl_key_id pr)) = Inr (marshal_payload C x)"
      "pl_seq pr = r_seq x" "pl_id pr = r_id x"
    by (auto simp: good_push_def pulled_as_def)
  from dek_for_key_ok [OF v cache fuel dek(1)] obtain g1 r where 1: "dek_for_key fuel X A hk (pl_key_id pr) g = (g1, Some r)"
      "still (rg_world g) (rg_world g1)" "pull_kept g g1" "cache_ok X hk (deks (rg_world g)) (rg_sync g1)"
      "r = Inr dek \<or> (\<exists>e. r = Inl (Net e))" by blast
  have "cd_decode C (marshal_payload C x) = Some (json_payload (payload_of x))"
    using C by (simp add: codec_ok_def marshal_payload_def)
  then have pay: "record_from_payload C (marshal_payload C x) host (pl_seq pr) (pl_key_id pr) =
      Inr (record_of_payload (json_payload (payload_of x)) host (r_seq x) (pl_key_id pr))"
    by (simp add: record_from_payload_def dek)
  have "\<lparr>ad_record_id = pl_id pr, ad_host_id = host, ad_seq = pl_seq pr, ad_key_id = pl_key_id pr\<rparr> =
      aad_of x (pl_key_id pr)" using dek row by (simp add: aad_of_def)
  with 1 dek(2) pay shared_payload [OF row] show ?thesis
    by (elim disjE) (auto simp: open_one_def net_only_def)
qed

lemma open_each_ok:
  "valid (rg_world g) \<Longrightarrow> cache_ok X hk (deks (rg_world g)) (rg_sync g) \<Longrightarrow>
    card (dom (deks (rg_world g))) < fuel \<Longrightarrow> codec_ok C \<Longrightarrow>
    list_all2 (\<lambda>x pr. good_push X C hk (deks (rg_world g)) x (pulled_as pr)) xs prs \<Longrightarrow>
    \<forall>x \<in> set xs. json_rec x = x \<and> r_host_id x = host \<Longrightarrow>
    \<exists>g' r. open_each fuel X C A hk host prs g = (g', Some r) \<and> still (rg_world g) (rg_world g') \<and> pull_kept g g' \<and>
      cache_ok X hk (deks (rg_world g)) (rg_sync g') \<and> net_only r \<and>
      (\<forall>ys. r = Inr ys \<longrightarrow> map shared ys = map shared xs)"
proof (induction prs arbitrary: xs g)
  case Nil
  then show ?case by (simp add: still_def pull_kept_def net_only_def)
next
  case (Cons pr prs)
  then obtain x xs' where xs: "xs = x # xs'" and good: "good_push X C hk (deks (rg_world g)) x (pulled_as pr)"
    and rest: "list_all2 (\<lambda>x pr. good_push X C hk (deks (rg_world g)) x (pulled_as pr)) xs' prs"
    by (auto simp: list_all2_Cons2)
  with Cons.prems have row: "json_rec x = x" "r_host_id x = host" by auto
  from open_one_ok [OF Cons.prems(1-4) good row] obtain g1 r where 1: "open_one fuel X C A hk host pr g = (g1, Some r)"
      "still (rg_world g) (rg_world g1)" "pull_kept g g1" "cache_ok X hk (deks (rg_world g)) (rg_sync g1)"
      "net_only r" "\<forall>y. r = Inr y \<longrightarrow> shared y = shared x" by blast
  show ?case
  proof (cases r)
    case (Inl e)
    with 1 show ?thesis by (simp add: net_only_def)
  next
    case (Inr y)
    from 1(2) have same: "valid (rg_world g1)" "deks (rg_world g1) = deks (rg_world g)" by (simp_all add: still_def)
    from Cons.IH [of g1 xs'] same 1(4) Cons.prems(3,4,6) rest xs obtain g2 r2 where
      2: "open_each fuel X C A hk host prs g1 = (g2, Some r2)" "still (rg_world g1) (rg_world g2)" "pull_kept g1 g2"
        "cache_ok X hk (deks (rg_world g)) (rg_sync g2)" "net_only r2" "\<forall>ys. r2 = Inr ys \<longrightarrow> map shared ys = map shared xs'"
      by auto
    show ?thesis
      using 1 2 Inr xs still_trans [OF 1(2) 2(2)] pull_kept_trans [OF 1(3) 2(3)]
      by (cases r2) (auto simp: net_only_def)
  qed
qed

end

end
