(* ===== verification/Sync_Live.thy ===== *)
theory Sync_Live
  imports Sync_Push Sync_Pull
begin

text \<open>
  When the sync engine succeeds. The locale \<open>sync_live\<close> extends the contract of the transport by worlds
  that are \<open>live\<close>: there nothing is refused but a request that is too large, so a push can only fail on a
  single record, or wrap, beyond the server's limit, and a pull does not fail.
\<close>

definition too_large :: "net_error \<Rightarrow> bool" where
  "too_large e \<longleftrightarrow> (\<exists>m c. e = ApiError 413 m c)"

definition only_large :: "sync_error + 'a \<Rightarrow> bool" where
  "only_large r \<longleftrightarrow> (\<forall>e. r = Inl e \<longrightarrow> (\<exists>x. e = Net x \<and> too_large x))"

lemma only_large_simps [simp]:
  "only_large (Inr x)" "only_large (Inl (Net e)) \<longleftrightarrow> too_large e"
  by (simp_all add: only_large_def)

lemma too_large_smaller: "too_large e \<Longrightarrow> retryable_smaller e"
  by (auto simp: too_large_def retryable_smaller_def)

locale sync_live = sync_server A streams deks valid
  for A :: "'w api" and streams :: "'w \<Rightarrow> string \<Rightarrow> u64 \<Rightarrow> push_record option"
    and deks :: "'w \<Rightarrow> string \<Rightarrow> dek_wrap option" and valid :: "'w \<Rightarrow> bool" +
  fixes live :: "'w \<Rightarrow> bool" and version_of :: "'w \<Rightarrow> int"
  assumes push_live: "ap_push A rq w = (w', r) \<Longrightarrow> live w \<Longrightarrow> valid w \<Longrightarrow>
      json_str (pq_host_id rq) = pq_host_id rq \<Longrightarrow> pq_host_id rq \<noteq> [] \<Longrightarrow> length (pq_records rq) \<le> 1000 \<Longrightarrow>
      sorted_wrt (<) (map ps_seq (pq_records rq)) \<Longrightarrow>
      live w' \<and> version_of w' = version_of w \<and> (\<forall>e. r = Inl e \<longrightarrow> too_large e)"
    and upload_live: "ap_upload_dek A ws w = (w', ru) \<Longrightarrow> live w \<Longrightarrow> valid w \<Longrightarrow>
      \<forall>d \<in> set ws. json_str (dk_key_id d) \<noteq> [] \<and> json_str (dk_device_id d) \<noteq> [] \<and> dk_hk_version d = version_of w \<Longrightarrow>
      live w' \<and> version_of w' = version_of w \<and> (\<forall>e. ru = Inl e \<longrightarrow> too_large e)"
    and random_live: "ap_random A n w = (w', bs) \<Longrightarrow> live w \<Longrightarrow> live w' \<and> version_of w' = version_of w"
    and new_id_live: "ap_new_id A w = (w', i) \<Longrightarrow> live w \<Longrightarrow> live w' \<and> version_of w' = version_of w \<and> i \<noteq> []"
    and pull_live: "ap_pull A h after limit w = (w', rp) \<Longrightarrow> live w \<Longrightarrow> valid w \<Longrightarrow> after \<noteq> - 1 \<Longrightarrow>
      0 < limit \<Longrightarrow> limit \<le> 1000 \<Longrightarrow> live w' \<and> (\<exists>resp. rp = Inr resp)"
    and list_live: "ap_list_dek A c limit w = (w', rl) \<Longrightarrow> live w \<Longrightarrow> valid w \<Longrightarrow> 0 < limit \<Longrightarrow> limit \<le> 1000 \<Longrightarrow>
      live w' \<and> (\<exists>resp. rl = Inr resp)"
begin

definition stays :: "('w, 'b) rig \<Rightarrow> ('w, 'b) rig \<Rightarrow> bool" where
  "stays g g' \<longleftrightarrow> live (rg_world g') \<and> version_of (rg_world g') = version_of (rg_world g)"

lemma stays_trans: "stays a b \<Longrightarrow> stays b c \<Longrightarrow> stays a c"
  by (simp add: stays_def)

lemma draw_live:
  assumes "draw f g = (g', r)" and "live (rg_world g)"
    and law: "\<And>w' x. f (rg_world g) = (w', x) \<Longrightarrow> live w' \<and> version_of w' = version_of (rg_world g)"
  shows "stays g g' \<and> only_large r"
proof -
  obtain w x where w: "f (rg_world g) = (w, x)" by fastforce
  with assms(1) law [OF w] show ?thesis by (auto simp: draw_def stays_def)
qed

lemma ensure_push_dek_live:
  assumes "ensure_push_dek X A hk (version_of (rg_world g)) epoch g = (g', r)"
    and "live (rg_world g)" and "valid (rg_world g)"
    and "json_str (sy_device (rg_sync g)) = sy_device (rg_sync g)" and "sy_device (rg_sync g) \<noteq> []"
  shows "stays g g' \<and> only_large r"
proof (cases "sy_by_epoch (rg_sync g) epoch")
  case (Some entry)
  with assms show ?thesis by (auto simp: ensure_push_dek_def with_sync_def give_def stays_def)
next
  case None
  let ?dev = "sy_device (rg_sync g)" and ?v = "version_of (rg_world g)"
  obtain g1 r1 where 1: "draw (ap_random A key_size) g = (g1, r1)" by fastforce
  obtain dek where dek: "r1 = Inr dek" "valid (rg_world g1)" "rg_sync g1 = rg_sync g"
    by (rule draw_random [OF 1 assms(3)])
  have l1: "stays g g1" using draw_live [OF 1 assms(2)] random_live assms(2) by blast
  then have live1: "live (rg_world g1)" by (simp add: stays_def)
  obtain g2 r2 where 2: "draw (ap_new_id A) g1 = (g2, r2)" by fastforce
  obtain kid where kid: "r2 = Inr kid" "json_str kid = kid" "valid (rg_world g2)" "rg_sync g2 = rg_sync g1"
    by (rule draw_new_id [OF 2 dek(2)])
  have l2: "stays g1 g2" using draw_live [OF 2 live1] new_id_live live1 by blast
  then have live2: "live (rg_world g2)" by (simp add: stays_def)
  have "kid \<noteq> []"
  proof -
    obtain w i where "ap_new_id A (rg_world g1) = (w, i)" by fastforce
    with new_id_live [OF this live1] 2 kid(1) show ?thesis by (auto simp: draw_def)
  qed
  obtain g3 r3 where 3: "draw (ap_random A nonce_size) g2 = (g3, r3)" by fastforce
  obtain nonce where nonce: "r3 = Inr nonce" "valid (rg_world g3)" "rg_sync g3 = rg_sync g2"
    by (rule draw_random [OF 3 kid(3)])
  have l3: "stays g2 g3" using draw_live [OF 3 live2] random_live live2 by blast
  have v3: "version_of (rg_world g3) = ?v" "live (rg_world g3)" using l1 l2 l3 by (simp_all add: stays_def)
  let ?wrap = "\<lparr>dk_key_id = kid, dk_device_id = ?dev, dk_epoch = epoch,
    dk_blob = wrap_dek X nonce dek hk kid ?dev epoch ?v, dk_hk_version = ?v\<rparr>"
  obtain w4 r4 where 4: "ap_upload_dek A [?wrap] (rg_world g3) = (w4, r4)" by fastforce
  have "live w4 \<and> version_of w4 = ?v \<and> (\<forall>e. r4 = Inl e \<longrightarrow> too_large e)"
    using upload_live [OF 4 v3(2) nonce(2)] assms(4,5) kid(2) \<open>kid \<noteq> []\<close> v3(1) by simp
  with assms(1) None 1 2 3 4 dek(1) kid(1) nonce(1) show ?thesis
    by (cases r4) (auto simp: ensure_push_dek_def with_sync_def andthen_def net_def put_sync_def give_def Let_def stays_def)
qed

lemma seal_batch_live:
  assumes "sealed_box X"
  shows "seal_batch X C A hk (version_of (rg_world g)) i rs recs idx sz c g = (g', r) \<Longrightarrow>
    live (rg_world g) \<Longrightarrow> valid (rg_world g) \<Longrightarrow> keys_ok X hk (deks (rg_world g)) (rg_sync g) \<Longrightarrow>
    json_str (sy_device (rg_sync g)) = sy_device (rg_sync g) \<Longrightarrow> sy_device (rg_sync g) \<noteq> [] \<Longrightarrow>
    stays g g' \<and> only_large r"
proof (induction rs arbitrary: i recs idx sz c g)
  case Nil
  then show ?case by (auto simp: give_def stays_def)
next
  case (Cons x rs)
  show ?case
  proof (cases "pushable (rg_sync g) x")
    case False
    with Cons show ?thesis by (simp add: with_sync_def)
  next
    case True
    let ?v = "version_of (rg_world g)" and ?e = "epoch_start (r_start_ms x) (sy_epoch (rg_sync g))"
    obtain g1 r1 where 1: "ensure_push_dek X A hk ?v ?e g = (g1, r1)" by fastforce
    have l1: "stays g g1" "only_large r1" using ensure_push_dek_live [OF 1] Cons.prems by blast+
    have k1: "kept X hk g g1" using ensure_push_dek_ok [OF assms 1] Cons.prems by blast
    show ?thesis
    proof (cases r1)
      case (Inl e)
      with 1 True Cons.prems(1) have "g' = g1" "r = Inl e" by (auto simp: with_sync_def andthen_def)
      with l1 Inl show ?thesis by (simp add: only_large_def)
    next
      case (Inr entry)
      have v1: "valid (rg_world g1)" "live (rg_world g1)" using k1 l1 by (simp_all add: kept_def stays_def)
      obtain g2 r2 where 2: "draw (ap_random A nonce_size) g1 = (g2, r2)" by fastforce
      obtain nonce where n: "r2 = Inr nonce" "valid (rg_world g2)" "deks (rg_world g2) = deks (rg_world g1)"
          "rg_sync g2 = rg_sync g1"
        by (rule draw_random [OF 2 v1(1)])
      have l2: "stays g g2" using stays_trans [OF l1(1)] draw_live [OF 2 v1(2)] random_live v1(2) by blast
      then have v2: "version_of (rg_world g2) = ?v" "live (rg_world g2)" by (simp_all add: stays_def)
      let ?p = "\<lparr>ps_seq = r_seq x, ps_id = r_id x, ps_key_id = fst entry,
        ps_blob = seal_record X nonce (marshal_payload C x) (snd entry) (aad_of x (fst entry))\<rparr>"
      have keys: "keys_ok X hk (deks (rg_world g2)) (rg_sync g2)" "json_str (sy_device (rg_sync g2)) = sy_device (rg_sync g2)"
          "sy_device (rg_sync g2) \<noteq> []"
        using k1 n(3,4) Cons.prems(5,6) by (simp_all add: kept_def same_self_def)
      show ?thesis
      proof (cases "recs \<noteq> [] \<and> sz + push_record_size ?p > max_push_bytes")
        case stop: True
        with 1 2 Inr n(1) True Cons.prems(1) have "g' = g2" "r = Inr (recs, idx, c)"
          by (auto simp: with_sync_def andthen_def give_def Let_def)
        with l2 show ?thesis by simp
      next
        case False
        with 1 2 Inr n(1) True Cons.prems(1)
        have "seal_batch X C A hk (version_of (rg_world g2)) (Suc i) rs (recs @ [?p]) (idx @ [i]) (sz + push_record_size ?p) (Suc i) g2 = (g', r)"
          by (auto simp: with_sync_def andthen_def v2(1) Let_def split: if_splits)
        from Cons.IH [OF this v2(2) n(2) keys] stays_trans [OF l2] show ?thesis by blast
      qed
    qed
  qed
qed

lemma push_backoff_live:
  "push_backoff A n recs g = (g', r) \<Longrightarrow> live (rg_world g) \<Longrightarrow> valid (rg_world g) \<Longrightarrow> 0 < n \<Longrightarrow>
    length recs \<le> 1000 \<Longrightarrow> sorted_wrt (<) (map ps_seq recs) \<Longrightarrow>
    json_str (sy_device (rg_sync g)) = sy_device (rg_sync g) \<Longrightarrow> sy_device (rg_sync g) \<noteq> [] \<Longrightarrow>
    stays g g' \<and> only_large r"
proof (induction n arbitrary: g rule: less_induct)
  case (less n)
  let ?rq = "\<lparr>pq_host_id = sy_device (rg_sync g), pq_records = take n recs\<rparr>"
  obtain w rr where w: "ap_push A ?rq (rg_world g) = (w, rr)" by fastforce
  have sorted: "sorted_wrt (<) (map ps_seq (take n recs))"
    using less.prems(6) by (simp add: take_map [symmetric] sorted_wrt_take)
  from push_live [OF w less.prems(2,3)] less.prems(5,7,8) sorted
  have law: "live w" "version_of w = version_of (rg_world g)" "\<And>e. rr = Inl e \<Longrightarrow> too_large e" by simp_all
  have v: "valid w" using push_law [OF w less.prems(3)] less.prems(7) by simp
  show ?case
  proof (cases rr)
    case (Inr resp)
    with less.prems(1) w law(1,2) show ?thesis by (auto simp: push_backoff.simps [of A n recs] net_def stays_def)
  next
    case (Inl e)
    note large = law(3) [OF Inl]
    show ?thesis
    proof (cases "n \<le> 1")
      case True
      with less.prems(1) w Inl law(1,2) large show ?thesis
        by (auto simp: push_backoff.simps [of A n recs] net_def stays_def)
    next
      case False
      let ?g = "g\<lparr>rg_world := w\<rparr>"
      have again: "push_backoff A (n div 2) recs ?g = (g', r)"
        using less.prems(1) w Inl False too_large_smaller [OF large]
        by (simp add: push_backoff.simps [of A n recs] net_def)
      have "n div 2 < n" "0 < n div 2" using False by auto
      with less.IH [of "n div 2" ?g, OF _ again] law(1,2) v less.prems(5-8) show ?thesis
        by (simp add: stays_def)
    qed
  qed
qed

lemma sealed_sorted:
  assumes up: "sealed_upto X C hk g b c idx recs" and c: "c \<le> length b" and sorted: "sorted_wrt (<) (map r_seq b)"
  shows "sorted_wrt (<) (map ps_seq recs)" and "length recs \<le> length b"
proof -
  from up have idx: "idx = filter (\<lambda>j. pushable (rg_sync g) (b ! j)) [0 ..< c]"
    and all2: "list_all2 (\<lambda>j p. good_push X C hk (deks (rg_world g)) (b ! j) p) idx recs"
    unfolding sealed_upto_def by blast+
  have "map ps_seq recs = map (\<lambda>j. r_seq (b ! j)) idx"
    using all2 by (induction rule: list_all2_induct) (simp_all add: good_push_def)
  moreover have "sorted_wrt (<) (map (\<lambda>j. r_seq (b ! j)) [0 ..< c])"
    using sorted c by (simp add: sorted_wrt_iff_nth_less)
  then have "sorted_wrt (<) (map (\<lambda>j. r_seq (b ! j)) idx)"
    unfolding idx sorted_wrt_map by (rule sorted_wrt_filter)
  ultimately show "sorted_wrt (<) (map ps_seq recs)" by simp
  have "length recs = length idx" using all2 by (simp add: list_all2_lengthD)
  also have "\<dots> \<le> c" unfolding idx using length_filter_le [of _ "[0 ..< c]"] by simp
  finally show "length recs \<le> length b" using c by simp
qed

lemma push_round_live:
  assumes box: "sealed_box X" and K: "bucket (K :: 'b hist_kv)"
    and run: "push_round X C K A hk (version_of (rg_world g)) mark g = (g', r)"
    and inv: "push_inv streams deks valid X C hk K g mark" and live: "live (rg_world g)"
    and dev: "sy_device (rg_sync g) \<noteq> []"
  shows "stays g g' \<and> only_large r"
proof -
  let ?rows = "stream K (rg_store g)"
  define batch where "batch = take push_batch_limit (filter (\<lambda>r. mark < r_seq r) ?rows)"
  from inv have ok: "store_ok K (rg_store g)" and mark: "mark \<noteq> - 1" and v: "valid (rg_world g)"
    and keys: "keys_ok X hk (deks (rg_world g)) (rg_sync g)"
    and json: "json_str (sy_device (rg_sync g)) = sy_device (rg_sync g)"
    by (simp_all add: push_inv_def)
  have since: "since K (rg_store g) mark (int push_batch_limit) = Inr batch"
    using history_bucket.since_stream [OF hist_of_bucket [OF K] ok mark]
    by (simp add: push_batch_limit_def batch_def)
  have sorted: "sorted_wrt (<) (map r_seq batch)"
    using history_bucket.stream_sorted [OF hist_of_bucket [OF K] ok]
    by (simp add: batch_def take_map [symmetric] sorted_wrt_map sorted_wrt_take sorted_wrt_filter)
  show ?thesis
  proof (cases "batch = []")
    case True
    with run since live show ?thesis by (auto simp: push_round_def stays_def)
  next
    case False
    obtain g1 r1 where 1: "seal_batch X C A hk (version_of (rg_world g)) 0 batch [] [] 0 0 g = (g1, r1)" by fastforce
    have l1: "stays g g1" "only_large r1" using seal_batch_live [OF box 1 live v keys json dev] by blast+
    have "sealed_upto X C hk g batch 0 [] []" by (simp add: sealed_upto_def)
    from seal_batch_ok [OF box 1 _ _ v keys json this, of "[]"] False
    have k1: "kept X hk g g1" and sealed: "\<And>recs idx c. r1 = Inr (recs, idx, c) \<Longrightarrow>
        c \<le> length batch \<and> 0 < c \<and> sealed_upto X C hk g1 batch c idx recs" by auto
    show ?thesis
    proof (cases r1)
      case (Inl e)
      then have "g' = g1" "r = Inl e" using run since False 1 by (simp_all add: push_round_def andthen_def)
      with l1 Inl show ?thesis by (simp add: only_large_def)
    next
      case (Inr out)
      obtain recs idx c where out: "out = (recs, idx, c)" by (cases out)
      with sealed Inr have c: "0 < c" "c \<le> length batch" and up: "sealed_upto X C hk g1 batch c idx recs" by auto
      have after: "after_seal K batch recs idx c g1 = (g', r)"
        using run since False 1 Inr out c(1) by (simp add: push_round_def andthen_def after_seal_def)
      show ?thesis
      proof (cases "recs = []")
        case True
        with after l1 show ?thesis
          by (auto simp: after_seal_def andthen_def write_watermark_def give_def stays_def Let_def)
      next
        case some: False
        obtain g2 r2 where 2: "push_backoff A (length recs) recs g1 = (g2, r2)" by fastforce
        have "length batch \<le> 1000" by (simp add: batch_def push_batch_limit_def)
        with sealed_sorted [OF up c(2) sorted] have "length recs \<le> 1000" "sorted_wrt (<) (map ps_seq recs)" by simp_all
        with push_backoff_live [OF 2] some l1 k1 json dev have "stays g1 g2 \<and> only_large r2"
          by (simp add: stays_def kept_def same_self_def)
        with stays_trans [OF l1(1)] have l2: "stays g g2" "only_large r2" by blast+
        from after some 2 l2 show ?thesis
          by (cases r2) (auto simp: after_seal_def andthen_def write_watermark_def give_def stays_def only_large_def Let_def)
      qed
    qed
  qed
qed

lemma push_rounds_live:
  assumes box: "sealed_box X" and K: "bucket (K :: 'b hist_kv)"
  shows "push_rounds fuel X C K A hk (version_of (rg_world g)) mark pushed g = (g', Some (n, err)) \<Longrightarrow>
    push_inv streams deks valid X C hk K g mark \<Longrightarrow> live (rg_world g) \<Longrightarrow> sy_device (rg_sync g) \<noteq> [] \<Longrightarrow>
    stays g g' \<and> (\<forall>e. err = Some e \<longrightarrow> (\<exists>x. e = Net x \<and> too_large x))"
proof (induction fuel arbitrary: g mark pushed)
  case (Suc fuel)
  obtain g1 r where 1: "push_round X C K A hk (version_of (rg_world g)) mark g = (g1, r)" by fastforce
  have l1: "stays g g1" "only_large r" using push_round_live [OF box K 1 Suc.prems(2-4)] by blast+
  from push_round_ok [OF box K 1 Suc.prems(2)] obtain mark1 where
    inv1: "push_inv streams deks valid X C hk K g1 mark1" and self1: "same_self (rg_sync g) (rg_sync g1)"
    and moved: "\<forall>wm n. r = Inr (Some (wm, n)) \<longrightarrow> wm = mark1"
    by blast
  show ?case
  proof (cases r)
    case (Inl e)
    with 1 Suc.prems(1) l1 show ?thesis by (auto simp: only_large_def)
  next
    case (Inr out)
    show ?thesis
    proof (cases out)
      case None
      with 1 Inr Suc.prems(1) l1 show ?thesis by auto
    next
      case (Some wn)
      obtain wm k where wn: "wn = (wm, k)" by fastforce
      have live1: "live (rg_world g1)" "version_of (rg_world g1) = version_of (rg_world g)"
        using l1 by (simp_all add: stays_def)
      have dev1: "sy_device (rg_sync g1) \<noteq> []" using self1 Suc.prems(4) by (simp add: same_self_def)
      have "wm = mark1" using moved Inr Some wn by blast
      with 1 Inr Some wn Suc.prems(1)
      have "push_rounds fuel X C K A hk (version_of (rg_world g1)) mark1 (pushed + k) g1 = (g', Some (n, err))"
        by (simp add: live1(2))
      from Suc.IH [OF this inv1 live1(1) dev1] stays_trans [OF l1(1)] show ?thesis by blast
    qed
  qed
qed simp

lemma push_live_ok:
  assumes box: "sealed_box X" and K: "bucket (K :: 'b hist_kv)"
    and hk: "sy_hk (rg_sync g) = Some (hk, version_of (rg_world g))"
    and inv: "push_inv streams deks valid X C hk K g mark" and marked: "marked K (rg_store g) mark"
    and live: "live (rg_world g)" and dev: "sy_device (rg_sync g) \<noteq> []"
    and run: "push fuel X C K A g = (g', Some (n, err))"
  shows "live (rg_world g') \<and> (\<forall>e. err = Some e \<longrightarrow> (\<exists>x. e = Net x \<and> too_large x))"
proof -
  have "resolve_hk X A g = (g, Inr (hk, version_of (rg_world g)))"
    using hk by (simp add: resolve_hk_def with_sync_def give_def)
  with run marked_read [OF marked]
  have "push_rounds fuel X C K A hk (version_of (rg_world g)) mark 0 g = (g', Some (n, err))"
    by (simp add: push_def)
  from push_rounds_live [OF box K this inv live dev] show ?thesis by (auto simp: stays_def)
qed


subsection \<open>Pulling\<close>

lemma pull_pages_live:
  "pull_pages fuel A host after out g = (g', Some r) \<Longrightarrow> valid (rg_world g) \<Longrightarrow> live (rg_world g) \<Longrightarrow>
    after \<noteq> - 1 \<Longrightarrow> live (rg_world g') \<and> (\<exists>x. r = Inr x)"
proof (induction fuel arbitrary: g after out)
  case (Suc fuel)
  obtain w rp where w: "ap_pull A host after push_batch_limit (rg_world g) = (w, rp)" by fastforce
  have lim: "0 < push_batch_limit" "push_batch_limit \<le> 1000" by (simp_all add: push_batch_limit_def)
  from pull_live [OF w Suc.prems(3,2,4) lim] obtain resp where rp: "rp = Inr resp" and lw: "live w" by blast
  have v: "valid w" using pull_law [OF w Suc.prems(2)] by blast
  note page = pull_page [OF w [unfolded rp] Suc.prems(2,4) lim]
  let ?rest = "records_after (streams (rg_world g) host) after"
  show ?case
  proof (cases "pr_next_after resp = None")
    case True
    with Suc.prems(1) w rp lw show ?thesis by (auto simp: net_def Let_def)
  next
    case False
    then have more: "push_batch_limit < length ?rest" using page by (auto split: if_splits)
    have ne: "pr_records resp \<noteq> []"
    proof
      assume "pr_records resp = []"
      with page have "take push_batch_limit ?rest = []" by simp
      with more lim(1) show False by auto
    qed
    let ?a = "pl_seq (last (pr_records resp))"
    have "?a \<noteq> - 1"
    proof -
      have last: "ps_seq (last (take push_batch_limit ?rest)) = ?a"
        using page ne by (metis last_map pulled_as_seq)
      have "records_after (streams (rg_world g) host) ?a = drop push_batch_limit ?rest"
        using records_next_page [OF finite_streams [OF Suc.prems(2)] lim(1) more stream_seq [OF Suc.prems(2)]]
        unfolding last .
      then have "records_after (streams (rg_world g) host) ?a \<noteq> []" using more by simp
      then show ?thesis by (auto simp: records_after_def word_order.extremum_strict)
    qed
    moreover have "pull_pages fuel A host ?a (out @ pr_records resp) (g\<lparr>rg_world := w\<rparr>) = (g', Some r)"
      using Suc.prems(1) w rp False ne by (simp add: net_def Let_def)
    ultimately show ?thesis using Suc.IH [of ?a "out @ pr_records resp" "g\<lparr>rg_world := w\<rparr>"] v lw by simp
  qed
qed simp

lemma refresh_wraps_live:
  "refresh_wraps fuel A cursor g = (g', Some r) \<Longrightarrow> valid (rg_world g) \<Longrightarrow> live (rg_world g) \<Longrightarrow>
    valid (rg_world g') \<and> live (rg_world g') \<and> (\<exists>x. r = Inr x)"
proof (induction fuel arbitrary: g cursor)
  case (Suc fuel)
  obtain w rl where w: "ap_list_dek A cursor dek_page_limit (rg_world g) = (w, rl)" by fastforce
  have "0 < dek_page_limit" "dek_page_limit \<le> 1000" by (simp_all add: dek_page_limit_def)
  from list_live [OF w Suc.prems(3,2) this] obtain resp where rl: "rl = Inr resp" and lw: "live w" by blast
  have v: "valid w" using list_dek_law [OF w Suc.prems(2)] by blast
  define g1 where "g1 = g\<lparr>rg_world := w, rg_sync := (rg_sync g)\<lparr>sy_wraps := add_wraps (dl_wraps resp) (sy_wraps (rg_sync g))\<rparr>\<rparr>"
  have g1: "valid (rg_world g1)" "live (rg_world g1)" using v lw by (simp_all add: g1_def)
  from Suc.prems(1) w rl have "(if dl_next_cursor resp = [] then (g1, Some (Inr ()))
      else refresh_wraps fuel A (dl_next_cursor resp) g1) = (g', Some r)"
    by (auto simp: net_def Let_def g1_def)
  with Suc.IH [OF _ g1] g1 show ?case by (auto split: if_splits)
qed simp

lemma dek_for_key_live:
  assumes run: "dek_for_key fuel X A hk kid g = (g', Some r)" and v: "valid (rg_world g)" and live: "live (rg_world g)"
  shows "live (rg_world g') \<and> (\<forall>x. r \<noteq> Inl (Net x))"
proof (cases "sy_by_key (rg_sync g) kid")
  case (Some dek)
  with run live show ?thesis by (auto simp: dek_for_key_def)
next
  case None
  have tail: "live (rg_world g2) \<and> (\<forall>x. r2 \<noteq> Inl (Net x))"
    if "unwrap_held X hk kid g1 = (g2, r2)" "live (rg_world g1)" for g1 g2 r2
    using that by (auto simp: unwrap_held_def with_sync_def fail_with_def andthen_def crypto_step_def give_def
      put_sync_def split: option.splits sum.splits)
  show ?thesis
  proof (cases "sy_wraps (rg_sync g) kid")
    case (Some wrap)
    with run None tail [OF _ live] show ?thesis by (auto simp: dek_for_key_def split: prod.splits)
  next
    case none: None
    obtain g1 r1 where 1: "refresh_wraps fuel A [] g = (g1, r1)" by fastforce
    show ?thesis
    proof (cases r1)
      case None
      with run \<open>sy_by_key (rg_sync g) kid = None\<close> none 1 show ?thesis by (simp add: dek_for_key_def)
    next
      case (Some r1')
      from refresh_wraps_live [OF 1 [unfolded Some] v live] have "live (rg_world g1)" "\<exists>x. r1' = Inr x" by blast+
      with run \<open>sy_by_key (rg_sync g) kid = None\<close> none 1 Some tail show ?thesis
        by (auto simp: dek_for_key_def split: prod.splits)
    qed
  qed
qed

lemma open_one_live:
  assumes run: "open_one fuel X C A hk host pr g = (g', Some r)" and v: "valid (rg_world g)" and live: "live (rg_world g)"
  shows "live (rg_world g') \<and> (\<forall>x. r \<noteq> Inl (Net x))"
proof -
  obtain g1 r1 where 1: "dek_for_key fuel X A hk (pl_key_id pr) g = (g1, Some r1)" and "g' = g1"
    and r: "r = (case r1 of Inl e \<Rightarrow> Inl e
      | Inr dek \<Rightarrow> (case open_record X (pl_blob pr) dek \<lparr>ad_record_id = pl_id pr, ad_host_id = host,
          ad_seq = pl_seq pr, ad_key_id = pl_key_id pr\<rparr> of
        Inl e \<Rightarrow> Inl (Crypto e) | Inr pt \<Rightarrow> record_from_payload C pt host (pl_seq pr) (pl_key_id pr)))"
    using run by (auto simp: open_one_def split: prod.splits option.splits sum.splits)
  with dek_for_key_live [OF 1 v live] show ?thesis
    by (auto simp: record_from_payload_def split: sum.splits option.splits)
qed

lemma open_each_live:
  assumes C: "codec_ok C"
  shows "open_each fuel X C A hk host prs g = (g', Some r) \<Longrightarrow> valid (rg_world g) \<Longrightarrow> live (rg_world g) \<Longrightarrow>
    cache_ok X hk (deks (rg_world g)) (rg_sync g) \<Longrightarrow> card (dom (deks (rg_world g))) < fuel \<Longrightarrow>
    list_all2 (\<lambda>x pr. good_push X C hk (deks (rg_world g)) x (pulled_as pr)) xs prs \<Longrightarrow>
    \<forall>x \<in> set xs. json_rec x = x \<and> r_host_id x = host \<Longrightarrow>
    live (rg_world g') \<and> (\<forall>x. r \<noteq> Inl (Net x))"
proof (induction prs arbitrary: g g' xs r)
  case (Cons pr prs)
  from Cons.prems(6) obtain x xs' where xs: "xs = x # xs'" by (cases xs) auto
  with Cons.prems(6) have good: "good_push X C hk (deks (rg_world g)) x (pulled_as pr)"
    and rest: "list_all2 (\<lambda>x pr. good_push X C hk (deks (rg_world g)) x (pulled_as pr)) xs' prs" by simp_all
  from Cons.prems(7) xs have row: "json_rec x = x" "r_host_id x = host" by simp_all
  from open_one_ok [OF Cons.prems(2,4,5) C good row] obtain g1 r1 where
    1: "open_one fuel X C A hk host pr g = (g1, Some r1)" "still (rg_world g) (rg_world g1)"
      "cache_ok X hk (deks (rg_world g)) (rg_sync g1)" by blast
  note l1 = open_one_live [OF 1(1) Cons.prems(2,3)]
  from 1(2) have w1: "valid (rg_world g1)" "deks (rg_world g1) = deks (rg_world g)" by (simp_all add: still_def)
  show ?case
  proof (cases r1)
    case (Inl e)
    with 1 l1 Cons.prems(1) show ?thesis by auto
  next
    case (Inr y)
    obtain g2 r2 where 2: "open_each fuel X C A hk host prs g1 = (g2, r2)" by fastforce
    with Cons.prems(1) 1(1) Inr obtain r2' where r2: "r2 = Some r2'" "g' = g2"
        "\<And>x. r = Inl (Net x) \<Longrightarrow> r2' = Inl (Net x)"
      by (cases r2) (auto split: sum.splits)
    have "live (rg_world g2) \<and> (\<forall>x. r2' \<noteq> Inl (Net x))"
      by (rule Cons.IH [OF 2 [unfolded r2(1)] w1(1)]) (use l1 1(3) Cons.prems(5,7) rest xs w1(2) in auto)
    with r2(2,3) show ?thesis by auto
  qed
qed auto

lemma pull_open_live:
  assumes g: "valid (rg_world g)" "cache_ok X hk (deks (rg_world g)) (rg_sync g)"
      "sy_hk (rg_sync g) = Some (hk, v)" "live (rg_world g)"
    and C: "codec_ok C" and rows: "\<forall>r \<in> set xs. json_rec r = r \<and> r_host_id r = host"
    and good: "list_all2 (good_push X C hk (deks (rg_world g))) xs (records_after (streams (rg_world g) host) after)"
    and after: "after \<noteq> - 1" and fuel: "length xs < fuel" "card (dom (deks (rg_world g))) < fuel"
  shows "\<exists>g1 prs a g2 ys. pull_pages fuel A host after [] g = (g1, Some (Inr (prs, a))) \<and>
    open_records fuel X C A host prs g1 = (g2, Some (Inr ys)) \<and> map shared ys = map shared xs"
proof -
  let ?S = "streams (rg_world g) host"
  have "length (records_after ?S after) < fuel" using fuel(1) list_all2_lengthD [OF good] by simp
  from pull_pages_ok [where out = "[]", OF g(1) after this] obtain g1 r where
    g1: "pull_pages fuel A host after [] g = (g1, Some r)" "still (rg_world g) (rg_world g1)" "rg_sync g1 = rg_sync g"
    and prs: "\<And>prs a. r = Inr (prs, a) \<Longrightarrow> map pulled_as prs = records_after ?S after"
    by auto
  from pull_pages_live [OF g1(1) g(1,4) after] obtain prs a where r: "r = Inr (prs, a)" and l1: "live (rg_world g1)" by auto
  from good have good: "list_all2 (\<lambda>x pr. good_push X C hk (deks (rg_world g1)) x (pulled_as pr)) xs prs"
    using g1(2) by (simp add: prs [OF r, symmetric] list_all2_map2 still_def)
  show ?thesis
  proof (cases "prs = []")
    case True
    with good g1(1) r show ?thesis by (auto simp: open_records_def)
  next
    case False
    have hk: "resolve_hk X A g1 = (g1, Inr (hk, v))"
      using g(3) g1(3) by (simp add: resolve_hk_def with_sync_def give_def)
    have v1: "valid (rg_world g1)" "cache_ok X hk (deks (rg_world g1)) (rg_sync g1)" "card (dom (deks (rg_world g1))) < fuel"
      using g1(2,3) g(2) fuel(2) by (simp_all add: still_def)
    from open_each_ok [OF v1 C good rows] obtain g2 s where
      2: "open_each fuel X C A hk host prs g1 = (g2, Some s)" "net_only s" "\<And>ys. s = Inr ys \<Longrightarrow> map shared ys = map shared xs"
      by blast
    from open_each_live [OF C 2(1) v1(1) l1 v1(2,3) good rows] 2(2) obtain ys where "s = Inr ys"
      by (cases s) (auto simp: net_only_def)
    with 2 False hk g1(1) r show ?thesis by (auto simp: open_records_def)
  qed
qed

end

end
