(* ===== verification/Server_Db.thy ===== *)
theory Server_Db
  imports Bolt Wire Reqsign
begin

text \<open>
  \<open>internal/server\<close>, storage side: one tenant's database and the body of every transaction the
  handlers run on it. A tenant has six fixed buckets, all given by the parameter \<open>K\<close>, and one bucket
  per record stream, \<open>records:\<close> followed by the host id, in the name space \<open>R\<close>. A transaction that
  returns an error leaves the database as it was. \<open>sha256\<close> is the parameter \<open>H\<close>.
\<close>

record stored_token =
  sk_created_ms :: int
  sk_expires_ms :: int
  sk_claimed_ms :: int
  sk_claimed_by :: string
  sk_revoked_ms :: int

record stored_record =
  sr_id :: string
  sr_key_id :: string
  sr_blob :: string
  sr_created_ms :: int

text \<open>The documents a bucket may hold, each as it reads back from JSON.\<close>

datatype doc =
    DDevice device
  | DWrap hk_wrap
  | DDek dek_wrap
  | DToken stored_token
  | DRecovery recovery_init
  | DRecord stored_record

type_synonym ('b) doc_kv = "('b, doc blob) kv"

record ('r, 'b) tdb =
  td_devices :: 'b
  td_hk_wraps :: 'b
  td_dek_wraps :: 'b
  td_meta :: 'b
  td_tokens :: 'b
  td_recovery :: 'b
  td_streams :: 'r

text \<open>\<open>fail\<close> and every other error of a transaction: the latter is answered 500.\<close>

datatype api_error = Api nat string | Internal

definition json_device :: "device \<Rightarrow> device" where
  "json_device d = d\<lparr>dv_id := json_str (dv_id d), dv_name := json_str (dv_name d),
     dv_status := json_str (dv_status d)\<rparr>"

definition json_wrap :: "hk_wrap \<Rightarrow> hk_wrap" where
  "json_wrap w = w\<lparr>hw_device_id := json_str (hw_device_id w)\<rparr>"

definition json_token :: "stored_token \<Rightarrow> stored_token" where
  "json_token t = t\<lparr>sk_claimed_by := json_str (sk_claimed_by t)\<rparr>"

definition json_recovery :: "recovery_init \<Rightarrow> recovery_init" where
  "json_recovery r = r\<lparr>ri_wrap := json_wrap (ri_wrap r)\<rparr>"

definition json_record :: "stored_record \<Rightarrow> stored_record" where
  "json_record r = r\<lparr>sr_id := json_str (sr_id r), sr_key_id := json_str (sr_key_id r)\<rparr>"

fun as_device :: "doc blob \<Rightarrow> device option" where
  "as_device (Doc (DDevice d)) = Some d"
| "as_device _ = None"

fun as_wrap :: "doc blob \<Rightarrow> hk_wrap option" where
  "as_wrap (Doc (DWrap d)) = Some d"
| "as_wrap _ = None"

fun as_dek :: "doc blob \<Rightarrow> dek_wrap option" where
  "as_dek (Doc (DDek d)) = Some d"
| "as_dek _ = None"

fun as_token :: "doc blob \<Rightarrow> stored_token option" where
  "as_token (Doc (DToken d)) = Some d"
| "as_token _ = None"

fun as_recovery :: "doc blob \<Rightarrow> recovery_init option" where
  "as_recovery (Doc (DRecovery d)) = Some d"
| "as_recovery _ = None"

fun as_record :: "doc blob \<Rightarrow> stored_record option" where
  "as_record (Doc (DRecord d)) = Some d"
| "as_record _ = None"

definition records_prefix :: string where "records_prefix = ''records:''"
definition recovery_key :: string where "recovery_key = ''recovery''"
definition meta_hk_version :: string where "meta_hk_version = ''hk_version''"
definition meta_ready_probe :: string where "meta_ready_probe = ''ready_probe''"

definition token_ttl :: int where "token_ttl = 30 * 60 * second"
definition token_keep :: int where "token_keep = 7 * 24 * 3600 * second"
definition max_push_records :: nat where "max_push_records = 1000"

definition empty_tdb :: "('b) doc_kv \<Rightarrow> ('r, 'b) kv \<Rightarrow> ('r, 'b) tdb" where
  "empty_tdb K R = \<lparr>td_devices = kv_empty K, td_hk_wraps = kv_empty K, td_dek_wraps = kv_empty K,
     td_meta = kv_empty K, td_tokens = kv_empty K, td_recovery = kv_empty K, td_streams = kv_empty R\<rparr>"


subsection \<open>Enrollment tokens\<close>

definition token_state :: "stored_token \<Rightarrow> int \<Rightarrow> string" where
  "token_state st now =
    (if sk_claimed_ms st \<noteq> 0 then token_claimed
     else if sk_revoked_ms st \<noteq> 0 then token_revoked
     else if sk_expires_ms st \<le> unix_milli now then token_expired
     else token_open)"

definition token_usable :: "stored_token \<Rightarrow> int \<Rightarrow> bool" where
  "token_usable st now \<longleftrightarrow> token_state st now = token_open"

definition hash_token :: "(string \<Rightarrow> string) \<Rightarrow> string \<Rightarrow> string" where
  "hash_token H token = H (''github.com/mach6/yore/token/v1|'' @ token)"

definition load_token :: "('b) doc_kv \<Rightarrow> ('r, 'b) tdb \<Rightarrow> string \<Rightarrow> stored_token option" where
  "load_token K db sm = Option.bind (kv_get K (td_tokens db) sm) as_token"

definition put_token :: "('b) doc_kv \<Rightarrow> ('r, 'b) tdb \<Rightarrow> string \<Rightarrow> stored_token \<Rightarrow> ('r, 'b) tdb" where
  "put_token K db sm st = db\<lparr>td_tokens := kv_put K (td_tokens db) sm (Doc (DToken (json_token st)))\<rparr>"

definition token_valid :: "('b) doc_kv \<Rightarrow> ('r, 'b) tdb \<Rightarrow> string \<Rightarrow> int \<Rightarrow> bool" where
  "token_valid K db sm now =
    (case load_token K db sm of None \<Rightarrow> False | Some st \<Rightarrow> token_usable st now)"

definition redeem_token ::
  "('b) doc_kv \<Rightarrow> ('r, 'b) tdb \<Rightarrow> string \<Rightarrow> int \<Rightarrow> string \<Rightarrow> api_error + ('r, 'b) tdb" where
  "redeem_token K db sm now device =
    (case load_token K db sm of
       None \<Rightarrow> Inl (Api 401 ''unauthorized'')
     | Some st \<Rightarrow>
         if \<not> token_usable st now then Inl (Api 401 ''unauthorized'')
         else Inr (put_token K db sm
           (st\<lparr>sk_claimed_ms := unix_milli now, sk_claimed_by := device\<rparr>)))"

text \<open>\<open>pruneTokens\<close>: the dead keys are collected in the walk, then deleted.\<close>

definition token_dead :: "int \<Rightarrow> doc blob \<Rightarrow> bool" where
  "token_dead cutoff v =
    (case as_token v of
       None \<Rightarrow> True
     | Some st \<Rightarrow> sk_claimed_ms st = 0 \<and> sk_expires_ms st \<le> cutoff)"

definition prune_tokens :: "('b) doc_kv \<Rightarrow> ('r, 'b) tdb \<Rightarrow> int \<Rightarrow> ('r, 'b) tdb" where
  "prune_tokens K db now =
    (let cutoff = unix_milli (now - token_keep);
         dead = map fst (filter (\<lambda>(_, v). token_dead cutoff v) (kv_items K (td_tokens db)))
     in db\<lparr>td_tokens := foldl (kv_del K) (td_tokens db) dead\<rparr>)"

text \<open>The transaction of \<open>handleMintToken\<close> and \<open>handleRecoveryToken\<close>, given the token drawn.\<close>

definition fresh_token :: "int \<Rightarrow> stored_token" where
  "fresh_token now = \<lparr>sk_created_ms = unix_milli now, sk_expires_ms = unix_milli (now + token_ttl),
     sk_claimed_ms = 0, sk_claimed_by = [], sk_revoked_ms = 0\<rparr>"

definition mint_token ::
  "('b) doc_kv \<Rightarrow> (string \<Rightarrow> string) \<Rightarrow> ('r, 'b) tdb \<Rightarrow> int \<Rightarrow> string \<Rightarrow> ('r, 'b) tdb" where
  "mint_token K H db now token =
    put_token K (prune_tokens K db now) (hash_token H token) (fresh_token now)"

definition revoke_token ::
  "('b) doc_kv \<Rightarrow> ('r, 'b) tdb \<Rightarrow> string \<Rightarrow> int \<Rightarrow> api_error + ('r, 'b) tdb" where
  "revoke_token K db sm now =
    (case load_token K db sm of
       None \<Rightarrow> Inl (Api 404 ''no such token'')
     | Some st \<Rightarrow>
         if sk_claimed_ms st \<noteq> 0 then Inl (Api 409 ''token already claimed'')
         else if sk_revoked_ms st \<noteq> 0 then Inr db
         else Inr (put_token K db sm (st\<lparr>sk_revoked_ms := unix_milli now\<rparr>)))"

fun list_rows :: "(string \<Rightarrow> doc blob \<Rightarrow> 'a option) \<Rightarrow> (string \<times> doc blob) list \<Rightarrow> api_error + 'a list" where
  "list_rows f [] = Inr []"
| "list_rows f ((k, v) # rows) =
    (case f k v of
       None \<Rightarrow> Inl Internal
     | Some x \<Rightarrow> (case list_rows f rows of Inl e \<Rightarrow> Inl e | Inr xs \<Rightarrow> Inr (x # xs)))"

definition list_token :: "int \<Rightarrow> string \<Rightarrow> doc blob \<Rightarrow> enroll_token option" where
  "list_token now k v = map_option (\<lambda>st.
     \<lparr>et_id = hex_encode k, et_state = token_state st now, et_created_ms = sk_created_ms st,
      et_expires_ms = sk_expires_ms st, et_claimed_ms = sk_claimed_ms st,
      et_claimed_by = sk_claimed_by st, et_revoked_ms = sk_revoked_ms st\<rparr>) (as_token v)"


subsection \<open>Devices and wraps\<close>

definition has_active_device :: "('b) doc_kv \<Rightarrow> ('r, 'b) tdb \<Rightarrow> bool" where
  "has_active_device K db \<longleftrightarrow>
    list_ex (\<lambda>(_, v). case as_device v of None \<Rightarrow> False | Some d \<Rightarrow> dv_status d = device_active)
      (kv_items K (td_devices db))"

definition put_device :: "('b) doc_kv \<Rightarrow> ('r, 'b) tdb \<Rightarrow> string \<Rightarrow> device \<Rightarrow> ('r, 'b) tdb" where
  "put_device K db did d = db\<lparr>td_devices := kv_put K (td_devices db) did (Doc (DDevice (json_device d)))\<rparr>"

text \<open>\<open>strconv.Atoi\<close> gives 0 with the error of a malformed number, and the nearest bound with the
  error of one out of range.\<close>

definition atoi :: "string \<Rightarrow> int" where
  "atoi s =
    (let (neg, ds) =
       (case s of
          [] \<Rightarrow> (False, [])
        | c # cs \<Rightarrow>
            if c = CHR ''-'' then (True, cs) else if c = CHR ''+'' then (False, cs) else (False, s))
     in if \<not> all_digits ds then 0
        else if neg then max (- int (digits_value ds)) (- (2 ^ 63))
        else min (int (digits_value ds)) (2 ^ 63 - 1))"

fun raw_value :: "doc blob \<Rightarrow> string" where
  "raw_value (Raw s) = s"
| "raw_value (Doc _) = []"

definition get_hk_version :: "('b) doc_kv \<Rightarrow> ('r, 'b) tdb \<Rightarrow> int" where
  "get_hk_version K db =
    (case kv_get K (td_meta db) meta_hk_version of None \<Rightarrow> 0 | Some v \<Rightarrow> atoi (raw_value v))"

definition set_hk_version :: "('b) doc_kv \<Rightarrow> ('r, 'b) tdb \<Rightarrow> int \<Rightarrow> ('r, 'b) tdb" where
  "set_hk_version K db v =
    db\<lparr>td_meta := kv_put K (td_meta db) meta_hk_version (Raw (format_int v))\<rparr>"

definition load_recovery :: "('b) doc_kv \<Rightarrow> ('r, 'b) tdb \<Rightarrow> api_error + recovery_init option" where
  "load_recovery K db =
    (case kv_get K (td_recovery db) recovery_key of
       None \<Rightarrow> Inr None
     | Some v \<Rightarrow> (case as_recovery v of None \<Rightarrow> Inl Internal | Some r \<Rightarrow> Inr (Some r)))"

text \<open>The transaction of \<open>handleRegister\<close>.\<close>

definition tx_register ::
  "('b) doc_kv \<Rightarrow> (string \<Rightarrow> string) \<Rightarrow> ('r, 'b) tdb \<Rightarrow> int \<Rightarrow> bool \<Rightarrow> string \<Rightarrow> register_req
    \<Rightarrow> device \<Rightarrow> api_error + ('r, 'b) tdb" where
  "tx_register K H db now bootstrap token rq dev =
    (case (if bootstrap then Inr db else redeem_token K db (hash_token H token) now (rq_id rq)) of
       Inl e \<Rightarrow> Inl e
     | Inr db1 \<Rightarrow>
         (case kv_get K (td_devices db1) (rq_id rq) of
            None \<Rightarrow> Inr (put_device K db1 (rq_id rq) dev)
          | Some raw \<Rightarrow>
              (case as_device raw of
                 None \<Rightarrow> Inl Internal
               | Some prev \<Rightarrow>
                   if dv_status prev \<noteq> device_revoked then Inl (Api 409 ''device already registered'')
                   else Inr (put_device K db1 (rq_id rq) dev))))"

definition put_wrap :: "('b) doc_kv \<Rightarrow> ('r, 'b) tdb \<Rightarrow> string \<Rightarrow> hk_wrap \<Rightarrow> ('r, 'b) tdb" where
  "put_wrap K db did w = db\<lparr>td_hk_wraps := kv_put K (td_hk_wraps db) did (Doc (DWrap (json_wrap w)))\<rparr>"

text \<open>The transaction of \<open>handleActivate\<close>.\<close>

definition tx_activate ::
  "('b) doc_kv \<Rightarrow> ('r, 'b) tdb \<Rightarrow> string \<Rightarrow> hk_wrap \<Rightarrow> api_error + ('r, 'b) tdb" where
  "tx_activate K db did w =
    (case kv_get K (td_devices db) did of
       None \<Rightarrow> Inl (Api 404 ''device not found'')
     | Some raw \<Rightarrow>
         (case as_device raw of
            None \<Rightarrow> Inl Internal
          | Some dev \<Rightarrow>
              if dv_status dev = device_revoked then Inl (Api 409 ''device revoked'')
              else
                (case (if kv_items K (td_hk_wraps db) = [] then
                         (if hw_hk_version w < 1 then Inl (Api 400 ''hk_version must be >= 1'')
                          else Inr (set_hk_version K db (hw_hk_version w)))
                       else if hw_hk_version w \<noteq> get_hk_version K db
                       then Inl (Api 400 ''hk_version must equal current'')
                       else Inr db) of
                   Inl e \<Rightarrow> Inl e
                 | Inr db1 \<Rightarrow>
                     Inr (put_device K (put_wrap K db1 did w) did (dev\<lparr>dv_status := device_active\<rparr>)))))"

text \<open>The transaction of \<open>handleRecoveryActivate\<close>.\<close>

definition tx_recovery_activate ::
  "('b) doc_kv \<Rightarrow> ('r, 'b) tdb \<Rightarrow> string \<Rightarrow> hk_wrap \<Rightarrow> api_error + ('r, 'b) tdb" where
  "tx_recovery_activate K db did w =
    (case kv_get K (td_devices db) did of
       None \<Rightarrow> Inl (Api 404 ''device not found'')
     | Some raw \<Rightarrow>
         (case as_device raw of
            None \<Rightarrow> Inl Internal
          | Some dev \<Rightarrow>
              if dv_status dev = device_revoked then Inl (Api 409 ''device revoked'')
              else if hw_hk_version w \<noteq> get_hk_version K db
              then Inl (Api 400 ''hk_version must equal current'')
              else Inr (put_device K (put_wrap K db did w) did (dev\<lparr>dv_status := device_active\<rparr>))))"

definition tx_revoke :: "('b) doc_kv \<Rightarrow> ('r, 'b) tdb \<Rightarrow> string \<Rightarrow> api_error + ('r, 'b) tdb" where
  "tx_revoke K db did =
    (case kv_get K (td_devices db) did of
       None \<Rightarrow> Inl (Api 404 ''device not found'')
     | Some raw \<Rightarrow>
         (case as_device raw of
            None \<Rightarrow> Inl Internal
          | Some dev \<Rightarrow>
              let db1 = put_device K db did (dev\<lparr>dv_status := device_revoked\<rparr>)
              in Inr (db1\<lparr>td_hk_wraps := kv_del K (td_hk_wraps db1) did\<rparr>)))"

text \<open>The transaction of \<open>handleInitRecovery\<close>.\<close>

definition tx_init_recovery ::
  "('b) doc_kv \<Rightarrow> ('r, 'b) tdb \<Rightarrow> recovery_init \<Rightarrow> api_error + ('r, 'b) tdb" where
  "tx_init_recovery K db rq =
    (if kv_get K (td_recovery db) recovery_key \<noteq> None
     then Inl (Api 409 ''recovery key already configured'')
     else Inr (db\<lparr>td_recovery :=
       kv_put K (td_recovery db) recovery_key (Doc (DRecovery (json_recovery rq)))\<rparr>))"



subsection \<open>Record streams\<close>

fun push_loop :: "('b) doc_kv \<Rightarrow> int \<Rightarrow> push_record list \<Rightarrow> 'b \<Rightarrow> int \<Rightarrow> 'b \<times> int" where
  "push_loop K now [] b stored = (b, stored)"
| "push_loop K now (p # ps) b stored =
    (let key = seq_key (ps_seq p)
     in if kv_get K b key \<noteq> None then push_loop K now ps b stored
        else push_loop K now ps
          (kv_put K b key (Doc (DRecord (json_record
             \<lparr>sr_id = ps_id p, sr_key_id = ps_key_id p, sr_blob = ps_blob p, sr_created_ms = now\<rparr>))))
          (stored + 1))"

definition max_seq :: "('b) doc_kv \<Rightarrow> 'b \<Rightarrow> u64" where
  "max_seq K b = (case kv_last_key K b of None \<Rightarrow> be_uint64 [] | Some k \<Rightarrow> be_uint64 k)"

text \<open>The transaction of \<open>handlePush\<close>; bbolt refuses only an empty bucket name, which has a prefix.\<close>

definition tx_push ::
  "('b) doc_kv \<Rightarrow> ('r, 'b) kv \<Rightarrow> ('r, 'b) tdb \<Rightarrow> int \<Rightarrow> push_req \<Rightarrow> ('r, 'b) tdb \<times> push_resp" where
  "tx_push K R db now rq =
    (let name = records_prefix @ pq_host_id rq;
         b = (case kv_get R (td_streams db) name of None \<Rightarrow> kv_empty K | Some b \<Rightarrow> b);
         (b', stored) = push_loop K now (pq_records rq) b 0
     in (db\<lparr>td_streams := kv_put R (td_streams db) name b'\<rparr>,
         \<lparr>pp_stored = stored, pp_max_seq = max_seq K b'\<rparr>))"

definition ascending :: "push_record list \<Rightarrow> bool" where
  "ascending ps \<longleftrightarrow>
    list_all (\<lambda>i. ps_seq (ps ! (i - 1)) < ps_seq (ps ! i)) [1 ..< length ps]"

text \<open>The cursor loop of \<open>handlePull\<close>: the limit is tested before a row is read.\<close>

fun pull_loop ::
  "nat \<Rightarrow> (string \<times> doc blob) list \<Rightarrow> pull_record list \<Rightarrow> api_error + (pull_record list \<times> bool)" where
  "pull_loop limit [] out = Inr (out, False)"
| "pull_loop limit ((k, v) # rows) out =
    (if length out = limit then Inr (out, True)
     else case as_record v of
       None \<Rightarrow> Inl Internal
     | Some sr \<Rightarrow> pull_loop limit rows (out @
         [\<lparr>pl_seq = be_uint64 k, pl_id = sr_id sr, pl_key_id = sr_key_id sr, pl_blob = sr_blob sr,
           pl_created_ms = sr_created_ms sr\<rparr>]))"

definition tx_pull ::
  "('b) doc_kv \<Rightarrow> ('r, 'b) kv \<Rightarrow> ('r, 'b) tdb \<Rightarrow> string \<Rightarrow> u64 \<Rightarrow> nat \<Rightarrow> api_error + pull_resp" where
  "tx_pull K R db host after limit =
    (case kv_get R (td_streams db) (records_prefix @ host) of
       None \<Rightarrow> Inr \<lparr>pr_records = [], pr_next_after = None\<rparr>
     | Some b \<Rightarrow>
         (case pull_loop limit (kv_seek K b (seq_key (after + 1))) [] of
            Inl e \<Rightarrow> Inl e
          | Inr (out, has_more) \<Rightarrow>
              Inr \<lparr>pr_records = out,
                   pr_next_after = (if has_more then Some (pl_seq (last out)) else None)\<rparr>))"

definition tx_hosts :: "('b) doc_kv \<Rightarrow> ('r, 'b) kv \<Rightarrow> ('r, 'b) tdb \<Rightarrow> host_info list" where
  "tx_hosts K R db =
    map (\<lambda>(name, b). \<lparr>hi_host_id = drop (length records_prefix) name, hi_max_seq = max_seq K b\<rparr>)
      (filter (\<lambda>(name, _). length records_prefix < length name \<and> has_prefix name records_prefix)
        (kv_items R (td_streams db)))"


subsection \<open>Data keys\<close>

fun dek_loop ::
  "nat \<Rightarrow> (string \<times> doc blob) list \<Rightarrow> dek_wrap list \<Rightarrow> api_error + (dek_wrap list \<times> bool)" where
  "dek_loop limit [] out = Inr (out, False)"
| "dek_loop limit ((k, v) # rows) out =
    (if length out = limit then Inr (out, True)
     else case as_dek v of None \<Rightarrow> Inl Internal | Some dw \<Rightarrow> dek_loop limit rows (out @ [dw]))"

definition tx_list_dek ::
  "('b) doc_kv \<Rightarrow> ('r, 'b) tdb \<Rightarrow> string \<Rightarrow> nat \<Rightarrow> api_error + dek_list_resp" where
  "tx_list_dek K db cursor limit =
    (let rows = (if cursor = [] then kv_items K (td_dek_wraps db)
                 else case kv_seek K (td_dek_wraps db) cursor of
                        [] \<Rightarrow> []
                      | (k, v) # rest \<Rightarrow> if k = cursor then rest else (k, v) # rest)
     in case dek_loop limit rows [] of
          Inl e \<Rightarrow> Inl e
        | Inr (out, has_more) \<Rightarrow>
            Inr \<lparr>dl_wraps = out, dl_next_cursor = (if has_more then dk_key_id (last out) else [])\<rparr>)"

fun check_deks :: "int \<Rightarrow> dek_wrap list \<Rightarrow> api_error option" where
  "check_deks current [] = None"
| "check_deks current (dw # dws) =
    (if dk_key_id dw = [] then Some (Api 400 ''key_id required'')
     else if dk_device_id dw = [] then Some (Api 400 ''device_id required'')
     else if dk_hk_version dw \<noteq> current then Some (Api 400 ''hk_version must equal current'')
     else check_deks current dws)"

definition put_dek :: "('b) doc_kv \<Rightarrow> 'b \<Rightarrow> dek_wrap \<Rightarrow> 'b" where
  "put_dek K b dw = kv_put K b (dk_key_id dw) (Doc (DDek (json_dek dw)))"

fun store_deks :: "('b) doc_kv \<Rightarrow> dek_wrap list \<Rightarrow> 'b \<Rightarrow> int \<Rightarrow> 'b \<times> int" where
  "store_deks K [] b stored = (b, stored)"
| "store_deks K (dw # dws) b stored =
    (if kv_get K b (dk_key_id dw) \<noteq> None then store_deks K dws b stored
     else store_deks K dws (put_dek K b dw) (stored + 1))"

definition tx_post_dek ::
  "('b) doc_kv \<Rightarrow> ('r, 'b) tdb \<Rightarrow> dek_wrap list \<Rightarrow> api_error + (('r, 'b) tdb \<times> int)" where
  "tx_post_dek K db dws =
    (case check_deks (get_hk_version K db) dws of
       Some e \<Rightarrow> Inl e
     | None \<Rightarrow>
         (case store_deks K dws (td_dek_wraps db) 0 of (b, stored) \<Rightarrow>
            Inr (db\<lparr>td_dek_wraps := b\<rparr>, stored)))"


subsection \<open>Rotation\<close>

fun check_wraps :: "('b) doc_kv \<Rightarrow> ('r, 'b) tdb \<Rightarrow> hk_wrap list \<Rightarrow> api_error option" where
  "check_wraps K db [] = None"
| "check_wraps K db (hw # hws) =
    (case kv_get K (td_devices db) (hw_device_id hw) of
       None \<Rightarrow> Some (Api 400 (''hk wrap for unknown device '' @ hw_device_id hw))
     | Some raw \<Rightarrow>
         (case as_device raw of
            None \<Rightarrow> Some Internal
          | Some dev \<Rightarrow>
              if dv_status dev \<noteq> device_active
              then Some (Api 400 (''hk wrap for non-active device '' @ hw_device_id hw))
              else check_wraps K db hws))"

fun check_provided ::
  "string list \<Rightarrow> string list \<Rightarrow> dek_wrap list \<Rightarrow> api_error + string list" where
  "check_provided existing provided [] = Inr provided"
| "check_provided existing provided (dw # dws) =
    (if dk_key_id dw \<in> set provided
     then Inl (Api 400 (''duplicate dek wrap for key '' @ dk_key_id dw))
     else if dk_key_id dw \<notin> set existing
     then Inl (Api 400 (''unexpected dek wrap for key '' @ dk_key_id dw))
     else check_provided existing (dk_key_id dw # provided) dws)"

definition check_coverage :: "string list \<Rightarrow> dek_wrap list \<Rightarrow> api_error option" where
  "check_coverage existing dws =
    (case check_provided existing [] dws of
       Inl e \<Rightarrow> Some e
     | Inr provided \<Rightarrow>
         (case List.find (\<lambda>k. k \<notin> set provided) existing of
            None \<Rightarrow> None
          | Some k \<Rightarrow> Some (Api 400 (''missing dek wrap for key '' @ k))))"

definition check_recovery :: "recovery_init option \<Rightarrow> rotate_req \<Rightarrow> api_error option" where
  "check_recovery recovery rq =
    (case (recovery, ro_recovery_wrap rq) of
       (None, None) \<Rightarrow> None
     | (None, Some _) \<Rightarrow>
         Some (Api 400 ''recovery_wrap given but no recovery key is configured'')
     | (Some _, None) \<Rightarrow>
         Some (Api 400 ''recovery_wrap required: the recovery key must rotate too'')
     | (Some _, Some w) \<Rightarrow>
         if hw_blob w = [] then Some (Api 400 ''recovery_wrap.blob required'')
         else if hw_hk_version w \<noteq> ro_hk_version rq
         then Some (Api 400 ''recovery_wrap.hk_version must equal hk_version'')
         else None)"

text \<open>The writes, once every check has passed.\<close>

definition apply_rotate ::
  "('b) doc_kv \<Rightarrow> ('r, 'b) tdb \<Rightarrow> recovery_init option \<Rightarrow> rotate_req \<Rightarrow> ('r, 'b) tdb" where
  "apply_rotate K db recovery rq =
    (let rb = (case (recovery, ro_recovery_wrap rq) of
                 (Some r, Some w) \<Rightarrow>
                   kv_put K (td_recovery db) recovery_key (Doc (DRecovery (json_recovery
                     (r\<lparr>ri_wrap := (ri_wrap r)\<lparr>hw_blob := hw_blob w, hw_hk_version := hw_hk_version w\<rparr>\<rparr>))))
               | _ \<Rightarrow> td_recovery db);
         old = map fst (kv_items K (td_hk_wraps db));
         cleared = foldl (kv_del K) (td_hk_wraps db) old;
         hb = foldl (\<lambda>b w. kv_put K b (hw_device_id w) (Doc (DWrap (json_wrap w)))) cleared
                (ro_hk_wraps rq);
         kb = foldl (put_dek K) (td_dek_wraps db) (ro_dek_wraps rq)
     in set_hk_version K
          (db\<lparr>td_recovery := rb, td_hk_wraps := hb, td_dek_wraps := kb\<rparr>) (ro_hk_version rq))"

definition tx_rotate ::
  "('b) doc_kv \<Rightarrow> ('r, 'b) tdb \<Rightarrow> rotate_req \<Rightarrow> api_error + ('r, 'b) tdb" where
  "tx_rotate K db rq =
    (if ro_hk_version rq \<noteq> wrap64 (get_hk_version K db + 1)
     then Inl (Api 400 ''hk_version must be current+1'')
     else if ro_hk_wraps rq = [] then Inl (Api 400 ''hk_wraps must be non-empty'')
     else case check_wraps K db (ro_hk_wraps rq) of
       Some e \<Rightarrow> Inl e
     | None \<Rightarrow>
         (case check_coverage (map fst (kv_items K (td_dek_wraps db))) (ro_dek_wraps rq) of
            Some e \<Rightarrow> Inl e
          | None \<Rightarrow>
              (case load_recovery K db of
                 Inl e \<Rightarrow> Inl e
               | Inr recovery \<Rightarrow>
                   (case check_recovery recovery rq of
                      Some e \<Rightarrow> Inl e
                    | None \<Rightarrow> Inr (apply_rotate K db recovery rq)))))"



section \<open>Correctness\<close>

lemma status_json [simp]:
  "json_str ''active'' = ''active''" "json_str ''pending'' = ''pending''"
  "json_str ''revoked'' = ''revoked''"
  by (simp_all add: json_str_ascii ascii_byte_def byte_def)

lemma json_token_sel [simp]:
  "sk_created_ms (json_token t) = sk_created_ms t" "sk_expires_ms (json_token t) = sk_expires_ms t"
  "sk_claimed_ms (json_token t) = sk_claimed_ms t" "sk_revoked_ms (json_token t) = sk_revoked_ms t"
  by (simp_all add: json_token_def)

lemma json_recovery_sel [simp]:
  "ri_salt (json_recovery r) = ri_salt r" "ri_pub_key (json_recovery r) = ri_pub_key r"
  "ri_sign_key (json_recovery r) = ri_sign_key r"
  by (simp_all add: json_recovery_def)

lemma as_device_iff: "as_device v = Some d \<longleftrightarrow> v = Doc (DDevice d)"
  by (cases v rule: as_device.cases) auto

lemma as_token_iff: "as_token v = Some d \<longleftrightarrow> v = Doc (DToken d)"
  by (cases v rule: as_token.cases) auto

lemma as_recovery_iff: "as_recovery v = Some d \<longleftrightarrow> v = Doc (DRecovery d)"
  by (cases v rule: as_recovery.cases) auto

text \<open>The devices of a tenant and their standing, read off the bucket.\<close>

definition device_of :: "'b doc_kv \<Rightarrow> ('r, 'b) tdb \<Rightarrow> string \<Rightarrow> device option" where
  "device_of K db did = Option.bind (kv_get K (td_devices db) did) as_device"

definition active_in :: "'b doc_kv \<Rightarrow> ('r, 'b) tdb \<Rightarrow> string \<Rightarrow> bool" where
  "active_in K db did \<longleftrightarrow> (\<exists>d. device_of K db did = Some d \<and> dv_status d = device_active)"

text \<open>
  Every change a handler makes to a tenant's database, with the arguments its checks let through.
  Minting draws a token whose hash is not in use, which 32 random bytes provide.
\<close>

inductive tdb_step ::
  "'b doc_kv \<Rightarrow> ('r, 'b) kv \<Rightarrow> (string \<Rightarrow> string) \<Rightarrow> ('r, 'b) tdb \<Rightarrow> ('r, 'b) tdb \<Rightarrow> bool"
  for K R H where
  Mint: "kv_get K (td_tokens db) (hash_token H t) = None \<Longrightarrow> tdb_step K R H db (mint_token K H db now t)"
| RevokeToken: "revoke_token K db sm now = Inr db' \<Longrightarrow> tdb_step K R H db db'"
| Register: "0 < unix_milli now \<Longrightarrow> dv_status dev = device_pending \<Longrightarrow>
    tx_register K H db now bootstrap token rq dev = Inr db' \<Longrightarrow> tdb_step K R H db db'"
| Activate: "tx_activate K db did w = Inr db' \<Longrightarrow> tdb_step K R H db db'"
| RecoveryActivate: "tx_recovery_activate K db did w = Inr db' \<Longrightarrow> tdb_step K R H db db'"
| Revoke: "tx_revoke K db did = Inr db' \<Longrightarrow> tdb_step K R H db db'"
| InitRecovery: "tx_init_recovery K db r = Inr db' \<Longrightarrow> tdb_step K R H db db'"
| Push: "tx_push K R db now p = (db', resp) \<Longrightarrow> tdb_step K R H db db'"
| PostDEK: "tx_post_dek K db dws = Inr (db', n) \<Longrightarrow> tdb_step K R H db db'"
| Rotate: "tx_rotate K db r = Inr db' \<Longrightarrow> tdb_step K R H db db'"
| Probe: "tdb_step K R H db (db\<lparr>td_meta := kv_put K (td_meta db) meta_ready_probe (Raw s)\<rparr>)"

text \<open>Which buckets each transaction touches.\<close>

lemma redeem_token_cases:
  assumes "redeem_token K db sm now did = Inr db'"
  obtains st where "load_token K db sm = Some st" and "token_usable st now"
    and "db' = put_token K db sm (st\<lparr>sk_claimed_ms := unix_milli now, sk_claimed_by := did\<rparr>)"
  using assms by (auto simp: redeem_token_def split: option.splits if_splits)

lemma register_cases:
  assumes "tx_register K H db now bootstrap token rq dev = Inr db'"
  obtains db1 where "db' = put_device K db1 (rq_id rq) dev"
    and "if bootstrap then db1 = db else redeem_token K db (hash_token H token) now (rq_id rq) = Inr db1"
    and "kv_get K (td_devices db) (rq_id rq) = None \<or>
      (\<exists>prev. device_of K db (rq_id rq) = Some prev \<and> dv_status prev = device_revoked)"
proof -
  from assms obtain db1 where db1: "(if bootstrap then Inr db
      else redeem_token K db (hash_token H token) now (rq_id rq)) = Inr db1"
    by (auto simp: tx_register_def split: sum.splits)
  then have dev: "td_devices db1 = td_devices db"
    by (auto simp: put_token_def split: if_splits elim!: redeem_token_cases)
  have res: "db' = put_device K db1 (rq_id rq) dev \<and>
      (kv_get K (td_devices db) (rq_id rq) = None \<or>
       (\<exists>prev. device_of K db (rq_id rq) = Some prev \<and> dv_status prev = device_revoked))"
    using assms unfolding tx_register_def db1 by (auto simp: dev device_of_def split: option.splits if_splits)
  show thesis
  proof (rule that [of db1])
    show "if bootstrap then db1 = db else redeem_token K db (hash_token H token) now (rq_id rq) = Inr db1"
      using db1 by (cases bootstrap) simp_all
  qed (use res in blast)+
qed

lemma activate_cases:
  assumes "tx_activate K db did w = Inr db'"
  obtains dev db1 where "device_of K db did = Some dev" and "dv_status dev \<noteq> device_revoked"
    and "db' = put_device K (put_wrap K db1 did w) did (dev\<lparr>dv_status := device_active\<rparr>)"
    and "if kv_items K (td_hk_wraps db) = []
      then 1 \<le> hw_hk_version w \<and> db1 = set_hk_version K db (hw_hk_version w)
      else hw_hk_version w = get_hk_version K db \<and> db1 = db"
  using assms
  by (auto simp: tx_activate_def device_of_def split: option.splits if_splits sum.splits)

lemma recovery_activate_cases:
  assumes "tx_recovery_activate K db did w = Inr db'"
  obtains dev where "device_of K db did = Some dev" and "dv_status dev \<noteq> device_revoked"
    and "hw_hk_version w = get_hk_version K db"
    and "db' = put_device K (put_wrap K db did w) did (dev\<lparr>dv_status := device_active\<rparr>)"
  using assms
  by (auto simp: tx_recovery_activate_def device_of_def split: option.splits if_splits)

lemma revoke_cases:
  assumes "tx_revoke K db did = Inr db'"
  obtains dev where "device_of K db did = Some dev"
    and "db' = (put_device K db did (dev\<lparr>dv_status := device_revoked\<rparr>))
      \<lparr>td_hk_wraps := kv_del K (td_hk_wraps db) did\<rparr>"
  using assms by (auto simp: tx_revoke_def device_of_def put_device_def Let_def split: option.splits)

lemma rotate_cases:
  assumes "tx_rotate K db r = Inr db'"
  obtains recovery where "ro_hk_version r = wrap64 (get_hk_version K db + 1)"
    and "ro_hk_wraps r \<noteq> []" and "check_wraps K db (ro_hk_wraps r) = None"
    and "check_coverage (map fst (kv_items K (td_dek_wraps db))) (ro_dek_wraps r) = None"
    and "load_recovery K db = Inr recovery" and "check_recovery recovery r = None"
    and "db' = apply_rotate K db recovery r"
  using assms by (auto simp: tx_rotate_def split: option.splits if_splits sum.splits)

lemma revoke_token_cases:
  assumes "revoke_token K db sm now = Inr db'"
  obtains "db' = db"
    | st where "load_token K db sm = Some st" and "sk_claimed_ms st = 0" and "sk_revoked_ms st = 0"
      and "db' = put_token K db sm (st\<lparr>sk_revoked_ms := unix_milli now\<rparr>)"
  using assms by (auto simp: revoke_token_def split: option.splits if_splits)

lemma push_other:
  assumes "tx_push K R db now p = (db', resp)"
  shows "\<exists>r. db' = db\<lparr>td_streams := r\<rparr>"
  using assms by (auto simp: tx_push_def Let_def split: prod.splits)

lemma post_dek_other:
  assumes "tx_post_dek K db dws = Inr (db', n)"
  shows "\<exists>b. db' = db\<lparr>td_dek_wraps := b\<rparr>"
  using assms by (auto simp: tx_post_dek_def split: option.splits prod.splits)

lemma init_recovery_cases:
  assumes "tx_init_recovery K db r = Inr db'"
  obtains "kv_get K (td_recovery db) recovery_key = None"
    and "db' = db\<lparr>td_recovery := kv_put K (td_recovery db) recovery_key
      (Doc (DRecovery (json_recovery r)))\<rparr>"
  using assms by (auto simp: tx_init_recovery_def split: if_splits)

lemma activate_frame:
  assumes "tx_activate K db did w = Inr db'"
  shows "td_tokens db' = td_tokens db \<and> td_recovery db' = td_recovery db \<and>
    td_dek_wraps db' = td_dek_wraps db \<and> td_streams db' = td_streams db"
  using assms
proof (rule activate_cases)
  fix dev db1
  assume 1: "db' = put_device K (put_wrap K db1 did w) did (dev\<lparr>dv_status := device_active\<rparr>)"
    and 2: "if kv_items K (td_hk_wraps db) = []
      then 1 \<le> hw_hk_version w \<and> db1 = set_hk_version K db (hw_hk_version w)
      else hw_hk_version w = get_hk_version K db \<and> db1 = db"
  consider "db1 = db" | "db1 = set_hk_version K db (hw_hk_version w)"
    using 2 by (cases "kv_items K (td_hk_wraps db) = []") simp_all
  then show ?thesis
    by cases (simp_all add: 1 put_device_def put_wrap_def set_hk_version_def)
qed

lemma register_frame:
  assumes "tx_register K H db now bootstrap token rq dev = Inr db'"
  shows "td_hk_wraps db' = td_hk_wraps db \<and> td_recovery db' = td_recovery db \<and>
    td_dek_wraps db' = td_dek_wraps db \<and> td_streams db' = td_streams db \<and> td_meta db' = td_meta db \<and>
    td_devices db' = kv_put K (td_devices db) (rq_id rq) (Doc (DDevice (json_device dev)))"
  using assms
proof (rule register_cases)
  fix db1
  assume 1: "db' = put_device K db1 (rq_id rq) dev"
    and 2: "if bootstrap then db1 = db
      else redeem_token K db (hash_token H token) now (rq_id rq) = Inr db1"
  have "\<exists>t. db1 = db\<lparr>td_tokens := t\<rparr>"
  proof (cases bootstrap)
    case True
    with 2 show ?thesis by (auto intro: exI [of _ "td_tokens db"])
  next
    case False
    with 2 have "redeem_token K db (hash_token H token) now (rq_id rq) = Inr db1" by simp
    then show ?thesis by (rule redeem_token_cases) (auto simp: put_token_def)
  qed
  then show ?thesis by (auto simp: 1 put_device_def)
qed

text \<open>The token bucket after a step: only minting, revoking and enrolling write to it.\<close>

lemmas step_other_buckets =
  put_device_def put_wrap_def set_hk_version_def apply_rotate_def Let_def

text \<open>The recovery keys, once published, never change; only their wrap rotates.\<close>

definition recovery_of :: "'b doc_kv \<Rightarrow> ('r, 'b) tdb \<Rightarrow> recovery_init option" where
  "recovery_of K db = Option.bind (kv_get K (td_recovery db) recovery_key) as_recovery"

text \<open>A tenant is consistent: its rows decode, and only active devices have the History Key.\<close>

definition tdb_ok :: "'b doc_kv \<Rightarrow> ('r, 'b) tdb \<Rightarrow> bool" where
  "tdb_ok K db \<longleftrightarrow>
    (\<forall>k v. kv_get K (td_devices db) k = Some v \<longrightarrow> (\<exists>d. v = Doc (DDevice d))) \<and>
    (\<forall>k v. kv_get K (td_hk_wraps db) k = Some v \<longrightarrow> (\<exists>w. v = Doc (DWrap w)) \<and> active_in K db k)"

text \<open>A stream bucket as the list of records it serves.\<close>

definition pull_row :: "string \<times> doc blob \<Rightarrow> pull_record" where
  "pull_row kv = (case as_record (snd kv) of
     Some r \<Rightarrow> \<lparr>pl_seq = be_uint64 (fst kv), pl_id = sr_id r, pl_key_id = sr_key_id r,
       pl_blob = sr_blob r, pl_created_ms = sr_created_ms r\<rparr>
   | None \<Rightarrow> \<lparr>pl_seq = be_uint64 (fst kv), pl_id = [], pl_key_id = [], pl_blob = [], pl_created_ms = 0\<rparr>)"

definition stream_ok :: "'b doc_kv \<Rightarrow> 'b \<Rightarrow> bool" where
  "stream_ok K b \<longleftrightarrow> (\<forall>k v. kv_get K b k = Some v \<longrightarrow> (\<exists>n r. k = seq_key n \<and> v = Doc (DRecord r)))"

definition pulled :: "'b doc_kv \<Rightarrow> 'b \<Rightarrow> pull_record list" where
  "pulled K b = map pull_row (kv_items K b)"

locale tenant_store = bucket K for K :: "('b, doc blob) kv"
begin

lemma foldl_del_get:
  "kv_get K (foldl (kv_del K) b ks) k = (if k \<in> set ks then None else kv_get K b k)"
  by (induction ks arbitrary: b) auto

lemma prune_keeps:
  assumes "load_token K db sm = Some st" and "sk_claimed_ms st \<noteq> 0"
  shows "load_token K (prune_tokens K db now) sm = Some st"
proof -
  let ?dead = "map fst (filter (\<lambda>(_, v). token_dead (unix_milli (now - token_keep)) v)
      (kv_items K (td_tokens db)))"
  obtain v where v: "kv_get K (td_tokens db) sm = Some v" "as_token v = Some st"
    using assms(1) by (auto simp: load_token_def bind_eq_Some_conv)
  have "sm \<notin> set ?dead"
  proof
    assume "sm \<in> set ?dead"
    then obtain w where "(sm, w) \<in> set (kv_items K (td_tokens db))"
        and dead: "token_dead (unix_milli (now - token_keep)) w" by auto
    then have "w = v" using v(1) mem_items by simp
    with dead v(2) assms(2) show False by (simp add: token_dead_def)
  qed
  with v show ?thesis by (simp add: load_token_def prune_tokens_def Let_def foldl_del_get)
qed

lemma load_put_token:
  "load_token K (put_token K db sm st) sm' = (if sm' = sm then Some (json_token st) else load_token K db sm')"
  by (simp add: load_token_def put_token_def)

lemma load_token_cong: "td_tokens db' = td_tokens db \<Longrightarrow> load_token K db' sm = load_token K db sm"
  by (simp add: load_token_def)

lemma usable_unclaimed: "token_usable st now \<Longrightarrow> sk_claimed_ms st = 0 \<and> sk_revoked_ms st = 0"
  by (auto simp: token_usable_def token_state_def token_claimed_def token_open_def token_revoked_def
      split: if_splits)

text \<open>A claimed token is never written again.\<close>

lemma step_keeps_claimed:
  assumes "tdb_step K R H db db'" and "load_token K db sm = Some st" and "sk_claimed_ms st \<noteq> 0"
  shows "load_token K db' sm = Some st"
  using assms
proof (induction rule: tdb_step.induct)
  case (Mint db t now)
  then have "sm \<noteq> hash_token H t" by (auto simp: load_token_def)
  with Mint show ?case by (simp add: mint_token_def load_put_token prune_keeps)
next
  case (RevokeToken db sm' now db')
  from RevokeToken(1) show ?case
    by (rule revoke_token_cases) (use RevokeToken(2,3) in \<open>auto simp: load_put_token\<close>)
next
  case (Register now dev db bootstrap token rq db')
  from Register(3) obtain db1 where db1: "db' = put_device K db1 (rq_id rq) dev"
    "if bootstrap then db1 = db else redeem_token K db (hash_token H token) now (rq_id rq) = Inr db1"
    by (rule register_cases)
  have "load_token K db1 sm = Some st"
  proof (cases bootstrap)
    case False
    with db1(2) have "redeem_token K db (hash_token H token) now (rq_id rq) = Inr db1" by simp
    then show ?thesis
      by (rule redeem_token_cases)
        (use Register(4,5) usable_unclaimed in \<open>auto simp: load_put_token\<close>)
  qed (use db1(2) Register(4) in simp)
  then show ?case using db1(1) by (simp add: load_token_def put_device_def)
next
  case (Activate db did w db')
  then have "td_tokens db' = td_tokens db" using activate_frame by blast
  with Activate(2) show ?case by (metis load_token_cong)
next
  case (RecoveryActivate db did w db')
  from RecoveryActivate(1) show ?case
    by (rule recovery_activate_cases)
      (use RecoveryActivate(2) in \<open>simp add: load_token_def step_other_buckets\<close>)
next
  case (Revoke db did db')
  from Revoke(1) show ?case
    by (rule revoke_cases) (use Revoke(2) in \<open>simp add: load_token_def step_other_buckets\<close>)
next
  case (InitRecovery db r db')
  from InitRecovery(1) show ?case
    by (rule init_recovery_cases) (use InitRecovery(2) in \<open>simp add: load_token_def\<close>)
next
  case (Push db now p db' resp)
  then show ?case using push_other [OF Push(1)] by (auto simp: load_token_def)
next
  case (PostDEK db dws db' n)
  then show ?case using post_dek_other [OF PostDEK(1)] by (auto simp: load_token_def)
next
  case (Rotate db r db')
  from Rotate(1) show ?case
    by (rule rotate_cases) (use Rotate(2) in \<open>simp add: load_token_def step_other_buckets\<close>)
next
  case (Probe db s)
  then show ?case by (simp add: load_token_def)
qed

lemma steps_keep_claimed:
  assumes "(tdb_step K R H)\<^sup>*\<^sup>* db db'" and "load_token K db sm = Some st" and "sk_claimed_ms st \<noteq> 0"
  shows "load_token K db' sm = Some st"
  using assms by (induction rule: rtranclp_induct) (auto intro: step_keeps_claimed)

lemma redeem_claims:
  assumes "redeem_token K db sm now did = Inr db'" and "0 < unix_milli now"
  shows "\<exists>st. load_token K db' sm = Some st \<and> sk_claimed_ms st = unix_milli now"
  using assms(1) by (rule redeem_token_cases) (simp add: load_put_token)

lemma recovery_of_cong: "td_recovery db' = td_recovery db \<Longrightarrow> recovery_of K db' = recovery_of K db"
  by (simp add: recovery_of_def)

lemma load_recovery_of: "load_recovery K db = Inr (Some r) \<Longrightarrow> recovery_of K db = Some r"
  by (auto simp: load_recovery_def recovery_of_def split: option.splits)

lemma rotate_recovery:
  assumes "load_recovery K db = Inr recovery" and "recovery_of K db = Some r0"
  shows "\<exists>r'. recovery_of K (apply_rotate K db recovery r) = Some r' \<and>
    ri_salt r' = ri_salt r0 \<and> ri_pub_key r' = ri_pub_key r0 \<and> ri_sign_key r' = ri_sign_key r0"
proof -
  obtain v where v: "kv_get K (td_recovery db) recovery_key = Some v" "as_recovery v = Some r0"
    using assms(2) by (auto simp: recovery_of_def bind_eq_Some_conv)
  then have rec: "recovery = Some r0" using assms(1) by (simp add: load_recovery_def)
  show ?thesis
  proof (cases "ro_recovery_wrap r")
    case None
    then have "td_recovery (apply_rotate K db recovery r) = td_recovery db"
      by (simp add: apply_rotate_def set_hk_version_def Let_def rec)
    with assms(2) show ?thesis using recovery_of_cong by metis
  next
    case (Some w)
    then show ?thesis
      by (simp add: apply_rotate_def set_hk_version_def Let_def rec recovery_of_def)
  qed
qed

lemma step_keeps_recovery:
  assumes "tdb_step K R H db db'" and "recovery_of K db = Some r0"
  shows "\<exists>r'. recovery_of K db' = Some r' \<and> ri_salt r' = ri_salt r0 \<and>
    ri_pub_key r' = ri_pub_key r0 \<and> ri_sign_key r' = ri_sign_key r0"
  using assms
proof (induction rule: tdb_step.induct)
  case (Mint db t now)
  then show ?case by (simp add: recovery_of_def mint_token_def put_token_def prune_tokens_def Let_def)
next
  case (RevokeToken db sm now db')
  from RevokeToken(1) show ?case
    by (rule revoke_token_cases) (use RevokeToken(2) in \<open>simp_all add: recovery_of_def put_token_def\<close>)
next
  case (Register now dev db bootstrap token rq db')
  then have "td_recovery db' = td_recovery db" using register_frame by blast
  with Register(4) show ?case by (metis recovery_of_cong)
next
  case (Activate db did w db')
  then have "td_recovery db' = td_recovery db" using activate_frame by blast
  with Activate(2) show ?case by (metis recovery_of_cong)
next
  case (RecoveryActivate db did w db')
  from RecoveryActivate(1) show ?case
    by (rule recovery_activate_cases)
      (use RecoveryActivate(2) in \<open>simp add: recovery_of_def step_other_buckets\<close>)
next
  case (Revoke db did db')
  from Revoke(1) show ?case
    by (rule revoke_cases) (use Revoke(2) in \<open>simp add: recovery_of_def step_other_buckets\<close>)
next
  case (InitRecovery db r db')
  then have False
    by (auto simp: recovery_of_def bind_eq_Some_conv elim!: init_recovery_cases)
  then show ?case ..
next
  case (Push db now p db' resp)
  then show ?case using push_other [OF Push(1)] by (auto simp: recovery_of_def)
next
  case (PostDEK db dws db' n)
  then show ?case using post_dek_other [OF PostDEK(1)] by (auto simp: recovery_of_def)
next
  case (Rotate db r db')
  from Rotate(1) show ?case
    by (rule rotate_cases) (use Rotate(2) rotate_recovery in auto)
next
  case (Probe db s)
  then show ?case by (simp add: recovery_of_def)
qed

lemma tdb_ok_frame:
  "tdb_ok K db \<Longrightarrow> td_devices db' = td_devices db \<Longrightarrow> td_hk_wraps db' = td_hk_wraps db \<Longrightarrow> tdb_ok K db'"
  by (simp add: tdb_ok_def active_in_def device_of_def)

lemma device_of_put:
  "device_of K (put_device K db did d) k = (if k = did then Some (json_device d) else device_of K db k)"
  by (simp add: device_of_def put_device_def)

lemma device_of_cong: "td_devices db' = td_devices db \<Longrightarrow> device_of K db' = device_of K db"
  by (simp add: device_of_def fun_eq_iff)

lemma tdb_ok_activate:
  assumes "tdb_ok K db" and "td_devices db1 = td_devices db" and "td_hk_wraps db1 = td_hk_wraps db"
  shows "tdb_ok K (put_device K (put_wrap K db1 did w) did (dev\<lparr>dv_status := device_active\<rparr>))"
  using assms
  by (auto simp: tdb_ok_def active_in_def device_of_def put_device_def put_wrap_def json_device_def)

lemma check_wraps_active:
  "check_wraps K db hws = None \<Longrightarrow> hw \<in> set hws \<Longrightarrow> active_in K db (hw_device_id hw)"
  by (induction hws) (auto simp: active_in_def device_of_def split: option.splits if_splits)

lemma put_wraps_get:
  "kv_get K (foldl (\<lambda>b w. kv_put K b (hw_device_id w) (Doc (DWrap (json_wrap w)))) b ws) k = Some v \<Longrightarrow>
    kv_get K b k = Some v \<or> (\<exists>w \<in> set ws. k = hw_device_id w \<and> v = Doc (DWrap (json_wrap w)))"
  by (induction ws arbitrary: b) (fastforce split: if_splits)+

lemma rotate_wraps:
  assumes "kv_get K (td_hk_wraps (apply_rotate K db recovery r)) k = Some v"
  shows "\<exists>w \<in> set (ro_hk_wraps r). k = hw_device_id w \<and> v = Doc (DWrap (json_wrap w))"
proof -
  let ?old = "map fst (kv_items K (td_hk_wraps db))"
  have cleared: "kv_get K (foldl (kv_del K) (td_hk_wraps db) ?old) k = None" for k
    using key_items [of k "td_hk_wraps db"] by (auto simp: foldl_del_get simp del: set_map)
  have "kv_get K (foldl (\<lambda>b w. kv_put K b (hw_device_id w) (Doc (DWrap (json_wrap w))))
      (foldl (kv_del K) (td_hk_wraps db) ?old) (ro_hk_wraps r)) k = Some v"
    using assms by (simp add: apply_rotate_def set_hk_version_def Let_def)
  from put_wraps_get [OF this] cleared show ?thesis by simp
qed

lemma step_keeps_ok:
  assumes "tdb_step K R H db db'" and "tdb_ok K db"
  shows "tdb_ok K db'"
  using assms
proof (induction rule: tdb_step.induct)
  case (Mint db t now)
  then show ?case
    by (auto intro: tdb_ok_frame simp: mint_token_def put_token_def prune_tokens_def Let_def)
next
  case (RevokeToken db sm now db')
  from RevokeToken(1) show ?case
    by (rule revoke_token_cases) (use RevokeToken(2) in \<open>auto intro: tdb_ok_frame simp: put_token_def\<close>)
next
  case (Register now dev db bootstrap token rq db')
  from Register(3) have "\<not> active_in K db (rq_id rq)"
    by (rule register_cases) (auto simp: active_in_def device_of_def)
  with Register(4) have "kv_get K (td_hk_wraps db) (rq_id rq) = None"
    by (cases "kv_get K (td_hk_wraps db) (rq_id rq)") (auto simp: tdb_ok_def)
  with Register(2,4) register_frame [OF Register(3)] show ?case
    by (auto simp: tdb_ok_def active_in_def device_of_def)
next
  case (Activate db did w db')
  from Activate(1) show ?case
  proof (rule activate_cases)
    fix dev db1
    assume db': "db' = put_device K (put_wrap K db1 did w) did (dev\<lparr>dv_status := device_active\<rparr>)"
      and 2: "if kv_items K (td_hk_wraps db) = []
        then 1 \<le> hw_hk_version w \<and> db1 = set_hk_version K db (hw_hk_version w)
        else hw_hk_version w = get_hk_version K db \<and> db1 = db"
    consider "db1 = db" | "db1 = set_hk_version K db (hw_hk_version w)"
      using 2 by (cases "kv_items K (td_hk_wraps db) = []") simp_all
    then have "td_devices db1 = td_devices db \<and> td_hk_wraps db1 = td_hk_wraps db"
      by cases (simp_all add: set_hk_version_def)
    with Activate(2) show ?thesis unfolding db' by (blast intro: tdb_ok_activate)
  qed
next
  case (RecoveryActivate db did w db')
  from RecoveryActivate(1) show ?case
    by (rule recovery_activate_cases) (blast intro: tdb_ok_activate [OF RecoveryActivate(2)])
next
  case (Revoke db did db')
  from Revoke(1) show ?case
    by (rule revoke_cases)
      (use Revoke(2) in \<open>auto simp: tdb_ok_def active_in_def device_of_def put_device_def split: if_splits\<close>)
next
  case (InitRecovery db r db')
  from InitRecovery(1) show ?case
    by (rule init_recovery_cases) (use InitRecovery(2) in \<open>auto intro: tdb_ok_frame\<close>)
next
  case (Push db now p db' resp)
  then show ?case using push_other [OF Push(1)] by (auto intro: tdb_ok_frame)
next
  case (PostDEK db dws db' n)
  then show ?case using post_dek_other [OF PostDEK(1)] by (auto intro: tdb_ok_frame)
next
  case (Rotate db r db')
  from Rotate(1) show ?case
  proof (rule rotate_cases)
    fix recovery
    assume db': "db' = apply_rotate K db recovery r" and ws: "check_wraps K db (ro_hk_wraps r) = None"
    have dev: "td_devices db' = td_devices db" by (simp add: db' apply_rotate_def set_hk_version_def Let_def)
    have "(\<exists>w. v = Doc (DWrap w)) \<and> active_in K db' k"
      if "kv_get K (td_hk_wraps db') k = Some v" for k v
      using rotate_wraps [of db recovery r k v] that check_wraps_active [OF ws] dev
      by (auto simp: db' active_in_def device_of_def)
    with Rotate(2) show ?thesis by (simp add: tdb_ok_def dev)
  qed
next
  case (Probe db s)
  then show ?case by (auto intro: tdb_ok_frame)
qed

lemma steps_keep_ok: "(tdb_step K R H)\<^sup>*\<^sup>* db db' \<Longrightarrow> tdb_ok K db \<Longrightarrow> tdb_ok K db'"
  by (induction rule: rtranclp_induct) (auto intro: step_keeps_ok)

lemma empty_ok: "tdb_ok K (empty_tdb K R)"
  by (simp add: tdb_ok_def empty_tdb_def)


text \<open>Pushing: the first write of a sequence number wins, and pushing again stores nothing.\<close>

lemma push_loop_keeps:
  "kv_get K b k = Some v \<Longrightarrow> kv_get K (fst (push_loop K now ps b n)) k = Some v"
proof (induction ps arbitrary: b n)
  case (Cons p ps)
  have "kv_get K (kv_put K b (seq_key (ps_seq p)) d) k = Some v"
    if "kv_get K b (seq_key (ps_seq p)) = None" for d
    using Cons.prems that by auto
  with Cons show ?case by (auto simp: Let_def simp del: get_put)
qed simp

lemma push_loop_present:
  "p \<in> set ps \<Longrightarrow> kv_get K (fst (push_loop K now ps b n)) (seq_key (ps_seq p)) \<noteq> None"
proof (induction ps arbitrary: b n)
  case (Cons q ps)
  show ?case
  proof (cases "p = q")
    case True
    have "\<exists>v. kv_get K (fst (push_loop K now ps b' n')) (seq_key (ps_seq p)) = Some v"
      if "kv_get K b' (seq_key (ps_seq p)) \<noteq> None" for b' n'
      using that push_loop_keeps by blast
    with True show ?thesis by (auto simp: Let_def)
  next
    case False
    with Cons show ?thesis by (auto simp: Let_def)
  qed
qed simp

lemma push_loop_again:
  "\<forall>p \<in> set ps. kv_get K b (seq_key (ps_seq p)) \<noteq> None \<Longrightarrow> push_loop K now ps b n = (b, n)"
  by (induction ps) (auto simp: Let_def)

lemma length_put_sorted: "map_of xs k = None \<Longrightarrow> length (put_sorted k v xs) = Suc (length xs)"
  by (induction k v xs rule: put_sorted.induct) (auto split: if_splits)

lemma push_loop_count:
  "snd (push_loop K now ps b n) + int (length (kv_items K b)) =
    n + int (length (kv_items K (fst (push_loop K now ps b n))))"
proof (induction ps arbitrary: b n)
  case (Cons p ps)
  show ?case
  proof (cases "kv_get K b (seq_key (ps_seq p)) = None")
    case True
    let ?b = "kv_put K b (seq_key (ps_seq p)) (Doc (DRecord (json_record
       \<lparr>sr_id = ps_id p, sr_key_id = ps_key_id p, sr_blob = ps_blob p, sr_created_ms = now\<rparr>)))"
    have "length (kv_items K ?b) = Suc (length (kv_items K b))"
      using True by (simp add: items_put length_put_sorted get_items)
    with Cons [of ?b "n + 1"] True show ?thesis by (simp add: Let_def)
  next
    case False
    with Cons [of b n] show ?thesis by (auto simp: Let_def)
  qed
qed simp

lemma stream_ok_push: "stream_ok K b \<Longrightarrow> stream_ok K (fst (push_loop K now ps b n))"
proof (induction ps arbitrary: b n)
  case (Cons p ps)
  show ?case
  proof (cases "kv_get K b (seq_key (ps_seq p)) = None")
    case True
    have "stream_ok K (kv_put K b (seq_key (ps_seq p)) (Doc (DRecord r)))" for r
      using Cons.prems by (auto simp: stream_ok_def)
    with True Cons.IH show ?thesis by (simp add: Let_def)
  next
    case False
    with Cons show ?thesis by (auto simp: Let_def)
  qed
qed simp

lemma pull_loop_ok:
  "\<forall>(k, v) \<in> set rows. as_record v \<noteq> None \<Longrightarrow> length out \<le> limit \<Longrightarrow>
    pull_loop limit rows out =
      Inr (out @ take (limit - length out) (map pull_row rows), limit - length out < length rows)"
proof (induction limit rows out rule: pull_loop.induct)
  case (2 limit k v rows out)
  then show ?case
    by (auto simp: pull_row_def take_Cons' Suc_diff_le split: option.splits)
qed simp

lemma stream_row:
  assumes "stream_ok K b" and "x \<in> set (kv_items K b)"
  obtains n r where "fst x = seq_key n" and "snd x = Doc (DRecord r)" and "pl_seq (pull_row x) = n"
proof -
  have "kv_get K b (fst x) = Some (snd x)" using assms(2) by (simp add: mem_items [symmetric])
  then obtain n r where x: "fst x = seq_key n" "snd x = Doc (DRecord r)"
    using assms(1) unfolding stream_ok_def by blast
  then have "pl_seq (pull_row x) = n" by (simp add: pull_row_def)
  with x show ?thesis by (rule that)
qed

lemma pulled_sorted:
  assumes ok: "stream_ok K b"
  shows "sorted_wrt (<) (map pl_seq (pulled K b))"
proof -
  have "sorted_wrt (\<lambda>x y. fst x < fst y) (kv_items K b)"
    using items_sorted [of b] by (simp add: sorted_wrt_map)
  then have "sorted_wrt (\<lambda>x y. pl_seq (pull_row x) < pl_seq (pull_row y)) (kv_items K b)"
  proof (rule sorted_wrt_mono_rel [rotated])
    fix x y assume x: "x \<in> set (kv_items K b)" and y: "y \<in> set (kv_items K b)" and "fst x < fst y"
    obtain m r where "fst x = seq_key m" "pl_seq (pull_row x) = m" by (rule stream_row [OF ok x])
    moreover obtain n r' where "fst y = seq_key n" "pl_seq (pull_row y) = n"
      by (rule stream_row [OF ok y])
    ultimately show "pl_seq (pull_row x) < pl_seq (pull_row y)" using \<open>fst x < fst y\<close> by simp
  qed
  then show ?thesis by (simp add: pulled_def sorted_wrt_map)
qed

lemma seek_rows:
  assumes ok: "stream_ok K b" and "after \<noteq> - 1"
  shows "map pull_row (kv_seek K b (seq_key (after + 1))) = filter (\<lambda>p. after < pl_seq p) (pulled K b)"
proof -
  have "kv_seek K b (seq_key (after + 1)) = filter (\<lambda>x. after < pl_seq (pull_row x)) (kv_items K b)"
    unfolding seek_eq
  proof (rule filter_cong [OF refl])
    fix x assume "x \<in> set (kv_items K b)"
    from stream_row [OF ok this] obtain n where x: "fst x = seq_key n" "pl_seq (pull_row x) = n" .
    have "seq_key (after + 1) \<le> seq_key n \<longleftrightarrow> after < n"
      using u64_inc_le [OF assms(2)] by simp
    with x show "(case x of (k', _) \<Rightarrow> seq_key (after + 1) \<le> k') = (after < pl_seq (pull_row x))"
      by (simp only: case_prod_beta)
  qed
  then show ?thesis by (simp add: pulled_def filter_map comp_def)
qed

lemma tx_pull_ok:
  assumes get: "kv_get R (td_streams db) (records_prefix @ host) = Some b" and ok: "stream_ok K b"
    and "after \<noteq> - 1" and rest: "filter (\<lambda>p. after < pl_seq p) (pulled K b) = rest"
  shows "tx_pull K R db host after limit = Inr
    \<lparr>pr_records = take limit rest,
     pr_next_after = (if limit < length rest then Some (pl_seq (last (take limit rest))) else None)\<rparr>"
proof -
  let ?rows = "kv_seek K b (seq_key (after + 1))"
  have rows: "map pull_row ?rows = rest" using seek_rows [OF ok assms(3)] rest by simp
  then have len: "length ?rows = length rest" by (metis length_map)
  have "as_record v \<noteq> None" if "(k, v) \<in> set ?rows" for k v
  proof -
    from that have "(k, v) \<in> set (kv_items K b)" by (simp add: seek_eq)
    from stream_row [OF ok this] obtain r where "v = Doc (DRecord r)" by auto
    then show ?thesis by simp
  qed
  then have "pull_loop limit ?rows [] = Inr ([] @ take (limit - length ([]::pull_record list)) rest,
      limit - length ([]::pull_record list) < length rest)"
    unfolding rows [symmetric] length_map by (intro pull_loop_ok) auto
  then show ?thesis using get by (simp add: tx_pull_def)
qed

end

interpretation log_tenant: tenant_store log_kv
  by unfold_locales

end
