(* ===== verification/Server.thy ===== *)
theory Server
  imports Server_Db
begin

text \<open>
  \<open>internal/server\<close>, the HTTP side: tenants and routing, the signature check with its replay cache,
  and every handler. A request arrives with a clean, percent-decoded path; its JSON body is decoded
  by the parameter record \<open>decoders\<close> (\<open>encoding/json\<close>), so the same bytes are verified and decoded.
  One clock reading serves a request; the random bytes of a minted token are an input. Log lines
  are not modelled.
\<close>

record decoders =
  jd_push :: "string \<Rightarrow> push_req option"
  jd_register :: "string \<Rightarrow> register_req option"
  jd_wrap :: "string \<Rightarrow> hk_wrap option"
  jd_deks :: "string \<Rightarrow> dek_wrap list option"
  jd_rotate :: "string \<Rightarrow> rotate_req option"
  jd_recovery :: "string \<Rightarrow> recovery_init option"

record ('r, 'b) env =
  en_kv :: "'b doc_kv"
  en_root :: "('r, 'b) kv"
  en_crypto :: crypto
  en_json :: decoders
  en_sort_tokens :: "(enroll_token \<Rightarrow> enroll_token \<Rightarrow> bool) \<Rightarrow> enroll_token list \<Rightarrow> enroll_token list"
  en_sort_hosts :: "(host_info \<Rightarrow> host_info \<Rightarrow> bool) \<Rightarrow> host_info list \<Rightarrow> host_info list"
  en_sort_devices :: "(device \<Rightarrow> device \<Rightarrow> bool) \<Rightarrow> device list \<Rightarrow> device list"

record request =
  hq_method :: string
  hq_path :: string
  hq_target :: string
  hq_headers :: headers
  hq_body :: string
  hq_query :: "string \<Rightarrow> string"

type_synonym nonces = "string \<Rightarrow> int option"

text \<open>
  \<open>tenant\<close> pointers are tenant names, which are distinct; \<open>sv_by_token\<close> pairs a bootstrap token with
  its tenant. \<open>sv_ready\<close> is the cached probe verdict and when it was taken.
\<close>

record ('r, 'b) server =
  sv_tenants :: "(string \<times> ('r, 'b) tdb) list"
  sv_by_token :: "(string \<times> string) list"
  sv_nonces :: nonces
  sv_route :: "string \<Rightarrow> string option"
  sv_ready :: "(int \<times> string option) option"

datatype body =
    BErr string string
  | BStatus string
  | BToken token_resp
  | BTokens "enroll_token list"
  | BSalt string
  | BWrap hk_wrap
  | BPub string
  | BHosts "host_info list"
  | BPush push_resp
  | BPull pull_resp
  | BRegister register_resp
  | BDevices "device list"
  | BDeks dek_list_resp
  | BStored int
  | BVersion int
  | BNone

record response =
  rp_status :: nat
  rp_body :: body

definition reply :: "nat \<Rightarrow> body \<Rightarrow> response" where
  "reply st b = \<lparr>rp_status = st, rp_body = b\<rparr>"

definition write_err :: "nat \<Rightarrow> string \<Rightarrow> response" where
  "write_err st msg = reply st (BErr msg [])"

definition log_internal :: response where
  "log_internal = write_err 500 ''internal error''"

fun write_api_err :: "api_error \<Rightarrow> response" where
  "write_api_err (Api st msg) = write_err st msg"
| "write_api_err Internal = log_internal"

definition deny_sig :: response where
  "deny_sig = write_err 401 ''unauthorized''"


subsection \<open>Starting up\<close>

datatype start_error =
    NoToken
  | TokenAndTenants
  | EmptyTenantName
  | ReservedTenantName string
  | InvalidTenantName string
  | EmptyTenantToken string
  | SharedToken string string

definition sole_tenant :: string where "sole_tenant = ''default''"

definition tenant_char :: "char \<Rightarrow> bool" where
  "tenant_char c \<longleftrightarrow>
    is_upper_byte c \<or> is_lower_byte c \<or> is_digit_byte c \<or> c = CHR ''_'' \<or> c = CHR ''-''"

definition validate_tenant_name :: "string \<Rightarrow> start_error option" where
  "validate_tenant_name name =
    (if name = [] then Some EmptyTenantName
     else if name = sole_tenant then Some (ReservedTenantName name)
     else if \<not> list_all tenant_char name then Some (InvalidTenantName name)
     else None)"

record tenant_spec =
  tn_name :: string
  tn_path :: string
  tn_token :: string

fun tenant_specs ::
  "string \<Rightarrow> (string \<times> string) list \<Rightarrow> (string \<Rightarrow> string option) \<Rightarrow> start_error + tenant_spec list" where
  "tenant_specs base [] owner = Inr []"
| "tenant_specs base ((name, token) # rest) owner =
    (case validate_tenant_name name of
       Some e \<Rightarrow> Inl e
     | None \<Rightarrow>
         if token = [] then Inl (EmptyTenantToken name)
         else (case owner token of
           Some other \<Rightarrow> Inl (SharedToken other name)
         | None \<Rightarrow>
             (case tenant_specs base rest (owner(token \<mapsto> name)) of
                Inl e \<Rightarrow> Inl e
              | Inr specs \<Rightarrow>
                  Inr (\<lparr>tn_name = name, tn_path = path_join [base, ''tenants'', name @ ''.db''],
                        tn_token = token\<rparr> # specs))))"

text \<open>The tenant table of \<open>New\<close>; \<open>tenants\<close> lists the map, whose keys are sorted here.\<close>

definition start_specs ::
  "string \<Rightarrow> string \<Rightarrow> (string \<times> string) list \<Rightarrow> start_error + tenant_spec list" where
  "start_specs db_path token tenants =
    (if token = [] \<and> tenants = [] then Inl NoToken
     else if token \<noteq> [] \<and> tenants \<noteq> [] then Inl TokenAndTenants
     else if token \<noteq> []
     then Inr [\<lparr>tn_name = sole_tenant, tn_path = db_path, tn_token = token\<rparr>]
     else tenant_specs (path_dir db_path) (sort_key fst tenants) Map.empty)"

text \<open>\<open>open_db\<close> is the database found at a path, empty when the file is new.\<close>

definition new_server ::
  "(string \<Rightarrow> ('r, 'b) tdb) \<Rightarrow> string \<Rightarrow> string \<Rightarrow> (string \<times> string) list
    \<Rightarrow> start_error + ('r, 'b) server" where
  "new_server open_db db_path token tenants =
    (case start_specs db_path token tenants of
       Inl e \<Rightarrow> Inl e
     | Inr specs \<Rightarrow>
         Inr \<lparr>sv_tenants = map (\<lambda>sp. (tn_name sp, open_db (tn_path sp))) specs,
              sv_by_token = map (\<lambda>sp. (tn_token sp, tn_name sp)) specs,
              sv_nonces = Map.empty, sv_route = Map.empty, sv_ready = None\<rparr>)"


subsection \<open>Readiness\<close>

definition ready_probe_ttl :: int where "ready_probe_ttl = 10 * second"

text \<open>\<open>fails\<close> names the tenants whose commit fails; the loop stops at the first.\<close>

fun probe_tenants ::
  "'b doc_kv \<Rightarrow> (string \<Rightarrow> bool) \<Rightarrow> int \<Rightarrow> (string \<times> ('r, 'b) tdb) list
    \<Rightarrow> (string \<times> ('r, 'b) tdb) list \<times> string option" where
  "probe_tenants K fails now [] = ([], None)"
| "probe_tenants K fails now ((name, db) # rest) =
    (if fails name then ((name, db) # rest, Some name)
     else case probe_tenants K fails now rest of (rest', e) \<Rightarrow>
       ((name, db\<lparr>td_meta := kv_put K (td_meta db) meta_ready_probe
           (Raw (format_int (unix_milli now)))\<rparr>) # rest', e))"

definition probe_storage ::
  "'b doc_kv \<Rightarrow> (string \<Rightarrow> bool) \<Rightarrow> int \<Rightarrow> ('r, 'b) server \<Rightarrow> ('r, 'b) server \<times> string option" where
  "probe_storage K fails now s =
    (case sv_ready s of
       Some (at, verdict) \<Rightarrow>
         if now - at < ready_probe_ttl then (s, verdict)
         else (case probe_tenants K fails now (sv_tenants s) of (ts, e) \<Rightarrow>
           (s\<lparr>sv_tenants := ts, sv_ready := Some (now, e)\<rparr>, e))
     | None \<Rightarrow>
         (case probe_tenants K fails now (sv_tenants s) of (ts, e) \<Rightarrow>
           (s\<lparr>sv_tenants := ts, sv_ready := Some (now, e)\<rparr>, e)))"


subsection \<open>Routing a request to a tenant\<close>

definition is_open_path :: "string \<Rightarrow> bool" where
  "is_open_path p \<longleftrightarrow> p = ''/v1/health'' \<or> p = ''/v1/ready''"

definition is_enroll_path :: "request \<Rightarrow> bool" where
  "is_enroll_path rq \<longleftrightarrow> hq_method rq = ''POST'' \<and> hq_path rq = ''/v1/devices''"

definition is_recovery_path :: "request \<Rightarrow> bool" where
  "is_recovery_path rq \<longleftrightarrow>
    (if hq_method rq = ''POST''
     then hq_path rq = ''/v1/recovery/token'' \<or> has_prefix (hq_path rq) ''/v1/recovery/activate/''
     else hq_method rq = ''GET'' \<and> has_prefix (hq_path rq) ''/v1/recovery'')"

text \<open>The scan of \<open>tenantForDevice\<close>, and the cache in front of it.\<close>

definition holds_device :: "'b doc_kv \<Rightarrow> string \<Rightarrow> ('r, 'b) tdb \<Rightarrow> bool" where
  "holds_device K device db \<longleftrightarrow> kv_get K (td_devices db) device \<noteq> None"

definition tenant_for_device ::
  "'b doc_kv \<Rightarrow> string \<Rightarrow> ('r, 'b) server \<Rightarrow> ('r, 'b) server \<times> string option" where
  "tenant_for_device K device s =
    (if device = [] then (s, None)
     else case sv_route s device of
       Some t \<Rightarrow> (s, Some t)
     | None \<Rightarrow>
         (case List.find (\<lambda>(_, db). holds_device K device db) (sv_tenants s) of
            None \<Rightarrow> (s, None)
          | Some (t, _) \<Rightarrow> (s\<lparr>sv_route := (sv_route s)(device \<mapsto> t)\<rparr>, Some t)))"

definition find_db :: "('r, 'b) server \<Rightarrow> string \<Rightarrow> ('r, 'b) tdb option" where
  "find_db s name = map_of (sv_tenants s) name"

text \<open>The second loop of \<open>tenantForToken\<close> has no early break: the last match stays.\<close>

definition tenant_for_token ::
  "'b doc_kv \<Rightarrow> crypto \<Rightarrow> int \<Rightarrow> string \<Rightarrow> ('r, 'b) server \<Rightarrow> string option" where
  "tenant_for_token K C now token s =
    (if token = [] then None
     else case List.find (\<lambda>(_, db). token_valid K db (hash_token (cr_sha256 C) token) now)
                 (sv_tenants s) of
       Some (t, _) \<Rightarrow> Some t
     | None \<Rightarrow>
         (case List.find (\<lambda>(tok, _). tok = token) (rev (sv_by_token s)) of
            None \<Rightarrow> None
          | Some (_, t) \<Rightarrow>
              (case find_db s t of
                 None \<Rightarrow> None
               | Some db \<Rightarrow> if has_active_device K db then None else Some t)))"

definition has_recovery :: "'b doc_kv \<Rightarrow> ('r, 'b) tdb \<Rightarrow> bool" where
  "has_recovery K db \<longleftrightarrow> kv_get K (td_recovery db) recovery_key \<noteq> None"

definition tenant_with_recovery :: "'b doc_kv \<Rightarrow> ('r, 'b) server \<Rightarrow> string option" where
  "tenant_with_recovery K s =
    (case filter (\<lambda>(_, db). has_recovery K db) (sv_tenants s) of
       [(t, _)] \<Rightarrow> Some t
     | _ \<Rightarrow> None)"

text \<open>The routing of \<open>auth\<close>.\<close>

definition route_tenant ::
  "('r, 'b) env \<Rightarrow> int \<Rightarrow> request \<Rightarrow> ('r, 'b) server \<Rightarrow> ('r, 'b) server \<times> string option" where
  "route_tenant E now rq s =
    (if is_enroll_path rq
     then (s, tenant_for_token (en_kv E) (en_crypto E) now (hd_token (hq_headers rq)) s)
     else if is_recovery_path rq then (s, tenant_with_recovery (en_kv E) s)
     else tenant_for_device (en_kv E) (hd_device (hq_headers rq)) s)"

definition is_bootstrap_token :: "string \<Rightarrow> string \<Rightarrow> ('r, 'b) server \<Rightarrow> bool" where
  "is_bootstrap_token name token s \<longleftrightarrow>
    name \<noteq> [] \<and> token \<noteq> [] \<and> list_ex (\<lambda>(tok, t). t = name \<and> tok = token) (sv_by_token s)"


subsection \<open>Signatures and replay\<close>

definition nonce_key :: "string \<Rightarrow> string \<Rightarrow> string" where
  "nonce_key device nonce = device @ [CHR 0x00] @ nonce"

definition sweep :: "int \<Rightarrow> nonces \<Rightarrow> nonces" where
  "sweep now n = (\<lambda>k. case n k of None \<Rightarrow> None | Some ts \<Rightarrow> if now - ts > skew then None else Some ts)"

definition check_and_record :: "nonces \<Rightarrow> string \<Rightarrow> string \<Rightarrow> int \<Rightarrow> nonces \<times> bool" where
  "check_and_record n device nonce now =
    (let n' = sweep now n; key = nonce_key device nonce
     in case n' key of Some _ \<Rightarrow> (n', False) | None \<Rightarrow> (n'(key \<mapsto> now), True))"

definition max_body :: nat where "max_body = 10485760"

definition read_body :: "request \<Rightarrow> response option" where
  "read_body rq =
    (if max_body < length (hq_body rq)
     then Some (write_err 413 ''request body exceeds 10485760 bytes'') else None)"

text \<open>
  \<open>requireSignature\<close>: \<^const>\<open>None\<close> when the request may proceed. The key is \<open>self\<close> if given, else
  the signer's; the nonce is recorded before the signer's status is looked at.
\<close>

definition require_signature ::
  "('r, 'b) env \<Rightarrow> int \<Rightarrow> request \<Rightarrow> ('r, 'b) tdb \<Rightarrow> string option \<Rightarrow> ('r, 'b) server
    \<Rightarrow> ('r, 'b) server \<times> response option" where
  "require_signature E now rq db self s =
    (let h = hq_headers rq; device = hd_device h in
     if device = [] then (s, Some deny_sig)
     else
       case (case self of
               Some pub \<Rightarrow> Inr (pub, None)
             | None \<Rightarrow>
                 (case kv_get (en_kv E) (td_devices db) device of
                    None \<Rightarrow> Inl deny_sig
                  | Some raw \<Rightarrow>
                      (case as_device raw of
                         None \<Rightarrow> Inl log_internal
                       | Some d \<Rightarrow> Inr (dv_sign_key d, Some d)))) of
         Inl resp \<Rightarrow> (s, Some resp)
       | Inr (pub, dev) \<Rightarrow>
           if verify_request (en_crypto E) h (hq_method rq) (hq_target rq) (hq_body rq) pub now \<noteq> None
           then (s, Some deny_sig)
           else (case check_and_record (sv_nonces s) device (hd_nonce h) now of (n, fresh) \<Rightarrow>
             let s' = s\<lparr>sv_nonces := n\<rparr>
             in if \<not> fresh then (s', Some deny_sig)
                else case dev of
                  None \<Rightarrow> (s', None)
                | Some d \<Rightarrow>
                    if dv_status d = device_active then (s', None)
                    else if dv_status d = device_revoked
                    then (s', Some (reply 403 (BErr ''device revoked'' ''device_revoked'')))
                    else (s', Some deny_sig)))"



subsection \<open>Handlers\<close>

text \<open>A handler runs on the tenant \<open>name\<close>, whose database is \<open>db\<close>; \<open>set_db\<close> is the committed
  transaction.\<close>

definition set_db :: "string \<Rightarrow> ('r, 'b) tdb \<Rightarrow> ('r, 'b) server \<Rightarrow> ('r, 'b) server" where
  "set_db name db s =
    s\<lparr>sv_tenants := map (\<lambda>(n, d). (n, if n = name then db else d)) (sv_tenants s)\<rparr>"

text \<open>The opening every signed handler shares: the body, then the signature.\<close>

definition with_signature ::
  "('r, 'b) env \<Rightarrow> int \<Rightarrow> request \<Rightarrow> ('r, 'b) tdb \<Rightarrow> string option \<Rightarrow> ('r, 'b) server
    \<Rightarrow> (('r, 'b) server \<Rightarrow> ('r, 'b) server \<times> response) \<Rightarrow> ('r, 'b) server \<times> response" where
  "with_signature E now rq db self s k =
    (case read_body rq of
       Some resp \<Rightarrow> (s, resp)
     | None \<Rightarrow>
         (case require_signature E now rq db self s of
            (s', Some resp) \<Rightarrow> (s', resp)
          | (s', None) \<Rightarrow> k s'))"

definition malformed :: response where
  "malformed = write_err 400 ''malformed JSON''"

text \<open>The end of a handler with a write transaction.\<close>

definition commit ::
  "string \<Rightarrow> ('r, 'b) server \<Rightarrow> api_error + ('r, 'b) tdb \<Rightarrow> response \<Rightarrow> ('r, 'b) server \<times> response" where
  "commit name s r ok =
    (case r of Inl e \<Rightarrow> (s, write_api_err e) | Inr db \<Rightarrow> (set_db name db s, ok))"

definition handle_health :: response where
  "handle_health = reply 200 (BStatus ''ok'')"

definition handle_ready ::
  "'b doc_kv \<Rightarrow> (string \<Rightarrow> bool) \<Rightarrow> int \<Rightarrow> ('r, 'b) server \<Rightarrow> ('r, 'b) server \<times> response" where
  "handle_ready K fails now s =
    (case probe_storage K fails now s of
       (s', None) \<Rightarrow> (s', reply 200 (BStatus ''ok''))
     | (s', Some _) \<Rightarrow> (s', write_err 503 ''storage unavailable''))"

definition handle_mint_token ::
  "('r, 'b) env \<Rightarrow> int \<Rightarrow> string \<Rightarrow> request \<Rightarrow> string \<Rightarrow> ('r, 'b) tdb \<Rightarrow> ('r, 'b) server
    \<Rightarrow> ('r, 'b) server \<times> response" where
  "handle_mint_token E now rnd rq name db s =
    with_signature E now rq db None s (\<lambda>s'.
      let token = b64_encode rnd
      in (set_db name (mint_token (en_kv E) (cr_sha256 (en_crypto E)) db now token) s',
          reply 200 (BToken \<lparr>tr_token = token, tr_expires_ms = sk_expires_ms (fresh_token now)\<rparr>)))"

definition handle_list_tokens ::
  "('r, 'b) env \<Rightarrow> int \<Rightarrow> request \<Rightarrow> ('r, 'b) tdb \<Rightarrow> ('r, 'b) server \<Rightarrow> ('r, 'b) server \<times> response" where
  "handle_list_tokens E now rq db s =
    with_signature E now rq db None s (\<lambda>s'.
      case list_rows (list_token now) (kv_items (en_kv E) (td_tokens db)) of
        Inl e \<Rightarrow> (s', write_api_err e)
      | Inr ts \<Rightarrow> (s', reply 200 (BTokens (en_sort_tokens E (\<lambda>a b. et_created_ms b < et_created_ms a) ts))))"

text \<open>\<open>hex.DecodeString\<close>: pairs of digits of either case.\<close>

definition hex_value :: "char \<Rightarrow> nat option" where
  "hex_value c =
    (let b = byte c
     in if 48 \<le> b \<and> b \<le> 57 then Some (b - 48)
        else if 97 \<le> b \<and> b \<le> 102 then Some (b - 87)
        else if 65 \<le> b \<and> b \<le> 70 then Some (b - 55) else None)"

fun hex_decode :: "string \<Rightarrow> string option" where
  "hex_decode [] = Some []"
| "hex_decode [c] = None"
| "hex_decode (c # d # cs) =
    (case (hex_value c, hex_value d) of
       (Some a, Some b) \<Rightarrow> map_option (\<lambda>t. char_of (a * 16 + b) # t) (hex_decode cs)
     | _ \<Rightarrow> None)"

definition handle_revoke_token ::
  "('r, 'b) env \<Rightarrow> int \<Rightarrow> string \<Rightarrow> request \<Rightarrow> string \<Rightarrow> ('r, 'b) tdb \<Rightarrow> ('r, 'b) server
    \<Rightarrow> ('r, 'b) server \<times> response" where
  "handle_revoke_token E now tid rq name db s =
    with_signature E now rq db None s (\<lambda>s'.
      case hex_decode tid of
        None \<Rightarrow> (s', write_err 400 ''malformed token id'')
      | Some sm \<Rightarrow>
          if length sm \<noteq> 32 then (s', write_err 400 ''malformed token id'')
          else commit name s' (revoke_token (en_kv E) db sm now) (reply 204 BNone))"

text \<open>The three handlers that start from the recovery material.\<close>

definition with_recovery ::
  "('r, 'b) env \<Rightarrow> ('r, 'b) tdb \<Rightarrow> ('r, 'b) server \<Rightarrow> (recovery_init \<Rightarrow> ('r, 'b) server \<times> response)
    \<Rightarrow> ('r, 'b) server \<times> response" where
  "with_recovery E db s k =
    (case load_recovery (en_kv E) db of
       Inl e \<Rightarrow> (s, write_api_err e)
     | Inr None \<Rightarrow> (s, write_err 404 ''no recovery key configured'')
     | Inr (Some r) \<Rightarrow> k r)"

definition handle_recovery_salt ::
  "('r, 'b) env \<Rightarrow> ('r, 'b) tdb \<Rightarrow> ('r, 'b) server \<Rightarrow> ('r, 'b) server \<times> response" where
  "handle_recovery_salt E db s = with_recovery E db s (\<lambda>r. (s, reply 200 (BSalt (ri_salt r))))"

definition handle_get_recovery ::
  "('r, 'b) env \<Rightarrow> int \<Rightarrow> request \<Rightarrow> ('r, 'b) tdb \<Rightarrow> ('r, 'b) server \<Rightarrow> ('r, 'b) server \<times> response" where
  "handle_get_recovery E now rq db s =
    with_recovery E db s (\<lambda>r.
      with_signature E now rq db (Some (ri_sign_key r)) s (\<lambda>s'. (s', reply 200 (BWrap (ri_wrap r)))))"

definition handle_get_recovery_pub ::
  "('r, 'b) env \<Rightarrow> int \<Rightarrow> request \<Rightarrow> ('r, 'b) tdb \<Rightarrow> ('r, 'b) server \<Rightarrow> ('r, 'b) server \<times> response" where
  "handle_get_recovery_pub E now rq db s =
    with_signature E now rq db None s (\<lambda>s'.
      with_recovery E db s' (\<lambda>r. (s', reply 200 (BPub (ri_pub_key r)))))"

definition bootstrap_self_key ::
  "'b doc_kv \<Rightarrow> ('r, 'b) tdb \<Rightarrow> string \<Rightarrow> string \<Rightarrow> string option" where
  "bootstrap_self_key K db signer path_id =
    (if signer = [] \<or> signer \<noteq> path_id then None
     else if has_active_device K db then None
     else case Option.bind (kv_get K (td_devices db) signer) as_device of
       None \<Rightarrow> None
     | Some d \<Rightarrow> if dv_status d = device_pending then Some (dv_sign_key d) else None)"

definition bootstrap_self_key_any :: "'b doc_kv \<Rightarrow> ('r, 'b) tdb \<Rightarrow> string \<Rightarrow> string option" where
  "bootstrap_self_key_any K db signer =
    (if signer = [] \<or> has_active_device K db then None
     else case Option.bind (kv_get K (td_devices db) signer) as_device of
       None \<Rightarrow> None
     | Some d \<Rightarrow> if dv_status d \<noteq> device_revoked then Some (dv_sign_key d) else None)"

definition handle_init_recovery ::
  "('r, 'b) env \<Rightarrow> int \<Rightarrow> request \<Rightarrow> string \<Rightarrow> ('r, 'b) tdb \<Rightarrow> ('r, 'b) server
    \<Rightarrow> ('r, 'b) server \<times> response" where
  "handle_init_recovery E now rq name db s =
    with_signature E now rq db (bootstrap_self_key_any (en_kv E) db (hd_device (hq_headers rq))) s
      (\<lambda>s'. case jd_recovery (en_json E) (hq_body rq) of
         None \<Rightarrow> (s', malformed)
       | Some r \<Rightarrow>
           if ri_salt r = [] \<or> length (ri_pub_key r) \<noteq> 32 \<or> length (ri_sign_key r) \<noteq> 32
           then (s', write_err 400 ''salt, pub_key (32B) and sign_key (32B) required'')
           else if hw_blob (ri_wrap r) = [] then (s', write_err 400 ''wrap.blob required'')
           else commit name s' (tx_init_recovery (en_kv E) db r) (reply 200 (BStatus ''ok'')))"

definition handle_recovery_token ::
  "('r, 'b) env \<Rightarrow> int \<Rightarrow> string \<Rightarrow> request \<Rightarrow> string \<Rightarrow> ('r, 'b) tdb \<Rightarrow> ('r, 'b) server
    \<Rightarrow> ('r, 'b) server \<times> response" where
  "handle_recovery_token E now rnd rq name db s =
    with_recovery E db s (\<lambda>r.
      with_signature E now rq db (Some (ri_sign_key r)) s (\<lambda>s'.
        let token = b64_encode rnd
        in (set_db name (mint_token (en_kv E) (cr_sha256 (en_crypto E)) db now token) s',
            reply 200 (BToken \<lparr>tr_token = token, tr_expires_ms = sk_expires_ms (fresh_token now)\<rparr>))))"

definition handle_recovery_activate ::
  "('r, 'b) env \<Rightarrow> int \<Rightarrow> string \<Rightarrow> request \<Rightarrow> string \<Rightarrow> ('r, 'b) tdb \<Rightarrow> ('r, 'b) server
    \<Rightarrow> ('r, 'b) server \<times> response" where
  "handle_recovery_activate E now did rq name db s =
    with_recovery E db s (\<lambda>r.
      with_signature E now rq db (Some (ri_sign_key r)) s (\<lambda>s'.
        case jd_wrap (en_json E) (hq_body rq) of
          None \<Rightarrow> (s', malformed)
        | Some w \<Rightarrow>
            if hw_device_id w \<noteq> did then (s', write_err 400 ''wrap.device_id must equal path id'')
            else commit name s' (tx_recovery_activate (en_kv E) db did w)
              (reply 200 (BStatus device_active))))"

definition handle_hosts ::
  "('r, 'b) env \<Rightarrow> int \<Rightarrow> request \<Rightarrow> ('r, 'b) tdb \<Rightarrow> ('r, 'b) server \<Rightarrow> ('r, 'b) server \<times> response" where
  "handle_hosts E now rq db s =
    with_signature E now rq db None s (\<lambda>s'.
      (s', reply 200 (BHosts (en_sort_hosts E (\<lambda>a b. hi_host_id a < hi_host_id b)
        (tx_hosts (en_kv E) (en_root E) db)))))"

definition handle_push ::
  "('r, 'b) env \<Rightarrow> int \<Rightarrow> request \<Rightarrow> string \<Rightarrow> ('r, 'b) tdb \<Rightarrow> ('r, 'b) server
    \<Rightarrow> ('r, 'b) server \<times> response" where
  "handle_push E now rq name db s =
    with_signature E now rq db None s (\<lambda>s'.
      case jd_push (en_json E) (hq_body rq) of
        None \<Rightarrow> (s', malformed)
      | Some p \<Rightarrow>
          if pq_host_id p = [] then (s', write_err 400 ''host_id required'')
          else if max_push_records < length (pq_records p)
          then (s', write_err 400 ''too many records (max 1000)'')
          else if \<not> ascending (pq_records p)
          then (s', write_err 400 ''records must be in strictly ascending seq order'')
          else (case tx_push (en_kv E) (en_root E) db (unix_milli now) p of (db', resp) \<Rightarrow>
            (set_db name db' s', reply 200 (BPush resp))))"

definition default_limit :: nat where "default_limit = 1000"
definition max_limit :: nat where "max_limit = 1000"

definition parse_uint :: "string \<Rightarrow> u64 \<Rightarrow> u64 option" where
  "parse_uint s def = (if s = [] then Some def else parse_uint64 s)"

definition parse_limit :: "string \<Rightarrow> nat option" where
  "parse_limit s =
    (if s = [] then Some default_limit
     else case parse_int64 s of
       None \<Rightarrow> None
     | Some n \<Rightarrow>
         if n \<le> 0 then Some default_limit
         else if int max_limit < n then Some max_limit else Some (nat n))"

definition handle_pull ::
  "('r, 'b) env \<Rightarrow> int \<Rightarrow> request \<Rightarrow> ('r, 'b) tdb \<Rightarrow> ('r, 'b) server \<Rightarrow> ('r, 'b) server \<times> response" where
  "handle_pull E now rq db s =
    with_signature E now rq db None s (\<lambda>s'.
      case parse_uint (hq_query rq ''after'') 0 of
        None \<Rightarrow> (s', write_err 400 ''invalid after'')
      | Some after \<Rightarrow>
          (case parse_limit (hq_query rq ''limit'') of
             None \<Rightarrow> (s', write_err 400 ''invalid limit'')
           | Some limit \<Rightarrow>
               (case tx_pull (en_kv E) (en_root E) db (hq_query rq ''host_id'') after limit of
                  Inl e \<Rightarrow> (s', write_api_err e)
                | Inr resp \<Rightarrow> (s', reply 200 (BPull resp)))))"

definition handle_register ::
  "('r, 'b) env \<Rightarrow> int \<Rightarrow> request \<Rightarrow> string \<Rightarrow> ('r, 'b) tdb \<Rightarrow> ('r, 'b) server
    \<Rightarrow> ('r, 'b) server \<times> response" where
  "handle_register E now rq name db s =
    (case read_body rq of
       Some resp \<Rightarrow> (s, resp)
     | None \<Rightarrow>
         (case jd_register (en_json E) (hq_body rq) of
            None \<Rightarrow> (s, malformed)
          | Some r \<Rightarrow>
              if rq_id r = [] then (s, write_err 400 ''id required'')
              else if length (rq_pub_key r) \<noteq> 32 then (s, write_err 400 ''pub_key must be 32 bytes'')
              else if length (rq_sign_key r) \<noteq> 32 then (s, write_err 400 ''sign_key must be 32 bytes'')
              else if hd_device (hq_headers rq) \<noteq> rq_id r then (s, deny_sig)
              else (case require_signature E now rq db (Some (rq_sign_key r)) s of
                (s', Some resp) \<Rightarrow> (s', resp)
              | (s', None) \<Rightarrow>
                  let token = hd_token (hq_headers rq);
                      bootstrap = (is_bootstrap_token name token s' \<and> \<not> has_active_device (en_kv E) db);
                      dev = \<lparr>dv_id = rq_id r, dv_name = rq_name r, dv_pub_key = rq_pub_key r,
                        dv_sign_key = rq_sign_key r, dv_status = device_pending,
                        dv_created_ms = unix_milli now\<rparr>
                  in commit name s'
                       (tx_register (en_kv E) (cr_sha256 (en_crypto E)) db now bootstrap token r dev)
                       (reply 200 (BRegister \<lparr>rr_device = dev, rr_group_formed = (\<not> bootstrap)\<rparr>)))))"

definition handle_list_devices ::
  "('r, 'b) env \<Rightarrow> int \<Rightarrow> request \<Rightarrow> ('r, 'b) tdb \<Rightarrow> ('r, 'b) server \<Rightarrow> ('r, 'b) server \<times> response" where
  "handle_list_devices E now rq db s =
    with_signature E now rq db None s (\<lambda>s'.
      case list_rows (\<lambda>_. as_device) (kv_items (en_kv E) (td_devices db)) of
        Inl e \<Rightarrow> (s', write_api_err e)
      | Inr ds \<Rightarrow> (s', reply 200 (BDevices (en_sort_devices E (\<lambda>a b. dv_id a < dv_id b) ds))))"

definition handle_activate ::
  "('r, 'b) env \<Rightarrow> int \<Rightarrow> string \<Rightarrow> request \<Rightarrow> string \<Rightarrow> ('r, 'b) tdb \<Rightarrow> ('r, 'b) server
    \<Rightarrow> ('r, 'b) server \<times> response" where
  "handle_activate E now did rq name db s =
    with_signature E now rq db (bootstrap_self_key (en_kv E) db (hd_device (hq_headers rq)) did) s
      (\<lambda>s'. case jd_wrap (en_json E) (hq_body rq) of
         None \<Rightarrow> (s', malformed)
       | Some w \<Rightarrow>
           if hw_device_id w \<noteq> did then (s', write_err 400 ''wrap.device_id must equal path id'')
           else commit name s' (tx_activate (en_kv E) db did w) (reply 200 (BStatus device_active)))"

definition handle_revoke ::
  "('r, 'b) env \<Rightarrow> int \<Rightarrow> string \<Rightarrow> request \<Rightarrow> string \<Rightarrow> ('r, 'b) tdb \<Rightarrow> ('r, 'b) server
    \<Rightarrow> ('r, 'b) server \<times> response" where
  "handle_revoke E now did rq name db s =
    with_signature E now rq db None s (\<lambda>s'.
      commit name s' (tx_revoke (en_kv E) db did) (reply 200 (BStatus device_revoked)))"

definition handle_get_hk ::
  "('r, 'b) env \<Rightarrow> int \<Rightarrow> request \<Rightarrow> ('r, 'b) tdb \<Rightarrow> ('r, 'b) server \<Rightarrow> ('r, 'b) server \<times> response" where
  "handle_get_hk E now rq db s =
    with_signature E now rq db None s (\<lambda>s'.
      case kv_get (en_kv E) (td_hk_wraps db) (hq_query rq ''device_id'') of
        None \<Rightarrow> (s', write_err 404 ''no hk wrap for device'')
      | Some v \<Rightarrow>
          (case as_wrap v of None \<Rightarrow> (s', log_internal) | Some w \<Rightarrow> (s', reply 200 (BWrap w))))"

definition handle_list_dek ::
  "('r, 'b) env \<Rightarrow> int \<Rightarrow> request \<Rightarrow> ('r, 'b) tdb \<Rightarrow> ('r, 'b) server \<Rightarrow> ('r, 'b) server \<times> response" where
  "handle_list_dek E now rq db s =
    with_signature E now rq db None s (\<lambda>s'.
      case parse_limit (hq_query rq ''limit'') of
        None \<Rightarrow> (s', write_err 400 ''invalid limit'')
      | Some limit \<Rightarrow>
          (case tx_list_dek (en_kv E) db (hq_query rq ''cursor'') limit of
             Inl e \<Rightarrow> (s', write_api_err e)
           | Inr resp \<Rightarrow> (s', reply 200 (BDeks resp))))"

definition handle_post_dek ::
  "('r, 'b) env \<Rightarrow> int \<Rightarrow> request \<Rightarrow> string \<Rightarrow> ('r, 'b) tdb \<Rightarrow> ('r, 'b) server
    \<Rightarrow> ('r, 'b) server \<times> response" where
  "handle_post_dek E now rq name db s =
    with_signature E now rq db None s (\<lambda>s'.
      case jd_deks (en_json E) (hq_body rq) of
        None \<Rightarrow> (s', malformed)
      | Some dws \<Rightarrow>
          (case tx_post_dek (en_kv E) db dws of
             Inl e \<Rightarrow> (s', write_api_err e)
           | Inr (db', stored) \<Rightarrow> (set_db name db' s', reply 200 (BStored stored))))"

definition handle_rotate ::
  "('r, 'b) env \<Rightarrow> int \<Rightarrow> request \<Rightarrow> string \<Rightarrow> ('r, 'b) tdb \<Rightarrow> ('r, 'b) server
    \<Rightarrow> ('r, 'b) server \<times> response" where
  "handle_rotate E now rq name db s =
    with_signature E now rq db None s (\<lambda>s'.
      case jd_rotate (en_json E) (hq_body rq) of
        None \<Rightarrow> (s', malformed)
      | Some r \<Rightarrow> commit name s' (tx_rotate (en_kv E) db r) (reply 200 (BVersion (ro_hk_version r))))"


subsection \<open>The mux\<close>

datatype endpoint =
    EHealth | EReady | EHosts | EPull | EListDevices | EGetHK | EListDEK | EGetRecoveryPub
  | EPush | ERegister | EActivate string | ERevoke string | EPostDEK | ERotate
  | EMintToken | EListTokens | ERevokeToken string
  | ERecoverySalt | EGetRecovery | EInitRecovery | ERecoveryToken | ERecoveryActivate string

definition endpoints_at :: "string \<Rightarrow> (string \<times> endpoint) list" where
  "endpoints_at path =
    (case split_on CHR ''/'' path of
       [r, v, a] \<Rightarrow>
         if r \<noteq> [] \<or> v \<noteq> ''v1'' then []
         else if a = ''health'' then [(''GET'', EHealth)]
         else if a = ''ready'' then [(''GET'', EReady)]
         else if a = ''hosts'' then [(''GET'', EHosts)]
         else if a = ''records'' then [(''GET'', EPull), (''POST'', EPush)]
         else if a = ''devices'' then [(''GET'', EListDevices), (''POST'', ERegister)]
         else if a = ''tokens'' then [(''GET'', EListTokens), (''POST'', EMintToken)]
         else if a = ''recovery'' then [(''GET'', EGetRecovery), (''POST'', EInitRecovery)]
         else []
     | [r, v, a, b] \<Rightarrow>
         if r \<noteq> [] \<or> v \<noteq> ''v1'' then []
         else if a = ''keys'' \<and> b = ''hk'' then [(''GET'', EGetHK)]
         else if a = ''keys'' \<and> b = ''dek'' then [(''GET'', EListDEK), (''POST'', EPostDEK)]
         else if a = ''keys'' \<and> b = ''recovery'' then [(''GET'', EGetRecoveryPub)]
         else if a = ''keys'' \<and> b = ''rotate'' then [(''POST'', ERotate)]
         else if a = ''recovery'' \<and> b = ''salt'' then [(''GET'', ERecoverySalt)]
         else if a = ''recovery'' \<and> b = ''token'' then [(''POST'', ERecoveryToken)]
         else []
     | [r, v, a, b, c] \<Rightarrow>
         if r \<noteq> [] \<or> v \<noteq> ''v1'' then []
         else if a = ''devices'' \<and> b \<noteq> [] \<and> c = ''activate'' then [(''POST'', EActivate b)]
         else if a = ''devices'' \<and> b \<noteq> [] \<and> c = ''revoke'' then [(''POST'', ERevoke b)]
         else if a = ''tokens'' \<and> b \<noteq> [] \<and> c = ''revoke'' then [(''POST'', ERevokeToken b)]
         else if a = ''recovery'' \<and> b = ''activate'' \<and> c \<noteq> [] then [(''POST'', ERecoveryActivate c)]
         else []
     | _ \<Rightarrow> [])"

text \<open>A \<open>GET\<close> pattern also serves \<open>HEAD\<close>.\<close>

definition mux_endpoint :: "request \<Rightarrow> nat + endpoint" where
  "mux_endpoint rq =
    (let es = endpoints_at (hq_path rq);
         m = (if hq_method rq = ''HEAD'' then ''GET'' else hq_method rq)
     in if es = [] then Inl 404
        else case map_of es m of None \<Rightarrow> Inl 405 | Some e \<Rightarrow> Inr e)"

definition run_endpoint ::
  "('r, 'b) env \<Rightarrow> int \<Rightarrow> string \<Rightarrow> endpoint \<Rightarrow> request \<Rightarrow> string \<Rightarrow> ('r, 'b) tdb \<Rightarrow> ('r, 'b) server
    \<Rightarrow> ('r, 'b) server \<times> response" where
  "run_endpoint E now rnd e rq name db s =
    (case e of
       EHealth \<Rightarrow> (s, handle_health)
     | EReady \<Rightarrow> (s, handle_health)
     | EHosts \<Rightarrow> handle_hosts E now rq db s
     | EPull \<Rightarrow> handle_pull E now rq db s
     | EListDevices \<Rightarrow> handle_list_devices E now rq db s
     | EGetHK \<Rightarrow> handle_get_hk E now rq db s
     | EListDEK \<Rightarrow> handle_list_dek E now rq db s
     | EGetRecoveryPub \<Rightarrow> handle_get_recovery_pub E now rq db s
     | EPush \<Rightarrow> handle_push E now rq name db s
     | ERegister \<Rightarrow> handle_register E now rq name db s
     | EActivate did \<Rightarrow> handle_activate E now did rq name db s
     | ERevoke did \<Rightarrow> handle_revoke E now did rq name db s
     | EPostDEK \<Rightarrow> handle_post_dek E now rq name db s
     | ERotate \<Rightarrow> handle_rotate E now rq name db s
     | EMintToken \<Rightarrow> handle_mint_token E now rnd rq name db s
     | EListTokens \<Rightarrow> handle_list_tokens E now rq db s
     | ERevokeToken tid \<Rightarrow> handle_revoke_token E now tid rq name db s
     | ERecoverySalt \<Rightarrow> handle_recovery_salt E db s
     | EGetRecovery \<Rightarrow> handle_get_recovery E now rq db s
     | EInitRecovery \<Rightarrow> handle_init_recovery E now rq name db s
     | ERecoveryToken \<Rightarrow> handle_recovery_token E now rnd rq name db s
     | ERecoveryActivate did \<Rightarrow> handle_recovery_activate E now did rq name db s)"


text \<open>
  One request through \<open>auth\<close> and the mux. The open paths reach the mux without a tenant, and only
  the two open endpoints live on them.
\<close>

definition serve ::
  "('r, 'b) env \<Rightarrow> int \<Rightarrow> string \<Rightarrow> (string \<Rightarrow> bool) \<Rightarrow> request \<Rightarrow> ('r, 'b) server
    \<Rightarrow> ('r, 'b) server \<times> response" where
  "serve E now rnd fails rq s =
    (if is_open_path (hq_path rq) then
       (case mux_endpoint rq of
          Inl st \<Rightarrow> (s, reply st BNone)
        | Inr EReady \<Rightarrow> handle_ready (en_kv E) fails now s
        | Inr _ \<Rightarrow> (s, handle_health))
     else
       (case route_tenant E now rq s of
          (s1, None) \<Rightarrow> (s1, write_err 401 ''unauthorized'')
        | (s1, Some name) \<Rightarrow>
            (case find_db s1 name of
               None \<Rightarrow> (s1, log_internal)
             | Some db \<Rightarrow>
                 (case mux_endpoint rq of
                    Inl st \<Rightarrow> (s1, reply st BNone)
                  | Inr e \<Rightarrow> run_endpoint E now rnd e rq name db s1))))"

end
