(* ===== verification/Tenant.thy ===== *)
theory Tenant
  imports Server_Db
begin

text \<open>
  What a tenant's database promises over any run of the server's transactions: enrollment tokens are
  spent once, only active devices hold the History Key, recovery keys are written once, a rotation is
  complete, pushes are idempotent. The first part adds the lemmas the properties rest on.
\<close>

lemma check_provided_ok:
  "check_provided ex prov dws = Inr p \<Longrightarrow> set p = set prov \<union> dk_key_id ` set dws \<and>
    dk_key_id ` set dws \<subseteq> set ex \<and> distinct (map dk_key_id dws) \<and> set prov \<inter> dk_key_id ` set dws = {}"
  by (induction ex prov dws rule: check_provided.induct) (auto split: if_splits)

lemma check_coverage_ok:
  assumes "check_coverage ex dws = None"
  shows "dk_key_id ` set dws = set ex" and "distinct (map dk_key_id dws)"
proof -
  from assms obtain p where p: "check_provided ex [] dws = Inr p" "List.find (\<lambda>k. k \<notin> set p) ex = None"
    by (auto simp: check_coverage_def split: sum.splits option.splits)
  with check_provided_ok [OF p(1)] show "dk_key_id ` set dws = set ex" "distinct (map dk_key_id dws)"
    by (auto simp: find_None_iff)
qed

lemma atoi_format_int: "int64 n \<Longrightarrow> atoi (format_int n) = n"
  using parse_format_int [of n]
  by (auto simp: parse_int64_def atoi_def Let_def int64_def split: if_splits prod.splits list.splits)

lemma tenant_of_bucket: "bucket K \<Longrightarrow> tenant_store (K :: 'b doc_kv)"
  by (simp add: tenant_store_def)

context tenant_store
begin

lemma hk_version_set: "int64 v \<Longrightarrow> get_hk_version K (set_hk_version K db v) = v"
  by (simp add: get_hk_version_def set_hk_version_def atoi_format_int)

lemma puts_get:
  "kv_get K (foldl (\<lambda>b w. kv_put K b (f w) (g w)) b ws) k =
    (if k \<in> f ` set ws then Some (g (last (filter (\<lambda>w. f w = k) ws))) else kv_get K b k)"
proof (induction ws arbitrary: b)
  case (Cons w ws)
  have "filter (\<lambda>w. f w = k) ws \<noteq> [] \<longleftrightarrow> k \<in> f ` set ws" by (auto simp: filter_empty_conv)
  with Cons show ?case by (auto split: if_splits)
qed simp

lemma puts_last: "k \<in> f ` set ws \<Longrightarrow> \<exists>w \<in> set ws. f w = k \<and> w = last (filter (\<lambda>w. f w = k) ws)"
proof -
  assume "k \<in> f ` set ws"
  then have "filter (\<lambda>w. f w = k) ws \<noteq> []" by (auto simp: filter_empty_conv)
  then have "last (filter (\<lambda>w. f w = k) ws) \<in> set (filter (\<lambda>w. f w = k) ws)" by (rule last_in_set)
  then show ?thesis by auto
qed

lemma rotate_buckets:
  "td_devices (apply_rotate K db rec r) = td_devices db"
  "kv_get K (td_hk_wraps (apply_rotate K db rec r)) k =
    (if k \<in> hw_device_id ` set (ro_hk_wraps r)
     then Some (Doc (DWrap (json_wrap (last (filter (\<lambda>w. hw_device_id w = k) (ro_hk_wraps r)))))) else None)"
  "kv_get K (td_dek_wraps (apply_rotate K db rec r)) k =
    (if k \<in> dk_key_id ` set (ro_dek_wraps r)
     then Some (Doc (DDek (json_dek (last (filter (\<lambda>w. dk_key_id w = k) (ro_dek_wraps r))))))
     else kv_get K (td_dek_wraps db) k)"
  "int64 (ro_hk_version r) \<Longrightarrow> get_hk_version K (apply_rotate K db rec r) = ro_hk_version r"
  using key_items [of k "td_hk_wraps db"]
  by (simp_all add: apply_rotate_def Let_def puts_get foldl_del_get put_dek_def [abs_def] hk_version_set)
    (auto simp: set_hk_version_def puts_get foldl_del_get)

end


lemma recovery_of_load: "recovery_of K d = Some x \<longleftrightarrow> load_recovery K d = Inr (Some x)"
  by (auto simp: recovery_of_def load_recovery_def split: option.splits)


subsection \<open>Properties\<close>

text \<open>The concrete tenant of the examples: one token, one device, one data key.\<close>

definition demo_req :: register_req where
  "demo_req = \<lparr>rq_id = ''d'', rq_name = ''laptop'', rq_pub_key = [], rq_sign_key = []\<rparr>"

definition demo_dev :: "string \<Rightarrow> device" where
  "demo_dev st = \<lparr>dv_id = ''d'', dv_name = ''laptop'', dv_pub_key = [], dv_sign_key = [], dv_status = st,
     dv_created_ms = 0\<rparr>"

definition demo_dek :: dek_wrap where
  "demo_dek = \<lparr>dk_key_id = ''k'', dk_device_id = ''d'', dk_epoch = 0, dk_blob = ''x'', dk_hk_version = 1\<rparr>"

definition demo_wrap :: hk_wrap where
  "demo_wrap = \<lparr>hw_device_id = ''d'', hw_blob = ''x'', hw_hk_version = 1\<rparr>"

definition demo_tdb :: "(doc blob log_bucket log_bucket, doc blob log_bucket) tdb" where
  "demo_tdb = put_device log_kv (empty_tdb log_kv log_kv) ''d'' (demo_dev device_active)"

lemma demo_mint: "\<exists>db1. tx_register log_kv (\<lambda>s. s) (mint_token log_kv (\<lambda>s. s)
    (empty_tdb log_kv log_kv :: (doc blob log_bucket log_bucket, doc blob log_bucket) tdb) (5 * second) ''t'')
    (6 * second) False ''t'' demo_req (demo_dev device_pending) = Inr db1"
  by (simp add: tx_register_def mint_token_def prune_tokens_def empty_tdb_def redeem_token_def load_token_def
      put_token_def token_usable_def token_state_def fresh_token_def token_ttl_def unix_milli_def second_def)

lemma demo_active: "active_in log_kv demo_tdb ''d''"
  by (simp add: active_in_def device_of_def demo_tdb_def put_device_def json_device_def demo_dev_def)

text \<open>C9 An enrollment token is spent once: after a registration redeemed it, no registration with the same
  token succeeds again, whatever the server does in between.\<close>

theorem token_single_use:
  assumes "bucket K" and "tx_register K H db now False token rq dev = Inr db1" and "0 < unix_milli now"
    and "(tdb_step K R H)\<^sup>*\<^sup>* db1 db2"
  shows "\<exists>e. tx_register K H db2 now' False token rq' dev' = Inl e"
proof -
  note ten = tenant_of_bucket [OF assms(1)]
  let ?sm = "hash_token H token"
  from assms(2) obtain db0 where db0: "db1 = put_device K db0 (rq_id rq) dev"
      "redeem_token K db ?sm now (rq_id rq) = Inr db0"
    by (rule register_cases) simp
  obtain st where "load_token K db0 ?sm = Some st" "sk_claimed_ms st = unix_milli now"
    using tenant_store.redeem_claims [OF ten db0(2) assms(3)] by blast
  moreover have "load_token K db1 ?sm = load_token K db0 ?sm"
    by (rule tenant_store.load_token_cong [OF ten]) (simp add: db0 put_device_def)
  ultimately have claimed: "load_token K db1 ?sm = Some st" "sk_claimed_ms st \<noteq> 0"
    using assms(3) by simp_all
  from tenant_store.steps_keep_claimed [OF ten assms(4) claimed] have at2: "load_token K db2 ?sm = Some st" .
  show ?thesis
  proof (cases "tx_register K H db2 now' False token rq' dev'")
    case (Inr db3)
    then obtain db4 where "redeem_token K db2 ?sm now' (rq_id rq') = Inr db4"
      by (rule register_cases) simp
    then obtain st' where "load_token K db2 ?sm = Some st'" "token_usable st' now'"
      by (rule redeem_token_cases)
    with at2 claimed tenant_store.usable_unclaimed [OF ten] show ?thesis by fastforce
  qed simp
qed

lemma token_single_use_witness:
  "\<exists>db1. tx_register log_kv (\<lambda>s. s) (mint_token log_kv (\<lambda>s. s)
      (empty_tdb log_kv log_kv :: (doc blob log_bucket log_bucket, doc blob log_bucket) tdb) (5 * second) ''t'')
      (6 * second) False ''t'' demo_req (demo_dev device_pending) = Inr db1 \<and>
    (\<exists>e. tx_register log_kv (\<lambda>s. s) db1 (7 * second) False ''t'' (demo_req\<lparr>rq_id := ''e''\<rparr>)
      (demo_dev device_pending) = Inl e)"
proof -
  obtain db1 where db1: "tx_register log_kv (\<lambda>s. s) (mint_token log_kv (\<lambda>s. s)
      (empty_tdb log_kv log_kv :: (doc blob log_bucket log_bucket, doc blob log_bucket) tdb) (5 * second) ''t'')
      (6 * second) False ''t'' demo_req (demo_dev device_pending) = Inr db1"
    using demo_mint by blast
  have "0 < unix_milli (6 * second)" by (simp add: unix_milli_def second_def)
  from token_single_use [OF log.bucket_axioms db1 this rtranclp.rtrancl_refl [of "tdb_step log_kv log_kv (\<lambda>s. s)"]]
  show ?thesis using db1 by blast
qed

text \<open>C10 Only active devices hold the History Key: in every state reachable from an empty tenant, each stored
  wrap belongs to a device whose row decodes and is active.\<close>

theorem wraps_only_active:
  assumes "bucket K" and "(tdb_step K R H)\<^sup>*\<^sup>* (empty_tdb K R) db" and "kv_get K (td_hk_wraps db) did = Some v"
  shows "\<exists>w d. v = Doc (DWrap w) \<and> kv_get K (td_devices db) did = Some (Doc (DDevice d)) \<and>
    dv_status d = device_active"
proof -
  note ten = tenant_of_bucket [OF assms(1)]
  have "tdb_ok K db"
    using tenant_store.steps_keep_ok [OF ten assms(2)] tenant_store.empty_ok [OF ten] by blast
  with assms(3) have "(\<exists>w. v = Doc (DWrap w)) \<and> active_in K db did" by (auto simp: tdb_ok_def)
  then show ?thesis
    by (auto simp: active_in_def device_of_def as_device_iff split: option.splits bind_splits)
qed

lemma wraps_only_active_witness:
  "\<exists>db v. (tdb_step log_kv log_kv (\<lambda>s. s))\<^sup>*\<^sup>*
      (empty_tdb log_kv log_kv :: (doc blob log_bucket log_bucket, doc blob log_bucket) tdb) db \<and>
    kv_get log_kv (td_hk_wraps db) ''d'' = Some v \<and>
    (\<exists>d. kv_get log_kv (td_devices db) ''d'' = Some (Doc (DDevice d)) \<and> dv_status d = device_active)"
proof -
  let ?e = "empty_tdb log_kv log_kv :: (doc blob log_bucket log_bucket, doc blob log_bucket) tdb"
  let ?step = "tdb_step log_kv log_kv (\<lambda>s. s)"
  let ?m = "mint_token log_kv (\<lambda>s. s) ?e (5 * second) ''t''"
  obtain db1 where db1: "tx_register log_kv (\<lambda>s. s) ?m (6 * second) False ''t'' demo_req
      (demo_dev device_pending) = Inr db1"
    using demo_mint by blast
  have "?step ?e ?m" by (rule tdb_step.Mint) (simp add: empty_tdb_def)
  moreover have "?step ?m db1"
    by (rule tdb_step.Register [OF _ _ db1]) (simp_all add: unix_milli_def second_def demo_dev_def)
  moreover have d: "kv_get log_kv (td_devices db1) ''d'' = Some (Doc (DDevice (json_device (demo_dev device_pending))))"
      "kv_items log_kv (td_hk_wraps db1) = []"
    using register_frame [OF db1] by (simp_all add: demo_req_def mint_token_def put_token_def prune_tokens_def
        empty_tdb_def)
  moreover obtain db2 where db2: "tx_activate log_kv db1 ''d'' demo_wrap = Inr db2"
      "kv_get log_kv (td_hk_wraps db2) ''d'' = Some (Doc (DWrap (json_wrap demo_wrap)))"
    using d by (auto simp: tx_activate_def json_device_def demo_dev_def demo_wrap_def put_wrap_def put_device_def
        set_hk_version_def)
  moreover have "?step db1 db2" by (rule tdb_step.Activate [OF db2(1)])
  ultimately have run: "?step\<^sup>*\<^sup>* ?e db2" by (meson rtranclp.rtrancl_into_rtrancl rtranclp.rtrancl_refl)
  from wraps_only_active [OF log.bucket_axioms run db2(2)] run db2(2) show ?thesis by blast
qed

text \<open>Recovery keys are written once: after any run of the server's transactions the salt and both public
  keys of a configured recovery are what they were.\<close>

theorem recovery_keys_fixed:
  assumes "bucket K" and "(tdb_step K R H)\<^sup>*\<^sup>* db db'" and "load_recovery K db = Inr (Some r)"
  shows "\<exists>r'. load_recovery K db' = Inr (Some r') \<and> ri_salt r' = ri_salt r \<and>
    ri_pub_key r' = ri_pub_key r \<and> ri_sign_key r' = ri_sign_key r"
proof -
  note ten = tenant_of_bucket [OF assms(1)]
  note of = recovery_of_load
  from assms(2,3) show ?thesis
  proof (induction rule: rtranclp_induct)
    case (step y z)
    then obtain r1 where "recovery_of K y = Some r1" "ri_salt r1 = ri_salt r"
        "ri_pub_key r1 = ri_pub_key r" "ri_sign_key r1 = ri_sign_key r" using of by metis
    with tenant_store.step_keeps_recovery [OF ten step.hyps(2)] show ?case using of by metis
  qed simp
qed

lemma recovery_keys_fixed_witness:
  "\<exists>db r'. tx_revoke log_kv (demo_tdb\<lparr>td_recovery := kv_put log_kv (kv_empty log_kv) recovery_key
      (Doc (DRecovery \<lparr>ri_salt = ''s'', ri_pub_key = ''p'', ri_sign_key = ''q'', ri_wrap = demo_wrap\<rparr>))\<rparr>) ''d'' =
      Inr db \<and> load_recovery log_kv db = Inr (Some r') \<and> ri_pub_key r' = ''p''"
proof -
  let ?r = "\<lparr>ri_salt = ''s'', ri_pub_key = ''p'', ri_sign_key = ''q'', ri_wrap = demo_wrap\<rparr>"
  let ?db = "demo_tdb\<lparr>td_recovery := kv_put log_kv (kv_empty log_kv) recovery_key (Doc (DRecovery ?r))\<rparr>"
  obtain db where db: "tx_revoke log_kv ?db ''d'' = Inr db"
    by (auto simp: tx_revoke_def demo_tdb_def put_device_def Let_def)
  have "tdb_step log_kv log_kv (\<lambda>s. s) ?db db" by (rule tdb_step.Revoke [OF db])
  then have run: "(tdb_step log_kv log_kv (\<lambda>s. s))\<^sup>*\<^sup>* ?db db" by blast
  have "load_recovery log_kv ?db = Inr (Some ?r)" by (simp add: load_recovery_def)
  from recovery_keys_fixed [OF log.bucket_axioms run this] db show ?thesis by fastforce
qed



text \<open>C32 Pushing is idempotent and the first write wins: a push keeps every row that was there, stores every
  pushed sequence number and reports how many rows the stream gained; the same push again stores
  nothing, reports the same highest number and leaves every stream as it was.\<close>

theorem push_idempotent:
  assumes "bucket K" and "bucket R" and "tx_push K R db now rq = (db1, resp)"
    and "tx_push K R db1 now' rq = (db2, resp')"
  defines "old \<equiv> (case kv_get R (td_streams db) (records_prefix @ pq_host_id rq) of None \<Rightarrow> kv_empty K | Some b \<Rightarrow> b)"
  shows "\<exists>b. kv_get R (td_streams db1) (records_prefix @ pq_host_id rq) = Some b \<and>
    (\<forall>k v. kv_get K old k = Some v \<longrightarrow> kv_get K b k = Some v) \<and>
    (\<forall>p \<in> set (pq_records rq). kv_get K b (seq_key (ps_seq p)) \<noteq> None) \<and>
    pp_stored resp = int (length (kv_items K b)) - int (length (kv_items K old)) \<and>
    pp_stored resp' = 0 \<and> pp_max_seq resp' = pp_max_seq resp \<and>
    (\<forall>name. kv_get R (td_streams db2) name = kv_get R (td_streams db1) name)"
proof -
  note ten = tenant_of_bucket [OF assms(1)] and put = bucket.get_put [OF assms(2)]
  let ?name = "records_prefix @ pq_host_id rq"
  let ?run = "push_loop K now (pq_records rq) old 0"
  obtain b n where run: "?run = (b, n)" by fastforce
  have one: "td_streams db1 = kv_put R (td_streams db) ?name b" "pp_stored resp = n" "pp_max_seq resp = max_seq K b"
    using assms(3) run by (auto simp: tx_push_def old_def Let_def)
  have all: "\<forall>p \<in> set (pq_records rq). kv_get K b (seq_key (ps_seq p)) \<noteq> None"
    using tenant_store.push_loop_present [OF ten, of _ "pq_records rq" now old 0] run by auto
  then have "push_loop K now' (pq_records rq) b 0 = (b, 0)" by (rule tenant_store.push_loop_again [OF ten])
  then have two: "td_streams db2 = kv_put R (td_streams db1) ?name b" "pp_stored resp' = 0"
      "pp_max_seq resp' = max_seq K b"
    using assms(4) by (auto simp: tx_push_def one(1) put Let_def)
  have "kv_get K b k = Some v" if "kv_get K old k = Some v" for k v
    using tenant_store.push_loop_keeps [OF ten that, of now "pq_records rq" 0] run by simp
  moreover have "n = int (length (kv_items K b)) - int (length (kv_items K old))"
    using tenant_store.push_loop_count [OF ten, of now "pq_records rq" old 0] run by simp
  ultimately show ?thesis using one two all by (simp add: put)
qed

lemma push_idempotent_witness:
  "let rq = \<lparr>pq_host_id = ''h'', pq_records = [\<lparr>ps_seq = 1, ps_id = ''a'', ps_key_id = ''k'', ps_blob = ''x''\<rparr>]\<rparr>;
     db1 = fst (tx_push log_kv log_kv demo_tdb 5 rq)
   in pp_stored (snd (tx_push log_kv log_kv db1 9 rq)) = 0"
proof -
  let ?rq = "\<lparr>pq_host_id = ''h'', pq_records = [\<lparr>ps_seq = 1, ps_id = ''a'', ps_key_id = ''k'', ps_blob = ''x''\<rparr>]\<rparr>"
  obtain db1 r1 where 1: "tx_push log_kv log_kv demo_tdb 5 ?rq = (db1, r1)" by fastforce
  obtain db2 r2 where 2: "tx_push log_kv log_kv db1 9 ?rq = (db2, r2)" by fastforce
  from push_idempotent [OF log.bucket_axioms log.bucket_axioms 1 2] show ?thesis by (auto simp: 1 2 Let_def)
qed

end
