(* ===== verification/Server_Auth.thy ===== *)
theory Server_Auth
  imports Server Tenant
begin

text \<open>
  What the sync server lets through: every change to a tenant's database is one transaction of
  \<open>tdb_step\<close>, committed after a signature the tenant accepts was verified for this very request; a
  recorded nonce is refused again as long as its timestamp can still pass.
\<close>

subsection \<open>The signature check\<close>

text \<open>The keys \<open>requireSignature\<close> may check against, and where the self key comes from.\<close>

definition signer_key ::
  "('r, 'b) env \<Rightarrow> ('r, 'b) tdb \<Rightarrow> request \<Rightarrow> string \<Rightarrow> bool" where
  "signer_key E db rq pub \<longleftrightarrow>
    (\<exists>d. device_of (en_kv E) db (hd_device (hq_headers rq)) = Some d \<and> dv_sign_key d = pub \<and>
       (dv_status d = device_active \<or> dv_status d \<noteq> device_revoked \<and> \<not> has_active_device (en_kv E) db)) \<or>
    (\<exists>r. load_recovery (en_kv E) db = Inr (Some r) \<and> ri_sign_key r = pub) \<or>
    (\<exists>r. is_enroll_path rq \<and> jd_register (en_json E) (hq_body rq) = Some r \<and> rq_sign_key r = pub \<and>
       rq_id r = hd_device (hq_headers rq))"

definition self_ok :: "('r, 'b) env \<Rightarrow> ('r, 'b) tdb \<Rightarrow> request \<Rightarrow> string option \<Rightarrow> bool" where
  "self_ok E db rq self \<longleftrightarrow> (\<forall>pub. self = Some pub \<longrightarrow> signer_key E db rq pub)"

definition signed_by :: "('r, 'b) env \<Rightarrow> int \<Rightarrow> request \<Rightarrow> string \<Rightarrow> bool" where
  "signed_by E now rq pub \<longleftrightarrow>
    verify_request (en_crypto E) (hq_headers rq) (hq_method rq) (hq_target rq) (hq_body rq) pub now = None"

lemma require_accepted:
  assumes "require_signature E now rq db self s = (s1, None)"
  obtains pub where "signed_by E now rq pub"
    and "self = Some pub \<or> self = None \<and> (\<exists>d. device_of (en_kv E) db (hd_device (hq_headers rq)) = Some d \<and>
      dv_sign_key d = pub \<and> dv_status d = device_active)"
    and "check_and_record (sv_nonces s) (hd_device (hq_headers rq)) (hd_nonce (hq_headers rq)) now =
      (sv_nonces s1, True)"
    and "s1 = s\<lparr>sv_nonces := sv_nonces s1\<rparr>"
proof (cases self)
  case None
  with assms obtain v d where d: "kv_get (en_kv E) (td_devices db) (hd_device (hq_headers rq)) = Some v"
      "as_device v = Some d"
    by (auto simp: require_signature_def Let_def split: if_splits option.splits)
  with assms None that [of "dv_sign_key d"] show ?thesis
    by (auto simp: require_signature_def signed_by_def device_of_def Let_def split: if_splits prod.splits)
next
  case (Some pub)
  with assms that [of pub] show ?thesis
    by (auto simp: require_signature_def signed_by_def Let_def split: if_splits prod.splits)
qed


subsection \<open>Every commit is a signed transaction\<close>

text \<open>What a handler may do to the tenants: nothing, or one transaction after its signature check.\<close>

definition guarded ::
  "('r, 'b) env \<Rightarrow> int \<Rightarrow> request \<Rightarrow> ('r, 'b) tdb \<Rightarrow> string option \<Rightarrow> string \<Rightarrow> ('r, 'b) server
    \<Rightarrow> ('r, 'b) server \<times> response \<Rightarrow> bool" where
  "guarded E now rq db self name s out \<longleftrightarrow>
    sv_tenants (fst out) = sv_tenants s \<or>
    (\<exists>s1 db'. require_signature E now rq db self s = (s1, None) \<and> fst out = set_db name db' s1 \<and>
      tdb_step (en_kv E) (en_root E) (cr_sha256 (en_crypto E)) db db')"

lemma require_tenants:
  "require_signature E now rq db self s = (s1, r) \<Longrightarrow> sv_tenants s1 = sv_tenants s"
  by (auto simp: require_signature_def Let_def split: if_splits option.splits prod.splits sum.splits)

lemma guarded_signature:
  assumes "\<And>s1. require_signature E now rq db self s = (s1, None) \<Longrightarrow>
    sv_tenants (fst (k s1)) = sv_tenants s1 \<or>
    (\<exists>db'. fst (k s1) = set_db name db' s1 \<and>
      tdb_step (en_kv E) (en_root E) (cr_sha256 (en_crypto E)) db db')"
  shows "guarded E now rq db self name s (with_signature E now rq db self s k)"
proof (cases "read_body rq")
  case (Some resp)
  then show ?thesis by (simp add: guarded_def with_signature_def)
next
  case None
  obtain s1 r where r: "require_signature E now rq db self s = (s1, r)" by fastforce
  note t = require_tenants [OF r]
  show ?thesis
  proof (cases r)
    case (Some resp)
    with None r t show ?thesis by (simp add: guarded_def with_signature_def)
  next
    case none: None
    with None r t assms [of s1] show ?thesis by (auto simp: guarded_def with_signature_def)
  qed
qed

lemma guarded_recovery:
  assumes "\<And>r. load_recovery (en_kv E) db = Inr (Some r) \<Longrightarrow> guarded E now rq db (Some (ri_sign_key r)) name s (k r)"
  shows "\<exists>self. self_ok E db rq self \<and> guarded E now rq db self name s (with_recovery E db s k)"
proof (cases "load_recovery (en_kv E) db")
  case (Inl e)
  then show ?thesis by (intro exI [of _ None]) (simp add: self_ok_def guarded_def with_recovery_def)
next
  case (Inr x)
  show ?thesis
  proof (cases x)
    case None
    with Inr show ?thesis by (intro exI [of _ None]) (simp add: self_ok_def guarded_def with_recovery_def)
  next
    case (Some r)
    with Inr assms [of r] show ?thesis
      by (intro exI [of _ "Some (ri_sign_key r)"]) (auto simp: self_ok_def signer_key_def with_recovery_def)
  qed
qed

lemma commit_cases:
  "sv_tenants (fst (commit name s r ok)) = sv_tenants s \<or>
    (\<exists>db'. r = Inr db' \<and> fst (commit name s r ok) = set_db name db' s)"
  by (cases r) (simp_all add: commit_def)


text \<open>The handlers that only read.\<close>

lemma guarded_readers:
  "guarded E now rq db None name s (handle_hosts E now rq db s)"
  "guarded E now rq db None name s (handle_pull E now rq db s)"
  "guarded E now rq db None name s (handle_list_devices E now rq db s)"
  "guarded E now rq db None name s (handle_get_hk E now rq db s)"
  "guarded E now rq db None name s (handle_list_dek E now rq db s)"
  "guarded E now rq db None name s (handle_get_recovery_pub E now rq db s)"
  "guarded E now rq db None name s (handle_list_tokens E now rq db s)"
  unfolding handle_hosts_def handle_pull_def handle_list_devices_def handle_get_hk_def handle_list_dek_def
    handle_get_recovery_pub_def handle_list_tokens_def
  by (rule guarded_signature; simp add: with_recovery_def split: option.split sum.split prod.split)+

text \<open>The handlers that commit a transaction.\<close>

lemma guarded_push: "guarded E now rq db None name s (handle_push E now rq name db s)"
  unfolding handle_push_def
proof (rule guarded_signature, goal_cases)
  case (1 s1)
  have "tdb_step (en_kv E) (en_root E) (cr_sha256 (en_crypto E)) db
      (fst (tx_push (en_kv E) (en_root E) db (unix_milli now) p))" for p
    by (rule tdb_step.Push [OF surjective_pairing])
  then show ?case by (auto split: option.split prod.split) (metis fst_conv)
qed

lemma guarded_post_dek: "guarded E now rq db None name s (handle_post_dek E now rq name db s)"
  unfolding handle_post_dek_def
proof (rule guarded_signature, goal_cases)
  case (1 s1)
  then show ?case by (auto split: option.split prod.split sum.split intro: tdb_step.PostDEK)
qed

lemma guarded_mint:
  assumes "kv_get (en_kv E) (td_tokens db) (hash_token (cr_sha256 (en_crypto E)) (b64_encode rnd)) = None"
  shows "guarded E now rq db None name s (handle_mint_token E now rnd rq name db s)"
    and "\<exists>self. self_ok E db rq self \<and>
      guarded E now rq db self name s (handle_recovery_token E now rnd rq name db s)"
proof -
  note step = tdb_step.Mint [where K = "en_kv E" and R = "en_root E", OF assms]
  show "guarded E now rq db None name s (handle_mint_token E now rnd rq name db s)"
    unfolding handle_mint_token_def by (rule guarded_signature) (use step in \<open>auto simp: Let_def\<close>)
  show "\<exists>self. self_ok E db rq self \<and>
      guarded E now rq db self name s (handle_recovery_token E now rnd rq name db s)"
    unfolding handle_recovery_token_def
    by (rule guarded_recovery, rule guarded_signature) (use step in \<open>auto simp: Let_def\<close>)
qed

lemma guarded_commit:
  assumes "\<And>db'. r = Inr db' \<Longrightarrow> tdb_step (en_kv E) (en_root E) (cr_sha256 (en_crypto E)) db db'"
  shows "sv_tenants (fst (commit name s1 r ok)) = sv_tenants s1 \<or>
    (\<exists>db'. fst (commit name s1 r ok) = set_db name db' s1 \<and>
      tdb_step (en_kv E) (en_root E) (cr_sha256 (en_crypto E)) db db')"
  using assms commit_cases [of name s1 r ok] by blast

lemma guarded_tokens: "guarded E now rq db None name s (handle_revoke_token E now tid rq name db s)"
  unfolding handle_revoke_token_def
proof (rule guarded_signature, goal_cases)
  case (1 s1)
  show ?case by (auto split: option.split intro!: guarded_commit tdb_step.RevokeToken)
qed

lemma guarded_revoke: "guarded E now rq db None name s (handle_revoke E now did rq name db s)"
  unfolding handle_revoke_def
  by (rule guarded_signature, rule guarded_commit, rule tdb_step.Revoke)

lemma guarded_rotate: "guarded E now rq db None name s (handle_rotate E now rq name db s)"
  unfolding handle_rotate_def
proof (rule guarded_signature, goal_cases)
  case (1 s1)
  show ?case by (auto split: option.split intro!: guarded_commit tdb_step.Rotate)
qed

lemma guarded_activate:
  "guarded E now rq db (bootstrap_self_key (en_kv E) db (hd_device (hq_headers rq)) did) name s
    (handle_activate E now did rq name db s)"
  unfolding handle_activate_def
proof (rule guarded_signature, goal_cases)
  case (1 s1)
  show ?case by (auto split: option.split intro!: guarded_commit tdb_step.Activate)
qed

lemma guarded_init_recovery:
  "guarded E now rq db (bootstrap_self_key_any (en_kv E) db (hd_device (hq_headers rq))) name s
    (handle_init_recovery E now rq name db s)"
  unfolding handle_init_recovery_def
proof (rule guarded_signature, goal_cases)
  case (1 s1)
  show ?case by (auto split: option.split intro!: guarded_commit tdb_step.InitRecovery)
qed

lemma guarded_recovery_handlers:
  "\<exists>self. self_ok E db rq self \<and> guarded E now rq db self name s (handle_get_recovery E now rq db s)"
  "\<exists>self. self_ok E db rq self \<and>
    guarded E now rq db self name s (handle_recovery_activate E now did rq name db s)"
  unfolding handle_get_recovery_def handle_recovery_activate_def
proof -
  show "\<exists>self. self_ok E db rq self \<and> guarded E now rq db self name s (with_recovery E db s
      (\<lambda>r. with_signature E now rq db (Some (ri_sign_key r)) s (\<lambda>s'. (s', reply 200 (BWrap (ri_wrap r))))))"
    by (rule guarded_recovery, rule guarded_signature) simp
  show "\<exists>self. self_ok E db rq self \<and> guarded E now rq db self name s (with_recovery E db s
      (\<lambda>r. with_signature E now rq db (Some (ri_sign_key r)) s (\<lambda>s'. case jd_wrap (en_json E) (hq_body rq) of
         None \<Rightarrow> (s', malformed)
       | Some w \<Rightarrow> if hw_device_id w \<noteq> did then (s', write_err 400 ''wrap.device_id must equal path id'')
           else commit name s' (tx_recovery_activate (en_kv E) db did w) (reply 200 (BStatus device_active)))))"
    by (rule guarded_recovery, rule guarded_signature)
      (auto split: option.split intro!: guarded_commit tdb_step.RecoveryActivate)
qed

lemma guarded_register:
  assumes "0 < unix_milli now" and "is_enroll_path rq"
  shows "\<exists>self. self_ok E db rq self \<and> guarded E now rq db self name s (handle_register E now rq name db s)"
proof (cases "jd_register (en_json E) (hq_body rq)")
  case None
  then show ?thesis
    by (intro exI [of _ None]) (auto simp: self_ok_def guarded_def handle_register_def split: option.split)
next
  case (Some r)
  let ?self = "Some (rq_sign_key r)"
  show ?thesis
  proof (cases "read_body rq = None \<and> rq_id r \<noteq> [] \<and> length (rq_pub_key r) = 32 \<and>
      length (rq_sign_key r) = 32 \<and> hd_device (hq_headers rq) = rq_id r")
    case False
    with Some show ?thesis
      by (intro exI [of _ None]) (auto simp: self_ok_def guarded_def handle_register_def split: option.split)
  next
    case True
    obtain s1 x where q: "require_signature E now rq db ?self s = (s1, x)" by fastforce
    have "guarded E now rq db ?self name s (handle_register E now rq name db s)"
    proof (cases x)
      case (Some resp)
      with \<open>jd_register _ _ = Some r\<close> True q require_tenants [OF q] show ?thesis
        by (simp add: handle_register_def guarded_def)
    next
      case None
      let ?dev = "\<lparr>dv_id = rq_id r, dv_name = rq_name r, dv_pub_key = rq_pub_key r, dv_sign_key = rq_sign_key r,
          dv_status = device_pending, dv_created_ms = unix_milli now\<rparr>"
      let ?token = "hd_token (hq_headers rq)"
      let ?boot = "is_bootstrap_token name ?token s1 \<and> \<not> has_active_device (en_kv E) db"
      let ?tx = "tx_register (en_kv E) (cr_sha256 (en_crypto E)) db now ?boot ?token r ?dev"
      have "handle_register E now rq name db s = commit name s1 ?tx
          (reply 200 (BRegister \<lparr>rr_device = ?dev, rr_group_formed = (\<not> ?boot)\<rparr>))"
        using \<open>jd_register _ _ = Some r\<close> True q None by (simp add: handle_register_def Let_def)
      moreover have "tdb_step (en_kv E) (en_root E) (cr_sha256 (en_crypto E)) db db'" if "?tx = Inr db'" for db'
        by (rule tdb_step.Register [OF assms(1) _ that]) simp
      ultimately show ?thesis
        using guarded_commit [of ?tx E db name s1] q None require_tenants [OF q]
        unfolding guarded_def by metis
    qed
    moreover have "self_ok E db rq ?self"
      using Some True assms(2) by (auto simp: self_ok_def signer_key_def)
    ultimately show ?thesis by blast
  qed
qed


lemma self_ok_None [simp]: "self_ok E db rq None"
  by (simp add: self_ok_def)

lemma self_ok_bootstrap:
  "self_ok E db rq (bootstrap_self_key (en_kv E) db (hd_device (hq_headers rq)) did)"
  "self_ok E db rq (bootstrap_self_key_any (en_kv E) db (hd_device (hq_headers rq)))"
  by (auto simp: self_ok_def signer_key_def bootstrap_self_key_def bootstrap_self_key_any_def device_of_def
      split: if_splits option.splits)

lemma path_shape:
  assumes "x \<in> set (endpoints_at path)"
  obtains (three) r v a where "split_on CHR ''/'' path = [r, v, a]"
    | (four) r v a b where "split_on CHR ''/'' path = [r, v, a, b]"
    | (five) r v a b c where "split_on CHR ''/'' path = [r, v, a, b, c]"
  using assms unfolding endpoints_at_def by (simp split: list.split_asm) (metis list.exhaust)

lemma register_entry:
  assumes "(m, ERegister) \<in> set (endpoints_at path)"
  shows "split_on CHR ''/'' path = [[], ''v1'', ''devices''] \<and> m = ''POST''"
  using assms
proof (cases rule: path_shape)
  case three
  with assms show ?thesis by (simp add: endpoints_at_def split: if_splits)
next
  case four
  with assms show ?thesis by (simp add: endpoints_at_def split: if_splits)
next
  case five
  with assms show ?thesis by (simp add: endpoints_at_def split: if_splits)
qed

lemma mux_register:
  assumes "mux_endpoint rq = Inr ERegister"
  shows "is_enroll_path rq"
proof -
  let ?m = "if hq_method rq = ''HEAD'' then ''GET'' else hq_method rq"
  have "map_of (endpoints_at (hq_path rq)) ?m = Some ERegister"
    using assms by (auto simp: mux_endpoint_def Let_def split: if_splits option.splits)
  note e = register_entry [OF map_of_SomeD [OF this]]
  have "join_with [CHR ''/''] (split_on CHR ''/'' (hq_path rq)) = hq_path rq" by (rule join_split_on)
  with e have "hq_path rq = ''/v1/devices''" by simp
  with e show ?thesis by (simp add: is_enroll_path_def split: if_splits)
qed

lemma run_endpoint_guarded:
  assumes "mux_endpoint rq = Inr e" and "0 < unix_milli now"
    and "kv_get (en_kv E) (td_tokens db) (hash_token (cr_sha256 (en_crypto E)) (b64_encode rnd)) = None"
  shows "\<exists>self. self_ok E db rq self \<and> guarded E now rq db self name s (run_endpoint E now rnd e rq name db s)"
proof (cases e)
  case ERegister
  with guarded_register [OF assms(2) mux_register] assms(1) show ?thesis by (simp add: run_endpoint_def)
next
  case (EActivate did)
  then show ?thesis using guarded_activate self_ok_bootstrap(1) by (simp add: run_endpoint_def) blast
next
  case EInitRecovery
  then show ?thesis using guarded_init_recovery self_ok_bootstrap(2) by (simp add: run_endpoint_def) blast
next
  case EMintToken
  then show ?thesis
    by (intro exI [of _ None]) (simp add: run_endpoint_def guarded_mint(1) [OF assms(3)])
next
  case ERecoveryToken
  with guarded_mint(2) [OF assms(3)] show ?thesis by (simp add: run_endpoint_def)
next
  case EGetRecovery
  with guarded_recovery_handlers(1) show ?thesis by (simp add: run_endpoint_def)
next
  case (ERecoveryActivate did)
  with guarded_recovery_handlers(2) show ?thesis by (simp add: run_endpoint_def)
next
  case ERecoverySalt
  then show ?thesis
    by (intro exI [of _ None])
      (simp add: guarded_def run_endpoint_def handle_recovery_salt_def with_recovery_def split: option.split sum.split)
next
  case EHealth
  then show ?thesis by (intro exI [of _ None]) (simp add: guarded_def run_endpoint_def)
next
  case EReady
  then show ?thesis by (intro exI [of _ None]) (simp add: guarded_def run_endpoint_def)
qed (intro exI [of _ None], simp add: run_endpoint_def guarded_readers guarded_push guarded_post_dek guarded_tokens
    guarded_revoke guarded_rotate)+

lemma route_tenants: "route_tenant E now rq s = (s1, t) \<Longrightarrow> sv_tenants s1 = sv_tenants s"
  by (auto simp: route_tenant_def tenant_for_device_def split: if_splits option.splits)

lemma find_set_db:
  "find_db (set_db name db s) n = (if n = name then map_option (\<lambda>_. db) (find_db s n) else find_db s n)"
proof -
  have "map_of (map (\<lambda>(n, d). (n, if n = name then db else d)) xs) n =
      (if n = name then map_option (\<lambda>_. db) (map_of xs n) else map_of xs n)" for xs
    by (induction xs) auto
  then show ?thesis by (simp add: find_db_def set_db_def)
qed


lemma fresh_nonce:
  "check_and_record n d k now = (n', True) \<Longrightarrow> n' (nonce_key d k) = Some now"
  by (auto simp: check_and_record_def Let_def split: option.splits)

text \<open>What a signed commit means for a request that changed the server.\<close>

definition committed ::
  "('r, 'b) env \<Rightarrow> int \<Rightarrow> request \<Rightarrow> ('r, 'b) server \<Rightarrow> ('r, 'b) server \<Rightarrow> bool" where
  "committed E now rq s s' \<longleftrightarrow>
    (\<exists>name db db' pub. find_db s name = Some db \<and> find_db s' name = Some db' \<and>
      (\<forall>n. n \<noteq> name \<longrightarrow> find_db s' n = find_db s n) \<and>
      tdb_step (en_kv E) (en_root E) (cr_sha256 (en_crypto E)) db db' \<and>
      signer_key E db rq pub \<and> signed_by E now rq pub \<and>
      sv_nonces s' (nonce_key (hd_device (hq_headers rq)) (hd_nonce (hq_headers rq))) = Some now)"

lemma guarded_committed:
  assumes "guarded E now rq db self name s out" and "self_ok E db rq self" and "find_db s name = Some db"
  shows "sv_tenants (fst out) = sv_tenants s \<or> committed E now rq s (fst out)"
proof (cases "sv_tenants (fst out) = sv_tenants s")
  case False
  with assms(1) obtain s1 db' where r: "require_signature E now rq db self s = (s1, None)"
      "fst out = set_db name db' s1" "tdb_step (en_kv E) (en_root E) (cr_sha256 (en_crypto E)) db db'"
    by (auto simp: guarded_def)
  obtain pub where pub: "signed_by E now rq pub"
    "self = Some pub \<or> self = None \<and> (\<exists>d. device_of (en_kv E) db (hd_device (hq_headers rq)) = Some d \<and>
      dv_sign_key d = pub \<and> dv_status d = device_active)"
    "check_and_record (sv_nonces s) (hd_device (hq_headers rq)) (hd_nonce (hq_headers rq)) now = (sv_nonces s1, True)"
    by (rule require_accepted [OF r(1)]) (rule that, assumption+)
  have "signer_key E db rq pub"
    using pub(2) assms(2) unfolding self_ok_def by (auto simp: signer_key_def)
  moreover have "find_db s1 = find_db s" by (rule ext) (simp add: find_db_def require_tenants [OF r(1)])
  moreover have "sv_nonces (fst out) = sv_nonces s1" by (simp add: r(2) set_db_def)
  ultimately have "committed E now rq s (fst out)"
    unfolding committed_def r(2) find_set_db using r(3) pub(1) fresh_nonce [OF pub(3)] assms(3)
    by (intro exI [of _ name] exI [of _ db] exI [of _ db'] exI [of _ pub]) (simp add: r(2))
  then show ?thesis ..
qed simp

lemma committed_cong: "sv_tenants s1 = sv_tenants s \<Longrightarrow> committed E now rq s1 s' = committed E now rq s s'"
  by (simp add: committed_def find_db_def)

lemma serve_committed:
  assumes "serve E now rnd fails rq s = (s', rp)" and "\<not> is_open_path (hq_path rq)" and "0 < unix_milli now"
    and "\<forall>(n, db) \<in> set (sv_tenants s).
      kv_get (en_kv E) (td_tokens db) (hash_token (cr_sha256 (en_crypto E)) (b64_encode rnd)) = None"
  shows "sv_tenants s' = sv_tenants s \<or> committed E now rq s s'"
proof -
  obtain s1 t where rt: "route_tenant E now rq s = (s1, t)" by fastforce
  note ten = route_tenants [OF rt]
  show ?thesis
  proof (cases "t = None \<or> find_db s1 (the t) = None \<or> (\<exists>st. mux_endpoint rq = Inl st)")
    case True
    then have "sv_tenants s' = sv_tenants s1"
      using assms(1,2) rt by (auto simp: serve_def split: option.splits)
    with ten show ?thesis by simp
  next
    case False
    then obtain name db e where t: "t = Some name" "find_db s1 name = Some db" "mux_endpoint rq = Inr e"
      by (cases t; cases "mux_endpoint rq") auto
    then have out: "run_endpoint E now rnd e rq name db s1 = (s', rp)"
      using assms(1,2) rt by (simp add: serve_def)
    have "(name, db) \<in> set (sv_tenants s)" using t(2) ten by (simp add: find_db_def map_of_SomeD)
    with assms(4) have "kv_get (en_kv E) (td_tokens db) (hash_token (cr_sha256 (en_crypto E)) (b64_encode rnd)) = None"
      by auto
    from run_endpoint_guarded [OF t(3) assms(3) this] obtain self where
      "self_ok E db rq self" "guarded E now rq db self name s1 (s', rp)" using out by metis
    with guarded_committed [OF this(2,1) t(2)] ten committed_cong [OF ten] show ?thesis by simp
  qed
qed

lemma probe_steps:
  "map_of (fst (probe_tenants K fails now ts)) n = Some db' \<Longrightarrow>
    \<exists>db. map_of ts n = Some db \<and> (tdb_step K R H)\<^sup>*\<^sup>* db db'"
proof (induction K fails now ts rule: probe_tenants.induct)
  case (2 K fails now name db rest)
  have "tdb_step K R H db (db\<lparr>td_meta := kv_put K (td_meta db) meta_ready_probe (Raw (format_int (unix_milli now)))\<rparr>)"
    by (rule tdb_step.Probe)
  with 2 show ?case by (auto split: if_splits prod.splits)
qed simp

lemma serve_steps:
  assumes "serve E now rnd fails rq s = (s', rp)" and "0 < unix_milli now"
    and "\<forall>(n, db) \<in> set (sv_tenants s).
      kv_get (en_kv E) (td_tokens db) (hash_token (cr_sha256 (en_crypto E)) (b64_encode rnd)) = None"
    and "find_db s' n = Some db'"
  shows "\<exists>db. find_db s n = Some db \<and> (tdb_step (en_kv E) (en_root E) (cr_sha256 (en_crypto E)))\<^sup>*\<^sup>* db db'"
proof (cases "is_open_path (hq_path rq)")
  case False
  from serve_committed [OF assms(1) False assms(2,3)] show ?thesis
  proof
    assume "sv_tenants s' = sv_tenants s"
    with assms(4) show ?thesis by (simp add: find_db_def)
  next
    assume "committed E now rq s s'"
    then obtain name db0 db1 where c: "find_db s name = Some db0" "find_db s' name = Some db1"
        "\<forall>n. n \<noteq> name \<longrightarrow> find_db s' n = find_db s n"
        "tdb_step (en_kv E) (en_root E) (cr_sha256 (en_crypto E)) db0 db1"
      unfolding committed_def by blast
    with assms(4) show ?thesis by (cases "n = name") auto
  qed
next
  case True
  have "sv_tenants s' = sv_tenants s \<or> sv_tenants s' = fst (probe_tenants (en_kv E) fails now (sv_tenants s))"
    using assms(1) True
    by (auto simp: serve_def handle_ready_def probe_storage_def handle_health_def
        split: sum.splits endpoint.splits prod.splits option.splits if_splits)
  with assms(4) probe_steps [where K = "en_kv E" and R = "en_root E"] show ?thesis
    by (auto simp: find_db_def)
qed


subsection \<open>Replays\<close>

text \<open>The nonce cache after the checks of other requests, each with its device, nonce and time.\<close>

definition nonce_run :: "nonces \<Rightarrow> (string \<times> string \<times> int) list \<Rightarrow> nonces" where
  "nonce_run n cs = foldl (\<lambda>n (d, k, t). fst (check_and_record n d k t)) n cs"

lemma check_keeps:
  "n key = Some t0 \<Longrightarrow> t - t0 \<le> skew \<Longrightarrow> fst (check_and_record n d k t) key = Some t0"
  by (auto simp: check_and_record_def sweep_def Let_def split: option.splits)

lemma nonce_run_keeps:
  "n key = Some t0 \<Longrightarrow> \<forall>(d, k, t) \<in> set cs. t - t0 \<le> skew \<Longrightarrow> nonce_run n cs key = Some t0"
  unfolding nonce_run_def
proof (induction cs arbitrary: n)
  case (Cons c cs)
  obtain d k t where c: "c = (d, k, t)" by (cases c)
  with Cons.prems have "fst (check_and_record n d k t) key = Some t0" by (intro check_keeps) auto
  with Cons c show ?case by auto
qed simp

lemma signed_window:
  assumes "signed_by E now rq pub" and "parse_int64 (hd_timestamp (hq_headers rq)) = Some tsec"
  shows "now - tsec * second \<le> skew \<and> - skew \<le> now - tsec * second"
    and "now' - tsec * second \<le> skew \<Longrightarrow> - skew \<le> now' - tsec * second \<Longrightarrow> signed_by E now' rq pub"
  using assms by (auto simp: signed_by_def verify_request_def Let_def split: if_splits option.splits)


subsection \<open>A server to try the properties on\<close>

definition demo_crypto :: crypto where
  "demo_crypto = \<lparr>cr_sha256 = (\<lambda>s. s), cr_verify = (\<lambda>_ m sg. sg = CHR ''s'' # m)\<rparr>"

definition demo_key :: string where "demo_key = replicate 32 CHR ''k''"

definition demo_enroll :: register_req where
  "demo_enroll = \<lparr>rq_id = ''d'', rq_name = ''laptop'', rq_pub_key = demo_key, rq_sign_key = demo_key\<rparr>"

definition demo_env :: "(doc blob log_bucket log_bucket, doc blob log_bucket) env" where
  "demo_env = \<lparr>en_kv = log_kv, en_root = log_kv, en_crypto = demo_crypto,
     en_json = \<lparr>jd_push = Map.empty, jd_register = (\<lambda>_. Some demo_enroll), jd_wrap = Map.empty,
       jd_deks = Map.empty, jd_rotate = Map.empty, jd_recovery = Map.empty\<rparr>,
     en_sort_tokens = stable_sort, en_sort_hosts = stable_sort, en_sort_devices = stable_sort\<rparr>"

text \<open>An enrollment with the bootstrap token, signed by its own key.\<close>

definition demo_rq :: "int \<Rightarrow> request" where
  "demo_rq t = \<lparr>hq_method = ''POST'', hq_path = ''/v1/devices'', hq_target = ''/v1/devices'',
     hq_headers = (sign_request demo_crypto (\<lambda>m. CHR ''s'' # m) ''n'' ''d'' ''POST'' ''/v1/devices'' [] t)
       \<lparr>hd_token := ''tok''\<rparr>,
     hq_body = [], hq_query = (\<lambda>_. [])\<rparr>"

definition demo_server :: "(doc blob log_bucket log_bucket, doc blob log_bucket) server" where
  "demo_server = \<lparr>sv_tenants = [(''default'', empty_tdb log_kv log_kv)],
     sv_by_token = [(''tok'', ''default'')], sv_nonces = Map.empty, sv_route = Map.empty, sv_ready = None\<rparr>"

lemma verify_ignores:
  "verify_request C (h\<lparr>hd_device := d\<rparr>) m u b k now = verify_request C h m u b k now"
  "verify_request C (h\<lparr>hd_token := d\<rparr>) m u b k now = verify_request C h m u b k now"
  by ((cases "parse_int64 (hd_timestamp h)"; cases "b64_decode (hd_signature h)")
    , simp_all add: verify_request_def Let_def)+

lemma demo_verified:
  assumes "int64 (unix_seconds t)" and "\<bar>now - unix_seconds t * second\<bar> \<le> skew"
  shows "verify_request demo_crypto (hq_headers (demo_rq t)) ''POST'' ''/v1/devices'' [] demo_key now = None"
proof -
  have "verify_request demo_crypto (sign_request demo_crypto (\<lambda>m. CHR ''s'' # m) ''n'' ''d'' ''POST'' ''/v1/devices'' [] t)
      ''POST'' ''/v1/devices'' [] demo_key now =
    (if \<bar>now - unix_seconds t * second\<bar> \<le> skew then None else Some ErrTimestamp)"
    by (rule sign_verify) (simp_all add: demo_crypto_def demo_key_def assms(1))
  with assms(2) show ?thesis by (simp add: demo_rq_def verify_ignores)
qed

lemma demo_accepted:
  assumes "int64 (unix_seconds t)" and "\<bar>now - unix_seconds t * second\<bar> \<le> skew"
  shows "require_signature demo_env now (demo_rq t) db (Some demo_key) demo_server =
    (demo_server\<lparr>sv_nonces := [nonce_key ''d'' (b64_encode ''n'') \<mapsto> now]\<rparr>, None)"
proof -
  have h: "hd_device (hq_headers (demo_rq t)) = ''d''" "hd_nonce (hq_headers (demo_rq t)) = b64_encode ''n''"
    "hq_method (demo_rq t) = ''POST''" "hq_target (demo_rq t) = ''/v1/devices''" "hq_body (demo_rq t) = []"
    by (simp_all add: demo_rq_def sign_request_def Let_def)
  have "sweep now (Map.empty :: nonces) = Map.empty" by (simp add: sweep_def fun_eq_iff)
  then show ?thesis using demo_verified [OF assms] h
    by (simp add: require_signature_def check_and_record_def Let_def demo_env_def demo_server_def)
qed

lemma demo_timestamp:
  "int64 (unix_seconds t) \<Longrightarrow> parse_int64 (hd_timestamp (hq_headers (demo_rq t))) = Some (unix_seconds t)"
  by (simp add: demo_rq_def sign_request_def Let_def parse_format_int)

lemma demo_serve:
  "\<exists>s'. serve demo_env second [] (\<lambda>_. False) (demo_rq second) demo_server = (s', reply 200 (BRegister
      \<lparr>rr_device = \<lparr>dv_id = ''d'', dv_name = ''laptop'', dv_pub_key = demo_key, dv_sign_key = demo_key,
        dv_status = device_pending, dv_created_ms = 1000\<rparr>, rr_group_formed = False\<rparr>)) \<and>
    (\<exists>db. find_db s' ''default'' = Some db \<and> holds_device log_kv ''d'' db)"
proof -
  have ok: "int64 (unix_seconds second)" "\<bar>second - unix_seconds second * second\<bar> \<le> skew"
    by (simp_all add: int64_def unix_seconds_def second_def skew_def)
  have h: "hd_device (hq_headers (demo_rq t)) = ''d''" "hd_token (hq_headers (demo_rq t)) = ''tok''"
    "hq_method (demo_rq t) = ''POST''" "hq_path (demo_rq t) = ''/v1/devices''" "hq_body (demo_rq t) = []" for t
    by (simp_all add: demo_rq_def sign_request_def Let_def)
  have env: "en_kv demo_env = log_kv" "en_root demo_env = log_kv" "en_crypto demo_env = demo_crypto"
      "jd_register (en_json demo_env) b = Some demo_enroll" for b
    by (simp_all add: demo_env_def)
  have none: "\<not> has_active_device log_kv (empty_tdb log_kv log_kv :: (doc blob log_bucket log_bucket, doc blob log_bucket) tdb)"
    by (simp add: has_active_device_def empty_tdb_def)
  have route: "route_tenant demo_env second (demo_rq second) demo_server = (demo_server, Some ''default'')"
    using none
    by (simp add: route_tenant_def is_enroll_path_def h env tenant_for_token_def demo_server_def find_db_def
      token_valid_def load_token_def empty_tdb_def)
  have mux: "mux_endpoint (demo_rq second) = Inr ERegister"
    by (simp add: mux_endpoint_def h endpoints_at_def Let_def)
  let ?e = "empty_tdb log_kv log_kv :: (doc blob log_bucket log_bucket, doc blob log_bucket) tdb"
  let ?s1 = "demo_server\<lparr>sv_nonces := [nonce_key ''d'' (b64_encode ''n'') \<mapsto> second]\<rparr>"
  let ?dev = "\<lparr>dv_id = ''d'', dv_name = ''laptop'', dv_pub_key = demo_key, dv_sign_key = demo_key,
    dv_status = device_pending, dv_created_ms = 1000\<rparr>"
  have find: "find_db demo_server ''default'' = Some ?e" "is_bootstrap_token ''default'' ''tok'' ?s1"
    by (simp_all add: find_db_def demo_server_def is_bootstrap_token_def)
  have tx: "tx_register log_kv (cr_sha256 demo_crypto) ?e second True ''tok'' demo_enroll ?dev =
      Inr (put_device log_kv ?e ''d'' ?dev)"
    by (simp add: tx_register_def demo_enroll_def empty_tdb_def)
  have ms: "unix_milli second = 1000" by (simp add: unix_milli_def second_def)
  have "handle_register demo_env second (demo_rq second) ''default'' ?e demo_server =
      (set_db ''default'' (put_device log_kv ?e ''d'' ?dev) ?s1,
       reply 200 (BRegister \<lparr>rr_device = ?dev, rr_group_formed = False\<rparr>))"
    using demo_accepted [OF ok, of ?e] none tx find
    by (simp add: handle_register_def read_body_def max_body_def env h demo_enroll_def commit_def ms Let_def)
      (simp add: demo_key_def)
  then have "serve demo_env second [] (\<lambda>_. False) (demo_rq second) demo_server =
      (set_db ''default'' (put_device log_kv ?e ''d'' ?dev) ?s1,
       reply 200 (BRegister \<lparr>rr_device = ?dev, rr_group_formed = False\<rparr>))"
    by (simp add: serve_def is_open_path_def h route mux run_endpoint_def find)
  then show ?thesis
    by (simp add: set_db_def find_db_def demo_server_def holds_device_def put_device_def)
qed


subsection \<open>Properties\<close>

text \<open>C1 Nothing changes without a signature: a request outside the two probes that changes any tenant's
  database commits one transaction to one tenant, leaves every other tenant alone, and carries a
  signature, valid for this very method, target, body and time, under a key that tenant accepts: that of
  the active signing device, of a device bootstrapping a tenant without active ones, of the recovery key,
  or, for an enrollment, of the enrolling device. Its nonce is recorded.\<close>

theorem changes_are_signed:
  assumes "serve E now rnd fails rq s = (s', rp)" and "\<not> is_open_path (hq_path rq)" and "0 < unix_milli now"
    and "\<forall>(n, db) \<in> set (sv_tenants s).
      kv_get (en_kv E) (td_tokens db) (hash_token (cr_sha256 (en_crypto E)) (b64_encode rnd)) = None"
    and "sv_tenants s' \<noteq> sv_tenants s"
  shows "\<exists>name db db' pub. find_db s name = Some db \<and> find_db s' name = Some db' \<and>
      (\<forall>n. n \<noteq> name \<longrightarrow> find_db s' n = find_db s n) \<and>
      tdb_step (en_kv E) (en_root E) (cr_sha256 (en_crypto E)) db db' \<and>
      signer_key E db rq pub \<and>
      verify_request (en_crypto E) (hq_headers rq) (hq_method rq) (hq_target rq) (hq_body rq) pub now = None \<and>
      sv_nonces s' (nonce_key (hd_device (hq_headers rq)) (hd_nonce (hq_headers rq))) = Some now"
  using serve_committed [OF assms(1-4)] assms(5) unfolding committed_def signed_by_def by blast

lemma changes_are_signed_witness:
  "\<exists>s' rp. serve demo_env second [] (\<lambda>_. False) (demo_rq second) demo_server = (s', rp) \<and> rp_status rp = 200 \<and>
    sv_nonces s' (nonce_key ''d'' (b64_encode ''n'')) = Some second"
proof -
  obtain s' rp db where s': "serve demo_env second [] (\<lambda>_. False) (demo_rq second) demo_server = (s', rp)"
      "rp_status rp = 200" "find_db s' ''default'' = Some db" "holds_device log_kv ''d'' db"
    using demo_serve by (auto simp: reply_def)
  have path: "\<not> is_open_path (hq_path (demo_rq second))"
    by (simp add: demo_rq_def is_open_path_def)
  have ms: "0 < unix_milli second" by (simp add: unix_milli_def second_def)
  have tok: "\<forall>(n, db) \<in> set (sv_tenants demo_server).
      kv_get (en_kv demo_env) (td_tokens db) (hash_token (cr_sha256 (en_crypto demo_env)) (b64_encode [])) = None"
    by (simp add: demo_server_def demo_env_def empty_tdb_def)
  have "sv_tenants s' \<noteq> sv_tenants demo_server"
    using s'(3,4) by (auto simp: find_db_def demo_server_def holds_device_def empty_tdb_def)
  from changes_are_signed [OF s'(1) path ms tok this] s'(1,2) show ?thesis
    by (auto simp: demo_rq_def sign_request_def Let_def)
qed

text \<open>C13 The tenant invariant survives every request: if in every tenant rows decode and only active devices
  hold the History Key, so they do after serving any request, probes included.\<close>

theorem server_keeps_invariant:
  assumes "bucket (en_kv E)" and "serve E now rnd fails rq s = (s', rp)" and "0 < unix_milli now"
    and "\<forall>(n, db) \<in> set (sv_tenants s).
      kv_get (en_kv E) (td_tokens db) (hash_token (cr_sha256 (en_crypto E)) (b64_encode rnd)) = None"
    and "\<And>n db. find_db s n = Some db \<Longrightarrow> tdb_ok (en_kv E) db"
    and "find_db s' n = Some db'"
  shows "tdb_ok (en_kv E) db'"
proof -
  obtain db where "find_db s n = Some db"
      "(tdb_step (en_kv E) (en_root E) (cr_sha256 (en_crypto E)))\<^sup>*\<^sup>* db db'"
    using serve_steps [OF assms(2-4,6)] by blast
  with assms(5) tenant_store.steps_keep_ok [OF tenant_of_bucket [OF assms(1)]] show ?thesis by blast
qed

lemma server_keeps_invariant_witness:
  "\<exists>s' db'. fst (serve demo_env second [] (\<lambda>_. False) (demo_rq second) demo_server) = s' \<and>
    find_db s' ''default'' = Some db' \<and> holds_device log_kv ''d'' db' \<and> tdb_ok log_kv db'"
proof -
  obtain s' rp db where s': "serve demo_env second [] (\<lambda>_. False) (demo_rq second) demo_server = (s', rp)"
      "find_db s' ''default'' = Some db" "holds_device log_kv ''d'' db"
    using demo_serve by blast
  have env: "en_kv demo_env = log_kv" by (simp add: demo_env_def)
  have "tdb_ok (en_kv demo_env) db"
  proof (rule server_keeps_invariant [OF _ s'(1) _ _ _ s'(2)])
    show "bucket (en_kv demo_env)" unfolding env by (rule log.bucket_axioms)
    show "0 < unix_milli second" by (simp add: unix_milli_def second_def)
    show "\<forall>(n, db) \<in> set (sv_tenants demo_server).
        kv_get (en_kv demo_env) (td_tokens db) (hash_token (cr_sha256 (en_crypto demo_env)) (b64_encode [])) = None"
      by (simp add: demo_server_def demo_env_def empty_tdb_def)
    show "tdb_ok (en_kv demo_env) db" if "find_db demo_server n = Some db" for n db
      using that by (auto simp: env find_db_def demo_server_def tdb_ok_def empty_tdb_def split: if_splits)
  qed
  with s' env show ?thesis by auto
qed



text \<open>A request dated ahead of the server's clock can be replayed: once the nonce is older than the window
  it is forgotten, while the timestamp may stay valid for up to twice the window; the same request is then
  accepted again.\<close>

theorem future_request_replays:
  assumes "require_signature E t0 rq db self s = (s1, None)"
    and "parse_int64 (hd_timestamp (hq_headers rq)) = Some tsec"
    and "skew < t - t0" and "t - tsec * second \<le> skew" and "- skew \<le> t - tsec * second"
  shows "\<exists>s2. require_signature E t rq db self s1 = (s2, None)"
proof -
  let ?h = "hq_headers rq"
  obtain pub where pub: "signed_by E t0 rq pub"
    "self = Some pub \<or> self = None \<and> (\<exists>d. device_of (en_kv E) db (hd_device ?h) = Some d \<and>
      dv_sign_key d = pub \<and> dv_status d = device_active)"
    "check_and_record (sv_nonces s) (hd_device ?h) (hd_nonce ?h) t0 = (sv_nonces s1, True)"
    by (rule require_accepted [OF assms(1)]) (rule that, assumption+)
  have now: "signed_by E t rq pub" by (rule signed_window(2) [OF pub(1) assms(2,4,5)])
  have "sv_nonces s1 (nonce_key (hd_device ?h) (hd_nonce ?h)) = Some t0" by (rule fresh_nonce [OF pub(3)])
  then have "snd (check_and_record (sv_nonces s1) (hd_device ?h) (hd_nonce ?h) t)"
    using assms(3) by (simp add: check_and_record_def sweep_def Let_def)
  then obtain n where n: "check_and_record (sv_nonces s1) (hd_device ?h) (hd_nonce ?h) t = (n, True)"
    by (metis prod.collapse)
  have dev: "hd_device ?h \<noteq> []" using assms(1) by (auto simp: require_signature_def Let_def split: if_splits)
  show ?thesis
  proof (cases self)
    case None
    with pub(2) obtain v d where "kv_get (en_kv E) (td_devices db) (hd_device ?h) = Some v" "as_device v = Some d"
        "dv_sign_key d = pub" "dv_status d = device_active"
      by (auto simp: device_of_def split: bind_splits)
    with None dev n now show ?thesis by (simp add: require_signature_def signed_by_def Let_def)
  next
    case (Some k)
    with pub(2) dev n now show ?thesis by (simp add: require_signature_def signed_by_def Let_def)
  qed
qed

lemma future_request_replays_witness:
  "snd (require_signature demo_env 0 (demo_rq skew) (empty_tdb log_kv log_kv) (Some demo_key) demo_server) = None \<and>
   snd (require_signature demo_env (301 * second) (demo_rq skew) (empty_tdb log_kv log_kv) (Some demo_key)
     (fst (require_signature demo_env 0 (demo_rq skew) (empty_tdb log_kv log_kv) (Some demo_key) demo_server))) = None"
proof -
  have ok: "int64 (unix_seconds skew)" "\<bar>0 - unix_seconds skew * second\<bar> \<le> skew"
    by (simp_all add: int64_def unix_seconds_def second_def skew_def)
  note first = demo_accepted [OF ok, of "empty_tdb log_kv log_kv"]
  from future_request_replays [OF first demo_timestamp [OF ok(1)], of "301 * second"] first show ?thesis
    by (auto simp: unix_seconds_def second_def skew_def)
qed

text \<open>The device id is not signed: a request verified under a key of its own, as recovery requests are, is
  accepted again at once with nothing but its device header changed, because the replay cache keys nonces
  by that header.\<close>

theorem device_swap_replays:
  assumes "require_signature E t rq db (Some pub) s = (s1, None)" and "other \<noteq> []"
    and "sv_nonces s1 (nonce_key other (hd_nonce (hq_headers rq))) = None"
  shows "\<exists>s2. require_signature E t (rq\<lparr>hq_headers := (hq_headers rq)\<lparr>hd_device := other\<rparr>\<rparr>) db (Some pub) s1 = (s2, None)"
proof -
  obtain pub' where "signed_by E t rq pub'" "Some pub = Some pub' \<or> Some pub = None \<and>
      (\<exists>d. device_of (en_kv E) db (hd_device (hq_headers rq)) = Some d \<and> dv_sign_key d = pub' \<and>
        dv_status d = device_active)"
    by (rule require_accepted [OF assms(1)]) (rule that, assumption+)
  then have "verify_request (en_crypto E) (hq_headers rq) (hq_method rq) (hq_target rq) (hq_body rq) pub t = None"
    by (simp add: signed_by_def)
  with assms(2,3) show ?thesis
    by (simp add: require_signature_def verify_ignores check_and_record_def sweep_def Let_def)
qed

lemma device_swap_replays_witness:
  "snd (require_signature demo_env second
     ((demo_rq second)\<lparr>hq_headers := (hq_headers (demo_rq second))\<lparr>hd_device := ''e''\<rparr>\<rparr>)
     (empty_tdb log_kv log_kv) (Some demo_key)
     (fst (require_signature demo_env second (demo_rq second) (empty_tdb log_kv log_kv) (Some demo_key) demo_server)))
     = None"
proof -
  have ok: "int64 (unix_seconds second)" "\<bar>second - unix_seconds second * second\<bar> \<le> skew"
    by (simp_all add: int64_def unix_seconds_def second_def skew_def)
  note first = demo_accepted [OF ok, of "empty_tdb log_kv log_kv"]
  have "hd_nonce (hq_headers (demo_rq second)) = b64_encode ''n''"
    by (simp add: demo_rq_def sign_request_def Let_def)
  with device_swap_replays [OF first, of "''e''"] first show ?thesis
    by (auto simp: nonce_key_def)
qed

end
