(* ===== verification/Http_Client.thy ===== *)
theory Http_Client
  imports Server_Auth Syncer
begin

text \<open>
  \<open>internal/syncer/client.go\<close>: the HTTP client of the sync server, over the server of \<open>Server\<close>. A world
  is the server, the random source of this machine, and a tick for every request: the two clocks, the
  nonce, and whether the request or its answer is lost on the way. The bodies of requests are encoded by
  the parameter record \<open>encoders\<close> (\<open>encoding/json\<close>); what the server decodes is what was encoded, each
  string sent through JSON. \<open>net/http\<close> delivers the request as it was built: the path percent-decoded,
  the query as \<open>url.Values.Encode\<close> wrote it. TLS and the certificate pin are not modelled.
\<close>

record encoders =
  je_push :: "push_req \<Rightarrow> string"
  je_register :: "register_req \<Rightarrow> string"
  je_wrap :: "hk_wrap \<Rightarrow> string"
  je_deks :: "dek_wrap list \<Rightarrow> string"
  je_rotate :: "rotate_req \<Rightarrow> string"
  je_recovery :: "recovery_init \<Rightarrow> string"

datatype fate = Delivered | RequestLost | AnswerLost

record tick =
  tk_fate :: fate
  tk_client :: int
  tk_server :: int
  tk_nonce :: string
  tk_rnd :: string
  tk_fails :: "string \<Rightarrow> bool"

record ('r, 'b) world =
  wo_server :: "('r, 'b) server"
  wo_ticks :: "nat \<Rightarrow> tick"
  wo_now :: nat
  wo_random :: "nat \<Rightarrow> char"
  wo_drawn :: nat

text \<open>\<open>HTTPClient\<close>: the signer is \<^const>\<open>None\<close> until \<open>SetSigner\<close>. \<open>hc_new_id\<close> is \<open>rec.NewID\<close>, which
  yields an id unlike every id there is.\<close>

record ('r, 'b) client =
  hc_env :: "('r, 'b) env"
  hc_enc :: encoders
  hc_device :: string
  hc_sign :: "(string \<Rightarrow> string) option"
  hc_new_id :: "string list \<Rightarrow> string"

definition set_signer :: "string \<Rightarrow> (string \<Rightarrow> string) \<Rightarrow> ('r, 'b) client \<Rightarrow> ('r, 'b) client" where
  "set_signer device f c = c\<lparr>hc_device := device, hc_sign := Some f\<rparr>"

definition recovery_device_id :: string where "recovery_device_id = ''recovery''"


subsection \<open>Escaping\<close>

definition hex_upper :: "nat \<Rightarrow> char" where
  "hex_upper n = ''0123456789ABCDEF'' ! n"

definition percent :: "char \<Rightarrow> string" where
  "percent c = [CHR ''%'', hex_upper (byte c div 16), hex_upper (byte c mod 16)]"

definition unreserved :: "char \<Rightarrow> bool" where
  "unreserved c \<longleftrightarrow> is_upper_byte c \<or> is_lower_byte c \<or> is_digit_byte c \<or> c \<in> set ''-_.~''"

text \<open>\<open>url.QueryEscape\<close> and \<open>url.PathEscape\<close>.\<close>

definition query_escape :: "string \<Rightarrow> string" where
  "query_escape s =
    concat (map (\<lambda>c. if unreserved c then [c] else if c = CHR '' '' then ''+'' else percent c) s)"

definition path_escape :: "string \<Rightarrow> string" where
  "path_escape s = concat (map (\<lambda>c. if unreserved c \<or> c \<in> set ''$&+=:@'' then [c] else percent c) s)"

text \<open>\<open>url.Values.Encode\<close>: the keys in order.\<close>

definition encode_query :: "(string \<times> string) list \<Rightarrow> string" where
  "encode_query q =
    join_with ''&'' (map (\<lambda>(k, v). query_escape k @ ''='' @ query_escape v) (sort_key fst q))"


subsection \<open>One request\<close>

record call =
  ca_method :: string
  ca_path :: string
  ca_escaped :: string
  ca_query :: "(string \<times> string) list"
  ca_body :: string
  ca_token :: string

definition get_call :: "string \<Rightarrow> (string \<times> string) list \<Rightarrow> call" where
  "get_call path q = \<lparr>ca_method = ''GET'', ca_path = path, ca_escaped = path, ca_query = q,
     ca_body = [], ca_token = []\<rparr>"

definition post_call :: "string \<Rightarrow> string \<Rightarrow> call" where
  "post_call path body = \<lparr>ca_method = ''POST'', ca_path = path, ca_escaped = path, ca_query = [],
     ca_body = body, ca_token = []\<rparr>"

text \<open>A path with an id in it.\<close>

definition post_at :: "string \<Rightarrow> string \<Rightarrow> string \<Rightarrow> string \<Rightarrow> call" where
  "post_at before i after body = (post_call [] body)
    \<lparr>ca_path := before @ i @ after, ca_escaped := before @ path_escape i @ after\<rparr>"

definition call_target :: "call \<Rightarrow> string" where
  "call_target a = ca_escaped a @ (if ca_query a = [] then [] else ''?'' @ encode_query (ca_query a))"

definition call_request :: "('r, 'b) client \<Rightarrow> tick \<Rightarrow> call \<Rightarrow> request" where
  "call_request c t a =
    \<lparr>hq_method = ca_method a, hq_path = ca_path a, hq_target = call_target a,
     hq_headers =
       (case hc_sign c of
          None \<Rightarrow> \<lparr>hd_device = [], hd_timestamp = [], hd_nonce = [], hd_signature = [], hd_token = []\<rparr>
        | Some f \<Rightarrow> sign_request (en_crypto (hc_env c)) f (tk_nonce t) (hc_device c) (ca_method a)
            (call_target a) (ca_body a) (tk_client t))\<lparr>hd_token := ca_token a\<rparr>,
     hq_body = ca_body a,
     hq_query = (\<lambda>k. case map_of (ca_query a) k of None \<Rightarrow> [] | Some v \<Rightarrow> v)\<rparr>"

text \<open>What an answer decodes to. A body of the wrong shape is a decode error.\<close>

definition json_info :: "host_info \<Rightarrow> host_info" where
  "json_info h = h\<lparr>hi_host_id := json_str (hi_host_id h)\<rparr>"

definition as_hosts :: "body \<Rightarrow> host_info list option" where
  "as_hosts b = (case b of BHosts hs \<Rightarrow> Some (map json_info hs) | _ \<Rightarrow> None)"

definition as_pushed :: "body \<Rightarrow> push_resp option" where
  "as_pushed b = (case b of BPush r \<Rightarrow> Some r | _ \<Rightarrow> None)"

definition as_pulled :: "body \<Rightarrow> pull_resp option" where
  "as_pulled b = (case b of BPull r \<Rightarrow> Some (r\<lparr>pr_records := map json_pull (pr_records r)\<rparr>) | _ \<Rightarrow> None)"

definition as_registered :: "body \<Rightarrow> register_resp option" where
  "as_registered b = (case b of BRegister r \<Rightarrow> Some (r\<lparr>rr_device := json_device (rr_device r)\<rparr>) | _ \<Rightarrow> None)"

definition as_devices :: "body \<Rightarrow> device list option" where
  "as_devices b = (case b of BDevices ds \<Rightarrow> Some (map json_device ds) | _ \<Rightarrow> None)"

definition as_hk :: "body \<Rightarrow> hk_wrap option" where
  "as_hk b = (case b of BWrap w \<Rightarrow> Some (json_wrap w) | _ \<Rightarrow> None)"

definition as_deks :: "body \<Rightarrow> dek_list_resp option" where
  "as_deks b = (case b of
     BDeks r \<Rightarrow> Some (r\<lparr>dl_wraps := map json_dek (dl_wraps r), dl_next_cursor := json_str (dl_next_cursor r)\<rparr>)
   | _ \<Rightarrow> None)"

definition as_stored :: "body \<Rightarrow> int option" where
  "as_stored b = (case b of BStored n \<Rightarrow> Some n | _ \<Rightarrow> None)"

definition as_minted :: "body \<Rightarrow> token_resp option" where
  "as_minted b = (case b of BToken r \<Rightarrow> Some r | _ \<Rightarrow> None)"

definition as_tokens :: "body \<Rightarrow> enroll_token list option" where
  "as_tokens b = (case b of
     BTokens ts \<Rightarrow> Some (map (\<lambda>t. t\<lparr>et_claimed_by := json_str (et_claimed_by t)\<rparr>) ts) | _ \<Rightarrow> None)"

definition as_salt :: "body \<Rightarrow> string option" where
  "as_salt b = (case b of BSalt s \<Rightarrow> Some s | _ \<Rightarrow> None)"

definition as_pub :: "body \<Rightarrow> string option" where
  "as_pub b = (case b of BPub s \<Rightarrow> Some s | _ \<Rightarrow> None)"

definition ignored :: "body \<Rightarrow> unit option" where
  "ignored b = Some ()"

text \<open>\<open>parseServerError\<close>; the mux answers a path it does not know in plain text.\<close>

definition parse_server_error :: "response \<Rightarrow> net_error" where
  "parse_server_error rp =
    (case rp_body rp of
       BErr msg code \<Rightarrow> ApiError (rp_status rp) (json_str msg) (json_str code)
     | _ \<Rightarrow> ApiError (rp_status rp) [] [])"

definition err_revoked :: "net_error \<Rightarrow> bool" where
  "err_revoked e = (case e of ApiError _ _ code \<Rightarrow> code = ''device_revoked'' | Transport \<Rightarrow> False)"

definition err_not_found :: "net_error \<Rightarrow> bool" where
  "err_not_found e = (case e of ApiError st _ _ \<Rightarrow> st = 404 | Transport \<Rightarrow> False)"

definition good_status :: "response \<Rightarrow> bool" where
  "good_status rp \<longleftrightarrow> 200 \<le> rp_status rp \<and> rp_status rp < 300"

definition answer :: "(body \<Rightarrow> 'a option) \<Rightarrow> response \<Rightarrow> net_error + 'a" where
  "answer expect rp =
    (if \<not> good_status rp then Inl (parse_server_error rp)
     else case expect (rp_body rp) of None \<Rightarrow> Inl Transport | Some x \<Rightarrow> Inr x)"

text \<open>\<open>do\<close>. Every request, sent or not, takes a tick.\<close>

definition client_do ::
  "('r, 'b) client \<Rightarrow> call \<Rightarrow> (body \<Rightarrow> 'a option) \<Rightarrow> ('r, 'b) world
    \<Rightarrow> ('r, 'b) world \<times> (net_error + 'a)" where
  "client_do c a expect w =
    (let t = wo_ticks w (wo_now w); w1 = w\<lparr>wo_now := wo_now w + 1\<rparr>
     in if tk_fate t = RequestLost then (w1, Inl Transport)
        else case serve (hc_env c) (tk_server t) (tk_rnd t) (tk_fails t) (call_request c t a) (wo_server w) of
          (s, rp) \<Rightarrow> (w1\<lparr>wo_server := s\<rparr>,
            if tk_fate t = AnswerLost then Inl Transport else answer expect rp))"



subsection \<open>The methods\<close>

definition client_health :: "('r, 'b) client \<Rightarrow> ('r, 'b) world \<Rightarrow> ('r, 'b) world \<times> (net_error + unit)" where
  "client_health c = client_do c (get_call ''/v1/health'' []) ignored"

definition client_ready :: "('r, 'b) client \<Rightarrow> ('r, 'b) world \<Rightarrow> ('r, 'b) world \<times> (net_error + unit)" where
  "client_ready c = client_do c (get_call ''/v1/ready'' []) ignored"

definition client_hosts ::
  "('r, 'b) client \<Rightarrow> ('r, 'b) world \<Rightarrow> ('r, 'b) world \<times> (net_error + host_info list)" where
  "client_hosts c = client_do c (get_call ''/v1/hosts'' []) as_hosts"

definition push_records ::
  "('r, 'b) client \<Rightarrow> push_req \<Rightarrow> ('r, 'b) world \<Rightarrow> ('r, 'b) world \<times> (net_error + push_resp)" where
  "push_records c rq = client_do c (post_call ''/v1/records'' (je_push (hc_enc c) rq)) as_pushed"

definition pull_query :: "string \<Rightarrow> u64 \<Rightarrow> nat \<Rightarrow> (string \<times> string) list" where
  "pull_query host after limit =
    [(''host_id'', host), (''after'', format_uint after)] @
    (if 0 < limit then [(''limit'', nat_digits limit)] else [])"

definition pull_records ::
  "('r, 'b) client \<Rightarrow> string \<Rightarrow> u64 \<Rightarrow> nat \<Rightarrow> ('r, 'b) world \<Rightarrow> ('r, 'b) world \<times> (net_error + pull_resp)" where
  "pull_records c host after limit = client_do c (get_call ''/v1/records'' (pull_query host after limit)) as_pulled"

definition register_device ::
  "('r, 'b) client \<Rightarrow> register_req \<Rightarrow> string \<Rightarrow> ('r, 'b) world
    \<Rightarrow> ('r, 'b) world \<times> (net_error + register_resp)" where
  "register_device c rq token =
    client_do c ((post_call ''/v1/devices'' (je_register (hc_enc c) rq))\<lparr>ca_token := token\<rparr>) as_registered"

text \<open>The body of the two mint requests is the empty object.\<close>

definition client_mint_token ::
  "('r, 'b) client \<Rightarrow> ('r, 'b) world \<Rightarrow> ('r, 'b) world \<times> (net_error + token_resp)" where
  "client_mint_token c = client_do c (post_call ''/v1/tokens'' ''{}'') as_minted"

definition init_recovery ::
  "('r, 'b) client \<Rightarrow> recovery_init \<Rightarrow> ('r, 'b) world \<Rightarrow> ('r, 'b) world \<times> (net_error + unit)" where
  "init_recovery c rq = client_do c (post_call ''/v1/recovery'' (je_recovery (hc_enc c) rq)) ignored"

definition recovery_salt ::
  "('r, 'b) client \<Rightarrow> ('r, 'b) world \<Rightarrow> ('r, 'b) world \<times> (net_error + string)" where
  "recovery_salt c = client_do c (get_call ''/v1/recovery/salt'' []) as_salt"

definition recovery_token ::
  "('r, 'b) client \<Rightarrow> ('r, 'b) world \<Rightarrow> ('r, 'b) world \<times> (net_error + token_resp)" where
  "recovery_token c = client_do c (post_call ''/v1/recovery/token'' ''{}'') as_minted"

definition recovery_activate ::
  "('r, 'b) client \<Rightarrow> string \<Rightarrow> hk_wrap \<Rightarrow> ('r, 'b) world \<Rightarrow> ('r, 'b) world \<times> (net_error + unit)" where
  "recovery_activate c i wrap =
    client_do c (post_at ''/v1/recovery/activate/'' i [] (je_wrap (hc_enc c) wrap)) ignored"

definition recovery_wrap ::
  "('r, 'b) client \<Rightarrow> ('r, 'b) world \<Rightarrow> ('r, 'b) world \<times> (net_error + hk_wrap)" where
  "recovery_wrap c = client_do c (get_call ''/v1/recovery'' []) as_hk"

definition list_devices ::
  "('r, 'b) client \<Rightarrow> ('r, 'b) world \<Rightarrow> ('r, 'b) world \<times> (net_error + device list)" where
  "list_devices c = client_do c (get_call ''/v1/devices'' []) as_devices"

definition activate_device ::
  "('r, 'b) client \<Rightarrow> string \<Rightarrow> hk_wrap \<Rightarrow> ('r, 'b) world \<Rightarrow> ('r, 'b) world \<times> (net_error + unit)" where
  "activate_device c i wrap =
    client_do c (post_at ''/v1/devices/'' i ''/activate'' (je_wrap (hc_enc c) wrap)) ignored"

definition revoke_device ::
  "('r, 'b) client \<Rightarrow> string \<Rightarrow> ('r, 'b) world \<Rightarrow> ('r, 'b) world \<times> (net_error + unit)" where
  "revoke_device c i = client_do c (post_at ''/v1/devices/'' i ''/revoke'' []) ignored"

definition client_list_tokens ::
  "('r, 'b) client \<Rightarrow> ('r, 'b) world \<Rightarrow> ('r, 'b) world \<times> (net_error + enroll_token list)" where
  "client_list_tokens c = client_do c (get_call ''/v1/tokens'' []) as_tokens"

definition client_revoke_token ::
  "('r, 'b) client \<Rightarrow> string \<Rightarrow> ('r, 'b) world \<Rightarrow> ('r, 'b) world \<times> (net_error + unit)" where
  "client_revoke_token c i = client_do c (post_at ''/v1/tokens/'' i ''/revoke'' []) ignored"

text \<open>The request of \<open>GetHKWrap\<close>; what a 404 means is decided by \<open>get_hk_wrap\<close>.\<close>

definition fetch_hk ::
  "('r, 'b) client \<Rightarrow> string \<Rightarrow> ('r, 'b) world \<Rightarrow> ('r, 'b) world \<times> (net_error + hk_wrap)" where
  "fetch_hk c d = client_do c (get_call ''/v1/keys/hk'' [(''device_id'', d)]) as_hk"

definition list_dek_wraps ::
  "('r, 'b) client \<Rightarrow> string \<Rightarrow> nat \<Rightarrow> ('r, 'b) world \<Rightarrow> ('r, 'b) world \<times> (net_error + dek_list_resp)" where
  "list_dek_wraps c cursor limit = client_do c (get_call ''/v1/keys/dek''
    ((if cursor \<noteq> [] then [(''cursor'', cursor)] else []) @
     (if 0 < limit then [(''limit'', nat_digits limit)] else []))) as_deks"

definition upload_dek_wraps ::
  "('r, 'b) client \<Rightarrow> dek_wrap list \<Rightarrow> ('r, 'b) world \<Rightarrow> ('r, 'b) world \<times> (net_error + int)" where
  "upload_dek_wraps c ws = client_do c (post_call ''/v1/keys/dek'' (je_deks (hc_enc c) ws)) as_stored"

text \<open>The request of \<open>RecoveryPub\<close>.\<close>

definition fetch_recovery_pub ::
  "('r, 'b) client \<Rightarrow> ('r, 'b) world \<Rightarrow> ('r, 'b) world \<times> (net_error + string)" where
  "fetch_recovery_pub c = client_do c (get_call ''/v1/keys/recovery'' []) as_pub"

definition client_rotate ::
  "('r, 'b) client \<Rightarrow> rotate_req \<Rightarrow> ('r, 'b) world \<Rightarrow> ('r, 'b) world \<times> (net_error + unit)" where
  "client_rotate c rq = client_do c (post_call ''/v1/keys/rotate'' (je_rotate (hc_enc c) rq)) ignored"

text \<open>\<open>crypto/rand\<close> and \<open>rec.NewID\<close>: the ids it must avoid are those of the data keys there are.\<close>

definition draw_random :: "nat \<Rightarrow> ('r, 'b) world \<Rightarrow> ('r, 'b) world \<times> string" where
  "draw_random n w = (w\<lparr>wo_drawn := wo_drawn w + n\<rparr>, map (wo_random w) [wo_drawn w ..< wo_drawn w + n])"

definition known_keys :: "('r, 'b) client \<Rightarrow> ('r, 'b) world \<Rightarrow> string list" where
  "known_keys c w =
    concat (map (\<lambda>(_, db). map fst (kv_items (en_kv (hc_env c)) (td_dek_wraps db))) (sv_tenants (wo_server w)))"

definition draw_id :: "('r, 'b) client \<Rightarrow> ('r, 'b) world \<Rightarrow> ('r, 'b) world \<times> string" where
  "draw_id c w = (w, hc_new_id c (known_keys c w))"

definition http_api :: "('r, 'b) client \<Rightarrow> ('r, 'b) world api" where
  "http_api c =
    \<lparr>ap_hosts = client_hosts c, ap_push = push_records c, ap_pull = pull_records c,
     ap_hk_wrap = fetch_hk c, ap_list_dek = list_dek_wraps c, ap_upload_dek = upload_dek_wraps c,
     ap_register = register_device c, ap_activate = activate_device c, ap_revoke = revoke_device c,
     ap_devices = list_devices c, ap_rotate = client_rotate c, ap_init_recovery = init_recovery c,
     ap_recovery_pub = fetch_recovery_pub c, ap_random = draw_random, ap_new_id = draw_id c\<rparr>"


section \<open>One tenant behind the server\<close>

definition one_tenant :: "string \<Rightarrow> ('r, 'b) tdb \<Rightarrow> ('r, 'b) server \<Rightarrow> bool" where
  "one_tenant n db s \<longleftrightarrow> sv_tenants s = [(n, db)] \<and> (\<forall>d t. sv_route s d = Some t \<longrightarrow> t = n)"

lemma one_tenant_nonces [simp]: "one_tenant n db (s\<lparr>sv_nonces := x\<rparr>) = one_tenant n db s"
  by (simp add: one_tenant_def)

lemma one_tenant_set: "one_tenant n db s \<Longrightarrow> one_tenant n db' (set_db n db' s)"
  by (simp add: one_tenant_def set_db_def)

lemma bad_status [simp]:
  "\<not> good_status deny_sig" "\<not> good_status log_internal" "\<not> good_status malformed"
  "good_status (reply st b) \<longleftrightarrow> 200 \<le> st \<and> st < 300" "good_status (write_err st m) \<longleftrightarrow> 200 \<le> st \<and> st < 300"
  by (simp_all add: good_status_def deny_sig_def log_internal_def malformed_def write_err_def reply_def)

lemma require_one:
  assumes "require_signature E now rq db self s = (s1, r)" and "one_tenant n db0 s"
  shows "one_tenant n db0 s1 \<and> (\<forall>rp. r = Some rp \<longrightarrow> \<not> good_status rp)"
  using assms by (auto simp: require_signature_def Let_def split: if_splits option.splits prod.splits sum.splits)

lemma read_body_bad: "read_body rq = Some rp \<Longrightarrow> \<not> good_status rp"
  by (auto simp: read_body_def split: if_splits)

lemma signed_one:
  assumes "with_signature E now rq db self s k = (s', rp)" and "one_tenant n db0 s"
  shows "one_tenant n db0 s' \<and> \<not> good_status rp \<or> (\<exists>s1. one_tenant n db0 s1 \<and> k s1 = (s', rp))"
proof -
  obtain s1 r where r: "require_signature E now rq db self s = (s1, r)" by fastforce
  from require_one [OF r assms(2)] assms r show ?thesis
    by (auto simp: with_signature_def dest: read_body_bad split: option.splits)
qed

lemma serve_one:
  assumes "serve E now rnd fails rq s = (s', rp)" and "one_tenant n db s" and "mux_endpoint rq = Inr e"
    and "\<not> is_open_path (hq_path rq)" and "\<not> is_enroll_path rq" and "\<not> is_recovery_path rq"
  shows "one_tenant n db s' \<and> \<not> good_status rp \<or>
    (\<exists>s1. one_tenant n db s1 \<and> run_endpoint E now rnd e rq n db s1 = (s', rp))"
proof -
  obtain s1 t where r: "route_tenant E now rq s = (s1, t)" by fastforce
  have s1: "one_tenant n db s1 \<and> (t = None \<or> t = Some n)"
  proof (cases "sv_route s (hd_device (hq_headers rq))")
    case None
    with r assms(2,5,6) show ?thesis
      by (auto simp: route_tenant_def tenant_for_device_def one_tenant_def split: if_splits)
  next
    case (Some x)
    with assms(2) have "x = n" by (simp add: one_tenant_def)
    with Some r assms(5,6) have "s1 = s \<and> (t = None \<or> t = Some n)"
      by (auto simp: route_tenant_def tenant_for_device_def split: if_splits)
    with assms(2) show ?thesis by simp
  qed
  then have db: "find_db s1 n = Some db" by (simp add: find_db_def one_tenant_def)
  from assms(1,3,4) r s1 db show ?thesis by (auto simp: serve_def)
qed

end
