(* ===== verification/Field_Codec.thy ===== *)
theory Field_Codec
  imports Http_Client
begin

text \<open>
  An instance of the encoders, decoders and the payload codec, on which the hypotheses about
  \<open>encoding/json\<close> are shown to be satisfiable: a record is its fields in sequence, each after its
  length, and decoding sends every string through JSON as \<open>encoding/json\<close> does.
\<close>

definition put_field :: "string \<Rightarrow> string" where
  "put_field f = nat_digits (length f) @ CHR '':'' # f"

definition put_fields :: "string list \<Rightarrow> string" where
  "put_fields fs = concat (map put_field fs)"

function get_fields :: "string \<Rightarrow> string list" where
  "get_fields s =
    (case dropWhile is_digit_byte s of
       [] \<Rightarrow> []
     | c # rest \<Rightarrow>
         (let n = digits_value (takeWhile is_digit_byte s) in take n rest # get_fields (drop n rest)))"
  by pat_completeness auto

termination
proof (relation "measure length", simp)
  fix s n and c :: char and rest
  assume "dropWhile is_digit_byte s = c # rest"
  then have "length (c # rest) \<le> length s" using length_dropWhile_le by metis
  then show "(drop n rest, s) \<in> measure length" by simp
qed

declare get_fields.simps [simp del]

lemma get_put_field: "get_fields (put_field f @ rest) = f # get_fields rest"
proof -
  have ds: "\<forall>c \<in> set (nat_digits (length f)). is_digit_byte c" "digits_value (nat_digits (length f)) = length f"
    using nat_digits_correct [of "length f"] by (simp_all add: all_digits_def list_all_iff)
  have "dropWhile is_digit_byte (put_field f @ rest) = CHR '':'' # f @ rest"
    "takeWhile is_digit_byte (put_field f @ rest) = nat_digits (length f)"
    using ds(1) by (simp_all add: put_field_def takeWhile_append2 dropWhile_append2 is_digit_byte_iff byte_def)
  then show ?thesis by (subst get_fields.simps) (simp add: ds(2))
qed

lemma get_put_fields [simp]: "get_fields (put_fields fs) = fs"
proof (induction fs)
  case Nil
  then show ?case by (subst get_fields.simps) (simp add: put_fields_def)
next
  case (Cons f fs)
  then show ?case by (simp add: put_fields_def get_put_field)
qed

definition get_int :: "string \<Rightarrow> int" where
  "get_int s = (case s of [] \<Rightarrow> 0 | c # cs \<Rightarrow> if c = CHR ''-'' then - int (digits_value cs) else int (digits_value s))"

lemma get_format_int [simp]: "get_int (format_int n) = n"
proof (cases "n < 0")
  case True
  then show ?thesis using nat_digits_correct [of "nat (- n)"] by (simp add: get_int_def format_int_def)
next
  case False
  obtain c cs where c: "nat_digits (nat n) = c # cs" "is_digit_byte c" using nat_digits_head by blast
  then have "c \<noteq> CHR ''-''" by (auto simp: is_digit_byte_iff byte_def)
  with False c(1) nat_digits_correct [of "nat n"] show ?thesis by (simp add: get_int_def format_int_def)
qed

definition get_u64 :: "string \<Rightarrow> u64" where
  "get_u64 s = of_nat (digits_value s)"

lemma get_format_u64 [simp]: "get_u64 (format_uint w) = w"
  using nat_digits_correct [of "unat w"] by (simp add: get_u64_def format_uint_def)

definition put_opt :: "int option \<Rightarrow> string" where
  "put_opt x = (case x of None \<Rightarrow> [] | Some n \<Rightarrow> format_int n)"

definition get_opt :: "string \<Rightarrow> int option" where
  "get_opt s = (if s = [] then None else Some (get_int s))"

lemma get_put_opt [simp]: "get_opt (put_opt x) = x"
proof (cases x)
  case (Some n)
  have "format_int n \<noteq> []" using nat_digits_head [of "nat n"] by (auto simp: format_int_def)
  with Some show ?thesis by (simp add: put_opt_def get_opt_def)
qed (simp add: put_opt_def get_opt_def)


subsection \<open>The wire types\<close>

definition put_push :: "push_record \<Rightarrow> string" where
  "put_push p = put_fields [format_uint (ps_seq p), ps_id p, ps_key_id p, ps_blob p]"

definition get_push :: "string \<Rightarrow> push_record" where
  "get_push s = (let f = get_fields s in
    \<lparr>ps_seq = get_u64 (f ! 0), ps_id = json_str (f ! 1), ps_key_id = json_str (f ! 2), ps_blob = f ! 3\<rparr>)"

definition put_push_req :: "push_req \<Rightarrow> string" where
  "put_push_req rq = put_fields [pq_host_id rq, put_fields (map put_push (pq_records rq))]"

definition get_push_req :: "string \<Rightarrow> push_req option" where
  "get_push_req s = (let f = get_fields s in
    Some \<lparr>pq_host_id = json_str (f ! 0), pq_records = map get_push (get_fields (f ! 1))\<rparr>)"

definition put_wrap :: "hk_wrap \<Rightarrow> string" where
  "put_wrap w = put_fields [hw_device_id w, hw_blob w, format_int (hw_hk_version w)]"

definition get_wrap :: "string \<Rightarrow> hk_wrap" where
  "get_wrap s = (let f = get_fields s in
    \<lparr>hw_device_id = json_str (f ! 0), hw_blob = f ! 1, hw_hk_version = get_int (f ! 2)\<rparr>)"

definition put_dek_wrap :: "dek_wrap \<Rightarrow> string" where
  "put_dek_wrap d = put_fields [dk_key_id d, dk_device_id d, format_int (dk_epoch d), dk_blob d,
    format_int (dk_hk_version d)]"

definition get_dek_wrap :: "string \<Rightarrow> dek_wrap" where
  "get_dek_wrap s = (let f = get_fields s in
    \<lparr>dk_key_id = json_str (f ! 0), dk_device_id = json_str (f ! 1), dk_epoch = get_int (f ! 2), dk_blob = f ! 3,
     dk_hk_version = get_int (f ! 4)\<rparr>)"

definition put_register :: "register_req \<Rightarrow> string" where
  "put_register r = put_fields [rq_id r, rq_name r, rq_pub_key r, rq_sign_key r]"

definition get_register :: "string \<Rightarrow> register_req" where
  "get_register s = (let f = get_fields s in
    \<lparr>rq_id = json_str (f ! 0), rq_name = json_str (f ! 1), rq_pub_key = f ! 2, rq_sign_key = f ! 3\<rparr>)"

definition put_recovery :: "recovery_init \<Rightarrow> string" where
  "put_recovery r = put_fields [ri_salt r, ri_pub_key r, ri_sign_key r, put_wrap (ri_wrap r)]"

definition get_recovery :: "string \<Rightarrow> recovery_init" where
  "get_recovery s = (let f = get_fields s in
    \<lparr>ri_salt = f ! 0, ri_pub_key = f ! 1, ri_sign_key = f ! 2, ri_wrap = get_wrap (f ! 3)\<rparr>)"

definition put_rotate :: "rotate_req \<Rightarrow> string" where
  "put_rotate r = put_fields [format_int (ro_hk_version r), put_fields (map put_wrap (ro_hk_wraps r)),
    put_fields (map put_dek_wrap (ro_dek_wraps r)),
    put_fields (case ro_recovery_wrap r of None \<Rightarrow> [] | Some w \<Rightarrow> [put_wrap w])]"

definition get_rotate :: "string \<Rightarrow> rotate_req" where
  "get_rotate s = (let f = get_fields s in
    \<lparr>ro_hk_version = get_int (f ! 0), ro_hk_wraps = map get_wrap (get_fields (f ! 1)),
     ro_dek_wraps = map get_dek_wrap (get_fields (f ! 2)),
     ro_recovery_wrap = (case get_fields (f ! 3) of [] \<Rightarrow> None | w # _ \<Rightarrow> Some (get_wrap w))\<rparr>)"

definition field_encoders :: encoders where
  "field_encoders = \<lparr>je_push = put_push_req, je_register = put_register, je_wrap = put_wrap,
     je_deks = (\<lambda>ws. put_fields (map put_dek_wrap ws)), je_rotate = put_rotate, je_recovery = put_recovery\<rparr>"

definition field_decoders :: decoders where
  "field_decoders = \<lparr>jd_push = get_push_req, jd_register = (\<lambda>s. Some (get_register s)),
     jd_wrap = (\<lambda>s. Some (get_wrap s)), jd_deks = (\<lambda>s. Some (map get_dek_wrap (get_fields s))),
     jd_rotate = (\<lambda>s. Some (get_rotate s)), jd_recovery = (\<lambda>s. Some (get_recovery s))\<rparr>"

lemma get_put_push: "get_push (put_push p) = p\<lparr>ps_id := json_str (ps_id p), ps_key_id := json_str (ps_key_id p)\<rparr>"
  by (simp add: get_push_def put_push_def Let_def)

lemma get_put_wrap: "get_wrap (put_wrap w) = json_wrap w"
  by (simp add: get_wrap_def put_wrap_def json_wrap_def Let_def)

lemma get_put_dek: "get_dek_wrap (put_dek_wrap d) = json_dek d"
  by (simp add: get_dek_wrap_def put_dek_wrap_def json_dek_def Let_def)


subsection \<open>The payload\<close>

definition put_payload :: "payload \<Rightarrow> string" where
  "put_payload p = put_fields [format_int (pd_v p), pd_id p, pd_host_id p, pd_hostname p, pd_session p, pd_cmd p,
     pd_cwd p, put_opt (pd_exit p), put_opt (pd_dur_ms p), format_int (pd_start_ms p), pd_executor p, pd_type p,
     pd_target_id p, pd_prompt_id p, pd_prompt p, pd_tag_name p, pd_tag_desc p, pd_tag_op p]"

definition get_payload :: "string \<Rightarrow> payload" where
  "get_payload s = (let f = get_fields s; g = (\<lambda>i. json_str (f ! i)) in
    \<lparr>pd_v = get_int (f ! 0), pd_id = g 1, pd_host_id = g 2, pd_hostname = g 3, pd_session = g 4, pd_cmd = g 5,
     pd_cwd = g 6, pd_exit = get_opt (f ! 7), pd_dur_ms = get_opt (f ! 8), pd_start_ms = get_int (f ! 9),
     pd_executor = g 10, pd_type = g 11, pd_target_id = g 12, pd_prompt_id = g 13, pd_prompt = g 14,
     pd_tag_name = g 15, pd_tag_desc = g 16, pd_tag_op = g 17\<rparr>)"

definition field_codec :: codec where
  "field_codec = \<lparr>cd_encode = put_payload, cd_decode = (\<lambda>s. Some (get_payload s))\<rparr>"

end
