(* ===== verification/Sync_Http.thy ===== *)
theory Sync_Http
  imports Sync_Contract Field_Codec
begin

text \<open>
  The HTTP client over the server keeps the contract \<open>sync_server\<close> of the sync engine, whatever requests
  and answers are lost: \<open>world_streams\<close> and \<open>world_deks\<close> are read off the database of the only tenant.
\<close>

definition bucket_stream :: "'b doc_kv \<Rightarrow> 'b \<Rightarrow> u64 \<Rightarrow> push_record option" where
  "bucket_stream K b q = map_option
     (\<lambda>r. \<lparr>ps_seq = q, ps_id = sr_id r, ps_key_id = sr_key_id r, ps_blob = sr_blob r\<rparr>)
     (Option.bind (kv_get K b (seq_key q)) as_record)"

definition bucket_deks :: "'b doc_kv \<Rightarrow> 'b \<Rightarrow> string \<Rightarrow> dek_wrap option" where
  "bucket_deks K b k = Option.bind (kv_get K b k) as_dek"

definition db_stream ::
  "'b doc_kv \<Rightarrow> ('r, 'b) kv \<Rightarrow> ('r, 'b) tdb \<Rightarrow> string \<Rightarrow> u64 \<Rightarrow> push_record option" where
  "db_stream K R db h =
    (case kv_get R (td_streams db) (records_prefix @ h) of None \<Rightarrow> Map.empty | Some b \<Rightarrow> bucket_stream K b)"

definition db_deks :: "'b doc_kv \<Rightarrow> ('r, 'b) tdb \<Rightarrow> string \<Rightarrow> dek_wrap option" where
  "db_deks K db = bucket_deks K (td_dek_wraps db)"

text \<open>Every stream, every data key and every device document is one the server could have stored.\<close>

definition rows_json :: "'b doc_kv \<Rightarrow> 'b \<Rightarrow> bool" where
  "rows_json K b \<longleftrightarrow> (\<forall>k r. kv_get K b k = Some (Doc (DRecord r)) \<longrightarrow> json_record r = r)"

definition deks_ok :: "'b doc_kv \<Rightarrow> 'b \<Rightarrow> bool" where
  "deks_ok K b \<longleftrightarrow> (\<forall>k v. kv_get K b k = Some v \<longrightarrow>
     (\<exists>d. v = Doc (DDek d) \<and> dk_key_id d = k \<and> k \<noteq> [] \<and> json_dek d = d))"

definition devices_ok :: "'b doc_kv \<Rightarrow> 'b \<Rightarrow> bool" where
  "devices_ok K b \<longleftrightarrow> (\<forall>k v. kv_get K b k = Some v \<longrightarrow>
     (\<exists>d. v = Doc (DDevice d) \<and> dv_id d = k \<and> json_device d = d))"

definition db_ok :: "'b doc_kv \<Rightarrow> ('r, 'b) kv \<Rightarrow> ('r, 'b) tdb \<Rightarrow> bool" where
  "db_ok K R db \<longleftrightarrow>
    (\<forall>h b. kv_get R (td_streams db) (records_prefix @ h) = Some b \<longrightarrow> stream_ok K b \<and> rows_json K b) \<and>
    deks_ok K (td_dek_wraps db) \<and> devices_ok K (td_devices db)"

definition sole_db :: "('r, 'b) world \<Rightarrow> ('r, 'b) tdb" where
  "sole_db w = snd (hd (sv_tenants (wo_server w)))"

definition world_ok :: "('r, 'b) client \<Rightarrow> ('r, 'b) world \<Rightarrow> bool" where
  "world_ok c w \<longleftrightarrow>
    (\<exists>n db. one_tenant n db (wo_server w) \<and> db_ok (en_kv (hc_env c)) (en_root (hc_env c)) db)"

definition world_streams :: "('r, 'b) client \<Rightarrow> ('r, 'b) world \<Rightarrow> string \<Rightarrow> u64 \<Rightarrow> push_record option" where
  "world_streams c w = db_stream (en_kv (hc_env c)) (en_root (hc_env c)) (sole_db w)"

definition world_deks :: "('r, 'b) client \<Rightarrow> ('r, 'b) world \<Rightarrow> string \<Rightarrow> dek_wrap option" where
  "world_deks c w = db_deks (en_kv (hc_env c)) (sole_db w)"

text \<open>What the client relies on: both databases are bbolt, the server decodes what was encoded, and a
  drawn id is new and plain.\<close>

definition json_push_req :: "push_req \<Rightarrow> push_req" where
  "json_push_req rq = \<lparr>pq_host_id = json_str (pq_host_id rq), pq_records = map json_push (pq_records rq)\<rparr>"

definition client_ok :: "('r, 'b) client \<Rightarrow> bool" where
  "client_ok c \<longleftrightarrow> bucket (en_kv (hc_env c)) \<and> bucket (en_root (hc_env c)) \<and>
    (\<forall>rq. jd_push (en_json (hc_env c)) (je_push (hc_enc c) rq) = Some (json_push_req rq)) \<and>
    (\<forall>ws. jd_deks (en_json (hc_env c)) (je_deks (hc_enc c) ws) = Some (map json_dek ws)) \<and>
    (\<forall>ks. hc_new_id c ks \<notin> set ks \<and> json_str (hc_new_id c ks) = hc_new_id c ks)"

lemma world_one: "one_tenant n db (wo_server w) \<Longrightarrow> sole_db w = db"
  by (simp add: one_tenant_def sole_db_def)

text \<open>A call that is signed: the request is lost or refused, or the handler's body runs.\<close>

lemma client_signed:
  assumes run: "client_do c a expect w = (w', r)" and one: "one_tenant n db (wo_server w)"
    and mux: "\<And>t. mux_endpoint (call_request c t a) = Inr e"
    and path: "\<not> is_open_path (ca_path a)" "\<And>t. \<not> is_enroll_path (call_request c t a)"
      "\<And>t. \<not> is_recovery_path (call_request c t a)"
    and body: "\<And>now rnd rq s. run_endpoint (hc_env c) now rnd e rq n db s =
      with_signature (hc_env c) now rq db None s (k now rq)"
  obtains "one_tenant n db (wo_server w')" and "\<exists>x. r = Inl x"
    | s1 now t rp where "one_tenant n db s1" and "k now (call_request c t a) s1 = (wo_server w', rp)"
      and "\<And>x. r = Inr x \<Longrightarrow> good_status rp \<and> expect (rp_body rp) = Some x"
      and "\<not> good_status rp \<Longrightarrow> \<exists>x. r = Inl x"
proof -
  define t where "t = wo_ticks w (wo_now w)"
  show ?thesis
  proof (cases "tk_fate t = RequestLost")
    case True
    with run one that(1) show ?thesis by (auto simp: client_do_def Let_def t_def)
  next
    case False
    let ?rq = "call_request c t a"
    obtain s' rp where s': "serve (hc_env c) (tk_server t) (tk_rnd t) (tk_fails t) ?rq (wo_server w) = (s', rp)"
      by fastforce
    with run False have w': "wo_server w' = s'"
      and r: "r = (if tk_fate t = AnswerLost then Inl Transport else answer expect rp)"
      by (auto simp: client_do_def Let_def t_def)
    have path': "\<not> is_open_path (hq_path ?rq)" using path(1) by (simp add: call_request_def)
    consider "one_tenant n db s'" "\<not> good_status rp"
      | s1 where "one_tenant n db s1" "run_endpoint (hc_env c) (tk_server t) (tk_rnd t) e ?rq n db s1 = (s', rp)"
      using serve_one [OF s' one mux path' path(2,3)] by blast
    then consider "one_tenant n db s'" "\<not> good_status rp"
      | s1 where "one_tenant n db s1" "k (tk_server t) ?rq s1 = (s', rp)"
    proof cases
      case 1
      then show ?thesis using that by blast
    next
      case (2 s1)
      from signed_one [OF 2(2) [unfolded body] 2(1)] that show ?thesis by blast
    qed
    then show ?thesis
    proof cases
      case 1
      with r w' that(1) show ?thesis by (auto simp: answer_def)
    next
      case (2 s1)
      show ?thesis by (rule that(2) [OF 2(1), of "tk_server t" t rp])
          (use 2 w' r in \<open>auto simp: answer_def split: if_splits option.splits\<close>)
    qed
  qed
qed

text \<open>The calls of the engine, as the mux sees them.\<close>

lemma engine_mux:
  "mux_endpoint (call_request c t (post_call ''/v1/records'' b)) = Inr EPush"
  "mux_endpoint (call_request c t (get_call ''/v1/records'' q)) = Inr EPull"
  "mux_endpoint (call_request c t (get_call ''/v1/keys/hk'' q)) = Inr EGetHK"
  "mux_endpoint (call_request c t (get_call ''/v1/keys/dek'' q)) = Inr EListDEK"
  "mux_endpoint (call_request c t (post_call ''/v1/keys/dek'' b)) = Inr EPostDEK"
  by (simp_all add: mux_endpoint_def call_request_def post_call_def get_call_def endpoints_at_def)

lemma engine_paths:
  "\<not> is_enroll_path (call_request c t (get_call p q))"
  "\<not> is_enroll_path (call_request c t (post_call ''/v1/records'' b))"
  "\<not> is_enroll_path (call_request c t (post_call ''/v1/keys/dek'' b))"
  "\<not> is_recovery_path (call_request c t (post_call ''/v1/records'' b))"
  "\<not> is_recovery_path (call_request c t (post_call ''/v1/keys/dek'' b))"
  "\<not> is_recovery_path (call_request c t (get_call ''/v1/records'' q))"
  "\<not> is_recovery_path (call_request c t (get_call ''/v1/keys/hk'' q))"
  "\<not> is_recovery_path (call_request c t (get_call ''/v1/keys/dek'' q))"
  "ca_path (get_call p q) = p" "ca_path (post_call p b) = p"
  by (simp_all add: is_enroll_path_def is_recovery_path_def call_request_def post_call_def get_call_def has_prefix_def)



subsection \<open>Record streams in the database\<close>

lemma json_push_sel [simp]:
  "ps_seq (json_push p) = ps_seq p" "json_push (json_push p) = json_push p"
  by (simp_all add: json_push_def)

lemma add_records_Nil: "add_records [] m = m"
  by (simp add: add_records_def)

lemma add_records_Cons:
  "add_records (p # ps) m = add_records ps (if m (ps_seq p) = None then m(ps_seq p \<mapsto> json_push p) else m)"
  by (simp add: add_records_def)

lemma add_records_json: "add_records (map json_push ps) m = add_records ps m"
  by (induction ps arbitrary: m) (simp_all add: add_records_Nil add_records_Cons)

lemma json_dek_idem [simp]: "json_dek (json_dek d) = json_dek d"
  by (simp add: json_dek_def)

context tenant_store
begin

lemma push_loop_stream:
  "stream_ok K b \<Longrightarrow> bucket_stream K (fst (push_loop K now ps b n)) = add_records ps (bucket_stream K b)"
proof (induction ps arbitrary: b n)
  case (Cons p ps)
  show ?case
  proof (cases "kv_get K b (seq_key (ps_seq p))")
    case None
    let ?b = "kv_put K b (seq_key (ps_seq p)) (Doc (DRecord (json_record
      \<lparr>sr_id = ps_id p, sr_key_id = ps_key_id p, sr_blob = ps_blob p, sr_created_ms = now\<rparr>)))"
    have "stream_ok K ?b" using Cons.prems by (auto simp: stream_ok_def)
    note IH = Cons.IH [OF this]
    have upd: "bucket_stream K ?b = (bucket_stream K b)(ps_seq p \<mapsto> json_push p)"
      by (auto simp: fun_eq_iff bucket_stream_def json_push_def json_record_def)
    have "bucket_stream K b (ps_seq p) = None" using None by (simp add: bucket_stream_def)
    then have "add_records (p # ps) (bucket_stream K b) = add_records ps (bucket_stream K ?b)"
      by (simp only: add_records_Cons upd simp_thms if_True)
    with None show ?thesis by (simp only: push_loop.simps Let_def IH not_True_eq_False if_False simp_thms)
  next
    case (Some v)
    with Cons.prems obtain r where "v = Doc (DRecord r)" by (auto simp: stream_ok_def)
    with Some have "bucket_stream K b (ps_seq p) \<noteq> None" by (simp add: bucket_stream_def)
    with Some Cons show ?thesis by (auto simp: add_records_Cons Let_def)
  qed
qed (simp add: add_records_Nil)

lemma rows_json_push: "rows_json K b \<Longrightarrow> rows_json K (fst (push_loop K now ps b n))"
proof (induction ps arbitrary: b n)
  case (Cons p ps)
  have "rows_json K (kv_put K b (seq_key (ps_seq p)) (Doc (DRecord (json_record r))))" for r
    using Cons.prems by (auto simp: rows_json_def json_record_def)
  with Cons show ?case by (auto simp: Let_def)
qed simp

lemma stream_ok_empty: "stream_ok K (kv_empty K)" "rows_json K (kv_empty K)" "bucket_stream K (kv_empty K) = Map.empty"
  by (simp_all add: stream_ok_def rows_json_def bucket_stream_def fun_eq_iff)

lemma pull_row_at: "(k, Doc (DRecord r)) \<in> set (kv_items K b) \<Longrightarrow> k = seq_key n \<Longrightarrow>
    bucket_stream K b n = Some (pulled_as (pull_row (k, Doc (DRecord r))))"
  by (simp add: bucket_stream_def pulled_as_def pull_row_def mem_items)

text \<open>The rows of a stream are its bucket's, in order.\<close>

lemma stream_dom:
  assumes "stream_ok K b"
  shows "dom (bucket_stream K b) = pl_seq ` set (pulled K b)"
proof (intro set_eqI iffI)
  fix q
  assume "q \<in> dom (bucket_stream K b)"
  then obtain v r where "kv_get K b (seq_key q) = Some v" "as_record v = Some r"
    by (auto simp: bucket_stream_def split: bind_splits)
  then have "(seq_key q, v) \<in> set (kv_items K b)" "pl_seq (pull_row (seq_key q, v)) = q"
    by (simp_all add: mem_items pull_row_def)
  then show "q \<in> pl_seq ` set (pulled K b)" by (force simp: pulled_def)
next
  fix q
  assume "q \<in> pl_seq ` set (pulled K b)"
  then obtain x where x: "x \<in> set (kv_items K b)" "q = pl_seq (pull_row x)" by (auto simp: pulled_def)
  with stream_row [OF assms x(1)] obtain n r where "x = (seq_key n, Doc (DRecord r))" "q = n"
    by (metis prod.collapse)
  with x pull_row_at [of _ r b n] show "q \<in> dom (bucket_stream K b)" by auto
qed

lemma stream_at:
  assumes "stream_ok K b" and "p \<in> set (pulled K b)"
  shows "bucket_stream K b (pl_seq p) = Some (pulled_as p)"
proof -
  obtain x where x: "x \<in> set (kv_items K b)" "p = pull_row x" using assms(2) by (auto simp: pulled_def)
  with stream_row [OF assms(1) x(1)] obtain n r where "x = (seq_key n, Doc (DRecord r))" "pl_seq p = n"
    by (metis prod.collapse)
  with x pull_row_at [of _ r b n] show ?thesis by auto
qed

lemma records_after_pulled:
  assumes ok: "stream_ok K b"
  shows "records_after (bucket_stream K b) after = map pulled_as (filter (\<lambda>p. after < pl_seq p) (pulled K b))"
proof -
  let ?xs = "filter (\<lambda>p. after < pl_seq p) (pulled K b)"
  have "sorted_wrt (<) (map pl_seq ?xs)"
    using pulled_sorted [OF ok] by (simp add: sorted_wrt_map sorted_wrt_filter)
  then have "sorted_list_of_set (set (map pl_seq ?xs)) = map pl_seq ?xs"
    unfolding strict_sorted_iff by (blast intro: sorted_list_of_set.idem_if_sorted_distinct)
  moreover have "set (map pl_seq ?xs) = {q \<in> dom (bucket_stream K b). after < q}"
    using stream_dom [OF ok] by auto
  ultimately have "sorted_list_of_set {q \<in> dom (bucket_stream K b). after < q} = map pl_seq ?xs" by simp
  then show ?thesis using stream_at [OF ok] by (auto simp: records_after_def)
qed

end



subsection \<open>Data keys in the database\<close>

definition dek_row :: "string \<times> doc blob \<Rightarrow> dek_wrap" where
  "dek_row kv = the (as_dek (snd kv))"

lemma add_deks_Nil: "add_deks [] m = m"
  by (simp add: add_deks_def)

lemma add_deks_Cons:
  "add_deks (d # ds) m = add_deks ds
    (if m (json_str (dk_key_id d)) = None then m(json_str (dk_key_id d) \<mapsto> json_dek d) else m)"
  by (simp add: add_deks_def)

lemma json_dek_sel [simp]: "dk_key_id (json_dek d) = json_str (dk_key_id d)"
  by (simp add: json_dek_def)

lemma check_deks_keys: "check_deks v ws = None \<Longrightarrow> d \<in> set ws \<Longrightarrow> dk_key_id d \<noteq> []"
  by (induction ws) (auto split: if_splits)

lemma dek_loop_ok:
  "\<forall>(k, v) \<in> set rows. as_dek v \<noteq> None \<Longrightarrow> length out \<le> limit \<Longrightarrow>
    dek_loop limit rows out =
      Inr (out @ take (limit - length out) (map dek_row rows), limit - length out < length rows)"
  by (induction limit rows out rule: dek_loop.induct)
    (auto simp: dek_row_def take_Cons' Suc_diff_le split: option.splits)

context tenant_store
begin

lemma store_deks_ok:
  "deks_ok K b \<Longrightarrow> \<forall>d \<in> set ws. json_str (dk_key_id d) \<noteq> [] \<Longrightarrow>
    deks_ok K (fst (store_deks K (map json_dek ws) b n)) \<and>
    bucket_deks K (fst (store_deks K (map json_dek ws) b n)) = add_deks ws (bucket_deks K b)"
proof (induction ws arbitrary: b n)
  case (Cons d ws)
  let ?k = "json_str (dk_key_id d)"
  show ?case
  proof (cases "kv_get K b ?k")
    case None
    let ?b = "put_dek K b (json_dek d)"
    have ok: "deks_ok K ?b" using Cons.prems by (auto simp: deks_ok_def put_dek_def)
    have "\<forall>d \<in> set ws. json_str (dk_key_id d) \<noteq> []" using Cons.prems by simp
    note IH = Cons.IH [OF ok this]
    have upd: "bucket_deks K ?b = (bucket_deks K b)(?k \<mapsto> json_dek d)"
      by (auto simp: fun_eq_iff bucket_deks_def put_dek_def)
    have "bucket_deks K b ?k = None" using None by (simp add: bucket_deks_def)
    then have "add_deks (d # ws) (bucket_deks K b) = add_deks ws (bucket_deks K ?b)"
      by (simp only: add_deks_Cons upd simp_thms if_True)
    with None show ?thesis
      by (simp only: store_deks.simps list.map json_dek_sel IH not_True_eq_False if_False simp_thms)
  next
    case (Some v)
    with Cons.prems obtain x where "v = Doc (DDek x)" by (auto simp: deks_ok_def)
    with Some have "bucket_deks K b ?k \<noteq> None" by (simp add: bucket_deks_def)
    with Some Cons show ?thesis by (auto simp: add_deks_Cons Let_def)
  qed
qed (simp add: add_deks_Nil)

lemma dek_items: "deks_ok K b \<Longrightarrow> (k, v) \<in> set (kv_items K b) \<Longrightarrow> \<exists>d. v = Doc (DDek d) \<and> dk_key_id d = k"
  unfolding mem_items deks_ok_def by blast

lemma deks_after_items:
  assumes ok: "deks_ok K b"
  shows "deks_after (bucket_deks K b) c = map dek_row (filter (\<lambda>(k, _). c = [] \<or> c < k) (kv_items K b))"
proof -
  let ?xs = "filter (\<lambda>(k, _). c = [] \<or> c < k) (kv_items K b)"
  have "sorted_wrt (<) (map fst ?xs)"
    using items_sorted [of b] by (simp add: sorted_wrt_map sorted_wrt_filter)
  then have "sorted_list_of_set (set (map fst ?xs)) = map fst ?xs"
    unfolding strict_sorted_iff by (blast intro: sorted_list_of_set.idem_if_sorted_distinct)
  moreover have dom: "k \<in> dom (bucket_deks K b) \<longleftrightarrow> kv_get K b k \<noteq> None" for k
    using ok by (fastforce simp: bucket_deks_def deks_ok_def split: bind_splits)
  have "set (map fst ?xs) = {k \<in> dom (bucket_deks K b). c = [] \<or> c < k}"
  proof -
    have "set (map fst ?xs) = {k \<in> set (map fst (kv_items K b)). c = [] \<or> c < k}" by force
    also have "\<dots> = {k \<in> dom (bucket_deks K b). c = [] \<or> c < k}"
      using dom unfolding key_items by blast
    finally show ?thesis .
  qed
  ultimately have "sorted_list_of_set {k \<in> dom (bucket_deks K b). c = [] \<or> c < k} = map fst ?xs" by simp
  moreover have "the (bucket_deks K b (fst x)) = dek_row x" if "x \<in> set ?xs" for x
  proof -
    have "(fst x, snd x) \<in> set (kv_items K b)" using that unfolding set_filter by simp
    then have "kv_get K b (fst x) = Some (snd x)" unfolding mem_items .
    then show ?thesis by (simp add: bucket_deks_def dek_row_def)
  qed
  ultimately show ?thesis by (simp add: deks_after_def)
qed

lemma list_dek_ok:
  assumes ok: "deks_ok K (td_dek_wraps db)" and rest: "deks_after (bucket_deks K (td_dek_wraps db)) c = rest"
  shows "tx_list_dek K db c limit = Inr \<lparr>dl_wraps = take limit rest,
    dl_next_cursor = (if limit < length rest then dk_key_id (last (take limit rest)) else [])\<rparr>"
proof -
  let ?b = "td_dek_wraps db"
  let ?rows = "if c = [] then kv_items K ?b else case kv_seek K ?b c of [] \<Rightarrow> []
    | (k, v) # rest \<Rightarrow> if k = c then rest else (k, v) # rest"
  have rows: "?rows = filter (\<lambda>(k, _). c = [] \<or> c < k) (kv_items K ?b)"
  proof (cases "c = []")
    case True
    then show ?thesis by (simp add: case_prod_unfold)
  next
    case False
    let ?f = "filter (\<lambda>(k, _). c \<le> k) (kv_items K ?b)"
    have split: "filter (\<lambda>(k, _). c < k) (kv_items K ?b) = filter (\<lambda>(k, _). c < k) ?f"
      by (auto simp: filter_filter intro: filter_cong)
    have s: "sorted_wrt (<) (map fst ?f)" using items_sorted [of ?b] by (simp add: sorted_wrt_map sorted_wrt_filter)
    show ?thesis
    proof (cases ?f)
      case Nil
      with False split show ?thesis by (simp add: seek_eq)
    next
      case (Cons x xs)
      have "\<forall>y \<in> set xs. c < fst y" "c \<le> fst x"
      proof -
        have "x \<in> set ?f" unfolding Cons by simp
        then show "c \<le> fst x" by auto
        with s show "\<forall>y \<in> set xs. c < fst y" unfolding Cons by auto
      qed
      then have "filter (\<lambda>(k, _). c < k) ?f = (if fst x = c then xs else x # xs)"
        unfolding Cons by (auto simp: case_prod_unfold)
      with False split Cons show ?thesis by (simp add: seek_eq split: prod.split)
    qed
  qed
  have "\<forall>(k, v) \<in> set ?rows. as_dek v \<noteq> None"
    unfolding rows using dek_items [OF ok] by fastforce
  from dek_loop_ok [OF this, of "[]" limit] have
    "dek_loop limit ?rows [] = Inr (take limit rest, limit < length rest)"
    unfolding rest [symmetric] deks_after_items [OF ok] rows by (simp add: take_map)
  then show ?thesis by (simp add: tx_list_dek_def Let_def)
qed

end



subsection \<open>The contract\<close>

lemma db_push:
  assumes K: "bucket K" and R: "bucket R" and ok: "db_ok K R db"
    and run: "tx_push K R db now \<lparr>pq_host_id = h, pq_records = map json_push ps\<rparr> = (db', resp)"
  shows "db_ok K R db' \<and> db_deks K db' = db_deks K db \<and>
    db_stream K R db' = (db_stream K R db)(h := add_records ps (db_stream K R db h))"
proof -
  note tenant = tenant_of_bucket [OF K]
  define b where "b = (case kv_get R (td_streams db) (records_prefix @ h) of None \<Rightarrow> kv_empty K | Some b \<Rightarrow> b)"
  define b' where "b' = fst (push_loop K now (map json_push ps) b 0)"
  from run have db': "db' = db\<lparr>td_streams := kv_put R (td_streams db) (records_prefix @ h) b'\<rparr>"
    by (simp add: tx_push_def Let_def b_def b'_def split: prod.splits)
  have b: "stream_ok K b" "rows_json K b" "bucket_stream K b = db_stream K R db h"
    using ok tenant_store.stream_ok_empty [OF tenant]
    by (auto simp: b_def db_ok_def db_stream_def split: option.splits)
  have b': "stream_ok K b'" "rows_json K b'" "bucket_stream K b' = add_records ps (db_stream K R db h)"
    unfolding b'_def using tenant_store.stream_ok_push [OF tenant b(1)] tenant_store.rows_json_push [OF tenant b(2)]
      tenant_store.push_loop_stream [OF tenant b(1)] by (simp_all add: b(3) add_records_json)
  note put = bucket.get_put [OF R]
  have "db_stream K R db' = (db_stream K R db)(h := add_records ps (db_stream K R db h))"
    by (rule ext) (simp add: db' db_stream_def put b'(3))
  moreover have "db_ok K R db'" using ok b'(1,2) by (simp add: db_ok_def db' put)
  moreover have "db_deks K db' = db_deks K db" by (simp add: db_deks_def db')
  ultimately show ?thesis by blast
qed

lemma db_post_dek:
  assumes K: "bucket K" and ok: "db_ok K R db" and run: "tx_post_dek K db (map json_dek ws) = Inr (db', n)"
  shows "db_ok K R db' \<and> db_deks K db' = add_deks ws (db_deks K db) \<and> db_stream K R db' = db_stream K R db"
proof -
  from run have checked: "check_deks (get_hk_version K db) (map json_dek ws) = None"
    and db': "db' = db\<lparr>td_dek_wraps := fst (store_deks K (map json_dek ws) (td_dek_wraps db) 0)\<rparr>"
    by (auto simp: tx_post_dek_def split: option.splits prod.splits)
  have keys: "\<forall>d \<in> set ws. json_str (dk_key_id d) \<noteq> []"
  proof
    fix d assume "d \<in> set ws"
    then have "json_dek d \<in> set (map json_dek ws)" by simp
    from check_deks_keys [OF checked this] show "json_str (dk_key_id d) \<noteq> []" by simp
  qed
  have deks: "deks_ok K (td_dek_wraps db)" using ok by (simp add: db_ok_def)
  from tenant_store.store_deks_ok [OF tenant_of_bucket [OF K] deks keys] ok show ?thesis
    by (simp add: db' db_ok_def db_deks_def db_stream_def fun_eq_iff)
qed

lemma world_after:
  assumes "one_tenant n db (wo_server w)" and "db_ok (en_kv (hc_env c)) (en_root (hc_env c)) db"
  shows "world_ok c w" "world_streams c w = db_stream (en_kv (hc_env c)) (en_root (hc_env c)) db"
    "world_deks c w = db_deks (en_kv (hc_env c)) db"
  using assms by (auto simp: world_ok_def world_streams_def world_deks_def world_one)

lemma world_same:
  assumes "one_tenant n db (wo_server w)" "one_tenant n db (wo_server w')" and "world_ok c w"
  shows "world_ok c w' \<and> world_streams c w' = world_streams c w \<and> world_deks c w' = world_deks c w"
  using assms by (auto simp: world_ok_def world_streams_def world_deks_def one_tenant_def sole_db_def)

text \<open>A call that only reads.\<close>

lemma client_reads:
  assumes run: "client_do c a expect w = (w', r)" and ok: "world_ok c w"
    and mux: "\<And>t. mux_endpoint (call_request c t a) = Inr e"
    and path: "\<not> is_open_path (ca_path a)" "\<And>t. \<not> is_enroll_path (call_request c t a)"
      "\<And>t. \<not> is_recovery_path (call_request c t a)"
    and body: "\<And>now rnd rq n db s. run_endpoint (hc_env c) now rnd e rq n db s =
      with_signature (hc_env c) now rq db None s (\<lambda>s'. (s', f db rq))"
  shows "world_ok c w' \<and> world_streams c w' = world_streams c w \<and> world_deks c w' = world_deks c w"
    and "r = Inr x \<Longrightarrow> \<exists>n db t. one_tenant n db (wo_server w) \<and>
      db_ok (en_kv (hc_env c)) (en_root (hc_env c)) db \<and> good_status (f db (call_request c t a)) \<and>
      expect (rp_body (f db (call_request c t a))) = Some x"
proof -
  from ok obtain n db where one: "one_tenant n db (wo_server w)"
      and db: "db_ok (en_kv (hc_env c)) (en_root (hc_env c)) db"
    by (auto simp: world_ok_def)
  consider "one_tenant n db (wo_server w')" "\<exists>x. r = Inl x"
    | t where "one_tenant n db (wo_server w')"
      "\<And>x. r = Inr x \<Longrightarrow> good_status (f db (call_request c t a)) \<and> expect (rp_body (f db (call_request c t a))) = Some x"
    using client_signed [OF run one mux path, of "\<lambda>now rq s'. (s', f db rq)"] body by (metis prod.inject)
  note cases = this
  from cases show "world_ok c w' \<and> world_streams c w' = world_streams c w \<and> world_deks c w' = world_deks c w"
    using world_same [OF one _ ok] by cases blast+
  show "\<exists>n db t. one_tenant n db (wo_server w) \<and>
      db_ok (en_kv (hc_env c)) (en_root (hc_env c)) db \<and> good_status (f db (call_request c t a)) \<and>
      expect (rp_body (f db (call_request c t a))) = Some x" if "r = Inr x"
    using cases that one db by cases blast+
qed


text \<open>What the three readers of the engine answer.\<close>

definition hk_reply :: "'b doc_kv \<Rightarrow> ('r, 'b) tdb \<Rightarrow> request \<Rightarrow> response" where
  "hk_reply K db rq =
    (case kv_get K (td_hk_wraps db) (hq_query rq ''device_id'') of
       None \<Rightarrow> write_err 404 ''no hk wrap for device''
     | Some v \<Rightarrow> (case as_wrap v of None \<Rightarrow> log_internal | Some w \<Rightarrow> reply 200 (BWrap w)))"

definition pull_reply :: "'b doc_kv \<Rightarrow> ('r, 'b) kv \<Rightarrow> ('r, 'b) tdb \<Rightarrow> request \<Rightarrow> response" where
  "pull_reply K R db rq =
    (case parse_uint (hq_query rq ''after'') 0 of
       None \<Rightarrow> write_err 400 ''invalid after''
     | Some after \<Rightarrow>
         (case parse_limit (hq_query rq ''limit'') of
            None \<Rightarrow> write_err 400 ''invalid limit''
          | Some limit \<Rightarrow>
              (case tx_pull K R db (hq_query rq ''host_id'') after limit of
                 Inl e \<Rightarrow> write_api_err e
               | Inr resp \<Rightarrow> reply 200 (BPull resp))))"

definition dek_reply :: "'b doc_kv \<Rightarrow> ('r, 'b) tdb \<Rightarrow> request \<Rightarrow> response" where
  "dek_reply K db rq =
    (case parse_limit (hq_query rq ''limit'') of
       None \<Rightarrow> write_err 400 ''invalid limit''
     | Some limit \<Rightarrow>
         (case tx_list_dek K db (hq_query rq ''cursor'') limit of
            Inl e \<Rightarrow> write_api_err e
          | Inr resp \<Rightarrow> reply 200 (BDeks resp)))"

lemma engine_readers:
  "run_endpoint E now rnd EGetHK rq n db s =
    with_signature E now rq db None s (\<lambda>s'. (s', hk_reply (en_kv E) db rq))"
  "run_endpoint E now rnd EPull rq n db s =
    with_signature E now rq db None s (\<lambda>s'. (s', pull_reply (en_kv E) (en_root E) db rq))"
  "run_endpoint E now rnd EListDEK rq n db s =
    with_signature E now rq db None s (\<lambda>s'. (s', dek_reply (en_kv E) db rq))"
  unfolding run_endpoint_def endpoint.case handle_get_hk_def handle_pull_def handle_list_dek_def hk_reply_def
    pull_reply_def dek_reply_def
  by (rule arg_cong [where f = "with_signature E now rq db None s"],
      simp add: fun_eq_iff split: option.split sum.split)+

lemma parse_limit_digits: "0 < n \<Longrightarrow> n \<le> 1000 \<Longrightarrow> parse_limit (nat_digits n) = Some n"
proof -
  assume n: "0 < n" "n \<le> 1000"
  then have "int64 (int n)" by (simp add: int64_def)
  then have "parse_int64 (format_int (int n)) = Some (int n)" by (rule parse_format_int)
  moreover have "nat_digits n \<noteq> []" using nat_digits_head [of n] by auto
  ultimately show ?thesis using n by (simp add: parse_limit_def format_int_def max_limit_def)
qed

lemma parse_uint_format: "parse_uint (format_uint w) d = Some w"
proof -
  have "format_uint w \<noteq> []" using nat_digits_head [of "unat w"] by (auto simp: format_uint_def)
  then show ?thesis by (simp add: parse_uint_def parse_format_uint)
qed

lemma open_paths: "\<not> is_open_path ''/v1/records''" "\<not> is_open_path ''/v1/keys/dek''" "\<not> is_open_path ''/v1/keys/hk''"
  by (simp_all add: is_open_path_def)

lemma hk_call:
  assumes "fetch_hk c d w = (w', r)" and "world_ok c w"
  shows "world_ok c w' \<and> world_streams c w' = world_streams c w \<and> world_deks c w' = world_deks c w"
  by (rule client_reads(1) [OF assms(1) [unfolded fetch_hk_def] assms(2) engine_mux(3)])
    (simp_all add: engine_paths engine_readers open_paths)

lemma pull_call:
  assumes run: "pull_records c h after limit w = (w', r)" and ok: "world_ok c w"
  shows "world_ok c w' \<and> world_streams c w' = world_streams c w \<and> world_deks c w' = world_deks c w"
    and "r = Inr resp \<Longrightarrow> \<exists>n db t. one_tenant n db (wo_server w) \<and>
      db_ok (en_kv (hc_env c)) (en_root (hc_env c)) db \<and>
      as_pulled (rp_body (pull_reply (en_kv (hc_env c)) (en_root (hc_env c)) db
        (call_request c t (get_call ''/v1/records'' (pull_query h after limit))))) = Some resp \<and>
      good_status (pull_reply (en_kv (hc_env c)) (en_root (hc_env c)) db
        (call_request c t (get_call ''/v1/records'' (pull_query h after limit))))"
proof -
  note reads = client_reads [OF run [unfolded pull_records_def] ok engine_mux(2)]
  show "world_ok c w' \<and> world_streams c w' = world_streams c w \<and> world_deks c w' = world_deks c w"
    by (rule reads(1)) (simp_all add: engine_paths engine_readers open_paths)
  show "\<exists>n db t. one_tenant n db (wo_server w) \<and>
      db_ok (en_kv (hc_env c)) (en_root (hc_env c)) db \<and>
      as_pulled (rp_body (pull_reply (en_kv (hc_env c)) (en_root (hc_env c)) db
        (call_request c t (get_call ''/v1/records'' (pull_query h after limit))))) = Some resp \<and>
      good_status (pull_reply (en_kv (hc_env c)) (en_root (hc_env c)) db
        (call_request c t (get_call ''/v1/records'' (pull_query h after limit))))" if "r = Inr resp"
  proof -
    have "\<exists>n db t. one_tenant n db (wo_server w) \<and>
      db_ok (en_kv (hc_env c)) (en_root (hc_env c)) db \<and>
      good_status (pull_reply (en_kv (hc_env c)) (en_root (hc_env c)) db
        (call_request c t (get_call ''/v1/records'' (pull_query h after limit)))) \<and>
      as_pulled (rp_body (pull_reply (en_kv (hc_env c)) (en_root (hc_env c)) db
        (call_request c t (get_call ''/v1/records'' (pull_query h after limit))))) = Some resp"
      by (rule reads(2) [OF _ _ _ _ that]) (simp_all add: engine_paths engine_readers open_paths)
    then show ?thesis by blast
  qed
qed


lemma json_pulled:
  assumes K: "bucket K" and b: "stream_ok K b" "rows_json K b" and p: "p \<in> set (pulled K b)"
  shows "json_pull p = p"
proof -
  obtain x where x: "x \<in> set (kv_items K b)" "p = pull_row x" using p by (auto simp: pulled_def)
  with tenant_store.stream_row [OF tenant_of_bucket [OF K] b(1) x(1)] obtain r where r: "snd x = Doc (DRecord r)"
    by metis
  moreover have "kv_get K b (fst x) = Some (snd x)" using x(1) bucket.mem_items [OF K, of "fst x" "snd x" b] by simp
  ultimately have "json_record r = r" using b(2) by (simp add: rows_json_def)
  then have "json_str (sr_id r) = sr_id r" "json_str (sr_key_id r) = sr_key_id r"
    unfolding json_record_def by (metis stored_record.select_convs stored_record.surjective stored_record.update_convs)+
  with r x(2) show ?thesis by (simp add: json_pull_def pull_row_def)
qed

lemma pull_page_ok:
  assumes C: "client_ok c" and run: "pull_records c h after limit w = (w', Inr resp)" and ok: "world_ok c w"
    and after: "after \<noteq> - 1" and limit: "0 < limit" "limit \<le> 1000"
  shows "map pulled_as (pr_records resp) = take limit (records_after (world_streams c w h) after) \<and>
    pr_next_after resp = (if limit < length (records_after (world_streams c w h) after)
      then Some (pl_seq (last (pr_records resp))) else None)"
proof -
  define K R where "K = en_kv (hc_env c)" and "R = en_root (hc_env c)"
  have K: "bucket K" using C by (simp add: client_ok_def K_def)
  obtain n db t where one: "one_tenant n db (wo_server w)" and db: "db_ok K R db"
      and resp: "as_pulled (rp_body (pull_reply K R db
        (call_request c t (get_call ''/v1/records'' (pull_query h after limit))))) = Some resp"
    using pull_call(2) [OF run ok, of resp] by (auto simp: K_def R_def)
  let ?rq = "call_request c t (get_call ''/v1/records'' (pull_query h after limit))"
  have q: "hq_query ?rq ''after'' = format_uint after" "hq_query ?rq ''limit'' = nat_digits limit"
      "hq_query ?rq ''host_id'' = h"
    using limit by (simp_all add: call_request_def get_call_def pull_query_def)
  have streams: "world_streams c w h = db_stream K R db h"
    using world_one [OF one] by (simp add: world_streams_def K_def R_def)
  show ?thesis
  proof (cases "kv_get R (td_streams db) (records_prefix @ h)")
    case None
    then have "tx_pull K R db h after limit = Inr \<lparr>pr_records = [], pr_next_after = None\<rparr>"
      by (simp add: tx_pull_def)
    with resp have "resp = \<lparr>pr_records = [], pr_next_after = None\<rparr>"
      by (simp add: pull_reply_def q parse_uint_format parse_limit_digits limit as_pulled_def reply_def)
    moreover have "records_after (world_streams c w h) after = []"
      using None by (simp add: streams db_stream_def records_after_def)
    ultimately show ?thesis by simp
  next
    case (Some b)
    with db have b: "stream_ok K b" "rows_json K b" by (auto simp: db_ok_def)
    define rest where "rest = filter (\<lambda>p. after < pl_seq p) (pulled K b)"
    have json: "map json_pull (take limit rest) = take limit rest"
      using json_pulled [OF K b] by (auto simp: rest_def intro!: map_idI dest!: in_set_takeD)
    from tenant_store.tx_pull_ok [OF tenant_of_bucket [OF K] Some b(1) after rest_def [symmetric], of limit]
    have "resp = \<lparr>pr_records = take limit rest,
        pr_next_after = (if limit < length rest then Some (pl_seq (last (take limit rest))) else None)\<rparr>"
      using resp by (simp add: pull_reply_def q parse_uint_format parse_limit_digits limit as_pulled_def reply_def json)
    moreover have "records_after (world_streams c w h) after = map pulled_as rest"
      using tenant_store.records_after_pulled [OF tenant_of_bucket [OF K] b(1), of after] Some
      by (simp add: streams db_stream_def rest_def)
    ultimately show ?thesis by (simp add: take_map)
  qed
qed

lemma dek_call:
  assumes run: "list_dek_wraps c cursor limit w = (w', r)" and ok: "world_ok c w"
  shows "world_ok c w' \<and> world_streams c w' = world_streams c w \<and> world_deks c w' = world_deks c w"
proof -
  show ?thesis
    by (rule client_reads(1) [OF run [unfolded list_dek_wraps_def] ok engine_mux(4)])
      (simp_all add: engine_paths engine_readers open_paths)
qed

lemma dek_page_ok:
  assumes C: "client_ok c" and run: "list_dek_wraps c cursor limit w = (w', Inr resp)" and ok: "world_ok c w"
    and limit: "0 < limit" "limit \<le> 1000"
  shows "dl_wraps resp = take limit (deks_after (world_deks c w) cursor) \<and>
    dl_next_cursor resp = (if limit < length (deks_after (world_deks c w) cursor)
      then dk_key_id (last (dl_wraps resp)) else [])"
proof -
  define K R where "K = en_kv (hc_env c)" and "R = en_root (hc_env c)"
  have K: "bucket K" using C by (simp add: client_ok_def K_def)
  let ?q = "(if cursor \<noteq> [] then [(''cursor'', cursor)] else []) @ (if 0 < limit then [(''limit'', nat_digits limit)] else [])"
  have "\<exists>n db t. one_tenant n db (wo_server w) \<and> db_ok (en_kv (hc_env c)) (en_root (hc_env c)) db \<and>
      good_status (dek_reply (en_kv (hc_env c)) db (call_request c t (get_call ''/v1/keys/dek'' ?q))) \<and>
      as_deks (rp_body (dek_reply (en_kv (hc_env c)) db (call_request c t (get_call ''/v1/keys/dek'' ?q)))) = Some resp"
    by (rule client_reads(2) [OF run [unfolded list_dek_wraps_def] ok engine_mux(4) _ _ _ _ refl])
      (simp_all add: engine_paths engine_readers open_paths)
  then obtain n db t where one: "one_tenant n db (wo_server w)" and db: "db_ok K R db"
      and resp: "as_deks (rp_body (dek_reply K db (call_request c t (get_call ''/v1/keys/dek'' ?q)))) = Some resp"
    by (auto simp: K_def R_def)
  let ?rq = "call_request c t (get_call ''/v1/keys/dek'' ?q)"
  have q: "hq_query ?rq ''cursor'' = cursor" "hq_query ?rq ''limit'' = nat_digits limit"
    using limit by (simp_all add: call_request_def get_call_def)
  have deks: "deks_ok K (td_dek_wraps db)" using db by (simp add: db_ok_def)
  define rest where "rest = deks_after (bucket_deks K (td_dek_wraps db)) cursor"
  have world: "deks_after (world_deks c w) cursor = rest"
    using world_one [OF one] by (simp add: world_deks_def K_def db_deks_def rest_def)
  have json: "json_dek d = d \<and> json_str (dk_key_id d) = dk_key_id d" if "d \<in> set rest" for d
  proof -
    from that obtain x where x: "x \<in> set (kv_items K (td_dek_wraps db))" "d = dek_row x"
      unfolding rest_def tenant_store.deks_after_items [OF tenant_of_bucket [OF K] deks] by auto
    then have "kv_get K (td_dek_wraps db) (fst x) = Some (snd x)"
      using bucket.mem_items [OF K, of "fst x" "snd x" "td_dek_wraps db"] by simp
    with deks obtain e where "snd x = Doc (DDek e)" "json_dek e = e" unfolding deks_ok_def by blast
    with x(2) have "json_dek d = d" by (simp add: dek_row_def)
    then show ?thesis using json_dek_sel [of d] by simp
  qed
  have "map json_dek (take limit rest) = take limit rest"
    using json by (auto intro!: map_idI dest!: in_set_takeD)
  moreover have "json_str (dk_key_id (last (take limit rest))) = dk_key_id (last (take limit rest))"
    if "limit < length rest"
  proof -
    have "take limit rest \<noteq> []" using that limit by auto
    then have "last (take limit rest) \<in> set rest" using last_in_set in_set_takeD by metis
    then show ?thesis using json by blast
  qed
  moreover have "dek_reply K db ?rq = reply 200 (BDeks \<lparr>dl_wraps = take limit rest,
      dl_next_cursor = (if limit < length rest then dk_key_id (last (take limit rest)) else [])\<rparr>)"
    unfolding dek_reply_def q
    using tenant_store.list_dek_ok [OF tenant_of_bucket [OF K] deks rest_def [symmetric], of limit]
    by (simp add: parse_limit_digits limit)
  ultimately have "resp = \<lparr>dl_wraps = take limit rest,
      dl_next_cursor = (if limit < length rest then dk_key_id (last (take limit rest)) else [])\<rparr>"
    using resp by (auto simp: as_deks_def reply_def)
  then show ?thesis by (simp add: world)
qed


lemma check_deks_error: "tx_post_dek K db ws = Inl e \<Longrightarrow> \<not> good_status (write_api_err e)"
proof -
  have "check_deks v ws = Some e \<Longrightarrow> \<not> good_status (write_api_err e)" for v
    by (induction ws) (auto split: if_splits)
  then show "tx_post_dek K db ws = Inl e \<Longrightarrow> ?thesis"
    by (auto simp: tx_post_dek_def split: option.splits prod.splits)
qed

text \<open>The two calls that write.\<close>

lemma push_call:
  assumes C: "client_ok c" and run: "push_records c rq w = (w', r)" and ok: "world_ok c w"
    and host: "json_str (pq_host_id rq) = pq_host_id rq"
  shows "world_ok c w' \<and> world_deks c w' = world_deks c w \<and>
    (world_streams c w' = world_streams c w \<and> (\<exists>e. r = Inl e) \<or>
     world_streams c w' = (world_streams c w)(pq_host_id rq :=
       add_records (pq_records rq) (world_streams c w (pq_host_id rq))))"
proof -
  define E where "E = hc_env c"
  have K: "bucket (en_kv E)" "bucket (en_root E)" using C by (simp_all add: client_ok_def E_def)
  have dec: "jd_push (en_json E) (hq_body (call_request c t (post_call ''/v1/records'' (je_push (hc_enc c) rq)))) =
      Some (json_push_req rq)" for t
    using C by (simp add: client_ok_def E_def call_request_def post_call_def)
  from ok obtain n db where one: "one_tenant n db (wo_server w)" and db: "db_ok (en_kv E) (en_root E) db"
    by (auto simp: world_ok_def E_def)
  let ?k = "\<lambda>now rq s'. case jd_push (en_json E) (hq_body rq) of
        None \<Rightarrow> (s', malformed)
      | Some p \<Rightarrow>
          if pq_host_id p = [] then (s', write_err 400 ''host_id required'')
          else if max_push_records < length (pq_records p)
          then (s', write_err 400 ''too many records (max 1000)'')
          else if \<not> ascending (pq_records p)
          then (s', write_err 400 ''records must be in strictly ascending seq order'')
          else (case tx_push (en_kv E) (en_root E) db (unix_milli now) p of (db', resp) \<Rightarrow>
            (set_db n db' s', reply 200 (BPush resp)))"
  show ?thesis
  proof (rule client_signed [OF run [unfolded push_records_def] one engine_mux(1), where k = ?k])
    assume "one_tenant n db (wo_server w')" "\<exists>e. r = Inl e"
    with world_same [OF one _ ok] show ?thesis by blast
  next
    fix s1 now t rp
    assume s1: "one_tenant n db s1"
      and k: "?k now (call_request c t (post_call ''/v1/records'' (je_push (hc_enc c) rq))) s1 = (wo_server w', rp)"
      and bad: "\<not> good_status rp \<Longrightarrow> \<exists>e. r = Inl e"
    let ?p = "json_push_req rq"
    from k consider "wo_server w' = s1" "\<not> good_status rp"
      | db' resp where "tx_push (en_kv E) (en_root E) db (unix_milli now) ?p = (db', resp)" "wo_server w' = set_db n db' s1"
      by (auto simp: dec split: if_splits prod.splits)
    then show ?thesis
    proof cases
      case 1
      with bad world_same [OF one _ ok] s1 show ?thesis by simp
    next
      case (2 db' resp)
      then have "tx_push (en_kv E) (en_root E) db (unix_milli now)
          \<lparr>pq_host_id = pq_host_id rq, pq_records = map json_push (pq_records rq)\<rparr> = (db', resp)"
        by (simp add: json_push_req_def host)
      note pushed = db_push [OF K db this]
      have "one_tenant n db' (wo_server w')" using one_tenant_set [OF s1] 2(2) by simp
      note after = world_after [OF this, of c, folded E_def]
      note before = world_after [OF one, of c, folded E_def]
      from pushed after before db show ?thesis by simp
    qed
  qed (unfold E_def run_endpoint_def handle_push_def, simp_all add: engine_paths open_paths)
qed

lemma upload_call:
  assumes C: "client_ok c" and run: "upload_dek_wraps c ws w = (w', r)" and ok: "world_ok c w"
  shows "world_ok c w' \<and> world_streams c w' = world_streams c w \<and>
    (world_deks c w' = world_deks c w \<and> (\<exists>e. r = Inl e) \<or> world_deks c w' = add_deks ws (world_deks c w))"
proof -
  define E where "E = hc_env c"
  have K: "bucket (en_kv E)" using C by (simp add: client_ok_def E_def)
  have dec: "jd_deks (en_json E) (hq_body (call_request c t (post_call ''/v1/keys/dek'' (je_deks (hc_enc c) ws)))) =
      Some (map json_dek ws)" for t
    using C by (simp add: client_ok_def E_def call_request_def post_call_def)
  from ok obtain n db where one: "one_tenant n db (wo_server w)" and db: "db_ok (en_kv E) (en_root E) db"
    by (auto simp: world_ok_def E_def)
  let ?k = "\<lambda>now rq s'. case jd_deks (en_json E) (hq_body rq) of
        None \<Rightarrow> (s', malformed)
      | Some dws \<Rightarrow>
          (case tx_post_dek (en_kv E) db dws of
             Inl e \<Rightarrow> (s', write_api_err e)
           | Inr (db', stored) \<Rightarrow> (set_db n db' s', reply 200 (BStored stored)))"
  show ?thesis
  proof (rule client_signed [OF run [unfolded upload_dek_wraps_def] one engine_mux(5), where k = ?k])
    assume "one_tenant n db (wo_server w')" "\<exists>e. r = Inl e"
    with world_same [OF one _ ok] show ?thesis by blast
  next
    fix s1 now t rp
    assume s1: "one_tenant n db s1"
      and k: "?k now (call_request c t (post_call ''/v1/keys/dek'' (je_deks (hc_enc c) ws))) s1 = (wo_server w', rp)"
      and bad: "\<not> good_status rp \<Longrightarrow> \<exists>e. r = Inl e"
    from k consider e where "wo_server w' = s1" "tx_post_dek (en_kv E) db (map json_dek ws) = Inl e" "rp = write_api_err e"
      | db' m where "tx_post_dek (en_kv E) db (map json_dek ws) = Inr (db', m)" "wo_server w' = set_db n db' s1"
      by (auto simp: dec split: sum.splits prod.splits)
    then show ?thesis
    proof cases
      case (1 e)
      then have "\<not> good_status rp" using check_deks_error by simp
      with bad 1 world_same [OF one _ ok] s1 show ?thesis by simp
    next
      case (2 db' m)
      note posted = db_post_dek [OF K db 2(1)]
      have "one_tenant n db' (wo_server w')" using one_tenant_set [OF s1] 2(2) by simp
      note after = world_after [OF this, of c, folded E_def]
      note before = world_after [OF one, of c, folded E_def]
      from posted after before db show ?thesis by simp
    qed
  qed (unfold E_def run_endpoint_def handle_post_dek_def, simp_all add: engine_paths open_paths)
qed


lemma world_finite:
  assumes C: "client_ok c" and ok: "world_ok c w"
  shows "finite (dom (world_streams c w h))" and "finite (dom (world_deks c w))"
proof -
  define K R where "K = en_kv (hc_env c)" and "R = en_root (hc_env c)"
  have K: "bucket K" using C by (simp add: client_ok_def K_def)
  obtain n db where one: "one_tenant n db (wo_server w)" and db: "db_ok K R db"
    using ok by (auto simp: world_ok_def K_def R_def)
  note at = world_after [OF one, of c, folded K_def R_def, OF db]
  show "finite (dom (world_streams c w h))"
  proof (cases "kv_get R (td_streams db) (records_prefix @ h)")
    case (Some b)
    with db have "stream_ok K b" by (auto simp: db_ok_def)
    from tenant_store.stream_dom [OF tenant_of_bucket [OF K] this] Some show ?thesis
      by (simp add: at db_stream_def)
  qed (simp add: at db_stream_def)
  have "dom (world_deks c w) \<subseteq> set (map fst (kv_items K (td_dek_wraps db)))"
    unfolding at db_deks_def using bucket.key_items [OF K, of _ "td_dek_wraps db"]
    by (auto simp: bucket_deks_def split: bind_splits)
  then show "finite (dom (world_deks c w))" by (rule finite_subset) simp
qed

lemma world_keyed:
  assumes ok: "world_ok c w"
  shows "world_streams c w h q = Some p \<Longrightarrow> ps_seq p = q"
    and "world_deks c w k = Some d \<Longrightarrow> dk_key_id d = k \<and> k \<noteq> []"
proof -
  define K R where "K = en_kv (hc_env c)" and "R = en_root (hc_env c)"
  obtain n db where one: "one_tenant n db (wo_server w)" and db: "db_ok K R db"
    using ok by (auto simp: world_ok_def K_def R_def)
  note at = world_after [OF one, of c, folded K_def R_def, OF db]
  show "world_streams c w h q = Some p \<Longrightarrow> ps_seq p = q"
    by (auto simp: at db_stream_def bucket_stream_def split: option.splits)
  assume "world_deks c w k = Some d"
  then obtain v where v: "kv_get K (td_dek_wraps db) k = Some v" "as_dek v = Some d"
    by (auto simp: at db_deks_def bucket_deks_def split: bind_splits)
  from db have "deks_ok K (td_dek_wraps db)" by (simp add: db_ok_def)
  with v(1) obtain e where "v = Doc (DDek e)" "dk_key_id e = k" "k \<noteq> []" unfolding deks_ok_def by blast
  with v(2) show "dk_key_id d = k \<and> k \<noteq> []" by simp
qed

lemma draw_id_new:
  assumes C: "client_ok c" and ok: "world_ok c w"
  shows "world_deks c w (hc_new_id c (known_keys c w)) = None"
proof -
  define K R where "K = en_kv (hc_env c)" and "R = en_root (hc_env c)"
  have K: "bucket K" using C by (simp add: client_ok_def K_def)
  obtain n db where one: "one_tenant n db (wo_server w)" and db: "db_ok K R db"
    using ok by (auto simp: world_ok_def K_def R_def)
  have keys: "known_keys c w = map fst (kv_items K (td_dek_wraps db))"
    using one by (simp add: known_keys_def one_tenant_def K_def)
  have "hc_new_id c (known_keys c w) \<notin> set (known_keys c w)" using C by (simp add: client_ok_def)
  then have "kv_get K (td_dek_wraps db) (hc_new_id c (known_keys c w)) = None"
    using bucket.key_items [OF K, of "hc_new_id c (known_keys c w)" "td_dek_wraps db"] unfolding keys by blast
  then show ?thesis
    using world_after [OF one, of c, folded K_def R_def, OF db] by (simp add: db_deks_def bucket_deks_def)
qed

lemma random_call:
  "draw_random n w = (w', bs) \<Longrightarrow> wo_server w' = wo_server w \<and> length bs = n"
  by (auto simp: draw_random_def)

lemma server_only:
  "wo_server w' = wo_server w \<Longrightarrow> world_ok c w' = world_ok c w \<and> world_streams c w' = world_streams c w \<and>
    world_deks c w' = world_deks c w"
  by (simp add: world_ok_def world_streams_def world_deks_def sole_db_def)

lemma http_sync_server:
  assumes C: "client_ok (c :: ('r, 'b) client)"
  shows "sync_server (http_api c) (world_streams c) (world_deks c) (world_ok c)"
proof (rule sync_server.intro, unfold http_api_def api.select_convs, goal_cases)
  case (1 rq w w' r)
  then show ?case using push_call [OF C] by blast
next
  case (2 ws w w' ru)
  then show ?case using upload_call [OF C] by blast
next
  case (3 n w w' bs)
  then show ?case using random_call [OF 3(1)] server_only [of w' w c] by blast
next
  case (4 w w' i)
  then show ?case using draw_id_new [OF C] C by (auto simp: draw_id_def client_ok_def)
next
  case (5 d w w' rh)
  then show ?case using hk_call by blast
next
  case (6 h after limit w w' rp)
  then show ?case using pull_call(1) by blast
next
  case (7 h after limit w w' resp)
  then show ?case using pull_page_ok [OF C] by blast
next
  case (8 cu limit w w' rl)
  then show ?case using dek_call by blast
next
  case (9 cu limit w w' dresp)
  then show ?case using dek_page_ok [OF C] by blast
next
  case (10 w h)
  then show ?case using world_finite(1) [OF C] by blast
next
  case (11 w)
  then show ?case using world_finite(2) [OF C] by blast
next
  case (12 w h q sp)
  then show ?case using world_keyed(1) by blast
next
  case (13 w k sd)
  then show ?case using world_keyed(2) by blast
qed



subsection \<open>A client and a world\<close>

definition new_key :: "string list \<Rightarrow> string" where
  "new_key ks = replicate (Suc (foldr (\<lambda>k n. max (length k) n) ks 0)) CHR ''k''"

lemma new_key_fresh: "new_key ks \<notin> set ks"
proof -
  have "k \<in> set ks \<Longrightarrow> length k \<le> foldr (\<lambda>k n. max (length k) n) ks 0" for k
    by (induction ks) auto
  then show ?thesis by (fastforce simp: new_key_def)
qed

lemma new_key_json: "json_str (new_key ks) = new_key ks"
  by (rule json_str_ascii) (auto simp: new_key_def ascii_byte_def byte_def list_all_iff)

text \<open>A signature here is the signed text behind a mark, a digest a constant.\<close>

definition sync_crypto :: crypto where
  "sync_crypto = \<lparr>cr_sha256 = (\<lambda>_. ''#''), cr_verify = (\<lambda>_ m sg. sg = CHR ''s'' # m)\<rparr>"

definition demo_client :: "(doc blob log_bucket log_bucket, doc blob log_bucket) client" where
  "demo_client = \<lparr>hc_env = demo_env\<lparr>en_json := field_decoders, en_crypto := sync_crypto\<rparr>,
     hc_enc = field_encoders, hc_device = ''h'', hc_sign = Some (\<lambda>m. CHR ''s'' # m), hc_new_id = new_key\<rparr>"

text \<open>Two machines, \<open>h\<close> and \<open>g\<close>, both active.\<close>

definition demo_machine :: "string \<Rightarrow> device" where
  "demo_machine d = \<lparr>dv_id = d, dv_name = d, dv_pub_key = demo_key, dv_sign_key = demo_key,
     dv_status = device_active, dv_created_ms = 1\<rparr>"

definition group_tdb :: "(doc blob log_bucket log_bucket, doc blob log_bucket) tdb" where
  "group_tdb = (let db = set_hk_version log_kv (empty_tdb log_kv log_kv) 1
    in db\<lparr>td_devices := kv_put log_kv (kv_put log_kv (td_devices db) ''g'' (Doc (DDevice (demo_machine ''g''))))
       ''h'' (Doc (DDevice (demo_machine ''h'')))\<rparr>)"

definition demo_world :: "(doc blob log_bucket log_bucket, doc blob log_bucket) world" where
  "demo_world =
    \<lparr>wo_server = \<lparr>sv_tenants = [(''default'', group_tdb)], sv_by_token = [], sv_nonces = Map.empty,
       sv_route = Map.empty, sv_ready = None\<rparr>,
     wo_ticks = (\<lambda>n. \<lparr>tk_fate = Delivered, tk_client = second, tk_server = second, tk_nonce = nat_digits n,
       tk_rnd = [], tk_fails = (\<lambda>_. False)\<rparr>),
     wo_now = 0, wo_random = (\<lambda>_. CHR ''r''), wo_drawn = 0\<rparr>"

lemma demo_client_ok: "client_ok demo_client"
proof -
  have push: "get_push_req (put_push_req rq) = Some (json_push_req rq)" for rq
    by (simp add: get_push_req_def put_push_req_def json_push_req_def get_put_push json_push_def Let_def)
  show ?thesis
    by (simp add: client_ok_def demo_client_def demo_env_def log.bucket_axioms field_encoders_def field_decoders_def
      push get_put_dek comp_def new_key_fresh new_key_json)
qed

interpretation http: sync_server "http_api demo_client" "world_streams demo_client" "world_deks demo_client"
  "world_ok demo_client"
  by (rule http_sync_server) (rule demo_client_ok)

end
