(* ===== verification/Sync_Flow.thy ===== *)
theory Sync_Flow
  imports Sync_Push Sync_Pull Sync_Http
begin

text \<open>
  From one machine's history to another's view of it: what the push leaves on the server, and what a
  second machine reads back, over the HTTP client and the server. A request or an answer may be lost at
  any point.
\<close>

subsection \<open>The rows behind a stream\<close>

lemma mirrored_rows:
  assumes sorted: "sorted_wrt (<) (map r_seq rows)" and mir: "mirrors X C hk D S rows"
  shows "list_all2 (good_push X C hk D) (filter (\<lambda>r. S (r_seq r) \<noteq> None \<and> after < r_seq r) rows)
    (records_after S after)"
proof -
  let ?xs = "filter (\<lambda>r. S (r_seq r) \<noteq> None \<and> after < r_seq r) rows"
  have s: "sorted_wrt (<) (map r_seq ?xs)" using sorted by (simp add: sorted_wrt_map sorted_wrt_filter)
  then have "sorted_list_of_set (set (map r_seq ?xs)) = map r_seq ?xs"
    unfolding strict_sorted_iff by (blast intro: sorted_list_of_set.idem_if_sorted_distinct)
  moreover have "set (map r_seq ?xs) = {q \<in> dom S. after < q}"
  proof (intro set_eqI iffI)
    fix q assume "q \<in> {q \<in> dom S. after < q}"
    then obtain p where "S q = Some p" "after < q" by auto
    with mir obtain r where "r \<in> set rows" "r_seq r = q" unfolding mirrors_def by blast
    with \<open>S q = Some p\<close> \<open>after < q\<close> show "q \<in> set (map r_seq ?xs)" by force
  qed auto
  ultimately have keys: "sorted_list_of_set {q \<in> dom S. after < q} = map r_seq ?xs" by simp
  have inj: "inj_on r_seq (set rows)" using sorted unfolding strict_sorted_iff by (simp add: distinct_map)
  have "good_push X C hk D r (the (S (r_seq r)))" if "r \<in> set ?xs" for r
  proof -
    from that obtain p where p: "S (r_seq r) = Some p" "r \<in> set rows" by auto
    with mir obtain x where x: "x \<in> set rows" "r_seq x = r_seq r" "good_push X C hk D x p"
      unfolding mirrors_def by blast
    with inj p(2) have "x = r" by (auto dest: inj_onD)
    with x(3) p(1) show ?thesis by simp
  qed
  then have "list_all2 (\<lambda>r q. good_push X C hk D r (the (S q))) ?xs (map r_seq ?xs)"
    unfolding list_all2_map2 by (rule list.rel_refl_strong)
  then show ?thesis by (simp add: records_after_def keys list_all2_map2 list_all2_map1)
qed

lemma uploaded_good:
  assumes "bucket (K :: 'b hist_kv)" and inv: "push_inv streams deks valid X C hk K g mark"
    and all: "\<forall>r \<in> set (stream K (rg_store g)). r_seq r \<le> mark"
    and r: "r \<in> set (stream K (rg_store g))" "pushable (rg_sync g) r"
  shows "\<exists>p. streams (rg_world g) (sy_device (rg_sync g)) (r_seq r) = Some p \<and>
    good_push X C hk (deks (rg_world g)) r p"
proof -
  let ?S = "streams (rg_world g) (sy_device (rg_sync g))"
  from inv have mir: "mirrors X C hk (deks (rg_world g)) ?S (stream K (rg_store g))"
    and up: "uploaded (rg_sync g) ?S (stream K (rg_store g)) mark" and ok: "store_ok K (rg_store g)"
    unfolding push_inv_def by blast+
  from up all r obtain p where p: "?S (r_seq r) = Some p" unfolding uploaded_def by blast
  with mir obtain x where x: "x \<in> set (stream K (rg_store g))" "r_seq x = r_seq r"
      "good_push X C hk (deks (rg_world g)) x p" unfolding mirrors_def by blast
  have "inj_on r_seq (set (stream K (rg_store g)))"
    using history_bucket.stream_sorted [OF hist_of_bucket [OF assms(1)] ok] unfolding strict_sorted_iff
    by (simp add: distinct_map)
  with x r(1) have "x = r" by (auto dest: inj_onD)
  with x(3) p show ?thesis by blast
qed

lemma records_after_count: "finite (dom S) \<Longrightarrow> length (records_after S after) \<le> card (dom S)"
  by (simp add: records_after_def card_mono Collect_mono)

context sync_server
begin

lemma pull_open_ok:
  assumes g: "valid (rg_world g)" "cache_ok X hk (deks (rg_world g)) (rg_sync g)"
      "sy_hk (rg_sync g) = Some (hk, v)"
    and C: "codec_ok C" and mir: "mirrors X C hk (deks (rg_world g)) (streams (rg_world g) host) rows"
    and rows: "sorted_wrt (<) (map r_seq rows)" "\<forall>r \<in> set rows. json_rec r = r \<and> r_host_id r = host"
    and after: "after \<noteq> - 1" and fuel: "card (dom (streams (rg_world g) host)) < fuel" "card (dom (deks (rg_world g))) < fuel"
  shows "\<exists>g1 r. pull_pages fuel A host after [] g = (g1, Some r) \<and> net_only r \<and>
    (\<forall>prs a. r = Inr (prs, a) \<longrightarrow>
      (\<exists>g2 s. open_records fuel X C A host prs g1 = (g2, Some s) \<and> net_only s \<and>
        (\<forall>ys. s = Inr ys \<longrightarrow> map shared ys =
          map shared (filter (\<lambda>r. streams (rg_world g) host (r_seq r) \<noteq> None \<and> after < r_seq r) rows))))"
proof -
  let ?S = "streams (rg_world g) host"
  define xs where "xs = filter (\<lambda>r. ?S (r_seq r) \<noteq> None \<and> after < r_seq r) rows"
  have "length (records_after ?S after) < fuel"
    using records_after_count [OF finite_streams [OF g(1)]] fuel(1) le_less_trans by blast
  from pull_pages_ok [where out = "[]", OF g(1) after this] obtain g1 r where
    g1: "pull_pages fuel A host after [] g = (g1, Some r)" "still (rg_world g) (rg_world g1)"
      "rg_sync g1 = rg_sync g" "net_only r"
    and prs: "\<And>prs a. r = Inr (prs, a) \<Longrightarrow> map pulled_as prs = records_after ?S after"
    by auto
  have "\<exists>g2 s. open_records fuel X C A host prs g1 = (g2, Some s) \<and> net_only s \<and>
      (\<forall>ys. s = Inr ys \<longrightarrow> map shared ys = map shared xs)" if "r = Inr (prs, a)" for prs a
  proof -
    have "list_all2 (good_push X C hk (deks (rg_world g))) xs (map pulled_as prs)"
      unfolding xs_def prs [OF that] by (rule mirrored_rows [OF rows(1) mir])
    then have good: "list_all2 (\<lambda>x pr. good_push X C hk (deks (rg_world g1)) x (pulled_as pr)) xs prs"
      using g1(2) by (simp add: list_all2_map2 still_def)
    show ?thesis
    proof (cases "prs = []")
      case True
      with good show ?thesis by (auto simp: open_records_def net_only_def)
    next
      case False
      have hk: "resolve_hk X A g1 = (g1, Inr (hk, v))"
        using g(3) g1(3) by (simp add: resolve_hk_def with_sync_def give_def)
      have v1: "valid (rg_world g1)" "cache_ok X hk (deks (rg_world g1)) (rg_sync g1)" "card (dom (deks (rg_world g1))) < fuel"
        using g1(2,3) g(2) fuel(2) by (simp_all add: still_def)
      have "\<forall>x \<in> set xs. json_rec x = x \<and> r_host_id x = host" using rows(2) by (auto simp: xs_def)
      from open_each_ok [OF v1 C good this] False hk show ?thesis by (auto simp: open_records_def)
    qed
  qed
  with g1(1,4) show ?thesis unfolding xs_def by blast
qed

end


subsection \<open>A machine\<close>

definition sync_row :: hrec where
  "sync_row = zero_rec\<lparr>r_id := ''a'', r_seq := 1, r_cmd := ''ls'', r_host_id := ''h''\<rparr>"

definition sync_store :: "hrec blob log_bucket store" where
  "sync_store = \<lparr>st_history = ([(seq_key 1, Doc sync_row)], 1), st_ids = ([(''a'', Raw (seq_key 1))], 0),
     st_meta = ([], 0), st_host_id = ''h'', st_hostname = ''box'', st_schema = 1\<rparr>"

definition empty_store :: "string \<Rightarrow> hrec blob log_bucket store" where
  "empty_store host = \<lparr>st_history = ([], 0), st_ids = ([], 0), st_meta = ([], 0), st_host_id = host,
     st_hostname = ''box'', st_schema = 1\<rparr>"

definition no_key :: device_key where
  "no_key = \<lparr>kx_priv = [], kx_pub = [], kx_seed = [], kx_sign_priv = [], kx_sign_pub = []\<rparr>"

definition demo_hk :: key where "demo_hk = replicate 32 CHR ''H''"

definition demo_rig ::
  "hrec blob log_bucket store \<Rightarrow> (doc blob log_bucket log_bucket, doc blob log_bucket) world
    \<Rightarrow> ((doc blob log_bucket log_bucket, doc blob log_bucket) world, hrec blob log_bucket) rig" where
  "demo_rig st w = \<lparr>rg_world = w, rg_sync = (new_syncer st no_key 1000000000)\<lparr>sy_hk := Some (demo_hk, 1)\<rparr>,
     rg_store = st\<rparr>"


lemma sync_store_ok: "store_ok log_kv sync_store" "stream log_kv sync_store = [sync_row]"
proof -
  have row: "Doc sync_row = Doc sync_row \<and> seq_key 1 = seq_key (r_seq sync_row) \<and> 0 < r_seq sync_row \<and>
      r_seq sync_row \<le> 1 \<and> r_id sync_row = ''a''"
    by (simp add: sync_row_def)
  then show "store_ok log_kv sync_store"
    unfolding store_ok_def
    by (intro conjI allI impI exI [of _ sync_row])
      (auto simp: sync_store_def log_kv_def ascii_id ascii_byte_def byte_def split: if_splits)
  show "stream log_kv sync_store = [sync_row]"
    by (simp add: sync_store_def log_kv_def stream_def log_items_def)
qed

lemma sync_row_sel [simp]: "r_seq sync_row = 1" "r_host_id sync_row = ''h''" "json_rec sync_row = sync_row"
    "r_type sync_row = []"
  by (simp_all add: sync_row_def zero_rec_def json_rec_def ascii_id ascii_byte_def byte_def json_str_ascii)

lemma demo_one: "one_tenant ''default'' group_tdb (wo_server demo_world)"
  by (simp add: one_tenant_def demo_world_def)

lemma demo_env_sel [simp]: "en_kv (hc_env demo_client) = log_kv" "en_root (hc_env demo_client) = log_kv"
  by (simp_all add: demo_client_def demo_env_def)

lemma group_tdb_sel [simp]:
  "kv_get log_kv (td_streams group_tdb) k = None" "kv_get log_kv (td_dek_wraps group_tdb) k = None"
  by (simp_all add: group_tdb_def set_hk_version_def empty_tdb_def Let_def)

lemma group_devices: "devices_ok log_kv (td_devices group_tdb)"
  by (auto simp: devices_ok_def group_tdb_def set_hk_version_def empty_tdb_def Let_def demo_machine_def json_device_def
      ascii_id ascii_byte_def byte_def split: if_splits)

lemma demo_db_ok: "db_ok log_kv log_kv group_tdb"
  using group_devices by (simp add: db_ok_def deks_ok_def)

lemma demo_world_ok:
  "world_ok demo_client demo_world" "world_streams demo_client demo_world h = Map.empty"
  "world_deks demo_client demo_world = Map.empty"
  using world_after [OF demo_one, of demo_client] demo_db_ok
  by (simp_all add: db_stream_def db_deks_def bucket_deks_def fun_eq_iff)

lemma demo_host: "json_str ''h'' = ''h''"
  by (simp add: ascii_id ascii_byte_def byte_def)

lemma demo_push_inv:
  "push_inv (world_streams demo_client) (world_deks demo_client) (world_ok demo_client) demo_box field_codec demo_hk
    log_kv (demo_rig sync_store demo_world) 0"
  "marked log_kv (rg_store (demo_rig sync_store demo_world)) 0"
  by (simp_all add: push_inv_def demo_rig_def demo_world_ok keys_ok_def mirrors_def uploaded_def new_syncer_def
      sync_store_ok demo_host marked_def store_meta_def)
    (simp_all add: sync_store_def demo_host log_kv_def)

lemma field_codec_ok: "codec_ok field_codec"
proof -
  have "get_payload (put_payload p) = json_payload p" for p
    by (simp add: get_payload_def put_payload_def json_payload_def Let_def)
  then show ?thesis by (simp add: codec_ok_def field_codec_def)
qed



text \<open>A server that already holds the row, sealed under the data key \<open>k\<close>.\<close>

definition demo_dek :: key where "demo_dek = replicate 32 CHR ''D''"

definition demo_wrap_k :: dek_wrap where
  "demo_wrap_k = \<lparr>dk_key_id = ''k'', dk_device_id = ''h'', dk_epoch = 0,
     dk_blob = wrap_dek demo_box (replicate 24 CHR ''n'') demo_dek demo_hk ''k'' ''h'' 0 1, dk_hk_version = 1\<rparr>"

definition demo_blob :: string where
  "demo_blob = seal_record demo_box (replicate 24 CHR ''n'') (marshal_payload field_codec sync_row) demo_dek
     (aad_of sync_row ''k'')"

definition full_stream :: "doc blob log_bucket" where
  "full_stream = kv_put log_kv (kv_empty log_kv) (seq_key 1)
     (Doc (DRecord \<lparr>sr_id = ''a'', sr_key_id = ''k'', sr_blob = demo_blob, sr_created_ms = 1\<rparr>))"

definition full_tdb :: "(doc blob log_bucket log_bucket, doc blob log_bucket) tdb" where
  "full_tdb = group_tdb
    \<lparr>td_dek_wraps := kv_put log_kv (kv_empty log_kv) ''k'' (Doc (DDek demo_wrap_k)),
     td_streams := kv_put log_kv (kv_empty log_kv) (records_prefix @ ''h'') full_stream\<rparr>"

definition full_world :: "(doc blob log_bucket log_bucket, doc blob log_bucket) world" where
  "full_world = demo_world\<lparr>wo_server := (wo_server demo_world)\<lparr>sv_tenants := [(''default'', full_tdb)]\<rparr>\<rparr>"

lemma json_letter: "json_str ''a'' = ''a''" "json_str ''k'' = ''k''" "json_str ''h'' = ''h''"
  by (simp_all add: ascii_id ascii_byte_def byte_def)

lemma full_stream_get: "kv_get log_kv full_stream k = (if k = seq_key 1 then
    Some (Doc (DRecord \<lparr>sr_id = ''a'', sr_key_id = ''k'', sr_blob = demo_blob, sr_created_ms = 1\<rparr>)) else None)"
  by (simp add: full_stream_def)

lemma full_db_ok: "db_ok log_kv log_kv full_tdb"
proof -
  have "stream_ok log_kv full_stream" "rows_json log_kv full_stream"
    by (auto simp: stream_ok_def rows_json_def full_stream_get json_record_def json_letter split: if_splits)
  moreover have "deks_ok log_kv (td_dek_wraps full_tdb)"
    by (auto simp: full_tdb_def deks_ok_def json_dek_def demo_wrap_k_def json_letter split: if_splits)
  moreover have "devices_ok log_kv (td_devices full_tdb)" using group_devices by (simp add: full_tdb_def)
  ultimately show ?thesis by (auto simp: db_ok_def full_tdb_def split: if_splits)
qed

lemma full_one: "one_tenant ''default'' full_tdb (wo_server full_world)"
  by (simp add: one_tenant_def full_world_def demo_world_def)

lemma full_world_sel:
  "world_ok demo_client full_world" "world_deks demo_client full_world = [''k'' \<mapsto> demo_wrap_k]"
  "world_streams demo_client full_world ''h'' =
    [1 \<mapsto> \<lparr>ps_seq = 1, ps_id = ''a'', ps_key_id = ''k'', ps_blob = demo_blob\<rparr>]"
proof -
  note after = world_after [OF full_one, of demo_client, unfolded demo_env_sel, OF full_db_ok]
  show "world_ok demo_client full_world" by (rule after)
  show "world_deks demo_client full_world = [''k'' \<mapsto> demo_wrap_k]"
    unfolding after by (auto simp: db_deks_def bucket_deks_def full_tdb_def fun_eq_iff)
  show "world_streams demo_client full_world ''h'' =
    [1 \<mapsto> \<lparr>ps_seq = 1, ps_id = ''a'', ps_key_id = ''k'', ps_blob = demo_blob\<rparr>]"
    unfolding after by (auto simp: db_stream_def bucket_stream_def full_tdb_def full_stream_get fun_eq_iff)
qed

lemma full_good:
  "good_push demo_box field_codec demo_hk [''k'' \<mapsto> demo_wrap_k] sync_row
    \<lparr>ps_seq = 1, ps_id = ''a'', ps_key_id = ''k'', ps_blob = demo_blob\<rparr>"
proof -
  have "holds_key demo_box demo_hk [''k'' \<mapsto> demo_wrap_k] ''k'' demo_dek"
    unfolding holds_key_def using demo_box.unwrap_wrap_dek [of "replicate 24 CHR ''n''" demo_dek]
    by (simp add: demo_wrap_k_def demo_dek_def)
  moreover have "open_record demo_box demo_blob demo_dek (aad_of sync_row ''k'') = Inr (marshal_payload field_codec sync_row)"
    using demo_box.open_record_seal [of "replicate 24 CHR ''n''"] by (simp add: demo_blob_def)
  moreover have "r_id sync_row = ''a''" by (simp add: sync_row_def)
  ultimately show ?thesis by (auto simp: good_push_def json_letter)
qed


subsection \<open>Properties\<close>

text \<open>C2 A push ends and loses nothing: whatever requests and answers are lost, it returns; the server's stream
  for this host still holds only sealings of this host's rows under keys the group's History Key opens;
  the recorded watermark never runs ahead of what the server holds; and when no error is reported, every
  row to be synced is on the server and opens to itself.\<close>

theorem push_uploads:
  assumes "client_ok c" and "sealed_box X" and K: "bucket (K :: 'b hist_kv)"
    and "\<forall>g1 k v. resolve_hk X (http_api c) g = (g1, Inr (k, v)) \<longrightarrow> k = hk"
    and "push_inv (world_streams c) (world_deks c) (world_ok c) X C hk K g mark" and "marked K (rg_store g) mark"
    and "length (stream K (rg_store g)) < fuel"
  shows "\<exists>g' n err mark'. push fuel X C K (http_api c) g = (g', Some (n, err)) \<and>
    push_inv (world_streams c) (world_deks c) (world_ok c) X C hk K g' mark' \<and> marked K (rg_store g') mark' \<and>
    stream K (rg_store g') = stream K (rg_store g) \<and>
    (err = None \<longrightarrow> (\<forall>r \<in> set (stream K (rg_store g)). pushable (rg_sync g) r \<longrightarrow>
      (\<exists>p. world_streams c (rg_world g') (sy_device (rg_sync g)) (r_seq r) = Some p \<and>
        good_push X C hk (world_deks c (rg_world g')) r p)))"
proof -
  from sync_server.push_ok [OF http_sync_server [OF assms(1)] assms(2) K _ assms(5-7)] assms(4)
  obtain g' n err mark' where g': "push fuel X C K (http_api c) g = (g', Some (n, err))"
      "push_inv (world_streams c) (world_deks c) (world_ok c) X C hk K g' mark'" "marked K (rg_store g') mark'"
      "sy_device (rg_sync g') = sy_device (rg_sync g)" "sy_sync_prompts (rg_sync g') = sy_sync_prompts (rg_sync g)"
      "stream K (rg_store g') = stream K (rg_store g)"
    and all: "err = None \<longrightarrow> (\<forall>x \<in> set (stream K (rg_store g)). r_seq x \<le> mark')" by blast
  have "pushable (rg_sync g') r = pushable (rg_sync g) r" for r using g'(5) by (simp add: pushable_def)
  with uploaded_good [OF K g'(2)] all g' show ?thesis by fastforce
qed

lemma push_uploads_witness:
  "\<exists>g' n err mark'. push 2 demo_box field_codec log_kv (http_api demo_client) (demo_rig sync_store demo_world) =
      (g', Some (n, err)) \<and> marked log_kv (rg_store g') mark' \<and>
    (err = None \<longrightarrow> world_streams demo_client (rg_world g') ''h'' 1 \<noteq> None)"
proof -
  let ?g = "demo_rig sync_store demo_world"
  have hk: "\<forall>g1 k v. resolve_hk demo_box (http_api demo_client) ?g = (g1, Inr (k, v)) \<longrightarrow> k = demo_hk"
    by (simp add: resolve_hk_def with_sync_def demo_rig_def give_def)
  have row: "stream log_kv (rg_store ?g) = [sync_row]" "sy_device (rg_sync ?g) = ''h''" "pushable (rg_sync ?g) sync_row"
    using sync_store_ok by (simp_all add: demo_rig_def new_syncer_def sync_store_def pushable_def type_prompt_def)
  then have "length (stream log_kv (rg_store ?g)) < 2" by simp
  from push_uploads [OF demo_client_ok demo_box.sealed_box_axioms log.bucket_axioms hk demo_push_inv this] row
  show ?thesis by fastforce
qed

text \<open>C3 A pull delivers: another machine that reads a host's stream from a cursor and opens what it read gets,
  unless the network fails, exactly the rows of that host the server holds after the cursor, in order,
  each equal to the original in every field a machine shares; decryption never fails.\<close>

theorem pull_delivers:
  assumes "client_ok c" and "codec_ok C" and "world_ok c (rg_world g)"
    and "cache_ok X hk (world_deks c (rg_world g)) (rg_sync g)" and "sy_hk (rg_sync g) = Some (hk, v)"
    and "mirrors X C hk (world_deks c (rg_world g)) (world_streams c (rg_world g) host) rows"
    and "sorted_wrt (<) (map r_seq rows)" and "\<forall>r \<in> set rows. json_rec r = r \<and> r_host_id r = host"
    and "after \<noteq> - 1" and "card (dom (world_streams c (rg_world g) host)) < fuel"
    and "card (dom (world_deks c (rg_world g))) < fuel"
  shows "\<exists>g1 r. pull_pages fuel (http_api c) host after [] g = (g1, Some r) \<and> net_only r \<and>
    (\<forall>prs a. r = Inr (prs, a) \<longrightarrow>
      (\<exists>g2 s. open_records fuel X C (http_api c) host prs g1 = (g2, Some s) \<and> net_only s \<and>
        (\<forall>ys. s = Inr ys \<longrightarrow> map shared ys = map shared
          (filter (\<lambda>r. world_streams c (rg_world g) host (r_seq r) \<noteq> None \<and> after < r_seq r) rows))))"
  by (rule sync_server.pull_open_ok [OF http_sync_server [OF assms(1)] assms(3-5,2,6-11)])


lemma pull_delivers_witness:
  "\<exists>g1 r. pull_pages 3 (http_api demo_client) ''h'' 0 [] (demo_rig (empty_store ''g'') full_world) = (g1, Some r) \<and>
    (\<forall>prs a. r = Inr (prs, a) \<longrightarrow>
      (\<exists>g2 s. open_records 3 demo_box field_codec (http_api demo_client) ''h'' prs g1 = (g2, Some s) \<and>
        (\<forall>ys. s = Inr ys \<longrightarrow> map shared ys = [shared sync_row])))"
proof -
  let ?g = "demo_rig (empty_store ''g'') full_world"
  have world: "rg_world ?g = full_world" "sy_hk (rg_sync ?g) = Some (demo_hk, 1)" by (simp_all add: demo_rig_def)
  have cache: "cache_ok demo_box demo_hk (world_deks demo_client (rg_world ?g)) (rg_sync ?g)"
    by (simp add: cache_ok_def demo_rig_def new_syncer_def)
  have mir: "mirrors demo_box field_codec demo_hk (world_deks demo_client (rg_world ?g))
      (world_streams demo_client (rg_world ?g) ''h'') [sync_row]"
    using full_good by (simp add: mirrors_def world full_world_sel)
  have "card (dom (world_streams demo_client (rg_world ?g) ''h'')) < 3" "card (dom (world_deks demo_client (rg_world ?g))) < 3"
    by (simp_all add: world full_world_sel)
  from pull_delivers [OF demo_client_ok field_codec_ok _ cache world(2) mir _ _ _ this, of 0] show ?thesis
    by (fastforce simp: world full_world_sel)
qed

end
