(* ===== verification/Sync_Online.thy ===== *)
theory Sync_Online
  imports Sync_Live Sync_Flow
begin

text \<open>
  The HTTP client succeeds when it is \<open>online\<close>: no request or answer is lost from now on, the clocks agree
  to within the window, nonces are fresh, and the device is active under the key it signs with. Then
  nothing is refused but a body beyond the server's limit, and synchronisation is complete.
\<close>

definition good_tick :: "tick \<Rightarrow> bool" where
  "good_tick t \<longleftrightarrow> tk_fate t = Delivered \<and> tk_nonce t \<noteq> [] \<and> int64 (unix_seconds (tk_client t)) \<and>
     \<bar>tk_server t - unix_seconds (tk_client t) * second\<bar> \<le> skew"

definition enrolled :: "('r, 'b) client \<Rightarrow> ('r, 'b) tdb \<Rightarrow> bool" where
  "enrolled c db \<longleftrightarrow> hc_device c \<noteq> [] \<and>
     (\<exists>d f. kv_get (en_kv (hc_env c)) (td_devices db) (hc_device c) = Some (Doc (DDevice d)) \<and>
        dv_status d = device_active \<and> length (dv_sign_key d) = 32 \<and> hc_sign c = Some f \<and>
        (\<forall>m. f m \<noteq> [] \<and> cr_verify (en_crypto (hc_env c)) (dv_sign_key d) m (f m)))"

definition fresh_nonces :: "('r, 'b) client \<Rightarrow> ('r, 'b) world \<Rightarrow> bool" where
  "fresh_nonces c w \<longleftrightarrow> (\<forall>k \<ge> wo_now w. good_tick (wo_ticks w k) \<and>
     sv_nonces (wo_server w) (nonce_key (hc_device c) (b64_encode (tk_nonce (wo_ticks w k)))) = None \<and>
     (\<forall>j \<ge> wo_now w. tk_nonce (wo_ticks w j) = tk_nonce (wo_ticks w k) \<longrightarrow> j = k))"

definition online :: "('r, 'b) client \<Rightarrow> ('r, 'b) world \<Rightarrow> bool" where
  "online c w \<longleftrightarrow> enrolled c (sole_db w) \<and> fresh_nonces c w"

definition world_version :: "('r, 'b) client \<Rightarrow> ('r, 'b) world \<Rightarrow> int" where
  "world_version c w = get_hk_version (en_kv (hc_env c)) (sole_db w)"

lemma b64_inject: "b64_encode a = b64_encode b \<Longrightarrow> a = b"
  using b64_round_trip by (metis option.inject)

lemma route_one:
  assumes "one_tenant n db s" and "kv_get (en_kv E) (td_devices db) (hd_device (hq_headers rq)) \<noteq> None"
    and "hd_device (hq_headers rq) \<noteq> []" and "\<not> is_enroll_path rq" and "\<not> is_recovery_path rq"
  obtains s1 where "route_tenant E now rq s = (s1, Some n)" and "one_tenant n db s1" and "sv_nonces s1 = sv_nonces s"
proof (cases "sv_route s (hd_device (hq_headers rq))")
  case None
  let ?s = "s\<lparr>sv_route := (sv_route s)(hd_device (hq_headers rq) \<mapsto> n)\<rparr>"
  have "route_tenant E now rq s = (?s, Some n)"
    using None assms by (auto simp: route_tenant_def tenant_for_device_def one_tenant_def holds_device_def)
  moreover have "one_tenant n db ?s" using assms(1) by (simp add: one_tenant_def)
  ultimately show ?thesis using that [of ?s] by simp
next
  case (Some t)
  with assms(1) have "t = n" by (simp add: one_tenant_def)
  with Some assms that [of s] show ?thesis by (simp add: route_tenant_def tenant_for_device_def)
qed

lemma require_fresh:
  assumes dev: "kv_get (en_kv E) (td_devices db) (hd_device (hq_headers rq)) = Some (Doc (DDevice d))"
      "dv_status d = device_active" "hd_device (hq_headers rq) \<noteq> []"
    and sig: "verify_request (en_crypto E) (hq_headers rq) (hq_method rq) (hq_target rq) (hq_body rq) (dv_sign_key d) now = None"
    and fresh: "sv_nonces s (nonce_key (hd_device (hq_headers rq)) (hd_nonce (hq_headers rq))) = None"
  shows "require_signature E now rq db None s = (s\<lparr>sv_nonces := (sweep now (sv_nonces s))
    (nonce_key (hd_device (hq_headers rq)) (hd_nonce (hq_headers rq)) \<mapsto> now)\<rparr>, None)"
proof -
  have "sweep now (sv_nonces s) (nonce_key (hd_device (hq_headers rq)) (hd_nonce (hq_headers rq))) = None"
    using fresh by (simp add: sweep_def)
  with dev sig show ?thesis by (simp add: require_signature_def check_and_record_def Let_def)
qed

text \<open>An online call is served: the body is too large, or the handler's body runs on the tenant.\<close>

lemma online_call:
  assumes run: "client_do c a expect w = (w', r)" and one: "one_tenant n db (wo_server w)" and on: "online c w"
    and mux: "\<And>t. mux_endpoint (call_request c t a) = Inr e"
    and path: "\<not> is_open_path (ca_path a)" "\<And>t. \<not> is_enroll_path (call_request c t a)"
      "\<And>t. \<not> is_recovery_path (call_request c t a)"
    and body: "\<And>now rnd rq s. run_endpoint (hc_env c) now rnd e rq n db s =
      with_signature (hc_env c) now rq db None s (k now rq)"
  obtains (large) "max_body < length (ca_body a)" and "\<exists>x. r = Inl x \<and> too_large x" and "one_tenant n db (wo_server w')"
      and "online c w'"
    | (served) s1 now t rp where "k now (call_request c t a) s1 = (wo_server w', rp)" and "r = answer expect rp"
      and "one_tenant n db s1"
      and "\<And>db'. one_tenant n db' (wo_server w') \<Longrightarrow> td_devices db' = td_devices db \<Longrightarrow>
        sv_nonces (wo_server w') = sv_nonces s1 \<Longrightarrow> online c w'"
proof -
  define t where "t = wo_ticks w (wo_now w)"
  let ?rq = "call_request c t a" and ?E = "hc_env c"
  have db: "sole_db w = db" by (rule world_one [OF one])
  from on obtain d f where d: "kv_get (en_kv ?E) (td_devices db) (hc_device c) = Some (Doc (DDevice d))"
      "dv_status d = device_active" "length (dv_sign_key d) = 32" "hc_sign c = Some f" "hc_device c \<noteq> []"
    and f: "\<And>m. f m \<noteq> []" "\<And>m. cr_verify (en_crypto ?E) (dv_sign_key d) m (f m)"
    unfolding online_def enrolled_def db by blast
  from on have now: "good_tick t" and fresh: "sv_nonces (wo_server w) (nonce_key (hc_device c) (b64_encode (tk_nonce t))) = None"
    unfolding online_def fresh_nonces_def t_def by blast+
  have hdr: "hq_headers ?rq = (sign_request (en_crypto ?E) f (tk_nonce t) (hc_device c) (ca_method a) (call_target a)
      (ca_body a) (tk_client t))\<lparr>hd_token := ca_token a\<rparr>"
    by (simp add: call_request_def d(4))
  have id: "hd_device (hq_headers ?rq) = hc_device c" "hd_nonce (hq_headers ?rq) = b64_encode (tk_nonce t)"
    by (simp_all add: hdr sign_request_def Let_def)
  have sig: "verify_request (en_crypto ?E) (hq_headers ?rq) (hq_method ?rq) (hq_target ?rq) (hq_body ?rq) (dv_sign_key d) (tk_server t) = None"
    using sign_verify [OF f(2,1) d(3)] now
    by (simp add: hdr verify_ignores call_request_def d(4) good_tick_def)
  obtain s0 where s0: "route_tenant ?E (tk_server t) ?rq (wo_server w) = (s0, Some n)" "one_tenant n db s0"
      "sv_nonces s0 = sv_nonces (wo_server w)"
    by (rule route_one [OF one _ _ path(2,3), of ?E t "tk_server t"]) (simp_all add: id d)
  obtain s' rp where s': "serve ?E (tk_server t) (tk_rnd t) (tk_fails t) ?rq (wo_server w) = (s', rp)" by fastforce
  have fate: "tk_fate t = Delivered" using now by (simp add: good_tick_def)
  from run s' have w': "w' = w\<lparr>wo_now := wo_now w + 1, wo_server := s'\<rparr>" and r: "r = answer expect rp"
    by (auto simp: client_do_def Let_def t_def [symmetric] fate)
  have find: "find_db s0 n = Some db" using s0(2) by (simp add: find_db_def one_tenant_def)
  have open': "\<not> is_open_path (hq_path ?rq)" using path(1) by (simp add: call_request_def)
  from s' have ran: "with_signature ?E (tk_server t) ?rq db None s0 (k (tk_server t) ?rq) = (s', rp)"
    using s0(1) find open' mux by (simp add: serve_def body)
  have later: "fresh_nonces c w'" if "\<And>x. sv_nonces s' x = None \<or> x = nonce_key (hc_device c) (b64_encode (tk_nonce t)) \<or>
      sv_nonces (wo_server w) x \<noteq> None"
    unfolding fresh_nonces_def
  proof (intro allI impI)
    fix m assume "wo_now w' \<le> m"
    then have m: "wo_now w \<le> m" "m \<noteq> wo_now w" by (simp_all add: w')
    with on have tick: "good_tick (wo_ticks w m)"
        "sv_nonces (wo_server w) (nonce_key (hc_device c) (b64_encode (tk_nonce (wo_ticks w m)))) = None"
        "\<And>j. wo_now w \<le> j \<Longrightarrow> tk_nonce (wo_ticks w j) = tk_nonce (wo_ticks w m) \<Longrightarrow> j = m"
      unfolding online_def fresh_nonces_def by blast+
    from tick(3) [of "wo_now w"] m have "tk_nonce (wo_ticks w m) \<noteq> tk_nonce t" by (auto simp: t_def)
    then have "nonce_key (hc_device c) (b64_encode (tk_nonce (wo_ticks w m))) \<noteq> nonce_key (hc_device c) (b64_encode (tk_nonce t))"
      by (auto simp: nonce_key_def dest: b64_inject)
    with that tick(2) have "sv_nonces s' (nonce_key (hc_device c) (b64_encode (tk_nonce (wo_ticks w m)))) = None" by blast
    with tick(1,3) show "good_tick (wo_ticks w' m) \<and>
        sv_nonces (wo_server w') (nonce_key (hc_device c) (b64_encode (tk_nonce (wo_ticks w' m)))) = None \<and>
        (\<forall>j \<ge> wo_now w'. tk_nonce (wo_ticks w' j) = tk_nonce (wo_ticks w' m) \<longrightarrow> j = m)"
      by (simp add: w')
  qed
  have enr: "enrolled c (sole_db w')" if "one_tenant n db' (wo_server w')" "td_devices db' = td_devices db" for db'
    using world_one [OF that(1)] that(2) d f by (auto simp: enrolled_def)
  show ?thesis
  proof (cases "max_body < length (ca_body a)")
    case True
    then have "s' = s0" "rp = write_err 413 ''request body exceeds 10485760 bytes''"
      using ran by (simp_all add: with_signature_def read_body_def call_request_def)
    then have "one_tenant n db (wo_server w')" "\<exists>x. r = Inl x \<and> too_large x"
      using s0(2) by (simp_all add: w' r answer_def parse_server_error_def write_err_def reply_def good_status_def too_large_def)
    moreover have "fresh_nonces c w'" by (rule later) (auto simp: s0(3) \<open>s' = s0\<close>)
    with \<open>one_tenant n db (wo_server w')\<close> enr have "online c w'" by (auto simp: online_def)
    ultimately show ?thesis using large True by blast
  next
    case False
    define s1 where "s1 = s0\<lparr>sv_nonces := (sweep (tk_server t) (sv_nonces s0))
      (nonce_key (hc_device c) (b64_encode (tk_nonce t)) \<mapsto> tk_server t)\<rparr>"
    have "require_signature ?E (tk_server t) ?rq db None s0 = (s1, None)"
      using require_fresh [of ?E db ?rq d "tk_server t" s0] d sig fresh s0(3) by (simp add: id s1_def)
    with ran False have k: "k (tk_server t) ?rq s1 = (s', rp)"
      by (simp add: with_signature_def read_body_def call_request_def)
    have "online c w'" if "one_tenant n db' (wo_server w')" "td_devices db' = td_devices db"
      "sv_nonces (wo_server w') = sv_nonces s1" for db'
      using enr [OF that(1,2)] later that(3) s0(3)
      by (fastforce simp: online_def w' s1_def sweep_def split: option.splits if_splits)
    with served [of "tk_server t" t s1 rp] k r s0(2) show ?thesis by (simp add: w' s1_def)
  qed
qed


lemma answer_ok: "good_status rp \<Longrightarrow> expect (rp_body rp) = Some x \<Longrightarrow> answer expect rp = Inr x"
  by (simp add: answer_def)

lemma version_after:
  "one_tenant n db (wo_server w) \<Longrightarrow> world_version c w = get_hk_version (en_kv (hc_env c)) db"
  by (simp add: world_version_def world_one)

lemma version_cong: "td_meta db' = td_meta db \<Longrightarrow> get_hk_version K db' = get_hk_version K db"
  by (simp add: get_hk_version_def)

lemma ascending_sorted: "sorted_wrt (<) (map ps_seq ps) \<Longrightarrow> ascending ps"
  by (auto simp: ascending_def sorted_wrt_iff_nth_less list_all_iff)

lemma push_online:
  assumes C: "client_ok c" and run: "push_records c rq w = (w', r)" and on: "online c w" and ok: "world_ok c w"
    and host: "json_str (pq_host_id rq) = pq_host_id rq" "pq_host_id rq \<noteq> []"
    and recs: "length (pq_records rq) \<le> 1000" "sorted_wrt (<) (map ps_seq (pq_records rq))"
  shows "online c w' \<and> world_version c w' = world_version c w \<and> (\<forall>e. r = Inl e \<longrightarrow> too_large e)"
proof -
  define E where "E = hc_env c"
  from ok obtain n db where one: "one_tenant n db (wo_server w)" by (auto simp: world_ok_def)
  have dec: "jd_push (en_json E) (hq_body (call_request c t (post_call ''/v1/records'' (je_push (hc_enc c) rq)))) =
      Some (json_push_req rq)" for t
    using C by (simp add: client_ok_def E_def call_request_def post_call_def)
  let ?k = "\<lambda>now rq s'. case jd_push (en_json E) (hq_body rq) of
        None \<Rightarrow> (s', malformed)
      | Some p \<Rightarrow>
          if pq_host_id p = [] then (s', write_err 400 ''host_id required'')
          else if max_push_records < length (pq_records p)
          then (s', write_err 400 ''too many records (max 1000)'')
          else if \<not> ascending (pq_records p)
          then (s', write_err 400 ''records must be in strictly ascending seq order'')
          else (case tx_push (en_kv E) (en_root E) db (unix_milli now) p of (db', resp) \<Rightarrow>
            (set_db n db' s', reply 200 (BPush resp)))"
  have "sorted_wrt (<) (map ps_seq (pq_records (json_push_req rq)))"
    using recs(2) by (simp add: json_push_req_def comp_def)
  then have good: "pq_host_id (json_push_req rq) \<noteq> []" "\<not> max_push_records < length (pq_records (json_push_req rq))"
      "ascending (pq_records (json_push_req rq))"
    using host recs(1) ascending_sorted by (simp_all add: json_push_req_def max_push_records_def)
  show ?thesis
  proof (rule online_call [OF run [unfolded push_records_def] one on engine_mux(1), where k = ?k])
    assume "one_tenant n db (wo_server w')" "online c w'" "\<exists>x. r = Inl x \<and> too_large x"
    with one show ?thesis by (auto simp: version_after)
  next
    fix s1 now t rp
    assume k: "?k now (call_request c t (post_call ''/v1/records'' (je_push (hc_enc c) rq))) s1 = (wo_server w', rp)"
      and r: "r = answer as_pushed rp" and s1: "one_tenant n db s1"
      and stays: "\<And>db'. one_tenant n db' (wo_server w') \<Longrightarrow> td_devices db' = td_devices db \<Longrightarrow>
        sv_nonces (wo_server w') = sv_nonces s1 \<Longrightarrow> online c w'"
    obtain db' resp where push: "tx_push (en_kv E) (en_root E) db (unix_milli now) (json_push_req rq) = (db', resp)"
      by fastforce
    with k good have w': "wo_server w' = set_db n db' s1" and rp: "rp = reply 200 (BPush resp)"
      by (simp_all add: dec)
    have one': "one_tenant n db' (wo_server w')" using one_tenant_set [OF s1] w' by simp
    from push_other [OF push] have same: "td_devices db' = td_devices db" "td_meta db' = td_meta db" by auto
    have "online c w'" by (rule stays [OF one' same(1)]) (simp add: w' set_db_def)
    moreover have "r = Inr resp" using r rp by (simp add: answer_def reply_def good_status_def as_pushed_def)
    ultimately show ?thesis using one one' version_cong [OF same(2)] by (simp add: version_after)
  qed (unfold E_def run_endpoint_def handle_push_def, simp_all add: engine_paths open_paths)
qed

lemma upload_online:
  assumes C: "client_ok c" and run: "upload_dek_wraps c ws w = (w', r)" and on: "online c w" and ok: "world_ok c w"
    and ws: "\<forall>d \<in> set ws. json_str (dk_key_id d) \<noteq> [] \<and> json_str (dk_device_id d) \<noteq> [] \<and>
      dk_hk_version d = world_version c w"
  shows "online c w' \<and> world_version c w' = world_version c w \<and> (\<forall>e. r = Inl e \<longrightarrow> too_large e)"
proof -
  define E where "E = hc_env c"
  from ok obtain n db where one: "one_tenant n db (wo_server w)" by (auto simp: world_ok_def)
  have dec: "jd_deks (en_json E) (hq_body (call_request c t (post_call ''/v1/keys/dek'' (je_deks (hc_enc c) ws)))) =
      Some (map json_dek ws)" for t
    using C by (simp add: client_ok_def E_def call_request_def post_call_def)
  let ?k = "\<lambda>now rq s'. case jd_deks (en_json E) (hq_body rq) of
        None \<Rightarrow> (s', malformed)
      | Some dws \<Rightarrow>
          (case tx_post_dek (en_kv E) db dws of
             Inl e \<Rightarrow> (s', write_api_err e)
           | Inr (db', stored) \<Rightarrow> (set_db n db' s', reply 200 (BStored stored)))"
  have "check_deks (get_hk_version (en_kv E) db) (map json_dek ws) = None"
    using ws unfolding version_after [OF one] E_def [symmetric] by (induction ws) (auto simp: json_dek_def)
  moreover obtain b k where "store_deks (en_kv E) (map json_dek ws) (td_dek_wraps db) 0 = (b, k)" by fastforce
  ultimately obtain db' m where post: "tx_post_dek (en_kv E) db (map json_dek ws) = Inr (db', m)"
    by (simp add: tx_post_dek_def)
  show ?thesis
  proof (rule online_call [OF run [unfolded upload_dek_wraps_def] one on engine_mux(5), where k = ?k])
    assume "one_tenant n db (wo_server w')" "online c w'" "\<exists>x. r = Inl x \<and> too_large x"
    with one show ?thesis by (auto simp: version_after)
  next
    fix s1 now t rp
    assume k: "?k now (call_request c t (post_call ''/v1/keys/dek'' (je_deks (hc_enc c) ws))) s1 = (wo_server w', rp)"
      and r: "r = answer as_stored rp" and s1: "one_tenant n db s1"
      and stays: "\<And>db'. one_tenant n db' (wo_server w') \<Longrightarrow> td_devices db' = td_devices db \<Longrightarrow>
        sv_nonces (wo_server w') = sv_nonces s1 \<Longrightarrow> online c w'"
    from k post have w': "wo_server w' = set_db n db' s1" and rp: "rp = reply 200 (BStored m)"
      by (simp_all add: dec)
    have one': "one_tenant n db' (wo_server w')" using one_tenant_set [OF s1] w' by simp
    from post_dek_other [OF post] have same: "td_devices db' = td_devices db" "td_meta db' = td_meta db" by auto
    have "online c w'" by (rule stays [OF one' same(1)]) (simp add: w' set_db_def)
    moreover have "r = Inr m" using r rp by (simp add: answer_def reply_def good_status_def as_stored_def)
    ultimately show ?thesis using one one' version_cong [OF same(2)] by (simp add: version_after)
  qed (unfold E_def run_endpoint_def handle_post_dek_def, simp_all add: engine_paths open_paths)
qed

text \<open>A call that only reads, with an empty body.\<close>

lemma read_online:
  assumes run: "client_do c (get_call p q) expect w = (w', r)" and on: "online c w" and ok: "world_ok c w"
    and mux: "\<And>t. mux_endpoint (call_request c t (get_call p q)) = Inr e"
    and path: "\<not> is_open_path p" "\<And>t. \<not> is_recovery_path (call_request c t (get_call p q))"
    and body: "\<And>now rnd rq n db s. run_endpoint (hc_env c) now rnd e rq n db s =
      with_signature (hc_env c) now rq db None s (\<lambda>s'. (s', f db rq))"
    and good: "\<And>n db t. one_tenant n db (wo_server w) \<Longrightarrow> db_ok (en_kv (hc_env c)) (en_root (hc_env c)) db \<Longrightarrow>
      good_status (f db (call_request c t (get_call p q))) \<and>
      expect (rp_body (f db (call_request c t (get_call p q)))) \<noteq> None"
  shows "online c w' \<and> (\<exists>x. r = Inr x)"
proof -
  from ok obtain n db where one: "one_tenant n db (wo_server w)"
      and db: "db_ok (en_kv (hc_env c)) (en_root (hc_env c)) db" by (auto simp: world_ok_def)
  show ?thesis
  proof (rule online_call [OF run one on mux, where k = "\<lambda>now rq s'. (s', f db rq)"])
    assume "max_body < length (ca_body (get_call p q))"
    then show ?thesis by (simp add: get_call_def)
  next
    fix s1 now t rp
    assume k: "(s1, f db (call_request c t (get_call p q))) = (wo_server w', rp)"
      and r: "r = answer expect rp" and s1: "one_tenant n db s1"
      and stays: "\<And>db'. one_tenant n db' (wo_server w') \<Longrightarrow> td_devices db' = td_devices db \<Longrightarrow>
        sv_nonces (wo_server w') = sv_nonces s1 \<Longrightarrow> online c w'"
    from good [OF one db, of t] k r answer_ok [of rp expect] have "\<exists>x. r = Inr x" by auto
    moreover have "online c w'" using stays [of db] s1 k by simp
    ultimately show ?thesis by blast
  qed (use path body in \<open>simp_all add: engine_paths\<close>)
qed


lemma pull_reply_ok:
  assumes K: "bucket K" and db: "db_ok K R db" and after: "after \<noteq> - 1" and limit: "0 < limit" "limit \<le> 1000"
    and q: "hq_query rq ''after'' = format_uint after" "hq_query rq ''limit'' = nat_digits limit"
  shows "\<exists>resp. pull_reply K R db rq = reply 200 (BPull resp)"
proof -
  have "\<exists>resp. tx_pull K R db (hq_query rq ''host_id'') after limit = Inr resp"
  proof (cases "kv_get R (td_streams db) (records_prefix @ hq_query rq ''host_id'')")
    case None
    then show ?thesis by (simp add: tx_pull_def)
  next
    case (Some b)
    with db have "stream_ok K b" by (auto simp: db_ok_def)
    from tenant_store.tx_pull_ok [OF tenant_of_bucket [OF K] Some this after refl] show ?thesis by blast
  qed
  then show ?thesis by (auto simp: pull_reply_def q parse_uint_format parse_limit_digits limit)
qed

lemma pull_online:
  assumes C: "client_ok c" and run: "pull_records c h after limit w = (w', r)" and on: "online c w" and ok: "world_ok c w"
    and after: "after \<noteq> - 1" and limit: "0 < limit" "limit \<le> 1000"
  shows "online c w' \<and> (\<exists>x. r = Inr x)"
proof (rule read_online [OF run [unfolded pull_records_def] on ok engine_mux(2)])
  fix n db t
  assume db: "db_ok (en_kv (hc_env c)) (en_root (hc_env c)) db"
  let ?rq = "call_request c t (get_call ''/v1/records'' (pull_query h after limit))"
  have "hq_query ?rq ''after'' = format_uint after" "hq_query ?rq ''limit'' = nat_digits limit"
    using limit by (simp_all add: call_request_def get_call_def pull_query_def)
  from pull_reply_ok [OF _ db after limit this] C
  show "good_status (pull_reply (en_kv (hc_env c)) (en_root (hc_env c)) db ?rq) \<and>
      as_pulled (rp_body (pull_reply (en_kv (hc_env c)) (en_root (hc_env c)) db ?rq)) \<noteq> None"
    by (auto simp: client_ok_def as_pulled_def reply_def good_status_def)
qed (simp_all add: engine_paths engine_readers open_paths)

lemma dek_reply_ok:
  assumes K: "bucket K" and db: "db_ok K R db" and limit: "0 < limit" "limit \<le> 1000"
    and q: "hq_query rq ''limit'' = nat_digits limit"
  shows "\<exists>resp. dek_reply K db rq = reply 200 (BDeks resp)"
proof -
  have "deks_ok K (td_dek_wraps db)" using db by (simp add: db_ok_def)
  from tenant_store.list_dek_ok [OF tenant_of_bucket [OF K] this refl]
  have "\<exists>resp. tx_list_dek K db (hq_query rq ''cursor'') limit = Inr resp" by blast
  then show ?thesis by (auto simp: dek_reply_def q parse_limit_digits limit)
qed

lemma list_online:
  assumes C: "client_ok c" and run: "list_dek_wraps c cursor limit w = (w', r)" and on: "online c w" and ok: "world_ok c w"
    and limit: "0 < limit" "limit \<le> 1000"
  shows "online c w' \<and> (\<exists>x. r = Inr x)"
proof (rule read_online [OF run [unfolded list_dek_wraps_def] on ok engine_mux(4)])
  fix n db t
  assume db: "db_ok (en_kv (hc_env c)) (en_root (hc_env c)) db"
  let ?rq = "call_request c t (get_call ''/v1/keys/dek''
    ((if cursor \<noteq> [] then [(''cursor'', cursor)] else []) @ (if 0 < limit then [(''limit'', nat_digits limit)] else [])))"
  have q: "hq_query ?rq ''limit'' = nat_digits limit"
    using limit by (simp add: call_request_def get_call_def)
  have "bucket (en_kv (hc_env c))" using C by (simp add: client_ok_def)
  from dek_reply_ok [OF this db limit q]
  show "good_status (dek_reply (en_kv (hc_env c)) db ?rq) \<and>
      as_deks (rp_body (dek_reply (en_kv (hc_env c)) db ?rq)) \<noteq> None"
    by (auto simp: as_deks_def reply_def good_status_def)
qed (simp_all add: engine_paths engine_readers open_paths)

lemma draw_online:
  "draw_random n w = (w', bs) \<Longrightarrow> online c w \<Longrightarrow> online c w' \<and> world_version c w' = world_version c w"
  by (auto simp: draw_random_def online_def fresh_nonces_def sole_db_def world_version_def)

text \<open>A drawn id is not empty, which \<open>client_online_ok\<close> adds to what the client relies on.\<close>

definition client_online_ok :: "('r, 'b) client \<Rightarrow> bool" where
  "client_online_ok c \<longleftrightarrow> client_ok c \<and> (\<forall>ks. hc_new_id c ks \<noteq> [])"

lemma http_sync_live:
  assumes C: "client_online_ok c"
  shows "sync_live (http_api c) (world_streams c) (world_deks c) (world_ok c) (online c) (world_version c)"
proof -
  from C have ok: "client_ok c" by (simp add: client_online_ok_def)
  show ?thesis
  proof (rule sync_live.intro [OF http_sync_server [OF ok] sync_live_axioms.intro],
      unfold http_api_def api.select_convs, goal_cases)
    case (1 rq w w' r)
    then show ?case using push_online [OF ok] by blast
  next
    case (2 ws w w' ru)
    then show ?case using upload_online [OF ok 2(1-3)] by blast
  next
    case (3 n w w' bs)
    then show ?case using draw_online by blast
  next
    case (4 w w' i)
    then show ?case using C by (auto simp: draw_id_def client_online_ok_def)
  next
    case (5 h after limit w w' rp)
    then show ?case using pull_online [OF ok] by blast
  next
    case (6 cu limit w w' rl)
    then show ?case using list_online [OF ok] by blast
  qed
qed

lemma demo_online_ok: "client_online_ok demo_client"
  using demo_client_ok by (simp add: client_online_ok_def demo_client_def new_key_def)

interpretation http: sync_live "http_api demo_client" "world_streams demo_client" "world_deks demo_client"
  "world_ok demo_client" "online demo_client" "world_version demo_client"
  by (rule http_sync_live) (rule demo_online_ok)



subsection \<open>Properties\<close>

lemma same_server:
  assumes "hc_env cb = hc_env ca" and "wo_server wb = wo_server wa"
  shows "world_ok cb wb = world_ok ca wa" "world_streams cb wb = world_streams ca wa" "world_deks cb wb = world_deks ca wa"
  using assms by (simp_all add: world_ok_def world_streams_def world_deks_def sole_db_def)

text \<open>The two demonstration machines of one group are online.\<close>

definition machine :: "string \<Rightarrow> (doc blob log_bucket log_bucket, doc blob log_bucket) client" where
  "machine d = demo_client\<lparr>hc_device := d\<rparr>"

lemma machine_sel [simp]: "hc_env (machine d) = hc_env demo_client" "hc_device (machine d) = d"
    "hc_sign (machine d) = Some (\<lambda>m. CHR ''s'' # m)" "cr_verify (en_crypto (hc_env demo_client)) = (\<lambda>_ m sg. sg = CHR ''s'' # m)"
  by (simp_all add: machine_def demo_client_def sync_crypto_def)

lemma machine_ok: "client_online_ok (machine d)"
  using demo_online_ok by (simp add: client_online_ok_def client_ok_def machine_def)

lemma machine_online:
  assumes "d = ''g'' \<or> d = ''h''"
  shows "online (machine d) demo_world"
proof -
  have "kv_get log_kv (td_devices group_tdb) d = Some (Doc (DDevice (demo_machine d)))"
    using assms by (auto simp: group_tdb_def Let_def set_hk_version_def)
  then have "enrolled (machine d) (sole_db demo_world)"
    using assms world_one [OF demo_one] by (auto simp: enrolled_def demo_machine_def demo_key_def)
  moreover have "fresh_nonces (machine d) demo_world"
    by (auto simp: fresh_nonces_def demo_world_def good_tick_def unix_seconds_def second_def skew_def int64_def
        simp: nat_digits_inject) (metis nat_digits_head list.distinct(1))
  ultimately show ?thesis by (simp add: online_def)
qed

lemma machine_version: "world_version (machine d) demo_world = 1"
proof -
  have "get_hk_version log_kv group_tdb = get_hk_version log_kv (set_hk_version log_kv (empty_tdb log_kv log_kv) 1)"
    by (rule version_cong) (simp add: group_tdb_def Let_def)
  with tenant_store.hk_version_set [OF tenant_of_bucket [OF log.bucket_axioms], of 1]
  show ?thesis by (simp add: version_after [OF demo_one] int64_def)
qed



end
