(* ===== verification/Enroll.thy ===== *)
theory Enroll
  imports Syncer Http_Client
begin

text \<open>
  \<open>internal/syncer/enroll.go\<close>: how a machine joins a group, forms one, recovers it, admits others and
  revokes them with a rotation of the History Key. The methods of \<open>Syncer\<close> are steps on the \<open>rig\<close> over
  any transport; \<open>RecoverHK\<close>, which changes the signer of the HTTP client, is over the client itself.
\<close>

definition bootstrap_hk_version :: int where "bootstrap_hk_version = 1"

text \<open>\<open>cryptobox.NewHistoryKey\<close>, and \<open>cryptobox.WrapHK\<close> with the bytes it draws.\<close>

definition new_history_key :: "'w api \<Rightarrow> ('w, 'b, key) step" where
  "new_history_key A = draw (ap_random A key_size)"

definition seal_hk :: "cbox \<Rightarrow> 'w api \<Rightarrow> key \<Rightarrow> key \<Rightarrow> ('w, 'b, string) step" where
  "seal_hk X A hk pub =
    andthen (draw (ap_random A key_size)) (\<lambda>eph.
    andthen (draw (ap_random A nonce_size)) (\<lambda>nonce.
    crypto_step (wrap_hk X eph nonce hk pub)))"

text \<open>\<open>H\<close> is sha256.\<close>

definition enroll ::
  "(string \<Rightarrow> string) \<Rightarrow> 'w api \<Rightarrow> string \<Rightarrow> string \<Rightarrow> ('w, 'b, bool \<times> string) step" where
  "enroll H A name token = with_sync (\<lambda>sy.
    andthen (net (ap_register A \<lparr>rq_id = sy_device sy, rq_name = name, rq_pub_key = kx_pub (sy_key sy),
        rq_sign_key = kx_sign_pub (sy_key sy)\<rparr> token)) (\<lambda>resp.
    andthen (crypto_step (public_from_bytes (dv_pub_key (rr_device resp)))) (\<lambda>pub.
    give (rr_group_formed resp, verification_code H pub))))"

text \<open>The recovery key is installed before the device admits itself.\<close>

definition bootstrap ::
  "cbox \<Rightarrow> 'w api \<Rightarrow> recovery_key_set \<Rightarrow> string \<Rightarrow> ('w, 'b, unit) step" where
  "bootstrap X A recovery salt =
    andthen (new_history_key A) (\<lambda>hk.
    andthen (seal_hk X A hk (rk_pub recovery)) (\<lambda>rec_blob.
    andthen (net (ap_init_recovery A \<lparr>ri_salt = salt, ri_pub_key = rk_pub recovery,
        ri_sign_key = rk_sign_pub recovery,
        ri_wrap = \<lparr>hw_device_id = recovery_device_id, hw_blob = rec_blob, hw_hk_version = bootstrap_hk_version\<rparr>\<rparr>)) (\<lambda>_.
    with_sync (\<lambda>sy.
    andthen (seal_hk X A hk (kx_pub (sy_key sy))) (\<lambda>blob.
    andthen (net (ap_activate A (sy_device sy)
        \<lparr>hw_device_id = sy_device sy, hw_blob = blob, hw_hk_version = bootstrap_hk_version\<rparr>)) (\<lambda>_.
    put_sync (set_hk hk bootstrap_hk_version)))))))"

text \<open>
  \<open>RecoverHK\<close> takes the client and gives it back, signing as the recovery identity: \<open>signer\<close> is the signing
  function of a private key. The error of the network or of the cryptography ends it.
\<close>

definition recover_hk ::
  "cbox \<Rightarrow> (rune \<Rightarrow> rune) \<Rightarrow> (string \<Rightarrow> string \<Rightarrow> string) \<Rightarrow> string \<Rightarrow> ('r, 'b) client \<Rightarrow> ('r, 'b) world
    \<Rightarrow> ('r, 'b) client \<times> ('r, 'b) world \<times> (sync_error + key \<times> int)" where
  "recover_hk X up signer phrase c w =
    (case recovery_salt c w of
       (w1, Inl e) \<Rightarrow> (c, w1, Inl (Net e))
     | (w1, Inr salt) \<Rightarrow>
         (case derive_recovery_key X up phrase salt of
            Inl e \<Rightarrow> (c, w1, Inl (Crypto e))
          | Inr rk \<Rightarrow>
              let c' = c\<lparr>hc_device := recovery_device_id, hc_sign := Some (signer (rk_sign_priv rk))\<rparr>
              in case recovery_wrap c' w1 of
                   (w2, Inl e) \<Rightarrow> (c', w2, Inl (Net e))
                 | (w2, Inr wrap) \<Rightarrow>
                     (case unwrap_hk X (hw_blob wrap) (device_key_for rk) of
                        Inl e \<Rightarrow> (c', w2, Inl (Crypto e))
                      | Inr hk \<Rightarrow> (c', w2, Inr (hk, hw_hk_version wrap)))))"

definition adopt_hk :: "key \<Rightarrow> int \<Rightarrow> ('w, 'b, unit) step" where
  "adopt_hk hk version = put_sync (set_hk hk version)"

definition admit ::
  "cbox \<Rightarrow> 'w api \<Rightarrow> key \<Rightarrow> int \<Rightarrow> string \<Rightarrow> key \<Rightarrow> ('w, 'b, unit) step" where
  "admit X A hk version d pub =
    andthen (seal_hk X A hk pub) (\<lambda>blob.
    net (ap_activate A d \<lparr>hw_device_id = d, hw_blob = blob, hw_hk_version = version\<rparr>))"

definition activate_with ::
  "cbox \<Rightarrow> 'w api \<Rightarrow> string \<Rightarrow> key \<Rightarrow> ('w, 'b, unit) step" where
  "activate_with X A d pub = with_sync (\<lambda>sy.
    case sy_hk sy of
      None \<Rightarrow> fail_with NoKeyHeld
    | Some (hk, version) \<Rightarrow> admit X A hk version d pub)"

definition pending_devices :: "'w api \<Rightarrow> ('w, 'b, device list) step" where
  "pending_devices A =
    andthen (net (ap_devices A)) (\<lambda>devs. give (filter (\<lambda>d. dv_status d = device_pending) devs))"

definition find_device :: "'w api \<Rightarrow> string \<Rightarrow> ('w, 'b, device) step" where
  "find_device A i =
    andthen (net (ap_devices A)) (\<lambda>devs.
      case List.find (\<lambda>d. dv_id d = i) devs of
        None \<Rightarrow> fail_with (DeviceNotFound i)
      | Some d \<Rightarrow> give d)"

definition approve :: "cbox \<Rightarrow> 'w api \<Rightarrow> string \<Rightarrow> ('w, 'b, unit) step" where
  "approve X A i =
    andthen (resolve_hk X A) (\<lambda>(hk, version).
    andthen (find_device A i) (\<lambda>target.
    andthen (crypto_step (public_from_bytes (dv_pub_key target))) (\<lambda>pub.
    admit X A hk version i pub)))"


subsection \<open>Revocation\<close>

text \<open>\<open>RecoveryPub\<close>: a 404 says that the group has no recovery key.\<close>

definition recovery_pub :: "'w api \<Rightarrow> 'w \<Rightarrow> 'w \<times> (net_error + string option)" where
  "recovery_pub A w =
    (case ap_recovery_pub A w of
       (w', Inr pub) \<Rightarrow> (w', Inr (Some pub))
     | (w', Inl e) \<Rightarrow> if err_not_found e then (w', Inr None) else (w', Inl e))"

text \<open>\<open>reWrapAllDEKs\<close>: the wraps of a page, and the pages; \<open>fuel\<close> bounds the pages.\<close>

fun rewrap_page ::
  "cbox \<Rightarrow> 'w api \<Rightarrow> key \<Rightarrow> key \<Rightarrow> int \<Rightarrow> int \<Rightarrow> dek_wrap list \<Rightarrow> dek_wrap list \<Rightarrow> ('w, 'b, dek_wrap list) step"
where
  "rewrap_page X A hk_old hk_new v_old v_new [] out = give out"
| "rewrap_page X A hk_old hk_new v_old v_new (w # ws) out =
    andthen (crypto_step (unwrap_dek X (dk_blob w) hk_old (dk_key_id w) (dk_device_id w) (dk_epoch w) v_old)) (\<lambda>dek.
    andthen (draw (ap_random A nonce_size)) (\<lambda>nonce.
    rewrap_page X A hk_old hk_new v_old v_new ws (out @
      [\<lparr>dk_key_id = dk_key_id w, dk_device_id = dk_device_id w, dk_epoch = dk_epoch w,
        dk_blob = wrap_dek X nonce dek hk_new (dk_key_id w) (dk_device_id w) (dk_epoch w) v_new,
        dk_hk_version = v_new\<rparr>])))"

fun rewrap_all ::
  "nat \<Rightarrow> cbox \<Rightarrow> 'w api \<Rightarrow> key \<Rightarrow> key \<Rightarrow> int \<Rightarrow> int \<Rightarrow> string \<Rightarrow> dek_wrap list \<Rightarrow> ('w, 'b) rig
    \<Rightarrow> ('w, 'b) rig \<times> (sync_error + dek_wrap list) option" where
  "rewrap_all 0 X A hk_old hk_new v_old v_new cursor out g = (g, None)"
| "rewrap_all (Suc fuel) X A hk_old hk_new v_old v_new cursor out g =
    (case net (ap_list_dek A cursor dek_page_limit) g of
       (g1, Inl e) \<Rightarrow> (g1, Some (Inl e))
     | (g1, Inr resp) \<Rightarrow>
         (case rewrap_page X A hk_old hk_new v_old v_new (dl_wraps resp) out g1 of
            (g2, Inl e) \<Rightarrow> (g2, Some (Inl e))
          | (g2, Inr out') \<Rightarrow>
              if dl_next_cursor resp = [] then (g2, Some (Inr out'))
              else rewrap_all fuel X A hk_old hk_new v_old v_new (dl_next_cursor resp) out' g2))"

fun wrap_for_devices ::
  "cbox \<Rightarrow> 'w api \<Rightarrow> key \<Rightarrow> int \<Rightarrow> device list \<Rightarrow> hk_wrap list \<Rightarrow> ('w, 'b, hk_wrap list) step" where
  "wrap_for_devices X A hk v [] out = give out"
| "wrap_for_devices X A hk v (d # ds) out =
    (if dv_status d \<noteq> device_active then wrap_for_devices X A hk v ds out
     else andthen (crypto_step (public_from_bytes (dv_pub_key d))) (\<lambda>pub.
          andthen (seal_hk X A hk pub) (\<lambda>blob.
          wrap_for_devices X A hk v ds (out @ [\<lparr>hw_device_id = dv_id d, hw_blob = blob, hw_hk_version = v\<rparr>]))))"

definition wrap_for_recovery ::
  "cbox \<Rightarrow> 'w api \<Rightarrow> key \<Rightarrow> int \<Rightarrow> string option \<Rightarrow> ('w, 'b, hk_wrap option) step" where
  "wrap_for_recovery X A hk v rec =
    (case rec of
       None \<Rightarrow> give None
     | Some b \<Rightarrow>
         andthen (crypto_step (public_from_bytes b)) (\<lambda>pub.
         andthen (seal_hk X A hk pub) (\<lambda>blob.
         give (Some \<lparr>hw_device_id = recovery_device_id, hw_blob = blob, hw_hk_version = v\<rparr>))))"

text \<open>From the re-wrapped data keys on: the wraps of the new key, the rotation, and the switch to it.\<close>

definition rotate_to ::
  "cbox \<Rightarrow> 'w api \<Rightarrow> string option \<Rightarrow> key \<Rightarrow> int \<Rightarrow> dek_wrap list \<Rightarrow> ('w, 'b, unit) step" where
  "rotate_to X A rec hk v dws =
    andthen (net (ap_devices A)) (\<lambda>devs.
    andthen (wrap_for_devices X A hk v devs []) (\<lambda>hws.
    if hws = [] then fail_with NoSurvivors
    else andthen (wrap_for_recovery X A hk v rec) (\<lambda>rw.
         andthen (net (ap_rotate A \<lparr>ro_hk_version = v, ro_hk_wraps = hws, ro_dek_wraps = dws, ro_recovery_wrap = rw\<rparr>)) (\<lambda>_.
         put_sync (set_hk hk v)))))"

text \<open>Up to the re-wrap: the old key, the recovery key, the revocation and the new key.\<close>

definition begin_rotation ::
  "cbox \<Rightarrow> 'w api \<Rightarrow> string \<Rightarrow> ('w, 'b, (key \<times> int) \<times> string option \<times> key) step" where
  "begin_rotation X A i =
    andthen (resolve_hk X A) (\<lambda>old.
    andthen (net (recovery_pub A)) (\<lambda>rec.
    andthen (net (ap_revoke A i)) (\<lambda>_.
    andthen (new_history_key A) (\<lambda>hk.
    give (old, rec, hk)))))"

definition revoke ::
  "nat \<Rightarrow> cbox \<Rightarrow> 'w api \<Rightarrow> string \<Rightarrow> ('w, 'b) rig \<Rightarrow> ('w, 'b) rig \<times> (sync_error + unit) option" where
  "revoke fuel X A i g =
    (case begin_rotation X A i g of
       (g1, Inl e) \<Rightarrow> (g1, Some (Inl e))
     | (g1, Inr ((hk_old, v_old), rec, hk_new)) \<Rightarrow>
         let v_new = wrap64 (v_old + 1)
         in case rewrap_all fuel X A hk_old hk_new v_old v_new [] [] g1 of
              (g2, None) \<Rightarrow> (g2, None)
            | (g2, Some (Inl e)) \<Rightarrow> (g2, Some (Inl e))
            | (g2, Some (Inr dws)) \<Rightarrow> (case rotate_to X A rec hk_new v_new dws g2 of (g3, r) \<Rightarrow> (g3, Some r)))"

end
