(* ===== verification/Sync_Rotate.thy ===== *)
theory Sync_Rotate
  imports Enroll Sync_Pull
begin

text \<open>
  What a revocation does to the group. The locale \<open>key_server\<close> extends the contract of the transport by the
  devices the server holds active, with the public key of each (\<open>admitted\<close>), and the wraps of the History
  Key (\<open>holder\<close>). A revocation that succeeds leaves every data key openable under the new History Key,
  wraps that key for exactly the devices still active, and for them only.
\<close>

definition rotatable :: "rotate_req \<Rightarrow> bool" where
  "rotatable rq \<longleftrightarrow> (\<forall>d \<in> set (ro_dek_wraps rq). json_dek d = d) \<and> (\<forall>h \<in> set (ro_hk_wraps rq). json_wrap h = h)"

text \<open>An id that is one segment of a path.\<close>

definition segment_id :: "string \<Rightarrow> bool" where
  "segment_id i \<longleftrightarrow> i \<noteq> [] \<and> CHR ''/'' \<notin> set i"

text \<open>A wrap taken over to the new key.\<close>

definition rewrapped :: "cbox \<Rightarrow> key \<Rightarrow> key \<Rightarrow> int \<Rightarrow> int \<Rightarrow> dek_wrap \<Rightarrow> dek_wrap \<Rightarrow> bool" where
  "rewrapped X hk_old hk_new v_old v_new w z \<longleftrightarrow>
    dk_key_id z = dk_key_id w \<and> dk_device_id z = dk_device_id w \<and> dk_epoch z = dk_epoch w \<and> dk_hk_version z = v_new \<and>
    (\<exists>dek. unwrap_dek X (dk_blob w) hk_old (dk_key_id w) (dk_device_id w) (dk_epoch w) v_old = Inr dek \<and>
       unwrap_dek X (dk_blob z) hk_new (dk_key_id w) (dk_device_id w) (dk_epoch w) v_new = Inr dek)"

text \<open>The wrap of the History Key for a device opens with the device's key.\<close>

definition opens_for :: "cbox \<Rightarrow> key \<Rightarrow> string \<Rightarrow> hk_wrap \<Rightarrow> bool" where
  "opens_for X hk pub h \<longleftrightarrow>
    (\<forall>k. kx_pub k = pub \<longrightarrow> cx_dh X (kx_priv k) (cx_base X) = Some pub \<longrightarrow> unwrap_hk X (hw_blob h) k = Inr hk)"

lemma andthen_Inr:
  assumes "andthen m f g = (g', Inr y)"
  obtains g1 x where "m g = (g1, Inr x)" and "f x g1 = (g', Inr y)"
  using assms by (auto simp: andthen_def split: prod.splits sum.splits)

lemma net_Inr:
  assumes "net f g = (g', Inr x)"
  obtains w where "f (rg_world g) = (w, Inr x)" and "g' = g\<lparr>rg_world := w\<rparr>"
  using assms by (auto simp: net_def split: prod.splits sum.splits)

lemma crypto_Inr [simp]: "crypto_step r g = (g', Inr x) \<longleftrightarrow> r = Inr x \<and> g' = g"
  by (auto simp: crypto_step_def give_def fail_with_def split: sum.splits)

lemma unwrap_dek_length: "unwrap_dek X blob hk i d e v = Inr dek \<Longrightarrow> length dek = 32"
  by (auto simp: unwrap_dek_def key_size_def split: sum.splits if_splits)

lemma json_dek_fix:
  "json_dek d = d \<longleftrightarrow> json_str (dk_key_id d) = dk_key_id d \<and> json_str (dk_device_id d) = dk_device_id d"
  by (cases d) (simp add: json_dek_def)

lemma all2_right: "list_all2 P xs ys \<Longrightarrow> y \<in> set ys \<Longrightarrow> \<exists>x \<in> set xs. P x y"
  by (induction rule: list_all2_induct) auto

lemma all2_left: "list_all2 P xs ys \<Longrightarrow> x \<in> set xs \<Longrightarrow> \<exists>y \<in> set ys. P x y"
  by (induction rule: list_all2_induct) auto

locale key_server = sync_server A streams deks valid
  for A :: "'w api" and streams :: "'w \<Rightarrow> string \<Rightarrow> u64 \<Rightarrow> push_record option"
    and deks :: "'w \<Rightarrow> string \<Rightarrow> dek_wrap option" and valid :: "'w \<Rightarrow> bool" +
  fixes admitted :: "'w \<Rightarrow> string \<Rightarrow> string option" and holder :: "'w \<Rightarrow> string \<Rightarrow> hk_wrap option"
  assumes random_keeps: "ap_random A n w = (w', bs) \<Longrightarrow> admitted w' = admitted w \<and> holder w' = holder w"
    and list_keeps: "ap_list_dek A c limit w = (w', rl) \<Longrightarrow> valid w \<Longrightarrow> admitted w' = admitted w \<and> holder w' = holder w"
    and hk_keeps: "ap_hk_wrap A d w = (w', rh) \<Longrightarrow> valid w \<Longrightarrow> admitted w' = admitted w \<and> holder w' = holder w"
    and recovery_law: "ap_recovery_pub A w = (w', rp) \<Longrightarrow> valid w \<Longrightarrow>
      valid w' \<and> streams w' = streams w \<and> deks w' = deks w \<and> admitted w' = admitted w \<and> holder w' = holder w"
    and devices_law: "ap_devices A w = (w', rd) \<Longrightarrow> valid w \<Longrightarrow>
      valid w' \<and> streams w' = streams w \<and> deks w' = deks w \<and> admitted w' = admitted w \<and> holder w' = holder w \<and>
      (\<forall>ds. rd = Inr ds \<longrightarrow>
        (\<forall>d \<in> set ds. json_str (dv_id d) = dv_id d \<and>
          (dv_status d = device_active \<longrightarrow> admitted w (dv_id d) = Some (dv_pub_key d))) \<and>
        (\<forall>i pub. admitted w i = Some pub \<longrightarrow>
          (\<exists>d \<in> set ds. dv_id d = i \<and> dv_pub_key d = pub \<and> dv_status d = device_active)))"
    and revoke_law: "ap_revoke A i w = (w', rv) \<Longrightarrow> valid w \<Longrightarrow> segment_id i \<Longrightarrow>
      valid w' \<and> streams w' = streams w \<and> deks w' = deks w \<and> (rv = Inr () \<longrightarrow> admitted w' = (admitted w)(i := None))"
    and rotate_law: "ap_rotate A rq w = (w', rr) \<Longrightarrow> valid w \<Longrightarrow> rotatable rq \<Longrightarrow>
      valid w' \<and> streams w' = streams w \<and> admitted w' = admitted w \<and>
      (rr = Inr () \<longrightarrow> dom (deks w') = dom (deks w) \<and>
        (\<forall>k d. deks w' k = Some d \<longrightarrow> d \<in> set (ro_dek_wraps rq)) \<and>
        dom (holder w') = hw_device_id ` set (ro_hk_wraps rq) \<and>
        (\<forall>k h. holder w' k = Some h \<longrightarrow> h \<in> set (ro_hk_wraps rq) \<and> hw_device_id h = k))"
    and dek_json: "valid w \<Longrightarrow> deks w k = Some sd \<Longrightarrow> json_dek sd = sd"
begin

text \<open>A step that changes nothing but what was drawn.\<close>

definition quiet :: "('w, 'b) rig \<Rightarrow> ('w, 'b) rig \<Rightarrow> bool" where
  "quiet g g' \<longleftrightarrow> still (rg_world g) (rg_world g') \<and> admitted (rg_world g') = admitted (rg_world g) \<and>
     holder (rg_world g') = holder (rg_world g) \<and> rg_sync g' = rg_sync g \<and> rg_store g' = rg_store g"

lemma quiet_trans: "quiet a b \<Longrightarrow> quiet b c \<Longrightarrow> quiet a c"
  by (simp add: quiet_def still_def)

lemma quiet_valid: "quiet g g' \<Longrightarrow> valid (rg_world g')"
  by (simp add: quiet_def still_def)

lemma quiet_refl: "valid (rg_world g) \<Longrightarrow> quiet g g"
  by (simp add: quiet_def still_def)

lemma draw_quiet:
  assumes "draw (ap_random A n) g = (g', r)" and "valid (rg_world g)"
  obtains bs where "r = Inr bs" and "length bs = n" and "quiet g g'"
proof -
  obtain w bs where w: "ap_random A n (rg_world g) = (w, bs)" by fastforce
  with random_law [OF this assms(2)] random_keeps [OF this] assms(1) that show ?thesis
    by (auto simp: draw_def quiet_def still_def)
qed

lemma seal_hk_ok:
  assumes "sealed_box X" and run: "seal_hk X A hk pub g = (g', Inr blob)" and v: "valid (rg_world g)" and "length hk = 32"
  shows "quiet g g' \<and> opens_for X hk pub \<lparr>hw_device_id = d, hw_blob = blob, hw_hk_version = ver\<rparr>"
proof -
  from run obtain g1 eph g2 nonce where 1: "draw (ap_random A key_size) g = (g1, Inr eph)"
      "draw (ap_random A nonce_size) g1 = (g2, Inr nonce)" "wrap_hk X eph nonce hk pub = Inr blob" "g' = g2"
    unfolding seal_hk_def by (elim andthen_Inr) simp
  from draw_quiet [OF 1(1) v] have q1: "quiet g g1" "length eph = 32" by (auto simp: key_size_def)
  from draw_quiet [OF 1(2) quiet_valid [OF q1(1)]] have q2: "quiet g1 g2" "length nonce = 24" by (auto simp: nonce_size_def)
  have "unwrap_hk X blob k = Inr hk" if "kx_pub k = pub" "cx_dh X (kx_priv k) (cx_base X) = Some pub" for k
    using sealed_box.unwrap_wrap_hk [OF assms(1), of k nonce eph hk] that q1(2) q2(2) assms(4) 1(3) by auto
  then show ?thesis using quiet_trans [OF q1(1) q2(1)] 1(4) by (simp add: opens_for_def)
qed

lemma rewrap_page_ok:
  "sealed_box X \<Longrightarrow> rewrap_page X A hk_old hk_new v_old v_new ws out g = (g', Inr out') \<Longrightarrow> valid (rg_world g) \<Longrightarrow>
    quiet g g' \<and> (\<exists>zs. out' = out @ zs \<and> list_all2 (rewrapped X hk_old hk_new v_old v_new) ws zs)"
proof (induction ws arbitrary: out g)
  case Nil
  then show ?case by (simp add: give_def quiet_refl)
next
  case (Cons w ws)
  let ?un = "unwrap_dek X (dk_blob w) hk_old (dk_key_id w) (dk_device_id w) (dk_epoch w) v_old"
  define z where "z nonce dek = \<lparr>dk_key_id = dk_key_id w, dk_device_id = dk_device_id w, dk_epoch = dk_epoch w,
    dk_blob = wrap_dek X nonce dek hk_new (dk_key_id w) (dk_device_id w) (dk_epoch w) v_new,
    dk_hk_version = v_new\<rparr>" for nonce dek
  from Cons.prems(2) obtain dek g1 nonce where dek: "?un = Inr dek"
      and 1: "draw (ap_random A nonce_size) g = (g1, Inr nonce)"
      and rest: "rewrap_page X A hk_old hk_new v_old v_new ws (out @ [z nonce dek]) g1 = (g', Inr out')"
    by (auto simp: z_def elim!: andthen_Inr)
  from draw_quiet [OF 1 Cons.prems(3)] have q: "quiet g g1" "length nonce = 24" by (auto simp: nonce_size_def)
  have "rewrapped X hk_old hk_new v_old v_new w (z nonce dek)"
    using dek sealed_box.unwrap_wrap_dek [OF Cons.prems(1) q(2) unwrap_dek_length [OF dek]]
    by (simp add: rewrapped_def z_def)
  with Cons.IH [OF Cons.prems(1) rest quiet_valid [OF q(1)]] quiet_trans [OF q(1)] show ?case by fastforce
qed

lemma rewrap_all_ok:
  "sealed_box X \<Longrightarrow> rewrap_all fuel X A hk_old hk_new v_old v_new cursor out g = (g', Some (Inr out')) \<Longrightarrow>
    valid (rg_world g) \<Longrightarrow>
    quiet g g' \<and> (\<exists>zs. out' = out @ zs \<and>
      list_all2 (rewrapped X hk_old hk_new v_old v_new) (deks_after (deks (rg_world g)) cursor) zs)"
proof (induction fuel arbitrary: cursor out g)
  case (Suc fuel)
  let ?R = "deks_after (deks (rg_world g)) cursor"
  from Suc.prems(2) obtain g1 resp g2 out2 where 1: "net (ap_list_dek A cursor dek_page_limit) g = (g1, Inr resp)"
      "rewrap_page X A hk_old hk_new v_old v_new (dl_wraps resp) out g1 = (g2, Inr out2)"
    and rest: "(if dl_next_cursor resp = [] then (g2, Some (Inr out2))
      else rewrap_all fuel X A hk_old hk_new v_old v_new (dl_next_cursor resp) out2 g2) = (g', Some (Inr out'))"
    by (auto split: prod.splits sum.splits)
  from 1(1) obtain w where w: "ap_list_dek A cursor dek_page_limit (rg_world g) = (w, Inr resp)" "g1 = g\<lparr>rg_world := w\<rparr>"
    by (rule net_Inr)
  have q1: "quiet g g1"
    using list_dek_law [OF w(1) Suc.prems(3)] list_keeps [OF w(1) Suc.prems(3)] w(2) by (simp add: quiet_def still_def)
  have pos: "(0::nat) < dek_page_limit" "dek_page_limit \<le> 1000" by (simp_all add: dek_page_limit_def)
  from list_dek_page [OF w(1) Suc.prems(3) pos] have page: "dl_wraps resp = take dek_page_limit ?R"
      "dl_next_cursor resp = (if dek_page_limit < length ?R then dk_key_id (last (dl_wraps resp)) else [])" by auto
  from rewrap_page_ok [OF Suc.prems(1) 1(2) quiet_valid [OF q1]] obtain zs where
    q2: "quiet g g2" and zs: "out2 = out @ zs" "list_all2 (rewrapped X hk_old hk_new v_old v_new) (dl_wraps resp) zs"
    using quiet_trans [OF q1] by blast
  show ?case
  proof (cases "dek_page_limit < length ?R")
    case False
    with rest page zs q2 show ?thesis by auto
  next
    case True
    from deks_next_page [OF finite_deks [OF Suc.prems(3)] pos(1) True dek_key [OF Suc.prems(3)]]
    have nxt: "deks_after (deks (rg_world g)) (dl_next_cursor resp) = drop dek_page_limit ?R" "dl_next_cursor resp \<noteq> []"
      using page True by auto
    with rest have "rewrap_all fuel X A hk_old hk_new v_old v_new (dl_next_cursor resp) out2 g2 = (g', Some (Inr out'))" by simp
    note IH = Suc.IH [OF Suc.prems(1) this quiet_valid [OF q2]]
    have "deks (rg_world g2) = deks (rg_world g)" using q2 by (simp add: quiet_def still_def)
    with IH nxt(1) obtain zs' where 3: "quiet g2 g'" "out' = out2 @ zs'"
      "list_all2 (rewrapped X hk_old hk_new v_old v_new) (drop dek_page_limit ?R) zs'" by auto
    have "list_all2 (rewrapped X hk_old hk_new v_old v_new) (take dek_page_limit ?R @ drop dek_page_limit ?R) (zs @ zs')"
      using zs(2) 3(3) unfolding page(1) by (rule list_all2_appendI)
    then show ?thesis using zs(1) 3(2) quiet_trans [OF q2 3(1)] by simp
  qed
qed simp

lemma wrap_for_devices_ok:
  "sealed_box X \<Longrightarrow> wrap_for_devices X A hk v ds out g = (g', Inr out') \<Longrightarrow> valid (rg_world g) \<Longrightarrow> length hk = 32 \<Longrightarrow>
    quiet g g' \<and> (\<exists>zs. out' = out @ zs \<and>
      list_all2 (\<lambda>d h. hw_device_id h = dv_id d \<and> hw_hk_version h = v \<and> opens_for X hk (dv_pub_key d) h)
        (filter (\<lambda>d. dv_status d = device_active) ds) zs)"
proof (induction ds arbitrary: out g)
  case Nil
  then show ?case by (simp add: give_def quiet_refl)
next
  case (Cons d ds)
  show ?case
  proof (cases "dv_status d = device_active")
    case False
    with Cons show ?thesis by simp
  next
    case True
    define h where "h blob = \<lparr>hw_device_id = dv_id d, hw_blob = blob, hw_hk_version = v\<rparr>" for blob
    from Cons.prems(2) True obtain pub g1 blob where pub: "public_from_bytes (dv_pub_key d) = Inr pub"
        and 1: "seal_hk X A hk pub g = (g1, Inr blob)"
        and rest: "wrap_for_devices X A hk v ds (out @ [h blob]) g1 = (g', Inr out')"
      by (auto simp: h_def elim!: andthen_Inr)
    have "pub = dv_pub_key d" using pub by (simp add: public_from_bytes_def split: if_splits)
    with seal_hk_ok [OF Cons.prems(1) 1 Cons.prems(3,4), of "dv_id d" v] have q: "quiet g g1"
        "hw_device_id (h blob) = dv_id d \<and> hw_hk_version (h blob) = v \<and> opens_for X hk (dv_pub_key d) (h blob)"
      by (simp_all add: h_def)
    from Cons.IH [OF Cons.prems(1) rest quiet_valid [OF q(1)] Cons.prems(4)] quiet_trans [OF q(1)] q(2) True
    show ?thesis by fastforce
  qed
qed

text \<open>The rotation: who holds the new key, and which data keys there are.\<close>

definition wrapped_for_all :: "cbox \<Rightarrow> key \<Rightarrow> int \<Rightarrow> 'w \<Rightarrow> bool" where
  "wrapped_for_all X hk v w \<longleftrightarrow> dom (holder w) = dom (admitted w) \<and>
    (\<forall>i pub. admitted w i = Some pub \<longrightarrow> (\<exists>h. holder w i = Some h \<and> hw_hk_version h = v \<and> opens_for X hk pub h))"

lemma rotate_to_ok:
  assumes "sealed_box X" and run: "rotate_to X A rec hk v dws g = (g', Inr ())" and val: "valid (rg_world g)"
    and "length hk = 32" and dws: "\<forall>d \<in> set dws. json_dek d = d"
  shows "valid (rg_world g') \<and> streams (rg_world g') = streams (rg_world g) \<and>
    admitted (rg_world g') = admitted (rg_world g) \<and> wrapped_for_all X hk v (rg_world g') \<and>
    dom (deks (rg_world g')) = dom (deks (rg_world g)) \<and>
    (\<forall>k d. deks (rg_world g') k = Some d \<longrightarrow> d \<in> set dws) \<and>
    rg_sync g' = set_hk hk v (rg_sync g) \<and> rg_store g' = rg_store g"
proof -
  from run obtain g1 ds g2 hws g3 rw g4 where 1: "net (ap_devices A) g = (g1, Inr ds)"
      "wrap_for_devices X A hk v ds [] g1 = (g2, Inr hws)" "wrap_for_recovery X A hk v rec g2 = (g3, Inr rw)"
      "net (ap_rotate A \<lparr>ro_hk_version = v, ro_hk_wraps = hws, ro_dek_wraps = dws, ro_recovery_wrap = rw\<rparr>) g3 = (g4, Inr ())"
      "put_sync (set_hk hk v) g4 = (g', Inr ())"
    by (auto simp: rotate_to_def fail_with_def split: if_splits elim!: andthen_Inr)
  from 1(1) obtain w1 where w1: "ap_devices A (rg_world g) = (w1, Inr ds)" "g1 = g\<lparr>rg_world := w1\<rparr>" by (rule net_Inr)
  note dl = devices_law [OF w1(1) val]
  have q1: "quiet g g1" using dl w1(2) by (simp add: quiet_def still_def)
  have json: "\<And>d. d \<in> set ds \<Longrightarrow> json_str (dv_id d) = dv_id d"
    and act: "\<And>d. d \<in> set ds \<Longrightarrow> dv_status d = device_active \<Longrightarrow> admitted (rg_world g) (dv_id d) = Some (dv_pub_key d)"
    and all: "\<And>i pub. admitted (rg_world g) i = Some pub \<Longrightarrow>
      \<exists>d \<in> set ds. dv_id d = i \<and> dv_pub_key d = pub \<and> dv_status d = device_active"
    using dl by auto
  from wrap_for_devices_ok [OF assms(1) 1(2) quiet_valid [OF q1] assms(4)] have q2: "quiet g g2"
    and hws: "list_all2 (\<lambda>d h. hw_device_id h = dv_id d \<and> hw_hk_version h = v \<and> opens_for X hk (dv_pub_key d) h)
        (filter (\<lambda>d. dv_status d = device_active) ds) hws"
    using quiet_trans [OF q1] by auto
  have q3: "quiet g2 g3"
  proof (cases rec)
    case None
    with 1(3) q2 show ?thesis by (simp add: wrap_for_recovery_def give_def quiet_refl quiet_valid)
  next
    case (Some b)
    from 1(3) obtain pub g5 blob where "seal_hk X A hk pub g2 = (g5, Inr blob)" "g5 = g3"
      unfolding wrap_for_recovery_def Some option.case by (elim andthen_Inr) (simp add: give_def)
    with seal_hk_ok [OF assms(1) _ quiet_valid [OF q2] assms(4)] show ?thesis by blast
  qed
  have from_dev: "\<exists>d \<in> set ds. dv_status d = device_active \<and> hw_device_id h = dv_id d \<and> hw_hk_version h = v \<and>
      opens_for X hk (dv_pub_key d) h" if "h \<in> set hws" for h
    using all2_right [OF hws that] by auto
  have to_dev: "dv_id d \<in> hw_device_id ` set hws" if "d \<in> set ds" "dv_status d = device_active" for d
  proof -
    from that have "d \<in> set (filter (\<lambda>d. dv_status d = device_active) ds)" by simp
    from all2_left [OF hws this] show ?thesis by force
  qed
  have rq: "rotatable \<lparr>ro_hk_version = v, ro_hk_wraps = hws, ro_dek_wraps = dws, ro_recovery_wrap = rw\<rparr>"
    using dws from_dev json by (fastforce simp: rotatable_def json_wrap_def)
  from 1(4) obtain w4 where w4: "ap_rotate A \<lparr>ro_hk_version = v, ro_hk_wraps = hws, ro_dek_wraps = dws, ro_recovery_wrap = rw\<rparr>
      (rg_world g3) = (w4, Inr ())" "g4 = g3\<lparr>rg_world := w4\<rparr>" by (rule net_Inr)
  note q = quiet_trans [OF q2 q3]
  note rl = rotate_law [OF w4(1) quiet_valid [OF q] rq]
  have same: "admitted w4 = admitted (rg_world g)" using rl q by (simp add: quiet_def)
  have dom: "dom (holder w4) = hw_device_id ` set hws"
    and at: "\<And>k h. holder w4 k = Some h \<Longrightarrow> h \<in> set hws \<and> hw_device_id h = k" using rl by auto
  have held: "\<exists>d \<in> set ds. admitted w4 k = Some (dv_pub_key d) \<and> hw_hk_version h = v \<and> opens_for X hk (dv_pub_key d) h"
    if "holder w4 k = Some h" for k h
    using from_dev [of h] at [OF that] act same by metis
  have "dom (holder w4) = dom (admitted w4)"
  proof (intro set_eqI iffI)
    fix i assume "i \<in> dom (admitted w4)"
    then obtain pub where "admitted (rg_world g) i = Some pub" using same by auto
    from all [OF this] to_dev show "i \<in> dom (holder w4)" unfolding dom by blast
  qed (use held in blast)
  moreover have "\<exists>h. holder w4 i = Some h \<and> hw_hk_version h = v \<and> opens_for X hk pub h" if "admitted w4 i = Some pub" for i pub
  proof -
    from that calculation obtain h where h: "holder w4 i = Some h" by blast
    with held [OF this] that show ?thesis by auto
  qed
  ultimately have "wrapped_for_all X hk v w4" by (simp add: wrapped_for_all_def)
  moreover have "g' = g3\<lparr>rg_world := w4, rg_sync := set_hk hk v (rg_sync g3)\<rparr>"
    using 1(5) w4(2) by (simp add: put_sync_def)
  ultimately show ?thesis using rl q by (simp add: quiet_def still_def)
qed

lemma resolve_hk_quiet:
  assumes run: "resolve_hk X A g = (g', Inr kv)" and val: "valid (rg_world g)"
  shows "valid (rg_world g') \<and> streams (rg_world g') = streams (rg_world g) \<and> deks (rg_world g') = deks (rg_world g) \<and>
    admitted (rg_world g') = admitted (rg_world g) \<and> rg_store g' = rg_store g \<and>
    rg_sync g' = (rg_sync g)\<lparr>sy_hk := Some kv\<rparr>"
proof (cases "sy_hk (rg_sync g)")
  case (Some k)
  with run val show ?thesis by (auto simp: resolve_hk_def with_sync_def give_def)
next
  case None
  obtain w rh where w: "ap_hk_wrap A (sy_device (rg_sync g)) (rg_world g) = (w, rh)" by fastforce
  with run None hk_law [OF w val] hk_keeps [OF w val] show ?thesis
    by (auto simp: resolve_hk_def with_sync_def andthen_def net_def get_hk_wrap_def crypto_step_def give_def
      fail_with_def put_sync_def split: sum.splits net_error.splits if_splits)
qed

lemma begin_rotation_ok:
  assumes run: "begin_rotation X A i g = (g', Inr (old, rec, hk))" and val: "valid (rg_world g)" and i: "segment_id i"
  shows "(\<exists>g1. resolve_hk X A g = (g1, Inr old)) \<and> still (rg_world g) (rg_world g') \<and>
    admitted (rg_world g') = (admitted (rg_world g))(i := None) \<and> length hk = 32 \<and>
    rg_store g' = rg_store g \<and> rg_sync g' = (rg_sync g)\<lparr>sy_hk := Some old\<rparr>"
proof -
  from run obtain g1 g2 g3 g4 where 1: "resolve_hk X A g = (g1, Inr old)" "net (Enroll.recovery_pub A) g1 = (g2, Inr rec)"
      "net (ap_revoke A i) g2 = (g3, Inr ())" "draw (ap_random A key_size) g3 = (g4, Inr hk)" "g' = g4"
    by (auto simp: begin_rotation_def new_history_key_def give_def elim!: andthen_Inr)
  note r1 = resolve_hk_quiet [OF 1(1) val]
  from 1(2) obtain w2 where w2: "Enroll.recovery_pub A (rg_world g1) = (w2, Inr rec)" "g2 = g1\<lparr>rg_world := w2\<rparr>" by (rule net_Inr)
  then obtain rp where "ap_recovery_pub A (rg_world g1) = (w2, rp)"
    by (auto simp: recovery_pub_def split: prod.splits sum.splits if_splits)
  with recovery_law [OF this] r1 have r2: "valid w2 \<and> streams w2 = streams (rg_world g) \<and> deks w2 = deks (rg_world g) \<and>
      admitted w2 = admitted (rg_world g)" by simp
  from 1(3) obtain w3 where w3: "ap_revoke A i (rg_world g2) = (w3, Inr ())" "g3 = g2\<lparr>rg_world := w3\<rparr>" by (rule net_Inr)
  with revoke_law [OF w3(1) _ i] r2 w2(2) have r3: "still (rg_world g) w3 \<and> admitted w3 = (admitted (rg_world g))(i := None)"
    by (simp add: still_def)
  then have "valid (rg_world g3)" using w3(2) by (simp add: still_def)
  from draw_quiet [OF 1(4) this] have "quiet g3 g4" "length hk = 32" by (auto simp: key_size_def)
  with 1(1,5) r1 r3 w2(2) w3(2) show ?thesis by (auto simp: quiet_def still_def)
qed

text \<open>The re-wrap ends: each page is a part of what is left.\<close>

lemma rewrap_page_world:
  "rewrap_page X A hk_old hk_new v_old v_new ws out g = (g', r) \<Longrightarrow> valid (rg_world g) \<Longrightarrow> still (rg_world g) (rg_world g')"
proof (induction ws arbitrary: out g)
  case Nil
  then show ?case by (auto simp: give_def still_def)
next
  case (Cons w ws)
  let ?un = "unwrap_dek X (dk_blob w) hk_old (dk_key_id w) (dk_device_id w) (dk_epoch w) v_old"
  show ?case
  proof (cases ?un)
    case (Inl e)
    with Cons.prems show ?thesis by (auto simp: andthen_def crypto_step_def fail_with_def still_def)
  next
    case (Inr dek)
    obtain g1 rn where 1: "draw (ap_random A nonce_size) g = (g1, rn)" by fastforce
    from draw_quiet [OF this Cons.prems(2)] obtain nonce where n: "rn = Inr nonce" "quiet g g1" by blast
    with Cons.prems(1) Inr 1 have rest: "\<exists>out. rewrap_page X A hk_old hk_new v_old v_new ws out g1 = (g', r)"
      by (auto simp: andthen_def crypto_step_def give_def)
    with Cons.IH [OF _ quiet_valid [OF n(2)]] n(2) show ?thesis by (auto simp: quiet_def intro: still_trans)
  qed
qed

lemma rewrap_all_ends:
  "valid (rg_world g) \<Longrightarrow> length (deks_after (deks (rg_world g)) cursor) < fuel \<Longrightarrow>
    \<exists>g' r. rewrap_all fuel X A hk_old hk_new v_old v_new cursor out g = (g', Some r)"
proof (induction fuel arbitrary: cursor out g)
  case (Suc fuel)
  let ?R = "deks_after (deks (rg_world g)) cursor"
  obtain w rl where w: "ap_list_dek A cursor dek_page_limit (rg_world g) = (w, rl)" by fastforce
  show ?case
  proof (cases rl)
    case (Inl e)
    with w show ?thesis by (simp add: net_def)
  next
    case (Inr resp)
    have pos: "(0::nat) < dek_page_limit" "dek_page_limit \<le> 1000" by (simp_all add: dek_page_limit_def)
    from list_dek_page [OF w [unfolded Inr] Suc.prems(1) pos] have page: "dl_wraps resp = take dek_page_limit ?R"
      "dl_next_cursor resp = (if dek_page_limit < length ?R then dk_key_id (last (dl_wraps resp)) else [])" by auto
    obtain g2 r2 where 2: "rewrap_page X A hk_old hk_new v_old v_new (dl_wraps resp) out (g\<lparr>rg_world := w\<rparr>) = (g2, r2)"
      by fastforce
    have w1: "still (rg_world g) w" using list_dek_law [OF w Suc.prems(1)] by (simp add: still_def)
    have g2: "still (rg_world g) (rg_world g2)"
      using rewrap_page_world [OF 2] w1 still_trans [OF w1] by (simp add: still_def)
    show ?thesis
    proof (cases "dl_next_cursor resp = []")
      case True
      with w Inr 2 show ?thesis by (cases r2) (simp_all add: net_def)
    next
      case False
      then have more: "dek_page_limit < length ?R" using page(2) by (auto split: if_splits)
      from deks_next_page [OF finite_deks [OF Suc.prems(1)] pos(1) more dek_key [OF Suc.prems(1)]]
      have "deks_after (deks (rg_world g)) (dl_next_cursor resp) = drop dek_page_limit ?R" using page more by auto
      then have "length (deks_after (deks (rg_world g2)) (dl_next_cursor resp)) < fuel"
        using g2 more pos(1) Suc.prems(2) by (simp add: still_def)
      from Suc.IH [OF _ this] g2 w Inr 2 False show ?thesis by (cases r2) (simp_all add: net_def still_def)
    qed
  qed
qed simp

lemma revoke_ends:
  assumes val: "valid (rg_world g)" and i: "segment_id i" and fuel: "card (dom (deks (rg_world g))) < fuel"
  shows "\<exists>g' r. revoke fuel X A i g = (g', Some r)"
proof -
  obtain g1 r1 where 1: "begin_rotation X A i g = (g1, r1)" by fastforce
  show ?thesis
  proof (cases r1)
    case (Inl e)
    with 1 show ?thesis by (simp add: revoke_def)
  next
    case (Inr x)
    obtain k v rec hk where x: "x = ((k, v), rec, hk)" by (metis prod.exhaust)
    from begin_rotation_ok [OF 1 [unfolded Inr x] val i] have st: "still (rg_world g) (rg_world g1)" by blast
    have "length (deks_after (deks (rg_world g1)) []) < fuel"
      using st fuel finite_deks [OF val] by (simp add: deks_after_eq still_def)
    from rewrap_all_ends [OF _ this, of X k hk v "wrap64 (v + 1)" "[]"] st obtain g2 r2 where
      "rewrap_all fuel X A k hk v (wrap64 (v + 1)) [] [] g1 = (g2, Some r2)" by (auto simp: still_def)
    with 1 Inr x show ?thesis by (cases r2) (simp_all add: revoke_def Let_def split: prod.split)
  qed
qed

text \<open>The whole revocation.\<close>

lemma revoke_ok:
  assumes box: "sealed_box X" and run: "revoke fuel X A i g = (g', Some (Inr ()))" and val: "valid (rg_world g)"
    and i: "segment_id i" and hk: "\<And>g1 k v. resolve_hk X A g = (g1, Inr (k, v)) \<Longrightarrow> k = hk_old \<and> v = v_old"
    and ver: "\<And>k d. deks (rg_world g) k = Some d \<Longrightarrow> dk_hk_version d = v_old"
  shows "\<exists>hk. length hk = 32 \<and> sy_hk (rg_sync g') = Some (hk, wrap64 (v_old + 1)) \<and> rg_store g' = rg_store g \<and>
    valid (rg_world g') \<and> streams (rg_world g') = streams (rg_world g) \<and>
    admitted (rg_world g') = (admitted (rg_world g))(i := None) \<and>
    wrapped_for_all X hk (wrap64 (v_old + 1)) (rg_world g') \<and>
    dom (deks (rg_world g')) = dom (deks (rg_world g)) \<and>
    (\<forall>k d. deks (rg_world g') k = Some d \<longrightarrow> dk_hk_version d = wrap64 (v_old + 1)) \<and>
    (\<forall>kid dek. holds_key X hk_old (deks (rg_world g)) kid dek \<longrightarrow> holds_key X hk (deks (rg_world g')) kid dek)"
proof -
  let ?v = "wrap64 (v_old + 1)" and ?D = "deks (rg_world g)"
  from run obtain g1 k v rec hk where 1: "begin_rotation X A i g = (g1, Inr ((k, v), rec, hk))"
    by (auto simp: revoke_def split: prod.splits sum.splits)
  note b = begin_rotation_ok [OF 1 val i]
  from b hk have kv: "k = hk_old" "v = v_old" by blast+
  from run 1 kv obtain g2 dws where 2: "rewrap_all fuel X A hk_old hk v_old ?v [] [] g1 = (g2, Some (Inr dws))"
      "rotate_to X A rec hk ?v dws g2 = (g', Inr ())"
    by (auto simp: revoke_def Let_def split: prod.splits sum.splits option.splits)
  have v1: "valid (rg_world g1)" "deks (rg_world g1) = ?D" using b by (simp_all add: still_def)
  from rewrap_all_ok [OF box 2(1) v1(1)] have q: "quiet g1 g2"
    and re: "list_all2 (rewrapped X hk_old hk v_old ?v) (deks_after ?D []) dws" using v1(2) by auto
  have "set (deks_after ?D []) = ran ?D"
    using finite_deks [OF val] by (force simp: deks_after_eq ran_def)
  then have src: "\<exists>w. ?D (dk_key_id z) = Some w \<and> dk_key_id w = dk_key_id z \<and> rewrapped X hk_old hk v_old ?v w z"
    if "z \<in> set dws" for z
  proof -
    from all2_right [OF re that] obtain w where "w \<in> set (deks_after ?D [])" "rewrapped X hk_old hk v_old ?v w z" by blast
    moreover from this(1) \<open>set (deks_after ?D []) = ran ?D\<close> obtain kid where "?D kid = Some w" by (auto simp: ran_def)
    ultimately show ?thesis using dek_key [OF val] by (auto simp: rewrapped_def)
  qed
  have "json_dek z = z" if "z \<in> set dws" for z
  proof -
    from src [OF that] obtain w where w: "?D (dk_key_id z) = Some w" "dk_key_id w = dk_key_id z" "dk_device_id z = dk_device_id w"
      by (auto simp: rewrapped_def)
    from dek_json [OF val w(1)] show ?thesis unfolding json_dek_fix w(2,3) .
  qed
  then have "\<forall>z \<in> set dws. json_dek z = z" by blast
  note ro = rotate_to_ok [OF box 2(2) quiet_valid [OF q] _ this]
  have same: "streams (rg_world g2) = streams (rg_world g)" "deks (rg_world g2) = ?D" "rg_store g2 = rg_store g"
      "admitted (rg_world g2) = (admitted (rg_world g))(i := None)"
    using b [THEN conjunct2] q unfolding quiet_def still_def by simp_all
  have len: "length hk = 32" using b by blast
  from ro [OF len] same have r: "valid (rg_world g')" "streams (rg_world g') = streams (rg_world g)"
      "admitted (rg_world g') = (admitted (rg_world g))(i := None)" "wrapped_for_all X hk ?v (rg_world g')"
      "dom (deks (rg_world g')) = dom ?D" "rg_sync g' = set_hk hk ?v (rg_sync g2)" "rg_store g' = rg_store g"
    and new: "\<And>kid d. deks (rg_world g') kid = Some d \<Longrightarrow> d \<in> set dws"
    by (simp_all only:)
  have ver': "dk_hk_version d = ?v" if "deks (rg_world g') kid = Some d" for kid d
    using src [OF new [OF that]] by (auto simp: rewrapped_def)
  have keep: "holds_key X hk (deks (rg_world g')) kid dek" if h: "holds_key X hk_old ?D kid dek" for kid dek
  proof -
    from h obtain w where w: "?D kid = Some w"
        "unwrap_dek X (dk_blob w) hk_old kid (dk_device_id w) (dk_epoch w) (dk_hk_version w) = Inr dek"
      by (auto simp: holds_key_def)
    with r(5) obtain z where z: "deks (rg_world g') kid = Some z" by blast
    have zid: "dk_key_id z = kid" using dek_key [OF r(1) z] by simp
    from src [OF new [OF z]] w(1) zid have "rewrapped X hk_old hk v_old ?v w z" "dk_key_id w = kid" by auto
    with w ver [OF w(1)] z zid show ?thesis by (auto simp: holds_key_def rewrapped_def)
  qed
  show ?thesis using b r ver' keep by (intro exI [of _ hk]) (simp add: set_hk_def)
qed

end

end
