(* ===== verification/Sync_Admin.thy ===== *)
theory Sync_Admin
  imports Sync_Rotate Sync_Flow
begin

text \<open>
  The HTTP client over the server keeps the contract \<open>key_server\<close>: the devices and the wraps of the
  History Key are read off the database of the only tenant. What follows for a group: a revocation that
  succeeds shuts the device out of the new key and loses no record.
\<close>

definition active_key :: "device \<Rightarrow> string option" where
  "active_key d = (if dv_status d = device_active then Some (dv_pub_key d) else None)"

definition db_admitted :: "'b doc_kv \<Rightarrow> ('r, 'b) tdb \<Rightarrow> string \<Rightarrow> string option" where
  "db_admitted K db i = Option.bind (device_of K db i) active_key"

definition db_holder :: "'b doc_kv \<Rightarrow> ('r, 'b) tdb \<Rightarrow> string \<Rightarrow> hk_wrap option" where
  "db_holder K db i = Option.bind (kv_get K (td_hk_wraps db) i) as_wrap"

definition world_admitted :: "('r, 'b) client \<Rightarrow> ('r, 'b) world \<Rightarrow> string \<Rightarrow> string option" where
  "world_admitted c w = db_admitted (en_kv (hc_env c)) (sole_db w)"

definition world_holder :: "('r, 'b) client \<Rightarrow> ('r, 'b) world \<Rightarrow> string \<Rightarrow> hk_wrap option" where
  "world_holder c w = db_holder (en_kv (hc_env c)) (sole_db w)"

definition json_rotate :: "rotate_req \<Rightarrow> rotate_req" where
  "json_rotate rq = rq\<lparr>ro_hk_wraps := map json_wrap (ro_hk_wraps rq), ro_dek_wraps := map json_dek (ro_dek_wraps rq),
     ro_recovery_wrap := map_option json_wrap (ro_recovery_wrap rq)\<rparr>"

text \<open>What the client relies on to rotate.\<close>

definition client_admin_ok :: "('r, 'b) client \<Rightarrow> bool" where
  "client_admin_ok c \<longleftrightarrow> client_ok c \<and> slice_sort (en_sort_devices (hc_env c)) \<and>
    (\<forall>rq. jd_rotate (en_json (hc_env c)) (je_rotate (hc_enc c) rq) = Some (json_rotate rq))"

lemma rotatable_json: "rotatable rq \<Longrightarrow> ro_dek_wraps (json_rotate rq) = ro_dek_wraps rq \<and>
    ro_hk_wraps (json_rotate rq) = ro_hk_wraps rq"
  by (simp add: rotatable_def json_rotate_def map_idI)

lemma admin_mux:
  "mux_endpoint (call_request c t (get_call ''/v1/devices'' q)) = Inr EListDevices"
  "mux_endpoint (call_request c t (get_call ''/v1/keys/recovery'' q)) = Inr EGetRecoveryPub"
  "mux_endpoint (call_request c t (post_call ''/v1/keys/rotate'' b)) = Inr ERotate"
  by (simp_all add: mux_endpoint_def call_request_def post_call_def get_call_def endpoints_at_def)

lemma admin_paths:
  "\<not> is_open_path ''/v1/devices''" "\<not> is_open_path ''/v1/keys/recovery''" "\<not> is_open_path ''/v1/keys/rotate''"
  "\<not> is_enroll_path (call_request c t (post_call ''/v1/keys/rotate'' b))"
  "\<not> is_recovery_path (call_request c t (post_call ''/v1/keys/rotate'' b))"
  "\<not> is_recovery_path (call_request c t (get_call ''/v1/devices'' q))"
  "\<not> is_recovery_path (call_request c t (get_call ''/v1/keys/recovery'' q))"
  by (simp_all add: is_open_path_def is_enroll_path_def is_recovery_path_def call_request_def post_call_def get_call_def
      has_prefix_def)

lemma split_segment: "c \<notin> set i \<Longrightarrow> split_on c (i @ c # s) = i # split_on c s"
proof (induction i)
  case (Cons x i)
  then show ?case using split_on_ne [of c s] by (cases "split_on c s") auto
qed simp

lemma revoke_path:
  assumes "segment_id i"
  shows "mux_endpoint (call_request c t (post_at ''/v1/devices/'' i ''/revoke'' [])) = Inr (ERevoke i)"
    "\<not> is_open_path (ca_path (post_at ''/v1/devices/'' i ''/revoke'' []))"
    "\<not> is_enroll_path (call_request c t (post_at ''/v1/devices/'' i ''/revoke'' []))"
    "\<not> is_recovery_path (call_request c t (post_at ''/v1/devices/'' i ''/revoke'' []))"
  using assms split_segment [of "CHR ''/''" i "''revoke''"]
  by (simp_all add: segment_id_def mux_endpoint_def call_request_def post_at_def post_call_def endpoints_at_def
      is_open_path_def is_enroll_path_def is_recovery_path_def has_prefix_def)

text \<open>A read leaves the database as it is; a handler that commits leaves it, with an error, or commits.\<close>

lemma reads_db:
  assumes run: "client_do c a expect w = (w', r)" and one: "one_tenant n db (wo_server w)"
    and mux: "\<And>t. mux_endpoint (call_request c t a) = Inr e"
    and path: "\<not> is_open_path (ca_path a)" "\<And>t. \<not> is_enroll_path (call_request c t a)"
      "\<And>t. \<not> is_recovery_path (call_request c t a)"
    and body: "\<And>now rnd rq s. run_endpoint (hc_env c) now rnd e rq n db s =
      with_signature (hc_env c) now rq db None s (\<lambda>s'. (s', f rq))"
  shows "one_tenant n db (wo_server w')"
    and "r = Inr x \<Longrightarrow> \<exists>t. good_status (f (call_request c t a)) \<and> expect (rp_body (f (call_request c t a))) = Some x"
proof -
  consider "one_tenant n db (wo_server w')" "\<exists>x. r = Inl x"
    | t where "one_tenant n db (wo_server w')"
      "\<And>x. r = Inr x \<Longrightarrow> good_status (f (call_request c t a)) \<and> expect (rp_body (f (call_request c t a))) = Some x"
    using client_signed [OF run one mux path, of "\<lambda>now rq s'. (s', f rq)"] body by (metis prod.inject)
  note cases = this
  from cases show "one_tenant n db (wo_server w')" by cases blast+
  show "\<exists>t. good_status (f (call_request c t a)) \<and> expect (rp_body (f (call_request c t a))) = Some x" if "r = Inr x"
    using cases that by cases blast+
qed

lemma commits_db:
  assumes run: "client_do c a expect w = (w', r)" and one: "one_tenant n db (wo_server w)"
    and mux: "\<And>t. mux_endpoint (call_request c t a) = Inr e"
    and path: "\<not> is_open_path (ca_path a)" "\<And>t. \<not> is_enroll_path (call_request c t a)"
      "\<And>t. \<not> is_recovery_path (call_request c t a)"
    and body: "\<And>now rnd rq s. run_endpoint (hc_env c) now rnd e rq n db s =
      with_signature (hc_env c) now rq db None s (\<lambda>s'. commit n s' (f rq) (ok rq))"
    and bad: "\<And>rq err. f rq = Inl err \<Longrightarrow> \<not> good_status (write_api_err err)"
  obtains "one_tenant n db (wo_server w')" and "\<exists>x. r = Inl x"
    | t db' where "f (call_request c t a) = Inr db'" and "one_tenant n db' (wo_server w')"
proof (rule client_signed [OF run one mux path, where k = "\<lambda>now rq s'. commit n s' (f rq) (ok rq)"])
  assume "one_tenant n db (wo_server w')" "\<exists>x. r = Inl x"
  then show thesis by (rule that(1))
next
  fix s1 now t rp
  assume s1: "one_tenant n db s1" and k: "commit n s1 (f (call_request c t a)) (ok (call_request c t a)) = (wo_server w', rp)"
    and no: "\<not> good_status rp \<Longrightarrow> \<exists>x. r = Inl x"
  show thesis
  proof (cases "f (call_request c t a)")
    case (Inl err)
    with k s1 no bad [OF Inl] show thesis by (intro that(1)) (auto simp: commit_def)
  next
    case (Inr db')
    with k have "set_db n db' s1 = wo_server w'" by (simp add: commit_def)
    with one_tenant_set [OF s1, of db'] show thesis by (intro that(2) [OF Inr]) simp
  qed
qed (simp_all add: body)

lemma admin_readers:
  "run_endpoint E now rnd EListDevices rq n db s = with_signature E now rq db None s (\<lambda>s'. (s',
    case list_rows (\<lambda>_. as_device) (kv_items (en_kv E) (td_devices db)) of
      Inl e \<Rightarrow> write_api_err e
    | Inr ds \<Rightarrow> reply 200 (BDevices (en_sort_devices E (\<lambda>a b. dv_id a < dv_id b) ds))))"
  "run_endpoint E now rnd EGetRecoveryPub rq n db s = with_signature E now rq db None s (\<lambda>s'. (s',
    case load_recovery (en_kv E) db of
      Inl e \<Rightarrow> write_api_err e
    | Inr None \<Rightarrow> write_err 404 ''no recovery key configured''
    | Inr (Some r) \<Rightarrow> reply 200 (BPub (ri_pub_key r))))"
  "run_endpoint E now rnd (ERevoke i) rq n db s = with_signature E now rq db None s
    (\<lambda>s'. commit n s' (tx_revoke (en_kv E) db i) (reply 200 (BStatus device_revoked)))"
  "run_endpoint E now rnd ERotate rq n db s = with_signature E now rq db None s
    (\<lambda>s'. commit n s' (case jd_rotate (en_json E) (hq_body rq) of
        None \<Rightarrow> Inl (Api 400 ''malformed JSON'') | Some r \<Rightarrow> tx_rotate (en_kv E) db r)
      (reply 200 (BVersion (case jd_rotate (en_json E) (hq_body rq) of None \<Rightarrow> 0 | Some r \<Rightarrow> ro_hk_version r))))"
proof -
  show "run_endpoint E now rnd EListDevices rq n db s = with_signature E now rq db None s (\<lambda>s'. (s',
    case list_rows (\<lambda>_. as_device) (kv_items (en_kv E) (td_devices db)) of
      Inl e \<Rightarrow> write_api_err e
    | Inr ds \<Rightarrow> reply 200 (BDevices (en_sort_devices E (\<lambda>a b. dv_id a < dv_id b) ds))))"
    unfolding run_endpoint_def endpoint.case handle_list_devices_def
    by (rule arg_cong [where f = "with_signature E now rq db None s"]) (simp add: fun_eq_iff split: sum.split)
  show "run_endpoint E now rnd EGetRecoveryPub rq n db s = with_signature E now rq db None s (\<lambda>s'. (s',
    case load_recovery (en_kv E) db of
      Inl e \<Rightarrow> write_api_err e
    | Inr None \<Rightarrow> write_err 404 ''no recovery key configured''
    | Inr (Some r) \<Rightarrow> reply 200 (BPub (ri_pub_key r))))"
    unfolding run_endpoint_def endpoint.case handle_get_recovery_pub_def with_recovery_def
    by (rule arg_cong [where f = "with_signature E now rq db None s"])
      (simp add: fun_eq_iff split: sum.split option.split)
  show "run_endpoint E now rnd (ERevoke i) rq n db s = with_signature E now rq db None s
    (\<lambda>s'. commit n s' (tx_revoke (en_kv E) db i) (reply 200 (BStatus device_revoked)))"
    by (simp add: run_endpoint_def handle_revoke_def)
  show "run_endpoint E now rnd ERotate rq n db s = with_signature E now rq db None s
    (\<lambda>s'. commit n s' (case jd_rotate (en_json E) (hq_body rq) of
        None \<Rightarrow> Inl (Api 400 ''malformed JSON'') | Some r \<Rightarrow> tx_rotate (en_kv E) db r)
      (reply 200 (BVersion (case jd_rotate (en_json E) (hq_body rq) of None \<Rightarrow> 0 | Some r \<Rightarrow> ro_hk_version r))))"
    unfolding run_endpoint_def endpoint.case handle_rotate_def
    by (rule arg_cong [where f = "with_signature E now rq db None s"])
      (simp add: fun_eq_iff commit_def malformed_def split: option.split)
qed


subsection \<open>The laws\<close>

lemma admin_after:
  assumes "one_tenant n db (wo_server w)"
  shows "world_admitted c w = db_admitted (en_kv (hc_env c)) db" "world_holder c w = db_holder (en_kv (hc_env c)) db"
  by (simp_all add: world_admitted_def world_holder_def world_one [OF assms])

text \<open>Nothing changes when the database of the tenant does not.\<close>

lemma same_db:
  assumes "one_tenant n db (wo_server w)" "one_tenant n db (wo_server w')" and "world_ok c w"
  shows "world_ok c w' \<and> world_streams c w' = world_streams c w \<and> world_deks c w' = world_deks c w \<and>
    world_admitted c w' = world_admitted c w \<and> world_holder c w' = world_holder c w"
  using world_same [OF assms] admin_after [OF assms(1), of c] admin_after [OF assms(2), of c] by simp

lemma world_tenant:
  assumes "world_ok c w"
  obtains n db where "one_tenant n db (wo_server w)" and "db_ok (en_kv (hc_env c)) (en_root (hc_env c)) db"
  using assms by (auto simp: world_ok_def)

lemma list_call:
  assumes "list_dek_wraps c cu limit w = (w', r)" and "world_ok c w"
  shows "world_admitted c w' = world_admitted c w \<and> world_holder c w' = world_holder c w"
proof (rule world_tenant [OF assms(2)])
  fix n db assume one: "one_tenant n db (wo_server w)"
  have "one_tenant n db (wo_server w')"
    by (rule reads_db(1) [OF assms(1) [unfolded list_dek_wraps_def] one engine_mux(4)])
      (simp_all add: engine_paths engine_readers open_paths)
  from same_db [OF one this assms(2)] show ?thesis by blast
qed

lemma hk_admin_call:
  assumes "fetch_hk c d w = (w', r)" and "world_ok c w"
  shows "world_admitted c w' = world_admitted c w \<and> world_holder c w' = world_holder c w"
proof (rule world_tenant [OF assms(2)])
  fix n db assume one: "one_tenant n db (wo_server w)"
  have "one_tenant n db (wo_server w')"
    by (rule reads_db(1) [OF assms(1) [unfolded fetch_hk_def] one engine_mux(3)])
      (simp_all add: engine_paths engine_readers open_paths)
  from same_db [OF one this assms(2)] show ?thesis by blast
qed

lemma recovery_call:
  assumes "fetch_recovery_pub c w = (w', r)" and "world_ok c w"
  shows "world_ok c w' \<and> world_streams c w' = world_streams c w \<and> world_deks c w' = world_deks c w \<and>
    world_admitted c w' = world_admitted c w \<and> world_holder c w' = world_holder c w"
proof (rule world_tenant [OF assms(2)])
  fix n db assume one: "one_tenant n db (wo_server w)"
  have "one_tenant n db (wo_server w')"
    by (rule reads_db(1) [OF assms(1) [unfolded fetch_recovery_pub_def] one admin_mux(2)])
      (simp_all add: engine_paths admin_readers admin_paths)
  from same_db [OF one this assms(2)] show ?thesis by blast
qed

lemma list_rows_all: "list_rows (\<lambda>_. f) rows = Inr xs \<Longrightarrow> map (\<lambda>(_, v). f v) rows = map Some xs"
  by (induction rows arbitrary: xs) (auto split: option.splits sum.splits)

lemma devices_listed:
  assumes K: "bucket K" and ok: "devices_ok K (td_devices db)"
    and rows: "list_rows (\<lambda>_. as_device) (kv_items K (td_devices db)) = Inr ds"
  shows "d \<in> set ds \<longleftrightarrow> device_of K db (dv_id d) = Some d" and "d \<in> set ds \<Longrightarrow> json_device d = d"
proof -
  have mem: "d \<in> set ds \<longleftrightarrow> (\<exists>k v. kv_get K (td_devices db) k = Some v \<and> as_device v = Some d)"
  proof -
    have "d \<in> set ds \<longleftrightarrow> Some d \<in> set (map Some ds)" by auto
    also have "\<dots> \<longleftrightarrow> (\<exists>k v. (k, v) \<in> set (kv_items K (td_devices db)) \<and> as_device v = Some d)"
      unfolding list_rows_all [OF rows, symmetric] by force
    finally show ?thesis using bucket.mem_items [OF K] by simp
  qed
  have key: "dv_id d = k \<and> json_device d = d" if "kv_get K (td_devices db) k = Some v" "as_device v = Some d" for k v
    using ok that unfolding devices_ok_def by fastforce
  show "d \<in> set ds \<longleftrightarrow> device_of K db (dv_id d) = Some d"
    unfolding mem device_of_def using key by (auto split: bind_splits)
  show "d \<in> set ds \<Longrightarrow> json_device d = d" unfolding mem using key by blast
qed

lemma api_err_devices: "as_devices (rp_body (write_api_err e)) = None"
  by (cases e) (simp_all add: write_err_def log_internal_def reply_def as_devices_def)

lemma json_device_fix:
  "json_device d = d \<longleftrightarrow> json_str (dv_id d) = dv_id d \<and> json_str (dv_name d) = dv_name d \<and> json_str (dv_status d) = dv_status d"
  by (cases d) (simp add: json_device_def)

lemma devices_call:
  assumes C: "client_admin_ok c" and run: "list_devices c w = (w', r)" and ok: "world_ok c w"
  shows "world_ok c w' \<and> world_streams c w' = world_streams c w \<and> world_deks c w' = world_deks c w \<and>
    world_admitted c w' = world_admitted c w \<and> world_holder c w' = world_holder c w"
    and "r = Inr ds \<Longrightarrow> (\<forall>d \<in> set ds. json_str (dv_id d) = dv_id d \<and>
        (dv_status d = device_active \<longrightarrow> world_admitted c w (dv_id d) = Some (dv_pub_key d))) \<and>
      (\<forall>i pub. world_admitted c w i = Some pub \<longrightarrow>
        (\<exists>d \<in> set ds. dv_id d = i \<and> dv_pub_key d = pub \<and> dv_status d = device_active))"
proof -
  define E where "E = hc_env c"
  from ok obtain n db where one: "one_tenant n db (wo_server w)" and db: "db_ok (en_kv E) (en_root E) db"
    unfolding E_def by (rule world_tenant)
  let ?f = "case list_rows (\<lambda>_. as_device) (kv_items (en_kv E) (td_devices db)) of
      Inl e \<Rightarrow> write_api_err e
    | Inr ds \<Rightarrow> reply 200 (BDevices (en_sort_devices E (\<lambda>a b. dv_id a < dv_id b) ds))"
  have body: "run_endpoint (hc_env c) now rnd EListDevices rq n db s =
      with_signature (hc_env c) now rq db None s (\<lambda>s'. (s', ?f))" for now rnd rq s
    unfolding E_def by (rule admin_readers)
  have "\<not> is_open_path (ca_path (get_call ''/v1/devices'' []))" by (simp add: engine_paths admin_paths)
  note reads = reads_db [OF run [unfolded list_devices_def] one admin_mux(1) this engine_paths(1) admin_paths(6) body]
  from same_db [OF one reads(1) ok]
  show "world_ok c w' \<and> world_streams c w' = world_streams c w \<and> world_deks c w' = world_deks c w \<and>
    world_admitted c w' = world_admitted c w \<and> world_holder c w' = world_holder c w" .
  assume "r = Inr ds"
  from reads(2) [OF this] have "good_status ?f" "as_devices (rp_body ?f) = Some ds" by auto
  then obtain xs where rows: "list_rows (\<lambda>_. as_device) (kv_items (en_kv E) (td_devices db)) = Inr xs"
      and ds: "ds = map json_device (en_sort_devices E (\<lambda>a b. dv_id a < dv_id b) xs)"
    by (cases "list_rows (\<lambda>_. as_device) (kv_items (en_kv E) (td_devices db))")
      (simp_all add: api_err_devices, simp add: as_devices_def reply_def)
  have K: "bucket (en_kv E)" and sort: "slice_sort (en_sort_devices E)"
    using C by (simp_all add: client_admin_ok_def client_ok_def E_def)
  have dev: "devices_ok (en_kv E) (td_devices db)" using db by (simp add: db_ok_def)
  note listed = devices_listed [OF K dev rows]
  have set: "set ds = set xs" using listed(2) slice_sort.srt_set [OF sort] by (force simp: ds)
  have adm: "world_admitted c w i = Option.bind (device_of (en_kv E) db i) active_key" for i
    using admin_after [OF one, of c] by (simp add: db_admitted_def E_def)
  have id: "device_of (en_kv E) db i = Some d \<Longrightarrow> dv_id d = i" for i d
    using dev by (auto simp: devices_ok_def device_of_def split: bind_splits) (metis as_device_iff doc.inject blob.inject(2) option.inject)
  show "(\<forall>d \<in> set ds. json_str (dv_id d) = dv_id d \<and>
        (dv_status d = device_active \<longrightarrow> world_admitted c w (dv_id d) = Some (dv_pub_key d))) \<and>
      (\<forall>i pub. world_admitted c w i = Some pub \<longrightarrow>
        (\<exists>d \<in> set ds. dv_id d = i \<and> dv_pub_key d = pub \<and> dv_status d = device_active))"
  proof (intro conjI ballI allI impI)
    fix d assume d: "d \<in> set ds"
    then have "json_device d = d" using listed(2) set by simp
    then show "json_str (dv_id d) = dv_id d" unfolding json_device_fix by blast
    show "world_admitted c w (dv_id d) = Some (dv_pub_key d)" if "dv_status d = device_active"
      using d listed(1) [of d] set that by (simp add: adm active_key_def)
  next
    fix i pub assume "world_admitted c w i = Some pub"
    then obtain d where d: "device_of (en_kv E) db i = Some d" "dv_status d = device_active" "dv_pub_key d = pub"
      by (auto simp: adm active_key_def split: bind_splits if_splits)
    from id [OF d(1)] d(1) listed(1) [of d] set have "d \<in> set ds" "dv_id d = i" by simp_all
    with d show "\<exists>d \<in> set ds. dv_id d = i \<and> dv_pub_key d = pub \<and> dv_status d = device_active" by blast
  qed
qed

lemma revoke_call:
  assumes C: "client_admin_ok c" and run: "revoke_device c i w = (w', r)" and ok: "world_ok c w" and i: "segment_id i"
  shows "world_ok c w' \<and> world_streams c w' = world_streams c w \<and> world_deks c w' = world_deks c w \<and>
    (r = Inr () \<longrightarrow> world_admitted c w' = (world_admitted c w)(i := None))"
proof -
  define E where "E = hc_env c"
  from ok obtain n db where one: "one_tenant n db (wo_server w)" and db: "db_ok (en_kv E) (en_root E) db"
    unfolding E_def by (rule world_tenant)
  have K: "bucket (en_kv E)" using C by (simp add: client_admin_ok_def client_ok_def E_def)
  show ?thesis
  proof (rule commits_db [OF run [unfolded revoke_device_def] one revoke_path(1) [OF i] revoke_path(2-4) [OF i],
      where f = "\<lambda>_. tx_revoke (en_kv E) db i" and ok = "\<lambda>_. reply 200 (BStatus device_revoked)"])
    assume "one_tenant n db (wo_server w')" "\<exists>x. r = Inl x"
    with same_db [OF one _ ok] show ?thesis by auto
  next
    fix t db'
    assume tx: "tx_revoke (en_kv E) db i = Inr db'" and one': "one_tenant n db' (wo_server w')"
    from tx obtain dev where dev: "device_of (en_kv E) db i = Some dev"
        "db' = (put_device (en_kv E) db i (dev\<lparr>dv_status := device_revoked\<rparr>))
          \<lparr>td_hk_wraps := kv_del (en_kv E) (td_hk_wraps db) i\<rparr>" by (rule revoke_cases)
    note get = bucket.get_put [OF K]
    have devs: "device_of (en_kv E) db' k =
        (if k = i then Some (json_device (dev\<lparr>dv_status := device_revoked\<rparr>)) else device_of (en_kv E) db k)" for k
      by (simp add: dev(2) device_of_def put_device_def get)
    from db dev(1) have "json_device dev = dev" "dv_id dev = i"
      by (fastforce simp: db_ok_def devices_ok_def device_of_def split: bind_splits)+
    then have "dv_id (json_device (dev\<lparr>dv_status := device_revoked\<rparr>)) = i"
      unfolding json_device_fix by (simp add: json_device_def)
    then have "devices_ok (en_kv E) (td_devices db')"
      using db by (auto simp: db_ok_def devices_ok_def dev(2) put_device_def get json_device_def)
    then have "db_ok (en_kv E) (en_root E) db'" "db_stream (en_kv E) (en_root E) db' = db_stream (en_kv E) (en_root E) db"
        "db_deks (en_kv E) db' = db_deks (en_kv E) db"
      using db by (simp_all add: db_ok_def dev(2) put_device_def db_stream_def db_deks_def fun_eq_iff)
    moreover have "db_admitted (en_kv E) db' = (db_admitted (en_kv E) db)(i := None)"
      by (auto simp: fun_eq_iff db_admitted_def devs active_key_def json_device_def device_revoked_def device_active_def
        ascii_id ascii_byte_def byte_def)
    ultimately show ?thesis
      using world_after [OF one, of c, folded E_def, OF db] world_after [OF one', of c, folded E_def]
        admin_after [OF one, of c, folded E_def] admin_after [OF one', of c, folded E_def] by simp
  next
    show "\<not> good_status (write_api_err err)" if "tx_revoke (en_kv E) db i = Inl err" for err
      using that by (auto simp: tx_revoke_def Let_def split: option.splits)
  qed (simp add: E_def admin_readers)
qed

lemma rotate_call:
  assumes C: "client_admin_ok c" and run: "client_rotate c rq w = (w', r)" and ok: "world_ok c w" and rq: "rotatable rq"
  shows "world_ok c w' \<and> world_streams c w' = world_streams c w \<and> world_admitted c w' = world_admitted c w \<and>
    (r = Inr () \<longrightarrow> dom (world_deks c w') = dom (world_deks c w) \<and>
      (\<forall>k d. world_deks c w' k = Some d \<longrightarrow> d \<in> set (ro_dek_wraps rq)) \<and>
      dom (world_holder c w') = hw_device_id ` set (ro_hk_wraps rq) \<and>
      (\<forall>k h. world_holder c w' k = Some h \<longrightarrow> h \<in> set (ro_hk_wraps rq) \<and> hw_device_id h = k))"
proof -
  define E where "E = hc_env c"
  from ok obtain n db where one: "one_tenant n db (wo_server w)" and db: "db_ok (en_kv E) (en_root E) db"
    unfolding E_def by (rule world_tenant)
  have K: "bucket (en_kv E)" using C by (simp add: client_admin_ok_def client_ok_def E_def)
  let ?f = "\<lambda>rq. case jd_rotate (en_json E) (hq_body rq) of
      None \<Rightarrow> Inl (Api 400 ''malformed JSON'') | Some r \<Rightarrow> tx_rotate (en_kv E) db r"
  let ?a = "post_call ''/v1/keys/rotate'' (je_rotate (hc_enc c) rq)"
  have dec: "jd_rotate (en_json E) (hq_body (call_request c t ?a)) = Some (json_rotate rq)" for t
    using C by (simp add: client_admin_ok_def E_def call_request_def post_call_def)
  show ?thesis
  proof (rule commits_db [OF run [unfolded client_rotate_def] one admin_mux(3), where f = ?f
      and ok = "\<lambda>rq. reply 200 (BVersion (case jd_rotate (en_json E) (hq_body rq) of None \<Rightarrow> 0 | Some r \<Rightarrow> ro_hk_version r))"])
    assume "one_tenant n db (wo_server w')" "\<exists>x. r = Inl x"
    with same_db [OF one _ ok] show ?thesis by auto
  next
    fix t db'
    let ?r = "json_rotate rq"
    assume "?f (call_request c t ?a) = Inr db'" and one': "one_tenant n db' (wo_server w')"
    then have tx: "tx_rotate (en_kv E) db ?r = Inr db'" by (simp add: dec)
    from tx obtain rec where cov: "check_coverage (map fst (kv_items (en_kv E) (td_dek_wraps db))) (ro_dek_wraps ?r) = None"
        and db': "db' = apply_rotate (en_kv E) db rec ?r" by (rule rotate_cases)
    have wraps: "ro_dek_wraps ?r = ro_dek_wraps rq" "ro_hk_wraps ?r = ro_hk_wraps rq" using rotatable_json [OF rq] by simp_all
    note ten = tenant_of_bucket [OF K]
    note b = tenant_store.rotate_buckets [OF ten, where db = db and rec = rec and r = ?r, unfolded wraps]
    have keys: "dk_key_id ` set (ro_dek_wraps rq) = {k. kv_get (en_kv E) (td_dek_wraps db) k \<noteq> None}"
      using check_coverage_ok(1) [OF cov] bucket.key_items [OF K, of _ "td_dek_wraps db"] unfolding wraps by blast
    have dek: "\<exists>d \<in> set (ro_dek_wraps rq). kv_get (en_kv E) (td_dek_wraps db') k = Some (Doc (DDek d)) \<and> dk_key_id d = k"
      if "k \<in> dk_key_id ` set (ro_dek_wraps rq)" for k
      using tenant_store.puts_last [OF ten that] that rq unfolding db' b(3) by (auto simp: rotatable_def)
    have dek_none: "kv_get (en_kv E) (td_dek_wraps db') k = None" if "k \<notin> dk_key_id ` set (ro_dek_wraps rq)" for k
      using that keys unfolding db' b(3) by auto
    have hold: "\<exists>h \<in> set (ro_hk_wraps rq). kv_get (en_kv E) (td_hk_wraps db') k = Some (Doc (DWrap h)) \<and> hw_device_id h = k"
      if "k \<in> hw_device_id ` set (ro_hk_wraps rq)" for k
      using tenant_store.puts_last [OF ten that] that rq unfolding db' b(2) by (auto simp: rotatable_def)
    have hold_none: "kv_get (en_kv E) (td_hk_wraps db') k = None" if "k \<notin> hw_device_id ` set (ro_hk_wraps rq)" for k
      using that unfolding db' b(2) by auto
    have devs: "td_devices db' = td_devices db" unfolding db' by (rule b(1))
    have strm: "td_streams db' = td_streams db" unfolding db' by (simp add: apply_rotate_def set_hk_version_def Let_def)
    have old: "deks_ok (en_kv E) (td_dek_wraps db)" using db by (simp add: db_ok_def)
    have deks: "deks_ok (en_kv E) (td_dek_wraps db')"
      unfolding deks_ok_def
    proof (intro allI impI)
      fix k v assume v: "kv_get (en_kv E) (td_dek_wraps db') k = Some v"
      with dek_none [of k] have k: "k \<in> dk_key_id ` set (ro_dek_wraps rq)" by auto
      with keys old have "k \<noteq> []" unfolding deks_ok_def by blast
      with dek [OF k] v rq show "\<exists>d. v = Doc (DDek d) \<and> dk_key_id d = k \<and> k \<noteq> [] \<and> json_dek d = d"
        by (auto simp: rotatable_def)
    qed
    have db'_ok: "db_ok (en_kv E) (en_root E) db'" using db deks by (simp add: db_ok_def devs strm)
    have dek_map: "db_deks (en_kv E) db' k = Some d \<Longrightarrow> d \<in> set (ro_dek_wraps rq)" for k d
      using dek [of k] dek_none [of k] by (cases "k \<in> dk_key_id ` set (ro_dek_wraps rq)") (auto simp: db_deks_def bucket_deks_def)
    have hold_map: "db_holder (en_kv E) db' k = Some h \<Longrightarrow> h \<in> set (ro_hk_wraps rq) \<and> hw_device_id h = k" for k h
      using hold [of k] hold_none [of k] by (cases "k \<in> hw_device_id ` set (ro_hk_wraps rq)") (auto simp: db_holder_def)
    have "dom (db_deks (en_kv E) db') = dk_key_id ` set (ro_dek_wraps rq)"
      using dek dek_none by (fastforce simp: db_deks_def bucket_deks_def)
    moreover have "dom (db_deks (en_kv E) db) = dk_key_id ` set (ro_dek_wraps rq)"
      unfolding keys using old by (fastforce simp: db_deks_def bucket_deks_def deks_ok_def split: bind_splits)
    moreover have "dom (db_holder (en_kv E) db') = hw_device_id ` set (ro_hk_wraps rq)"
      using hold hold_none by (fastforce simp: db_holder_def)
    ultimately show ?thesis
      using world_after [OF one, of c, folded E_def, OF db] world_after [OF one', of c, folded E_def, OF db'_ok]
        admin_after [OF one, of c, folded E_def] admin_after [OF one', of c, folded E_def] dek_map hold_map devs strm
      by (simp add: db_admitted_def [abs_def] device_of_def [abs_def] db_stream_def [abs_def])
  next
    show "\<not> good_status (write_api_err err)" if "?f q = Inl err" for q err
    proof -
      have wr: "check_wraps K db ws = Some e \<Longrightarrow> \<not> good_status (write_api_err e)" for K and db :: "('a, 'b) tdb" and ws e
        by (induction ws) (auto split: option.splits if_splits)
      have pr: "check_provided ex p ws = Inl e \<Longrightarrow> \<not> good_status (write_api_err e)" for ex p ws e
        by (induction ws arbitrary: p) (auto split: if_splits)
      from that show ?thesis
        by (auto simp: tx_rotate_def check_coverage_def check_recovery_def load_recovery_def wr pr
            split: option.splits if_splits sum.splits)
    qed
  qed (unfold E_def admin_readers, simp_all add: admin_paths engine_paths)
qed

lemma http_key_server:
  assumes C: "client_admin_ok (c :: ('r, 'b) client)"
  shows "key_server (http_api c) (world_streams c) (world_deks c) (world_ok c) (world_admitted c) (world_holder c)"
proof -
  from C have ok: "client_ok c" by (simp add: client_admin_ok_def)
  show ?thesis
  proof (rule key_server.intro [OF http_sync_server [OF ok] key_server_axioms.intro],
      unfold http_api_def api.select_convs, goal_cases)
    case (1 n w w' bs)
    then have "sole_db w' = sole_db w" using random_call [OF 1] by (simp add: sole_db_def)
    then show ?case by (simp add: world_admitted_def world_holder_def)
  next
    case (2 cu limit w w' rl)
    then show ?case by (rule list_call)
  next
    case (3 d w w' rh)
    then show ?case by (rule hk_admin_call)
  next
    case (4 w w' rp)
    then show ?case by (rule recovery_call)
  next
    case (5 w w' rd)
    show ?case using devices_call(1) [OF C 5] devices_call(2) [OF C 5] by blast
  next
    case (6 i w w' rv)
    then show ?case using revoke_call [OF C] by blast
  next
    case (7 rq w w' rr)
    from rotate_call [OF C this] show ?case .
  next
    case (8 w k sd)
    obtain n db where one: "one_tenant n db (wo_server w)" and db: "db_ok (en_kv (hc_env c)) (en_root (hc_env c)) db"
      by (rule world_tenant [OF 8(1)])
    from db have deks: "deks_ok (en_kv (hc_env c)) (td_dek_wraps db)" by (simp add: db_ok_def)
    from 8(2) obtain v where v: "kv_get (en_kv (hc_env c)) (td_dek_wraps db) k = Some v" "as_dek v = Some sd"
      unfolding world_after(3) [OF one db] by (auto simp: db_deks_def bucket_deks_def split: bind_splits)
    with deks obtain d where "v = Doc (DDek d)" "json_dek d = d" unfolding deks_ok_def by blast
    with v(2) show ?case by simp
  qed
qed

lemma demo_admin_ok: "client_admin_ok demo_client"
proof -
  have "get_rotate (put_rotate rq) = json_rotate rq" for rq
    by (cases "ro_recovery_wrap rq")
      (simp_all add: get_rotate_def put_rotate_def json_rotate_def Let_def comp_def get_put_wrap get_put_dek)
  moreover have "slice_sort (stable_sort :: (device \<Rightarrow> device \<Rightarrow> bool) \<Rightarrow> device list \<Rightarrow> device list)"
    by unfold_locales (simp_all add: mset_stable_sort stable_sort_ordered)
  ultimately show ?thesis using demo_client_ok
    by (simp add: client_admin_ok_def demo_client_def demo_env_def field_encoders_def field_decoders_def)
qed

interpretation http: key_server "http_api demo_client" "world_streams demo_client" "world_deks demo_client"
  "world_ok demo_client" "world_admitted demo_client" "world_holder demo_client"
  by (rule http_key_server) (rule demo_admin_ok)


subsection \<open>Properties\<close>

lemma mirrors_rekeyed:
  "(\<And>kid dek. holds_key X hk D kid dek \<Longrightarrow> holds_key X hk' D' kid dek) \<Longrightarrow> mirrors X C hk D S rows \<Longrightarrow>
    mirrors X C hk' D' S rows"
  unfolding mirrors_def good_push_def by meson



end
