(* ===== verification/Regex_Find.thy ===== *)
theory Regex_Find
  imports Regex
begin

text \<open>
  What \<open>FindAllStringSubmatchIndex\<close> of package \<open>regexp\<close> answers for the compiled-in patterns: leftmost
  matches that do not overlap, and of the matches from one place the one a backtracking search finds
  first. The ends of a match come in that order of preference: the left of two alternatives before the
  right, one more repetition before none. A pattern marks at most one group, between two parts.
\<close>

fun star_pref :: "(place \<Rightarrow> place list) \<Rightarrow> nat \<Rightarrow> place \<Rightarrow> place list" where
  "star_pref f 0 p = [p]"
| "star_pref f (Suc n) p =
    concat (map (\<lambda>q. if length (snd q) < length (snd p) then star_pref f n q else []) (f p)) @ [p]"

primrec re_pref :: "regex \<Rightarrow> place \<Rightarrow> place list" where
  "re_pref REps p = [p]"
| "re_pref (RSet P) p =
    (case snd p of [] \<Rightarrow> [] | r # rest \<Rightarrow> if P r then [(r # fst p, rest)] else [])"
| "re_pref (RSeq a b) p = concat (map (re_pref b) (re_pref a p))"
| "re_pref (RAlt a b) p = re_pref a p @ re_pref b p"
| "re_pref (RStar a) p = star_pref (re_pref a) (length (snd p)) p"
| "re_pref RBegin p = (if fst p = [] then [p] else [])"
| "re_pref REnd p = (if snd p = [] then [p] else [])"
| "re_pref RWordB p = (if word_at (fst p) \<noteq> word_at (snd p) then [p] else [])"

datatype pattern = Whole regex | Marked regex regex regex

text \<open>A match: where it starts and ends, and the marked group.\<close>

type_synonym hit = "place \<times> place \<times> (place \<times> place) option"

definition hits_at :: "pattern \<Rightarrow> place \<Rightarrow> hit list" where
  "hits_at pat p =
    (case pat of
       Whole r \<Rightarrow> map (\<lambda>e. (p, e, None)) (re_pref r p)
     | Marked a g b \<Rightarrow>
         concat (map (\<lambda>s. concat (map (\<lambda>t. map (\<lambda>e. (p, e, Some (s, t))) (re_pref b t)) (re_pref g s))) (re_pref a p)))"

fun first_hit :: "pattern \<Rightarrow> rune list \<Rightarrow> rune list \<Rightarrow> hit option" where
  "first_hit pat pre [] = (case hits_at pat (pre, []) of [] \<Rightarrow> None | h # _ \<Rightarrow> Some h)"
| "first_hit pat pre (x # xs) =
    (case hits_at pat (pre, x # xs) of [] \<Rightarrow> first_hit pat (x # pre) xs | h # _ \<Rightarrow> Some h)"

text \<open>
  The loop of \<open>allMatches\<close>: an empty match at the position moves it by one rune, and does not count
  where the match before it ended.
\<close>

function find_all :: "pattern \<Rightarrow> place option \<Rightarrow> place \<Rightarrow> hit list" where
  "find_all pat prev p =
    (case first_hit pat (fst p) (snd p) of
       None \<Rightarrow> []
     | Some (s, e, g) \<Rightarrow>
         if length (snd e) < length (snd p) then (s, e, g) # find_all pat (Some e) e
         else
           (if prev = Some s then [] else [(s, e, g)]) @
           (case snd p of [] \<Rightarrow> [] | x # xs \<Rightarrow> find_all pat (Some e) (x # fst p, xs)))"
  by pat_completeness auto
termination by (relation "measure (\<lambda>(_, _, p). length (snd p))") auto

declare find_all.simps [simp del]


subsection \<open>Matches lie in the text\<close>

text \<open>A place reached from another, and the text they share.\<close>

definition reaches :: "place \<Rightarrow> place \<Rightarrow> bool" where
  "reaches p q \<longleftrightarrow> rev (fst q) @ snd q = rev (fst p) @ snd p \<and> length (fst p) \<le> length (fst q)"

lemma reaches_refl [simp]: "reaches p p"
  by (simp add: reaches_def)

lemma reaches_trans: "reaches p q \<Longrightarrow> reaches q r \<Longrightarrow> reaches p r"
  by (simp add: reaches_def)

lemma star_pref_reaches:
  assumes f: "\<And>p q. q \<in> set (f p) \<Longrightarrow> reaches p q"
  shows "q \<in> set (star_pref f n p) \<Longrightarrow> reaches p q"
proof (induction n arbitrary: p)
  case (Suc n)
  then consider "q = p" | r where "r \<in> set (f p)" "q \<in> set (star_pref f n r)" by (auto split: if_splits)
  then show ?case using f Suc.IH reaches_trans by cases (simp, blast)
qed simp

lemma re_pref_reaches: "q \<in> set (re_pref r p) \<Longrightarrow> reaches p q"
proof (induction r arbitrary: p q)
  case (RSeq a b)
  from RSeq.prems obtain s where "s \<in> set (re_pref a p)" "q \<in> set (re_pref b s)" by auto
  with RSeq.IH show ?case by (blast intro: reaches_trans)
next
  case (RStar a)
  from RStar.prems show ?case by (auto intro: star_pref_reaches [OF RStar.IH])
qed (auto simp: reaches_def split: list.splits if_splits)

text \<open>The preferred ends are the ends.\<close>

lemma star_pref_set:
  "(\<And>p. set (f p) = set (g p)) \<Longrightarrow> set (star_pref f n p) = set (star_ends g n p)"
  by (induction n arbitrary: p) auto

lemma re_pref_ends: "set (re_pref r p) = set (re_ends r p)"
proof (induction r arbitrary: p)
  case (RStar a)
  have "set (star_pref (re_pref a) (length (snd p)) p) = set (star_ends (re_ends a) (length (snd p)) p)"
    by (rule star_pref_set) (rule RStar)
  then show ?case by simp
qed (auto split: list.splits)

definition hit_ok :: "place \<Rightarrow> hit \<Rightarrow> bool" where
  "hit_ok p h \<longleftrightarrow> (case h of (s, e, g) \<Rightarrow> reaches p s \<and> reaches s e \<and>
     (case g of None \<Rightarrow> True | Some (a, b) \<Rightarrow> reaches s a \<and> reaches a b \<and> reaches b e))"

lemma hits_at_ok: "h \<in> set (hits_at pat p) \<Longrightarrow> hit_ok p h"
  by (auto simp: hits_at_def hit_ok_def split: pattern.splits
      dest!: re_pref_reaches intro: reaches_trans)

lemma hit_ok_mono: "reaches p q \<Longrightarrow> hit_ok q h \<Longrightarrow> hit_ok p h"
  by (auto simp: hit_ok_def intro: reaches_trans)

lemma first_hit_ok: "first_hit pat pre post = Some h \<Longrightarrow> hit_ok (pre, post) h"
proof (induction post arbitrary: pre)
  case Nil
  then have "h \<in> set (hits_at pat (pre, []))" by (simp split: list.splits)
  then show ?case by (rule hits_at_ok)
next
  case (Cons x xs)
  have step: "reaches (pre, x # xs) (x # pre, xs)" by (simp add: reaches_def)
  show ?case
  proof (cases "hits_at pat (pre, x # xs)")
    case Nil
    with Cons.prems have "first_hit pat (x # pre) xs = Some h" by simp
    from hit_ok_mono [OF step Cons.IH [OF this]] show ?thesis .
  next
    case (Cons a list)
    with Cons.prems show ?thesis using hits_at_ok [of a pat "(pre, x # xs)"] by simp
  qed
qed

lemma find_all_ok: "h \<in> set (find_all pat prev p) \<Longrightarrow> hit_ok p h"
proof (induction pat prev p rule: find_all.induct)
  case (1 pat prev p)
  show ?case
  proof (cases "first_hit pat (fst p) (snd p)")
    case None
    with "1.prems" show ?thesis by (simp add: find_all.simps)
  next
    case (Some t)
    obtain s e g where t: "t = (s, e, g)" by (cases t) auto
    have ok: "hit_ok p (s, e, g)" using first_hit_ok [of pat "fst p" "snd p"] Some t by simp
    then have pe: "reaches p e" by (auto simp: hit_ok_def intro: reaches_trans)
    show ?thesis
    proof (cases "length (snd e) < length (snd p)")
      case True
      with "1.prems" Some t have "h = (s, e, g) \<or> h \<in> set (find_all pat (Some e) e)"
        by (subst (asm) find_all.simps) simp
      with ok "1.IH"(1) [OF Some t [symmetric] refl True] hit_ok_mono [OF pe] show ?thesis by blast
    next
      case False
      with "1.prems" Some t have cases: "h = (s, e, g) \<or> (\<exists>x xs. snd p = x # xs \<and> h \<in> set (find_all pat (Some e) (x # fst p, xs)))"
        by (subst (asm) find_all.simps) (auto split: if_splits list.splits)
      then show ?thesis
      proof
        assume "\<exists>x xs. snd p = x # xs \<and> h \<in> set (find_all pat (Some e) (x # fst p, xs))"
        then obtain x xs where x: "snd p = x # xs" "h \<in> set (find_all pat (Some e) (x # fst p, xs))" by blast
        have "reaches p (x # fst p, xs)" using x(1) by (simp add: reaches_def)
        with "1.IH"(2) [OF Some t [symmetric] refl False x(1,2)] show ?thesis by (blast intro: hit_ok_mono)
      qed (use ok in simp)
    qed
  qed
qed

end
