(* ===== verification/Redact.thy ===== *)
theory Redact
  imports Regex_Find History_Record
begin

text \<open>
  \<open>internal/redact\<close>: the recording gate. A rule finds the secrets of a text; \<open>redact\<close> replaces each by a
  mark. The built-in table is written out over the patterns of \<open>Regex_Find\<close>; the syntax of the regular
  expressions a user writes, and the YAML of \<open>redact.yml\<close>, are parameters. The gate of
  \<open>internal/cli/record.go\<close> and the loop of the import over it are here too.
\<close>

text \<open>
  A compiled \<open>regexp.Regexp\<close>: \<open>MatchString\<close>, the index pairs of the whole match and of the group
  \<open>secret\<close> that \<open>FindAllStringSubmatchIndex\<close> gives (-1 for a group that took no part), and whether there
  is such a group.
\<close>

type_synonym loc = "(int \<times> int) \<times> (int \<times> int)"

record goregex =
  gx_match :: "string \<Rightarrow> bool"
  gx_find :: "string \<Rightarrow> loc list"
  gx_group :: bool

definition byte_pos :: "(rune \<times> string) list \<Rightarrow> place \<Rightarrow> int" where
  "byte_pos cs p = int (length (concat (map snd (take (length (fst p)) cs))))"

definition hit_loc :: "(rune \<times> string) list \<Rightarrow> hit \<Rightarrow> loc" where
  "hit_loc cs h = (case h of (s, e, g) \<Rightarrow>
     ((byte_pos cs s, byte_pos cs e),
      (case g of None \<Rightarrow> (- 1, - 1) | Some (a, b) \<Rightarrow> (byte_pos cs a, byte_pos cs b))))"

definition compile_pattern :: "pattern \<Rightarrow> goregex" where
  "compile_pattern pat =
    \<lparr>gx_match = (\<lambda>s. first_hit pat [] (runes s) \<noteq> None),
     gx_find = (\<lambda>s. map (hit_loc (chunks s)) (find_all pat None ([], runes s))),
     gx_group = (case pat of Whole _ \<Rightarrow> False | Marked _ _ _ \<Rightarrow> True)\<rparr>"


section \<open>Rules\<close>

record rule =
  ru_name :: string
  ru_re :: goregex
  ru_hints :: "string list"
  ru_fold :: bool
  ru_secret :: bool

definition new_rule :: "string \<Rightarrow> goregex \<Rightarrow> string list \<Rightarrow> bool \<Rightarrow> rule" where
  "new_rule name re hints ci =
    \<lparr>ru_name = name, ru_re = re, ru_hints = hints, ru_fold = ci, ru_secret = gx_group re\<rparr>"

text \<open>Pattern pieces: \<open>r{n}\<close>, \<open>r{n,}\<close>, classes by their bytes.\<close>

definition r_exactly :: "nat \<Rightarrow> regex \<Rightarrow> regex" where
  "r_exactly n r = rseqs (replicate n r)"

definition r_min :: "nat \<Rightarrow> regex \<Rightarrow> regex" where
  "r_min n r = RSeq (r_exactly n r) (RStar r)"

definition in_range :: "nat \<Rightarrow> nat \<Rightarrow> rune \<Rightarrow> bool" where
  "in_range a b r \<longleftrightarrow> a \<le> r \<and> r \<le> b"

definition digit_rune :: "rune \<Rightarrow> bool" where "digit_rune = in_range 48 57"
definition upper_rune :: "rune \<Rightarrow> bool" where "upper_rune = in_range 65 90"
definition lower_rune :: "rune \<Rightarrow> bool" where "lower_rune = in_range 97 122"

definition alnum :: "rune \<Rightarrow> bool" where
  "alnum r \<longleftrightarrow> upper_rune r \<or> lower_rune r \<or> digit_rune r"

definition alnum_or :: "string \<Rightarrow> rune \<Rightarrow> bool" where
  "alnum_or cs r \<longleftrightarrow> alnum r \<or> rune_in cs r"

definition quote_mark :: regex where "quote_mark = RSet (rune_in [CHR 0x22, CHR 0x27])"

definition secret_word :: regex where "secret_word = rplus r_nonspace"

definition builtin :: "string \<Rightarrow> pattern \<Rightarrow> string list \<Rightarrow> bool \<Rightarrow> rule" where
  "builtin name pat hints ci = new_rule name (compile_pattern pat) hints ci"


subsection \<open>The built-in table\<close>

definition pem_block :: rule where
  "pem_block = builtin ''pem-block''
    (Whole (rseqs [rlit ''-----BEGIN '', RStar (RSet (\<lambda>r. upper_rune r \<or> r = 32)), rlit ''PRIVATE KEY-----'']))
    [''-----BEGIN''] False"

definition jwt_segment :: regex where
  "jwt_segment = rseqs [rlit ''eyJ'', r_min 10 (RSet (alnum_or ''_-'')), rlit ''.'']"

definition jwt :: rule where
  "jwt = builtin ''jwt'' (Whole (RSeq jwt_segment jwt_segment)) [''eyJ''] False"

definition aws_access_key :: rule where
  "aws_access_key = builtin ''aws-access-key''
    (Whole (RSeq (ralts [rlit ''AKIA'', rlit ''ASIA'']) (r_exactly 16 (RSet (\<lambda>r. digit_rune r \<or> upper_rune r)))))
    [''AKIA'', ''ASIA''] False"

definition aws_secret :: rule where
  "aws_secret = builtin ''aws-secret''
    (Marked (rseqs [rlit_i ''aws_secret_access_key'', ropt quote_mark, RStar r_space,
       rplus (RSet (rune_in ''=: '')), RStar r_space, ropt quote_mark])
     (r_exactly 40 (fold_class (alnum_or ''/+''))) REps)
    [''aws_secret''] True"

definition github_token :: rule where
  "github_token = builtin ''github-token''
    (Whole (ralts
      [rseqs [rlit ''gh'', RSet (rune_in ''pousr''), rlit ''_'', r_min 20 (RSet alnum)],
       RSeq (rlit ''github_pat_'') (r_min 20 (RSet (alnum_or ''_'')))]))
    [''ghp_'', ''gho_'', ''ghu_'', ''ghs_'', ''ghr_'', ''github_pat_''] False"

definition slack_token :: rule where
  "slack_token = builtin ''slack-token''
    (Whole (rseqs [rlit ''xox'', RSet (rune_in ''baprs''), rlit ''-'', r_min 10 (RSet (alnum_or ''-''))])) [''xox''] False"

definition google_api_key :: rule where
  "google_api_key = builtin ''google-api-key''
    (Whole (RSeq (rlit ''AIza'') (r_exactly 35 (RSet (alnum_or ''_-''))))) [''AIza''] False"

definition stripe_key :: rule where
  "stripe_key = builtin ''stripe-key''
    (Whole (rseqs [RSet (rune_in ''sr''), rlit ''k_'', ralts [rlit ''live'', rlit ''test''], rlit ''_'', r_min 16 (RSet alnum)]))
    [''sk_live'', ''sk_test'', ''rk_live'', ''rk_test''] False"

definition llm_api_key :: rule where
  "llm_api_key = builtin ''llm-api-key'' (Whole (RSeq (rlit ''sk-'') (r_min 32 (RSet (alnum_or ''_-''))))) [''sk-''] False"

definition huggingface_token :: rule where
  "huggingface_token = builtin ''huggingface-token'' (Whole (RSeq (rlit ''hf_'') (r_min 30 (RSet alnum)))) [''hf_''] False"

definition npm_token :: rule where
  "npm_token = builtin ''npm-token'' (Whole (RSeq (rlit ''npm_'') (r_min 30 (RSet alnum)))) [''npm_''] False"

definition pypi_token :: rule where
  "pypi_token = builtin ''pypi-token'' (Whole (RSeq (rlit ''pypi-'') (r_min 32 (RSet (alnum_or ''_-''))))) [''pypi-''] False"

definition sendgrid_key :: rule where
  "sendgrid_key = builtin ''sendgrid-key''
    (Whole (rseqs [rlit ''SG.'', r_min 16 (RSet (alnum_or ''_-'')), rlit ''.'', r_min 16 (RSet (alnum_or ''_-''))]))
    [''SG.''] False"

definition url_userinfo :: rule where
  "url_userinfo = builtin ''url-userinfo''
    (Marked (rseqs [RSet lower_rune, RStar (RSet (\<lambda>r. lower_rune r \<or> digit_rune r \<or> rune_in ''+.-'' r)), rlit ''://'',
       RStar (RSet (\<lambda>r. \<not> rune_in ''/@:'' r \<and> \<not> space_rune r)), rlit '':''])
     (rplus (RSet (\<lambda>r. \<not> rune_in ''/@'' r \<and> \<not> space_rune r))) (rlit ''@''))
    [''://''] False"

definition openssl_passin :: rule where
  "openssl_passin = builtin ''openssl-passin''
    (Marked (rseqs [rlit_i ''openssl'', RWordB, RStar r_any, r_space, rlit ''-'',
       ralts [rlit ''passin'', rlit ''passout'', rlit ''pass''], RSet (rune_in '' =''), rlit ''pass:''])
     secret_word REps)
    [''openssl''] True"

definition gpg_passphrase :: rule where
  "gpg_passphrase = builtin ''gpg-passphrase''
    (Marked (rseqs [rlit_i ''gpg'', RWordB, RStar r_any, rlit ''--passphrase'', RSet (rune_in '' ='')]) secret_word REps)
    [''gpg''] True"

definition sshpass_password :: rule where
  "sshpass_password = builtin ''sshpass-password''
    (Marked (rseqs [rlit_i ''sshpass'', RWordB, RStar r_any, r_space, rlit ''-p'', RStar r_space]) secret_word REps)
    [''sshpass''] True"

definition mysql_password :: rule where
  "mysql_password = builtin ''mysql-password''
    (Marked (rseqs [RBegin, RStar r_space, ralts [rlit_i ''mysql'', rlit_i ''mariadb'', rlit_i ''mysqldump''], RWordB,
       RStar r_any, r_space, ralts [rlit ''-p'', rlit ''--password='']]) secret_word REps)
    [''mysql'', ''mariadb'', ''mysqldump''] True"

definition mongo_password :: rule where
  "mongo_password = builtin ''mongo-password''
    (Marked (rseqs [RBegin, RStar r_space, ralts [rlit_i ''mongosh'', rlit_i ''mongo''], RWordB, RStar r_any,
       ralts [rseqs [r_space, rlit ''-p'', RStar r_space], RSeq (rlit ''--password'') (RSet (rune_in '' =''))]]) secret_word REps)
    [''mongo''] True"

definition smbclient_password :: rule where
  "smbclient_password = builtin ''smbclient-password''
    (Marked (rseqs [RBegin, RStar r_space, rlit_i ''smbclient'', RWordB, RStar r_any,
       ralts [rseqs [rlit ''-U'', RStar r_space, rplus (RSet (\<lambda>r. \<not> space_rune r \<and> r \<noteq> 37)), rlit ''%''],
         RSeq (rlit ''--password'') (RSet (rune_in '' =''))]]) secret_word REps)
    [''smbclient''] True"

definition curl_userpass :: rule where
  "curl_userpass = builtin ''curl-userpass''
    (Marked (rseqs [rlit_i ''curl'', RWordB, RStar r_any, r_space,
       ralts [RSeq (rlit ''-u'') (RStar r_space), RSeq (rlit ''--user'') (RSet (rune_in '' =''))],
       rplus (RSet (\<lambda>r. \<not> space_rune r \<and> r \<noteq> 58)), rlit '':'']) secret_word REps)
    [''curl''] True"

definition wget_password :: rule where
  "wget_password = builtin ''wget-password''
    (Marked (rseqs [rlit_i ''wget'', RWordB, RStar r_any, rlit ''--'',
       ropt (ralts [rlit ''http-'', rlit ''ftp-'', rlit ''proxy-'']), rlit ''passw'', ropt (rlit ''or''), rlit ''d'',
       RSet (rune_in ''= '')]) secret_word REps)
    [''wget''] True"

definition generic_token_assign :: rule where
  "generic_token_assign = builtin ''generic-token-assign''
    (Marked (RSeq (ralts [rlit_i ''token'', rlit_i ''secret'', rseqs [rlit_i ''passw'', ropt (rlit_i ''or''), rlit_i ''d''],
         rseqs [rlit_i ''api'', ropt (fold_class (rune_in ''_-'')), rlit_i ''key''], rlit_i ''auth''])
       (fold_class (rune_in ''=:'')))
     (r_min 6 r_nonspace) REps)
    [''token'', ''secret'', ''passw'', ''apikey'', ''api_key'', ''api-key'', ''auth''] True"

definition secret_prose_assign :: rule where
  "secret_prose_assign = builtin ''secret-prose-assign''
    (Marked (rseqs [RWordB, ralts [rseqs [rlit_i ''api'', ropt (fold_class (rune_in '' _-'')), rlit_i ''key''], rlit_i ''secret'',
         rlit_i ''token'', rlit_i ''password'', rlit_i ''passphrase'', rlit_i ''credential''],
       ropt (rlit_i ''s''), RWordB, RStar r_space, ralts [rlit_i ''is'', rlit_i ''are'', rlit ''='', rlit '':''],
       rplus r_space, ropt quote_mark])
     (r_min 16 (fold_class (alnum_or ''_-+/=''))) REps)
    [''key'', ''secret'', ''token'', ''password'', ''passphrase'', ''credential''] True"

definition env_secret_export :: rule where
  "env_secret_export = builtin ''env-secret-export''
    (Marked (rseqs [RBegin, RStar r_space, ropt (RSeq (rlit_i ''export'') (rplus r_space)),
       RStar (fold_class (\<lambda>r. lower_rune r \<or> digit_rune r \<or> r = 95)),
       ralts [rlit_i ''secret'', rlit_i ''token'', rlit_i ''password'', rlit_i ''passwd'', rlit_i ''apikey'', rlit_i ''api_key'',
         rlit_i ''credentials''],
       RStar (fold_class (\<lambda>r. lower_rune r \<or> digit_rune r \<or> r = 95)), rlit ''='']) secret_word REps)
    [''secret'', ''token'', ''password'', ''passwd'', ''apikey'', ''api_key'', ''credential''] True"

definition builtins :: "rule list" where
  "builtins = [pem_block, jwt, aws_access_key, aws_secret, github_token, slack_token, google_api_key, stripe_key,
     llm_api_key, huggingface_token, npm_token, pypi_token, sendgrid_key, url_userinfo, openssl_passin, gpg_passphrase,
     sshpass_password, mysql_password, mongo_password, smbclient_password, curl_userpass, wget_password,
     generic_token_assign, secret_prose_assign, env_secret_export]"


section \<open>Loading\<close>

record spec =
  sp_name :: string
  sp_pattern :: string
  sp_hints :: "string list"
  sp_fold :: bool

datatype rules_file = FileMissing | FileUnreadable | FileUnparseable | FilePatterns "spec list"

datatype redact_warning =
    RulesMissing | RulesUnreadable | RulesUnparseable | RulesEmpty
  | RuleInvalid string string | RulesAllInvalid | UserInvalid string

record redact_filter =
  fl_rules :: "rule list"
  fl_dirs :: "string list"
  fl_nuser :: nat

text \<open>\<open>regexp.Compile\<close> is the parameter \<open>rx\<close>.\<close>

fun compile_rules :: "(string \<Rightarrow> goregex option) \<Rightarrow> spec list \<Rightarrow> rule list \<times> redact_warning list" where
  "compile_rules rx [] = ([], [])"
| "compile_rules rx (s # ss) =
    (case compile_rules rx ss of (rs, errs) \<Rightarrow>
      if trim_space (sp_pattern s) = [] then (rs, errs)
      else case rx (sp_pattern s) of
        None \<Rightarrow> (rs, RuleInvalid (sp_name s) (sp_pattern s) # errs)
      | Some re \<Rightarrow>
          (new_rule (if sp_name s = [] then ''unnamed'' else sp_name s) re (sp_hints s) (sp_fold s) # rs, errs))"

definition load_base_rules :: "(string \<Rightarrow> goregex option) \<Rightarrow> rules_file \<Rightarrow> rule list \<times> redact_warning list" where
  "load_base_rules rx fl =
    (case fl of
       FileMissing \<Rightarrow> (builtins, [RulesMissing])
     | FileUnreadable \<Rightarrow> (builtins, [RulesUnreadable])
     | FileUnparseable \<Rightarrow> (builtins, [RulesUnparseable])
     | FilePatterns specs \<Rightarrow>
         if specs = [] then (builtins, [RulesEmpty])
         else case compile_rules rx specs of (rs, errs) \<Rightarrow>
           if rs = [] then (builtins, errs @ [RulesAllInvalid]) else (rs, errs))"

definition missing_builtins :: "rules_file \<Rightarrow> string list" where
  "missing_builtins fl =
    (case fl of
       FilePatterns specs \<Rightarrow>
         if specs = [] then []
         else filter (\<lambda>n. n \<notin> sp_name ` set specs) (map ru_name builtins)
     | _ \<Rightarrow> [])"

fun user_rules :: "(string \<Rightarrow> goregex option) \<Rightarrow> string list \<Rightarrow> rule list \<times> redact_warning list" where
  "user_rules rx [] = ([], [])"
| "user_rules rx (p # ps) =
    (case user_rules rx ps of (rs, errs) \<Rightarrow>
      if trim_space p = [] then (rs, errs)
      else case rx p of
        None \<Rightarrow> (rs, UserInvalid p # errs)
      | Some re \<Rightarrow> (new_rule (''user:'' @ p) re [] False # rs, errs))"

definition assemble ::
  "(string \<Rightarrow> goregex option) \<Rightarrow> rule list \<Rightarrow> string list \<Rightarrow> string list \<Rightarrow> redact_warning list
    \<Rightarrow> redact_filter \<times> redact_warning list" where
  "assemble rx base user_patterns ignore_dirs errs =
    (case user_rules rx user_patterns of (rs, uerrs) \<Rightarrow>
      (\<lparr>fl_rules = base @ rs,
        fl_dirs = map path_clean (filter (\<lambda>d. trim_space d \<noteq> []) ignore_dirs),
        fl_nuser = length rs\<rparr>, errs @ uerrs))"

definition redact_new ::
  "(string \<Rightarrow> goregex option) \<Rightarrow> string list \<Rightarrow> string list \<Rightarrow> redact_filter \<times> redact_warning list" where
  "redact_new rx user_patterns ignore_dirs = assemble rx builtins user_patterns ignore_dirs []"

definition redact_load ::
  "(string \<Rightarrow> goregex option) \<Rightarrow> rules_file \<Rightarrow> string list \<Rightarrow> string list
    \<Rightarrow> redact_filter \<times> redact_warning list" where
  "redact_load rx fl user_patterns ignore_dirs =
    (case load_base_rules rx fl of (base, errs) \<Rightarrow> assemble rx base user_patterns ignore_dirs errs)"


section \<open>Matching\<close>

text \<open>\<open>containsFold\<close>: the loop over the hint at a place, and over the places.\<close>

fun fold_at :: "string \<Rightarrow> string \<Rightarrow> bool" where
  "fold_at s [] = True"
| "fold_at [] (c # cs) = False"
| "fold_at (d # ds) (c # cs) = (fold_byte d = c \<and> fold_at ds cs)"

definition contains_fold :: "string \<Rightarrow> string \<Rightarrow> bool" where
  "contains_fold s sub =
    (if sub = [] then True
     else if length s < length sub then False
     else list_ex (\<lambda>i. fold_at (drop i s) sub) [0 ..< length s - length sub + 1])"

definition hints_present :: "string \<Rightarrow> string list \<Rightarrow> bool \<Rightarrow> bool" where
  "hints_present cmd hints ci =
    (hints = [] \<or> list_ex (\<lambda>h. if ci then contains_fold cmd h else str_contains cmd h) hints)"

definition rule_matches :: "string \<Rightarrow> rule \<Rightarrow> bool" where
  "rule_matches cmd r \<longleftrightarrow> hints_present cmd (ru_hints r) (ru_fold r) \<and> gx_match (ru_re r) cmd"

text \<open>\<open>match\<close> and its three readers.\<close>

definition first_rule :: "redact_filter \<Rightarrow> string \<Rightarrow> rule option" where
  "first_rule F cmd = List.find (rule_matches cmd) (fl_rules F)"

definition sensitive :: "redact_filter \<Rightarrow> string \<Rightarrow> bool" where
  "sensitive F cmd \<longleftrightarrow> first_rule F cmd \<noteq> None"

definition reason :: "redact_filter \<Rightarrow> string \<Rightarrow> string" where
  "reason F cmd = (case first_rule F cmd of Some r \<Rightarrow> ru_name r | None \<Rightarrow> [])"

definition num_rules :: "redact_filter \<Rightarrow> nat" where "num_rules F = length (fl_rules F)"

definition secret_rules :: "redact_filter \<Rightarrow> rule list" where
  "secret_rules F = take (length (fl_rules F) - fl_nuser F) (fl_rules F)"

definition ignored_text :: "redact_filter \<Rightarrow> string \<Rightarrow> bool" where
  "ignored_text F s \<longleftrightarrow>
    list_ex (\<lambda>r. gx_match (ru_re r) s) (drop (length (fl_rules F) - fl_nuser F) (fl_rules F))"

definition skip_dir :: "redact_filter \<Rightarrow> string \<Rightarrow> bool" where
  "skip_dir F cwd \<longleftrightarrow> cwd \<noteq> [] \<and>
    (let c = path_clean cwd in list_ex (\<lambda>d. c = d \<or>
      (length d < length c \<and> take (length d) c = d \<and> (d = ''/'' \<or> c ! length d = CHR ''/''))) (fl_dirs F))"


section \<open>Redaction\<close>

text \<open>The brackets of a mark are U+27EA and U+27EB.\<close>

definition mark_prefix :: string where "mark_prefix = [CHR 0xE2, CHR 0x9F, CHR 0xAA] @ ''redacted:''"
definition mark_suffix :: string where "mark_suffix = [CHR 0xE2, CHR 0x9F, CHR 0xAB]"

definition mark :: "string \<Rightarrow> string" where
  "mark name = mark_prefix @ name @ mark_suffix"

definition is_mark :: "string \<Rightarrow> bool" where
  "is_mark s \<longleftrightarrow> has_prefix s mark_prefix \<and> has_suffix s mark_suffix"

record rspan =
  rs_start :: nat
  rs_end :: nat
  rs_rule :: string

definition slice :: "string \<Rightarrow> nat \<Rightarrow> nat \<Rightarrow> string" where
  "slice s a b = take (b - a) (drop a s)"

definition rule_span :: "rule \<Rightarrow> loc \<Rightarrow> int \<times> int" where
  "rule_span r l = (if ru_secret r then snd l else fst l)"

text \<open>What one rule contributes.\<close>

definition rule_found :: "string \<Rightarrow> rule \<Rightarrow> rspan list" where
  "rule_found text r =
    (if \<not> hints_present text (ru_hints r) (ru_fold r) then []
     else concat (map (\<lambda>l. case rule_span r l of (a, b) \<Rightarrow>
       if a < 0 \<or> b \<le> a then []
       else if is_mark (slice text (nat a) (nat b)) then []
       else [\<lparr>rs_start = nat a, rs_end = nat b, rs_rule = ru_name r\<rparr>]) (gx_find (ru_re r) text)))"

definition found_spans :: "redact_filter \<Rightarrow> string \<Rightarrow> rspan list" where
  "found_spans F text = concat (map (rule_found text) (secret_rules F))"

text \<open>The loop that merges: the span it extends, and the spans still to come.\<close>

fun merge_spans :: "rspan \<Rightarrow> rspan list \<Rightarrow> rspan list" where
  "merge_spans l [] = [l]"
| "merge_spans l (s # ss) =
    (if rs_start s \<le> rs_end l
     then merge_spans (if rs_end l < rs_end s then l\<lparr>rs_end := rs_end s\<rparr> else l) ss
     else l # merge_spans s ss)"

definition redact_spans :: "redact_filter \<Rightarrow> string \<Rightarrow> rspan list" where
  "redact_spans F text =
    (case stable_sort (\<lambda>s t. rs_start s < rs_start t) (found_spans F text) of
       [] \<Rightarrow> []
     | s # ss \<Rightarrow> merge_spans s ss)"

text \<open>The splice goes from the last span to the first.\<close>

definition splice :: "rspan list \<Rightarrow> string \<Rightarrow> string" where
  "splice spans text = foldr (\<lambda>s out. take (rs_start s) out @ mark (rs_rule s) @ drop (rs_end s) out) spans text"

fun fired_rules :: "string list \<Rightarrow> rspan list \<Rightarrow> string list" where
  "fired_rules seen [] = []"
| "fired_rules seen (s # ss) =
    (if rs_rule s \<in> set seen then fired_rules seen ss else rs_rule s # fired_rules (rs_rule s # seen) ss)"

definition redact :: "redact_filter \<Rightarrow> string \<Rightarrow> string \<times> string list" where
  "redact F text =
    (if text = [] then (text, [])
     else let spans = redact_spans F text in
       if spans = [] then (text, []) else (splice spans text, fired_rules [] spans))"


section \<open>The gates\<close>

text \<open>\<open>spoolRecord\<close> up to the spool: \<open>keep_space\<close> is \<open>RecordSpacePrefixed\<close>, \<open>i\<close> and \<open>now\<close> a fresh id and the clock.\<close>

definition space_prefixed :: "string \<Rightarrow> bool" where
  "space_prefixed cmd \<longleftrightarrow> (case cmd of [] \<Rightarrow> False | c # _ \<Rightarrow> c = CHR '' '' \<or> c = CHR 0x09)"

definition record_gate :: "redact_filter \<Rightarrow> bool \<Rightarrow> string \<Rightarrow> int \<Rightarrow> hrec \<Rightarrow> hrec option" where
  "record_gate F keep_space i now r =
    (if \<not> keep_space \<and> space_prefixed (r_cmd r) then None
     else if skip_dir F (r_cwd r) \<or> ignored_text F (r_cmd r) then None
     else Some (r\<lparr>r_cmd := fst (redact F (r_cmd r)), r_prompt := fst (redact F (r_prompt r)),
       r_id := (if r_id r = [] then i else r_id r),
       r_start_ms := (if r_start_ms r = 0 then now else r_start_ms r)\<rparr>))"

text \<open>\<open>filterDecision\<close> of \<open>yore filter\<close>: what the shell itself may keep.\<close>

definition filter_decision :: "redact_filter \<Rightarrow> bool \<Rightarrow> string \<Rightarrow> string \<Rightarrow> bool" where
  "filter_decision F keep_space cmd cwd =
    (if \<not> keep_space \<and> space_prefixed cmd then False
     else \<not> (skip_dir F cwd \<or> sensitive F cmd))"

text \<open>The loop of the import over the records of one file, with the count of redacted ones.\<close>

fun import_kept :: "redact_filter \<Rightarrow> hrec list \<Rightarrow> hrec list \<times> nat" where
  "import_kept F [] = ([], 0)"
| "import_kept F (r # rs) =
    (case import_kept F rs of (kept, n) \<Rightarrow>
      if ignored_text F (r_cmd r) then (kept, n)
      else case redact F (r_cmd r) of (cmd, hits) \<Rightarrow>
        if hits \<noteq> [] then (r\<lparr>r_cmd := cmd\<rparr> # kept, n + 1) else (r # kept, n))"


section \<open>Correctness\<close>

text \<open>What the code relies on of a compiled expression: matches end in the text, and \<open>MatchString\<close> agrees.\<close>

definition goregex_ok :: "goregex \<Rightarrow> bool" where
  "goregex_ok re \<longleftrightarrow> (\<forall>s. (gx_find re s \<noteq> [] \<longrightarrow> gx_match re s) \<and>
     (\<forall>l \<in> set (gx_find re s). snd (fst l) \<le> int (length s) \<and> snd (snd l) \<le> int (length s)))"

lemma byte_pos_le: "byte_pos (chunks s) p \<le> int (length s)"
proof -
  have "length (concat (map snd (take n cs))) \<le> length (concat (map snd cs))" for n and cs :: "(rune \<times> string) list"
    by (induction cs arbitrary: n) (auto simp: take_Cons' split: nat.splits)
  from this [of "length (fst p)" "chunks s"] show ?thesis by (simp add: byte_pos_def concat_chunks)
qed

lemma compile_pattern_ok: "goregex_ok (compile_pattern pat)"
proof -
  have "first_hit pat [] (runes s) \<noteq> None" if "find_all pat None ([], runes s) \<noteq> []" for s
    using that by (subst (asm) find_all.simps) (auto split: option.splits)
  then show ?thesis
    by (auto simp: goregex_ok_def compile_pattern_def hit_loc_def byte_pos_le split: option.splits prod.splits)
qed

lemma builtin_sel [simp]: "ru_re (builtin n pat hs ci) = compile_pattern pat" "ru_name (builtin n pat hs ci) = n"
  by (simp_all add: builtin_def new_rule_def)

lemmas builtin_defs = pem_block_def jwt_def aws_access_key_def aws_secret_def github_token_def slack_token_def
  google_api_key_def stripe_key_def llm_api_key_def huggingface_token_def npm_token_def pypi_token_def sendgrid_key_def
  url_userinfo_def openssl_passin_def gpg_passphrase_def sshpass_password_def mysql_password_def mongo_password_def
  smbclient_password_def curl_userpass_def wget_password_def generic_token_assign_def secret_prose_assign_def
  env_secret_export_def

lemma builtins_ok: "\<forall>r \<in> set builtins. goregex_ok (ru_re r)"
  by (simp add: builtins_def builtin_defs compile_pattern_ok)


subsection \<open>Loading\<close>

definition regexp_ok :: "(string \<Rightarrow> goregex option) \<Rightarrow> bool" where
  "regexp_ok rx \<longleftrightarrow> (\<forall>p re. rx p = Some re \<longrightarrow> goregex_ok re)"

lemma compile_rules_ok:
  "regexp_ok rx \<Longrightarrow> \<forall>r \<in> set (fst (compile_rules rx ss)). goregex_ok (ru_re r)"
  by (induction ss) (auto simp: new_rule_def regexp_ok_def split: prod.splits option.splits)

lemma base_rules_ok:
  assumes "regexp_ok rx"
  shows "\<forall>r \<in> set (fst (load_base_rules rx fl)). goregex_ok (ru_re r)"
proof (cases fl)
  case (FilePatterns specs)
  with builtins_ok compile_rules_ok [OF assms, of specs] show ?thesis
    by (simp add: load_base_rules_def split: prod.split)
qed (simp_all add: load_base_rules_def builtins_ok)

lemma load_rules:
  "fl_rules (fst (redact_load rx fl users dirs)) = fst (load_base_rules rx fl) @ fst (user_rules rx users)"
  "secret_rules (fst (redact_load rx fl users dirs)) = fst (load_base_rules rx fl)"
  "fl_nuser (fst (redact_load rx fl users dirs)) = length (fst (user_rules rx users))"
  "fl_dirs (fst (redact_load rx fl users dirs)) = map path_clean (filter (\<lambda>d. trim_space d \<noteq> []) dirs)"
  by (simp_all add: redact_load_def assemble_def secret_rules_def split: prod.splits)

lemma user_rules_iff:
  "r \<in> set (fst (user_rules rx ps)) \<longleftrightarrow>
    (\<exists>p \<in> set ps. trim_space p \<noteq> [] \<and> (\<exists>re. rx p = Some re \<and> r = new_rule (''user:'' @ p) re [] False))"
  by (induction ps) (auto split: prod.splits option.splits)

lemma compile_rules_iff:
  "r \<in> set (fst (compile_rules rx ss)) \<longleftrightarrow>
    (\<exists>s \<in> set ss. trim_space (sp_pattern s) \<noteq> [] \<and> (\<exists>re. rx (sp_pattern s) = Some re \<and>
      r = new_rule (if sp_name s = [] then ''unnamed'' else sp_name s) re (sp_hints s) (sp_fold s)))"
  by (induction ss) (auto split: prod.splits option.splits)


subsection \<open>Merged spans\<close>

definition in_span :: "nat \<Rightarrow> rspan \<Rightarrow> bool" where
  "in_span i s \<longleftrightarrow> rs_start s \<le> i \<and> i < rs_end s"

lemma merge_spans_covers:
  "\<forall>s \<in> set ss. rs_start l \<le> rs_start s \<Longrightarrow> rs_start l < rs_end l \<Longrightarrow> \<forall>s \<in> set ss. rs_start s < rs_end s \<Longrightarrow>
    sorted (map rs_start ss) \<Longrightarrow>
    (\<exists>s \<in> set (merge_spans l ss). in_span i s) \<longleftrightarrow> (\<exists>s \<in> set (l # ss). in_span i s)"
proof (induction l ss rule: merge_spans.induct)
  case (2 l s ss)
  show ?case
  proof (cases "rs_start s \<le> rs_end l")
    case True
    let ?l = "if rs_end l < rs_end s then l\<lparr>rs_end := rs_end s\<rparr> else l"
    have "in_span i ?l \<longleftrightarrow> in_span i l \<or> in_span i s" using 2(3-5) True by (auto simp: in_span_def)
    with 2(1) [OF True] 2(3-6) True show ?thesis by auto
  next
    case False
    with 2(2) [OF False] 2(3-6) show ?thesis by auto
  qed
qed simp

lemma merge_spans_separate:
  "\<forall>s \<in> set ss. rs_start l \<le> rs_start s \<Longrightarrow> rs_start l < rs_end l \<Longrightarrow> \<forall>s \<in> set ss. rs_start s < rs_end s \<Longrightarrow>
    sorted (map rs_start ss) \<Longrightarrow>
    sorted_wrt (\<lambda>s t. rs_end s < rs_start t) (merge_spans l ss) \<and>
    (\<forall>s \<in> set (merge_spans l ss). rs_start l \<le> rs_start s \<and> rs_start s < rs_end s)"
proof (induction l ss rule: merge_spans.induct)
  case (2 l s ss)
  have low: "rs_start l \<le> rs_start s" "rs_start s < rs_end s" "sorted (map rs_start ss)"
    "\<forall>t \<in> set ss. rs_start s \<le> rs_start t" "\<forall>t \<in> set ss. rs_start l \<le> rs_start t"
    "\<forall>t \<in> set ss. rs_start t < rs_end t" using 2(3-6) by simp_all
  show ?case
  proof (cases "rs_start s \<le> rs_end l")
    case True
    let ?l = "if rs_end l < rs_end s then l\<lparr>rs_end := rs_end s\<rparr> else l"
    have l: "rs_start ?l = rs_start l" "rs_start ?l < rs_end ?l" using 2(4) by simp_all
    from 2(1) [OF True _ l(2) low(6,3)] low(5) l(1) True show ?thesis by simp
  next
    case False
    from 2(2) [OF False low(4,2,6,3)]
    have rec: "sorted_wrt (\<lambda>s t. rs_end s < rs_start t) (merge_spans s ss)"
        "\<forall>t \<in> set (merge_spans s ss). rs_start s \<le> rs_start t \<and> rs_start t < rs_end t" by blast+
    have "rs_end l < rs_start t \<and> rs_start l \<le> rs_start t \<and> rs_start t < rs_end t" if "t \<in> set (merge_spans s ss)" for t
      using bspec [OF rec(2) that] False low(1) by linarith
    with rec(1) False 2(4) show ?thesis by simp
  qed
qed simp

lemma merge_spans_ends:
  "s \<in> set (merge_spans l ss) \<Longrightarrow> \<exists>t \<in> set (l # ss). rs_end s = rs_end t"
  by (induction l ss rule: merge_spans.induct) (auto split: if_splits)

lemma merge_spans_names:
  "s \<in> set (merge_spans l ss) \<Longrightarrow> \<exists>t \<in> set (l # ss). rs_start s = rs_start t \<and> rs_rule s = rs_rule t"
  by (induction l ss rule: merge_spans.induct) (auto split: if_splits)


subsection \<open>The splice writes the marks in place of the spans\<close>

fun render :: "nat \<Rightarrow> rspan list \<Rightarrow> string \<Rightarrow> string" where
  "render i [] text = drop i text"
| "render i (s # ss) text = slice text i (rs_start s) @ mark (rs_rule s) @ render (rs_end s) ss text"

lemma slice_at: "i \<le> j \<Longrightarrow> take i text @ slice text i j = take j text"
  by (simp add: slice_def take_add [symmetric])

lemma splice_render:
  "sorted_wrt (\<lambda>s t. rs_end s < rs_start t) ss \<Longrightarrow> \<forall>s \<in> set ss. i \<le> rs_start s \<and> rs_start s < rs_end s \<and> rs_end s \<le> length text \<Longrightarrow>
    splice ss text = take i text @ render i ss text"
proof (induction ss arbitrary: i)
  case (Cons s ss)
  have "\<forall>t \<in> set ss. rs_end s \<le> rs_start t \<and> rs_start t < rs_end t \<and> rs_end t \<le> length text" using Cons.prems by auto
  with Cons have out: "splice ss text = take (rs_end s) text @ render (rs_end s) ss text" by simp
  have le: "rs_start s \<le> rs_end s" "rs_end s \<le> length text" "i \<le> rs_start s" using Cons.prems(2) by auto
  have "splice (s # ss) text = take (rs_start s) (splice ss text) @ mark (rs_rule s) @ drop (rs_end s) (splice ss text)"
    by (simp add: splice_def)
  also have "\<dots> = take (rs_start s) text @ mark (rs_rule s) @ render (rs_end s) ss text"
    unfolding out using le by (simp add: min_absorb1)
  also have "\<dots> = take i text @ render i (s # ss) text"
    using slice_at [OF le(3), of "text"] by (simp add: append_assoc [symmetric] del: append_assoc)
  finally show ?case .
qed (simp add: splice_def)

lemma fired_rules_ok:
  "distinct (fired_rules seen ss) \<and> set (fired_rules seen ss) = rs_rule ` set ss - set seen"
  by (induction seen ss rule: fired_rules.induct) auto

lemma stable_sort_starts: "sorted (map rs_start (stable_sort (\<lambda>s t. rs_start s < rs_start t) xs))"
proof -
  have "strict_weak (\<lambda>s t. rs_start s < rs_start t)" by (auto simp: strict_weak_def)
  from stable_sort_ordered [OF this] show ?thesis by (simp add: sorted_map not_less)
qed

lemma found_in_text:
  assumes "\<forall>r \<in> set (secret_rules F). goregex_ok (ru_re r)" and "s \<in> set (found_spans F text)"
  shows "rs_start s < rs_end s \<and> rs_end s \<le> length text"
proof -
  from assms(2) obtain r l where r: "r \<in> set (secret_rules F)" "l \<in> set (gx_find (ru_re r) text)"
      "fst (rule_span r l) \<ge> 0" "fst (rule_span r l) < snd (rule_span r l)"
      "rs_start s = nat (fst (rule_span r l))" "rs_end s = nat (snd (rule_span r l))"
  proof -
    from assms(2) obtain r where r: "r \<in> set (secret_rules F)" "s \<in> set (rule_found text r)" by (auto simp: found_spans_def)
    from r(2) obtain l where l: "l \<in> set (gx_find (ru_re r) text)" "\<not> (fst (rule_span r l) < 0 \<or> snd (rule_span r l) \<le> fst (rule_span r l))"
        "s = \<lparr>rs_start = nat (fst (rule_span r l)), rs_end = nat (snd (rule_span r l)), rs_rule = ru_name r\<rparr>"
      by (force simp: rule_found_def case_prod_beta split: if_splits)
    from that [OF r(1) l(1)] l(2,3) show thesis by simp
  qed
  with assms(1) have "snd (rule_span r l) \<le> int (length text)" by (auto simp: goregex_ok_def rule_span_def)
  with r show ?thesis by simp
qed

lemma redact_spans_ok:
  assumes "\<forall>r \<in> set (secret_rules F). goregex_ok (ru_re r)"
  shows "sorted_wrt (\<lambda>s t. rs_end s < rs_start t) (redact_spans F text)"
    and "s \<in> set (redact_spans F text) \<Longrightarrow> rs_start s < rs_end s \<and> rs_end s \<le> length text"
    and "(\<exists>s \<in> set (redact_spans F text). in_span i s) \<longleftrightarrow> (\<exists>s \<in> set (found_spans F text). in_span i s)"
    and "s \<in> set (redact_spans F text) \<Longrightarrow> \<exists>t \<in> set (found_spans F text). rs_start s = rs_start t \<and> rs_rule s = rs_rule t"
proof -
  let ?xs = "stable_sort (\<lambda>s t. rs_start s < rs_start t) (found_spans F text)"
  have set: "set ?xs = set (found_spans F text)" by (metis mset_stable_sort set_mset_mset)
  have all: "sorted_wrt (\<lambda>s t. rs_end s < rs_start t) (redact_spans F text) \<and>
      (\<forall>s \<in> set (redact_spans F text). rs_start s < rs_end s \<and> rs_end s \<le> length text \<and>
        (\<exists>t \<in> set (found_spans F text). rs_start s = rs_start t \<and> rs_rule s = rs_rule t)) \<and>
      ((\<exists>s \<in> set (redact_spans F text). in_span i s) \<longleftrightarrow> (\<exists>s \<in> set (found_spans F text). in_span i s))"
  proof (cases ?xs)
    case Nil
    with set show ?thesis by (simp add: redact_spans_def)
  next
    case (Cons l ss)
    have sorted: "sorted (map rs_start ss)" "\<forall>s \<in> set ss. rs_start l \<le> rs_start s"
      using stable_sort_starts [of "found_spans F text"] Cons by auto
    have "rs_start t < rs_end t \<and> rs_end t \<le> length text" if "t \<in> set (l # ss)" for t
    proof (rule found_in_text [OF assms])
      show "t \<in> set (found_spans F text)" using that unfolding set [symmetric] Cons .
    qed
    then have pos: "rs_start l < rs_end l" "\<forall>s \<in> set ss. rs_start s < rs_end s"
      and inside: "\<And>t. t \<in> set (l # ss) \<Longrightarrow> rs_end t \<le> length text" by auto
    note sep = merge_spans_separate [OF sorted(2) pos sorted(1)]
    note cov = merge_spans_covers [OF sorted(2) pos sorted(1), of i]
    have eq: "redact_spans F text = merge_spans l ss" by (simp add: redact_spans_def Cons)
    have found: "set (found_spans F text) = set (l # ss)" using set unfolding Cons by simp
    have "rs_end s \<le> length text" if "s \<in> set (merge_spans l ss)" for s
      using merge_spans_ends [OF that] inside by auto
    with sep cov merge_spans_names [of _ l ss] show ?thesis unfolding eq found by blast
  qed
  show "sorted_wrt (\<lambda>s t. rs_end s < rs_start t) (redact_spans F text)" using all by blast
  show "s \<in> set (redact_spans F text) \<Longrightarrow> rs_start s < rs_end s \<and> rs_end s \<le> length text" using all by blast
  show "(\<exists>s \<in> set (redact_spans F text). in_span i s) \<longleftrightarrow> (\<exists>s \<in> set (found_spans F text). in_span i s)" using all by blast
  show "s \<in> set (redact_spans F text) \<Longrightarrow> \<exists>t \<in> set (found_spans F text). rs_start s = rs_start t \<and> rs_rule s = rs_rule t"
    using all by blast
qed


lemma redact_render:
  assumes "\<forall>r \<in> set (secret_rules F). goregex_ok (ru_re r)"
  shows "fst (redact F text) = render 0 (redact_spans F text) text"
    and "distinct (snd (redact F text)) \<and> set (snd (redact F text)) = rs_rule ` set (redact_spans F text)"
proof -
  note ok = redact_spans_ok [OF assms]
  have none: "redact_spans F text = []" if "text = []"
  proof (cases "redact_spans F text")
    case (Cons a list)
    then have "rs_start a < rs_end a \<and> rs_end a \<le> length text" by (intro ok(2)) simp
    with that show ?thesis by auto
  qed
  have "splice (redact_spans F text) text = render 0 (redact_spans F text) text"
    using ok(2) by (subst splice_render [OF ok(1), where i = 0]) auto
  with none show "fst (redact F text) = render 0 (redact_spans F text) text" by (auto simp: redact_def Let_def)
  show "distinct (snd (redact F text)) \<and> set (snd (redact F text)) = rs_rule ` set (redact_spans F text)"
    using none fired_rules_ok [of "[]" "redact_spans F text"] by (auto simp: redact_def Let_def)
qed

lemma load_ok:
  "regexp_ok rx \<Longrightarrow> \<forall>r \<in> set (secret_rules (fst (redact_load rx fl users dirs))). goregex_ok (ru_re r)"
  by (simp add: load_rules base_rules_ok)

text \<open>A byte of the text is secret: some rule, with its hints present, spans it, and the span is not a mark.\<close>

definition span_at :: "string \<Rightarrow> nat \<Rightarrow> int \<times> int \<Rightarrow> bool" where
  "span_at text i ab \<longleftrightarrow> 0 \<le> fst ab \<and> fst ab \<le> int i \<and> int i < snd ab \<and>
     \<not> is_mark (slice text (nat (fst ab)) (nat (snd ab)))"

definition secret_at :: "redact_filter \<Rightarrow> string \<Rightarrow> nat \<Rightarrow> bool" where
  "secret_at F text i \<longleftrightarrow> list_ex (\<lambda>r. hints_present text (ru_hints r) (ru_fold r) \<and>
     list_ex (\<lambda>l. span_at text i (rule_span r l)) (gx_find (ru_re r) text)) (secret_rules F)"

lemma rule_found_iff:
  "(\<exists>s \<in> set (rule_found text r). in_span i s) \<longleftrightarrow> hints_present text (ru_hints r) (ru_fold r) \<and>
     (\<exists>l \<in> set (gx_find (ru_re r) text). span_at text i (rule_span r l))"
proof -
  define k where "k l = (case rule_span r l of (a, b) \<Rightarrow>
       if a < 0 \<or> b \<le> a then []
       else if is_mark (slice text (nat a) (nat b)) then []
       else [\<lparr>rs_start = nat a, rs_end = nat b, rs_rule = ru_name r\<rparr>])" for l
  have "(\<exists>s \<in> set (k l). in_span i s) \<longleftrightarrow> span_at text i (rule_span r l)" for l
    by (cases "rule_span r l") (auto simp: k_def span_at_def in_span_def)
  moreover have "rule_found text r = (if hints_present text (ru_hints r) (ru_fold r) then concat (map k (gx_find (ru_re r) text)) else [])"
    unfolding rule_found_def k_def [abs_def] by simp
  ultimately show ?thesis by (simp del: split_paired_Ex split_paired_All) blast
qed

lemma found_spans_iff: "(\<exists>s \<in> set (found_spans F text). in_span i s) \<longleftrightarrow> secret_at F text i"
  unfolding secret_at_def list_ex_iff using rule_found_iff by (auto simp: found_spans_def)


text \<open>C20 Redaction masks exactly the secrets. Over the rules of any \<open>redact.yml\<close>, the output of \<open>Redact\<close> is
  the text with some non-empty, disjoint spans replaced by marks; a byte lies in a span exactly when some rule of the
  table, with its hints present, finds it as the secret of a match (and that match is not a mark); and the names
  \<open>Redact\<close> returns are those of the marks written, each once.\<close>

theorem redact_masks:
  assumes "regexp_ok rx"
  shows "\<exists>spans. fst (redact (fst (redact_load rx fl users dirs)) text) = render 0 spans text \<and>
    sorted_wrt (\<lambda>s t. rs_end s < rs_start t) spans \<and>
    list_all (\<lambda>s. rs_start s < rs_end s \<and> rs_end s \<le> length text) spans \<and>
    (\<forall>i. list_ex (in_span i) spans = secret_at (fst (redact_load rx fl users dirs)) text i) \<and>
    distinct (snd (redact (fst (redact_load rx fl users dirs)) text)) \<and>
    set (snd (redact (fst (redact_load rx fl users dirs)) text)) = rs_rule ` set spans"
proof -
  let ?F = "fst (redact_load rx fl users dirs)"
  note ok = redact_spans_ok [OF load_ok [OF assms, of fl users dirs]]
  note out = redact_render [OF load_ok [OF assms, of fl users dirs]]
  have "list_ex (in_span i) (redact_spans ?F text) = secret_at ?F text i" for i
    using ok(3) found_spans_iff by (simp add: list_ex_iff)
  then show ?thesis
    using ok(1,2) out by (intro exI [of _ "redact_spans ?F text"]) (simp add: list_all_iff)
qed

text \<open>A file of one rule, over an expression that finds the tail of a \<open>key=\<close>.\<close>

definition key_spec :: spec where
  "key_spec = \<lparr>sp_name = ''k'', sp_pattern = ''key=x+'', sp_hints = [''key''], sp_fold = False\<rparr>"

definition key_rx :: "string \<Rightarrow> goregex option" where
  "key_rx p = (if p = ''key=x+'' then Some (compile_pattern (Marked (rlit ''key='') (rplus (RSet (rune_in ''x''))) REps)) else None)"

lemma key_rx_ok: "regexp_ok key_rx" by (simp add: regexp_ok_def key_rx_def compile_pattern_ok)

lemma redact_masks_witness:
  "regexp_ok key_rx \<and> (\<exists>spans. fst (redact (fst (redact_load key_rx (FilePatterns [key_spec]) [] [])) ''a key=xx b'') =
      render 0 spans ''a key=xx b'') \<and>
    secret_at (fst (redact_load key_rx (FilePatterns [key_spec]) [] [])) ''a key=xx b'' 6 \<and>
    \<not> secret_at (fst (redact_load key_rx (FilePatterns [key_spec]) [] [])) ''a key=xx b'' 5"
proof (intro conjI)
  show "regexp_ok key_rx" by (rule key_rx_ok)
  show "\<exists>spans. fst (redact (fst (redact_load key_rx (FilePatterns [key_spec]) [] [])) ''a key=xx b'') =
      render 0 spans ''a key=xx b''"
    using redact_masks [OF key_rx_ok, of "FilePatterns [key_spec]" "[]" "[]" "''a key=xx b''"] by blast
  show "secret_at (fst (redact_load key_rx (FilePatterns [key_spec]) [] [])) ''a key=xx b'' 6" by code_simp
  show "\<not> secret_at (fst (redact_load key_rx (FilePatterns [key_spec]) [] [])) ''a key=xx b'' 5" by code_simp
qed


subsection \<open>The table never empties\<close>

definition usable :: "(string \<Rightarrow> goregex option) \<Rightarrow> spec \<Rightarrow> bool" where
  "usable rx s \<longleftrightarrow> trim_space (sp_pattern s) \<noteq> [] \<and> rx (sp_pattern s) \<noteq> None"

definition spec_rule :: "(string \<Rightarrow> goregex option) \<Rightarrow> spec \<Rightarrow> rule" where
  "spec_rule rx s =
    new_rule (if sp_name s = [] then ''unnamed'' else sp_name s) (the (rx (sp_pattern s))) (sp_hints s) (sp_fold s)"

lemma compile_rules_map: "fst (compile_rules rx ss) = map (spec_rule rx) (filter (usable rx) ss)"
  by (induction ss) (auto simp: usable_def spec_rule_def split: prod.splits option.splits)

text \<open>C21 A broken \<open>redact.yml\<close> never turns redaction off. The table is the rules of the file whose pattern
  compiles, in its order; when there is none (the file missing, unreadable, not YAML, without patterns, or with no
  pattern that compiles) it is the whole built-in table, and the caller is warned.\<close>

theorem redact_never_off:
  "secret_rules (fst (redact_load rx fl users dirs)) =
     (case fl of
        FilePatterns specs \<Rightarrow>
          if list_ex (usable rx) specs then map (spec_rule rx) (filter (usable rx) specs) else builtins
      | _ \<Rightarrow> builtins) \<and>
   secret_rules (fst (redact_load rx fl users dirs)) \<noteq> [] \<and>
   \<not> (snd (redact_load rx fl users dirs) = [] \<and>
      \<not> (case fl of FilePatterns specs \<Rightarrow> list_ex (usable rx) specs | _ \<Rightarrow> False))"
proof -
  have "builtins \<noteq> []" by (simp add: builtins_def)
  have warn: "snd (redact_load rx fl users dirs) \<noteq> []" if "snd (load_base_rules rx fl) \<noteq> []"
    using that by (cases "load_base_rules rx fl") (simp add: redact_load_def assemble_def split: prod.splits)
  show ?thesis
  proof (cases fl)
    case (FilePatterns specs)
    have some: "(filter (usable rx) specs = []) \<longleftrightarrow> \<not> list_ex (usable rx) specs"
      by (auto simp: list_ex_iff filter_empty_conv)
    have base: "fst (load_base_rules rx fl) =
        (if list_ex (usable rx) specs then map (spec_rule rx) (filter (usable rx) specs) else builtins)"
      using compile_rules_map [of rx specs] some
      by (auto simp: load_base_rules_def FilePatterns split: prod.splits)
    have "snd (load_base_rules rx fl) \<noteq> []" if "\<not> list_ex (usable rx) specs"
      using compile_rules_map [of rx specs] some that
      by (auto simp: load_base_rules_def FilePatterns split: prod.splits)
    with warn base some \<open>builtins \<noteq> []\<close> show ?thesis by (auto simp: load_rules FilePatterns)
  qed (use warn \<open>builtins \<noteq> []\<close> in \<open>simp_all add: load_rules load_base_rules_def\<close>)
qed



subsection \<open>The gates agree\<close>

lemma fold_at_prefix: "fold_at s sub \<longleftrightarrow> has_prefix (map fold_byte s) sub"
  by (induction s sub rule: fold_at.induct) (auto simp: has_prefix_def)

lemma user_rules_plain:
  "r \<in> set (fst (user_rules rx ps)) \<Longrightarrow> ru_hints r = [] \<and> ru_fold r = False"
  by (auto simp: user_rules_iff new_rule_def)

lemma not_sensitive:
  "\<not> sensitive F cmd \<longleftrightarrow> (\<forall>r \<in> set (fl_rules F). \<not> rule_matches cmd r)"
  by (auto simp: sensitive_def first_rule_def find_None_iff)

lemma redact_untouched:
  assumes "\<forall>r \<in> set (secret_rules F). goregex_ok (ru_re r)" "\<not> sensitive F cmd"
  shows "redact F cmd = (cmd, [])"
proof -
  have "rule_found cmd r = []" if r: "r \<in> set (secret_rules F)" for r
  proof -
    have "r \<in> set (fl_rules F)" using r by (auto simp: secret_rules_def dest: in_set_takeD)
    with assms(2) have "\<not> hints_present cmd (ru_hints r) (ru_fold r) \<or> \<not> gx_match (ru_re r) cmd"
      by (auto simp: not_sensitive rule_matches_def)
    moreover have "gx_find (ru_re r) cmd = []" if "\<not> gx_match (ru_re r) cmd"
      using assms(1) r that by (auto simp: goregex_ok_def)
    ultimately show ?thesis by (auto simp: rule_found_def)
  qed
  then have "found_spans F cmd = []" by (simp add: found_spans_def)
  then show ?thesis by (simp add: redact_def redact_spans_def)
qed

lemma load_ignored:
  assumes "\<not> sensitive (fst (redact_load rx fl users dirs)) cmd"
  shows "\<not> ignored_text (fst (redact_load rx fl users dirs)) cmd"
proof -
  have "\<not> gx_match (ru_re r) cmd" if "r \<in> set (fst (user_rules rx users))" for r
    using assms that user_rules_plain [OF that]
    by (auto simp: not_sensitive load_rules rule_matches_def hints_present_def)
  then show ?thesis by (auto simp: ignored_text_def load_rules list_ex_iff)
qed

text \<open>C22 The shell never keeps what the log would mask or drop. A command \<open>yore filter\<close> lets into the shell's own
  history is one \<open>yore record\<close> spools, with the command unchanged.\<close>

theorem shell_keeps_what_is_recorded:
  assumes "regexp_ok rx"
    and "filter_decision (fst (redact_load rx fl users dirs)) keep_space (r_cmd r) (r_cwd r)"
  shows "\<exists>r'. record_gate (fst (redact_load rx fl users dirs)) keep_space i now r = Some r' \<and>
    r_cmd r' = r_cmd r \<and> r_cwd r' = r_cwd r"
proof -
  let ?F = "fst (redact_load rx fl users dirs)"
  have keep: "\<not> (\<not> keep_space \<and> space_prefixed (r_cmd r))" "\<not> skip_dir ?F (r_cwd r)" "\<not> sensitive ?F (r_cmd r)"
    using assms(2) by (auto simp: filter_decision_def split: if_splits)
  from keep(1,2) load_ignored [OF keep(3)] redact_untouched [OF load_ok [OF assms(1)] keep(3)] show ?thesis
    by (simp add: record_gate_def)
qed


lemma shell_keeps_what_is_recorded_witness:
  "filter_decision (fst (redact_load key_rx (FilePatterns [key_spec]) [] [])) False ''ls key'' ''/home'' \<and>
    (\<exists>r'. record_gate (fst (redact_load key_rx (FilePatterns [key_spec]) [] [])) False ''i'' 5
        (zero_rec\<lparr>r_cmd := ''ls key'', r_cwd := ''/home''\<rparr>) = Some r' \<and> r_cmd r' = ''ls key'')"
proof
  show keep: "filter_decision (fst (redact_load key_rx (FilePatterns [key_spec]) [] [])) False ''ls key'' ''/home''"
    by code_simp
  show "\<exists>r'. record_gate (fst (redact_load key_rx (FilePatterns [key_spec]) [] [])) False ''i'' 5
        (zero_rec\<lparr>r_cmd := ''ls key'', r_cwd := ''/home''\<rparr>) = Some r' \<and> r_cmd r' = ''ls key''"
    using shell_keeps_what_is_recorded [OF key_rx_ok, of "FilePatterns [key_spec]" "[]" "[]" False
        "zero_rec\<lparr>r_cmd := ''ls key'', r_cwd := ''/home''\<rparr>" "''i''" 5] keep by auto
qed

lemma contains_fold_iff: "contains_fold s sub \<longleftrightarrow> str_contains (map fold_byte s) sub"
proof -
  let ?s = "map fold_byte s"
  have at: "fold_at (drop i s) sub \<longleftrightarrow> (\<exists>b. drop i ?s = sub @ b)" for i
    by (simp add: fold_at_prefix has_prefix_iff drop_map)
  have fits: "(\<exists>i < length s - length sub + 1. fold_at (drop i s) sub) \<longleftrightarrow> (\<exists>a b. ?s = a @ sub @ b)" if "length sub \<le> length s"
  proof
    assume "\<exists>i < length s - length sub + 1. fold_at (drop i s) sub"
    then show "\<exists>a b. ?s = a @ sub @ b" unfolding at by (metis append_take_drop_id)
  next
    assume "\<exists>a b. ?s = a @ sub @ b"
    then obtain a b where ab: "?s = a @ sub @ b" by blast
    then have "length s = length a + length sub + length b" by (metis length_append length_map add.assoc)
    moreover have "fold_at (drop (length a) s) sub" unfolding at ab by simp
    ultimately show "\<exists>i < length s - length sub + 1. fold_at (drop i s) sub"
      by (intro exI [of _ "length a"]) simp
  qed
  have short: "\<not> (\<exists>a b. ?s = a @ sub @ b)" if "length s < length sub"
    using that by (metis length_append length_map not_add_less1 add.left_commute)
  have range: "list_ex P [0 ..< n] \<longleftrightarrow> (\<exists>i < n. P i)" for P n by (auto simp: list_ex_iff)
  consider "sub = []" | "length s < length sub" "sub \<noteq> []" | "length sub \<le> length s" "sub \<noteq> []" by linarith
  then show ?thesis
  proof cases
    case 1
    have "\<exists>a b. ?s = a @ [] @ b" by (metis append_Nil)
    with 1 show ?thesis by (simp add: contains_fold_def str_contains_iff)
  next
    case 2
    with short show ?thesis by (simp add: contains_fold_def str_contains_iff)
  next
    case 3
    with fits show ?thesis unfolding contains_fold_def str_contains_iff range by simp
  qed
qed

lemma skip_dir_iff:
  "skip_dir F cwd \<longleftrightarrow> cwd \<noteq> [] \<and> (\<exists>d \<in> set (fl_dirs F). path_clean cwd = d \<or>
     (\<exists>c rest. path_clean cwd = d @ c # rest \<and> (d = ''/'' \<or> c = CHR ''/'')))"
proof -
  have "length d < length p \<and> take (length d) p = d \<and> (d = ''/'' \<or> p ! length d = CHR ''/'') \<longleftrightarrow>
      (\<exists>c rest. p = d @ c # rest \<and> (d = ''/'' \<or> c = CHR ''/''))" for d p :: string
    by (metis append_take_drop_id id_take_nth_drop length_append list.size(4) append_eq_conv_conj nth_append_length
        less_add_same_cancel1 zero_less_Suc add_Suc_right)
  then show ?thesis by (simp add: skip_dir_def Let_def list_ex_iff)
qed

lemma import_kept_iff:
  "import_kept F rs = (map (\<lambda>r. r\<lparr>r_cmd := fst (redact F (r_cmd r))\<rparr>) (filter (\<lambda>r. \<not> ignored_text F (r_cmd r)) rs),
     length (filter (\<lambda>r. \<not> ignored_text F (r_cmd r) \<and> snd (redact F (r_cmd r)) \<noteq> []) rs))"
proof (induction rs)
  case (Cons r rs)
  have "fst (redact F c) = c" if "snd (redact F c) = []" for c
  proof (cases "redact_spans F c")
    case (Cons s ss)
    with that show ?thesis by (auto simp: redact_def Let_def split: if_splits)
  qed (simp add: redact_def Let_def)
  with Cons show ?case by (auto split: prod.splits)
qed simp

text \<open>A port leaks the password. The built-in \<open>sshpass\<close> rule takes the last \<open>-p\<close> of the line, so a command
  with a port after the password has the port masked and the password stored.\<close>

theorem sshpass_port_leaks:
  "redact (fst (redact_new rx [] [])) ''sshpass -p hunter2 ssh -p 22 a@b'' =
     (''sshpass -p hunter2 ssh -p '' @ mark ''sshpass-password'' @ '' a@b'', [''sshpass-password''])"
proof -
  have "redact (fst (redact_new (\<lambda>_. None) [] [])) ''sshpass -p hunter2 ssh -p 22 a@b'' =
     (''sshpass -p hunter2 ssh -p '' @ mark ''sshpass-password'' @ '' a@b'', [''sshpass-password''])" by code_simp
  then show ?thesis by (simp add: redact_new_def assemble_def)
qed

end
