(* ===== verification/Daemon_Files.thy ===== *)
theory Daemon_Files
  imports Prelude
begin

text \<open>
  \<open>daemon/backup.go\<close> and \<open>daemon/log.go\<close>: the rolling backups of the database, and the log bounded by rotation.
  The directory of backups is an association list from names to contents; \<open>srt\<close> is \<open>sort.Slice\<close>.
\<close>

section \<open>Backups\<close>

definition backup_timestamp :: "string \<Rightarrow> int option" where
  "backup_timestamp name =
    (if \<not> has_prefix name ''data-'' \<or> \<not> has_suffix name ''.db'' then None
     else parse_int64 (trim_suffix (trim_prefix name ''data-'') ''.db''))"

type_synonym stamped = "string \<times> int"

definition backups_among :: "string list \<Rightarrow> stamped list" where
  "backups_among names =
    concat (map (\<lambda>n. case backup_timestamp n of None \<Rightarrow> [] | Some ts \<Rightarrow> [(n, ts)]) names)"

definition backups_to_prune ::
  "((stamped \<Rightarrow> stamped \<Rightarrow> bool) \<Rightarrow> stamped list \<Rightarrow> stamped list) \<Rightarrow> string list \<Rightarrow> int \<Rightarrow> string list" where
  "backups_to_prune srt names keep =
    (let backups = backups_among names; keep = (if keep < 0 then 0 else keep)
     in if int (length backups) \<le> keep then []
        else map fst (take (length backups - nat keep) (srt (\<lambda>a b. snd a < snd b) backups)))"

text \<open>What the file system refuses; a directory that cannot be read is not pruned, and a file that cannot be removed
  stays, which does not stop the others.\<close>

datatype backup_fault = NoFault | NoDir | NoSnapshot | NoRename | NoList | NoRemove "string set"

definition prune_backups ::
  "((stamped \<Rightarrow> stamped \<Rightarrow> bool) \<Rightarrow> stamped list \<Rightarrow> stamped list) \<Rightarrow> backup_fault \<Rightarrow> int \<Rightarrow> (string \<times> 'f) list \<Rightarrow> (string \<times> 'f) list" where
  "prune_backups srt fault keep dir =
    (if fault = NoList then dir
     else let gone = set (backups_to_prune srt (map fst dir) keep) - (case fault of NoRemove S \<Rightarrow> S | _ \<Rightarrow> {})
          in filter (\<lambda>(n, _). n \<notin> gone) dir)"

definition backup_name :: "int \<Rightarrow> string" where
  "backup_name millis = ''data-'' @ format_int millis @ ''.db''"

text \<open>\<open>doBackup\<close>: the snapshot goes to a temporary file, which is renamed when it is complete and removed otherwise.\<close>

definition do_backup ::
  "((stamped \<Rightarrow> stamped \<Rightarrow> bool) \<Rightarrow> stamped list \<Rightarrow> stamped list) \<Rightarrow> backup_fault \<Rightarrow> int \<Rightarrow> int \<Rightarrow> 'f \<Rightarrow> (string \<times> 'f) list
    \<Rightarrow> (string \<times> 'f) list" where
  "do_backup srt fault keep now contents dir =
    (if fault = NoDir \<or> fault = NoSnapshot \<or> fault = NoRename then dir
     else prune_backups srt fault keep ((backup_name now, contents) # filter (\<lambda>(n, _). n \<noteq> backup_name now) dir))"


section \<open>The rotating log\<close>

text \<open>\<open>rl_segs 0\<close> is the file written to, \<open>rl_segs i\<close> the segment with suffix \<open>i\<close>; \<open>rl_open\<close> says whether the file
  handle is usable.\<close>

record rot_log =
  rl_segs :: "nat \<Rightarrow> string option"
  rl_max :: int
  rl_keep :: nat
  rl_open :: bool
  rl_size :: int

text \<open>\<open>newRotatingWriter\<close>, when the file can be opened.\<close>

definition new_log :: "int \<Rightarrow> nat \<Rightarrow> (nat \<Rightarrow> string option) \<Rightarrow> rot_log" where
  "new_log mx keep segs =
    (let cur = (case segs 0 of None \<Rightarrow> [] | Some t \<Rightarrow> t)
     in \<lparr>rl_segs = segs(0 := Some cur), rl_max = mx, rl_keep = keep, rl_open = True, rl_size = int (length cur)\<rparr>)"

text \<open>\<open>os.Rename\<close>, whose failure is ignored.\<close>

definition rename_seg :: "nat \<Rightarrow> nat \<Rightarrow> (nat \<Rightarrow> string option) \<Rightarrow> nat \<Rightarrow> string option" where
  "rename_seg i j segs = (case segs i of None \<Rightarrow> segs | Some t \<Rightarrow> segs(j := Some t, i := None))"

fun shift_segs :: "nat \<Rightarrow> (nat \<Rightarrow> string option) \<Rightarrow> nat \<Rightarrow> string option" where
  "shift_segs 0 segs = segs"
| "shift_segs (Suc i) segs = shift_segs i (rename_seg (Suc i) (Suc (Suc i)) segs)"

text \<open>\<open>rotate\<close>: whether it succeeded; \<open>opens\<close> says whether the new file can be created.\<close>

definition rotate_log :: "bool \<Rightarrow> rot_log \<Rightarrow> rot_log \<times> bool" where
  "rotate_log opens l =
    (if \<not> rl_open l then (l, False)
     else let segs = rename_seg 0 1 (shift_segs (rl_keep l - 1) ((rl_segs l)(rl_keep l := None)));
              l' = l\<lparr>rl_segs := segs, rl_open := False\<rparr>
          in if \<not> opens then (l', False)
             else (l'\<lparr>rl_segs := segs(0 := Some (case segs 0 of None \<Rightarrow> [] | Some t \<Rightarrow> t)), rl_open := True, rl_size := 0\<rparr>, True))"

text \<open>\<open>Write\<close>: the number of bytes written, and whether there was no error; the system takes \<open>took\<close> bytes of it.\<close>

definition log_append :: "nat \<Rightarrow> string \<Rightarrow> rot_log \<Rightarrow> rot_log \<times> nat \<times> bool" where
  "log_append took p l =
    (if \<not> rl_open l then (l, 0, False)
     else let w = take took p
          in (l\<lparr>rl_segs := (rl_segs l)(0 := Some (the (rl_segs l 0) @ w)), rl_size := rl_size l + int (length w)\<rparr>,
              length w, length w = length p))"

definition log_write :: "bool \<Rightarrow> nat \<Rightarrow> string \<Rightarrow> rot_log \<Rightarrow> rot_log \<times> nat \<times> bool" where
  "log_write opens took p l =
    (if rl_size l > 0 \<and> rl_size l + int (length p) > rl_max l
     then (case rotate_log opens l of (l', ok) \<Rightarrow> if \<not> ok then (l', 0, False) else log_append took p l')
     else log_append took p l)"

definition log_close :: "rot_log \<Rightarrow> rot_log" where
  "log_close l = l\<lparr>rl_open := False\<rparr>"


section \<open>What is pruned\<close>

lemma in_backups: "(n, ts) \<in> set (backups_among names) \<longleftrightarrow> n \<in> set names \<and> backup_timestamp n = Some ts"
  by (auto simp: backups_among_def split: option.splits)

lemma backups_Cons: "backups_among (n # ns) = (case backup_timestamp n of None \<Rightarrow> [] | Some ts \<Rightarrow> [(n, ts)]) @ backups_among ns"
  by (simp add: backups_among_def)

lemma backups_distinct: "distinct names \<Longrightarrow> distinct (map fst (backups_among names))"
proof (induction names)
  case (Cons n ns)
  have "(n, ts) \<notin> set (backups_among ns)" for ts using Cons.prems by (simp add: in_backups)
  then have "n \<notin> fst ` set (backups_among ns)" by force
  with Cons show ?case by (simp add: backups_Cons split: option.split)
qed (simp add: backups_among_def)

lemma stamp_order: "strict_weak (\<lambda>a b. snd a < snd (b :: stamped))"
  by (auto simp: strict_weak_def)

text \<open>The pruned names and the others, split along the sorted list.\<close>

lemma prune_split:
  assumes "slice_sort srt" and "distinct names"
  obtains olds news where "map fst olds = backups_to_prune srt names keep" "set (backups_among names) = set olds \<union> set news"
    "distinct (map fst (olds @ news))" "\<And>a b. a \<in> set olds \<Longrightarrow> b \<in> set news \<Longrightarrow> snd a \<le> snd b"
    "int (length news) = min (int (length (backups_among names))) (max 0 keep)"
    "length olds + length news = length (backups_among names)"
proof -
  let ?b = "backups_among names"
  let ?s = "srt (\<lambda>a b. snd a < snd b) ?b"
  let ?k = "if keep < 0 then 0 else keep"
  let ?n = "if int (length ?b) \<le> ?k then 0 else length ?b - nat ?k"
  have m: "mset ?s = mset ?b" by (rule slice_sort.srt_mset [OF assms(1)])
  have len: "length ?s = length ?b" using m by (metis size_mset)
  have set: "set ?s = set ?b" using m by (metis set_mset_mset)
  have "distinct (map fst ?s)" using m backups_distinct [OF assms(2)] by (metis mset_eq_imp_distinct_iff mset_map)
  moreover have ord: "sorted_wrt (\<lambda>a b. snd a \<le> snd b) ?s"
    using slice_sort.srt_ordered [OF assms(1) stamp_order, of ?b] by (simp add: not_less)
  have "snd a \<le> snd b" if "a \<in> set (take ?n ?s)" "b \<in> set (drop ?n ?s)" for a b
  proof -
    have "sorted_wrt (\<lambda>a b. snd a \<le> snd b) (take ?n ?s @ drop ?n ?s)" unfolding append_take_drop_id by (rule ord)
    with that show ?thesis unfolding sorted_wrt_append by blast
  qed
  moreover have "set ?b = set (take ?n ?s) \<union> set (drop ?n ?s)"
    unfolding set [symmetric] set_append [symmetric] append_take_drop_id ..
  ultimately show ?thesis
    by (intro that [of "take ?n ?s" "drop ?n ?s"]) (auto simp: backups_to_prune_def Let_def len)
qed

text \<open>Pruning keeps the newest. Of the backups in a directory as many stay as were asked for, or all when there
  are fewer; none that goes is newer than one that stays; and a file that is not named like a backup is never
  touched.\<close>

theorem prune_keeps_newest_backups:
  assumes "slice_sort srt" and "distinct names"
  shows "let gone = set (backups_to_prune srt names keep);
             kept = filter (\<lambda>(n, _). n \<notin> gone) (backups_among names)
         in gone \<subseteq> fst ` set (backups_among names) \<and>
            int (length kept) = min (int (length (backups_among names))) (max 0 keep) \<and>
            (\<forall>(n, ts) \<in> set (backups_among names). \<forall>(n', ts') \<in> set kept. n \<in> gone \<longrightarrow> ts \<le> ts')"
proof -
  obtain olds news where p: "map fst olds = backups_to_prune srt names keep" "set (backups_among names) = set olds \<union> set news"
    "distinct (map fst (olds @ news))" "\<And>a b. a \<in> set olds \<Longrightarrow> b \<in> set news \<Longrightarrow> snd a \<le> snd b"
    "int (length news) = min (int (length (backups_among names))) (max 0 keep)"
    by (rule prune_split [OF assms, of keep]) (rule that, assumption+)
  let ?gone = "set (backups_to_prune srt names keep)"
  let ?kept = "filter (\<lambda>(n, _). n \<notin> ?gone) (backups_among names)"
  have gone: "?gone = fst ` set olds" by (simp add: p(1) [symmetric])
  have dis: "fst ` set olds \<inter> fst ` set news = {}" using p(3) by auto
  have old: "x \<in> set olds" if "x \<in> set (backups_among names)" "fst x \<in> ?gone" for x
  proof -
    have "x \<in> set news \<Longrightarrow> fst x \<notin> ?gone" using dis unfolding gone by blast
    with that show ?thesis unfolding p(2) by blast
  qed
  have mem: "x \<in> set ?kept \<longleftrightarrow> x \<in> set (backups_among names) \<and> fst x \<notin> ?gone" for x by auto
  have kept: "set ?kept = set news"
  proof (rule set_eqI)
    fix x
    have "x \<in> set news \<Longrightarrow> fst x \<notin> ?gone" using dis unfolding gone by blast
    moreover have "x \<in> set olds \<Longrightarrow> fst x \<in> ?gone" unfolding gone by blast
    ultimately show "x \<in> set ?kept \<longleftrightarrow> x \<in> set news" unfolding mem p(2) by blast
  qed
  have "distinct ?kept" using backups_distinct [OF assms(2)] by (simp add: distinct_map)
  moreover have "distinct news" using p(3) by (simp add: distinct_map)
  ultimately have "length ?kept = length news" by (metis kept distinct_card)
  then have "int (length ?kept) = min (int (length (backups_among names))) (max 0 keep)" using p(5) by simp
  moreover have "ts \<le> ts'" if "(n, ts) \<in> set (backups_among names)" "(n', ts') \<in> set ?kept" "n \<in> ?gone" for n ts n' ts'
  proof -
    have "(n', ts') \<in> set news" using that(2) unfolding kept .
    moreover have "(n, ts) \<in> set olds" using old [of "(n, ts)"] that(1,3) by simp
    ultimately show ?thesis using p(4) by force
  qed
  moreover have "?gone \<subseteq> fst ` set (backups_among names)" by (auto simp: gone p(2))
  ultimately show ?thesis unfolding Let_def by blast
qed

lemma prune_keeps_newest_backups_witness:
  "set (backups_to_prune stable_sort [''data-1.db'', ''x'', ''data-3.db''] 1) \<subseteq> fst ` set (backups_among [''data-1.db'', ''x'', ''data-3.db''])"
  using prune_keeps_newest_backups [OF stable.slice_sort_axioms, of "[''data-1.db'', ''x'', ''data-3.db'']" 1] by (simp add: Let_def)

lemma backup_name_stamp: "int64 now \<Longrightarrow> backup_timestamp (backup_name now) = Some now"
  by (simp add: backup_timestamp_def backup_name_def has_suffix_def trim_suffix_def trim_prefix_def has_prefix_def parse_format_int)

text \<open>A clock set back loses the backups. A backup is filed under the time it was made and the oldest go; when the
  directory already holds as many backups as are kept, all dated later, the new one is pruned by the very run that
  wrote it.\<close>

theorem backup_lost_when_clock_back:
  assumes "slice_sort srt" and "distinct (map fst dir)" and "int64 now" and "0 < keep"
    and "keep \<le> int (length (backups_among (map fst dir)))"
    and "\<And>n ts. (n, ts) \<in> set (backups_among (map fst dir)) \<Longrightarrow> now < ts"
  shows "backup_name now \<notin> fst ` set (do_backup srt NoFault keep now contents dir)"
proof -
  let ?old = "filter (\<lambda>(n, _). n \<noteq> backup_name now) dir"
  let ?names = "backup_name now # map fst ?old"
  have stamp: "backup_timestamp (backup_name now) = Some now" by (rule backup_name_stamp) fact
  have absent: "backup_name now \<notin> fst ` set dir"
  proof
    assume "backup_name now \<in> fst ` set dir"
    then have "(backup_name now, now) \<in> set (backups_among (map fst dir))" by (simp add: in_backups stamp)
    with assms(6) show False by blast
  qed
  then have old: "?old = dir" by (intro filter_True) force
  have dist: "distinct ?names" using assms(2) absent by (simp add: old)
  obtain olds news where p: "map fst olds = backups_to_prune srt ?names keep" "set (backups_among ?names) = set olds \<union> set news"
    "distinct (map fst (olds @ news))" "\<And>a b. a \<in> set olds \<Longrightarrow> b \<in> set news \<Longrightarrow> snd a \<le> snd b"
    "int (length news) = min (int (length (backups_among ?names))) (max 0 keep)"
    "length olds + length news = length (backups_among ?names)"
    by (rule prune_split [OF assms(1) dist, of keep]) (rule that, assumption+)
  have len: "length (backups_among ?names) = Suc (length (backups_among (map fst dir)))"
    by (simp add: backups_Cons stamp old)
  with p(5,6) assms(4,5) obtain a where a: "a \<in> set olds" by (cases olds) auto
  have now: "(backup_name now, now) \<in> set (backups_among ?names)" by (simp add: in_backups stamp)
  have "(backup_name now, now) \<in> set olds"
  proof (rule ccontr)
    assume "(backup_name now, now) \<notin> set olds"
    then have new: "(backup_name now, now) \<in> set news" using now p(2) by blast
    have "a \<in> set (backups_among ?names)" using a p(2) by blast
    then have "a = (backup_name now, now) \<or> a \<in> set (backups_among (map fst dir))" by (auto simp: backups_Cons stamp old)
    with p(4) [OF a new] assms(6) [of "fst a" "snd a"] a \<open>(backup_name now, now) \<notin> set olds\<close> show False by auto
  qed
  then have "backup_name now \<in> set (backups_to_prune srt ?names keep)" unfolding p(1) [symmetric] by force
  then show ?thesis by (auto simp: do_backup_def prune_backups_def Let_def)
qed

lemma backup_lost_when_clock_back_witness:
  "backup_name 1 \<notin> fst ` set (do_backup stable_sort NoFault 1 1 () [(backup_name 2, ())])"
proof -
  have "backup_timestamp (backup_name 2) = Some 2" by (rule backup_name_stamp) (simp add: int64_def)
  then show ?thesis
    by (intro backup_lost_when_clock_back [OF stable.slice_sort_axioms]) (auto simp: backups_among_def int64_def)
qed


section \<open>The log is bounded\<close>

lemma shift_segs_at:
  "segs (Suc k) = None \<Longrightarrow>
    shift_segs k segs j = (if j = 0 then segs 0 else if j = 1 \<and> 0 < k then None else if 1 < j \<and> j \<le> Suc k then segs (j - 1) else segs j)"
proof (induction k arbitrary: segs)
  case (Suc k)
  define s' where "s' = rename_seg (Suc k) (Suc (Suc k)) segs"
  have at: "s' i = (if i = Suc (Suc k) then segs (Suc k) else if i = Suc k then None else segs i)" for i
    using Suc.prems by (auto simp: s'_def rename_seg_def split: option.split)
  have "shift_segs k s' j = (if j = 0 then s' 0 else if j = 1 \<and> 0 < k then None else if 1 < j \<and> j \<le> Suc k then s' (j - 1) else s' j)"
    by (rule Suc.IH) (simp add: at)
  moreover have "shift_segs (Suc k) segs j = shift_segs k s' j" by (simp add: s'_def)
  ultimately show ?case by (cases "j = Suc (Suc k)"; cases "j = Suc k") (auto simp: at)
qed auto

lemma rotated_at:
  assumes "0 < keep" and "segs 0 = Some t"
  shows "rename_seg 0 1 (shift_segs (keep - 1) (segs(keep := None))) j =
    (if j = 0 then None else if j \<le> keep then segs (j - 1) else segs j)"
proof -
  have none: "(segs(keep := None)) (Suc (keep - 1)) = None" using assms(1) by simp
  note at = shift_segs_at [where segs = "segs(keep := None)" and k = "keep - 1", OF none, unfolded One_nat_def]
  have "shift_segs (keep - 1) (segs(keep := None)) 0 = Some t" using assms by (simp add: at)
  moreover have "shift_segs (keep - 1) (segs(keep := None)) 1 = None" using assms by (simp add: at)
  ultimately show ?thesis using assms by (auto simp: rename_seg_def at)
qed

text \<open>The kept text, oldest first.\<close>

definition seg_text :: "(nat \<Rightarrow> string option) \<Rightarrow> nat \<Rightarrow> string" where
  "seg_text segs i = (case segs i of None \<Rightarrow> [] | Some t \<Rightarrow> t)"

definition log_text :: "rot_log \<Rightarrow> string" where
  "log_text l = concat (map (seg_text (rl_segs l)) (rev [0 ..< Suc (rl_keep l)]))"

definition log_ok :: "int \<Rightarrow> rot_log \<Rightarrow> bool" where
  "log_ok B l \<longleftrightarrow> 0 < rl_keep l \<and> (\<forall>i t. rl_segs l i = Some t \<longrightarrow> i \<le> rl_keep l \<and> int (length t) \<le> B) \<and>
     (rl_open l \<longrightarrow> (\<exists>t. rl_segs l 0 = Some t \<and> rl_size l = int (length t)))"

lemma rotate_keeps:
  assumes "log_ok B l" and "rotate_log opens l = (l', ok)" and "0 \<le> B"
  shows "log_ok B l'" and "\<exists>lost. log_text l = lost @ log_text l'" and "ok \<Longrightarrow> rl_segs l' 0 = Some [] \<and> rl_size l' = 0"
    and "rl_max l' = rl_max l" and "rl_keep l' = rl_keep l" and "ok \<Longrightarrow> rl_open l'"
proof -
  have "log_ok B l' \<and> (\<exists>lost. log_text l = lost @ log_text l') \<and> (ok \<longrightarrow> rl_segs l' 0 = Some [] \<and> rl_size l' = 0) \<and>
      rl_max l' = rl_max l \<and> rl_keep l' = rl_keep l \<and> (ok \<longrightarrow> rl_open l')"
  proof (cases "rl_open l")
    case False
    with assms show ?thesis by (auto simp: rotate_log_def)
  next
    case True
    with assms(1) obtain t where t: "rl_segs l 0 = Some t" and keep: "0 < rl_keep l"
      and segs: "\<And>i t. rl_segs l i = Some t \<Longrightarrow> i \<le> rl_keep l \<and> int (length t) \<le> B" by (auto simp: log_ok_def)
    define segs' where "segs' = rename_seg 0 1 (shift_segs (rl_keep l - 1) ((rl_segs l)(rl_keep l := None)))"
    note at = rotated_at [where segs = "rl_segs l", OF keep t, folded segs'_def]
    have l': "rl_segs l' = (if opens then segs'(0 := Some []) else segs')" "rl_keep l' = rl_keep l" "rl_max l' = rl_max l"
        "rl_open l' = opens" "ok = opens" "opens \<Longrightarrow> rl_size l' = 0"
    proof -
      have "rotate_log opens l = (if \<not> opens then (l\<lparr>rl_segs := segs', rl_open := False\<rparr>, False)
          else (l\<lparr>rl_segs := segs'(0 := Some []), rl_open := True, rl_size := 0\<rparr>, True))"
        unfolding rotate_log_def Let_def segs'_def [symmetric] using True at [of 0] by simp
      with assms(2) show "rl_segs l' = (if opens then segs'(0 := Some []) else segs')" "rl_keep l' = rl_keep l" "rl_max l' = rl_max l"
        "rl_open l' = opens" "ok = opens" "opens \<Longrightarrow> rl_size l' = 0" by (auto split: if_splits)
    qed
    have "i \<le> rl_keep l \<and> int (length u) \<le> B" if "segs' i = Some u" for i u
      using that segs [of "i - 1" u] segs [of i u] by (auto simp: at split: if_splits)
    then have "log_ok B l'" using keep assms(3) by (auto simp: log_ok_def l' split: if_splits)
    moreover have "seg_text (rl_segs l') (Suc j) = seg_text (rl_segs l) j" if "j < rl_keep l" for j
      using that by (simp add: seg_text_def l' at)
    then have "map (seg_text (rl_segs l')) (rev [1 ..< Suc (rl_keep l)]) = map (seg_text (rl_segs l)) (rev [0 ..< rl_keep l])"
      unfolding One_nat_def map_Suc_upt [symmetric] rev_map by (simp add: comp_def) 
    then have "log_text l' = concat (map (seg_text (rl_segs l)) (rev [0 ..< rl_keep l])) @ seg_text (rl_segs l') 0"
      by (simp add: log_text_def l'(2) upt_conv_Cons [of 0] del: upt_Suc)
    moreover have "seg_text (rl_segs l') 0 = []" by (simp add: seg_text_def l' at)
    ultimately show ?thesis using l' by (auto simp: log_text_def)
  qed
  then show "log_ok B l'" and "\<exists>lost. log_text l = lost @ log_text l'" and "ok \<Longrightarrow> rl_segs l' 0 = Some [] \<and> rl_size l' = 0"
    and "rl_max l' = rl_max l" and "rl_keep l' = rl_keep l" and "ok \<Longrightarrow> rl_open l'" by blast+
qed

lemma append_keeps:
  assumes "log_ok B l" and "rl_open l \<Longrightarrow> rl_size l + int (length p) \<le> B" and "log_append took p l = (l', n, ok)"
  shows "log_ok B l' \<and> log_text l' = log_text l @ take n p \<and> rl_max l' = rl_max l \<and> rl_keep l' = rl_keep l"
proof (cases "rl_open l")
  case True
  with assms(1) obtain t where t: "rl_segs l 0 = Some t" "rl_size l = int (length t)" by (auto simp: log_ok_def)
  let ?w = "take took p"
  have l': "l' = l\<lparr>rl_segs := (rl_segs l)(0 := Some (t @ ?w)), rl_size := rl_size l + int (length ?w)\<rparr>" "n = length ?w"
    using assms(3) True t by (auto simp: log_append_def Let_def)
  have "int (length (t @ ?w)) \<le> B" using assms(2) [OF True] t(2) by simp
  with assms(1) t have "log_ok B l'" by (auto simp: l' log_ok_def)
  moreover have m: "map (seg_text ((rl_segs l)(0 := Some (t @ ?w)))) (rev [Suc 0 ..< Suc (rl_keep l)]) =
      map (seg_text (rl_segs l)) (rev [Suc 0 ..< Suc (rl_keep l)])"
    by (rule map_cong) (auto simp: seg_text_def)
  have "[0 ..< Suc (rl_keep l)] = 0 # [Suc 0 ..< Suc (rl_keep l)]" by (rule upt_conv_Cons) simp
  then have cut: "concat (map (seg_text segs) (rev [0 ..< Suc (rl_keep l)])) =
      concat (map (seg_text segs) (rev [Suc 0 ..< Suc (rl_keep l)])) @ seg_text segs 0" for segs by simp
  have "log_text l' = log_text l @ ?w"
  proof -
    have e: "rl_segs l' = (rl_segs l)(0 := Some (t @ ?w))" "rl_keep l' = rl_keep l" by (simp_all add: l')
    have "seg_text ((rl_segs l)(0 := Some (t @ ?w))) 0 = seg_text (rl_segs l) 0 @ ?w" using t by (simp add: seg_text_def)
    then show ?thesis unfolding log_text_def e cut m by (simp only: append.assoc)
  qed
  moreover have "take n p = ?w" by (simp add: l'(2) min_def)
  moreover have "rl_max l' = rl_max l" "rl_keep l' = rl_keep l" by (simp_all add: l'(1))
  ultimately show ?thesis by (simp only:)
qed (use assms in \<open>auto simp: log_append_def\<close>)

lemma write_keeps:
  assumes "log_ok B l" and "rl_max l \<le> B" and "int (length p) \<le> B" and "log_write opens took p l = (l', n, ok)"
  shows "log_ok B l' \<and> (\<exists>lost. log_text l @ take n p = lost @ log_text l') \<and> rl_max l' = rl_max l \<and> rl_keep l' = rl_keep l"
proof (cases "rl_size l > 0 \<and> rl_size l + int (length p) > rl_max l")
  case False
  have "rl_open l \<Longrightarrow> rl_size l + int (length p) \<le> B" using False assms(1-3) by (auto simp: log_ok_def)
  moreover have "log_append took p l = (l', n, ok)" using assms(4) unfolding log_write_def if_not_P [OF False] .
  ultimately have "log_ok B l' \<and> log_text l' = log_text l @ take n p \<and> rl_max l' = rl_max l \<and> rl_keep l' = rl_keep l"
    by (rule append_keeps [OF assms(1)])
  then show ?thesis by (metis append_Nil)
next
  case True
  obtain l1 ok1 where r: "rotate_log opens l = (l1, ok1)" by fastforce
  have B: "0 \<le> B" using assms(3) by simp
  note k = rotate_keeps [OF assms(1) r B]
  show ?thesis
  proof (cases ok1)
    case False
    with True r assms(4) have "l' = l1" "n = 0" by (simp_all add: log_write_def)
    with k show ?thesis by simp
  next
    case ok: True
    have size: "rl_size l1 = 0" using k(3) [OF ok] by blast
    have "log_append took p l1 = (l', n, ok)" using True ok r assms(4) by (simp add: log_write_def)
    moreover have "rl_open l1 \<Longrightarrow> rl_size l1 + int (length p) \<le> B" using size assms(3) by simp
    ultimately have a: "log_ok B l' \<and> log_text l' = log_text l1 @ take n p \<and> rl_max l' = rl_max l1 \<and> rl_keep l' = rl_keep l1"
      using append_keeps [OF k(1)] by blast
    obtain lost where "log_text l = lost @ log_text l1" using k(2) by blast
    with a k(4,5) show ?thesis by simp
  qed
qed

text \<open>A run of writes, and the text they were told is written.\<close>

fun run_log :: "(bool \<times> nat \<times> string) list \<Rightarrow> rot_log \<Rightarrow> rot_log \<times> string" where
  "run_log [] l = (l, [])"
| "run_log ((opens, took, p) # ws) l =
    (case log_write opens took p l of (l1, n, ok) \<Rightarrow> case run_log ws l1 of (l2, out) \<Rightarrow> (l2, take n p @ out))"

lemma run_keeps:
  "log_ok B l \<Longrightarrow> rl_max l \<le> B \<Longrightarrow> list_all (\<lambda>(_, _, p). int (length p) \<le> B) ws \<Longrightarrow> run_log ws l = (l', out) \<Longrightarrow>
    log_ok B l' \<and> (\<exists>lost. log_text l @ out = lost @ log_text l') \<and> rl_keep l' = rl_keep l"
proof (induction ws arbitrary: l l' out)
  case (Cons w ws)
  obtain opens took p where w: "w = (opens, took, p)" by (cases w)
  obtain l1 n ok where 1: "log_write opens took p l = (l1, n, ok)" by (metis prod_cases3)
  obtain l2 out2 where 2: "run_log ws l1 = (l2, out2)" by fastforce
  have p: "int (length p) \<le> B" using Cons.prems(3) by (simp add: w)
  from write_keeps [OF Cons.prems(1,2) p 1] obtain lost where
    k: "log_ok B l1" "log_text l @ take n p = lost @ log_text l1" "rl_max l1 = rl_max l" "rl_keep l1 = rl_keep l" by blast
  have "l' = l2" "out = take n p @ out2" using Cons.prems(4) 1 2 by (simp_all add: w)
  moreover have "log_ok B l2 \<and> (\<exists>lost. log_text l1 @ out2 = lost @ log_text l2) \<and> rl_keep l2 = rl_keep l1"
    using Cons.IH [OF k(1) _ _ 2] Cons.prems(2,3) k(3) by (simp add: w)
  ultimately show ?case using k by (metis append.assoc)
qed simp



text \<open>One failed rotation ends the log. If the next file cannot be opened, the writer is left with a closed one, and
  since a rotation begins by closing it, every later write fails, even when files can be opened again.\<close>

theorem log_dead_after_failed_rotation:
  assumes "0 < rl_size l" and "rl_max l < rl_size l + int (length p)" and "log_write False took p l = (l', n, ok)"
  shows "n = 0 \<and> \<not> ok \<and> log_write opens took' p' l' = (l', 0, False)"
proof -
  have "\<not> rl_open l'" "n = 0" "\<not> ok"
    using assms by (auto simp: log_write_def rotate_log_def Let_def split: if_splits)
  then show ?thesis by (simp add: log_write_def rotate_log_def log_append_def)
qed

lemma log_dead_after_failed_rotation_witness:
  "snd (log_write True 9 ''c'' (fst (log_write False 9 ''bb'' (new_log 3 1 [0 \<mapsto> ''aa''])))) = (0, False)"
  using log_dead_after_failed_rotation [of "new_log 3 1 [0 \<mapsto> ''aa'']" "''bb''" 9]
  by (cases "log_write False 9 ''bb'' (new_log 3 1 [0 \<mapsto> ''aa''])") (simp add: new_log_def)

end
