(* ===== verification/Proto.thy ===== *)
theory Proto
  imports History_Record
begin

text \<open>
  \<open>internal/proto\<close>: the messages of the daemon's socket. A pointer that may be nil is an option. The JSON of a
  message is not modelled; one request is answered by one response.
\<close>

definition op_ping :: string where "op_ping = ''ping''"
definition op_record :: string where "op_record = ''record''"
definition op_query :: string where "op_query = ''query''"
definition op_hosts :: string where "op_hosts = ''hosts''"
definition op_delete :: string where "op_delete = ''delete''"
definition op_devices :: string where "op_devices = ''devices''"
definition op_approve :: string where "op_approve = ''approve''"
definition op_revoke :: string where "op_revoke = ''revoke''"
definition op_token :: string where "op_token = ''token''"
definition op_tokens :: string where "op_tokens = ''tokens''"
definition op_revoke_tk :: string where "op_revoke_tk = ''revoketk''"
definition op_status :: string where "op_status = ''status''"
definition op_sync :: string where "op_sync = ''sync''"
definition op_tags :: string where "op_tags = ''tags''"
definition op_shutdown :: string where "op_shutdown = ''shutdown''"

definition scope_local :: string where "scope_local = ''local''"
definition scope_all :: string where "scope_all = ''all''"
definition scope_host :: string where "scope_host = ''host''"
definition scope_session :: string where "scope_session = ''session''"
definition scope_cwd :: string where "scope_cwd = ''cwd''"
definition scope_workspace :: string where "scope_workspace = ''workspace''"

definition remote_off :: string where "remote_off = ''off''"
definition remote_unavailable :: string where "remote_unavailable = ''unavailable''"
definition remote_syncing :: string where "remote_syncing = ''syncing''"
definition remote_ok :: string where "remote_ok = ''ok''"
definition remote_revoked :: string where "remote_revoked = ''revoked''"

lemmas remote_states = remote_off_def remote_unavailable_def remote_syncing_def remote_ok_def remote_revoked_def

definition sort_recency :: string where "sort_recency = ''''"
definition sort_frecency :: string where "sort_frecency = ''frecency''"
definition limit_all :: int where "limit_all = - 1"

lemmas scopes = scope_local_def scope_all_def scope_host_def scope_session_def scope_cwd_def scope_workspace_def

record query_req =
  qr_q :: string
  qr_scope :: string
  qr_host :: string
  qr_session :: string
  qr_cwd :: string
  qr_executor :: string
  qr_human_only :: bool
  qr_tag :: string
  qr_sort :: string
  qr_fuzzy :: bool
  qr_limit :: int
  qr_offset :: int
  qr_dedupe :: bool
  qr_want_prompts :: bool
  qr_prompt_days :: int

record remote_info =
  ri_state :: string
  ri_last_ms :: int
  ri_hosts :: nat

record query_resp =
  qs_rows :: "hrec list"
  qs_total :: nat
  qs_scope :: string
  qs_prompts :: "hrec list"
  qs_hidden :: nat
  qs_remote :: remote_info

record status_resp =
  ss_pid :: int
  ss_uptime :: int
  ss_rows :: nat
  ss_remote :: remote_info
  ss_version :: string

record host_count =
  hc_hostname :: string
  hc_host_id :: string
  hc_count :: nat

record hosts_info =
  hn_hosts :: "host_count list"
  hn_remote :: remote_info

record device_info =
  dn_id :: string
  dn_name :: string
  dn_status :: string
  dn_code :: string
  dn_self :: bool

record token_info =
  tki_token :: string
  tki_expires_ms :: int

record token_row =
  tw_id :: string
  tw_state :: string
  tw_created_ms :: int
  tw_expires_ms :: int
  tw_claimed_ms :: int
  tw_claimed_by :: string
  tw_revoked_ms :: int

record tag_count =
  tc_name :: string
  tc_desc :: string
  tc_count :: nat

record tags_info =
  ts_tags :: "tag_count list"
  ts_scope :: string

text \<open>A request, and a response: \<open>Err\<close>, or \<open>OK\<close> with what it carries.\<close>

record sock_request =
  rq_op :: string
  rq_record :: "hrec option"
  rq_query :: "query_req option"
  rq_tags :: "string option"
  rq_delete_id :: string
  rq_device_id :: string
  rq_token_id :: string

datatype sock_response =
    RespErr string
  | RespOk
  | RespQuery query_resp
  | RespHosts hosts_info
  | RespDevices "device_info list"
  | RespToken token_info
  | RespTokens "token_row list"
  | RespStatus status_resp
  | RespTags tags_info

end
