(* ===== verification/Daemon_Index.thy ===== *)
theory Daemon_Index
  imports Proto Match "HOL-Library.AList"
begin

text \<open>
  \<open>daemon/tags.go\<close> and \<open>daemon/prompts.go\<close>: the indexes a query joins its rows with. A Go map is an
  association list with distinct keys, a Go set a list without repetition; the order of either is not observable,
  since what is read out of them is sorted.
\<close>

section \<open>The tag index\<close>

record tag_index =
  tg_desc :: "(string \<times> string) list"
  tg_cmd :: "(string \<times> string list) list"
  tg_sess :: "(string \<times> string list) list"
  tg_auto :: "(string \<times> string) list"

definition new_tag_index :: tag_index where
  "new_tag_index = \<lparr>tg_desc = [], tg_cmd = [], tg_sess = [], tg_auto = []\<rparr>"

definition set_auto_tags :: "(string \<times> string) list \<Rightarrow> tag_index \<Rightarrow> tag_index" where
  "set_auto_tags m t = t\<lparr>tg_auto := m\<rparr>"

definition cwd_under :: "string \<Rightarrow> string \<Rightarrow> bool" where
  "cwd_under cwd pre =
    (if pre = [] \<or> cwd = [] then False
     else cwd = pre \<or> has_prefix cwd (trim_right_byte CHR ''/'' pre @ ''/''))"

definition norm_tag :: "unicode_tables \<Rightarrow> string \<Rightarrow> string" where
  "norm_tag U name = str_lower U (trim_space name)"

definition tags_of :: "(string \<times> string list) list \<Rightarrow> string \<Rightarrow> string list" where
  "tags_of m k = (case map_of m k of None \<Rightarrow> [] | Some s \<Rightarrow> s)"

text \<open>The end of \<open>apply\<close>: add the name to the target's set, or remove it, and an empty set with it.\<close>

definition retag :: "string \<Rightarrow> string \<Rightarrow> string \<Rightarrow> (string \<times> string list) list \<Rightarrow> (string \<times> string list) list" where
  "retag opr name target m =
    (if opr = tag_op_remove
     then let s = removeAll name (tags_of m target)
          in if s = [] then AList.delete target m else AList.update target s m
     else AList.update target (List.insert name (tags_of m target)) m)"

definition tag_apply :: "unicode_tables \<Rightarrow> hrec \<Rightarrow> tag_index \<Rightarrow> tag_index" where
  "tag_apply U r t =
    (if r_type r \<noteq> type_tag then t
     else let name = norm_tag U (r_tag_name r) in
       if name = [] then t
       else let d = (if r_tag_desc r \<noteq> [] then AList.update name (r_tag_desc r) (tg_desc t)
                     else if map_of (tg_desc t) name = None then AList.update name [] (tg_desc t)
                     else tg_desc t)
         in if r_target_id r \<noteq> []
            then t\<lparr>tg_desc := d, tg_cmd := retag (r_tag_op r) name (r_target_id r) (tg_cmd t)\<rparr>
            else if r_session r \<noteq> []
            then t\<lparr>tg_desc := d, tg_sess := retag (r_tag_op r) name (r_session r) (tg_sess t)\<rparr>
            else t\<lparr>tg_desc := d\<rparr>)"

text \<open>\<open>effectiveLocked\<close> and its wrapper.\<close>

definition auto_tags_of :: "unicode_tables \<Rightarrow> tag_index \<Rightarrow> hrec \<Rightarrow> string list" where
  "auto_tags_of U t r =
    map (\<lambda>(_, name). norm_tag U name) (filter (\<lambda>(pre, _). cwd_under (r_cwd r) pre) (tg_auto t))"

definition effective :: "unicode_tables \<Rightarrow> tag_index \<Rightarrow> hrec \<Rightarrow> string list" where
  "effective U t r =
    sort (remdups (tags_of (tg_cmd t) (r_id r) @ tags_of (tg_sess t) (r_session r) @ auto_tags_of U t r))"

definition tag_has :: "unicode_tables \<Rightarrow> tag_index \<Rightarrow> hrec \<Rightarrow> string \<Rightarrow> bool" where
  "tag_has U t r nm =
    (let name = norm_tag U nm in
     if name = [] then True
     else if name \<in> set (tags_of (tg_cmd t) (r_id r)) \<or> name \<in> set (tags_of (tg_sess t) (r_session r)) then True
     else list_ex (\<lambda>(pre, an). norm_tag U an = name \<and> cwd_under (r_cwd r) pre) (tg_auto t))"

text \<open>The count of \<open>list\<close>: one map, incremented row by row.\<close>

definition tag_counts :: "unicode_tables \<Rightarrow> tag_index \<Rightarrow> hrec list \<Rightarrow> (string \<times> nat) list" where
  "tag_counts U t rows =
    foldl (\<lambda>c r. foldl (\<lambda>c n. AList.update n (case map_of c n of None \<Rightarrow> 1 | Some k \<Rightarrow> k + 1) c) c (effective U t r))
      [] rows"

definition tag_list ::
  "((tag_count \<Rightarrow> tag_count \<Rightarrow> bool) \<Rightarrow> tag_count list \<Rightarrow> tag_count list) \<Rightarrow> unicode_tables \<Rightarrow> tag_index
    \<Rightarrow> hrec list \<Rightarrow> tag_count list" where
  "tag_list srt U t rows =
    (let counts = tag_counts U t rows;
         names = remdups (map fst (tg_desc t) @ map (\<lambda>(_, n). norm_tag U n) (tg_auto t) @ map fst counts)
     in srt (\<lambda>a b. tc_name a < tc_name b)
          (map (\<lambda>n. \<lparr>tc_name = n, tc_desc = (case map_of (tg_desc t) n of None \<Rightarrow> [] | Some d \<Rightarrow> d),
             tc_count = (case map_of counts n of None \<Rightarrow> 0 | Some k \<Rightarrow> k)\<rparr>) names))"


section \<open>The prompt index\<close>

type_synonym prompt_index = "(string \<times> hrec) list"

definition new_prompt_index :: prompt_index where "new_prompt_index = []"

definition prompt_apply :: "hrec \<Rightarrow> prompt_index \<Rightarrow> prompt_index" where
  "prompt_apply r p = (if r_type r \<noteq> type_prompt \<or> r_id r = [] then p else AList.update (r_id r) r p)"

text \<open>A prompt that is not in the index reads as the zero record, so its text as the empty one.\<close>

definition hydrate_row :: "prompt_index \<Rightarrow> hrec \<Rightarrow> hrec" where
  "hydrate_row p r =
    (if r_prompt_id r \<noteq> []
     then r\<lparr>r_prompt := (case map_of p (r_prompt_id r) of None \<Rightarrow> [] | Some x \<Rightarrow> r_prompt x)\<rparr> else r)"

definition hydrate_rows :: "prompt_index \<Rightarrow> hrec list \<Rightarrow> hrec list" where
  "hydrate_rows p rows = map (hydrate_row p) rows"

definition newer_prompt :: "hrec \<Rightarrow> hrec \<Rightarrow> bool" where
  "newer_prompt a b = (if r_start_ms a \<noteq> r_start_ms b then r_start_ms a > r_start_ms b else r_id a > r_id b)"

definition prompts_since ::
  "((hrec \<Rightarrow> hrec \<Rightarrow> bool) \<Rightarrow> hrec list \<Rightarrow> hrec list) \<Rightarrow> int \<Rightarrow> string \<Rightarrow> prompt_index \<Rightarrow> hrec list" where
  "prompts_since srt cutoff executor p =
    srt newer_prompt
      (filter (\<lambda>r. \<not> r_start_ms r < cutoff \<and> \<not> (executor \<noteq> [] \<and> r_executor r \<noteq> executor)) (map snd p))"

definition prompt_drop :: "string list \<Rightarrow> prompt_index \<Rightarrow> prompt_index" where
  "prompt_drop ids p = (if ids = [] then p else foldl (\<lambda>p i. AList.delete i p) p ids)"

definition prompts_len :: "prompt_index \<Rightarrow> nat" where "prompts_len p = length p"


section \<open>Correctness\<close>

lemma tags_of_Nil [simp]: "tags_of [] k = []"
  by (simp add: tags_of_def)

lemma tags_of_update: "tags_of (AList.update k s m) i = (if i = k then s else tags_of m i)"
  by (simp add: tags_of_def update_conv')

lemma tags_of_delete: "tags_of (AList.delete k m) i = (if i = k then [] else tags_of m i)"
  by (simp add: tags_of_def delete_conv')

lemma retag_of:
  "set (tags_of (retag opr name target m) i) =
    (if i \<noteq> target then set (tags_of m i)
     else if opr = tag_op_remove then set (tags_of m i) - {name} else insert name (set (tags_of m i)))"
proof -
  have "removeAll name (tags_of m target) = [] \<Longrightarrow> set (tags_of m target) - {name} = {}"
    by (metis list.set(1) set_removeAll)
  then show ?thesis by (auto simp: retag_def Let_def tags_of_update tags_of_delete)
qed

lemma retag_idem: "retag opr name target (retag opr name target m) = retag opr name target m"
proof (cases "opr = tag_op_remove")
  case True
  let ?s = "removeAll name (tags_of m target)"
  show ?thesis
  proof (cases "?s = []")
    case empty: True
    then show ?thesis using True by (simp add: retag_def tags_of_delete delete_idem)
  next
    case False
    have "AList.update target ?s (AList.update target ?s m) = AList.update target ?s m"
      by (rule update_triv) (simp add: update_conv')
    with True False show ?thesis by (simp add: retag_def tags_of_update removeAll_filter_not)
  qed
next
  case False
  let ?s = "List.insert name (tags_of m target)"
  have "AList.update target ?s (AList.update target ?s m) = AList.update target ?s m"
    by (rule update_triv) (simp add: update_conv')
  moreover have "List.insert name ?s = ?s" by (simp add: List.insert_def)
  ultimately show ?thesis using False by (simp add: retag_def tags_of_update)
qed

text \<open>Folding a tag record is idempotent: applied again, at once or after a re-pull of the same record, it
  changes nothing.\<close>

theorem tag_apply_idem: "tag_apply U r (tag_apply U r t) = tag_apply U r t"
proof -
  have "AList.update n d (AList.update n d m) = AList.update n d m" for n d and m :: "(string \<times> string) list"
    by (rule update_triv) (simp add: update_conv')
  then show ?thesis by (auto simp: tag_apply_def Let_def retag_idem update_conv')
qed

lemma in_effective:
  "n \<in> set (effective U t r) \<longleftrightarrow> n \<in> set (tags_of (tg_cmd t) (r_id r)) \<or> n \<in> set (tags_of (tg_sess t) (r_session r)) \<or>
    (\<exists>pre an. (pre, an) \<in> set (tg_auto t) \<and> cwd_under (r_cwd r) pre \<and> norm_tag U an = n)"
  by (force simp: effective_def auto_tags_of_def)

lemma effective_distinct: "distinct (effective U t r) \<and> sorted (effective U t r)"
  by (simp add: effective_def)

text \<open>The tag filter and the tags shown agree: a row passes the filter for a name exactly when the name is
  blank or, normalised, is among the row's effective tags; and these are sorted and without repetition.\<close>

theorem tag_has_effective:
  "tag_has U t r nm = (norm_tag U nm = [] \<or> norm_tag U nm \<in> set (effective U t r)) \<and>
    sorted (effective U t r) \<and> distinct (effective U t r)"
proof -
  have "list_ex (\<lambda>(pre, an). norm_tag U an = n \<and> cwd_under (r_cwd r) pre) (tg_auto t) \<longleftrightarrow>
      (\<exists>pre an. (pre, an) \<in> set (tg_auto t) \<and> cwd_under (r_cwd r) pre \<and> norm_tag U an = n)" for n
    by (auto simp: list_ex_iff)
  then have "tag_has U t r nm = (norm_tag U nm = [] \<or> norm_tag U nm \<in> set (effective U t r))"
    by (simp add: tag_has_def Let_def in_effective)
  with effective_distinct show ?thesis by simp
qed

lemma tag_apply_effective:
  assumes "r_type r = type_tag" and "norm_tag U (r_tag_name r) = n" and "n \<noteq> []"
    and "r_target_id r \<noteq> []" and "r_tag_op r \<noteq> tag_op_remove"
  shows "set (effective U (tag_apply U r t) x) =
    (if r_id x = r_target_id r then insert n (set (effective U t x)) else set (effective U t x))"
proof (rule set_eqI)
  fix m
  show "m \<in> set (effective U (tag_apply U r t) x) \<longleftrightarrow>
      m \<in> (if r_id x = r_target_id r then insert n (set (effective U t x)) else set (effective U t x))"
    using assms by (auto simp: in_effective tag_apply_def Let_def retag_of)
qed


subsection \<open>Counting\<close>

lemma counts_row:
  assumes "distinct ns"
  shows "map_of (foldl (\<lambda>c n. AList.update n (case map_of c n of None \<Rightarrow> 1 | Some k \<Rightarrow> k + 1) c) c ns) n =
    (if n \<in> set ns then Some (case map_of c n of None \<Rightarrow> 1 | Some k \<Rightarrow> k + 1) else map_of c n)"
  using assms by (induction ns arbitrary: c) (auto simp: update_conv')

lemma tag_counts_of:
  "map_of (tag_counts U t rows) n =
    (let k = length (filter (\<lambda>r. n \<in> set (effective U t r)) rows) in if k = 0 then None else Some k)"
proof -
  define upd where "upd c r = foldl (\<lambda>c n. AList.update n (case map_of c n of None \<Rightarrow> 1 | Some k \<Rightarrow> k + 1) c) c
      (effective U t r)" for c :: "(string \<times> nat) list" and r
  have step: "map_of (upd c r) n = (if n \<in> set (effective U t r)
      then Some (case map_of c n of None \<Rightarrow> 1 | Some k \<Rightarrow> k + 1) else map_of c n)" for c r
    unfolding upd_def by (rule counts_row) (simp add: effective_distinct)
  have "map_of (foldl upd c rows) n = (let k = length (filter (\<lambda>r. n \<in> set (effective U t r)) rows) in
      if k = 0 then map_of c n else Some (k + (case map_of c n of None \<Rightarrow> 0 | Some j \<Rightarrow> j)))" for c
    by (induction rows arbitrary: c) (auto simp: Let_def step split: option.splits)
  from this [of "[]"] show ?thesis by (simp add: tag_counts_def upd_def [abs_def] Let_def)
qed

lemma name_order: "strict_weak (\<lambda>a b. tc_name a < (tc_name b :: string))"
  by (auto simp: strict_weak_def not_less intro: less_trans order_trans)

text \<open>\<open>yore tag list\<close> counts commands: the names come in strict order, each with the number of the given rows
  that carry the tag, and no tag some row carries is left out.\<close>

theorem tag_list_counts:
  assumes "slice_sort srt"
  shows "sorted_wrt (\<lambda>a b. tc_name a < tc_name b) (tag_list srt U t rows) \<and>
    list_all (\<lambda>c. tc_count c = length (filter (\<lambda>r. tc_name c \<in> set (effective U t r)) rows)) (tag_list srt U t rows) \<and>
    (\<Union>r \<in> set rows. set (effective U t r)) \<subseteq> tc_name ` set (tag_list srt U t rows)"
proof -
  define names where "names = remdups (map fst (tg_desc t) @ map (\<lambda>(_, n). norm_tag U n) (tg_auto t) @
      map fst (tag_counts U t rows))"
  define row where "row n = \<lparr>tc_name = n, tc_desc = (case map_of (tg_desc t) n of None \<Rightarrow> [] | Some d \<Rightarrow> d),
      tc_count = (case map_of (tag_counts U t rows) n of None \<Rightarrow> 0 | Some k \<Rightarrow> k)\<rparr>" for n
  have eq: "tag_list srt U t rows = srt (\<lambda>a b. tc_name a < tc_name b) (map row names)"
    unfolding tag_list_def Let_def names_def row_def ..
  have mset: "mset (tag_list srt U t rows) = mset (map row names)"
    unfolding eq by (rule slice_sort.srt_mset [OF assms])
  have elems: "set (tag_list srt U t rows) = row ` set names" using mset by (metis list.set_map set_mset_mset)
  have "tc_name \<circ> row = id" by (auto simp: row_def)
  then have "mset (map tc_name (tag_list srt U t rows)) = mset names"
    by (metis list.map_comp list.map_id mset mset_map)
  then have dist: "distinct (map tc_name (tag_list srt U t rows))"
    by (metis distinct_remdups mset_eq_imp_distinct_iff names_def)
  have "sorted_wrt (\<lambda>a b. \<not> tc_name b < tc_name a) (tag_list srt U t rows)"
    unfolding eq by (rule slice_sort.srt_ordered [OF assms name_order])
  then have "sorted (map tc_name (tag_list srt U t rows))" by (simp add: sorted_map not_less)
  with dist have ord: "sorted_wrt (<) (map tc_name (tag_list srt U t rows))" by (simp add: strict_sorted_iff)
  have cnt: "tc_count (row n) = length (filter (\<lambda>r. n \<in> set (effective U t r)) rows)" for n
    by (simp add: row_def tag_counts_of Let_def)
  have all: "n \<in> set names" if "r \<in> set rows" "n \<in> set (effective U t r)" for r n
  proof -
    have "filter (\<lambda>r. n \<in> set (effective U t r)) rows \<noteq> []" using that by (auto simp: filter_empty_conv)
    then have "map_of (tag_counts U t rows) n \<noteq> None" by (simp add: tag_counts_of Let_def)
    then show ?thesis by (auto simp: names_def map_of_eq_None_iff)
  qed
  show ?thesis
    using ord all by (auto simp: sorted_wrt_map list_all_iff elems cnt image_iff row_def simp flip: cnt)
qed


lemma tag_list_counts_witness:
  "(\<Union>r \<in> set [zero_rec\<lparr>r_cwd := ''/a/b''\<rparr>]. set (effective kelvin_tables (set_auto_tags [(''/a'', ''w'')] new_tag_index) r)) \<subseteq>
    tc_name ` set (tag_list stable_sort kelvin_tables (set_auto_tags [(''/a'', ''w'')] new_tag_index) [zero_rec\<lparr>r_cwd := ''/a/b''\<rparr>])"
  using tag_list_counts [OF stable.slice_sort_axioms, of kelvin_tables "set_auto_tags [(''/a'', ''w'')] new_tag_index"
      "[zero_rec\<lparr>r_cwd := ''/a/b''\<rparr>]"] by blast


subsection \<open>Prompts\<close>

text \<open>Every entry is a prompt record filed under its id.\<close>

definition prompts_ok :: "prompt_index \<Rightarrow> bool" where
  "prompts_ok p \<longleftrightarrow> distinct (map fst p) \<and>
    (\<forall>(i, r) \<in> set p. i = r_id r \<and> i \<noteq> [] \<and> r_type r = type_prompt)"

lemma new_prompts_ok: "prompts_ok new_prompt_index"
  by (simp add: prompts_ok_def new_prompt_index_def)

lemma update_mem: "(i, x) \<in> set (AList.update k v m) \<Longrightarrow> (i = k \<and> x = v) \<or> (i, x) \<in> set m"
  by (induction m) (auto split: if_splits)

lemma prompt_apply_ok: "prompts_ok p \<Longrightarrow> prompts_ok (prompt_apply r p)"
  unfolding prompts_ok_def prompt_apply_def by (auto simp: distinct_update dest: update_mem)

lemma prompt_drop_filter: "prompt_drop ids p = filter (\<lambda>(i, _). i \<notin> set ids) p"
proof -
  have "foldl (\<lambda>p i. AList.delete i p) p ids = filter (\<lambda>(i, _). i \<notin> set ids) p"
    by (induction ids arbitrary: p) (auto simp: AList.delete_eq intro!: filter_cong)
  then show ?thesis by (auto simp: prompt_drop_def)
qed

lemma prompt_drop_ok: "prompts_ok p \<Longrightarrow> prompts_ok (prompt_drop ids p)"
  unfolding prompts_ok_def prompt_drop_filter by (auto simp: distinct_map filter_map intro: inj_on_subset)

lemma prompt_apply_of:
  "map_of (prompt_apply r p) i = (if r_type r = type_prompt \<and> r_id r \<noteq> [] \<and> i = r_id r then Some r else map_of p i)"
  by (auto simp: prompt_apply_def update_conv')

lemma prompt_drop_of: "map_of (prompt_drop ids p) i = (if i \<in> set ids then None else map_of p i)"
  unfolding prompt_drop_filter by (induction p) auto

lemma newer_prompt_weak: "strict_weak newer_prompt"
  unfolding strict_weak_def newer_prompt_def by (auto split: if_splits)

end
