(* ===== verification/Daemon_Corpus.thy ===== *)
theory Daemon_Corpus
  imports Daemon_Index Ingest
begin

text \<open>
  The local half of \<open>daemon/daemon.go\<close> and \<open>daemon/snapshot.go\<close>: the corpus in memory, how the rows of the store
  are folded into it, and how it comes up from a snapshot. The record \<open>daemon\<close> is the part of \<open>server\<close> these
  touch, with the store, the spool and the snapshot file; the log is left out. A handler that holds the lock is one
  step.
\<close>

section \<open>The state\<close>

record snapshot =
  sn_last_seq :: u64
  sn_records :: "hrec list"

record 'b daemon =
  dm_store :: "'b store"
  dm_spool :: spool_dir
  dm_corpus :: "hrec list"
  dm_cmds :: "string list"
  dm_last_seq :: u64
  dm_tags :: tag_index
  dm_prompts :: prompt_index
  dm_snap :: "snapshot option"

text \<open>
  What \<open>encoding/gob\<close> gives back of a record. It flattens pointers and omits zero values, so a pointer to zero comes
  back nil.
\<close>

definition gob_rec :: "hrec \<Rightarrow> hrec" where
  "gob_rec r = r\<lparr>r_exit := (if r_exit r = Some 0 then None else r_exit r),
     r_dur_ms := (if r_dur_ms r = Some 0 then None else r_dur_ms r)\<rparr>"

text \<open>\<open>written\<close>: whether the file could be written; if not, the old one stays.\<close>

definition snapshot_now :: "bool \<Rightarrow> 'b daemon \<Rightarrow> 'b daemon" where
  "snapshot_now written d =
    (if written then d\<lparr>dm_snap := Some \<lparr>sn_last_seq = dm_last_seq d, sn_records = map gob_rec (dm_corpus d)\<rparr>\<rparr>
     else d)"


section \<open>Folding rows into the corpus\<close>

definition drop_from_corpus :: "string list \<Rightarrow> 'b daemon \<Rightarrow> 'b daemon" where
  "drop_from_corpus ids d =
    d\<lparr>dm_corpus := filter (\<lambda>r. r_id r \<notin> set ids) (dm_corpus d),
      dm_cmds := map r_cmd (filter (\<lambda>r. r_id r \<notin> set ids) (dm_corpus d))\<rparr>"

definition is_tombstone :: "hrec \<Rightarrow> bool" where
  "is_tombstone r \<longleftrightarrow> r_type r = type_delete \<and> r_target_id r \<noteq> []"

text \<open>The first loop of \<open>foldRows\<close>, one row.\<close>

definition index_row :: "unicode_tables \<Rightarrow> 'b daemon \<Rightarrow> hrec \<Rightarrow> 'b daemon" where
  "index_row U d r =
    d\<lparr>dm_last_seq := (if r_seq r > dm_last_seq d then r_seq r else dm_last_seq d),
      dm_tags := (if r_type r = type_tag then tag_apply U r (dm_tags d) else dm_tags d),
      dm_prompts := (if r_type r = type_prompt then prompt_apply r (dm_prompts d) else dm_prompts d)\<rparr>"

definition fold_rows :: "unicode_tables \<Rightarrow> hrec list \<Rightarrow> 'b daemon \<Rightarrow> 'b daemon" where
  "fold_rows U rows d =
    (let dels = map r_target_id (filter is_tombstone rows);
         d1 = foldl (index_row U) d rows;
         new = filter (\<lambda>r. is_command r \<and> r_id r \<notin> set dels) rows;
         d2 = d1\<lparr>dm_corpus := dm_corpus d1 @ new, dm_cmds := dm_cmds d1 @ map r_cmd new\<rparr>;
         d3 = drop_from_corpus dels d2
     in if dels \<noteq> [] then d3\<lparr>dm_prompts := prompt_drop dels (dm_prompts d3)\<rparr> else d2)"

definition refresh_corpus :: "'b hist_kv \<Rightarrow> unicode_tables \<Rightarrow> 'b daemon \<Rightarrow> 'b daemon" where
  "refresh_corpus K U d =
    (case since K (dm_store d) (dm_last_seq d) 0 of
       Inl _ \<Rightarrow> d
     | Inr rows \<Rightarrow> if rows = [] then d else fold_rows U rows d)"

text \<open>\<open>doIngest\<close> is two steps, and the lock is not held between them: the commit, and the refresh.\<close>

definition ingest_commit ::
  "'b hist_kv \<Rightarrow> int \<Rightarrow> string list \<Rightarrow> 'b daemon \<Rightarrow> 'b daemon \<times> (ingest_error + nat)" where
  "ingest_commit K now fresh d =
    (case ingest_spool K now fresh (dm_store d) (dm_spool d) of
       (s', sp', r) \<Rightarrow> (d\<lparr>dm_store := s', dm_spool := sp'\<rparr>, r))"

definition do_ingest :: "'b hist_kv \<Rightarrow> unicode_tables \<Rightarrow> int \<Rightarrow> string list \<Rightarrow> 'b daemon \<Rightarrow> 'b daemon" where
  "do_ingest K U now fresh d =
    (case ingest_commit K now fresh d of
       (d', Inl _) \<Rightarrow> d'
     | (d', Inr n) \<Rightarrow> if n = 0 then d' else refresh_corpus K U d')"

definition delete_record ::
  "'b hist_kv \<Rightarrow> int \<Rightarrow> string \<Rightarrow> string \<Rightarrow> 'b daemon \<Rightarrow> 'b daemon \<times> store_error option" where
  "delete_record K now fresh i d =
    (case store_append K now fresh (dm_store d)
            (zero_rec\<lparr>r_type := type_delete, r_target_id := i, r_start_ms := now\<rparr>) of
       (s', Inl e) \<Rightarrow> (d\<lparr>dm_store := s'\<rparr>, Some e)
     | (s', Inr _) \<Rightarrow>
         let d1 = d\<lparr>dm_store := s',
               dm_last_seq := (if last_seq K s' > dm_last_seq d then last_seq K s' else dm_last_seq d)\<rparr>;
             d2 = drop_from_corpus [i] d1
         in (d2\<lparr>dm_prompts := prompt_drop [i] (dm_prompts d2)\<rparr>, None))"


section \<open>Starting up\<close>

definition cold_start :: "'b hist_kv \<Rightarrow> 'b daemon \<Rightarrow> 'b daemon \<times> store_error option" where
  "cold_start K d =
    (case all_records K (dm_store d) of
       Inl e \<Rightarrow> (d, Some e)
     | Inr rows \<Rightarrow>
         (d\<lparr>dm_corpus := rows, dm_cmds := map r_cmd rows, dm_last_seq := last_seq K (dm_store d)\<rparr>, None))"

definition load_corpus :: "'b hist_kv \<Rightarrow> unicode_tables \<Rightarrow> 'b daemon \<Rightarrow> 'b daemon \<times> store_error option" where
  "load_corpus K U d =
    (case dm_snap d of
       None \<Rightarrow> cold_start K d
     | Some sn \<Rightarrow>
         if sn_last_seq sn \<le> last_seq K (dm_store d)
         then let d1 = d\<lparr>dm_corpus := sn_records sn, dm_cmds := map r_cmd (sn_records sn),
                         dm_last_seq := sn_last_seq sn\<rparr>
              in case since K (dm_store d) (sn_last_seq sn) 0 of
                   Inl e \<Rightarrow> (d1, Some e)
                 | Inr tail \<Rightarrow> (fold_rows U tail d1, None)
         else cold_start K d)"

text \<open>The body of \<open>Run\<close> up to the loops. A scan that fails is logged, and its index stays as it is.\<close>

definition seed_indexes :: "'b hist_kv \<Rightarrow> unicode_tables \<Rightarrow> 'b daemon \<Rightarrow> 'b daemon" where
  "seed_indexes K U d =
    (let d1 = (case tag_records K (dm_store d) of
                 Inl _ \<Rightarrow> d
               | Inr rs \<Rightarrow> d\<lparr>dm_tags := foldl (\<lambda>t r. tag_apply U r t) (dm_tags d) rs\<rparr>)
     in case prompt_records K (dm_store d1) of
          Inl _ \<Rightarrow> d1
        | Inr rs \<Rightarrow> d1\<lparr>dm_prompts := foldl (\<lambda>p r. prompt_apply r p) (dm_prompts d1) rs\<rparr>)"

definition start_daemon ::
  "'b hist_kv \<Rightarrow> unicode_tables \<Rightarrow> (string \<times> string) list \<Rightarrow> int \<Rightarrow> string list \<Rightarrow> 'b daemon
    \<Rightarrow> 'b daemon \<times> store_error option" where
  "start_daemon K U auto now fresh d =
    (let d0 = d\<lparr>dm_corpus := [], dm_cmds := [], dm_last_seq := 0,
                dm_tags := set_auto_tags auto new_tag_index, dm_prompts := new_prompt_index\<rparr>
     in case ingest_commit K now fresh d0 of
          (d1, _) \<Rightarrow>
            (case load_corpus K U d1 of
               (d2, Some e) \<Rightarrow> (d2, Some e)
             | (d2, None) \<Rightarrow> (seed_indexes K U d2, None)))"



section \<open>The corpus tracks the store\<close>

text \<open>
  \<open>rows\<close> is the stream of the store. A corpus that has seen the rows up to \<open>q\<close> differs from the live commands among
  them only by what tombstones after \<open>q\<close> have hidden since; a row may be as it was before a snapshot forgot a zero.
\<close>

definition targets :: "hrec list \<Rightarrow> string set" where
  "targets rows = r_target_id ` {r \<in> set rows. is_tombstone r}"

definition seen_rows :: "u64 \<Rightarrow> hrec list \<Rightarrow> hrec list" where
  "seen_rows q rows = filter (\<lambda>r. r_seq r \<le> q) rows"

definition new_rows :: "u64 \<Rightarrow> hrec list \<Rightarrow> hrec list" where
  "new_rows q rows = filter (\<lambda>r. q < r_seq r) rows"

definition same_row :: "hrec \<Rightarrow> hrec \<Rightarrow> bool" where
  "same_row c r \<longleftrightarrow> c = r \<or> c = gob_rec r"

definition tracked :: "u64 \<Rightarrow> hrec list \<Rightarrow> hrec list \<Rightarrow> bool" where
  "tracked q corpus rows \<longleftrightarrow>
    list_all2 same_row (filter (\<lambda>c. r_id c \<notin> targets (new_rows q rows)) corpus) (filter is_command (seen_rows q rows)) \<and>
    (\<forall>r \<in> set (new_rows q rows). is_command r \<longrightarrow> r_id r \<notin> targets (new_rows q rows))"

lemma gob_sel [simp]:
  "r_id (gob_rec r) = r_id r" "r_cmd (gob_rec r) = r_cmd r" "r_seq (gob_rec r) = r_seq r"
  "gob_rec (gob_rec r) = gob_rec r"
  by (simp_all add: gob_rec_def)

lemma same_row_id: "same_row c r \<Longrightarrow> r_id c = r_id r"
  by (auto simp: same_row_def)

lemma same_row_refl [simp]: "same_row r r"
  by (simp add: same_row_def)

lemma same_row_gob: "same_row c r \<Longrightarrow> same_row (gob_rec c) r"
  by (auto simp: same_row_def)

lemma all2_filter:
  "list_all2 same_row cs rs \<Longrightarrow> (\<And>c r. same_row c r \<Longrightarrow> P c = Q r) \<Longrightarrow> list_all2 same_row (filter P cs) (filter Q rs)"
  by (induction rule: list_all2_induct) auto

lemma all2_refl: "list_all2 same_row xs xs"
  by (rule list.rel_refl) simp

lemma tracked_snapshot: "tracked q corpus rows \<Longrightarrow> tracked q (map gob_rec corpus) rows"
proof -
  assume t: "tracked q corpus rows"
  have "list_all2 same_row (map gob_rec cs) rs" if "list_all2 same_row cs rs" for cs rs
    using that by (induction rule: list_all2_induct) (auto intro: same_row_gob)
  moreover have "filter (\<lambda>c. r_id c \<notin> T) (map gob_rec corpus) = map gob_rec (filter (\<lambda>c. r_id c \<notin> T) corpus)" for T
    by (simp add: filter_map comp_def)
  ultimately show ?thesis using t by (simp add: tracked_def)
qed

lemma seen_new:
  assumes "sorted_wrt (<) (map r_seq rows)"
  shows "rows = seen_rows q rows @ new_rows q rows"
  using assms
proof (induction rows)
  case (Cons r rows)
  show ?case
  proof (cases "r_seq r \<le> q")
    case True
    with Cons show ?thesis by (simp add: seen_rows_def new_rows_def)
  next
    case False
    have above: "q < r_seq x" if "x \<in> set rows" for x using Cons.prems that False by fastforce
    have "seen_rows q rows = []" "new_rows q rows = rows"
      using above by (auto simp: seen_rows_def new_rows_def filter_empty_conv intro!: filter_True simp flip: not_less)
    with False show ?thesis by (simp add: seen_rows_def new_rows_def)
  qed
qed (simp add: seen_rows_def new_rows_def)

text \<open>Folding the new rows brings the corpus up to the stream.\<close>

lemma index_rows_keep:
  "dm_corpus (foldl (index_row U) d rows) = dm_corpus d" "dm_cmds (foldl (index_row U) d rows) = dm_cmds d"
  "dm_store (foldl (index_row U) d rows) = dm_store d" "dm_snap (foldl (index_row U) d rows) = dm_snap d"
  "dm_spool (foldl (index_row U) d rows) = dm_spool d"
  by (induction rows arbitrary: d) (simp_all add: index_row_def)

lemma index_rows_last:
  "dm_last_seq d \<le> dm_last_seq (foldl (index_row U) d rows)"
  "\<forall>r \<in> set rows. r_seq r \<le> dm_last_seq (foldl (index_row U) d rows)"
  "dm_last_seq d \<le> m \<Longrightarrow> \<forall>r \<in> set rows. r_seq r \<le> m \<Longrightarrow> dm_last_seq (foldl (index_row U) d rows) \<le> m"
proof (induction rows arbitrary: d)
  case (Cons r rows)
  have q: "dm_last_seq d \<le> dm_last_seq (index_row U d r)" "r_seq r \<le> dm_last_seq (index_row U d r)" for d :: "'a daemon"
    by (auto simp: index_row_def)
  { case 1 show ?case unfolding foldl_Cons by (rule order_trans [OF q(1) Cons.IH(1)]) }
  { case 2 show ?case using order_trans [OF q(2) Cons.IH(1)] Cons.IH(2) by simp }
  { case 3
    then have "dm_last_seq (index_row U d r) \<le> m" by (simp add: index_row_def)
    with Cons.IH(3) [of "index_row U d r"] 3 show ?case by simp }
qed simp_all

lemma fold_rows_Nil [simp]: "fold_rows U [] d = d"
  by (simp add: fold_rows_def)

lemma fold_rows_keep [simp]:
  "dm_store (fold_rows U rows d) = dm_store d" "dm_snap (fold_rows U rows d) = dm_snap d"
  "dm_spool (fold_rows U rows d) = dm_spool d"
  "dm_last_seq (fold_rows U rows d) = dm_last_seq (foldl (index_row U) d rows)"
  by (simp_all add: fold_rows_def Let_def drop_from_corpus_def index_rows_keep)

lemma fold_rows_corpus:
  "dm_corpus (fold_rows U rows d) = filter (\<lambda>r. r_id r \<notin> targets rows) (dm_corpus d @ filter is_command rows)"
proof -
  have set: "r_target_id ` {x \<in> set rows. is_tombstone x} = targets rows" by (simp add: targets_def)
  have none: "targets rows = {}" if "filter is_tombstone rows = []"
    using that by (auto simp: targets_def filter_empty_conv)
  have comm: "filter (\<lambda>r. r_id r \<notin> T) (filter (\<lambda>r. is_command r \<and> r_id r \<notin> T) rows) =
      filter (\<lambda>r. r_id r \<notin> T) (filter is_command rows)" for T by (auto intro: filter_cong)
  show ?thesis using none
    by (auto simp: fold_rows_def Let_def drop_from_corpus_def index_rows_keep set comm)
qed

lemma fold_rows_cmds:
  "dm_cmds d = map r_cmd (dm_corpus d) \<Longrightarrow> dm_cmds (fold_rows U rows d) = map r_cmd (dm_corpus (fold_rows U rows d))"
  by (simp add: fold_rows_def Let_def drop_from_corpus_def index_rows_keep)

lemma tracked_fold:
  assumes "tracked q (dm_corpus d) rows" and "sorted_wrt (<) (map r_seq rows)"
  shows "list_all2 same_row (dm_corpus (fold_rows U (new_rows q rows) d)) (filter is_command rows)"
proof -
  let ?T = "targets (new_rows q rows)"
  have "filter (\<lambda>r. r_id r \<notin> ?T) (filter is_command (new_rows q rows)) = filter is_command (new_rows q rows)"
    unfolding filter_filter using assms(1) by (intro filter_cong) (auto simp: tracked_def)
  then have "dm_corpus (fold_rows U (new_rows q rows) d) =
      filter (\<lambda>r. r_id r \<notin> ?T) (dm_corpus d) @ filter is_command (new_rows q rows)"
    by (simp add: fold_rows_corpus)
  moreover have "filter is_command rows = filter is_command (seen_rows q rows) @ filter is_command (new_rows q rows)"
    by (subst seen_new [OF assms(2), of q]) simp
  ultimately show ?thesis
    using assms(1) by (simp add: tracked_def list_all2_appendI all2_refl)
qed

lemma tracked_all:
  assumes "list_all2 same_row corpus (filter is_command rows)" and "\<forall>r \<in> set rows. r_seq r \<le> q"
  shows "tracked q corpus rows"
proof -
  have "seen_rows q rows = rows" "new_rows q rows = []"
    using assms(2) by (auto simp: seen_rows_def new_rows_def filter_empty_conv not_less intro: filter_True)
  with assms(1) show ?thesis by (simp add: tracked_def targets_def)
qed


subsection \<open>An append keeps a corpus tracked\<close>

definition plain :: "hrec \<Rightarrow> bool" where
  "plain r \<longleftrightarrow> json_str (r_id r) = r_id r \<and> json_str (r_type r) = r_type r \<and> json_str (r_target_id r) = r_target_id r"

lemma plain_json:
  "plain r \<Longrightarrow> plain (json_rec r) \<and> is_command (json_rec r) = is_command r \<and> is_tombstone (json_rec r) = is_tombstone r \<and>
    r_id (json_rec r) = r_id r \<and> r_target_id (json_rec r) = r_target_id r \<and> r_seq (json_rec r) = r_seq r"
  by (simp add: plain_def is_command_def is_tombstone_def)

lemma plain_stamp:
  "plain x \<Longrightarrow> plain (stamp_target now r x) \<and> is_tombstone (stamp_target now r x) = is_tombstone x \<and>
    r_id (stamp_target now r x) = r_id x \<and> r_target_id (stamp_target now r x) = r_target_id x \<and>
    r_seq (stamp_target now r x) = r_seq x"
  unfolding stamp_target_def plain_def is_tombstone_def by auto

lemma targets_append [simp]: "targets (xs @ ys) = targets xs \<union> targets ys"
  by (auto simp: targets_def)

lemma targets_stamp: "\<forall>x \<in> set rows. plain x \<Longrightarrow> targets (map (stamp_target now r) rows) = targets rows"
  unfolding targets_def by (force simp: plain_stamp image_iff)

lemma filter_stamp:
  "\<forall>x \<in> set rows. plain x \<Longrightarrow> (\<And>x. plain x \<Longrightarrow> P (stamp_target now r x) = P x) \<Longrightarrow>
    filter P (map (stamp_target now r) rows) = map (stamp_target now r) (filter P rows)"
  by (induction rows) auto

lemma tracked_append:
  assumes t: "tracked q corpus rows" and rows: "\<forall>x \<in> set rows. plain x" and r: "plain r" "q < r_seq r"
    and time: "(if r_start_ms r = 0 then now else r_start_ms r) \<noteq> 0"
    and fresh: "is_command r \<Longrightarrow> r_id r \<notin> targets (new_rows q rows)"
  shows "tracked q corpus (map (stamp_target now r) rows @ [json_rec r])"
proof -
  let ?st = "stamp_target now r" and ?T = "targets (new_rows q rows)"
  have new_plain: "\<forall>x \<in> set (new_rows q rows). plain x" using rows by (simp add: new_rows_def)
  have new: "new_rows q (map ?st rows @ [json_rec r]) = map ?st (new_rows q rows) @ [json_rec r]"
    using filter_stamp [OF rows, of "\<lambda>x. q < r_seq x"] r plain_json [OF r(1)] by (simp add: new_rows_def plain_stamp)
  have seen: "seen_rows q (map ?st rows @ [json_rec r]) = map ?st (seen_rows q rows)"
    using filter_stamp [OF rows, of "\<lambda>x. r_seq x \<le> q"] r plain_json [OF r(1)]
    by (simp add: seen_rows_def plain_stamp not_le)
  have T: "targets (new_rows q (map ?st rows @ [json_rec r])) = ?T \<union> targets [json_rec r]"
    unfolding new by (simp add: targets_stamp [OF new_plain])
  show ?thesis
  proof (cases "is_tombstone r")
    case False
    then have "?st = (\<lambda>x. x)" unfolding stamp_target_def is_tombstone_def by auto
    then have st: "map ?st xs = xs" for xs by simp
    have "targets [json_rec r] = {}" using False plain_json [OF r(1)] by (simp add: targets_def)
    with t fresh plain_json [OF r(1)] show ?thesis unfolding tracked_def T unfolding new seen unfolding st by auto
  next
    case True
    let ?i = "r_target_id r"
    have base: "list_all2 same_row (filter (\<lambda>c. r_id c \<notin> ?T) corpus) (filter is_command (seen_rows q rows))"
      using t by (simp add: tracked_def)
    have one: "targets [json_rec r] = {?i}" using True plain_json [OF r(1)] by (auto simp: targets_def)
    have cmd: "is_command (?st x) \<longleftrightarrow> is_command x \<and> r_id x \<noteq> ?i" for x
      using True time by (intro stamped_command) (simp_all add: is_tombstone_def)
    have fixed: "?st x = x" if "r_id x \<noteq> ?i" for x using that by (simp add: stamp_target_def)
    have "\<not> is_command (json_rec r)" using True plain_json [OF r(1)] by (simp add: is_tombstone_def is_command_def)
    moreover have "filter is_command (map ?st xs) = filter (\<lambda>x. r_id x \<noteq> ?i) (filter is_command xs)" for xs
      by (induction xs) (auto simp: cmd fixed)
    moreover have "filter (\<lambda>c. r_id c \<notin> ?T \<union> {?i}) corpus = filter (\<lambda>c. r_id c \<noteq> ?i) (filter (\<lambda>c. r_id c \<notin> ?T) corpus)"
      unfolding filter_filter by (auto intro: filter_cong)
    moreover have "list_all2 same_row (filter (\<lambda>c. r_id c \<noteq> ?i) (filter (\<lambda>c. r_id c \<notin> ?T) corpus))
        (filter (\<lambda>x. r_id x \<noteq> ?i) (filter is_command (seen_rows q rows)))"
      by (rule all2_filter [OF base]) (auto dest: same_row_id)
    moreover have "r_id (?st x) \<notin> ?T \<union> {?i}" if "x \<in> set (new_rows q rows)" "is_command (?st x)" for x
      using that t cmd new_plain by (auto simp: tracked_def plain_stamp)
    ultimately show ?thesis unfolding tracked_def T one by (auto simp: new seen)
  qed
qed


subsection \<open>The store under the daemon\<close>

text \<open>
  The condition on what arrives: records carry good ids and a tombstone never arrives before the command it names.
  \<open>known\<close> are the ids in the store, \<open>gone\<close> the ids its tombstones name.
\<close>

fun orderly :: "string set \<Rightarrow> string set \<Rightarrow> hrec list \<Rightarrow> bool" where
  "orderly known gone [] = True"
| "orderly known gone (r # rs) =
    (if r_id r \<in> known then orderly known gone rs
     else (is_command r \<longrightarrow> r_id r \<notin> gone) \<and> orderly (insert (r_id r) known) (gone \<union> targets [r]) rs)"

definition arrives :: "hrec list \<Rightarrow> hrec list \<Rightarrow> bool" where
  "arrives rows rs \<longleftrightarrow> (\<forall>r \<in> set rs. good_id (r_id r) \<and> plain r) \<and> orderly (r_id ` set rows) (targets rows) rs"

text \<open>What the daemon knows of its store, and of a corpus (its own, or that of a snapshot) against it.\<close>

definition follows :: "'b hist_kv \<Rightarrow> 'b store \<Rightarrow> u64 \<Rightarrow> hrec list \<Rightarrow> bool" where
  "follows K s q corpus \<longleftrightarrow> q \<le> last_seq K s \<and> tracked q corpus (stream K s)"

definition steady :: "'b hist_kv \<Rightarrow> 'b store \<Rightarrow> bool" where
  "steady K s \<longleftrightarrow> store_ok K s \<and> (\<forall>r \<in> set (stream K s). plain r)"


lemma append_follows:
  assumes K: "bucket K" and s: "steady K s" and room: "kv_seq K (st_history s) \<noteq> - 1"
    and i: "i = (if r_id r = [] then fresh else r_id r)" "good_id i"
    and new: "r_id r = [] \<Longrightarrow> kv_get K (st_ids s) fresh = None"
    and r: "plain r" and time: "now \<noteq> 0"
    and order: "i \<notin> r_id ` set (stream K s) \<Longrightarrow> is_command r \<Longrightarrow> i \<notin> targets (stream K s)"
  obtains s' out added where "append_one K now fresh s r = Inr (s', out, added)" and "steady K s'"
    and "kv_seq K (st_history s') = kv_seq K (st_history s) + (if added then 1 else 0)"
    and "\<And>q corpus. follows K s q corpus \<Longrightarrow> follows K s' q corpus"
    and "r_id ` set (stream K s') = insert i (r_id ` set (stream K s))"
    and "targets (stream K s') = targets (stream K s) \<union> (if added then targets [r] else {})"
    and "\<not> added \<Longrightarrow> s' = s" and "added \<longleftrightarrow> i \<notin> r_id ` set (stream K s)"
proof (cases "r_id r \<noteq> [] \<and> kv_get K (st_ids s) (r_id r) \<noteq> None")
  case True
  note hist = hist_of_bucket [OF K]
  have ok: "store_ok K s" using s by (simp add: steady_def)
  from history_bucket.append_one_known [OF hist ok, of r now fresh] True obtain x where
    x: "List.find (\<lambda>x. r_id x = r_id r) (stream K s) = Some x" "append_one K now fresh s r = Inr (s, x, False)" by blast
  from x(1) have "x \<in> set (stream K s) \<and> r_id x = r_id r" by (auto simp: find_Some_iff)
  then have "i \<in> r_id ` set (stream K s)" using True i(1) by (metis imageI)
  with x s show ?thesis by (intro that [of s x False]) auto
next
  case False
  note hist = hist_of_bucket [OF K]
  have ok: "store_ok K s" and plains: "\<forall>x \<in> set (stream K s). plain x" using s by (auto simp: steady_def)
  let ?sq = "kv_seq K (st_history s)"
  define r1 where "r1 = r\<lparr>r_seq := ?sq + 1, r_host_id := st_host_id s, r_hostname := st_hostname s,
      r_id := (if r_id r = [] then fresh else r_id r)\<rparr>"
  have id1: "r_id r1 = i" using i(1) by (simp add: r1_def)
  have g: "good_id (r_id r1)" using i(2) id1 by simp
  have none: "kv_get K (st_ids s) (r_id r1) = None" using False new unfolding id1 i(1) by auto
  have p1: "plain r1" using r i(2) id1 by (simp add: plain_def r1_def good_id_def)
  obtain s' where s': "append_one K now fresh s r = Inr (s', r1, True)" "store_ok K s'"
      "stream K s' = map (stamp_target now r1) (stream K s) @ [json_rec r1]"
      "kv_seq K (st_history s') = ?sq + 1"
    by (rule history_bucket.append_one_fresh [OF hist, where now = now and fresh = fresh and r = r, OF ok room r1_def g none])
      (rule that, assumption+)
  have fresh_id: "i \<notin> r_id ` set (stream K s)"
    using history_bucket.ids_None [OF hist ok, of i] none unfolding id1 by auto
  have cmd1: "is_command r1 = is_command r" "targets [r1] = targets [r]" "r_seq r1 = ?sq + 1"
    by (auto simp: r1_def is_command_def targets_def is_tombstone_def)
  have steady: "steady K s'"
    using s'(2) plains plain_json [OF p1] by (auto simp: steady_def s'(3) plain_stamp)
  have t1: "(if r_start_ms r1 = 0 then now else r_start_ms r1) \<noteq> 0" using time by simp
  have inc: "?sq < ?sq + 1" using u64_inc_le [OF room, of "?sq + 1"] by simp
  have fol: "follows K s' q corpus" if "follows K s q corpus" for q corpus
  proof -
    have q: "q \<le> ?sq" "tracked q corpus (stream K s)" using that by (simp_all add: follows_def last_seq_def)
    have sub: "targets (new_rows q (stream K s)) \<subseteq> targets (stream K s)" by (auto simp: targets_def new_rows_def)
    have "r_id r1 \<notin> targets (new_rows q (stream K s))" if "is_command r1"
      using order [OF fresh_id] that cmd1(1) sub id1 by auto
    from tracked_append [OF q(2) plains p1 _ t1 this] q(1) inc cmd1(3) have "tracked q corpus (stream K s')"
      by (simp add: s'(3))
    moreover have "q \<le> last_seq K s'" using q(1) inc by (simp add: last_seq_def s'(4))
    ultimately show ?thesis by (simp add: follows_def)
  qed
  have ids: "r_id ` set (stream K s') = insert i (r_id ` set (stream K s))"
    using plains plain_json [OF p1] id1 by (auto simp: s'(3) plain_stamp image_iff)
  have tg: "targets (stream K s') = targets (stream K s) \<union> targets [r]"
    using plain_json [OF p1] by (simp add: s'(3) targets_stamp [OF plains] cmd1(2) [symmetric]) (auto simp: targets_def)
  show ?thesis
    by (rule that [of s' r1 True]) (use s' steady fol ids tg fresh_id in simp_all)
qed

lemma append_all_follows:
  assumes K: "bucket K" and "now \<noteq> 0"
  shows "steady K s \<Longrightarrow> arrives (stream K s) rs \<Longrightarrow> unat (kv_seq K (st_history s)) + length rs < 2 ^ 64 \<Longrightarrow>
    \<exists>s' m. append_all K now fresh s rs n = Inr (s', n + m) \<and> steady K s' \<and>
      (\<forall>q corpus. follows K s q corpus \<longrightarrow> follows K s' q corpus) \<and> (m = 0 \<longrightarrow> s' = s) \<and>
      unat (kv_seq K (st_history s')) \<le> unat (kv_seq K (st_history s)) + length rs"
proof (induction rs arbitrary: s n fresh)
  case (Cons r rs)
  let ?f = "case fresh of [] \<Rightarrow> [] | f # _ \<Rightarrow> f"
  let ?sq = "kv_seq K (st_history s)"
  have r: "good_id (r_id r)" "plain r" "\<forall>x \<in> set rs. good_id (r_id x) \<and> plain x"
    and ord: "orderly (r_id ` set (stream K s)) (targets (stream K s)) (r # rs)"
    using Cons.prems(2) by (auto simp: arrives_def)
  have ne: "r_id r \<noteq> []" using r(1) by (simp add: good_id_def)
  have room: "?sq \<noteq> - 1" using Cons.prems(3) by (auto simp: unsigned_minus_1_eq_mask mask_eq_exp_minus_1)
  have i: "r_id r = (if r_id r = [] then ?f else r_id r)" using ne by simp
  have order: "r_id r \<notin> r_id ` set (stream K s) \<Longrightarrow> is_command r \<Longrightarrow> r_id r \<notin> targets (stream K s)"
    using ord by simp
  obtain s1 out added where s1: "append_one K now ?f s r = Inr (s1, out, added)" "steady K s1"
      "kv_seq K (st_history s1) = ?sq + (if added then 1 else 0)"
      "\<And>q corpus. follows K s q corpus \<Longrightarrow> follows K s1 q corpus"
      "r_id ` set (stream K s1) = insert (r_id r) (r_id ` set (stream K s))"
      "targets (stream K s1) = targets (stream K s) \<union> (if added then targets [r] else {})"
      "\<not> added \<Longrightarrow> s1 = s" "added \<longleftrightarrow> r_id r \<notin> r_id ` set (stream K s)"
    by (rule append_follows [OF K Cons.prems(1) room i r(1) _ r(2) assms(2) order]) (use ne in auto)
  have "arrives (stream K s1) rs"
    using ord r(3) s1(5-8) by (cases added) (auto simp: arrives_def insert_absorb)
  moreover have up: "unat (kv_seq K (st_history s1)) \<le> unat ?sq + (if added then 1 else 0)"
    unfolding s1(3) by (cases added) (simp_all add: unat_word_ariths)
  moreover have "unat (kv_seq K (st_history s1)) + length rs < 2 ^ 64" using Cons.prems(3) up by (simp split: if_splits)
  ultimately obtain s' m where s': "append_all K now (tl fresh) s1 rs (if added then n + 1 else n) =
        Inr (s', (if added then n + 1 else n) + m)" "steady K s'"
      "\<forall>q corpus. follows K s1 q corpus \<longrightarrow> follows K s' q corpus" "m = 0 \<longrightarrow> s' = s1"
      "unat (kv_seq K (st_history s')) \<le> unat (kv_seq K (st_history s1)) + length rs"
    using Cons.IH [OF s1(2), of "tl fresh" "if added then n + 1 else n"] by blast
  have "append_all K now fresh s (r # rs) n = Inr (s', n + (if added then m + 1 else m))"
    using s1(1) s'(1) by simp
  moreover have "unat (kv_seq K (st_history s')) \<le> unat ?sq + length (r # rs)" using s'(5) up by (simp split: if_splits)
  moreover have "(if added then m + 1 else m) = 0 \<longrightarrow> s' = s" using s'(4) s1(7) by auto
  ultimately show ?case
    using s'(2,3) s1(4) by (intro exI [of _ s'] exI [of _ "if added then m + 1 else m"]) blast
qed auto


subsection \<open>The daemon's steps\<close>

definition roomy :: "'b hist_kv \<Rightarrow> 'b store \<Rightarrow> nat \<Rightarrow> bool" where
  "roomy K s n \<longleftrightarrow> unat (kv_seq K (st_history s)) + n < 2 ^ 64 - 1"

lemma roomy_seq: "roomy K s n \<Longrightarrow> q \<le> last_seq K s \<Longrightarrow> q \<noteq> - 1"
  by (auto simp: roomy_def last_seq_def unsigned_minus_1_eq_mask mask_eq_exp_minus_1 word_le_nat_alt)

text \<open>What a spool must hold for an ingest to be in order.\<close>

definition spool_fits :: "'b hist_kv \<Rightarrow> 'b daemon \<Rightarrow> bool" where
  "spool_fits K d \<longleftrightarrow> distinct (map fst (sp_jsonl (dm_spool d))) \<and>
     arrives (stream K (dm_store d)) (spooled (dm_spool d)) \<and> roomy K (dm_store d) (length (spooled (dm_spool d)))"

lemma commit_ok:
  assumes K: "bucket K" and s: "steady K (dm_store d)" and fits: "spool_fits K d" and "now \<noteq> 0"
  obtains s' sp' n where "ingest_commit K now fresh d = (d\<lparr>dm_store := s', dm_spool := sp'\<rparr>, Inr n)"
    and "steady K s'" and "\<And>q corpus. follows K (dm_store d) q corpus \<Longrightarrow> follows K s' q corpus"
    and "n = 0 \<Longrightarrow> s' = dm_store d" and "roomy K s' 0"
proof (cases "spooled (dm_spool d) = []")
  case True
  have dist: "distinct (map fst (sp_jsonl (dm_spool d)))" using fits by (simp add: spool_fits_def)
  have run: "ingest_spool K now fresh (dm_store d) (dm_spool d) =
      (dm_store d, sweep_tmp (now div 1000) ((dm_spool d)\<lparr>sp_jsonl := []\<rparr>), Inr 0)"
    using True by (simp add: ingest_spool_def drain_collect [OF dist])
  have "roomy K (dm_store d) 0" using fits by (simp add: spool_fits_def roomy_def)
  with run s show ?thesis
    by (intro that [where s' = "dm_store d" and sp' = "sweep_tmp (now div 1000) ((dm_spool d)\<lparr>sp_jsonl := []\<rparr>)" and n = 0])
      (auto simp: ingest_commit_def)
next
  case False
  have dist: "distinct (map fst (sp_jsonl (dm_spool d)))"
    and arr: "arrives (stream K (dm_store d)) (spooled (dm_spool d))"
    and room: "unat (kv_seq K (st_history (dm_store d))) + length (spooled (dm_spool d)) < 2 ^ 64 - 1"
    using fits by (simp_all add: spool_fits_def roomy_def)
  have "unat (kv_seq K (st_history (dm_store d))) + length (spooled (dm_spool d)) < 2 ^ 64" using room by simp
  from append_all_follows [OF K assms(4) s arr this, of fresh 0] obtain s' n where
    s': "append_all K now fresh (dm_store d) (spooled (dm_spool d)) 0 = Inr (s', n)" "steady K s'"
      "\<forall>q corpus. follows K (dm_store d) q corpus \<longrightarrow> follows K s' q corpus" "n = 0 \<longrightarrow> s' = dm_store d"
      "unat (kv_seq K (st_history s')) \<le> unat (kv_seq K (st_history (dm_store d))) + length (spooled (dm_spool d))"
    by auto
  have "ingest_spool K now fresh (dm_store d) (dm_spool d) =
      (s', sweep_tmp (now div 1000) ((dm_spool d)\<lparr>sp_jsonl := []\<rparr>), Inr n)"
    using s'(1) by (simp add: ingest_run [OF dist False] append_batch_def)
  moreover have "roomy K s' 0" using s'(5) room by (simp add: roomy_def)
  ultimately show ?thesis using s'(2-4)
    by (intro that [where s' = s' and sp' = "sweep_tmp (now div 1000) ((dm_spool d)\<lparr>sp_jsonl := []\<rparr>)" and n = n]) (auto simp: ingest_commit_def)
qed

text \<open>A daemon that may be behind its store, and one in step with it.\<close>

definition behind :: "'b hist_kv \<Rightarrow> 'b daemon \<Rightarrow> bool" where
  "behind K d \<longleftrightarrow> steady K (dm_store d) \<and> dm_cmds d = map r_cmd (dm_corpus d) \<and>
     follows K (dm_store d) (dm_last_seq d) (dm_corpus d)"

definition in_step :: "'b hist_kv \<Rightarrow> 'b daemon \<Rightarrow> bool" where
  "in_step K d \<longleftrightarrow> steady K (dm_store d) \<and> dm_cmds d = map r_cmd (dm_corpus d) \<and>
     list_all2 same_row (dm_corpus d) (filter is_command (stream K (dm_store d))) \<and>
     (\<forall>r \<in> set (stream K (dm_store d)). r_seq r \<le> dm_last_seq d) \<and> dm_last_seq d \<le> last_seq K (dm_store d)"

definition snap_ok :: "'b hist_kv \<Rightarrow> 'b daemon \<Rightarrow> bool" where
  "snap_ok K d \<longleftrightarrow> (\<forall>sn. dm_snap d = Some sn \<longrightarrow> follows K (dm_store d) (sn_last_seq sn) (sn_records sn))"

lemma in_step_behind: "in_step K d \<Longrightarrow> behind K d"
  by (simp add: in_step_def behind_def follows_def tracked_all)

lemma row_bound: "bucket K \<Longrightarrow> store_ok K s \<Longrightarrow> r \<in> set (stream K s) \<Longrightarrow> r_seq r \<le> last_seq K s"
  using history_bucket.stream_mem [OF hist_of_bucket] history_bucket.store_ok_history [OF hist_of_bucket]
  by (fastforce simp: last_seq_def)

lemma fold_in_step:
  assumes K: "bucket K" and b: "behind K d"
  shows "in_step K (fold_rows U (new_rows (dm_last_seq d) (stream K (dm_store d))) d)"
proof -
  let ?rows = "stream K (dm_store d)" and ?q = "dm_last_seq d"
  have s: "steady K (dm_store d)" "dm_cmds d = map r_cmd (dm_corpus d)" "?q \<le> last_seq K (dm_store d)"
      "tracked ?q (dm_corpus d) ?rows" using b by (auto simp: behind_def follows_def)
  have ok: "store_ok K (dm_store d)" using s(1) by (simp add: steady_def)
  have sorted: "sorted_wrt (<) (map r_seq ?rows)" by (rule history_bucket.stream_sorted [OF hist_of_bucket [OF K] ok])
  have "\<forall>r \<in> set (new_rows ?q ?rows). r_seq r \<le> last_seq K (dm_store d)"
    using row_bound [OF K ok] by (simp add: new_rows_def)
  note up = index_rows_last(3) [OF s(3) this, of U]
  have "r_seq r \<le> dm_last_seq (foldl (index_row U) d (new_rows ?q ?rows))" if "r \<in> set ?rows" for r
  proof (cases "?q < r_seq r")
    case True
    with that have "r \<in> set (new_rows ?q ?rows)" by (simp add: new_rows_def)
    with index_rows_last(2) [of "new_rows ?q ?rows" U d] show ?thesis by blast
  next
    case False
    with index_rows_last(1) [of d U "new_rows ?q ?rows"] show ?thesis by (simp add: not_less)
  qed
  with s up tracked_fold [OF s(4) sorted, of U] fold_rows_cmds [OF s(2)] show ?thesis by (simp add: in_step_def)
qed

lemma since_new:
  "bucket K \<Longrightarrow> store_ok K s \<Longrightarrow> q \<noteq> - 1 \<Longrightarrow> since K s q 0 = Inr (new_rows q (stream K s))"
  by (simp add: history_bucket.since_stream [OF hist_of_bucket] new_rows_def)

lemma refresh_in_step:
  assumes K: "bucket K" and b: "behind K d" and room: "roomy K (dm_store d) 0"
  shows "in_step K (refresh_corpus K U d) \<and> dm_store (refresh_corpus K U d) = dm_store d \<and>
    dm_snap (refresh_corpus K U d) = dm_snap d"
proof -
  have q: "dm_last_seq d \<noteq> - 1" using b room by (intro roomy_seq) (auto simp: behind_def follows_def)
  have ok: "store_ok K (dm_store d)" using b by (simp add: behind_def steady_def)
  note rows = since_new [OF K ok q]
  note step = fold_in_step [OF K b, of U]
  show ?thesis
  proof (cases "new_rows (dm_last_seq d) (stream K (dm_store d)) = []")
    case True
    have "fold_rows U [] d = d" by (simp add: fold_rows_def)
    with True step rows show ?thesis by (simp add: refresh_corpus_def)
  next
    case False
    with step rows show ?thesis by (simp add: refresh_corpus_def)
  qed
qed


lemma ingest_in_step:
  assumes K: "bucket K" and d: "in_step K d" "snap_ok K d" and fits: "spool_fits K d" and "now \<noteq> 0"
  shows "in_step K (do_ingest K U now fresh d) \<and> snap_ok K (do_ingest K U now fresh d)"
proof -
  have s: "steady K (dm_store d)" using d(1) by (simp add: in_step_def)
  obtain s' sp' n where c: "ingest_commit K now fresh d = (d\<lparr>dm_store := s', dm_spool := sp'\<rparr>, Inr n)" "steady K s'"
      "\<And>q corpus. follows K (dm_store d) q corpus \<Longrightarrow> follows K s' q corpus" "n = 0 \<Longrightarrow> s' = dm_store d" "roomy K s' 0"
    by (rule commit_ok [OF K s fits assms(5), where fresh = fresh]) (rule that, assumption+)
  let ?d = "d\<lparr>dm_store := s', dm_spool := sp'\<rparr>"
  have snap: "snap_ok K ?d" using d(2) c(3) by (simp add: snap_ok_def)
  have b: "behind K ?d" using in_step_behind [OF d(1)] c(2,3) by (simp add: behind_def)
  show ?thesis
  proof (cases "n = 0")
    case True
    with c(4) d(1) have "in_step K ?d" by (simp add: in_step_def)
    with snap True c(1) show ?thesis by (simp add: do_ingest_def)
  next
    case False
    with refresh_in_step [OF K b, of U] c(5) snap c(1) show ?thesis by (simp add: do_ingest_def snap_ok_def)
  qed
qed

text \<open>The effect of a deletion, whether or not the corpus is up to date.\<close>

lemma delete_effect:
  assumes K: "bucket K" and s: "steady K (dm_store d)" and last: "dm_last_seq d \<le> last_seq K (dm_store d)"
    and room: "roomy K (dm_store d) 1" and i: "i \<noteq> []" "json_str i = i"
    and f: "good_id fresh" "fresh \<notin> r_id ` set (stream K (dm_store d))" and now: "now \<noteq> 0"
  obtains s' where "delete_record K now fresh i d =
      (d\<lparr>dm_store := s', dm_last_seq := last_seq K s', dm_corpus := filter (\<lambda>r. r_id r \<noteq> i) (dm_corpus d),
         dm_cmds := map r_cmd (filter (\<lambda>r. r_id r \<noteq> i) (dm_corpus d)), dm_prompts := prompt_drop [i] (dm_prompts d)\<rparr>, None)"
    and "steady K s'" and "\<And>q corpus. follows K (dm_store d) q corpus \<Longrightarrow> follows K s' q corpus"
    and "filter is_command (stream K s') = filter (\<lambda>r. r_id r \<noteq> i) (filter is_command (stream K (dm_store d)))"
    and "roomy K s' 0" and "last_seq K s' = last_seq K (dm_store d) + 1"
    and "\<And>x. x \<in> set (stream K (dm_store d)) \<Longrightarrow> \<exists>y \<in> set (stream K s'). r_id y = r_id x \<and> r_type y = r_type x"
proof -
  let ?r = "zero_rec\<lparr>r_type := type_delete, r_target_id := i, r_start_ms := now\<rparr>"
  have ok: "store_ok K (dm_store d)" and pl: "\<forall>x \<in> set (stream K (dm_store d)). plain x" using s by (auto simp: steady_def)
  have full: "kv_seq K (st_history (dm_store d)) \<noteq> - 1"
    using room by (auto simp: roomy_def unsigned_minus_1_eq_mask mask_eq_exp_minus_1)
  have new: "kv_get K (st_ids (dm_store d)) fresh = None"
    using f(2) history_bucket.ids_None [OF hist_of_bucket [OF K] ok, of fresh] by auto
  have p: "plain ?r" using i(2) by (simp add: plain_def zero_rec_def json_str_ascii ascii_byte_def byte_def)
  have nc: "\<not> is_command ?r" by (simp add: is_command_def)
  obtain s1 out1 added where a: "append_one K now fresh (dm_store d) ?r = Inr (s1, out1, added)" "steady K s1"
      "\<And>q corpus. follows K (dm_store d) q corpus \<Longrightarrow> follows K s1 q corpus"
    by (rule append_follows [OF K s full _ f(1) _ p now]) (use new nc in auto)
  obtain s' r1 where s': "append_one K now fresh (dm_store d) ?r = Inr (s', r1, True)" "store_ok K s'"
      "stream K s' = map (stamp_target now r1) (stream K (dm_store d)) @ [json_rec r1]"
      "kv_seq K (st_history s') = kv_seq K (st_history (dm_store d)) + 1"
      "filter is_command (stream K s') = filter (\<lambda>x. is_command x \<and> r_id x \<noteq> r_target_id ?r) (stream K (dm_store d))"
    by (rule delete_stream [OF K ok full, where r = ?r and fresh = fresh and now = now])
      (use f(1) new i(1) now in simp_all)
  have eq: "s1 = s'" using a(1) s'(1) by simp
  have inc: "last_seq K (dm_store d) < last_seq K s'"
    using s'(4) u64_inc_le [OF full, of "last_seq K (dm_store d) + 1"] by (simp add: last_seq_def)
  have "store_append K now fresh (dm_store d) ?r = (s', Inr r1)" using s'(1) by (simp add: store_append_def)
  then have out: "delete_record K now fresh i d =
      (d\<lparr>dm_store := s', dm_last_seq := last_seq K s', dm_corpus := filter (\<lambda>r. r_id r \<noteq> i) (dm_corpus d),
         dm_cmds := map r_cmd (filter (\<lambda>r. r_id r \<noteq> i) (dm_corpus d)), dm_prompts := prompt_drop [i] (dm_prompts d)\<rparr>, None)"
    using inc last by (simp add: delete_record_def drop_from_corpus_def)
  have rows: "filter is_command (stream K s') = filter (\<lambda>r. r_id r \<noteq> i) (filter is_command (stream K (dm_store d)))"
    unfolding s'(5) filter_filter by (rule filter_cong) simp_all
  have ty: "\<exists>y \<in> set (stream K s'). r_id y = r_id x \<and> r_type y = r_type x" if x: "x \<in> set (stream K (dm_store d))" for x
  proof (rule bexI [of _ "stamp_target now r1 x"])
    have "plain x" using pl x by blast
    then show "r_id (stamp_target now r1 x) = r_id x \<and> r_type (stamp_target now r1 x) = r_type x"
      unfolding stamp_target_def plain_def by auto
  qed (simp add: s'(3) x)
  have "roomy K s' 0" using room unfolding roomy_def s'(4) by (simp add: unat_word_ariths)
  with out a(2,3) rows ty s'(4) show ?thesis by (intro that [of s']) (simp_all add: eq last_seq_def)
qed

lemma delete_in_step:
  assumes K: "bucket K" and d: "in_step K d" "snap_ok K d" and room: "roomy K (dm_store d) 1"
    and i: "i \<noteq> []" "json_str i = i" and f: "good_id fresh" "fresh \<notin> r_id ` set (stream K (dm_store d))" and now: "now \<noteq> 0"
  shows "snd (delete_record K now fresh i d) = None \<and> in_step K (fst (delete_record K now fresh i d)) \<and>
    snap_ok K (fst (delete_record K now fresh i d)) \<and> i \<notin> r_id ` set (dm_corpus (fst (delete_record K now fresh i d)))"
proof -
  have s: "steady K (dm_store d)" and last: "dm_last_seq d \<le> last_seq K (dm_store d)"
    and base: "list_all2 same_row (dm_corpus d) (filter is_command (stream K (dm_store d)))"
    using d(1) by (simp_all add: in_step_def)
  obtain s' where out: "delete_record K now fresh i d =
      (d\<lparr>dm_store := s', dm_last_seq := last_seq K s', dm_corpus := filter (\<lambda>r. r_id r \<noteq> i) (dm_corpus d),
         dm_cmds := map r_cmd (filter (\<lambda>r. r_id r \<noteq> i) (dm_corpus d)), dm_prompts := prompt_drop [i] (dm_prompts d)\<rparr>, None)"
    and st: "steady K s'" "\<And>q corpus. follows K (dm_store d) q corpus \<Longrightarrow> follows K s' q corpus"
    and rows: "filter is_command (stream K s') = filter (\<lambda>r. r_id r \<noteq> i) (filter is_command (stream K (dm_store d)))"
    by (rule delete_effect [OF K s last room i f now]) (rule that, assumption+)
  have ok: "store_ok K s'" using st(1) by (simp add: steady_def)
  have "list_all2 same_row (filter (\<lambda>r. r_id r \<noteq> i) (dm_corpus d)) (filter is_command (stream K s'))"
    unfolding rows by (rule all2_filter [OF base]) (auto dest: same_row_id)
  with st(1) row_bound [OF K ok] have "in_step K (fst (delete_record K now fresh i d))"
    by (simp add: out in_step_def)
  moreover have "snap_ok K (fst (delete_record K now fresh i d))" using d(2) st(2) by (simp add: out snap_ok_def)
  ultimately show ?thesis by (auto simp: out)
qed

lemma cold_in_step:
  assumes K: "bucket K" and s: "steady K (dm_store d)"
  shows "snd (cold_start K d) = None \<and> in_step K (fst (cold_start K d)) \<and>
    dm_store (fst (cold_start K d)) = dm_store d \<and> dm_snap (fst (cold_start K d)) = dm_snap d"
proof -
  have ok: "store_ok K (dm_store d)" using s by (simp add: steady_def)
  from history_bucket.all_records_stream [OF hist_of_bucket [OF K] ok] row_bound [OF K ok] s show ?thesis
    by (simp add: cold_start_def in_step_def all2_refl)
qed

lemma load_in_step:
  assumes K: "bucket K" and s: "steady K (dm_store d)" and sn: "snap_ok K d" and room: "roomy K (dm_store d) 0"
  shows "snd (load_corpus K U d) = None \<and> in_step K (fst (load_corpus K U d)) \<and>
    dm_store (fst (load_corpus K U d)) = dm_store d \<and> dm_snap (fst (load_corpus K U d)) = dm_snap d"
proof (cases "dm_snap d")
  case None
  with cold_in_step [OF K s] show ?thesis by (simp add: load_corpus_def)
next
  case (Some snap)
  let ?d = "d\<lparr>dm_corpus := sn_records snap, dm_cmds := map r_cmd (sn_records snap), dm_last_seq := sn_last_seq snap\<rparr>"
  have f: "follows K (dm_store d) (sn_last_seq snap) (sn_records snap)" using sn Some by (simp add: snap_ok_def)
  then have le: "sn_last_seq snap \<le> last_seq K (dm_store d)" by (simp add: follows_def)
  have ok: "store_ok K (dm_store d)" using s by (simp add: steady_def)
  have b: "behind K ?d" using s f by (simp add: behind_def)
  have rows: "since K (dm_store d) (sn_last_seq snap) 0 = Inr (new_rows (sn_last_seq snap) (stream K (dm_store d)))"
    by (rule since_new [OF K ok roomy_seq [OF room le]])
  show ?thesis
    using fold_in_step [OF K b, of U] Some le rows by (simp add: load_corpus_def)
qed

lemma seed_keeps [simp]:
  "dm_store (seed_indexes K U d) = dm_store d" "dm_corpus (seed_indexes K U d) = dm_corpus d"
  "dm_cmds (seed_indexes K U d) = dm_cmds d" "dm_last_seq (seed_indexes K U d) = dm_last_seq d"
  "dm_snap (seed_indexes K U d) = dm_snap d"
  by (simp_all add: seed_indexes_def Let_def split: sum.splits)

lemma start_in_step:
  assumes K: "bucket K" and s: "steady K (dm_store d)" and sn: "snap_ok K d" and fits: "spool_fits K d" and now: "now \<noteq> 0"
  shows "snd (start_daemon K U auto now fresh d) = None \<and> in_step K (fst (start_daemon K U auto now fresh d)) \<and>
    snap_ok K (fst (start_daemon K U auto now fresh d))"
proof -
  let ?d = "d\<lparr>dm_corpus := [], dm_cmds := [], dm_last_seq := 0, dm_tags := set_auto_tags auto new_tag_index,
      dm_prompts := new_prompt_index\<rparr>"
  have s0: "steady K (dm_store ?d)" and f0: "spool_fits K ?d" using s fits by (simp_all add: spool_fits_def)
  obtain s' sp' n where c: "ingest_commit K now fresh ?d = (?d\<lparr>dm_store := s', dm_spool := sp'\<rparr>, Inr n)" "steady K s'"
      "\<And>q corpus. follows K (dm_store ?d) q corpus \<Longrightarrow> follows K s' q corpus" "roomy K s' 0"
    by (rule commit_ok [OF K s0 f0 now, where fresh = fresh]) (rule that, assumption+)
  let ?c = "?d\<lparr>dm_store := s', dm_spool := sp'\<rparr>"
  have snap: "snap_ok K ?c" using sn c(3) by (simp add: snap_ok_def)
  have st: "steady K (dm_store ?c)" and rm: "roomy K (dm_store ?c) 0" using c(2,4) by simp_all
  from load_in_step [OF K st snap rm, of U] obtain d2 where d2: "load_corpus K U ?c = (d2, None)" "in_step K d2"
      "dm_store d2 = s'" "dm_snap d2 = dm_snap d" by (cases "load_corpus K U ?c") auto
  have "start_daemon K U auto now fresh d = (seed_indexes K U d2, None)"
    using c(1) d2(1) by (simp add: start_daemon_def Let_def)
  moreover have "in_step K (seed_indexes K U d2)" using d2(2) by (simp add: in_step_def)
  moreover have "snap_ok K (seed_indexes K U d2)" using snap d2(3,4) by (simp add: snap_ok_def)
  ultimately show ?thesis by simp
qed

lemma snap_in_step: "in_step K d \<Longrightarrow> snap_ok K d \<Longrightarrow> in_step K (snapshot_now w d) \<and> snap_ok K (snapshot_now w d)"
  using in_step_behind [of K d]
  by (auto simp: snapshot_now_def in_step_def snap_ok_def behind_def follows_def tracked_snapshot)


text \<open>
  The life of a daemon over one state directory: it starts, the spool changes under it, it ingests, deletes, writes
  snapshots, and starts again, cleanly or after a crash.
\<close>

inductive daemon_run :: "'b hist_kv \<Rightarrow> unicode_tables \<Rightarrow> 'b daemon \<Rightarrow> 'b daemon \<Rightarrow> bool" for K U d0 where
  Boot: "spool_fits K d0 \<Longrightarrow> now \<noteq> 0 \<Longrightarrow> start_daemon K U auto now fresh d0 = (d, e) \<Longrightarrow> daemon_run K U d0 d"
| Spooled: "daemon_run K U d0 d \<Longrightarrow> daemon_run K U d0 (d\<lparr>dm_spool := sp\<rparr>)"
| Ingested: "daemon_run K U d0 d \<Longrightarrow> spool_fits K d \<Longrightarrow> now \<noteq> 0 \<Longrightarrow> daemon_run K U d0 (do_ingest K U now fresh d)"
| Deleted: "daemon_run K U d0 d \<Longrightarrow> roomy K (dm_store d) 1 \<Longrightarrow> i \<noteq> [] \<Longrightarrow> json_str i = i \<Longrightarrow> good_id fresh1 \<Longrightarrow>
    fresh1 \<notin> r_id ` set (stream K (dm_store d)) \<Longrightarrow> now \<noteq> 0 \<Longrightarrow>
    daemon_run K U d0 (fst (delete_record K now fresh1 i d))"
| Snapped: "daemon_run K U d0 d \<Longrightarrow> daemon_run K U d0 (snapshot_now w d)"
| Restarted: "daemon_run K U d0 d \<Longrightarrow> spool_fits K d \<Longrightarrow> now \<noteq> 0 \<Longrightarrow>
    start_daemon K U auto now fresh d = (d', e) \<Longrightarrow> daemon_run K U d0 d'"

lemma run_in_step:
  assumes K: "bucket K" and s: "steady K (dm_store d0)" and sn: "snap_ok K d0"
  shows "daemon_run K U d0 d \<Longrightarrow> in_step K d \<and> snap_ok K d"
proof (induction rule: daemon_run.induct)
  case (Boot now auto fresh d e)
  with start_in_step [OF K s sn, of now U auto fresh] show ?case by simp
next
  case (Spooled d sp)
  then show ?case by (simp add: in_step_def snap_ok_def)
next
  case (Ingested d now fresh)
  with ingest_in_step [OF K, of d now U fresh] show ?case by blast
next
  case (Deleted d i fresh1 now)
  with delete_in_step [OF K, of d i fresh1 now] show ?case by blast
next
  case (Snapped d w)
  with snap_in_step show ?case by blast
next
  case (Restarted d now auto fresh d' e)
  then have "steady K (dm_store d)" by (simp add: in_step_def)
  with start_in_step [OF K, of d now U auto fresh] Restarted show ?case by simp
qed



text \<open>A state directory with one command in the store, and the daemon before it starts.\<close>

definition idle_daemon :: "hrec blob log_bucket daemon" where
  "idle_daemon = \<lparr>dm_store = ls_store, dm_spool = \<lparr>sp_jsonl = [], sp_tmp = []\<rparr>, dm_corpus = [], dm_cmds = [],
     dm_last_seq = 0, dm_tags = new_tag_index, dm_prompts = new_prompt_index, dm_snap = None\<rparr>"

lemma ls_steady: "steady log_kv ls_store"
  by (simp add: steady_def ls_store_ok plain_def) (simp add: ls_rec_def zero_rec_def json_str_ascii ascii_byte_def byte_def)

lemma idle_fits: "spool_fits log_kv idle_daemon"
  by (simp add: spool_fits_def idle_daemon_def arrives_def roomy_def spooled_def)

lemma idle_sel [simp]: "dm_store idle_daemon = ls_store" "dm_snap idle_daemon = None" "dm_corpus idle_daemon = []"
  "dm_last_seq idle_daemon = 0" "dm_cmds idle_daemon = []"
  by (simp_all add: idle_daemon_def)




section \<open>Where the corpus falls behind\<close>

lemma cmds_in_all:
  assumes "bucket K" and "steady K s"
  shows "all_records K s = Inr (filter is_command (stream K s))"
  using history_bucket.all_records_stream [OF hist_of_bucket [OF assms(1)]] assms(2) by (simp add: steady_def)

lemma no_new_rows: "bucket K \<Longrightarrow> steady K s \<Longrightarrow> new_rows (last_seq K s) (stream K s) = []"
  using row_bound by (force simp: new_rows_def filter_empty_conv not_less steady_def)

text \<open>A deletion between the commit and the refresh of an ingest loses what was ingested from search. The
  deletion moves \<open>lastSeq\<close> past rows that are not in the corpus yet, so the refresh that follows finds nothing new; the
  row is a live command of the store, and neither the corpus nor one loaded from the next snapshot holds it.\<close>

theorem delete_skips_new_rows:
  assumes "bucket K" and "behind K d" and "roomy K (dm_store d) 1" and "i \<noteq> []" and "json_str i = i"
    and "good_id fresh" and "fresh \<notin> r_id ` set (stream K (dm_store d))" and "now \<noteq> 0"
    and "r \<in> set (new_rows (dm_last_seq d) (stream K (dm_store d)))" and "is_command r" and "r_id r \<noteq> i"
    and "r_id r \<notin> r_id ` set (dm_corpus d)" and "d' = refresh_corpus K U (fst (delete_record K now fresh i d))"
  shows "(\<exists>rows. all_records K (dm_store d') = Inr rows \<and> r \<in> set rows) \<and> r_id r \<notin> r_id ` set (dm_corpus d') \<and>
    r_id r \<notin> r_id ` set (dm_corpus (fst (load_corpus K U (snapshot_now True d'))))"
proof -
  have s: "steady K (dm_store d)" and last: "dm_last_seq d \<le> last_seq K (dm_store d)"
    using assms(2) by (simp_all add: behind_def follows_def)
  obtain s' where out: "delete_record K now fresh i d =
      (d\<lparr>dm_store := s', dm_last_seq := last_seq K s', dm_corpus := filter (\<lambda>r. r_id r \<noteq> i) (dm_corpus d),
         dm_cmds := map r_cmd (filter (\<lambda>r. r_id r \<noteq> i) (dm_corpus d)), dm_prompts := prompt_drop [i] (dm_prompts d)\<rparr>, None)"
    and st: "steady K s'"
    and rows: "filter is_command (stream K s') = filter (\<lambda>r. r_id r \<noteq> i) (filter is_command (stream K (dm_store d)))"
    and room: "roomy K s' 0"
    by (rule delete_effect [OF assms(1) s last assms(3-8)]) (rule that, assumption+)
  have q: "last_seq K s' \<noteq> - 1" by (rule roomy_seq [OF room order_refl])
  have ok: "store_ok K s'" using st by (simp add: steady_def)
  note none = since_new [OF assms(1) ok q] no_new_rows [OF assms(1) st]
  have d': "dm_store d' = s'" "dm_last_seq d' = last_seq K s'" "dm_corpus d' = filter (\<lambda>r. r_id r \<noteq> i) (dm_corpus d)"
    unfolding assms(13) using none by (simp_all add: out refresh_corpus_def)
  have "r \<in> set (filter is_command (stream K s'))"
    unfolding rows using assms(9-11) by (simp add: new_rows_def)
  then show ?thesis
    using assms(12) cmds_in_all [OF assms(1) st] none d' by (auto simp: load_corpus_def snapshot_now_def Let_def)
qed

lemma idle_behind: "behind log_kv idle_daemon"
  using ls_steady by (simp add: behind_def follows_def last_seq_def tracked_def seen_rows_def new_rows_def ls_rec_def
      targets_def is_tombstone_def is_command_def zero_rec_def) auto

lemma ls_command: "is_command ls_rec" "r_seq ls_rec = 1"
  by (simp_all add: ls_rec_def is_command_def zero_rec_def)

lemma delete_skips_new_rows_witness:
  "r_id ls_rec \<notin> r_id ` set (dm_corpus (refresh_corpus log_kv kelvin_tables (fst (delete_record log_kv 9 ''f'' ''z'' idle_daemon))))"
proof -
  have "json_str ''z'' = ''z''" "good_id ''f''"
    by (simp_all add: json_str_ascii ascii_byte_def byte_def good_id_letter)
  then show ?thesis
    using delete_skips_new_rows [OF log.bucket_axioms idle_behind, of "''z''" "''f''" 9 ls_rec _ kelvin_tables] ls_command
    by (simp add: roomy_def new_rows_def)
qed

text \<open>A warm start forgets that commands succeeded. Loading the snapshot a daemon just wrote gives its corpus
  back with every exit code 0 and every duration 0 unknown, since the encoding drops pointers to zero.\<close>

theorem warm_start_forgets_zero:
  assumes "bucket K" and "steady K (dm_store d)" and "roomy K (dm_store d) 0" and "dm_last_seq d = last_seq K (dm_store d)"
  shows "\<exists>d'. load_corpus K U (snapshot_now True d) = (d', None) \<and> dm_corpus d' = map gob_rec (dm_corpus d) \<and>
    list_all (\<lambda>r. r_exit r \<noteq> Some 0 \<and> r_dur_ms r \<noteq> Some 0) (dm_corpus d') \<and>
    list_all2 (\<lambda>c r. r_id c = r_id r \<and> (r_exit c = None) = (r_exit r = None \<or> r_exit r = Some 0)) (dm_corpus d') (dm_corpus d)"
proof -
  have ok: "store_ok K (dm_store d)" using assms(2) by (simp add: steady_def)
  have q: "last_seq K (dm_store d) \<noteq> - 1" by (rule roomy_seq [OF assms(3) order_refl])
  obtain d' where d': "load_corpus K U (snapshot_now True d) = (d', None)" "dm_corpus d' = map gob_rec (dm_corpus d)"
    using since_new [OF assms(1) ok q] no_new_rows [OF assms(1,2)] assms(4)
    by (simp add: load_corpus_def snapshot_now_def Let_def)
  then show ?thesis
    by (auto simp: list_all_iff list_all2_map1 gob_rec_def intro!: list.rel_refl_strong)
qed

lemma warm_start_forgets_zero_witness:
  "\<exists>d'. load_corpus log_kv kelvin_tables (snapshot_now True (idle_daemon\<lparr>dm_last_seq := 1,
      dm_corpus := [ls_rec\<lparr>r_exit := Some 0\<rparr>]\<rparr>)) = (d', None) \<and> map r_exit (dm_corpus d') = [None]"
  using warm_start_forgets_zero [OF log.bucket_axioms, of "idle_daemon\<lparr>dm_last_seq := 1,
      dm_corpus := [ls_rec\<lparr>r_exit := Some 0\<rparr>]\<rparr>" kelvin_tables] ls_steady
  by (force simp: roomy_def last_seq_def gob_rec_def)


lemma foldl_prompts:
  "map_of p i \<noteq> None \<or> (\<exists>r \<in> set rs. r_type r = type_prompt \<and> r_id r = i) \<Longrightarrow> i \<noteq> [] \<Longrightarrow>
    map_of (foldl (\<lambda>p r. prompt_apply r p) p rs) i \<noteq> None"
proof (induction rs arbitrary: p)
  case (Cons r rs)
  have "map_of (prompt_apply r p) i \<noteq> None \<or> (\<exists>x \<in> set rs. r_type x = type_prompt \<and> r_id x = i)"
    using Cons.prems by (auto simp: prompt_apply_of)
  from Cons.IH [OF this Cons.prems(2)] show ?case by simp
qed simp

lemma empty_commit: "sp_jsonl (dm_spool d) = [] \<Longrightarrow> \<exists>sp. ingest_commit K now fresh d = (d\<lparr>dm_store := dm_store d, dm_spool := sp\<rparr>, Inr 0)"
  by (rule exI [of _ "sweep_tmp (now div 1000) ((dm_spool d)\<lparr>sp_jsonl := []\<rparr>)"])
    (simp add: ingest_commit_def ingest_spool_def drain_collect spooled_def)

text \<open>A restart brings a deleted prompt back. Deleting a prompt takes its text out of the index, and with it out
  of every command shown; the next start seeds the index from all prompt records of the store, the deleted ones too.\<close>

theorem restart_restores_prompt:
  assumes "bucket K" and "in_step K d" and "snap_ok K d" and "roomy K (dm_store d) 1"
    and "x \<in> set (stream K (dm_store d))" and "r_type x = type_prompt" and "r_id x \<noteq> []" and "json_str (r_id x) = r_id x"
    and "good_id fresh" and "fresh \<notin> r_id ` set (stream K (dm_store d))" and "now \<noteq> 0"
    and "sp_jsonl (dm_spool d) = []" and "d' = fst (delete_record K now fresh (r_id x) d)"
  shows "map_of (dm_prompts d') (r_id x) = None \<and>
    map_of (dm_prompts (fst (start_daemon K U auto now' fresh' d'))) (r_id x) \<noteq> None"
proof -
  have s: "steady K (dm_store d)" and last: "dm_last_seq d \<le> last_seq K (dm_store d)"
    using assms(2) by (simp_all add: in_step_def)
  obtain s' where out: "delete_record K now fresh (r_id x) d =
      (d\<lparr>dm_store := s', dm_last_seq := last_seq K s', dm_corpus := filter (\<lambda>r. r_id r \<noteq> r_id x) (dm_corpus d),
         dm_cmds := map r_cmd (filter (\<lambda>r. r_id r \<noteq> r_id x) (dm_corpus d)),
         dm_prompts := prompt_drop [r_id x] (dm_prompts d)\<rparr>, None)"
    and st: "steady K s'" and fol: "\<And>q corpus. follows K (dm_store d) q corpus \<Longrightarrow> follows K s' q corpus"
    and room: "roomy K s' 0"
    and ids: "\<And>x. x \<in> set (stream K (dm_store d)) \<Longrightarrow> \<exists>y \<in> set (stream K s'). r_id y = r_id x \<and> r_type y = r_type x"
    by (rule delete_effect [OF assms(1) s last assms(4,7-11)]) (rule that, assumption+)
  have gone: "map_of (dm_prompts d') (r_id x) = None" by (simp add: assms(13) out prompt_drop_of)
  let ?d = "d'\<lparr>dm_corpus := [], dm_cmds := [], dm_last_seq := 0, dm_tags := set_auto_tags auto new_tag_index,
      dm_prompts := new_prompt_index\<rparr>"
  have "sp_jsonl (dm_spool ?d) = []" using assms(12) by (simp add: assms(13) out)
  from empty_commit [OF this, of K now' fresh'] obtain sp where
    c: "ingest_commit K now' fresh' ?d = (?d\<lparr>dm_store := dm_store ?d, dm_spool := sp\<rparr>, Inr 0)" by blast
  let ?c = "?d\<lparr>dm_store := dm_store ?d, dm_spool := sp\<rparr>"
  have cs: "steady K (dm_store ?c)" "snap_ok K ?c" "roomy K (dm_store ?c) 0" "dm_store ?c = s'"
    using st assms(3) fol room by (simp_all add: assms(13) out snap_ok_def)
  from load_in_step [OF assms(1) cs(1-3), of U] obtain d2 where d2: "load_corpus K U ?c = (d2, None)" "dm_store d2 = s'"
    using cs(4) by (cases "load_corpus K U ?c") auto
  have start: "start_daemon K U auto now' fresh' d' = (seed_indexes K U d2, None)"
    using c d2(1) by (simp add: start_daemon_def Let_def)
  have ok: "store_ok K s'" using st by (simp add: steady_def)
  note recs = history_bucket.records_of_type_stream [OF hist_of_bucket [OF assms(1)] ok]
  obtain y where "y \<in> set (stream K s')" "r_id y = r_id x" "r_type y = type_prompt" using ids [OF assms(5)] assms(6) by auto
  then have "map_of (dm_prompts (seed_indexes K U d2)) (r_id x) \<noteq> None"
    unfolding seed_indexes_def Let_def tag_records_def prompt_records_def
    using assms(7) by (simp add: d2(2) recs del: not_None_eq) (rule foldl_prompts, auto)
  with gone start show ?thesis by simp
qed

definition ask_rec :: hrec where
  "ask_rec = zero_rec\<lparr>r_id := ''p'', r_type := type_prompt, r_seq := 1, r_prompt := ''why''\<rparr>"

definition ask_daemon :: "hrec blob log_bucket daemon" where
  "ask_daemon = idle_daemon\<lparr>dm_store := ls_store\<lparr>st_history := ([(seq_key 1, Doc ask_rec)], 1),
     st_ids := ([(''p'', Raw (seq_key 1))], 0)\<rparr>, dm_last_seq := 1, dm_prompts := [(''p'', ask_rec)]\<rparr>"

lemma ask_store_ok: "store_ok log_kv (dm_store ask_daemon)"
proof -
  have "Doc ask_rec = Doc ask_rec \<and> seq_key 1 = seq_key (r_seq ask_rec) \<and> 0 < r_seq ask_rec \<and>
      r_seq ask_rec \<le> 1 \<and> r_id ask_rec = ''p''"
    by (simp add: ask_rec_def)
  then show ?thesis
    unfolding store_ok_def
    by (intro conjI allI impI exI [of _ ask_rec])
      (auto simp: ask_daemon_def log_kv_def ascii_id ascii_byte_def byte_def split: if_splits)
qed

lemma ask_sel:
  "stream log_kv (dm_store ask_daemon) = [ask_rec]" "r_id ask_rec = ''p''" "r_type ask_rec = type_prompt"
  "kv_seq log_kv (st_history (dm_store ask_daemon)) = 1" "sp_jsonl (dm_spool ask_daemon) = []"
  by (simp_all add: ask_daemon_def log_kv_def stream_def log_items_def ask_rec_def idle_daemon_def)

lemma ask_in_step: "in_step log_kv ask_daemon" "snap_ok log_kv ask_daemon" "roomy log_kv (dm_store ask_daemon) 1"
proof -
  have "plain ask_rec" "\<not> is_command ask_rec" "r_seq ask_rec = 1"
    by (simp_all add: plain_def ask_rec_def zero_rec_def is_command_def json_str_ascii ascii_byte_def byte_def)
  moreover have "dm_cmds ask_daemon = []" "dm_corpus ask_daemon = []" "dm_last_seq ask_daemon = 1" "dm_snap ask_daemon = None"
    by (simp_all add: ask_daemon_def)
  ultimately show "in_step log_kv ask_daemon" "snap_ok log_kv ask_daemon" "roomy log_kv (dm_store ask_daemon) 1"
    by (simp_all add: in_step_def steady_def ask_store_ok ask_sel last_seq_def snap_ok_def roomy_def)
qed

lemma restart_restores_prompt_witness:
  "map_of (dm_prompts (fst (delete_record log_kv 9 ''f'' ''p'' ask_daemon))) ''p'' = None \<and>
    map_of (dm_prompts (fst (start_daemon log_kv kelvin_tables [] 9 [] (fst (delete_record log_kv 9 ''f'' ''p'' ask_daemon))))) ''p'' \<noteq> None"
proof -
  have "json_str ''p'' = ''p''" "good_id ''f''"
    by (simp_all add: json_str_ascii ascii_byte_def byte_def good_id_letter)
  with restart_restores_prompt [OF log.bucket_axioms ask_in_step, of ask_rec "''f''" 9 _ kelvin_tables "[]" 9 "[]"]
  show ?thesis by (simp add: ask_sel)
qed

end
