(* ===== verification/Daemon_Remote.thy ===== *)
theory Daemon_Remote
  imports Daemon_Corpus Http_Client RStore Field_Codec
begin

text \<open>
  \<open>daemon/remote.go\<close>: the cache of other machines' history. \<open>node\<close> is the daemon with it: the plain records in
  memory, the ciphertext file on disk, the state shown to the user, and what the server said about this device. A
  cycle is one step, since \<open>syncMu\<close> serialises cycles. The order in which Go visits a map is an argument.
\<close>

section \<open>The state\<close>

datatype remote_error = SyncOff | DeviceRevoked | SyncFailed sync_error | CacheFailed rstore_error | EmptyDevice | EmptyToken

text \<open>What a node is built over: the primitives, the server as seen from here, the database buckets.\<close>

record ('w, 'b, 'p, 'r, 'c) gear =
  ge_box :: cbox
  ge_codec :: codec
  ge_api :: "'w api"
  ge_hist :: "'b hist_kv"
  ge_pulls :: "'p pull_kv"
  ge_streams :: "('r, 'p) kv"
  ge_cursors :: "('c, string) kv"
  ge_tables :: unicode_tables
  ge_fuel :: nat

text \<open>
  \<open>nd_sync\<close> is \<open>sy\<close>, \<open>nd_disk\<close> the file of \<open>rstore\<close> (or none), \<open>nd_open\<close> whether \<open>rs\<close> is not nil; \<open>nd_removable\<close>
  says whether the operating system lets the file be deleted.
\<close>

record ('w, 'b, 'r, 'c) node =
  nd_world :: 'w
  nd_daemon :: "'b daemon"
  nd_sync :: "syncer option"
  nd_disk :: "('r, 'c) rstore option"
  nd_open :: bool
  nd_removable :: bool
  nd_records :: "hrec list"
  nd_rcmds :: "string list"
  nd_cursors :: "string \<Rightarrow> u64"
  nd_state :: string
  nd_last_ms :: int
  nd_keep :: int
  nd_latch :: bool
  nd_hydrated :: bool

definition no_cursors :: "string \<Rightarrow> u64" where "no_cursors = (\<lambda>_. 0)"

text \<open>A run of the sync engine inside the node.\<close>

definition rig_of :: "('w, 'b, 'r, 'c) node \<Rightarrow> syncer \<Rightarrow> ('w, 'b) rig" where
  "rig_of n sy = \<lparr>rg_world = nd_world n, rg_sync = sy, rg_store = dm_store (nd_daemon n)\<rparr>"

definition put_rig :: "('w, 'b) rig \<Rightarrow> ('w, 'b, 'r, 'c) node \<Rightarrow> ('w, 'b, 'r, 'c) node" where
  "put_rig g n = n\<lparr>nd_world := rg_world g, nd_sync := Some (rg_sync g),
     nd_daemon := (nd_daemon n)\<lparr>dm_store := rg_store g\<rparr>\<rparr>"

definition set_state :: "string \<Rightarrow> ('w, 'b, 'r, 'c) node \<Rightarrow> ('w, 'b, 'r, 'c) node" where
  "set_state st n = n\<lparr>nd_state := st\<rparr>"


section \<open>Configuration\<close>

record sync_conf =
  sc_url :: string
  sc_pin :: string
  sc_epoch :: int
  sc_prompts :: bool
  sc_keep :: int

definition configured :: "sync_conf \<Rightarrow> bool" where "configured sc \<longleftrightarrow> sc_url sc \<noteq> []"

definition same_server_as :: "sync_conf \<Rightarrow> sync_conf \<Rightarrow> bool" where
  "same_server_as sc prev \<longleftrightarrow> sc_url sc = sc_url prev"

text \<open>\<open>newSyncer\<close>; \<open>key\<close> is what \<open>secret\<close> gives for the device key.\<close>

definition make_syncer :: "device_key option \<Rightarrow> 'b store \<Rightarrow> sync_conf \<Rightarrow> syncer option" where
  "make_syncer key st sc =
    (if \<not> configured sc then None
     else case key of None \<Rightarrow> None
     | Some k \<Rightarrow> Some (set_sync_prompts (sc_prompts sc) (new_syncer st k (sc_epoch sc))))"


section \<open>Revocation\<close>

definition meta_revoked :: string where "meta_revoked = ''revoked_by_server''"

definition was_revoked :: "'b hist_kv \<Rightarrow> 'b store \<Rightarrow> bool" where
  "was_revoked K st \<longleftrightarrow> store_meta K st meta_revoked \<noteq> []"

definition set_revoked_meta :: "'b hist_kv \<Rightarrow> bool \<Rightarrow> ('w, 'b, 'r, 'c) node \<Rightarrow> ('w, 'b, 'r, 'c) node" where
  "set_revoked_meta K revoked n =
    n\<lparr>nd_daemon := (nd_daemon n)\<lparr>dm_store := set_meta K (dm_store (nd_daemon n)) meta_revoked (if revoked then ''1'' else [])\<rparr>\<rparr>"

text \<open>\<open>rstore.Remove\<close>.\<close>

definition remove_disk :: "('w, 'b, 'r, 'c) node \<Rightarrow> ('w, 'b, 'r, 'c) node" where
  "remove_disk n = (if nd_removable n then n\<lparr>nd_disk := None\<rparr> else n)"

definition on_revoked :: "'b hist_kv \<Rightarrow> ('w, 'b, 'r, 'c) node \<Rightarrow> ('w, 'b, 'r, 'c) node" where
  "on_revoked K n =
    remove_disk ((set_revoked_meta K True n)\<lparr>nd_open := False, nd_cursors := no_cursors, nd_state := remote_revoked,
      nd_latch := True\<rparr>)"

definition on_accepted :: "'b hist_kv \<Rightarrow> ('w, 'b, 'r, 'c) node \<Rightarrow> ('w, 'b, 'r, 'c) node" where
  "on_accepted K n = (if was_revoked K (dm_store (nd_daemon n)) then set_revoked_meta K False n else n)"

definition node_revoked :: "('w, 'b, 'r, 'c) node \<Rightarrow> bool" where
  "node_revoked n \<longleftrightarrow> nd_state n = remote_revoked"

definition node_enabled :: "('w, 'b, 'r, 'c) node \<Rightarrow> bool" where
  "node_enabled n \<longleftrightarrow> nd_sync n \<noteq> None"

definition node_online :: "('w, 'b, 'r, 'c) node \<Rightarrow> bool" where
  "node_online n \<longleftrightarrow> nd_state n = remote_ok \<or> nd_state n = remote_syncing"


section \<open>Attaching\<close>

text \<open>\<open>rstore.Open\<close>: it creates the file if there is none; \<open>opens\<close> says whether it succeeds.\<close>

definition open_disk ::
  "('r, 'p) kv \<Rightarrow> ('c, string) kv \<Rightarrow> bool \<Rightarrow> ('w, 'b, 'r, 'c) node \<Rightarrow> ('w, 'b, 'r, 'c) node" where
  "open_disk R C opens n =
    (if opens then n\<lparr>nd_open := True, nd_disk := Some (case nd_disk n of None \<Rightarrow> rstore_fresh R C | Some s \<Rightarrow> s)\<rparr> else n)"

definition reset_disk :: "('r, 'p) kv \<Rightarrow> ('c, string) kv \<Rightarrow> ('w, 'b, 'r, 'c) node \<Rightarrow> ('w, 'b, 'r, 'c) node" where
  "reset_disk R C n = n\<lparr>nd_disk := map_option (rstore_reset R C) (nd_disk n)\<rparr>"

definition new_remote ::
  "'b hist_kv \<Rightarrow> ('r, 'p) kv \<Rightarrow> ('c, string) kv \<Rightarrow> bool \<Rightarrow> bool \<Rightarrow> device_key option \<Rightarrow> sync_conf \<Rightarrow> 'w \<Rightarrow> 'b daemon
    \<Rightarrow> ('r, 'c) rstore option \<Rightarrow> ('w, 'b, 'r, 'c) node" where
  "new_remote K R C opens removable key sc w d disk =
    (let n = \<lparr>nd_world = w, nd_daemon = d, nd_sync = None, nd_disk = disk, nd_open = False, nd_removable = removable,
              nd_records = [], nd_rcmds = [], nd_cursors = no_cursors, nd_state = remote_off, nd_last_ms = 0,
              nd_keep = sc_keep sc, nd_latch = False, nd_hydrated = False\<rparr>
     in case make_syncer key (dm_store d) sc of
          None \<Rightarrow> n
        | Some sy \<Rightarrow>
            let n1 = n\<lparr>nd_sync := Some sy, nd_state := remote_unavailable\<rparr>;
                n2 = (if was_revoked K (dm_store d) then remove_disk (n1\<lparr>nd_state := remote_revoked\<rparr>) else n1)
            in open_disk R C opens n2)"

definition attach ::
  "'b hist_kv \<Rightarrow> ('r, 'p) kv \<Rightarrow> ('c, string) kv \<Rightarrow> bool \<Rightarrow> syncer option \<Rightarrow> int \<Rightarrow> bool \<Rightarrow> ('w, 'b, 'r, 'c) node
    \<Rightarrow> ('w, 'b, 'r, 'c) node" where
  "attach K R C opens sy keep same n =
    (let n1 = n\<lparr>nd_sync := sy, nd_keep := keep\<rparr>;
         n2 = (if same then n1
               else set_revoked_meta K False
                 ((if nd_open n1 then reset_disk R C n1 else n1)
                   \<lparr>nd_records := [], nd_rcmds := [], nd_cursors := no_cursors, nd_last_ms := 0, nd_hydrated := False,
                    nd_latch := False\<rparr>))
     in if sy = None then n2\<lparr>nd_state := remote_off\<rparr>
        else if nd_latch n2 then n2\<lparr>nd_state := remote_revoked\<rparr>
        else let n3 = n2\<lparr>nd_state := remote_unavailable\<rparr>
             in if nd_open n3 then n3 else open_disk R C opens n3)"

text \<open>\<open>close\<close>.\<close>

definition close_remote :: "('w, 'b, 'r, 'c) node \<Rightarrow> ('w, 'b, 'r, 'c) node" where
  "close_remote n = n\<lparr>nd_open := False\<rparr>"



section \<open>The plain records in memory\<close>

definition keep_records :: "hrec list \<Rightarrow> ('w, 'b, 'r, 'c) node \<Rightarrow> ('w, 'b, 'r, 'c) node" where
  "keep_records recs n = n\<lparr>nd_records := recs, nd_rcmds := map r_cmd recs\<rparr>"

text \<open>The first loop of \<open>foldRemote\<close>, one record.\<close>

definition index_remote :: "unicode_tables \<Rightarrow> 'b daemon \<Rightarrow> hrec \<Rightarrow> 'b daemon" where
  "index_remote U d r =
    d\<lparr>dm_tags := (if r_type r = type_tag then tag_apply U r (dm_tags d) else dm_tags d),
      dm_prompts := (if r_type r = type_prompt then prompt_apply r (dm_prompts d) else dm_prompts d)\<rparr>"

definition fold_remote :: "unicode_tables \<Rightarrow> hrec list \<Rightarrow> ('w, 'b, 'r, 'c) node \<Rightarrow> ('w, 'b, 'r, 'c) node" where
  "fold_remote U recs n =
    (let dels = map r_target_id (filter is_tombstone recs);
         n1 = n\<lparr>nd_daemon := foldl (index_remote U) (nd_daemon n) recs\<rparr>;
         new = filter (\<lambda>r. is_command r \<and> r_id r \<notin> set dels) recs;
         n2 = n1\<lparr>nd_records := nd_records n1 @ new, nd_rcmds := nd_rcmds n1 @ map r_cmd new\<rparr>;
         n3 = keep_records (filter (\<lambda>r. r_id r \<notin> set dels) (nd_records n2)) n2
     in if dels \<noteq> []
        then n3\<lparr>nd_daemon := (nd_daemon n3)\<lparr>dm_prompts := prompt_drop dels (dm_prompts (nd_daemon n3))\<rparr>\<rparr>
        else n2)"

text \<open>The second half of \<open>pruneLocked\<close>: the oldest records of a host go while it has an excess.\<close>

fun evict :: "(string \<Rightarrow> int) \<Rightarrow> hrec list \<Rightarrow> hrec list" where
  "evict ex [] = []"
| "evict ex (r # rs) =
    (if ex (r_host_id r) > 0 then evict (ex(r_host_id r := ex (r_host_id r) - 1)) rs else r # evict ex rs)"

definition excess_of :: "int \<Rightarrow> hrec list \<Rightarrow> string \<Rightarrow> int" where
  "excess_of keep recs h =
    (let k = int (length (filter (\<lambda>r. r_host_id r = h) recs)) in if k > keep then k - keep else 0)"

definition prune_remote :: "('w, 'b, 'r, 'c) node \<Rightarrow> ('w, 'b, 'r, 'c) node" where
  "prune_remote n =
    (if nd_keep n \<le> 0 then n
     else if list_all (\<lambda>r. excess_of (nd_keep n) (nd_records n) (r_host_id r) = 0) (nd_records n) then n
     else keep_records (evict (excess_of (nd_keep n) (nd_records n)) (nd_records n)) n)"

text \<open>\<open>search\<close>, \<open>hostCounts\<close>, \<open>info\<close>.\<close>

definition remote_search :: "unicode_tables \<Rightarrow> string \<Rightarrow> string \<Rightarrow> ('w, 'b, 'r, 'c) node \<Rightarrow> hrec list" where
  "remote_search U q hostname n =
    (if \<not> node_enabled n then []
     else map fst (filter (\<lambda>(r, c). \<not> (hostname \<noteq> [] \<and> r_hostname r \<noteq> hostname) \<and> query_match U (parse_query U q) c)
       (zip (nd_records n) (nd_rcmds n))))"

definition count_hosts :: "hrec list \<Rightarrow> host_count list" where
  "count_hosts recs =
    map (\<lambda>h. \<lparr>hc_hostname = h,
        hc_host_id = (case List.find (\<lambda>r. r_hostname r = h) recs of None \<Rightarrow> [] | Some r \<Rightarrow> r_host_id r),
        hc_count = length (filter (\<lambda>r. r_hostname r = h) recs)\<rparr>)
      (rev (remdups (rev (map r_hostname recs))))"

definition remote_host_counts :: "('w, 'b, 'r, 'c) node \<Rightarrow> host_count list" where
  "remote_host_counts n = count_hosts (nd_records n)"

definition remote_info_of :: "('w, 'b, 'r, 'c) node \<Rightarrow> remote_info" where
  "remote_info_of n = \<lparr>ri_state = nd_state n, ri_last_ms = nd_last_ms n,
     ri_hosts = length (remdups (map r_host_id (nd_records n)))\<rparr>"


section \<open>A cycle\<close>

text \<open>\<open>cacheCiphertext\<close>: a write that fails is ignored.\<close>

definition cache_ciphertext ::
  "('w, 'b, 'p, 'r, 'c) gear \<Rightarrow> string \<Rightarrow> pull_record list \<Rightarrow> u64 \<Rightarrow> ('w, 'b, 'r, 'c) node \<Rightarrow> ('w, 'b, 'r, 'c) node" where
  "cache_ciphertext G h prs cursor n =
    (if \<not> nd_open n then n
     else n\<lparr>nd_disk := map_option (\<lambda>s. fst (rstore_append (ge_pulls G) (ge_streams G) (ge_cursors G) s h prs cursor (nd_keep n)))
       (nd_disk n)\<rparr>)"

text \<open>The loop of \<open>hydrate\<close> over the cached hosts; \<^term>\<open>Inr None\<close> when one of them does not open.\<close>

fun hydrate_hosts ::
  "('w, 'b, 'p, 'r, 'c) gear \<Rightarrow> ('r, 'c) rstore \<Rightarrow> string list \<Rightarrow> hrec list \<Rightarrow> ('w, 'b) rig
    \<Rightarrow> ('w, 'b) rig \<times> (rstore_error + hrec list option) option" where
  "hydrate_hosts G s [] recs g = (g, Some (Inr (Some recs)))"
| "hydrate_hosts G s (h # hs) recs g =
    (case rstore_records (ge_pulls G) (ge_streams G) s h of
       Inl e \<Rightarrow> (g, Some (Inl e))
     | Inr prs \<Rightarrow>
         (case open_records (ge_fuel G) (ge_box G) (ge_codec G) (ge_api G) h prs g of
            (g', None) \<Rightarrow> (g', None)
          | (g', Some (Inl _)) \<Rightarrow> (g', Some (Inr None))
          | (g', Some (Inr opened)) \<Rightarrow> hydrate_hosts G s hs (recs @ opened) g'))"

definition hydrate ::
  "('w, 'b, 'p, 'r, 'c) gear \<Rightarrow> syncer \<Rightarrow> ('w, 'b, 'r, 'c) node
    \<Rightarrow> ('w, 'b, 'r, 'c) node \<times> (remote_error + unit) option" where
  "hydrate G sy n =
    (if nd_hydrated n then (n, Some (Inr ()))
     else case (if nd_open n then nd_disk n else None) of
       None \<Rightarrow> (n\<lparr>nd_hydrated := True\<rparr>, Some (Inr ()))
     | Some s \<Rightarrow>
         (case hydrate_hosts G s (rstore_hosts (ge_streams G) s) [] (rig_of n sy) of
            (g, None) \<Rightarrow> (put_rig g n, None)
          | (g, Some (Inl e)) \<Rightarrow> (put_rig g n, Some (Inl (CacheFailed e)))
          | (g, Some (Inr None)) \<Rightarrow>
              ((reset_disk (ge_streams G) (ge_cursors G) (put_rig g n))\<lparr>nd_hydrated := True, nd_cursors := no_cursors\<rparr>,
               Some (Inr ()))
          | (g, Some (Inr (Some recs))) \<Rightarrow>
              ((fold_remote (ge_tables G) recs (put_rig g n))
                 \<lparr>nd_cursors := (\<lambda>h. case map_of (rstore_cursors (ge_cursors G) s) h of None \<Rightarrow> 0 | Some q \<Rightarrow> q),
                  nd_hydrated := True\<rparr>, Some (Inr ()))))"

text \<open>The loop of \<open>syncOnce\<close> over the hosts something was pulled of.\<close>

fun open_pulled ::
  "('w, 'b, 'p, 'r, 'c) gear \<Rightarrow> (string \<Rightarrow> pull_record list) \<Rightarrow> (string \<Rightarrow> u64) \<Rightarrow> string list \<Rightarrow> hrec list
    \<Rightarrow> ('w, 'b) rig \<Rightarrow> ('w, 'b, 'r, 'c) node \<Rightarrow> ('w, 'b, 'r, 'c) node \<times> (sync_error + hrec list) option" where
  "open_pulled G by next [] fresh g n = (put_rig g n, Some (Inr fresh))"
| "open_pulled G by next (h # hs) fresh g n =
    (let n1 = cache_ciphertext G h (by h) (next h) n
     in case open_records (ge_fuel G) (ge_box G) (ge_codec G) (ge_api G) h (by h) g of
          (g', None) \<Rightarrow> (put_rig g' n1, None)
        | (g', Some (Inl e)) \<Rightarrow> (put_rig g' n1, Some (Inl e))
        | (g', Some (Inr opened)) \<Rightarrow> open_pulled G by next hs (fresh @ opened) g' n1)"

definition revoked_error :: "remote_error \<Rightarrow> bool" where
  "revoked_error e \<longleftrightarrow> (case e of SyncFailed (Net x) \<Rightarrow> err_revoked x | _ \<Rightarrow> False)"

definition fail_cycle ::
  "'b hist_kv \<Rightarrow> remote_error \<Rightarrow> ('w, 'b, 'r, 'c) node \<Rightarrow> ('w, 'b, 'r, 'c) node \<times> (remote_error + unit) option" where
  "fail_cycle K e n =
    (if revoked_error e then (on_revoked K n, Some (Inl DeviceRevoked))
     else (set_state remote_unavailable n, Some (Inl e)))"

text \<open>\<open>order\<close> is the order in which the hosts of a pull are visited.\<close>

definition sync_once ::
  "('w, 'b, 'p, 'r, 'c) gear \<Rightarrow> string list \<Rightarrow> int \<Rightarrow> ('w, 'b, 'r, 'c) node
    \<Rightarrow> ('w, 'b, 'r, 'c) node \<times> (remote_error + unit) option" where
  "sync_once G order now n =
    (case nd_sync n of
       None \<Rightarrow> (n, Some (Inl SyncOff))
     | Some sy \<Rightarrow>
         if nd_latch n then (n, Some (Inl DeviceRevoked))
         else
           let K = ge_hist G; n0 = set_state remote_syncing n
           in case push (ge_fuel G) (ge_box G) (ge_codec G) K (ge_api G) (rig_of n0 sy) of
                (g, None) \<Rightarrow> (put_rig g n0, None)
              | (g, Some (_, Some e)) \<Rightarrow> fail_cycle K (SyncFailed e) (put_rig g n0)
              | (g, Some (_, None)) \<Rightarrow>
                  (case hydrate G (rg_sync g) (put_rig g n0) of
                     (n1, None) \<Rightarrow> (n1, None)
                   | (n1, Some (Inl e)) \<Rightarrow> fail_cycle K e n1
                   | (n1, Some (Inr _)) \<Rightarrow>
                       (case pull_ciphertext (ge_fuel G) (ge_api G) (nd_cursors n1) (rig_of n1 (the (nd_sync n1))) of
                          (g2, None) \<Rightarrow> (put_rig g2 n1, None)
                        | (g2, Some (Inl e)) \<Rightarrow> fail_cycle K (SyncFailed e) (put_rig g2 n1)
                        | (g2, Some (Inr (by, next))) \<Rightarrow>
                            (case open_pulled G by next (filter (\<lambda>h. by h \<noteq> []) order) [] g2 (put_rig g2 n1) of
                               (n2, None) \<Rightarrow> (n2, None)
                             | (n2, Some (Inl e)) \<Rightarrow> fail_cycle K (SyncFailed e) n2
                             | (n2, Some (Inr fresh)) \<Rightarrow>
                                 (on_accepted K ((prune_remote (fold_remote (ge_tables G) fresh n2))
                                    \<lparr>nd_cursors := next, nd_state := remote_ok, nd_last_ms := now\<rparr>),
                                  Some (Inr ()))))))"

text \<open>\<open>doSync\<close>, \<open>pushArm\<close>, \<open>syncTick\<close>, and the reload of the loop; durations in nanoseconds.\<close>

definition do_sync ::
  "('w, 'b, 'p, 'r, 'c) gear \<Rightarrow> string list \<Rightarrow> int \<Rightarrow> ('w, 'b, 'r, 'c) node
    \<Rightarrow> ('w, 'b, 'r, 'c) node \<times> (remote_error + unit) option" where
  "do_sync G order now n =
    (if \<not> node_enabled n then (n, Some (Inr ()))
     else if nd_latch n then (n, Some (Inl DeviceRevoked))
     else sync_once G order now n)"

definition push_arm :: "int \<Rightarrow> bool \<Rightarrow> bool \<times> bool" where
  "push_arm debounce pending = (if debounce \<le> 0 \<or> pending then (False, pending) else (True, True))"

definition sync_tick :: "bool \<Rightarrow> int \<Rightarrow> int" where
  "sync_tick enabled interval = (if enabled then interval else 15 * 1000000000)"

definition reload ::
  "'b hist_kv \<Rightarrow> ('r, 'p) kv \<Rightarrow> ('c, string) kv \<Rightarrow> bool \<Rightarrow> device_key option \<Rightarrow> sync_conf \<Rightarrow> sync_conf
    \<Rightarrow> ('w, 'b, 'r, 'c) node \<Rightarrow> sync_conf \<times> ('w, 'b, 'r, 'c) node" where
  "reload K R C opens key prev sc n =
    (if sc = prev then (prev, n)
     else (sc, attach K R C opens (make_syncer key (dm_store (nd_daemon n)) sc) (sc_keep sc) (same_server_as sc prev) n))"



section \<open>The cache is bounded\<close>

lemma evict_host:
  "(\<And>h. 0 \<le> ex h) \<Longrightarrow>
    filter (\<lambda>r. r_host_id r = h) (evict ex recs) = drop (nat (ex h)) (filter (\<lambda>r. r_host_id r = h) recs)"
proof (induction ex recs rule: evict.induct)
  case (2 ex r rs)
  show ?case
  proof (cases "ex (r_host_id r) > 0")
    case True
    define e where "e = ex(r_host_id r := ex (r_host_id r) - 1)"
    have e: "e (r_host_id r) = ex (r_host_id r) - 1" "x \<noteq> r_host_id r \<Longrightarrow> e x = ex x" for x by (simp_all add: e_def)
    have "0 \<le> e x" for x using 2(3) [of x] True by (simp add: e_def)
    from 2(1) [OF True, folded e_def, OF this] True e show ?thesis
      by (cases "r_host_id r = h") (auto simp: nat_diff_distrib drop_Cons' nat_eq_iff simp flip: e_def)
  next
    case False
    with 2(3) [of "r_host_id r"] have "ex (r_host_id r) = 0" by simp
    with 2(2) [OF False 2(3)] False show ?thesis by auto
  qed
qed simp

text \<open>C18 The decrypted cache is bounded: pruning leaves of every host the newest \<open>keep\<close> records and no others, in
  order, and the commands stay parallel to the records; without a bound nothing is dropped.\<close>

theorem prune_keeps_newest:
  "filter (\<lambda>r. r_host_id r = h) (nd_records (prune_remote n)) =
     newest (nd_keep n) (filter (\<lambda>r. r_host_id r = h) (nd_records n)) \<and>
   (nd_keep n \<le> 0 \<or> length (filter (\<lambda>r. r_host_id r = h) (nd_records (prune_remote n))) \<le> nat (nd_keep n)) \<and>
   (nd_records (prune_remote n) = nd_records n \<or> nd_rcmds (prune_remote n) = map r_cmd (nd_records (prune_remote n)))"
proof -
  let ?ex = "excess_of (nd_keep n) (nd_records n)" and ?rows = "filter (\<lambda>r. r_host_id r = h) (nd_records n)"
  have pos: "0 \<le> ?ex h" for h by (simp add: excess_of_def Let_def)
  have new: "newest (nd_keep n) ?rows = (if nd_keep n \<le> 0 then ?rows else drop (nat (?ex h)) ?rows)"
    by (auto simp: newest_def excess_of_def Let_def nat_diff_distrib)
  have none: "drop (nat (?ex h)) ?rows = ?rows"
    if "list_all (\<lambda>r. ?ex (r_host_id r) = 0) (nd_records n)"
  proof (cases ?rows)
    case (Cons x xs)
    then have "x \<in> set (nd_records n)" "r_host_id x = h" using filter_eq_ConsD [OF Cons] by auto
    with that show ?thesis by (auto simp: list_all_iff)
  qed simp
  have eq: "filter (\<lambda>r. r_host_id r = h) (nd_records (prune_remote n)) = newest (nd_keep n) ?rows"
    unfolding new using none evict_host [where ex = ?ex and h = h and recs = "nd_records n", OF pos] by (simp add: prune_remote_def keep_records_def)
  have "length (drop (nat (?ex h)) ?rows) \<le> nat (nd_keep n)" if "0 < nd_keep n"
    using that by (simp add: excess_of_def Let_def) arith
  with eq new show ?thesis by (auto simp: prune_remote_def keep_records_def not_le)
qed


section \<open>A refusal sticks\<close>

lemma removable_keeps [simp]:
  "nd_removable (put_rig g n) = nd_removable n" "nd_removable (set_state st n) = nd_removable n"
  "nd_removable (keep_records rs n) = nd_removable n" "nd_removable (fold_remote U rs n) = nd_removable n"
  "nd_removable (prune_remote n) = nd_removable n" "nd_removable (cache_ciphertext G h prs c n) = nd_removable n"
  "nd_removable (reset_disk R C n) = nd_removable n" "nd_removable (set_revoked_meta K b n) = nd_removable n"
  "nd_removable (remove_disk n) = nd_removable n"
  by (simp_all add: put_rig_def set_state_def keep_records_def fold_remote_def prune_remote_def cache_ciphertext_def
      reset_disk_def set_revoked_meta_def remove_disk_def Let_def)

lemma on_revoked_removable [simp]: "nd_removable (on_revoked K n) = nd_removable n"
  by (simp add: on_revoked_def set_revoked_meta_def)

lemma hydrate_removable: "nd_removable (fst (hydrate G sy n)) = nd_removable n"
  by (simp add: hydrate_def split: option.splits sum.splits prod.splits)

lemma open_pulled_removable: "nd_removable (fst (open_pulled G by next hs fresh g n)) = nd_removable n"
  by (induction hs arbitrary: fresh g n) (simp_all add: Let_def split: option.splits sum.splits prod.splits)

text \<open>A node the server has refused.\<close>

definition refused :: "'b hist_kv \<Rightarrow> ('w, 'b, 'r, 'c) node \<Rightarrow> bool" where
  "refused K n \<longleftrightarrow> nd_latch n \<and> \<not> nd_open n \<and> nd_state n = remote_revoked \<and> was_revoked K (dm_store (nd_daemon n)) \<and>
     (nd_removable n \<longrightarrow> nd_disk n = None) \<and> nd_sync n \<noteq> None"

lemma revoked_meta_set: "bucket K \<Longrightarrow> was_revoked K (dm_store (nd_daemon (set_revoked_meta K b n))) = b"
  by (simp add: was_revoked_def set_revoked_meta_def store_meta_def set_meta_def bucket.get_put split: if_splits)

lemma on_revoked_refused: "bucket K \<Longrightarrow> nd_sync n \<noteq> None \<Longrightarrow> refused K (on_revoked K n)"
  using revoked_meta_set [of K True n]
  by (simp add: refused_def on_revoked_def remove_disk_def set_revoked_meta_def)


lemma put_rig_sync [simp]: "nd_sync (put_rig g n) = Some (rg_sync g)" "nd_latch (put_rig g n) = nd_latch n"
  by (simp_all add: put_rig_def)

lemma keeps_sync [simp]:
  "nd_sync (fold_remote U rs n) = nd_sync n" "nd_sync (cache_ciphertext G h prs c n) = nd_sync n"
  "nd_sync (reset_disk R C n) = nd_sync n" "nd_latch (fold_remote U rs n) = nd_latch n"
  "nd_latch (cache_ciphertext G h prs c n) = nd_latch n" "nd_latch (reset_disk R C n) = nd_latch n"
  "nd_latch (set_state st n) = nd_latch n" "nd_latch (prune_remote n) = nd_latch n" "nd_latch (set_revoked_meta K b n) = nd_latch n"
  by (simp_all add: fold_remote_def cache_ciphertext_def reset_disk_def set_state_def prune_remote_def keep_records_def
      set_revoked_meta_def Let_def)

lemma hydrate_sync: "nd_sync n \<noteq> None \<Longrightarrow> nd_sync (fst (hydrate G sy n)) \<noteq> None"
  by (simp add: hydrate_def split: option.splits sum.splits prod.splits)

lemma open_pulled_sync: "nd_sync (fst (open_pulled G by next hs fresh g n)) \<noteq> None"
  by (induction hs arbitrary: fresh g n) (simp_all add: Let_def split: option.splits sum.splits prod.splits)

lemma fail_refused:
  "bucket K \<Longrightarrow> nd_sync n \<noteq> None \<Longrightarrow> fail_cycle K e n = (n', Some (Inl DeviceRevoked)) \<Longrightarrow> e \<noteq> DeviceRevoked \<Longrightarrow> refused K n'"
  using on_revoked_refused [of K n] by (auto simp: fail_cycle_def split: if_splits)

lemma hydrate_error: "snd (hydrate G sy n) \<noteq> Some (Inl DeviceRevoked)"
  by (simp add: hydrate_def split: option.splits sum.splits prod.splits)

lemma sync_refused:
  assumes K: "bucket (ge_hist G)" and latch: "\<not> nd_latch n" and run: "sync_once G order now n = (n', Some (Inl DeviceRevoked))"
  shows "refused (ge_hist G) n'"
proof -
  obtain sy where sy: "nd_sync n = Some sy" using run by (cases "nd_sync n") (simp_all add: sync_once_def)
  define n0 where "n0 = set_state remote_syncing n"
  define x where "x = push (ge_fuel G) (ge_box G) (ge_codec G) (ge_hist G) (ge_api G) (rig_of n0 sy)"
  note run = run [unfolded sync_once_def sy option.case if_not_P [OF latch] Let_def n0_def [symmetric], folded x_def]
  consider (no) g where "x = (g, None)" | (err) g k e where "x = (g, Some (k, Some e))" | (ok) g k where "x = (g, Some (k, None))"
    by (metis option.exhaust surj_pair)
  then show ?thesis
  proof cases
    case no
    with run show ?thesis by simp
  next
    case err
    with run fail_refused [OF K, of "put_rig g n0" "SyncFailed e" n'] show ?thesis by simp
  next
    case ok
    define y where "y = hydrate G (rg_sync g) (put_rig g n0)"
    have ys: "nd_sync (fst y) \<noteq> None" unfolding y_def by (rule hydrate_sync) simp
    have ye: "snd y \<noteq> Some (Inl DeviceRevoked)" unfolding y_def by (rule hydrate_error)
    note run = run [unfolded ok prod.case option.case, folded y_def]
    consider (no) n1 where "y = (n1, None)" | (err) n1 e where "y = (n1, Some (Inl e))" | (ok) n1 u where "y = (n1, Some (Inr u))"
      by (metis option.exhaust surj_pair sum.exhaust)
    then show ?thesis
    proof cases
      case no
      with run show ?thesis by simp
    next
      case err
      with run ys ye fail_refused [OF K, of n1 e n'] show ?thesis by auto
    next
      case (ok n1)
      define z where "z = pull_ciphertext (ge_fuel G) (ge_api G) (nd_cursors n1) (rig_of n1 (the (nd_sync n1)))"
      note run = run [unfolded ok prod.case option.case sum.case, folded z_def]
      consider (no) g2 where "z = (g2, None)" | (err) g2 e where "z = (g2, Some (Inl e))"
        | (ok) g2 bh nx where "z = (g2, Some (Inr (bh, nx)))"
        by (metis option.exhaust surj_pair sum.exhaust)
      then show ?thesis
      proof cases
        case no
        with run show ?thesis by simp
      next
        case err
        with run fail_refused [OF K, of "put_rig g2 n1" "SyncFailed e" n'] show ?thesis by simp
      next
        case ok
        define w where "w = open_pulled G bh nx (filter (\<lambda>h. bh h \<noteq> []) order) [] g2 (put_rig g2 n1)"
        have ws: "nd_sync (fst w) \<noteq> None" unfolding w_def by (rule open_pulled_sync)
        note run = run [unfolded ok prod.case option.case sum.case, folded w_def]
        consider (no) n2 where "w = (n2, None)" | (err) n2 e where "w = (n2, Some (Inl e))" | (ok) n2 u where "w = (n2, Some (Inr u))"
          by (metis option.exhaust surj_pair sum.exhaust)
        then show ?thesis
          by cases (use run ws fail_refused [OF K, of _ "SyncFailed _" n'] in auto)
      qed
    qed
  qed
qed


text \<open>What can happen to a node while the daemon lives and stays with its server: further cycles, and edits of the
  configuration that keep the server.\<close>

inductive node_life ::
  "('w, 'b, 'p, 'r, 'c) gear \<Rightarrow> ('w, 'b, 'r, 'c) node \<Rightarrow> ('w, 'b, 'r, 'c) node \<Rightarrow> bool" for G where
  Born: "node_life G n n"
| Cycle: "node_life G n m \<Longrightarrow> node_life G n (fst (do_sync G order now m))"
| Edit: "node_life G n m \<Longrightarrow> node_life G n (attach (ge_hist G) (ge_streams G) (ge_cursors G) opens (Some sy) keep True m)"

lemma refused_sync: "refused K n \<Longrightarrow> do_sync G order now n = (n, Some (Inl DeviceRevoked))"
  by (simp add: refused_def do_sync_def node_enabled_def)

lemma refused_attach: "refused K n \<Longrightarrow> attach K R C opens (Some sy) keep True n = n\<lparr>nd_sync := Some sy, nd_keep := keep\<rparr>"
  by (cases n) (simp add: refused_def attach_def Let_def)

lemma refused_life:
  "node_life G n m \<Longrightarrow> refused (ge_hist G) n \<Longrightarrow>
    refused (ge_hist G) m \<and> nd_world m = nd_world n \<and> nd_daemon m = nd_daemon n \<and> nd_disk m = nd_disk n \<and>
      nd_removable m = nd_removable n"
proof (induction rule: node_life.induct)
  case (Cycle n m)
  then show ?case using refused_sync [of "ge_hist G" m G] by auto
next
  case (Edit n m opens sy keep)
  then have "refused (ge_hist G) m" by simp
  from refused_attach [OF this, of "ge_streams G" "ge_cursors G" opens sy keep] Edit show ?case by (simp add: refused_def)
qed simp

lemma do_sync_refused:
  "bucket (ge_hist G) \<Longrightarrow> \<not> nd_latch n \<Longrightarrow> do_sync G order now n = (n', Some (Inl DeviceRevoked)) \<Longrightarrow> refused (ge_hist G) n'"
  by (auto simp: do_sync_def split: if_splits intro: sync_refused)

text \<open>C14 A refusal sticks. After the server has answered that this device is revoked, no cycle of this daemon
  reaches the network again, whatever is edited in the configuration short of the server itself; the cached
  ciphertext is off the disk; and the marker is on disk, so that a restart drops what ciphertext it finds.\<close>

theorem refusal_sticks:
  assumes "bucket (ge_hist G)" and "\<not> nd_latch n" and "do_sync G order now n = (n0, Some (Inl DeviceRevoked))"
    and "node_life G n0 m"
  shows "do_sync G order' now' m = (m, Some (Inl DeviceRevoked)) \<and> nd_world m = nd_world n0 \<and> node_revoked m \<and>
    \<not> node_online m \<and> \<not> nd_open m \<and> (nd_removable n0 \<longrightarrow> nd_disk m = None) \<and>
    nd_disk (new_remote (ge_hist G) (ge_streams G) (ge_cursors G) opens True (Some key) (sc\<lparr>sc_url := CHR ''h'' # url\<rparr>)
       w (nd_daemon m) disk) = (if opens then Some (rstore_fresh (ge_streams G) (ge_cursors G)) else None)"
proof -
  have n0: "refused (ge_hist G) n0" by (rule do_sync_refused [OF assms(1-3)])
  note m = refused_life [OF assms(4) n0]
  from m have "was_revoked (ge_hist G) (dm_store (nd_daemon m))" unfolding refused_def by blast
  then have "nd_disk (new_remote (ge_hist G) (ge_streams G) (ge_cursors G) opens True (Some key)
      (sc\<lparr>sc_url := CHR ''h'' # url\<rparr>) w (nd_daemon m) disk) =
      (if opens then Some (rstore_fresh (ge_streams G) (ge_cursors G)) else None)"
    by (simp add: new_remote_def make_syncer_def configured_def Let_def remove_disk_def open_disk_def)
  with m n0 refused_sync [of "ge_hist G" m G order' now'] show ?thesis
    by (simp add: refused_def node_revoked_def node_online_def remote_revoked_def remote_ok_def remote_syncing_def)
qed

text \<open>A node over a server that answers one thing to every question.\<close>

definition no_api :: "net_error \<Rightarrow> nat api" where
  "no_api e = \<lparr>ap_hosts = (\<lambda>w. (w + 1, Inl e)), ap_push = (\<lambda>_ w. (w + 1, Inl e)), ap_pull = (\<lambda>_ _ _ w. (w + 1, Inl e)),
     ap_hk_wrap = (\<lambda>_ w. (w + 1, Inl e)), ap_list_dek = (\<lambda>_ _ w. (w + 1, Inl e)), ap_upload_dek = (\<lambda>_ w. (w + 1, Inl e)),
     ap_register = (\<lambda>_ _ w. (w + 1, Inl e)), ap_activate = (\<lambda>_ _ w. (w + 1, Inl e)), ap_revoke = (\<lambda>_ w. (w + 1, Inl e)),
     ap_devices = (\<lambda>w. (w + 1, Inl e)), ap_rotate = (\<lambda>_ w. (w + 1, Inl e)), ap_init_recovery = (\<lambda>_ w. (w + 1, Inl e)),
     ap_recovery_pub = (\<lambda>w. (w + 1, Inl e)), ap_random = (\<lambda>_ w. (w, [])), ap_new_id = (\<lambda>w. (w, []))\<rparr>"

type_synonym demo_gear = "(nat, hrec blob log_bucket, pull_record blob log_bucket, pull_record blob log_bucket log_bucket, string log_bucket) gear"
type_synonym demo_node = "(nat, hrec blob log_bucket, pull_record blob log_bucket log_bucket, string log_bucket) node"

definition no_gear :: "net_error \<Rightarrow> demo_gear" where
  "no_gear e = \<lparr>ge_box = demo_box, ge_codec = field_codec, ge_api = no_api e, ge_hist = log_kv, ge_pulls = log_kv,
     ge_streams = log_kv, ge_cursors = log_kv, ge_tables = kelvin_tables, ge_fuel = 1\<rparr>"

definition held_key :: device_key where
  "held_key = \<lparr>kx_priv = [], kx_pub = [], kx_seed = [], kx_sign_priv = [], kx_sign_pub = []\<rparr>"

definition warm_disk :: "(pull_record blob log_bucket log_bucket, string log_bucket) rstore" where
  "warm_disk = \<lparr>rs_streams = ([(''stream:h'', ([(seq_key 1, Doc \<lparr>pl_seq = 1, pl_id = ''a'', pl_key_id = ''k'', pl_blob = [],
       pl_created_ms = 0\<rparr>)], 0))], 0), rs_cursors = ([(''h'', seq_key 1)], 0), rs_counts = ([(''h'', seq_key 1)], 0)\<rparr>"

definition demo_conf :: sync_conf where
  "demo_conf = \<lparr>sc_url = ''h'', sc_pin = [], sc_epoch = 0, sc_prompts = True, sc_keep = 0\<rparr>"

definition warm_node :: demo_node where
  "warm_node = new_remote log_kv log_kv log_kv True True (Some held_key) demo_conf 0 idle_daemon (Some warm_disk)"

lemma refusal_sticks_witness:
  "nd_disk warm_node \<noteq> None \<and>
   nd_disk (fst (do_sync (no_gear (ApiError 403 [] ''device_revoked'')) [] 0 warm_node)) = None"
proof -
  let ?G = "no_gear (ApiError 403 [] ''device_revoked'')"
  have fresh: "\<not> was_revoked log_kv ls_store" by (simp add: was_revoked_def store_meta_def ls_store_def log_kv_def meta_revoked_def)
  have n: "\<not> nd_latch warm_node" "nd_disk warm_node = Some warm_disk" "nd_removable warm_node"
      "nd_sync warm_node = Some (set_sync_prompts True (new_syncer ls_store held_key 0))"
    by (simp_all add: warm_node_def new_remote_def make_syncer_def configured_def demo_conf_def open_disk_def fresh Let_def)
  obtain n0 where n0: "do_sync ?G [] 0 warm_node = (n0, Some (Inl DeviceRevoked))" "nd_removable n0"
    using n by (simp add: do_sync_def node_enabled_def sync_once_def push_def resolve_hk_def with_sync_def rig_of_def
        set_sync_prompts_def new_syncer_def no_gear_def andthen_def net_def get_hk_wrap_def no_api_def fail_cycle_def
        revoked_error_def err_revoked_def Let_def)
  have "bucket (ge_hist ?G)" by (simp add: no_gear_def log.bucket_axioms)
  note refusal_sticks [OF this n(1) n0(1) node_life.Born, THEN conjunct2, THEN conjunct2, THEN conjunct2, THEN conjunct2,
      THEN conjunct2, THEN conjunct1]
  with n0 n show ?thesis by simp
qed


section \<open>The warm start\<close>

lemma open_without_wraps:
  assumes hk: "sy_hk (rg_sync g) = Some hv" and key: "sy_by_key (rg_sync g) (pl_key_id pr) = None"
    and wrap: "sy_wraps (rg_sync g) (pl_key_id pr) = None" and down: "ap_list_dek A [] dek_page_limit (rg_world g) = (w, Inl Transport)"
  shows "open_records (Suc fuel) X C A h (pr # prs) g = (g\<lparr>rg_world := w\<rparr>, Some (Inl (Net Transport)))"
  using assms by (cases hv) (simp add: open_records_def resolve_hk_def with_sync_def give_def open_one_def dek_for_key_def net_def)

text \<open>A network error while the cache warms up costs the whole cache. When the History Key is held but the data
  key wraps cannot be listed because the server is out of reach, the warm start reports success, the ciphertext of
  every machine is wiped from the disk and all cursors go back to zero.\<close>

theorem hydrate_drops_on_error:
  assumes "\<not> nd_hydrated n" and "nd_open n" and "nd_disk n = Some s" and "ge_fuel G = Suc fuel"
    and "rstore_hosts (ge_streams G) s = h # hs" and "rstore_records (ge_pulls G) (ge_streams G) s h = Inr (pr # prs)"
    and "sy_hk sy = Some hv" and "sy_by_key sy (pl_key_id pr) = None" and "sy_wraps sy (pl_key_id pr) = None"
    and "ap_list_dek (ge_api G) [] dek_page_limit (nd_world n) = (w, Inl Transport)"
  shows "hydrate G sy n =
    (n\<lparr>nd_world := w, nd_sync := Some sy, nd_hydrated := True, nd_cursors := no_cursors,
       nd_disk := Some (rstore_reset (ge_streams G) (ge_cursors G) s)\<rparr>, Some (Inr ()))"
proof -
  have "rg_sync (rig_of n sy) = sy" "rg_world (rig_of n sy) = nd_world n" by (simp_all add: rig_of_def)
  with open_without_wraps [of "rig_of n sy" hv pr "ge_api G" w fuel] assms(7-10)
  have "open_records (Suc fuel) (ge_box G) (ge_codec G) (ge_api G) h (pr # prs) (rig_of n sy) =
      ((rig_of n sy)\<lparr>rg_world := w\<rparr>, Some (Inl (Net Transport)))" by simp
  then show ?thesis
    by (simp add: hydrate_def assms(1-6) put_rig_def reset_disk_def rig_of_def)
qed

lemma hydrate_drops_on_error_witness:
  "rstore_hosts log_kv (the (nd_disk warm_node)) = [''h''] \<and>
   (case hydrate (no_gear Transport) ((new_syncer ls_store held_key 0)\<lparr>sy_hk := Some ([], 1)\<rparr>) warm_node of
      (n, r) \<Rightarrow> r = Some (Inr ()) \<and> rstore_hosts log_kv (the (nd_disk n)) = [])"
proof -
  have fresh: "\<not> was_revoked log_kv ls_store" by (simp add: was_revoked_def store_meta_def ls_store_def log_kv_def meta_revoked_def)
  have n: "\<not> nd_hydrated warm_node" "nd_open warm_node" "nd_disk warm_node = Some warm_disk"
    by (simp_all add: warm_node_def new_remote_def make_syncer_def configured_def demo_conf_def open_disk_def fresh Let_def)
  have hosts: "rstore_hosts log_kv warm_disk = [''h'']"
    by (simp add: rstore_hosts_def warm_disk_def log_kv_def log_items_def has_prefix_def stream_prefix_def)
  have recs: "rstore_records log_kv log_kv warm_disk ''h'' =
      Inr [\<lparr>pl_seq = 1, pl_id = ''a'', pl_key_id = ''k'', pl_blob = [], pl_created_ms = 0\<rparr>]"
    by (simp add: rstore_records_def warm_disk_def log_kv_def log_items_def stream_prefix_def)
  have gone: "rstore_hosts log_kv (rstore_reset log_kv log_kv warm_disk) = []"
    by (simp add: rstore_hosts_def rstore_reset_def warm_disk_def log_kv_def log_items_def)
  show ?thesis
    using hydrate_drops_on_error [OF n, of "no_gear Transport" 0 "''h''" "[]" _ "[]"
        "(new_syncer ls_store held_key 0)\<lparr>sy_hk := Some ([], 1)\<rparr>"] hosts recs gone n(3)
    by (simp add: no_gear_def no_api_def new_syncer_def)
qed

end
