(* ===== verification/Daemon_Query.thy ===== *)
theory Daemon_Query
  imports Daemon_Remote
begin

text \<open>
  \<open>daemon/query.go\<close>: the answer to one search. A query reads the daemon and the remote cache of a \<open>node\<close> as they
  stand; the incremental filter of the connection is its only state. \<open>srt\<close> is \<open>sort.Slice\<close>; \<open>has\<close> says for which
  paths \<open>os.Stat\<close> succeeds; \<open>now\<close> is the clock in milliseconds.
\<close>

section \<open>Scopes\<close>

definition under_dir :: "string \<Rightarrow> string \<Rightarrow> bool" where
  "under_dir path root =
    (if root = [] \<or> path = [] then False else path = root \<or> has_prefix path (root @ ''/''))"

text \<open>\<open>gitRoot\<close>: the loop may not end, so its value is an option; \<^term>\<open>Some []\<close> is the answer that there is none.\<close>

partial_function (option) git_walk :: "(string \<Rightarrow> bool) \<Rightarrow> string \<Rightarrow> string option" where
  "git_walk has dir =
    (if has (path_join [dir, ''.git'']) then Some dir
     else let parent = path_dir dir in if parent = dir then Some [] else git_walk has parent)"

definition git_root :: "(string \<Rightarrow> bool) \<Rightarrow> string \<Rightarrow> string option" where
  "git_root has dir = (if dir = [] then Some [] else git_walk has dir)"

definition scope_match :: "string \<Rightarrow> hrec \<Rightarrow> query_req \<Rightarrow> string \<Rightarrow> bool" where
  "scope_match scope r q ws =
    (if scope = scope_session then r_session r = qr_session q
     else if scope = scope_cwd then r_cwd r = qr_cwd q
     else if scope = scope_workspace then under_dir (r_cwd r) ws
     else if scope = scope_host then qr_host q = [] \<or> qr_host q = r_hostname r
     else True)"

definition query_scope :: "query_req \<Rightarrow> string" where
  "query_scope q = (if qr_scope q = [] then scope_local else qr_scope q)"

definition query_deep :: "query_req \<Rightarrow> bool" where
  "query_deep q \<longleftrightarrow> query_scope q = scope_all \<or> query_scope q = scope_host"

text \<open>Whether the query wakes the sync loop.\<close>

definition query_nudges :: "query_req \<Rightarrow> ('w, 'b, 'r, 'c) node \<Rightarrow> bool" where
  "query_nudges q n \<longleftrightarrow> query_deep q \<and> node_enabled n"

definition want_local :: "query_req \<Rightarrow> ('w, 'b, 'r, 'c) node \<Rightarrow> bool" where
  "want_local q n \<longleftrightarrow>
    query_scope q \<noteq> scope_host \<or> qr_host q = [] \<or> qr_host q = st_hostname (dm_store (nd_daemon n))"

definition workspace_root :: "(string \<Rightarrow> bool) \<Rightarrow> query_req \<Rightarrow> string option" where
  "workspace_root has q = (if query_scope q = scope_workspace then git_root has (qr_cwd q) else Some [])"


section \<open>The rows\<close>

definition fuzzy_match :: "unicode_tables \<Rightarrow> string \<Rightarrow> string list \<Rightarrow> nat list" where
  "fuzzy_match U q cmds = filter (\<lambda>i. fst (fuzzy U q (cmds ! i))) [0 ..< length cmds]"

definition local_rows ::
  "unicode_tables \<Rightarrow> query_req \<Rightarrow> string \<Rightarrow> mfilter \<Rightarrow> 'b daemon \<Rightarrow> mfilter \<times> hrec list" where
  "local_rows U q ws f d =
    (let (f', matched) = (if qr_fuzzy q then (f, fuzzy_match U (qr_q q) (dm_cmds d)) else filter_apply U f (qr_q q) (dm_cmds d))
     in (f', map (\<lambda>i. dm_corpus d ! i) (filter (\<lambda>i. scope_match (query_scope q) (dm_corpus d ! i) q ws) matched)))"

definition remote_rows :: "unicode_tables \<Rightarrow> query_req \<Rightarrow> ('w, 'b, 'r, 'c) node \<Rightarrow> hrec list" where
  "remote_rows U q n =
    (if query_deep q \<and> node_enabled n
     then remote_search U (qr_q q) (if query_scope q = scope_host then qr_host q else []) n else [])"

definition by_executor :: "query_req \<Rightarrow> hrec list \<Rightarrow> hrec list" where
  "by_executor q rows = (if qr_executor q \<noteq> [] then filter (\<lambda>r. r_executor r = qr_executor q) rows else rows)"

definition by_human :: "query_req \<Rightarrow> hrec list \<Rightarrow> hrec list \<times> nat" where
  "by_human q rows =
    (if qr_human_only q
     then (filter (\<lambda>r. r_executor r = []) rows, length (filter (\<lambda>r. r_executor r \<noteq> []) rows)) else (rows, 0))"

definition by_tag :: "unicode_tables \<Rightarrow> tag_index \<Rightarrow> query_req \<Rightarrow> hrec list \<Rightarrow> hrec list" where
  "by_tag U t q rows = (if qr_tag q \<noteq> [] then filter (\<lambda>r. tag_has U t r (qr_tag q)) rows else rows)"


section \<open>The order\<close>

definition newer_row :: "hrec \<Rightarrow> hrec \<Rightarrow> bool" where
  "newer_row a b = (if r_start_ms a \<noteq> r_start_ms b then r_start_ms a > r_start_ms b else r_seq a > r_seq b)"

fun dedupe_rows :: "string list \<Rightarrow> hrec list \<Rightarrow> hrec list" where
  "dedupe_rows seen [] = []"
| "dedupe_rows seen (r # rs) =
    (if r_cmd r \<in> set seen then dedupe_rows seen rs else r # dedupe_rows (r_cmd r # seen) rs)"

text \<open>\<open>recencyWeight\<close> in quarters: the weights 4, 2, 1, 1/2, 1/4 are exact in a \<open>float64\<close>, and so is their product
  with a count below \<open>2 ^ 52\<close>.\<close>

definition recency_weight :: "int \<Rightarrow> int" where
  "recency_weight age =
    (if age < 3600000 then 16 else if age < 24 * 3600000 then 8 else if age < 7 * 24 * 3600000 then 4
     else if age < 30 * 24 * 3600000 then 2 else 1)"

record agg =
  ag_rep :: hrec
  ag_count :: int

text \<open>The map \<open>byCmd\<close> in the order of its first insertions.\<close>

fun agg_row :: "agg list \<Rightarrow> hrec \<Rightarrow> agg list" where
  "agg_row [] r = [\<lparr>ag_rep = r, ag_count = 1\<rparr>]"
| "agg_row (a # as) r =
    (if r_cmd (ag_rep a) = r_cmd r
     then \<lparr>ag_rep = (if r_start_ms r > r_start_ms (ag_rep a) then r else ag_rep a), ag_count = ag_count a + 1\<rparr> # as
     else a # agg_row as r)"

definition score :: "string \<Rightarrow> int \<Rightarrow> agg \<Rightarrow> int" where
  "score cwd now a =
    (let w = recency_weight (wrap64 (now - r_start_ms (ag_rep a)))
     in ag_count a * (if cwd \<noteq> [] \<and> r_cwd (ag_rep a) = cwd then w * 2 else w))"

definition better :: "string \<Rightarrow> int \<Rightarrow> agg \<Rightarrow> agg \<Rightarrow> bool" where
  "better cwd now a b =
    (if score cwd now a \<noteq> score cwd now b then score cwd now a > score cwd now b
     else r_start_ms (ag_rep a) > r_start_ms (ag_rep b))"

definition frecency_rank :: "hrec list \<Rightarrow> string \<Rightarrow> int \<Rightarrow> hrec list" where
  "frecency_rank rows cwd now = map ag_rep (stable_sort (better cwd now) (foldl agg_row [] rows))"

definition order_rows ::
  "((hrec \<Rightarrow> hrec \<Rightarrow> bool) \<Rightarrow> hrec list \<Rightarrow> hrec list) \<Rightarrow> query_req \<Rightarrow> int \<Rightarrow> hrec list \<Rightarrow> hrec list" where
  "order_rows srt q now rows =
    (if qr_sort q = sort_frecency then frecency_rank rows (qr_cwd q) now
     else let sorted = srt newer_row rows in if qr_dedupe q then dedupe_rows [] sorted else sorted)"


section \<open>The window\<close>

definition query_default :: int where "query_default = 200"

text \<open>The slice expression panics, \<^const>\<open>None\<close>, unless its bounds are in order.\<close>

definition window :: "query_req \<Rightarrow> 'a list \<Rightarrow> 'a list option" where
  "window q rows =
    (let total = int (length rows);
         limit = (if qr_limit q < 0 then total else if qr_limit q = 0 then query_default else qr_limit q);
         lo = (let lo = (if qr_offset q < 0 then 0 else qr_offset q) in if lo > total then total else lo);
         hi = (let hi = wrap64 (lo + limit) in if hi > total then total else hi)
     in if hi < lo then None else Some (drop (nat lo) (take (nat hi) rows)))"

definition period_cutoff :: "int \<Rightarrow> int \<Rightarrow> int" where
  "period_cutoff now days = (if days \<le> 0 then 0 else wrap64 (now - days * 24 * 3600000))"

text \<open>What is shown of a row: its effective tags and the text of its prompt.\<close>

definition shown :: "unicode_tables \<Rightarrow> 'b daemon \<Rightarrow> hrec \<Rightarrow> hrec" where
  "shown U d r = hydrate_row (dm_prompts d) (r\<lparr>r_tags := effective U (dm_tags d) r\<rparr>)"


section \<open>A query\<close>

datatype no_answer = Hangs | Panics

definition run_query ::
  "((hrec \<Rightarrow> hrec \<Rightarrow> bool) \<Rightarrow> hrec list \<Rightarrow> hrec list) \<Rightarrow> unicode_tables \<Rightarrow> (string \<Rightarrow> bool) \<Rightarrow> int \<Rightarrow> mfilter \<Rightarrow> query_req
    \<Rightarrow> ('w, 'b, 'r, 'c) node \<Rightarrow> mfilter \<times> (no_answer + query_resp)" where
  "run_query srt U has now f q n =
    (case workspace_root has q of
       None \<Rightarrow> (f, Inl Hangs)
     | Some ws \<Rightarrow>
         let d = nd_daemon n;
             (f', rows0) = (if want_local q n then local_rows U q ws f d else (f, []));
             rows1 = by_executor q (rows0 @ remote_rows U q n);
             (rows2, hidden) = by_human q rows1;
             rows = order_rows srt q now (by_tag U (dm_tags d) q rows2)
         in (f', case window q rows of
              None \<Rightarrow> Inl Panics
            | Some page \<Rightarrow> Inr
                \<lparr>qs_rows = hydrate_rows (dm_prompts d) (map (\<lambda>r. r\<lparr>r_tags := effective U (dm_tags d) r\<rparr>) page),
                 qs_total = length rows, qs_scope = query_scope q,
                 qs_prompts = (if qr_want_prompts q
                   then prompts_since srt (period_cutoff now (qr_prompt_days q)) (qr_executor q) (dm_prompts d) else []),
                 qs_hidden = hidden, qs_remote = remote_info_of n\<rparr>))"

text \<open>\<open>tagCorpus\<close>.\<close>

definition tag_corpus :: "unicode_tables \<Rightarrow> string \<Rightarrow> ('w, 'b, 'r, 'c) node \<Rightarrow> hrec list" where
  "tag_corpus U scope n =
    (if scope \<noteq> scope_all \<or> \<not> node_enabled n then dm_corpus (nd_daemon n)
     else dm_corpus (nd_daemon n) @ remote_search U [] [] n)"

section \<open>The workspace root\<close>

definition span_of :: "string list \<Rightarrow> nat" where
  "span_of es = sum_list (map (\<lambda>e. Suc (length e)) es)"

lemma span_split: "span_of (split_on c s) = Suc (length s)"
  by (induction s) (auto simp: span_of_def split: list.splits)

lemma span_join: "es \<noteq> [] \<Longrightarrow> Suc (length (join_with [c] es)) = span_of es"
proof (induction es)
  case (Cons e es)
  then show ?case by (cases es) (simp_all add: span_of_def)
qed simp

lemma span_step: "span_of (path_step b st e) \<le> span_of st + Suc (length e)"
  by (auto simp: path_step_def span_of_def split: list.splits)

lemma span_steps: "span_of (foldl (path_step b) st es) \<le> span_of st + span_of es"
proof (induction es arbitrary: st)
  case (Cons e es)
  from Cons [of "path_step b st e"] span_step [of b st e] show ?case by (simp add: span_of_def)
qed (simp add: span_of_def)

lemma body_length: "Suc (length (join_with ''/'' (rev st))) \<le> max 1 (span_of st)"
  using span_join [of "rev st" "CHR ''/''"] by (cases "st = []") (simp_all add: span_of_def rev_map [symmetric])

lemma path_clean_length:
  assumes "p \<noteq> []"
  shows "length (path_clean p) \<le> length p"
proof (cases "has_prefix p ''/''")
  case True
  then obtain r where p: "p = CHR ''/'' # r" by (auto simp: has_prefix_iff)
  have "span_of (foldl (path_step True) [] (split_on CHR ''/'' r)) \<le> Suc (length r)"
    using span_steps [of True "[]" "split_on CHR ''/'' r"] by (simp add: span_split) (simp add: span_of_def)
  with body_length [of "foldl (path_step True) [] (split_on CHR ''/'' r)"]
  show ?thesis using True by (simp add: path_clean_def p path_step_def)
next
  case False
  have "span_of (foldl (path_step False) [] (split_on CHR ''/'' p)) \<le> Suc (length p)"
    using span_steps [of False "[]" "split_on CHR ''/'' p"] by (simp add: span_split) (simp add: span_of_def)
  with body_length [of "foldl (path_step False) [] (split_on CHR ''/'' p)"] assms False
  show ?thesis by (cases p) (auto simp: path_clean_def Let_def)
qed

lemma split_on_snoc: "split_on c (s @ [c]) = split_on c s @ [[]]"
  by (induction s) (auto split: list.splits simp: append_eq_Cons_conv)

lemma path_clean_slash: "p \<noteq> [] \<Longrightarrow> path_clean (p @ ''/'') = path_clean p"
  by (cases p) (simp_all add: path_clean_def has_prefix_def split_on_snoc path_step_def del: split_on.simps flip: append_Cons)

lemma path_clean_ne: "path_clean p \<noteq> []"
  by (simp add: path_clean_def Let_def)

lemma path_dir_ne: "path_dir p \<noteq> []"
  by (simp add: path_dir_def path_clean_ne)

definition rank :: "string \<Rightarrow> nat" where
  "rank s = (if s = ''.'' then 0 else Suc (length s))"

lemma index_byte_found: "index_byte s c = Some j \<Longrightarrow> j < length s \<and> s ! j = c"
  by (induction s arbitrary: j) (auto split: if_splits)

lemma path_dir_cases:
  obtains "path_dir s = ''.''" | p r where "s = p @ ''/'' @ r" "path_dir s = path_clean (p @ ''/'')"
proof (cases "last_index_byte s CHR ''/''")
  case None
  then have "path_dir s = ''.''" by (simp add: path_dir_def) code_simp
  then show ?thesis by (rule that)
next
  case (Some i)
  obtain j where j: "index_byte (rev s) CHR ''/'' = Some j" "i = length s - 1 - j"
    using Some by (auto simp: last_index_byte_def)
  have "j < length s" "rev s ! j = CHR ''/''" using index_byte_found [OF j(1)] by simp_all
  with j(2) have i: "i < length s" "s ! i = CHR ''/''" by (simp_all add: rev_nth)
  then have "s = take i s @ ''/'' @ drop (Suc i) s" using id_take_nth_drop [OF i(1)] i(2) by (metis append_Cons append_Nil)
  moreover have "path_dir s = path_clean (take i s @ ''/'')" using Some i by (simp add: path_dir_def take_Suc_conv_app_nth)
  ultimately show ?thesis by (rule that)
qed

lemma path_dir_rank:
  assumes "s \<noteq> []" and "path_dir s \<noteq> s"
  shows "rank (path_dir s) < rank s"
proof (rule path_dir_cases [of s])
  assume "path_dir s = ''.''"
  with assms show ?thesis by (auto simp: rank_def)
next
  fix p r assume s: "s = p @ ''/'' @ r" and dir: "path_dir s = path_clean (p @ ''/'')"
  show ?thesis
  proof (cases p)
    case Nil
    have "path_clean ''/'' = ''/''" by code_simp
    with s dir Nil assms(2) show ?thesis by (auto simp: rank_def)
  next
    case (Cons c cs)
    with path_clean_length [of p] path_clean_slash [of p] s dir show ?thesis by (auto simp: rank_def)
  qed
qed

text \<open>How far up a directory is.\<close>

lemma git_walk_step:
  "git_walk has dir =
    (if has (path_join [dir, ''.git'']) then Some dir else if path_dir dir = dir then Some [] else git_walk has (path_dir dir))"
  by (subst git_walk.simps) (simp add: Let_def)

lemma git_walk_nearest:
  "dir \<noteq> [] \<Longrightarrow>
    (\<exists>k. git_walk has dir = Some ((path_dir ^^ k) dir) \<and> has (path_join [(path_dir ^^ k) dir, ''.git'']) \<and>
       (\<forall>j < k. \<not> has (path_join [(path_dir ^^ j) dir, ''.git'']))) \<or>
    (git_walk has dir = Some [] \<and> (\<forall>j. \<not> has (path_join [(path_dir ^^ j) dir, ''.git''])))"
proof (induction "rank dir" arbitrary: dir rule: less_induct)
  case less
  show ?case
  proof (cases "has (path_join [dir, ''.git''])")
    case True
    then show ?thesis by (intro disjI1 exI [of _ 0]) (simp add: git_walk_step)
  next
    case False
    show ?thesis
    proof (cases "path_dir dir = dir")
      case True
      have "(path_dir ^^ j) dir = dir" for j by (induction j) (simp_all add: True)
      with False True show ?thesis by (simp add: git_walk_step)
    next
      case up: False
      have walk: "git_walk has dir = git_walk has (path_dir dir)" using False up by (simp add: git_walk_step)
      have iter: "(path_dir ^^ j) (path_dir dir) = (path_dir ^^ Suc j) dir" for j by (simp add: funpow_swap1)
      from less.hyps [OF path_dir_rank [OF less.prems up] path_dir_ne]
      consider k where "git_walk has (path_dir dir) = Some ((path_dir ^^ Suc k) dir)"
          "has (path_join [(path_dir ^^ Suc k) dir, ''.git''])" "\<And>j. j < k \<Longrightarrow> \<not> has (path_join [(path_dir ^^ Suc j) dir, ''.git''])"
        | "git_walk has (path_dir dir) = Some []" "\<And>j. \<not> has (path_join [(path_dir ^^ Suc j) dir, ''.git''])"
        unfolding iter by blast
      then show ?thesis
      proof cases
        case 1
        then have "\<not> has (path_join [(path_dir ^^ j) dir, ''.git''])" if "j < Suc k" for j using False that by (cases j) auto
        with 1 walk show ?thesis by (intro disjI1 exI [of _ "Suc k"]) simp
      next
        case 2
        then have "\<not> has (path_join [(path_dir ^^ j) dir, ''.git''])" for j using False by (cases j) auto
        with 2 walk show ?thesis by simp
      qed
    qed
  qed
qed

lemma git_root_some: "\<exists>ws. git_root has dir = Some ws"
  using git_walk_nearest [of dir has] by (auto simp: git_root_def)

text \<open>C34 The walk to the root of the repository ends, wherever it starts and whatever the disk holds, at the nearest
  directory upwards with a \<open>.git\<close> entry, or with the answer that there is none when no directory upwards has one.\<close>

theorem git_root_nearest:
  "case git_root has dir of
     None \<Rightarrow> False
   | Some root \<Rightarrow>
       (if root = [] then dir = [] \<or> (\<forall>k. \<not> has (path_join [(path_dir ^^ k) dir, ''.git'']))
        else \<exists>k. root = (path_dir ^^ k) dir \<and> has (path_join [root, ''.git'']) \<and>
          Least (\<lambda>j. has (path_join [(path_dir ^^ j) dir, ''.git''])) = k)"
proof (cases "dir = []")
  case False
  have ne: "(path_dir ^^ k) dir \<noteq> []" for k using False by (cases k) (simp_all add: path_dir_ne)
  have "Least (\<lambda>j. has (path_join [(path_dir ^^ j) dir, ''.git''])) = k"
    if "has (path_join [(path_dir ^^ k) dir, ''.git''])" "\<forall>j < k. \<not> has (path_join [(path_dir ^^ j) dir, ''.git''])" for k
    using that by (intro Least_equality) (auto simp: not_less [symmetric])
  with git_walk_nearest [OF False, of has] ne False show ?thesis by (auto simp: git_root_def)
qed (simp add: git_root_def)

section \<open>What a query finds\<close>

text \<open>The reference: the rows a request asks for, tested one by one with no state between requests.\<close>

definition text_match :: "unicode_tables \<Rightarrow> query_req \<Rightarrow> hrec \<Rightarrow> bool" where
  "text_match U q r \<longleftrightarrow>
    (if qr_fuzzy q then fst (fuzzy U (qr_q q) (r_cmd r)) else query_match U (parse_query U (qr_q q)) (r_cmd r))"

definition passes :: "unicode_tables \<Rightarrow> query_req \<Rightarrow> 'b daemon \<Rightarrow> hrec \<Rightarrow> bool" where
  "passes U q d r \<longleftrightarrow>
    (qr_executor q = [] \<or> r_executor r = qr_executor q) \<and> (qr_human_only q \<longrightarrow> r_executor r = []) \<and>
    (qr_tag q = [] \<or> tag_has U (dm_tags d) r (qr_tag q))"

definition found_local :: "unicode_tables \<Rightarrow> query_req \<Rightarrow> string \<Rightarrow> ('w, 'b, 'r, 'c) node \<Rightarrow> hrec list" where
  "found_local U q ws n =
    (if want_local q n
     then filter (\<lambda>r. text_match U q r \<and> scope_match (query_scope q) r q ws) (dm_corpus (nd_daemon n)) else [])"

text \<open>Remote rows are always matched by substring, in a fuzzy query too.\<close>

definition found_remote :: "unicode_tables \<Rightarrow> query_req \<Rightarrow> ('w, 'b, 'r, 'c) node \<Rightarrow> hrec list" where
  "found_remote U q n =
    (if query_deep q \<and> node_enabled n
     then filter (\<lambda>r. query_match U (parse_query U (qr_q q)) (r_cmd r) \<and>
         (query_scope q = scope_host \<and> qr_host q \<noteq> [] \<longrightarrow> r_hostname r = qr_host q)) (nd_records n) else [])"

definition found :: "unicode_tables \<Rightarrow> query_req \<Rightarrow> string \<Rightarrow> ('w, 'b, 'r, 'c) node \<Rightarrow> hrec list" where
  "found U q ws n = filter (passes U q (nd_daemon n)) (found_local U q ws n @ found_remote U q n)"

text \<open>The commands stay beside the records they belong to.\<close>

definition parallel :: "('w, 'b, 'r, 'c) node \<Rightarrow> bool" where
  "parallel n \<longleftrightarrow> dm_cmds (nd_daemon n) = map r_cmd (dm_corpus (nd_daemon n)) \<and> nd_rcmds n = map r_cmd (nd_records n)"

text \<open>The filter of the connection fits the corpus, and the query is one it narrows by.\<close>

definition typed :: "unicode_tables \<Rightarrow> query_req \<Rightarrow> mfilter \<Rightarrow> ('w, 'b, 'r, 'c) node \<Rightarrow> bool" where
  "typed U q f n \<longleftrightarrow> filter_ok U f (dm_cmds (nd_daemon n)) \<and> is_ascii (qr_q q)"

lemma nth_filter: "map (\<lambda>i. xs ! i) (filter (\<lambda>i. P (xs ! i)) [0 ..< length xs]) = filter P xs"
proof -
  have "filter P (map (\<lambda>i. xs ! i) [0 ..< length xs]) = filter P xs" by (simp only: map_nth)
  then show ?thesis by (simp add: filter_map comp_def)
qed

lemma local_rows_found:
  assumes p: "parallel n" and t: "typed U q f n"
  shows "snd (local_rows U q ws f (nd_daemon n)) =
      filter (\<lambda>r. text_match U q r \<and> scope_match (query_scope q) r q ws) (dm_corpus (nd_daemon n))"
    and "filter_ok U (fst (local_rows U q ws f (nd_daemon n))) (dm_cmds (nd_daemon n) @ new)"
proof -
  let ?d = "nd_daemon n"
  have cmds: "dm_cmds ?d = map r_cmd (dm_corpus ?d)" using p by (simp add: parallel_def)
  have scan: "snd (filter_apply U f (qr_q q) (dm_cmds ?d)) = full_scan U (qr_q q) (dm_cmds ?d)"
    using t filter_apply_scan by (simp add: typed_def)
  have two: "filter (\<lambda>i. P (dm_cmds ?d ! i) \<and> S (dm_corpus ?d ! i)) [0 ..< length (dm_cmds ?d)] =
      filter (\<lambda>i. P (r_cmd (dm_corpus ?d ! i)) \<and> S (dm_corpus ?d ! i)) [0 ..< length (dm_corpus ?d)]" for P S
    unfolding cmds length_map by (rule filter_cong) auto
  have "snd (local_rows U q ws f ?d) = map (\<lambda>i. dm_corpus ?d ! i)
      (filter (\<lambda>i. text_match U q (dm_corpus ?d ! i) \<and> scope_match (query_scope q) (dm_corpus ?d ! i) q ws)
        [0 ..< length (dm_corpus ?d)])"
    unfolding local_rows_def text_match_def fuzzy_match_def
    using scan two [of "\<lambda>c. fst (fuzzy U (qr_q q) c)" "\<lambda>r. scope_match (query_scope q) r q ws"]
      two [of "query_match U (parse_query U (qr_q q))" "\<lambda>r. scope_match (query_scope q) r q ws"]
    by (cases "filter_apply U f (qr_q q) (dm_cmds ?d)") (simp add: full_scan_def)
  then show "snd (local_rows U q ws f ?d) =
      filter (\<lambda>r. text_match U q r \<and> scope_match (query_scope q) r q ws) (dm_corpus ?d)"
    using nth_filter [of "dm_corpus ?d" "\<lambda>r. text_match U q r \<and> scope_match (query_scope q) r q ws"] by simp
  show "filter_ok U (fst (local_rows U q ws f ?d)) (dm_cmds ?d @ new)"
    using t filter_apply_ok [of U f "dm_cmds ?d" "qr_q q" new] filter_ok_more [of U f "dm_cmds ?d" new]
    by (cases "filter_apply U f (qr_q q) (dm_cmds ?d)") (simp add: typed_def local_rows_def)
qed

lemma remote_rows_found:
  assumes "parallel n"
  shows "remote_rows U q n = found_remote U q n"
proof -
  have z: "zip (nd_records n) (nd_rcmds n) = map (\<lambda>r. (r, r_cmd r)) (nd_records n)"
    using assms by (simp add: parallel_def zip_map2 zip_same_conv_map)
  show ?thesis
    by (simp add: remote_rows_def found_remote_def remote_search_def z filter_map comp_def)
      (auto intro!: filter_cong)
qed

lemma filters_pass: "by_tag U t q (fst (by_human q (by_executor q rows))) =
    filter (\<lambda>r. (qr_executor q = [] \<or> r_executor r = qr_executor q) \<and> (qr_human_only q \<longrightarrow> r_executor r = []) \<and>
      (qr_tag q = [] \<or> tag_has U t r (qr_tag q))) rows"
  by (auto simp: by_tag_def by_human_def by_executor_def intro!: filter_cong)

lemma run_query_found:
  assumes "parallel n" and "typed U q f n" and ws: "workspace_root has q = Some ws"
  shows "\<exists>f' hidden. (\<forall>new. filter_ok U f' (dm_cmds (nd_daemon n) @ new)) \<and>
    run_query srt U has now f q n = (f',
      case window q (order_rows srt q now (found U q ws n)) of
        None \<Rightarrow> Inl Panics
      | Some page \<Rightarrow> Inr
          \<lparr>qs_rows = map (shown U (nd_daemon n)) page, qs_total = length (order_rows srt q now (found U q ws n)),
           qs_scope = query_scope q,
           qs_prompts = (if qr_want_prompts q
             then prompts_since srt (period_cutoff now (qr_prompt_days q)) (qr_executor q) (dm_prompts (nd_daemon n)) else []),
           qs_hidden = hidden, qs_remote = remote_info_of n\<rparr>)"
proof -
  obtain f' rows0 where l: "(if want_local q n then local_rows U q ws f (nd_daemon n) else (f, [])) = (f', rows0)" by fastforce
  have rows0: "rows0 = found_local U q ws n" and ok: "filter_ok U f' (dm_cmds (nd_daemon n) @ new)" for new
    using l local_rows_found(1) [OF assms(1,2), of ws] local_rows_found(2) [OF assms(1,2), of ws new] assms(2) filter_ok_more
    by (auto simp: found_local_def typed_def split: if_splits)
  obtain rows2 hidden where h: "by_human q (by_executor q (rows0 @ remote_rows U q n)) = (rows2, hidden)" by fastforce
  have pass: "passes U q (nd_daemon n) = (\<lambda>r. (qr_executor q = [] \<or> r_executor r = qr_executor q) \<and>
      (qr_human_only q \<longrightarrow> r_executor r = []) \<and> (qr_tag q = [] \<or> tag_has U (dm_tags (nd_daemon n)) r (qr_tag q)))"
    by (rule ext) (simp add: passes_def)
  have "by_tag U (dm_tags (nd_daemon n)) q rows2 = found U q ws n"
    using filters_pass [of U "dm_tags (nd_daemon n)" q "rows0 @ remote_rows U q n"] h
    by (simp add: found_def pass rows0 remote_rows_found [OF assms(1)])
  then show ?thesis
    by (intro exI [of _ f'] exI [of _ hidden])
      (simp add: run_query_def ws Let_def l h ok hydrate_rows_def shown_def comp_def split: option.split)
qed


lemma newer_row_weak: "strict_weak newer_row"
  unfolding strict_weak_def newer_row_def by (auto split: if_splits)

lemma better_weak: "strict_weak (better cwd now)"
  unfolding strict_weak_def better_def by (auto split: if_splits)

lemma shown_keeps [simp]:
  "r_start_ms (shown U d r) = r_start_ms r" "r_seq (shown U d r) = r_seq r" "r_cmd (shown U d r) = r_cmd r"
  "r_id (shown U d r) = r_id r" "newer_row (shown U d r) (shown U d x) = newer_row r x"
  by (simp_all add: shown_def hydrate_row_def newer_row_def)

text \<open>The whole window.\<close>

lemma window_all: "qr_limit q < 0 \<Longrightarrow> qr_offset q \<le> 0 \<Longrightarrow> int (length rows) < 2 ^ 63 \<Longrightarrow> window q rows = Some rows"
  by (simp add: window_def Let_def wrap64_id int64_def)

lemma window_page:
  "0 < qr_limit q \<Longrightarrow> 0 \<le> qr_offset q \<Longrightarrow> qr_offset q + qr_limit q < 2 ^ 63 \<Longrightarrow> int (length rows) < 2 ^ 63 \<Longrightarrow>
    window q rows = Some (take (nat (qr_limit q)) (drop (nat (qr_offset q)) rows))"
  by (auto simp: window_def Let_def wrap64_id int64_def drop_take nat_add_distrib)

lemma window_overflow:
  "qr_limit q = 2 ^ 63 - 1 \<Longrightarrow> 0 < qr_offset q \<Longrightarrow> rows \<noteq> [] \<Longrightarrow> int (length rows) < 2 ^ 63 \<Longrightarrow> window q rows = None"
proof -
  assume a: "qr_limit q = 2 ^ 63 - 1" "0 < qr_offset q" "rows \<noteq> []" "int (length rows) < 2 ^ 63"
  define lo where "lo = (if qr_offset q > int (length rows) then int (length rows) else qr_offset q)"
  have lo: "0 < lo" "lo < 2 ^ 63" using a by (auto simp: lo_def)
  have "lo + (2 ^ 63 - 1) + 2 ^ 63 = (lo - 1) + 2 ^ 64" by simp
  then have "(lo + (2 ^ 63 - 1) + 2 ^ 63) mod 2 ^ 64 = lo - 1" using lo by (simp only: mod_add_self2) simp
  then have "wrap64 (lo + (2 ^ 63 - 1)) = lo - 1 - 2 ^ 63" by (simp only: wrap64_def)
  with lo a show ?thesis by (simp add: window_def Let_def flip: lo_def)
qed


subsection \<open>One row per command\<close>

lemma dedupe_distinct: "distinct (map r_cmd (dedupe_rows seen rs)) \<and> set (map r_cmd (dedupe_rows seen rs)) = r_cmd ` set rs - set seen"
  by (induction seen rs rule: dedupe_rows.induct) auto

lemma dedupe_subset: "set (dedupe_rows seen rs) \<subseteq> set rs"
  by (induction seen rs rule: dedupe_rows.induct) auto

lemma dedupe_newest:
  "sorted_wrt (\<lambda>x y. \<not> newer_row y x) rs \<Longrightarrow> r \<in> set (dedupe_rows seen rs) \<Longrightarrow> x \<in> set rs \<Longrightarrow> r_cmd x = r_cmd r \<Longrightarrow>
    \<not> newer_row x r"
proof (induction seen rs rule: dedupe_rows.induct)
  case (2 seen y rs)
  have self: "\<not> newer_row z z" for z by (simp add: newer_row_def)
  show ?case
  proof (cases "r_cmd y \<in> set seen")
    case True
    then have "r_cmd r \<notin> set seen" using 2(4) dedupe_distinct [of seen rs] by auto
    with True 2 show ?thesis by auto
  next
    case False
    have "r \<in> set (dedupe_rows (r_cmd y # seen) rs) \<Longrightarrow> r_cmd r \<noteq> r_cmd y"
      using dedupe_distinct [of "r_cmd y # seen" rs] by auto
    with 2(4,6) False have "r = y \<or> (r \<in> set (dedupe_rows (r_cmd y # seen) rs) \<and> x \<noteq> y)" by auto
    with False 2 self show ?thesis by auto
  qed
qed simp

abbreviation ag_cmd :: "agg \<Rightarrow> string" where "ag_cmd a \<equiv> r_cmd (ag_rep a)"

lemma agg_row_cmds: "map ag_cmd (agg_row as r) = (if r_cmd r \<in> ag_cmd ` set as then map ag_cmd as else map ag_cmd as @ [r_cmd r])"
  by (induction as) auto

definition agg_add :: "agg \<Rightarrow> hrec \<Rightarrow> agg" where
  "agg_add b r = \<lparr>ag_rep = (if r_start_ms r > r_start_ms (ag_rep b) then r else ag_rep b), ag_count = ag_count b + 1\<rparr>"

lemma agg_row_elem:
  "distinct (map ag_cmd as) \<Longrightarrow> a \<in> set (agg_row as r) \<Longrightarrow>
    (a \<in> set as \<and> ag_cmd a \<noteq> r_cmd r) \<or> (\<exists>b \<in> set as. ag_cmd b = r_cmd r \<and> a = agg_add b r) \<or>
    (r_cmd r \<notin> ag_cmd ` set as \<and> a = \<lparr>ag_rep = r, ag_count = 1\<rparr>)"
  by (induction as) (force simp: agg_add_def split: if_splits)+

text \<open>What is known of the aggregates of some rows.\<close>

definition agg_ok :: "agg list \<Rightarrow> hrec list \<Rightarrow> bool" where
  "agg_ok as rows \<longleftrightarrow> distinct (map ag_cmd as) \<and> ag_cmd ` set as = r_cmd ` set rows \<and>
    (\<forall>a \<in> set as. ag_rep a \<in> set rows \<and> ag_count a = int (length (filter (\<lambda>x. r_cmd x = ag_cmd a) rows)) \<and>
      (\<forall>x \<in> set rows. r_cmd x = ag_cmd a \<longrightarrow> r_start_ms x \<le> r_start_ms (ag_rep a)))"

lemma agg_row_ok:
  assumes "agg_ok as rows"
  shows "agg_ok (agg_row as r) (rows @ [r])"
proof -
  have dist: "distinct (map ag_cmd as)" and cmds: "ag_cmd ` set as = r_cmd ` set rows" using assms by (simp_all add: agg_ok_def)
  have rep: "ag_rep a \<in> set rows \<and> ag_count a = int (length (filter (\<lambda>x. r_cmd x = ag_cmd a) rows)) \<and>
      (\<forall>x \<in> set rows. r_cmd x = ag_cmd a \<longrightarrow> r_start_ms x \<le> r_start_ms (ag_rep a))" if "a \<in> set as" for a
    using assms that by (simp add: agg_ok_def)
  have d2: "distinct (map ag_cmd (agg_row as r))" using dist by (auto simp: agg_row_cmds)
  have "set (map ag_cmd (agg_row as r)) = insert (r_cmd r) (ag_cmd ` set as)" unfolding agg_row_cmds by auto
  then have c2: "ag_cmd ` set (agg_row as r) = r_cmd ` set (rows @ [r])" by (simp add: cmds)
  have "ag_rep a \<in> set (rows @ [r]) \<and> ag_count a = int (length (filter (\<lambda>x. r_cmd x = ag_cmd a) (rows @ [r]))) \<and>
      (\<forall>x \<in> set (rows @ [r]). r_cmd x = ag_cmd a \<longrightarrow> r_start_ms x \<le> r_start_ms (ag_rep a))" if "a \<in> set (agg_row as r)" for a
    using agg_row_elem [OF dist that]
  proof (elim disjE conjE bexE)
    assume "a \<in> set as" "ag_cmd a \<noteq> r_cmd r"
    with rep [of a] show ?thesis by auto
  next
    fix b assume b: "b \<in> set as" "ag_cmd b = r_cmd r" "a = agg_add b r"
    then have "ag_cmd a = r_cmd r" by (simp add: agg_add_def)
    with rep [OF b(1)] b(2) show ?thesis by (auto simp: b(3) agg_add_def)
  next
    assume a: "r_cmd r \<notin> ag_cmd ` set as" "a = \<lparr>ag_rep = r, ag_count = 1\<rparr>"
    have new: "x \<in> set rows \<Longrightarrow> r_cmd x \<noteq> r_cmd r" for x using a(1) unfolding cmds by (auto simp: image_iff)
    with a(2) show ?thesis by (auto simp: filter_empty_conv dest: new)
  qed
  with d2 c2 show ?thesis by (simp add: agg_ok_def)
qed

lemma agg_all: "agg_ok as done \<Longrightarrow> agg_ok (foldl agg_row as rows) (done @ rows)"
proof (induction rows arbitrary: as "done")
  case (Cons r rows)
  from Cons.IH [OF agg_row_ok [OF Cons.prems], of r] show ?case by simp
qed simp

lemma agg_fold: "agg_ok (foldl agg_row [] rows) rows"
  using agg_all [of "[]" "[]" rows] by (simp add: agg_ok_def)


subsection \<open>Properties\<close>

definition all_rows :: "query_req \<Rightarrow> query_req" where
  "all_rows q = q\<lparr>qr_limit := limit_all, qr_offset := 0\<rparr>"

lemma all_sel [simp]:
  "qr_q (all_rows q) = qr_q q" "qr_scope (all_rows q) = qr_scope q" "qr_host (all_rows q) = qr_host q"
  "qr_session (all_rows q) = qr_session q" "qr_cwd (all_rows q) = qr_cwd q" "qr_executor (all_rows q) = qr_executor q"
  "qr_human_only (all_rows q) = qr_human_only q" "qr_tag (all_rows q) = qr_tag q" "qr_sort (all_rows q) = qr_sort q"
  "qr_fuzzy (all_rows q) = qr_fuzzy q" "qr_dedupe (all_rows q) = qr_dedupe q" "qr_limit (all_rows q) = limit_all"
  "qr_offset (all_rows q) = 0"
  by (simp_all add: all_rows_def)

lemma all_scope [simp]: "query_scope (all_rows q) = query_scope q" "query_deep (all_rows q) = query_deep q"
    "want_local (all_rows q) n = want_local q n"
  by (simp_all add: query_scope_def query_deep_def want_local_def)

lemma all_match [simp]: "scope_match s r (all_rows q) ws = scope_match s r q ws" "text_match U (all_rows q) r = text_match U q r"
    "passes U (all_rows q) d = passes U q d"
  by (simp_all add: scope_match_def text_match_def passes_def fun_eq_iff)

lemma found_all [simp]:
  "found U (all_rows q) ws n = found U q ws n" "order_rows srt (all_rows q) now = order_rows srt q now"
  "workspace_root has (all_rows q) = workspace_root has q" "typed U (all_rows q) f n = typed U q f n"
  by (simp_all add: found_def found_local_def found_remote_def workspace_root_def typed_def order_rows_def fun_eq_iff)

lemma run_all:
  assumes "parallel n" and "typed U q f n" and "workspace_root has q = Some ws"
    and "int (length (order_rows srt q now (found U q ws n))) < 2 ^ 63"
  obtains f' resp where "run_query srt U has now f (all_rows q) n = (f', Inr resp)"
    "qs_rows resp = map (shown U (nd_daemon n)) (order_rows srt q now (found U q ws n))"
    "qs_total resp = length (order_rows srt q now (found U q ws n))"
    "\<And>new. filter_ok U f' (dm_cmds (nd_daemon n) @ new)"
proof -
  have w: "window (all_rows q) (order_rows srt q now (found U q ws n)) = Some (order_rows srt q now (found U q ws n))"
    by (rule window_all [OF _ _ assms(4)]) (simp_all add: limit_all_def)
  have ws: "workspace_root has (all_rows q) = Some ws" and t: "typed U (all_rows q) f n" using assms(2,3) by simp_all
  from run_query_found [OF assms(1) t ws, of srt now] that show ?thesis by (auto simp: w)
qed

lemma distinct_within: "distinct xs \<Longrightarrow> set xs \<subseteq> set ys \<Longrightarrow> length xs \<le> length ys"
  using card_mono [of "set ys" "set xs"] card_length [of ys] by (simp add: distinct_card)



text \<open>A page size of the largest integer brings the daemon down. The end of the window is offset plus limit in
  64 bits; with that limit and any positive offset the sum wraps, the slice bounds are out of order, and the
  goroutine of the connection panics.\<close>

theorem query_limit_panics:
  assumes "parallel n" and "typed U q f n" and "workspace_root has q = Some ws" and "qr_limit q = 2 ^ 63 - 1"
    and "0 < qr_offset q" and "order_rows srt q now (found U q ws n) \<noteq> []"
    and "int (length (order_rows srt q now (found U q ws n))) < 2 ^ 63"
  shows "\<exists>f'. run_query srt U has now f q n = (f', Inl Panics)"
  using run_query_found [OF assms(1-3), of srt now] window_overflow [OF assms(4-7)] by auto

text \<open>Frecency gives one row per command: each command among the matching rows once, by its most recent
  occurrence, ordered by how often times how recently (doubled in the directory the query comes from), and equal
  scores by recency.\<close>

theorem query_frecency:
  assumes "parallel n" and "typed U q f n" and "workspace_root has q = Some ws" and "qr_sort q = sort_frecency"
    and "int (length (found U q ws n)) < 2 ^ 63"
  shows "\<exists>f' resp as. run_query srt U has now f (all_rows q) n = (f', Inr resp) \<and>
    qs_rows resp = map (shown U (nd_daemon n) \<circ> ag_rep) as \<and> agg_ok as (found U q ws n) \<and>
    sorted_wrt (\<lambda>a b. score (qr_cwd q) now b < score (qr_cwd q) now a \<or>
      (score (qr_cwd q) now b = score (qr_cwd q) now a \<and> r_start_ms (ag_rep b) \<le> r_start_ms (ag_rep a))) as"
proof -
  let ?rows = "found U q ws n"
  let ?as = "stable_sort (better (qr_cwd q) now) (foldl agg_row [] ?rows)"
  have rows: "order_rows srt q now ?rows = map ag_rep ?as" by (simp add: order_rows_def frecency_rank_def assms(4))
  have m: "mset ?as = mset (foldl agg_row [] ?rows)" by (rule mset_stable_sort)
  have set: "set ?as = set (foldl agg_row [] ?rows)" using m by (metis set_mset_mset)
  have "distinct (map ag_cmd ?as) = distinct (map ag_cmd (foldl agg_row [] ?rows))"
    using m by (metis mset_eq_imp_distinct_iff mset_map)
  then have ok: "agg_ok ?as ?rows" using agg_fold [of ?rows] by (simp add: agg_ok_def set)
  then have d: "distinct (map ag_cmd ?as)" and sub: "ag_rep ` set ?as \<subseteq> set ?rows" by (auto simp: agg_ok_def)
  have "distinct (map r_cmd (map ag_rep ?as))" using d by (simp add: comp_def)
  then have "distinct (map ag_rep ?as)" using distinct_map [of r_cmd "map ag_rep ?as"] by blast
  from distinct_within [OF this] sub have "length ?as \<le> length ?rows" by simp
  then have "int (length (order_rows srt q now ?rows)) < 2 ^ 63" using assms(5) by (simp add: rows)
  from run_all [OF assms(1-3) this] obtain f' resp where r: "run_query srt U has now f (all_rows q) n = (f', Inr resp)"
    "qs_rows resp = map (shown U (nd_daemon n)) (map ag_rep ?as)" unfolding rows by blast
  have "sorted_wrt (\<lambda>a b. \<not> better (qr_cwd q) now b a) ?as" by (rule stable_sort_ordered [OF better_weak])
  then have "sorted_wrt (\<lambda>a b. score (qr_cwd q) now b < score (qr_cwd q) now a \<or>
      (score (qr_cwd q) now b = score (qr_cwd q) now a \<and> r_start_ms (ag_rep b) \<le> r_start_ms (ag_rep a))) ?as"
    by (rule sorted_wrt_mono_rel [rotated]) (auto simp: better_def split: if_splits)
  with r ok show ?thesis by (intro exI [of _ f'] exI [of _ resp] exI [of _ ?as]) simp
qed

text \<open>Collapsing duplicates keeps the newest: with the flag set, each command among the matching rows appears
  once, and no matching row of that command is newer than the one shown.\<close>

theorem query_dedupe:
  assumes "slice_sort srt" and "parallel n" and "typed U q f n" and "workspace_root has q = Some ws"
    and "qr_sort q \<noteq> sort_frecency" and "qr_dedupe q" and "int (length (found U q ws n)) < 2 ^ 63"
  shows "\<exists>f' resp. run_query srt U has now f (all_rows q) n = (f', Inr resp) \<and>
    distinct (map r_cmd (qs_rows resp)) \<and> r_cmd ` set (qs_rows resp) = r_cmd ` set (found U q ws n) \<and>
    (\<forall>r \<in> set (qs_rows resp). \<forall>x \<in> set (found U q ws n). r_cmd x = r_cmd r \<longrightarrow> \<not> newer_row x r)"
proof -
  let ?rows = "found U q ws n"
  let ?s = "srt newer_row ?rows"
  have rows: "order_rows srt q now ?rows = dedupe_rows [] ?s" using assms(5,6) by (simp add: order_rows_def)
  note set = slice_sort.srt_set [OF assms(1), of newer_row ?rows]
  have d: "distinct (map r_cmd (dedupe_rows [] ?s))" "set (map r_cmd (dedupe_rows [] ?s)) = r_cmd ` set ?rows"
    using dedupe_distinct [of "[]" ?s] by (simp_all add: set)
  have "distinct (dedupe_rows [] ?s)" using distinct_map [of r_cmd "dedupe_rows [] ?s"] d(1) by blast
  from distinct_within [OF this, of ?rows] dedupe_subset [of "[]" ?s] have "length (dedupe_rows [] ?s) \<le> length ?rows" by (simp add: set)
  then have "int (length (order_rows srt q now ?rows)) < 2 ^ 63" using assms(7) by (simp add: rows)
  from run_all [OF assms(2-4) this] obtain f' resp where r: "run_query srt U has now f (all_rows q) n = (f', Inr resp)"
    "qs_rows resp = map (shown U (nd_daemon n)) (dedupe_rows [] ?s)" unfolding rows by blast
  have ord: "sorted_wrt (\<lambda>x y. \<not> newer_row y x) ?s" by (rule slice_sort.srt_ordered [OF assms(1) newer_row_weak])
  have shown: "newer_row x (shown U (nd_daemon n) y) = newer_row x y" for x y by (simp add: newer_row_def)
  have "\<not> newer_row x z" if "z \<in> set (qs_rows resp)" "x \<in> set ?rows" "r_cmd x = r_cmd z" for x z
  proof -
    obtain y where y: "y \<in> set (dedupe_rows [] ?s)" "z = shown U (nd_daemon n) y" using \<open>z \<in> set (qs_rows resp)\<close> by (auto simp: r(2))
    with dedupe_newest [OF ord y(1), of x] that(2,3) show ?thesis by (simp add: set shown)
  qed
  moreover have "map r_cmd (qs_rows resp) = map r_cmd (dedupe_rows [] ?s)" by (simp add: r(2))
  with d have "distinct (map r_cmd (qs_rows resp))" "r_cmd ` set (qs_rows resp) = r_cmd ` set ?rows" by (metis, metis list.set_map)
  ultimately show ?thesis using r(1) by (intro exI [of _ f'] exI [of _ resp] conjI ballI impI) assumption+
qed


definition cmd_row :: "string \<Rightarrow> string \<Rightarrow> hrec" where
  "cmd_row i c = zero_rec\<lparr>r_id := i, r_cmd := c\<rparr>"

text \<open>A connection's search misses a row after a deletion. The filter takes a corpus no shorter than the one it
  saw for a grown one; when a deletion is followed by as many new rows before the next keystroke, the remaining rows
  have moved down and are tested at their old places: a matching command is not found.\<close>

theorem filter_stale_after_delete:
  "let d = idle_daemon\<lparr>dm_corpus := [cmd_row ''1'' ''x'', cmd_row ''2'' ''a''], dm_cmds := [''x'', ''a'']\<rparr>;
       f = fst (filter_apply U new_filter ''a'' (dm_cmds d));
       d' = fold_rows U [cmd_row ''3'' ''y''] (drop_from_corpus [''1''] d)
   in dm_cmds d' = [''a'', ''y''] \<and> full_scan U ''a'' (dm_cmds d') = [0] \<and> snd (filter_apply U f ''a'' (dm_cmds d')) = []"
proof -
  have q: "parse_query U ''a'' = [parse_term U ''a'']"
    by (simp add: parse_query_def str_fields_def chunks_of_ascii is_ascii_def ascii_byte_def byte_def rune_is_space_def)
  have m: "term_match U (parse_term U ''a'') ''a''" "\<not> term_match U (parse_term U ''a'') ''x''" "\<not> term_match U (parse_term U ''a'') ''y''"
    by (subst term_match_ascii;
        simp add: is_ascii_def ascii_byte_def byte_def is_upper_byte_def less_eq_char_def fold_byte_def str_contains_def has_prefix_def)+
  have cmds: "dm_cmds (fold_rows U [cmd_row ''3'' ''y''] (drop_from_corpus [''1'']
      (idle_daemon\<lparr>dm_corpus := [cmd_row ''1'' ''x'', cmd_row ''2'' ''a''], dm_cmds := [''x'', ''a'']\<rparr>))) = [''a'', ''y'']"
    by (simp add: fold_rows_def drop_from_corpus_def cmd_row_def index_row_def is_tombstone_def is_command_def zero_rec_def Let_def)
  have up: "[0 ..< 2] = [0, Suc 0]" by (simp add: upt_rec)
  show ?thesis
    by (simp add: cmds Let_def full_scan_def filter_apply_def new_filter_def query_match_def q m up has_prefix_def)
qed


subsection \<open>Two machines and two rows\<close>

definition base_req :: query_req where
  "base_req = \<lparr>qr_q = [], qr_scope = [], qr_host = [], qr_session = [], qr_cwd = [], qr_executor = [], qr_human_only = False,
     qr_tag = [], qr_sort = [], qr_fuzzy = False, qr_limit = 0, qr_offset = 0, qr_dedupe = False, qr_want_prompts = False,
     qr_prompt_days = 0\<rparr>"

definition two_rows :: demo_node where
  "two_rows = warm_node\<lparr>nd_daemon := idle_daemon\<lparr>dm_corpus := [cmd_row ''1'' ''x'', cmd_row ''2'' ''x''], dm_cmds := [''x'', ''x'']\<rparr>\<rparr>"

definition req :: "string \<Rightarrow> bool \<Rightarrow> int \<Rightarrow> int \<Rightarrow> query_req" where
  "req s b l k = base_req\<lparr>qr_sort := s, qr_dedupe := b, qr_limit := l, qr_offset := k\<rparr>"

lemma two_rows_fit: "parallel two_rows" "typed U (req s b l k) new_filter two_rows"
  "workspace_root has (req s b l k) = Some []"
  "found U (req s b l k) ws two_rows = [cmd_row ''1'' ''x'', cmd_row ''2'' ''x'']"
proof -
  have w: "nd_records warm_node = []" "nd_rcmds warm_node = []"
    by (simp_all add: warm_node_def new_remote_def make_syncer_def configured_def demo_conf_def open_disk_def remove_disk_def Let_def)
  show "parallel two_rows" by (simp add: parallel_def two_rows_def w cmd_row_def)
  show "typed U (req s b l k) new_filter two_rows"
    by (simp add: typed_def new_filter_ok req_def base_req_def is_ascii_def)
  show "workspace_root has (req s b l k) = Some []"
    by (simp add: workspace_root_def query_scope_def req_def base_req_def scopes)
  have "parse_query U [] = []" by (simp add: parse_query_def str_fields_def)
  then show "found U (req s b l k) ws two_rows = [cmd_row ''1'' ''x'', cmd_row ''2'' ''x'']"
    by (simp add: found_def found_local_def found_remote_def query_deep_def want_local_def query_scope_def req_def base_req_def scopes
        two_rows_def text_match_def query_match_def scope_match_def passes_def)
qed

lemma req_sel [simp]: "qr_sort (req s b l k) = s" "qr_dedupe (req s b l k) = b" "qr_limit (req s b l k) = l" "qr_offset (req s b l k) = k"
  by (simp_all add: req_def)



lemma query_limit_panics_witness:
  "\<exists>f'. run_query stable_sort kelvin_tables (\<lambda>_. False) 0 new_filter (req [] False (2 ^ 63 - 1) 1) two_rows = (f', Inl Panics)"
proof -
  have "length (stable_sort newer_row [cmd_row ''1'' ''x'', cmd_row ''2'' ''x'']) = 2" by simp
  moreover from this have "stable_sort newer_row [cmd_row ''1'' ''x'', cmd_row ''2'' ''x''] \<noteq> []" by auto
  ultimately show ?thesis
    by (intro query_limit_panics [OF two_rows_fit(1,2,3)])
      (simp_all only: two_rows_fit(4), simp_all add: order_rows_def sort_frecency_def del: stable_sort.simps)
qed

lemma query_frecency_witness:
  "\<exists>f' resp. run_query stable_sort kelvin_tables (\<lambda>_. False) 0 new_filter (all_rows (req sort_frecency False 0 0)) two_rows = (f', Inr resp)"
  using query_frecency [OF two_rows_fit(1) two_rows_fit(2) [where U = kelvin_tables and s = sort_frecency and b = False and l = 0 and k = 0] two_rows_fit(3) [where has = "\<lambda>_. False" and s = sort_frecency and b = False and l = 0 and k = 0], where srt = stable_sort and now = 0]
  by (auto simp: two_rows_fit(4))

lemma query_dedupe_witness:
  "\<exists>f' resp. run_query stable_sort kelvin_tables (\<lambda>_. False) 0 new_filter (all_rows (req [] True 0 0)) two_rows = (f', Inr resp) \<and> r_cmd ` set (qs_rows resp) = {''x''}"
  using query_dedupe [OF stable.slice_sort_axioms two_rows_fit(1) two_rows_fit(2) [where U = kelvin_tables and s = "[]" and b = True and l = 0 and k = 0] two_rows_fit(3) [where has = "\<lambda>_. False" and s = "[]" and b = True and l = 0 and k = 0], where now = 0] 
  by (auto simp: two_rows_fit(4) sort_frecency_def cmd_row_def)

end
