(* ===== verification/Daemon.thy ===== *)
theory Daemon
  imports Daemon_Query Enroll Spool
begin

text \<open>
  \<open>daemon/daemon.go\<close>, the handlers of \<open>daemon/remote.go\<close> and \<open>daemon/client.go\<close>: the requests of the socket, the
  connections that carry them and the client that sends them. One request is one step; the channels that wake the
  loops are flags, since they hold one message and a full one is left alone.
\<close>

section \<open>The server\<close>

record ('w, 'b, 'r, 'c) site =
  si_node :: "('w, 'b, 'r, 'c) node"
  si_wake :: bool
  si_sync_wake :: bool
  si_activity :: bool
  si_stop :: bool

datatype request_error = StoreErr store_error | SpoolErr append_fault | NodeErr remote_error

text \<open>What the daemon runs over. \<open>ds_text\<close> is the text of an error; the calls on tokens go to the HTTP client.\<close>

record ('w, 'b, 'p, 'r, 'c) setting =
  ds_gear :: "('w, 'b, 'p, 'r, 'c) gear"
  ds_sort :: "(hrec \<Rightarrow> hrec \<Rightarrow> bool) \<Rightarrow> hrec list \<Rightarrow> hrec list"
  ds_tag_sort :: "(tag_count \<Rightarrow> tag_count \<Rightarrow> bool) \<Rightarrow> tag_count list \<Rightarrow> tag_count list"
  ds_stat :: "string \<Rightarrow> bool"
  ds_text :: "request_error \<Rightarrow> string"
  ds_hash :: "string \<Rightarrow> string"
  ds_mint :: "'w \<Rightarrow> 'w \<times> (net_error + token_resp)"
  ds_tokens :: "'w \<Rightarrow> 'w \<times> (net_error + enroll_token list)"
  ds_revoke_token :: "string \<Rightarrow> 'w \<Rightarrow> 'w \<times> (net_error + unit)"
  ds_pid :: int
  ds_version :: string

text \<open>What the moment of a request supplies: the clock, the age of the process, a fresh record id, a fresh spool name
  and what the file system makes of it, and the order in which a cycle visits its hosts.\<close>

record moment =
  mo_now :: int
  mo_uptime :: int
  mo_fresh :: string
  mo_base :: string
  mo_fault :: "append_fault option"
  mo_order :: "string list"

definition nudge :: "bool \<Rightarrow> bool" where "nudge ch = True"

definition map_node :: "(('w, 'b, 'r, 'c) node \<Rightarrow> ('w, 'b, 'r, 'c) node) \<Rightarrow> ('w, 'b, 'r, 'c) site \<Rightarrow> ('w, 'b, 'r, 'c) site" where
  "map_node f s = s\<lparr>si_node := f (si_node s)\<rparr>"


section \<open>Hosts\<close>

definition merge_host_counts :: "string \<Rightarrow> host_count list \<Rightarrow> host_count list \<Rightarrow> host_count list" where
  "merge_host_counts here local remote =
    (case List.find (\<lambda>c. hc_hostname c = here) local of None \<Rightarrow> [] | Some c \<Rightarrow> [c]) @
    stable_sort (\<lambda>a b. hc_count a > hc_count b)
      (filter (\<lambda>c. hc_hostname c \<noteq> here) local @ filter (\<lambda>c. hc_hostname c \<noteq> here) remote)"

definition daemon_hosts :: "('w, 'b, 'r, 'c) node \<Rightarrow> hosts_info" where
  "daemon_hosts n =
    \<lparr>hn_hosts = merge_host_counts (st_hostname (dm_store (nd_daemon n))) (count_hosts (dm_corpus (nd_daemon n)))
       (remote_host_counts n),
     hn_remote = remote_info_of n\<rparr>"

definition daemon_status :: "('w, 'b, 'p, 'r, 'c) setting \<Rightarrow> int \<Rightarrow> ('w, 'b, 'r, 'c) node \<Rightarrow> status_resp" where
  "daemon_status E uptime n =
    \<lparr>ss_pid = ds_pid E, ss_uptime = uptime, ss_rows = length (dm_corpus (nd_daemon n)), ss_remote = remote_info_of n,
     ss_version = ds_version E\<rparr>"


section \<open>Devices and tokens\<close>

definition net_call ::
  "('w \<Rightarrow> 'w \<times> (net_error + 'a)) \<Rightarrow> ('w, 'b, 'r, 'c) node \<Rightarrow> ('w, 'b, 'r, 'c) node \<times> (remote_error + 'a)" where
  "net_call f n =
    (if nd_sync n = None then (n, Inl SyncOff)
     else case f (nd_world n) of
       (w, Inl e) \<Rightarrow> (n\<lparr>nd_world := w\<rparr>, Inl (SyncFailed (Net e)))
     | (w, Inr x) \<Rightarrow> (n\<lparr>nd_world := w\<rparr>, Inr x))"

definition device_row :: "(string \<Rightarrow> string) \<Rightarrow> string \<Rightarrow> device \<Rightarrow> device_info" where
  "device_row H self d =
    \<lparr>dn_id = dv_id d, dn_name = dv_name d, dn_status = dv_status d,
     dn_code = (if dv_status d = device_pending
       then (case public_from_bytes (dv_pub_key d) of Inl _ \<Rightarrow> [] | Inr pub \<Rightarrow> verification_code H pub) else []),
     dn_self = (dv_id d = self)\<rparr>"

definition daemon_devices ::
  "('w, 'b, 'p, 'r, 'c) setting \<Rightarrow> ('w, 'b, 'r, 'c) node \<Rightarrow> ('w, 'b, 'r, 'c) node \<times> (remote_error + device_info list)" where
  "daemon_devices E n =
    (case net_call (ap_devices (ge_api (ds_gear E))) n of
       (n', Inl e) \<Rightarrow> (n', Inl e)
     | (n', Inr devs) \<Rightarrow> (n', Inr (map (device_row (ds_hash E) (sy_device (the (nd_sync n)))) devs)))"

text \<open>\<open>deviceOp\<close>; \<^const>\<open>None\<close> when the bound on the pages of a rotation runs out.\<close>

definition device_op ::
  "('w, 'b, 'p, 'r, 'c) setting \<Rightarrow> string \<Rightarrow> bool \<Rightarrow> ('w, 'b, 'r, 'c) node
    \<Rightarrow> ('w, 'b, 'r, 'c) node \<times> (remote_error + unit) option" where
  "device_op E i yes n =
    (let G = ds_gear E in
     case nd_sync n of
       None \<Rightarrow> (n, Some (Inl SyncOff))
     | Some sy \<Rightarrow>
         if i = [] then (n, Some (Inl EmptyDevice))
         else if yes
         then (case approve (ge_box G) (ge_api G) i (rig_of n sy) of
                 (g, Inl e) \<Rightarrow> (put_rig g n, Some (Inl (SyncFailed e)))
               | (g, Inr _) \<Rightarrow> (put_rig g n, Some (Inr ())))
         else (case revoke (ge_fuel G) (ge_box G) (ge_api G) i (rig_of n sy) of
                 (g, None) \<Rightarrow> (put_rig g n, None)
               | (g, Some (Inl e)) \<Rightarrow> (put_rig g n, Some (Inl (SyncFailed e)))
               | (g, Some (Inr _)) \<Rightarrow> (put_rig g n, Some (Inr ()))))"

definition daemon_mint ::
  "('w, 'b, 'p, 'r, 'c) setting \<Rightarrow> ('w, 'b, 'r, 'c) node \<Rightarrow> ('w, 'b, 'r, 'c) node \<times> (remote_error + token_info)" where
  "daemon_mint E n =
    (case net_call (ds_mint E) n of
       (n', Inl e) \<Rightarrow> (n', Inl e)
     | (n', Inr t) \<Rightarrow> (n', Inr \<lparr>tki_token = tr_token t, tki_expires_ms = tr_expires_ms t\<rparr>))"

definition token_row_of :: "enroll_token \<Rightarrow> token_row" where
  "token_row_of t =
    \<lparr>tw_id = et_id t, tw_state = et_state t, tw_created_ms = et_created_ms t, tw_expires_ms = et_expires_ms t,
     tw_claimed_ms = et_claimed_ms t, tw_claimed_by = et_claimed_by t, tw_revoked_ms = et_revoked_ms t\<rparr>"

definition daemon_tokens ::
  "('w, 'b, 'p, 'r, 'c) setting \<Rightarrow> ('w, 'b, 'r, 'c) node \<Rightarrow> ('w, 'b, 'r, 'c) node \<times> (remote_error + token_row list)" where
  "daemon_tokens E n =
    (case net_call (ds_tokens E) n of
       (n', Inl e) \<Rightarrow> (n', Inl e)
     | (n', Inr ts) \<Rightarrow> (n', Inr (map token_row_of ts)))"

definition daemon_revoke_token ::
  "('w, 'b, 'p, 'r, 'c) setting \<Rightarrow> string \<Rightarrow> ('w, 'b, 'r, 'c) node \<Rightarrow> ('w, 'b, 'r, 'c) node \<times> (remote_error + unit)" where
  "daemon_revoke_token E i n =
    (if nd_sync n = None then (n, Inl SyncOff)
     else if i = [] then (n, Inl EmptyToken)
     else net_call (ds_revoke_token E i) n)"


section \<open>Requests\<close>

text \<open>An answer, whether the daemon is to stop, and the connection's filter; \<^term>\<open>Inl\<close> when there is no answer.\<close>

definition answer_with ::
  "('w, 'b, 'p, 'r, 'c) setting \<Rightarrow> string \<Rightarrow> ('a \<Rightarrow> sock_response) \<Rightarrow> ('w, 'b, 'r, 'c) site
    \<Rightarrow> ('w, 'b, 'r, 'c) node \<times> (remote_error + 'a) \<Rightarrow> ('w, 'b, 'r, 'c) site \<times> (no_answer + sock_response \<times> bool)" where
  "answer_with E pre ok s out =
    (case out of
       (n, Inl e) \<Rightarrow> (s\<lparr>si_node := n\<rparr>, Inr (RespErr (pre @ ds_text E (NodeErr e)), False))
     | (n, Inr x) \<Rightarrow> (s\<lparr>si_node := n\<rparr>, Inr (ok x, False)))"

definition answer_slow ::
  "('w, 'b, 'p, 'r, 'c) setting \<Rightarrow> string \<Rightarrow> ('w, 'b, 'r, 'c) site
    \<Rightarrow> ('w, 'b, 'r, 'c) node \<times> (remote_error + unit) option \<Rightarrow> ('w, 'b, 'r, 'c) site \<times> (no_answer + sock_response \<times> bool)" where
  "answer_slow E pre s out =
    (case out of
       (n, None) \<Rightarrow> (s\<lparr>si_node := n\<rparr>, Inl Hangs)
     | (n, Some r) \<Rightarrow> answer_with E pre (\<lambda>_. RespOk) s (n, r))"

text \<open>\<open>OpRecord\<close>, \<open>OpQuery\<close>, \<open>OpDelete\<close>, \<open>OpTags\<close>.\<close>

definition op_record_on ::
  "('w, 'b, 'p, 'r, 'c) setting \<Rightarrow> moment \<Rightarrow> hrec option \<Rightarrow> ('w, 'b, 'r, 'c) site
    \<Rightarrow> ('w, 'b, 'r, 'c) site \<times> (no_answer + sock_response \<times> bool)" where
  "op_record_on E m r s =
    (case r of
       None \<Rightarrow> (s, Inr (RespErr ''record: nil record'', False))
     | Some r \<Rightarrow>
         (case spool_append (mo_fault m) (mo_now m div 1000) (mo_base m) r (dm_spool (nd_daemon (si_node s))) of
            (sp, Some e) \<Rightarrow> (s, Inr (RespErr (''record: '' @ ds_text E (SpoolErr e)), False))
          | (sp, None) \<Rightarrow>
              ((map_node (\<lambda>n. n\<lparr>nd_daemon := (nd_daemon n)\<lparr>dm_spool := sp\<rparr>\<rparr>) s)\<lparr>si_wake := nudge (si_wake s)\<rparr>,
               Inr (RespOk, False))))"

definition op_query_on ::
  "('w, 'b, 'p, 'r, 'c) setting \<Rightarrow> moment \<Rightarrow> query_req option \<Rightarrow> mfilter \<Rightarrow> ('w, 'b, 'r, 'c) site
    \<Rightarrow> mfilter \<times> ('w, 'b, 'r, 'c) site \<times> (no_answer + sock_response \<times> bool)" where
  "op_query_on E m q f s =
    (case q of
       None \<Rightarrow> (f, s, Inr (RespErr ''query: nil query'', False))
     | Some q \<Rightarrow>
         let s' = s\<lparr>si_sync_wake := (if query_nudges q (si_node s) then nudge (si_sync_wake s) else si_sync_wake s)\<rparr>
         in (case run_query (ds_sort E) (ge_tables (ds_gear E)) (ds_stat E) (mo_now m) f q (si_node s) of
               (f', Inl x) \<Rightarrow> (f', s', Inl x)
             | (f', Inr resp) \<Rightarrow> (f', s', Inr (RespQuery resp, False))))"

definition op_delete_on ::
  "('w, 'b, 'p, 'r, 'c) setting \<Rightarrow> moment \<Rightarrow> string \<Rightarrow> ('w, 'b, 'r, 'c) site
    \<Rightarrow> ('w, 'b, 'r, 'c) site \<times> (no_answer + sock_response \<times> bool)" where
  "op_delete_on E m i s =
    (if i = [] then (s, Inr (RespErr ''delete: empty id'', False))
     else case delete_record (ge_hist (ds_gear E)) (mo_now m) (mo_fresh m) i (nd_daemon (si_node s)) of
       (d, Some e) \<Rightarrow> (map_node (\<lambda>n. n\<lparr>nd_daemon := d\<rparr>) s, Inr (RespErr (''delete: '' @ ds_text E (StoreErr e)), False))
     | (d, None) \<Rightarrow> (map_node (\<lambda>n. n\<lparr>nd_daemon := d\<rparr>) s, Inr (RespOk, False)))"

definition op_tags_on ::
  "('w, 'b, 'p, 'r, 'c) setting \<Rightarrow> string option \<Rightarrow> ('w, 'b, 'r, 'c) site \<Rightarrow> sock_response" where
  "op_tags_on E t s =
    (let scope = (case t of None \<Rightarrow> scope_local | Some sc \<Rightarrow> if sc = [] then scope_local else sc);
         U = ge_tables (ds_gear E); n = si_node s
     in RespTags \<lparr>ts_tags = tag_list (ds_tag_sort E) U (dm_tags (nd_daemon n)) (tag_corpus U scope n), ts_scope = scope\<rparr>)"

definition dispatch ::
  "('w, 'b, 'p, 'r, 'c) setting \<Rightarrow> moment \<Rightarrow> sock_request \<Rightarrow> mfilter \<Rightarrow> ('w, 'b, 'r, 'c) site
    \<Rightarrow> mfilter \<times> ('w, 'b, 'r, 'c) site \<times> (no_answer + sock_response \<times> bool)" where
  "dispatch E m rq f s =
    (let op = rq_op rq; n = si_node s in
     if op = op_ping then (f, s\<lparr>si_wake := nudge (si_wake s)\<rparr>, Inr (RespOk, False))
     else if op = op_record then (f, op_record_on E m (rq_record rq) s)
     else if op = op_query then op_query_on E m (rq_query rq) f s
     else if op = op_hosts
     then (f, s\<lparr>si_sync_wake := (if node_enabled n then nudge (si_sync_wake s) else si_sync_wake s)\<rparr>,
           Inr (RespHosts (daemon_hosts n), False))
     else if op = op_delete then (f, op_delete_on E m (rq_delete_id rq) s)
     else if op = op_devices then (f, answer_with E ''devices: '' RespDevices s (daemon_devices E n))
     else if op = op_approve then (f, answer_slow E ''approve: '' s (device_op E (rq_device_id rq) True n))
     else if op = op_revoke then (f, answer_slow E ''revoke: '' s (device_op E (rq_device_id rq) False n))
     else if op = op_token then (f, answer_with E ''token: '' RespToken s (daemon_mint E n))
     else if op = op_tokens then (f, answer_with E ''tokens: '' RespTokens s (daemon_tokens E n))
     else if op = op_revoke_tk
     then (f, answer_with E ''revoke token: '' (\<lambda>_. RespOk) s (daemon_revoke_token E (rq_token_id rq) n))
     else if op = op_status then (f, s, Inr (RespStatus (daemon_status E (mo_uptime m) n), False))
     else if op = op_tags then (f, s, Inr (op_tags_on E (rq_tags rq) s, False))
     else if op = op_sync
     then (f, if node_enabled n then answer_slow E [] s (do_sync (ds_gear E) (mo_order m) (mo_now m) n)
              else (s, Inr (RespOk, False)))
     else if op = op_shutdown then (f, s, Inr (RespOk, True))
     else (f, s, Inr (RespErr (''unknown op: '' @ op), False)))"

text \<open>\<open>handle\<close>: the requests of a connection in order. The connection ends with them, or with a shutdown; a panic
  takes the process with it.\<close>

fun handle ::
  "('w, 'b, 'p, 'r, 'c) setting \<Rightarrow> (moment \<times> sock_request) list \<Rightarrow> mfilter \<Rightarrow> ('w, 'b, 'r, 'c) site
    \<Rightarrow> ('w, 'b, 'r, 'c) site \<times> sock_response list \<times> no_answer option" where
  "handle E [] f s = (s, [], None)"
| "handle E ((m, rq) # rest) f s =
    (case dispatch E m rq f (s\<lparr>si_activity := nudge (si_activity s)\<rparr>) of
       (f', s', Inl x) \<Rightarrow> (s', [], Some x)
     | (f', s', Inr (resp, stop)) \<Rightarrow>
         if stop then (s'\<lparr>si_stop := nudge (si_stop s')\<rparr>, [resp], None)
         else (case handle E rest f' s' of (s'', resps, x) \<Rightarrow> (s'', resp # resps, x)))"


section \<open>The client\<close>

text \<open>How one exchange on a connection ends: answered; or lost before the daemon read it, or after it served it.\<close>

datatype conn_error = ConnEOF | ConnUnexpectedEOF | ConnClosed | ConnPipe | ConnReset | ConnDeadline | ConnGarbage

datatype reply_fate = Answered | LostBefore conn_error | LostAfter conn_error

definition lost_conn :: "conn_error \<Rightarrow> bool" where
  "lost_conn e \<longleftrightarrow> (case e of ConnDeadline \<Rightarrow> False | ConnGarbage \<Rightarrow> False | _ \<Rightarrow> True)"

definition resumable :: "string \<Rightarrow> bool" where
  "resumable op \<longleftrightarrow> \<not> (op = op_token \<or> op = op_shutdown)"

definition exchange :: "reply_fate \<Rightarrow> (sock_request \<Rightarrow> 's \<Rightarrow> 's \<times> sock_response) \<Rightarrow> sock_request \<Rightarrow> 's \<Rightarrow> 's \<times> (conn_error + sock_response)" where
  "exchange ft srv rq s =
    (case ft of
       Answered \<Rightarrow> (case srv rq s of (s', resp) \<Rightarrow> (s', Inr resp))
     | LostBefore e \<Rightarrow> (s, Inl e)
     | LostAfter e \<Rightarrow> (fst (srv rq s), Inl e))"

text \<open>\<open>roundtrip\<close>; \<open>again\<close> says whether \<open>reconnect\<close> succeeds.\<close>

definition roundtrip ::
  "reply_fate \<Rightarrow> bool \<Rightarrow> reply_fate \<Rightarrow> (sock_request \<Rightarrow> 's \<Rightarrow> 's \<times> sock_response) \<Rightarrow> sock_request \<Rightarrow> 's \<Rightarrow> 's \<times> (conn_error + sock_response)" where
  "roundtrip ft1 again ft2 srv rq s =
    (case exchange ft1 srv rq s of
       (s', Inr resp) \<Rightarrow> (s', Inr resp)
     | (s', Inl e) \<Rightarrow>
         if \<not> lost_conn e \<or> \<not> resumable (rq_op rq) then (s', Inl e)
         else if again then exchange ft2 srv rq s' else (s', Inl e))"

datatype client_error = ConnFailed conn_error | DaemonSaid string | MissingBody

definition resp_err :: "sock_response \<Rightarrow> client_error option" where
  "resp_err resp =
    (case resp of
       RespErr e \<Rightarrow> Some (DaemonSaid (if e \<noteq> [] then ''daemon: '' @ e else ''daemon: request failed''))
     | _ \<Rightarrow> None)"

definition client_result :: "(sock_response \<Rightarrow> 'a option) \<Rightarrow> conn_error + sock_response \<Rightarrow> client_error + 'a" where
  "client_result body r =
    (case r of
       Inl e \<Rightarrow> Inl (ConnFailed e)
     | Inr resp \<Rightarrow>
         (case resp_err resp of
            Some e \<Rightarrow> Inl e
          | None \<Rightarrow> (case body resp of None \<Rightarrow> Inl MissingBody | Some x \<Rightarrow> Inr x)))"

definition body_query :: "sock_response \<Rightarrow> query_resp option" where
  "body_query resp = (case resp of RespQuery q \<Rightarrow> Some q | _ \<Rightarrow> None)"
definition body_tags :: "sock_response \<Rightarrow> tags_info option" where
  "body_tags resp = (case resp of RespTags t \<Rightarrow> Some t | _ \<Rightarrow> None)"
definition body_status :: "sock_response \<Rightarrow> status_resp option" where
  "body_status resp = (case resp of RespStatus t \<Rightarrow> Some t | _ \<Rightarrow> None)"
definition body_hosts :: "sock_response \<Rightarrow> hosts_info option" where
  "body_hosts resp = (case resp of RespHosts t \<Rightarrow> Some t | _ \<Rightarrow> None)"
definition body_devices :: "sock_response \<Rightarrow> device_info list option" where
  "body_devices resp = (case resp of RespDevices t \<Rightarrow> Some t | _ \<Rightarrow> None)"
definition body_token :: "sock_response \<Rightarrow> token_info option" where
  "body_token resp = (case resp of RespToken t \<Rightarrow> Some t | _ \<Rightarrow> None)"
definition body_tokens :: "sock_response \<Rightarrow> token_row list option" where
  "body_tokens resp = (case resp of RespTokens t \<Rightarrow> Some t | _ \<Rightarrow> None)"
definition body_none :: "sock_response \<Rightarrow> unit option" where
  "body_none resp = Some ()"

text \<open>The loop of \<open>EnsureRunning\<close>: \<open>dial t\<close> is a connection attempt at time \<open>t\<close> in milliseconds, and how long it
  took. The value is the time it ended and whether there is a connection.\<close>

partial_function (option) dial_loop :: "(int \<Rightarrow> nat \<times> bool) \<Rightarrow> int \<Rightarrow> int \<Rightarrow> int \<Rightarrow> (int \<times> bool) option" where
  "dial_loop dial deadline now backoff =
    (case dial (now + backoff) of (took, ok) \<Rightarrow>
       let t = now + backoff + int took
       in if ok then Some (t, True)
          else if \<not> t < deadline then Some (t, False)
          else dial_loop dial deadline t (if backoff < 200 then backoff * 2 else backoff))"

definition ensure_running :: "(int \<Rightarrow> nat \<times> bool) \<Rightarrow> int \<Rightarrow> (int \<times> bool) option" where
  "ensure_running dial now =
    (case dial now of (took, ok) \<Rightarrow>
       if ok then Some (now + int took, True) else dial_loop dial (now + int took + 2500) (now + int took) 25)"


section \<open>Answers fit their requests\<close>

definition reply_fits :: "string \<Rightarrow> sock_response \<Rightarrow> bool" where
  "reply_fits op resp =
    (case resp of
       RespErr _ \<Rightarrow> True
     | RespOk \<Rightarrow> op \<in> {op_ping, op_record, op_delete, op_approve, op_revoke, op_revoke_tk, op_sync, op_shutdown}
     | RespQuery _ \<Rightarrow> op = op_query | RespHosts _ \<Rightarrow> op = op_hosts | RespDevices _ \<Rightarrow> op = op_devices
     | RespToken _ \<Rightarrow> op = op_token | RespTokens _ \<Rightarrow> op = op_tokens | RespStatus _ \<Rightarrow> op = op_status
     | RespTags _ \<Rightarrow> op = op_tags)"

lemmas ops = op_ping_def op_record_def op_query_def op_hosts_def op_delete_def op_devices_def op_approve_def op_revoke_def
  op_token_def op_tokens_def op_revoke_tk_def op_status_def op_sync_def op_tags_def op_shutdown_def

text \<open>What a handler gives back fits the request \<open>op\<close>, and stops the daemon only for a shutdown.\<close>

definition fits :: "string \<Rightarrow> 's \<times> ('x + sock_response \<times> bool) \<Rightarrow> bool" where
  "fits op out \<longleftrightarrow> (\<forall>resp stop. snd out = Inr (resp, stop) \<longrightarrow> reply_fits op resp \<and> (stop \<longleftrightarrow> op = op_shutdown))"

lemma fits_given: "reply_fits op resp \<Longrightarrow> stop = (op = op_shutdown) \<Longrightarrow> fits op (s, Inr (resp, stop))"
  by (simp add: fits_def)

lemma fits_answer:
  "op \<noteq> op_shutdown \<Longrightarrow> (\<And>x. reply_fits op (ok x)) \<Longrightarrow> fits op (answer_with E pre ok s out)"
  by (auto simp: fits_def answer_with_def reply_fits_def split: prod.splits sum.splits)

lemma fits_slow: "op \<in> {op_approve, op_revoke, op_sync} \<Longrightarrow> fits op (answer_slow E pre s out)"
  by (auto simp: fits_def answer_slow_def answer_with_def reply_fits_def ops split: prod.splits sum.splits option.splits)

lemma fits_record: "fits op_record (op_record_on E m r s)"
  by (auto simp: fits_def op_record_on_def reply_fits_def ops split: option.splits prod.splits)

lemma fits_query: "fits op_query (snd (op_query_on E m q f s))"
  by (auto simp: fits_def op_query_on_def reply_fits_def ops Let_def split: option.splits prod.splits sum.splits)

lemma fits_delete: "fits op_delete (op_delete_on E m i s)"
  by (auto simp: fits_def op_delete_on_def reply_fits_def ops split: option.splits prod.splits)

lemma fits_dispatch: "fits (rq_op rq) (snd (dispatch E m rq f s))"
proof -
  have k: "fits op (s', Inr (resp, False))" if "op \<noteq> op_shutdown" "reply_fits op resp" for op s' resp
    using that by (simp add: fits_given)
  consider "rq_op rq \<in> {op_ping, op_hosts, op_status, op_tags, op_shutdown}" | "rq_op rq \<in> {op_record, op_query, op_delete}"
    | "rq_op rq \<in> {op_devices, op_token, op_tokens, op_revoke_tk}" | "rq_op rq \<in> {op_approve, op_revoke, op_sync}"
    | "rq_op rq \<notin> {op_ping, op_hosts, op_status, op_tags, op_shutdown, op_record, op_query, op_delete, op_devices, op_token,
        op_tokens, op_revoke_tk, op_approve, op_revoke, op_sync}"
    by blast
  then show ?thesis
  proof cases
    case 1
    then show ?thesis by (elim insertE emptyE) (simp_all add: dispatch_def fits_def reply_fits_def op_tags_on_def Let_def ops)
  next
    case 2
    then show ?thesis
      using fits_record [of E m "rq_record rq" s] fits_query [of E m "rq_query rq" f s] fits_delete [of E m "rq_delete_id rq" s]
      by (elim insertE emptyE) (simp_all add: dispatch_def Let_def ops)
  next
    case 3
    then show ?thesis
      by (elim insertE emptyE; simp add: dispatch_def Let_def ops) (rule fits_answer; simp add: reply_fits_def ops)+
  next
    case 4
    then show ?thesis
      using fits_slow [of "rq_op rq" E] by (elim insertE emptyE; simp add: dispatch_def Let_def ops fits_given reply_fits_def)
  next
    case 5
    then show ?thesis by (simp add: dispatch_def Let_def fits_def reply_fits_def)
  qed
qed




section \<open>The list of hosts\<close>

lemma count_by: "distinct hs \<Longrightarrow> sum_list (map (\<lambda>h. length (filter (\<lambda>r. g r = h) rs)) hs) = length (filter (\<lambda>r. g r \<in> set hs) rs)"
proof (induction hs)
  case (Cons h hs)
  have "length (filter (\<lambda>r. g r = h) rs) + length (filter (\<lambda>r. g r \<in> set hs) rs) = length (filter (\<lambda>r. g r \<in> set (h # hs)) rs)"
    using Cons.prems by (induction rs) auto
  with Cons show ?case by simp
qed simp

lemma count_hosts_names:
  "map hc_hostname (count_hosts recs) = rev (remdups (rev (map r_hostname recs)))"
  "distinct (map hc_hostname (count_hosts recs))" "set (map hc_hostname (count_hosts recs)) = r_hostname ` set recs"
  by (simp_all add: count_hosts_def comp_def)

lemma count_hosts_elem: "c \<in> set (count_hosts recs) \<Longrightarrow> hc_count c = length (filter (\<lambda>r. r_hostname r = hc_hostname c) recs)"
  by (auto simp: count_hosts_def)

lemma count_hosts_sum:
  "sum_list (map hc_count (filter (\<lambda>c. P (hc_hostname c)) (count_hosts recs))) = length (filter (\<lambda>r. P (r_hostname r)) recs)"
proof -
  let ?cs = "filter (\<lambda>c. P (hc_hostname c)) (count_hosts recs)"
  have d: "distinct (map hc_hostname ?cs)" using count_hosts_names(2) [of recs] by (rule distinct_map_filter)
  have "map hc_count ?cs = map (\<lambda>h. length (filter (\<lambda>r. r_hostname r = h) recs)) (map hc_hostname ?cs)"
    using count_hosts_elem by (auto simp: comp_def)
  then have "sum_list (map hc_count ?cs) = length (filter (\<lambda>r. r_hostname r \<in> set (map hc_hostname ?cs)) recs)"
    using count_by [OF d, of r_hostname recs] by (simp only:)
  moreover have "filter (\<lambda>r. r_hostname r \<in> set (map hc_hostname ?cs)) recs = filter (\<lambda>r. P (r_hostname r)) recs"
  proof (rule filter_cong [OF refl])
    fix r assume "r \<in> set recs"
    then have "r_hostname r \<in> set (map hc_hostname (count_hosts recs))" by (simp add: count_hosts_names(3) del: set_map)
    then show "(r_hostname r \<in> set (map hc_hostname ?cs)) = P (r_hostname r)" by auto
  qed
  ultimately show ?thesis by simp
qed

lemma filter_unique: "distinct (map g xs) \<Longrightarrow> filter (\<lambda>x. g x = a) xs = (case List.find (\<lambda>x. g x = a) xs of None \<Rightarrow> [] | Some x \<Rightarrow> [x])"
proof (induction xs)
  case (Cons x xs)
  have IH: "filter (\<lambda>x. g x = a) xs = (case List.find (\<lambda>x. g x = a) xs of None \<Rightarrow> [] | Some x \<Rightarrow> [x])"
    using Cons by simp
  have "filter (\<lambda>y. g y = g x) xs = []" using Cons.prems by (auto simp: filter_empty_conv image_iff)
  then show ?case using IH by auto
qed simp

lemma count_split:
  "length (filter P xs) + length (filter (\<lambda>x. \<not> P x) xs) = length xs"
  by (simp add: sum_length_filter_compl)

text \<open>The list of hosts accounts for every row it can see: the counts add up to the rows of the corpus and the
  cached rows of machines with another name; the machine itself is listed once, first, and only if it has rows; the
  others follow by descending count.\<close>

theorem hosts_account:
  "let hosts = hn_hosts (daemon_hosts n); here = st_hostname (dm_store (nd_daemon n)); rows = dm_corpus (nd_daemon n);
       own = takeWhile (\<lambda>c. hc_hostname c = here) hosts
   in sum_list (map hc_count hosts) = length rows + length (filter (\<lambda>r. r_hostname r \<noteq> here) (nd_records n)) \<and>
      length own = (if here \<in> r_hostname ` set rows then 1 else 0) \<and>
      here \<notin> hc_hostname ` set (drop (length own) hosts) \<and>
      sorted_wrt (\<lambda>a b. hc_count b \<le> hc_count a) (drop (length own) hosts)"
proof -
  define here where "here = st_hostname (dm_store (nd_daemon n))"
  define rows where "rows = dm_corpus (nd_daemon n)"
  define cs where "cs = count_hosts rows"
  define ds where "ds = count_hosts (nd_records n)"
  define others where "others = filter (\<lambda>c. hc_hostname c \<noteq> here) cs @ filter (\<lambda>c. hc_hostname c \<noteq> here) ds"
  define tail where "tail = stable_sort (\<lambda>a b. hc_count a > hc_count b) others"
  define me where "me = filter (\<lambda>c. hc_hostname c = here) cs"
  have hosts: "hn_hosts (daemon_hosts n) = me @ tail"
    using filter_unique [OF count_hosts_names(2) [of rows], of here]
    by (simp add: daemon_hosts_def merge_host_counts_def remote_host_counts_def me_def tail_def others_def cs_def ds_def
        here_def rows_def)
  have tm: "mset tail = mset others" unfolding tail_def by (rule mset_stable_sort)
  have ts: "set tail = set others" using tm by (metis set_mset_mset)
  have out: "here \<notin> hc_hostname ` set tail" unfolding ts others_def by auto
  have me_here: "\<forall>c \<in> set me. hc_hostname c = here" by (simp add: me_def)
  have me_len: "length me = (if here \<in> r_hostname ` set rows then 1 else 0)"
  proof -
    have "me = (case List.find (\<lambda>c. hc_hostname c = here) cs of None \<Rightarrow> [] | Some c \<Rightarrow> [c])"
      unfolding me_def cs_def by (rule filter_unique) (rule count_hosts_names(2))
    moreover have "(List.find (\<lambda>c. hc_hostname c = here) cs = None) = (here \<notin> hc_hostname ` set cs)"
      by (simp add: find_None_iff image_iff) blast
    moreover have "hc_hostname ` set cs = r_hostname ` set rows" using count_hosts_names(3) [of rows] by (simp add: cs_def)
    ultimately show ?thesis by (cases "List.find (\<lambda>c. hc_hostname c = here) cs") simp_all
  qed
  have take: "takeWhile (\<lambda>c. hc_hostname c = here) (me @ tail) = me"
    using me_here out by (cases tail) (auto simp: takeWhile_append)
  have "sum_list (map hc_count tail) = sum_list (map hc_count others)" using tm by (metis mset_map sum_mset_sum_list)
  then have "sum_list (map hc_count (me @ tail)) =
      length (filter (\<lambda>r. r_hostname r = here) rows) + length (filter (\<lambda>r. r_hostname r \<noteq> here) rows) +
      length (filter (\<lambda>r. r_hostname r \<noteq> here) (nd_records n))"
    using count_hosts_sum [of "\<lambda>h. h = here" rows] count_hosts_sum [of "\<lambda>h. h \<noteq> here" rows]
      count_hosts_sum [of "\<lambda>h. h \<noteq> here" "nd_records n"]
    by (simp add: me_def others_def cs_def ds_def)
  then have sum: "sum_list (map hc_count (me @ tail)) = length rows + length (filter (\<lambda>r. r_hostname r \<noteq> here) (nd_records n))"
    using count_split [of "\<lambda>r. r_hostname r = here" rows] by simp
  have "strict_weak (\<lambda>a b. hc_count a > hc_count b)" by (auto simp: strict_weak_def)
  from stable_sort_ordered [OF this, of others] have "sorted_wrt (\<lambda>a b. hc_count b \<le> hc_count a) tail"
    by (simp add: tail_def not_less)
  with sum me_len out show ?thesis
    unfolding Let_def hosts here_def [symmetric] rows_def [symmetric] take by simp
qed


section \<open>The client\<close>


lemma dial_loop_step:
  "dial_loop dial deadline now backoff =
    (let took = fst (dial (now + backoff)); t = now + backoff + int took
     in if snd (dial (now + backoff)) then Some (t, True)
        else if \<not> t < deadline then Some (t, False)
        else dial_loop dial deadline t (if backoff < 200 then backoff * 2 else backoff))"
  by (subst dial_loop.simps) (simp add: Let_def split: prod.splits)

lemma dial_loop_ends:
  "0 < backoff \<Longrightarrow> backoff < 400 \<Longrightarrow> (\<And>t. fst (dial t) \<le> 100) \<Longrightarrow> now < deadline \<Longrightarrow>
    \<exists>t ok. dial_loop dial deadline now backoff = Some (t, ok) \<and> now < t \<and> t < deadline + 500 \<and> (\<not> ok \<longrightarrow> deadline \<le> t)"
proof (induction "nat (deadline - now)" arbitrary: now backoff rule: less_induct)
  case less
  define t where "t = now + backoff + int (fst (dial (now + backoff)))"
  have t: "now < t" "t < deadline + 500" using less.prems(1,2,4) less.prems(3) [of "now + backoff"] by (simp_all add: t_def)
  note step = dial_loop_step [of dial deadline now backoff, unfolded Let_def, folded t_def]
  consider "snd (dial (now + backoff))" | "\<not> snd (dial (now + backoff))" "\<not> t < deadline"
    | "\<not> snd (dial (now + backoff))" "t < deadline" by blast
  then show ?case
  proof cases
    case 3
    let ?b = "if backoff < 200 then backoff * 2 else backoff"
    have "nat (deadline - t) < nat (deadline - now)" "0 < ?b" "?b < 400" using t(1) 3(2) less.prems(1,2) by auto
    from less.hyps [OF this(1,2,3) less.prems(3) 3(2)] step 3 t(1) show ?thesis by auto
  qed (use step t in auto)
qed

text \<open>C39 Waiting for a daemon ends. When a connection attempt takes at most its hundred milliseconds, the search for a
  running daemon returns: with a connection, or, having tried for two and a half seconds, without one; and it never
  takes much longer.\<close>

theorem ensure_running_ends:
  assumes "\<And>t. fst (dial t) \<le> 100"
  shows "\<exists>t ok. ensure_running dial now = Some (t, ok) \<and> now \<le> t \<and> t < now + 3100 \<and> (ok \<or> now + 2500 \<le> t)"
proof (cases "snd (dial now)")
  case True
  then have "ensure_running dial now = Some (now + int (fst (dial now)), True)"
    by (cases "dial now") (simp add: ensure_running_def)
  with assms [of now] show ?thesis by auto
next
  case False
  let ?now = "now + int (fst (dial now))"
  have "ensure_running dial now = dial_loop dial (?now + 2500) ?now 25"
    using False by (cases "dial now") (simp add: ensure_running_def)
  moreover obtain t ok where "dial_loop dial (?now + 2500) ?now 25 = Some (t, ok)" "?now < t" "t < ?now + 2500 + 500"
      "\<not> ok \<longrightarrow> ?now + 2500 \<le> t"
    using dial_loop_ends [of 25 dial ?now "?now + 2500"] assms by auto
  ultimately show ?thesis using assms [of now] by (intro exI [of _ t] exI [of _ ok]) auto
qed

lemma ensure_running_ends_witness:
  "\<exists>t ok. ensure_running (\<lambda>t. (100, t > 60)) 0 = Some (t, ok) \<and> t < 3100"
  using ensure_running_ends [of "\<lambda>t. (100, t > 60)" 0] by auto

end
