(* ===== verification/Secret.thy ===== *)
theory Secret
  imports Cryptobox
begin

text \<open>
  \<open>internal/secret\<close>: where the device key is kept. The \<open>vault\<close> is the keyring of the operating system and the files
  of the state directory, with their permission bits. A call to the keyring works, is refused, or exceeds
  \<open>probeTimeout\<close>; then it is abandoned, and may have taken effect all the same.
\<close>

datatype secret_error = NotFound | RingTimeout | RingFailed | BadMode | FileFailed | KeyBad crypto_error

datatype backend = BackendKeyring | BackendFile

datatype ring_fate = RingWorks | RingSlow bool | RingRefuses

text \<open>A file operation works, or fails and leaves the file in some condition.\<close>

datatype file_fate = FileWorks | FileLeft "(string \<times> nat) option"

record vault =
  va_ring :: "string \<Rightarrow> string option"
  va_file :: "string \<Rightarrow> (string \<times> nat) option"

definition device_key_name :: string where "device_key_name = ''device.key''"

section \<open>The keyring\<close>

definition ring_get :: "ring_fate \<Rightarrow> string \<Rightarrow> vault \<Rightarrow> secret_error + string" where
  "ring_get ft name v =
    (case ft of
       RingWorks \<Rightarrow> (case va_ring v name of None \<Rightarrow> Inl NotFound | Some s \<Rightarrow> Inr s)
     | RingSlow _ \<Rightarrow> Inl RingTimeout
     | RingRefuses \<Rightarrow> Inl RingFailed)"

definition ring_set :: "ring_fate \<Rightarrow> string \<Rightarrow> string \<Rightarrow> vault \<Rightarrow> vault \<times> secret_error option" where
  "ring_set ft name s v =
    (let v' = v\<lparr>va_ring := (va_ring v)(name \<mapsto> s)\<rparr> in
     case ft of
       RingWorks \<Rightarrow> (v', None)
     | RingSlow late \<Rightarrow> (if late then v' else v, Some RingTimeout)
     | RingRefuses \<Rightarrow> (v, Some RingFailed))"

definition ring_delete :: "ring_fate \<Rightarrow> string \<Rightarrow> vault \<Rightarrow> vault \<times> secret_error option" where
  "ring_delete ft name v =
    (let v' = v\<lparr>va_ring := (va_ring v)(name := None)\<rparr> in
     case ft of
       RingWorks \<Rightarrow> (v', if va_ring v name = None then Some NotFound else None)
     | RingSlow late \<Rightarrow> (if late then v' else v, Some RingTimeout)
     | RingRefuses \<Rightarrow> (v, Some RingFailed))"

text \<open>\<open>keyringUsable\<close> stores a probe entry, reads it and deletes it.\<close>

definition keyring_usable :: "ring_fate \<Rightarrow> ring_fate \<Rightarrow> ring_fate \<Rightarrow> vault \<Rightarrow> vault \<times> bool" where
  "keyring_usable f1 f2 f3 v =
    (case ring_set f1 ''probe'' ''1'' v of
       (v1, Some _) \<Rightarrow> (v1, False)
     | (v1, None) \<Rightarrow> (fst (ring_delete f3 ''probe'' v1), ring_get f2 ''probe'' v1 = Inr ''1''))"

text \<open>\<open>Open\<close>: \<open>env\<close> is \<open>$YORE_SECRET_BACKEND\<close>, \<open>usable\<close> what the probe of this process found.\<close>

definition secret_open :: "unicode_tables \<Rightarrow> string \<Rightarrow> bool \<Rightarrow> backend" where
  "secret_open U env usable =
    (let e = str_lower U (trim_space env) in
     if e = ''file'' then BackendFile else if e = ''keyring'' then BackendKeyring
     else if usable then BackendKeyring else BackendFile)"


section \<open>The store\<close>

definition trim_eol :: "string \<Rightarrow> string" where
  "trim_eol s = rev (dropWhile (\<lambda>c. c = CHR 0x0D \<or> c = CHR 0x0A) (rev s))"

text \<open>\<open>readFile\<close>: \<open>Perm() & 0o077\<close> is the six lowest bits.\<close>

definition read_secret :: "string \<Rightarrow> vault \<Rightarrow> secret_error + string" where
  "read_secret name v =
    (case va_file v name of
       None \<Rightarrow> Inl NotFound
     | Some (s, mode) \<Rightarrow> if mode mod 64 \<noteq> 0 then Inl BadMode else Inr (trim_eol s))"

definition write_secret :: "file_fate \<Rightarrow> string \<Rightarrow> string \<Rightarrow> vault \<Rightarrow> vault \<times> secret_error option" where
  "write_secret ff name s v =
    (case ff of
       FileWorks \<Rightarrow> (v\<lparr>va_file := (va_file v)(name \<mapsto> (s @ [CHR 0x0A], 384))\<rparr>, None)
     | FileLeft x \<Rightarrow> (v\<lparr>va_file := (va_file v)(name := x)\<rparr>, Some FileFailed))"

text \<open>\<open>os.Remove\<close>, for which an absent file is no error.\<close>

definition remove_secret :: "file_fate \<Rightarrow> string \<Rightarrow> vault \<Rightarrow> vault \<times> secret_error option" where
  "remove_secret ff name v =
    (case ff of
       FileWorks \<Rightarrow> (v\<lparr>va_file := (va_file v)(name := None)\<rparr>, None)
     | FileLeft _ \<Rightarrow> (v, Some FileFailed))"

definition secret_get :: "backend \<Rightarrow> ring_fate \<Rightarrow> string \<Rightarrow> vault \<Rightarrow> secret_error + string" where
  "secret_get b rf name v =
    (if b = BackendKeyring
     then (case ring_get rf name v of
             Inr s \<Rightarrow> Inr s
           | Inl e \<Rightarrow> if e \<noteq> NotFound \<and> e \<noteq> RingTimeout then Inl e else read_secret name v)
     else read_secret name v)"

definition secret_set :: "backend \<Rightarrow> ring_fate \<Rightarrow> file_fate \<Rightarrow> string \<Rightarrow> string \<Rightarrow> vault \<Rightarrow> vault \<times> secret_error option" where
  "secret_set b rf ff name s v =
    (if b = BackendKeyring
     then (case ring_set rf name s v of
             (v1, Some e) \<Rightarrow> (v1, Some e)
           | (v1, None) \<Rightarrow> remove_secret ff name v1)
     else write_secret ff name s v)"

definition secret_delete :: "backend \<Rightarrow> ring_fate \<Rightarrow> file_fate \<Rightarrow> string \<Rightarrow> vault \<Rightarrow> vault \<times> secret_error option" where
  "secret_delete b rf ff name v =
    (let (v1, e1) = (if b = BackendKeyring then ring_delete rf name v else (v, None));
         first = (case e1 of Some e \<Rightarrow> if e \<noteq> NotFound \<and> e \<noteq> RingTimeout then Some e else None | None \<Rightarrow> None);
         (v2, e2) = remove_secret ff name v1
     in (v2, if first = None then e2 else first))"


section \<open>The device key\<close>

definition load_device_key :: "cbox \<Rightarrow> backend \<Rightarrow> ring_fate \<Rightarrow> vault \<Rightarrow> secret_error + device_key" where
  "load_device_key X b rf v =
    (case secret_get b rf device_key_name v of
       Inl e \<Rightarrow> Inl e
     | Inr s \<Rightarrow> (case parse_device_key X s of Inl e \<Rightarrow> Inl (KeyBad e) | Inr k \<Rightarrow> Inr k))"

definition save_device_key :: "backend \<Rightarrow> ring_fate \<Rightarrow> file_fate \<Rightarrow> device_key \<Rightarrow> vault \<Rightarrow> vault \<times> secret_error option" where
  "save_device_key b rf ff k v = secret_set b rf ff device_key_name (marshal_device_key k) v"

text \<open>\<open>EnsureDeviceKey\<close>; \<open>priv\<close> and \<open>seed\<close> are what \<open>crypto/rand\<close> gives.\<close>

definition ensure_device_key ::
  "cbox \<Rightarrow> backend \<Rightarrow> ring_fate \<Rightarrow> ring_fate \<Rightarrow> file_fate \<Rightarrow> string \<Rightarrow> string \<Rightarrow> vault \<Rightarrow> vault \<times> (secret_error + device_key)" where
  "ensure_device_key X b rf1 rf2 ff priv seed v =
    (case load_device_key X b rf1 v of
       Inr k \<Rightarrow> (v, Inr k)
     | Inl e \<Rightarrow>
         if e \<noteq> NotFound then (v, Inl e)
         else case generate_device_key X priv seed of
           Inl e \<Rightarrow> (v, Inl (KeyBad e))
         | Inr k \<Rightarrow>
             (case save_device_key b rf2 ff k v of
                (v', Some e) \<Rightarrow> (v', Inl e)
              | (v', None) \<Rightarrow> (v', Inr k)))"


section \<open>Properties\<close>

lemma trim_eol_plain: "list_all plain_byte s \<Longrightarrow> trim_eol (s @ [CHR 0x0A]) = s \<and> trim_eol s = s"
proof -
  assume s: "list_all plain_byte s"
  have "dropWhile (\<lambda>c. c = CHR 0x0D \<or> c = CHR 0x0A) (rev s) = rev s"
  proof (cases "rev s")
    case (Cons c cs)
    then have "c \<in> set s" by (metis list.set_intros(1) set_rev)
    with s have "plain_byte c" by (simp add: list_all_iff)
    then have "c \<noteq> CHR 0x0D \<and> c \<noteq> CHR 0x0A" by (auto simp: plain_byte_def ascii_byte_def byte_def rune_is_space_def)
    with Cons show ?thesis by simp
  qed simp
  then show ?thesis by (simp add: trim_eol_def)
qed


definition empty_vault :: vault where "empty_vault = \<lparr>va_ring = Map.empty, va_file = Map.empty\<rparr>"


text \<open>A slow keyring costs the machine its identity. While the keyring holds the device key and no file does, a read
  that times out is taken for a key that was never there: a new one is generated, and if the keyring has recovered by
  then, it overwrites the old.\<close>

theorem slow_keyring_replaces_key:
  assumes "va_ring v device_key_name = Some (marshal_device_key old)" and "va_file v device_key_name = None"
    and "generate_device_key X priv seed = Inr k"
  shows "case ensure_device_key X BackendKeyring (RingSlow late) RingWorks FileWorks priv seed v of
    (v', r) \<Rightarrow> r = Inr k \<and> va_ring v' device_key_name = Some (marshal_device_key k)"
  using assms
  by (simp add: ensure_device_key_def load_device_key_def secret_get_def ring_get_def read_secret_def save_device_key_def
      secret_set_def ring_set_def remove_secret_def)

definition old_key :: device_key where
  "old_key = \<lparr>kx_priv = replicate 32 CHR ''o'', kx_pub = [], kx_seed = [], kx_sign_priv = [], kx_sign_pub = []\<rparr>"

lemma slow_keyring_replaces_key_witness:
  "\<exists>k. snd (ensure_device_key demo_box BackendKeyring (RingSlow False) RingWorks FileWorks (replicate 32 CHR ''p'') (replicate 32 CHR ''s'')
    (empty_vault\<lparr>va_ring := [device_key_name \<mapsto> marshal_device_key old_key]\<rparr>)) = Inr k"
proof -
  obtain k where k: "generate_device_key demo_box (replicate 32 CHR ''p'') (replicate 32 CHR ''s'') = Inr k"
    by (simp add: generate_device_key_def demo_base)
  from slow_keyring_replaces_key [OF _ _ k, of "empty_vault\<lparr>va_ring := [device_key_name \<mapsto> marshal_device_key old_key]\<rparr>" old_key False]
  show ?thesis by (force simp: empty_vault_def split: prod.splits)
qed

text \<open>A deletion can leave the secret behind and say nothing. Without a keyring in this process the keyring's copy
  stays, and with one that does not answer in time it stays too; either way no error is reported.\<close>

theorem deleted_secret_survives:
  "(case secret_delete BackendFile rf FileWorks name v of (v', e) \<Rightarrow> e = None \<and> va_ring v' name = va_ring v name) \<and>
   (case secret_delete BackendKeyring (RingSlow False) FileWorks name v of
      (v', e) \<Rightarrow> e = None \<and> secret_get BackendKeyring RingWorks name v' =
        (case va_ring v name of None \<Rightarrow> Inl NotFound | Some s \<Rightarrow> Inr s))"
  by (simp add: secret_delete_def remove_secret_def ring_delete_def secret_get_def ring_get_def read_secret_def
      split: option.split)

end
