(* ===== verification/Config.thy ===== *)
theory Config
  imports Field_Codec "HOL-Library.AList"
begin

text \<open>
  \<open>internal/config\<close>: the settings of \<open>config.toml\<close>, and the one reader and writer of its keys. The TOML codec is a
  parameter, and so is \<open>time.ParseDuration\<close> (its fractions are floating point); durations are in nanoseconds.
\<close>

section \<open>The settings\<close>

record config =
  cf_server_url :: string
  cf_token_file :: string
  cf_server_pin :: string
  cf_key_epoch :: string
  cf_daemon_idle :: string
  cf_sync_interval :: string
  cf_push_debounce :: string
  cf_sync_prompts :: bool
  cf_remote_keep :: int
  cf_auto_deepen :: bool
  cf_enter_executes :: bool
  cf_bind_up_arrow :: bool
  cf_hide_agents :: bool
  cf_keymap :: string
  cf_integration :: string
  cf_ignore_patterns :: "string list"
  cf_ignore_dirs :: "string list"
  cf_record_spaced :: bool
  cf_auto_tags :: "(string \<times> string) list"
  cf_spool_only :: bool
  cf_backup_interval :: string
  cf_backup_keep :: int
  cf_log_max_size :: string
  cf_log_keep :: int
  cf_log_silent :: bool

definition config_defaults :: config where
  "config_defaults =
    \<lparr>cf_server_url = [], cf_token_file = [], cf_server_pin = [], cf_key_epoch = [], cf_daemon_idle = [],
     cf_sync_interval = [], cf_push_debounce = [], cf_sync_prompts = True, cf_remote_keep = 0, cf_auto_deepen = True,
     cf_enter_executes = False, cf_bind_up_arrow = False, cf_hide_agents = True, cf_keymap = [], cf_integration = [],
     cf_ignore_patterns = [], cf_ignore_dirs = [], cf_record_spaced = False, cf_auto_tags = [], cf_spool_only = False,
     cf_backup_interval = [], cf_backup_keep = 0, cf_log_max_size = [], cf_log_keep = 0, cf_log_silent = True\<rparr>"


section \<open>What the settings mean\<close>

definition dur_or :: "(string \<Rightarrow> int option) \<Rightarrow> string \<Rightarrow> int \<Rightarrow> int" where
  "dur_or pd s dflt = (case pd s of None \<Rightarrow> dflt | Some d \<Rightarrow> if d > 0 then d else dflt)"

definition seconds :: int where "seconds = 1000000000"

definition remote_keep_n :: "config \<Rightarrow> int" where
  "remote_keep_n c = (if cf_remote_keep c > 0 then cf_remote_keep c else if cf_remote_keep c < 0 then 0 else 50000)"

definition keymap_vim :: "config \<Rightarrow> bool" where "keymap_vim c \<longleftrightarrow> cf_keymap c = ''vim''"

definition integration_mode :: "config \<Rightarrow> string" where
  "integration_mode c =
    (if cf_integration c = ''coexist'' \<or> cf_integration c = ''capture'' then cf_integration c else ''takeover'')"

definition key_epoch_d :: "(string \<Rightarrow> int option) \<Rightarrow> config \<Rightarrow> int" where
  "key_epoch_d pd c = dur_or pd (cf_key_epoch c) (24 * 3600 * seconds)"
definition daemon_idle_d :: "(string \<Rightarrow> int option) \<Rightarrow> config \<Rightarrow> int" where
  "daemon_idle_d pd c = dur_or pd (cf_daemon_idle c) (30 * 60 * seconds)"
definition sync_interval_d :: "(string \<Rightarrow> int option) \<Rightarrow> config \<Rightarrow> int" where
  "sync_interval_d pd c = dur_or pd (cf_sync_interval c) (5 * 60 * seconds)"
definition push_debounce_d :: "(string \<Rightarrow> int option) \<Rightarrow> config \<Rightarrow> int" where
  "push_debounce_d pd c = dur_or pd (cf_push_debounce c) 0"

definition backup_interval_d :: "(string \<Rightarrow> int option) \<Rightarrow> config \<Rightarrow> int" where
  "backup_interval_d pd c =
    (if trim_space (cf_backup_interval c) = ''0'' then 0 else dur_or pd (cf_backup_interval c) (3600 * seconds))"

definition backup_keep_n :: "config \<Rightarrow> int" where
  "backup_keep_n c = (if cf_backup_keep c > 0 then cf_backup_keep c else 3)"

definition log_keep_n :: "config \<Rightarrow> int" where
  "log_keep_n c = (if cf_log_keep c > 0 then cf_log_keep c else 1)"

text \<open>\<open>strings.ToUpper\<close>, and \<open>parseSize\<close>: the product wraps.\<close>

definition str_upper :: "(rune \<Rightarrow> rune) \<Rightarrow> string \<Rightarrow> string" where
  "str_upper up s = concat (map (\<lambda>r. encode_rune (rune_upper up r)) (runes s))"

definition size_unit :: "string \<Rightarrow> int \<times> string" where
  "size_unit u =
    (if has_suffix u ''KB'' then (1024, trim_space (trim_suffix u ''KB''))
     else if has_suffix u ''MB'' then (1024 * 1024, trim_space (trim_suffix u ''MB''))
     else if has_suffix u ''GB'' then (1024 * 1024 * 1024, trim_space (trim_suffix u ''GB''))
     else if has_suffix u ''B'' then (1, trim_space (trim_suffix u ''B''))
     else (1, u))"

definition parse_size :: "(rune \<Rightarrow> rune) \<Rightarrow> string \<Rightarrow> int \<Rightarrow> int" where
  "parse_size up str dflt =
    (let s = trim_space str in
     if s = [] then dflt
     else let (mult, digits) = size_unit (str_upper up s)
          in case parse_int64 digits of None \<Rightarrow> dflt | Some n \<Rightarrow> if n < 0 then dflt else wrap64 (n * mult))"

definition log_max_bytes :: "(rune \<Rightarrow> rune) \<Rightarrow> config \<Rightarrow> int" where
  "log_max_bytes up c = parse_size up (cf_log_max_size c) (5 * 1024 * 1024)"


section \<open>Keys and values\<close>

text \<open>The value of a field, by its kind, and the fields by their keys: what \<open>reflect\<close> reads off the struct. A map is
  a list of its entries.\<close>

datatype cval = CBool bool | CStr string | CInt int | CList "string list" | CMap "(string \<times> string) list"

definition config_fields :: "config \<Rightarrow> (string \<times> cval) list" where
  "config_fields c =
    [(''server_url'', CStr (cf_server_url c)), (''token_file'', CStr (cf_token_file c)),
     (''server_pin'', CStr (cf_server_pin c)), (''key_epoch'', CStr (cf_key_epoch c)),
     (''daemon_idle'', CStr (cf_daemon_idle c)), (''sync_interval'', CStr (cf_sync_interval c)),
     (''push_debounce'', CStr (cf_push_debounce c)), (''sync_prompts'', CBool (cf_sync_prompts c)),
     (''remote_keep'', CInt (cf_remote_keep c)), (''auto_deepen'', CBool (cf_auto_deepen c)),
     (''enter_executes'', CBool (cf_enter_executes c)), (''bind_up_arrow'', CBool (cf_bind_up_arrow c)),
     (''hide_agent_commands'', CBool (cf_hide_agents c)), (''keymap'', CStr (cf_keymap c)),
     (''integration'', CStr (cf_integration c)), (''ignore_patterns'', CList (cf_ignore_patterns c)),
     (''ignore_dirs'', CList (cf_ignore_dirs c)), (''record_space_prefixed'', CBool (cf_record_spaced c)),
     (''auto_tags'', CMap (cf_auto_tags c)), (''capture_spool_only'', CBool (cf_spool_only c)),
     (''backup_interval'', CStr (cf_backup_interval c)), (''backup_keep'', CInt (cf_backup_keep c)),
     (''log_max_size'', CStr (cf_log_max_size c)), (''log_keep'', CInt (cf_log_keep c)),
     (''log_silent'', CBool (cf_log_silent c))]"

definition field_by_key :: "config \<Rightarrow> string \<Rightarrow> cval option" where
  "field_by_key c key = map_of (config_fields c) key"

fun un_bool :: "cval \<Rightarrow> bool" where "un_bool (CBool b) = b" | "un_bool _ = False"
fun un_str :: "cval \<Rightarrow> string" where "un_str (CStr s) = s" | "un_str _ = []"
fun un_int :: "cval \<Rightarrow> int" where "un_int (CInt n) = n" | "un_int _ = 0"
fun un_list :: "cval \<Rightarrow> string list" where "un_list (CList l) = l" | "un_list _ = []"
fun un_map :: "cval \<Rightarrow> (string \<times> string) list" where "un_map (CMap m) = m" | "un_map _ = []"

text \<open>The field of \<open>key\<close> set to a value of its kind.\<close>

definition with_field :: "string \<Rightarrow> cval \<Rightarrow> config \<Rightarrow> config" where
  "with_field key v c =
    (if key = ''server_url'' then c\<lparr>cf_server_url := un_str v\<rparr>
     else if key = ''token_file'' then c\<lparr>cf_token_file := un_str v\<rparr>
     else if key = ''server_pin'' then c\<lparr>cf_server_pin := un_str v\<rparr>
     else if key = ''key_epoch'' then c\<lparr>cf_key_epoch := un_str v\<rparr>
     else if key = ''daemon_idle'' then c\<lparr>cf_daemon_idle := un_str v\<rparr>
     else if key = ''sync_interval'' then c\<lparr>cf_sync_interval := un_str v\<rparr>
     else if key = ''push_debounce'' then c\<lparr>cf_push_debounce := un_str v\<rparr>
     else if key = ''sync_prompts'' then c\<lparr>cf_sync_prompts := un_bool v\<rparr>
     else if key = ''remote_keep'' then c\<lparr>cf_remote_keep := un_int v\<rparr>
     else if key = ''auto_deepen'' then c\<lparr>cf_auto_deepen := un_bool v\<rparr>
     else if key = ''enter_executes'' then c\<lparr>cf_enter_executes := un_bool v\<rparr>
     else if key = ''bind_up_arrow'' then c\<lparr>cf_bind_up_arrow := un_bool v\<rparr>
     else if key = ''hide_agent_commands'' then c\<lparr>cf_hide_agents := un_bool v\<rparr>
     else if key = ''keymap'' then c\<lparr>cf_keymap := un_str v\<rparr>
     else if key = ''integration'' then c\<lparr>cf_integration := un_str v\<rparr>
     else if key = ''ignore_patterns'' then c\<lparr>cf_ignore_patterns := un_list v\<rparr>
     else if key = ''ignore_dirs'' then c\<lparr>cf_ignore_dirs := un_list v\<rparr>
     else if key = ''record_space_prefixed'' then c\<lparr>cf_record_spaced := un_bool v\<rparr>
     else if key = ''auto_tags'' then c\<lparr>cf_auto_tags := un_map v\<rparr>
     else if key = ''capture_spool_only'' then c\<lparr>cf_spool_only := un_bool v\<rparr>
     else if key = ''backup_interval'' then c\<lparr>cf_backup_interval := un_str v\<rparr>
     else if key = ''backup_keep'' then c\<lparr>cf_backup_keep := un_int v\<rparr>
     else if key = ''log_max_size'' then c\<lparr>cf_log_max_size := un_str v\<rparr>
     else if key = ''log_keep'' then c\<lparr>cf_log_keep := un_int v\<rparr>
     else if key = ''log_silent'' then c\<lparr>cf_log_silent := un_bool v\<rparr>
     else c)"

definition format_field :: "cval \<Rightarrow> string" where
  "format_field v =
    (case v of
       CBool b \<Rightarrow> if b then ''true'' else ''false''
     | CStr s \<Rightarrow> s
     | CInt n \<Rightarrow> format_int n
     | CList items \<Rightarrow> join_with '','' items
     | CMap m \<Rightarrow> join_with '','' (map (\<lambda>k. k @ ''='' @ the (map_of m k)) (sort (map fst m))))"

text \<open>\<open>strconv.ParseBool\<close> and \<open>strings.Cut\<close>.\<close>

definition parse_bool :: "string \<Rightarrow> bool option" where
  "parse_bool s =
    (if s \<in> {''1'', ''t'', ''T'', ''TRUE'', ''true'', ''True''} then Some True
     else if s \<in> {''0'', ''f'', ''F'', ''FALSE'', ''false'', ''False''} then Some False else None)"

definition str_cut :: "string \<Rightarrow> char \<Rightarrow> (string \<times> string) option" where
  "str_cut s c = (case index_byte s c of None \<Rightarrow> None | Some i \<Rightarrow> Some (take i s, drop (i + 1) s))"

fun assign_pairs :: "string list \<Rightarrow> (string \<times> string) list \<Rightarrow> (string \<times> string) list option" where
  "assign_pairs [] m = Some m"
| "assign_pairs (p # ps) m =
    (let pair = trim_space p in
     if pair = [] then assign_pairs ps m
     else case str_cut pair CHR ''='' of
       None \<Rightarrow> None
     | Some (k, v) \<Rightarrow> assign_pairs ps (AList.update (trim_space k) (trim_space v) m))"

text \<open>\<open>assignField\<close>: \<open>old\<close> gives the kind. A Go map has no order; its entries are kept here in the order of their keys.\<close>

definition assign_field :: "cval \<Rightarrow> string \<Rightarrow> cval option" where
  "assign_field old value =
    (case old of
       CBool _ \<Rightarrow> map_option CBool (parse_bool (trim_space value))
     | CStr _ \<Rightarrow> Some (CStr value)
     | CInt _ \<Rightarrow> map_option CInt (parse_int64 (trim_space value))
     | CList _ \<Rightarrow> Some (CList (filter (\<lambda>p. p \<noteq> []) (map trim_space (split_on CHR '','' value))))
     | CMap _ \<Rightarrow> map_option (\<lambda>m. CMap (sort_key fst m)) (assign_pairs (split_on CHR '','' value) []))"


section \<open>The file\<close>

record toml =
  tm_encode :: "config \<Rightarrow> string"
  tm_decode :: "string \<Rightarrow> config \<Rightarrow> config option"

datatype config_error = UnreadableConfig | UnknownKey string | BadValue string | UnwritableConfig

text \<open>What \<open>os.ReadFile\<close> and the directory give.\<close>

datatype config_file = NoFile | Unreadable | Contents string

definition config_load :: "toml \<Rightarrow> config_file \<Rightarrow> config \<times> config_error option" where
  "config_load T fl =
    (case fl of
       NoFile \<Rightarrow> (config_defaults, None)
     | Unreadable \<Rightarrow> (config_defaults, Some UnreadableConfig)
     | Contents b \<Rightarrow>
         (case tm_decode T b config_defaults of
            None \<Rightarrow> (config_defaults, Some UnreadableConfig)
          | Some c \<Rightarrow> (c, None)))"

definition config_save :: "toml \<Rightarrow> bool \<Rightarrow> config \<Rightarrow> config_file \<Rightarrow> config_file \<times> config_error option" where
  "config_save T writes c fl =
    (if writes then (Contents (tm_encode T c @ [CHR 0x0A]), None) else (fl, Some UnwritableConfig))"

definition config_get :: "toml \<Rightarrow> config_file \<Rightarrow> string \<Rightarrow> config_error + string" where
  "config_get T fl key =
    (case config_load T fl of
       (_, Some e) \<Rightarrow> Inl e
     | (c, None) \<Rightarrow> (case field_by_key c key of None \<Rightarrow> Inl (UnknownKey key) | Some v \<Rightarrow> Inr (format_field v)))"

definition config_set :: "toml \<Rightarrow> bool \<Rightarrow> string \<Rightarrow> string \<Rightarrow> config_file \<Rightarrow> config_file \<times> config_error option" where
  "config_set T writes key value fl =
    (case config_load T fl of
       (_, Some e) \<Rightarrow> (fl, Some e)
     | (c, None) \<Rightarrow>
         (case field_by_key c key of
            None \<Rightarrow> (fl, Some (UnknownKey key))
          | Some old \<Rightarrow>
              (case assign_field old value of
                 None \<Rightarrow> (fl, Some (BadValue key))
               | Some v \<Rightarrow> config_save T writes (with_field key v c) fl)))"


section \<open>What the settings guarantee\<close>

text \<open>No setting takes a bound away: whatever the file says, the intervals are positive (the two that can be switched
  off are not negative), at least one backup and one log segment are kept, and the bound on remote history is not
  negative.\<close>

theorem settings_bounded:
  "0 < key_epoch_d pd c \<and> 0 < daemon_idle_d pd c \<and> 0 < sync_interval_d pd c \<and> 0 \<le> push_debounce_d pd c \<and>
   0 \<le> backup_interval_d pd c \<and> 1 \<le> backup_keep_n c \<and> 1 \<le> log_keep_n c \<and> 0 \<le> remote_keep_n c \<and>
   integration_mode c \<in> {''takeover'', ''coexist'', ''capture''}"
  by (auto simp: key_epoch_d_def daemon_idle_d_def sync_interval_d_def push_debounce_d_def backup_interval_d_def
      backup_keep_n_def log_keep_n_def remote_keep_n_def integration_mode_def dur_or_def seconds_def split: option.split)

lemma upper_fixed: "ascii_byte c \<Longrightarrow> \<not> (97 \<le> byte c \<and> byte c \<le> 122) \<Longrightarrow> encode_rune (rune_upper up (byte c)) = [c]"
  by (auto simp: rune_upper_def encode_rune_def ascii_byte_def byte_def)

lemma str_upper_fixed:
  "list_all (\<lambda>c. ascii_byte c \<and> \<not> (97 \<le> byte c \<and> byte c \<le> 122)) s \<Longrightarrow> str_upper up s = s"
proof -
  assume a: "list_all (\<lambda>c. ascii_byte c \<and> \<not> (97 \<le> byte c \<and> byte c \<le> 122)) s"
  then have "runes s = map byte s" by (intro runes_ascii) (simp add: list_all_iff)
  moreover have "concat (map (\<lambda>r. encode_rune (rune_upper up r)) (map byte s)) = s"
    using a by (induction s) (auto simp: upper_fixed)
  ultimately show ?thesis by (simp add: str_upper_def)
qed

lemma digit_fixed: "is_digit_byte c \<Longrightarrow> ascii_byte c \<and> \<not> (97 \<le> byte c \<and> byte c \<le> 122) \<and> plain_byte c"
  by (auto simp: is_digit_byte_def ascii_byte_def plain_byte_def rune_is_space_def byte_def less_eq_char_def)

lemma size_gb:
  assumes "int64 (int n)"
  shows "parse_size up (nat_digits n @ ''GB'') dflt = wrap64 (int n * 2 ^ 30)"
proof -
  have d: "list_all is_digit_byte (nat_digits n)" using nat_digits_correct [of n] by (simp add: all_digits_def)
  then have plain: "list_all plain_byte (nat_digits n)" using digit_fixed by (simp add: list_all_iff)
  then have "trim_space (nat_digits n @ ''GB'') = nat_digits n @ ''GB''"
    by (intro trim_space_plain) (simp add: plain_byte_def ascii_byte_def byte_def rune_is_space_def)
  moreover have "str_upper up (nat_digits n @ ''GB'') = nat_digits n @ ''GB''"
    by (rule str_upper_fixed) (use d digit_fixed in \<open>auto simp: list_all_iff ascii_byte_def byte_def\<close>)
  moreover have "size_unit (nat_digits n @ ''GB'') = (1024 * 1024 * 1024, nat_digits n)"
    using trim_space_plain [OF plain] by (simp add: size_unit_def has_suffix_def has_prefix_def trim_suffix_def)
  moreover have "parse_int64 (nat_digits n) = Some (int n)" using parse_format_int [OF assms] by (simp add: format_int_def)
  ultimately show ?thesis by (simp add: parse_size_def Let_def)
qed

text \<open>A log size beyond the range of the machine removes the cap. The size is multiplied out in 64 bits; eight
  billion gigabytes wrap to a negative number, which the daemon takes for a log without rotation.\<close>

theorem log_cap_wraps:
  "log_max_bytes up (c\<lparr>cf_log_max_size := nat_digits 8589934592 @ ''GB''\<rparr>) < 0"
  using size_gb [of 8589934592 up "5 * 1024 * 1024"] by (simp add: log_max_bytes_def int64_def wrap64_def)


section \<open>Setting and reading a key\<close>

definition same_kind :: "cval \<Rightarrow> cval \<Rightarrow> bool" where
  "same_kind x y \<longleftrightarrow>
    (case (x, y) of (CBool _, CBool _) \<Rightarrow> True | (CStr _, CStr _) \<Rightarrow> True | (CInt _, CInt _) \<Rightarrow> True
     | (CList _, CList _) \<Rightarrow> True | (CMap _, CMap _) \<Rightarrow> True | _ \<Rightarrow> False)"

lemma assign_kind: "assign_field old s = Some v \<Longrightarrow> same_kind old v"
  by (auto simp: assign_field_def same_kind_def split: cval.splits)

lemma kind_un:
  "same_kind (CBool b) v \<Longrightarrow> CBool (un_bool v) = v" "same_kind (CStr s) v \<Longrightarrow> CStr (un_str v) = v"
  "same_kind (CInt n) v \<Longrightarrow> CInt (un_int v) = v" "same_kind (CList l) v \<Longrightarrow> CList (un_list v) = v"
  "same_kind (CMap m) v \<Longrightarrow> CMap (un_map v) = v"
  by (cases v; simp add: same_kind_def)+

lemma with_field_get:
  assumes "field_by_key c key = Some old" and "same_kind old v"
  shows "field_by_key (with_field key v c) k = (if k = key then Some v else field_by_key c k)"
proof -
  have "map_of (config_fields c) key = Some old" using assms(1) by (simp add: field_by_key_def)
  from map_of_SomeD [OF this] have "(key, old) \<in> set (config_fields c)" .
  then show ?thesis
    unfolding config_fields_def list.set
    by (elim insertE emptyE; elim Pair_inject; simp add: with_field_def field_by_key_def config_fields_def;
        (use assms(2) in \<open>auto simp: kind_un\<close>)?)
qed


text \<open>What the TOML codec promises: a configuration of printable strings, of maps with one value for a key and of integers
  of the machine is read back as it was written.\<close>

definition conf_strings :: "config \<Rightarrow> string list" where
  "conf_strings c =
    concat (map (\<lambda>(_, v). case v of CStr s \<Rightarrow> [s] | CList l \<Rightarrow> l | CMap m \<Rightarrow> map fst m @ map snd m | _ \<Rightarrow> []) (config_fields c))"

definition printable :: "config \<Rightarrow> bool" where
  "printable c \<longleftrightarrow> list_all (list_all (\<lambda>x. 32 \<le> byte x \<and> byte x < 127)) (conf_strings c) \<and>
    sorted (map fst (cf_auto_tags c)) \<and> distinct (map fst (cf_auto_tags c)) \<and>
    int64 (cf_remote_keep c) \<and> int64 (cf_backup_keep c) \<and> int64 (cf_log_keep c)"

definition toml_ok :: "toml \<Rightarrow> bool" where
  "toml_ok T \<longleftrightarrow> (\<forall>c. printable c \<longrightarrow> tm_decode T (tm_encode T c @ [CHR 0x0A]) config_defaults = Some c)"

lemma config_set_effect:
  assumes "toml_ok T" and "config_set T writes key value fl = (fl', None)" and "config_load T fl = (c, None)"
    and "\<And>old v. field_by_key c key = Some old \<Longrightarrow> assign_field old value = Some v \<Longrightarrow> printable (with_field key v c)"
  obtains old v where "field_by_key c key = Some old" "assign_field old value = Some v"
    "config_load T fl' = (with_field key v c, None)" "same_kind old v"
proof -
  obtain old v where v: "field_by_key c key = Some old" "assign_field old value = Some v" "writes"
      "fl' = Contents (tm_encode T (with_field key v c) @ [CHR 0x0A])"
    using assms(2,3) by (auto simp: config_set_def config_save_def split: option.splits if_splits)
  have "tm_decode T (tm_encode T (with_field key v c) @ [CHR 0x0A]) config_defaults = Some (with_field key v c)"
    using assms(1) assms(4) [OF v(1,2)] by (simp add: toml_ok_def)
  then have "config_load T fl' = (with_field key v c, None)" by (simp add: config_load_def v(4))
  with v(1,2) assign_kind [OF v(2)] that show thesis by blast
qed

text \<open>C36 A setting that was accepted is the one in effect, and the only one that changed: after a write without an
  error, the key reads as the parsed value, and every other key as before.\<close>

theorem config_set_get:
  assumes "toml_ok T" and "config_set T writes key value fl = (fl', None)" and "config_load T fl = (c, None)"
    and "\<And>old v. field_by_key c key = Some old \<Longrightarrow> assign_field old value = Some v \<Longrightarrow> printable (with_field key v c)"
  shows "\<exists>old v. field_by_key c key = Some old \<and> assign_field old value = Some v \<and>
    config_get T fl' k = (if k = key then Inr (format_field v) else config_get T fl k)"
proof -
  obtain old v where v: "field_by_key c key = Some old" "assign_field old value = Some v"
    "config_load T fl' = (with_field key v c, None)" "same_kind old v"
    by (rule config_set_effect [OF assms])
  then show ?thesis
    using with_field_get [OF v(1,4), of k] by (intro exI [of _ old] exI [of _ v]) (simp add: config_get_def assms(3))
qed

text \<open>An encoding that keeps the promise: the fields in sequence, each after its length.\<close>

definition put_bool :: "bool \<Rightarrow> string" where "put_bool b = (if b then ''1'' else [])"

definition demo_encode :: "config \<Rightarrow> string" where
  "demo_encode c = put_fields [
     cf_server_url c, cf_token_file c, cf_server_pin c, cf_key_epoch c, cf_daemon_idle c, cf_sync_interval c,
     cf_push_debounce c, put_bool (cf_sync_prompts c), format_int (cf_remote_keep c), put_bool (cf_auto_deepen c),
     put_bool (cf_enter_executes c), put_bool (cf_bind_up_arrow c), put_bool (cf_hide_agents c), cf_keymap c,
     cf_integration c, put_fields (cf_ignore_patterns c), put_fields (cf_ignore_dirs c),
     put_bool (cf_record_spaced c), put_fields (map (\<lambda>(k, v). put_fields [k, v]) (cf_auto_tags c)),
     put_bool (cf_spool_only c), cf_backup_interval c, format_int (cf_backup_keep c), cf_log_max_size c,
     format_int (cf_log_keep c), put_bool (cf_log_silent c)]"

definition demo_decode :: "string \<Rightarrow> config \<Rightarrow> config option" where
  "demo_decode s _ = (let f = get_fields (butlast s) in Some \<lparr>
     cf_server_url = f ! 0, cf_token_file = f ! 1, cf_server_pin = f ! 2, cf_key_epoch = f ! 3,
     cf_daemon_idle = f ! 4, cf_sync_interval = f ! 5, cf_push_debounce = f ! 6,
     cf_sync_prompts = f ! 7 \<noteq> [], cf_remote_keep = get_int (f ! 8), cf_auto_deepen = f ! 9 \<noteq> [],
     cf_enter_executes = f ! 10 \<noteq> [], cf_bind_up_arrow = f ! 11 \<noteq> [],
     cf_hide_agents = f ! 12 \<noteq> [], cf_keymap = f ! 13, cf_integration = f ! 14,
     cf_ignore_patterns = get_fields (f ! 15), cf_ignore_dirs = get_fields (f ! 16),
     cf_record_spaced = f ! 17 \<noteq> [],
     cf_auto_tags = map (\<lambda>e. (get_fields e ! 0, get_fields e ! 1)) (get_fields (f ! 18)),
     cf_spool_only = f ! 19 \<noteq> [], cf_backup_interval = f ! 20, cf_backup_keep = get_int (f ! 21),
     cf_log_max_size = f ! 22, cf_log_keep = get_int (f ! 23), cf_log_silent = f ! 24 \<noteq> []\<rparr>)"

definition demo_toml :: toml where
  "demo_toml = \<lparr>tm_encode = demo_encode, tm_decode = demo_decode\<rparr>"

lemma demo_toml_ok: "toml_ok demo_toml"
proof -
  have bool: "(put_bool b \<noteq> []) = b" for b by (simp add: put_bool_def)
  have pair: "map (\<lambda>e. (get_fields e ! 0, get_fields e ! Suc 0)) (map (\<lambda>(k, v). put_fields [k, v]) m) = m" for m
    by (induction m) auto
  show ?thesis
    by (simp add: toml_ok_def demo_toml_def demo_encode_def demo_decode_def Let_def bool pair del: map_map)
qed

lemma demo_load: "config_load demo_toml NoFile = (config_defaults, None)" "printable config_defaults"
  by (simp_all add: config_load_def printable_def int64_def conf_strings_def config_fields_def config_defaults_def)

lemma config_set_get_witness:
  "\<exists>fl'. config_set demo_toml True ''keymap'' ''vim'' NoFile = (fl', None) \<and> config_get demo_toml fl' ''keymap'' = Inr ''vim''"
proof -
  obtain fl' where s: "config_set demo_toml True ''keymap'' ''vim'' NoFile = (fl', None)"
    by (simp add: config_set_def demo_load field_by_key_def config_fields_def assign_field_def config_save_def)
  have p: "printable (with_field ''keymap'' v config_defaults)"
    if "field_by_key config_defaults ''keymap'' = Some old" "assign_field old ''vim'' = Some v" for old v
    using that by (auto simp: field_by_key_def config_fields_def assign_field_def with_field_def printable_def int64_def conf_strings_def
        config_defaults_def byte_def)
  from config_set_get [OF demo_toml_ok s demo_load(1) p, where k = "''keymap''"] s show ?thesis
    by (auto simp: field_by_key_def config_fields_def assign_field_def format_field_def)
qed


subsection \<open>Values and their text\<close>

lemma split_join:
  "list_all (\<lambda>p. c \<notin> set p) ps \<Longrightarrow> ps \<noteq> [] \<Longrightarrow> split_on c (join_with [c] ps) = ps"
proof (induction ps)
  case (Cons p ps)
  have cut: "split_on c (a @ c # b) = a # split_on c b" if "c \<notin> set a" for a b
    using that by (induction a) auto
  show ?case
  proof (cases ps)
    case Nil
    with Cons.prems show ?thesis by (simp add: split_on_absent)
  next
    case (Cons q qs)
    with Cons.IH Cons.prems cut [of p "join_with [c] (q # qs)"] show ?thesis by simp
  qed
qed simp

definition tidy_item :: "string \<Rightarrow> bool" where
  "tidy_item p \<longleftrightarrow> trim_space p = p \<and> p \<noteq> [] \<and> CHR '','' \<notin> set p"

definition tidy :: "cval \<Rightarrow> bool" where
  "tidy v \<longleftrightarrow>
    (case v of
       CInt n \<Rightarrow> int64 n
     | CList items \<Rightarrow> list_all tidy_item items
     | CMap m \<Rightarrow> sorted (map fst m) \<and> distinct (map fst m) \<and>
         list_all (\<lambda>(k, x). tidy_item (k @ ''='' @ x) \<and> trim_space k = k \<and> trim_space x = x \<and> CHR ''='' \<notin> set k) m
     | _ \<Rightarrow> True)"

lemma trim_Nil: "trim_space [] = []"
  by (rule trim_space_plain) simp

lemma format_int_plain: "list_all plain_byte (format_int n)"
proof -
  have "list_all plain_byte (nat_digits k)" for k
    using nat_digits_correct [of k] digit_fixed by (simp add: all_digits_def list_all_iff)
  then show ?thesis by (simp add: format_int_def plain_byte_def ascii_byte_def byte_def rune_is_space_def)
qed

lemma assign_items:
  assumes "list_all tidy_item items"
  shows "filter (\<lambda>p. p \<noteq> []) (map trim_space (split_on CHR '','' (join_with '','' items))) = items"
proof (cases "items = []")
  case False
  have "split_on CHR '','' (join_with '','' items) = items"
    by (rule split_join) (use assms False in \<open>auto simp: list_all_iff tidy_item_def\<close>)
  moreover have "map trim_space items = items" using assms by (auto simp: list_all_iff tidy_item_def intro: map_idI)
  moreover have "filter (\<lambda>p. p \<noteq> []) items = items" using assms by (auto simp: list_all_iff tidy_item_def intro: filter_True)
  ultimately show ?thesis by simp
qed (simp add: trim_Nil)

lemma cut_pair: "CHR ''='' \<notin> set k \<Longrightarrow> str_cut (k @ ''='' @ x) CHR ''='' = Some (k, x)"
proof -
  assume "CHR ''='' \<notin> set k"
  then have "index_byte (k @ ''='' @ x) CHR ''='' = Some (length k)" by (induction k) auto
  then show ?thesis by (simp add: str_cut_def)
qed

lemma assign_map:
  "distinct (map fst m) \<Longrightarrow> set (map fst m) \<inter> set (map fst acc) = {} \<Longrightarrow>
    list_all (\<lambda>(k, x). tidy_item (k @ ''='' @ x) \<and> trim_space k = k \<and> trim_space x = x \<and> CHR ''='' \<notin> set k) m \<Longrightarrow>
    assign_pairs (map (\<lambda>(k, x). k @ ''='' @ x) m) acc = Some (acc @ m)"
proof (induction m arbitrary: acc)
  case (Cons e m)
  obtain k x where e: "e = (k, x)" by (cases e)
  have new: "AList.update k x acc = acc @ [(k, x)]"
    using Cons.prems(2) by (induction acc) (auto simp: e)
  have t: "trim_space (k @ ''='' @ x) = k @ ''='' @ x" "trim_space k = k" "trim_space x = x" "CHR ''='' \<notin> set k"
    using Cons.prems(3) by (simp_all add: e tidy_item_def)
  have "assign_pairs (map (\<lambda>(k, x). k @ ''='' @ x) m) (acc @ [(k, x)]) = Some ((acc @ [(k, x)]) @ m)"
    using Cons.prems by (intro Cons.IH) (auto simp: e)
  then show ?case using t cut_pair [OF t(4), of x] by (simp add: e new Let_def)
qed simp

lemma assign_format:
  assumes "tidy v" and "same_kind old v"
  shows "assign_field old (format_field v) = Some v"
proof (cases v)
  case (CBool b)
  have "trim_space ''true'' = ''true''" "trim_space ''false'' = ''false''"
    by (intro trim_space_plain, simp add: plain_byte_def ascii_byte_def byte_def rune_is_space_def)+
  with CBool assms show ?thesis by (cases old) (auto simp: same_kind_def assign_field_def format_field_def parse_bool_def)
next
  case (CStr s)
  with assms show ?thesis by (cases old) (auto simp: same_kind_def assign_field_def format_field_def)
next
  case (CInt n)
  with assms show ?thesis
    by (cases old) (auto simp: same_kind_def assign_field_def format_field_def tidy_def trim_space_plain [OF format_int_plain] parse_format_int)
next
  case (CList items)
  with assms assign_items [of items] show ?thesis
    by (cases old) (auto simp: same_kind_def assign_field_def format_field_def tidy_def)
next
  case (CMap m)
  with assms have m: "sorted (map fst m)" "distinct (map fst m)"
    "list_all (\<lambda>(k, x). tidy_item (k @ ''='' @ x) \<and> trim_space k = k \<and> trim_space x = x \<and> CHR ''='' \<notin> set k) m"
    by (auto simp: tidy_def)
  have pairs: "map (\<lambda>k. k @ ''='' @ the (map_of m k)) (map fst m) = map (\<lambda>(k, x). k @ ''='' @ x) m"
    using m(2) by (auto simp: map_of_eq_Some_iff [OF m(2)])
  have fmt: "format_field v = join_with '','' (map (\<lambda>(k, x). k @ ''='' @ x) m)"
    by (simp only: CMap format_field_def cval.case sorted_sort_id [OF m(1)] pairs)
  have "assign_pairs (split_on CHR '','' (format_field v)) [] = Some m"
  proof (cases "m = []")
    case False
    have "split_on CHR '','' (format_field v) = map (\<lambda>(k, x). k @ ''='' @ x) m"
      unfolding fmt by (rule split_join) (use m(3) False in \<open>auto simp: list_all_iff tidy_item_def\<close>)
    with assign_map [OF m(2) _ m(3), of "[]"] show ?thesis by simp
  qed (simp add: fmt trim_Nil)
  with CMap assms m(1) show ?thesis by (cases old) (auto simp: same_kind_def assign_field_def sort_key_id_if_sorted)
qed


lemma put_same: "field_by_key c key = Some v \<Longrightarrow> with_field key v c = c"
proof -
  assume "field_by_key c key = Some v"
  from map_of_SomeD [OF this [unfolded field_by_key_def]] have "(key, v) \<in> set (config_fields c)" .
  then show ?thesis
    unfolding config_fields_def list.set by (elim insertE emptyE; elim Pair_inject; simp add: with_field_def)
qed

text \<open>Writing back what was read changes nothing: when the items of lists and maps hold no separator of theirs, the
  printed value of a key, given to the setter, is accepted and leaves the configuration as it was.\<close>

theorem config_round_trip:
  assumes "toml_ok T" and "config_load T fl = (c, None)" and "printable c" and "field_by_key c key = Some v" and "tidy v"
  shows "case config_set T True key (format_field v) fl of (fl', e) \<Rightarrow> e = None \<and> config_load T fl' = (c, None)"
proof -
  have "same_kind v v" by (cases v) (simp_all add: same_kind_def)
  with assms(5) have "assign_field v (format_field v) = Some v" by (rule assign_format)
  moreover have "tm_decode T (tm_encode T c @ [CHR 0x0A]) config_defaults = Some c" using assms(1,3) by (simp add: toml_ok_def)
  ultimately show ?thesis using assms(2,4) put_same [OF assms(4)] by (simp add: config_set_def config_save_def config_load_def)
qed

lemma config_round_trip_witness:
  "snd (config_set demo_toml True ''sync_prompts'' ''true'' NoFile) = None"
proof -
  have "field_by_key config_defaults ''sync_prompts'' = Some (CBool True)"
    by (simp add: field_by_key_def config_fields_def config_defaults_def)
  from config_round_trip [OF demo_toml_ok demo_load this] show ?thesis by (auto simp: tidy_def format_field_def)
qed

text \<open>A pattern with a comma is taken apart in silence. The setter splits the value of a list at every comma: the
  pattern \<open>ab{1,2}\<close> is stored as the two patterns \<open>ab{1\<close> and \<open>2}\<close>, and the getter, which joins them with a comma,
  prints what was entered.\<close>

theorem pattern_with_comma_splits:
  assumes "toml_ok T" and "config_load T fl = (c, None)" and "printable (c\<lparr>cf_ignore_patterns := [''ab{1'', ''2}'']\<rparr>)"
  shows "case config_set T True ''ignore_patterns'' ''ab{1,2}'' fl of
    (fl', e) \<Rightarrow> e = None \<and> config_load T fl' = (c\<lparr>cf_ignore_patterns := [''ab{1'', ''2}'']\<rparr>, None) \<and>
      config_get T fl' ''ignore_patterns'' = Inr ''ab{1,2}''"
proof -
  have t: "trim_space ''ab{1'' = ''ab{1''" "trim_space ''2}'' = ''2}''"
    by (intro trim_space_plain, simp add: plain_byte_def ascii_byte_def byte_def rune_is_space_def)+
  have f: "field_by_key x ''ignore_patterns'' = Some (CList (cf_ignore_patterns x))" for x
    by (simp add: field_by_key_def config_fields_def)
  have a: "assign_field (CList (cf_ignore_patterns c)) ''ab{1,2}'' = Some (CList [''ab{1'', ''2}''])"
    by (simp add: assign_field_def t)
  have "tm_decode T (tm_encode T (c\<lparr>cf_ignore_patterns := [''ab{1'', ''2}'']\<rparr>) @ [CHR 0x0A]) config_defaults =
      Some (c\<lparr>cf_ignore_patterns := [''ab{1'', ''2}'']\<rparr>)"
    using assms(1,3) by (simp add: toml_ok_def)
  then show ?thesis
    using assms(2) by (simp add: config_set_def config_save_def config_load_def config_get_def f a with_field_def format_field_def)
qed

lemma pattern_with_comma_splits_witness:
  "cf_ignore_patterns (fst (config_load demo_toml (fst (config_set demo_toml True ''ignore_patterns'' ''ab{1,2}'' NoFile)))) =
    [''ab{1'', ''2}'']"
proof -
  have "printable (config_defaults\<lparr>cf_ignore_patterns := [''ab{1'', ''2}'']\<rparr>)"
    by (simp add: printable_def int64_def conf_strings_def config_fields_def config_defaults_def byte_def)
  from pattern_with_comma_splits [OF demo_toml_ok demo_load(1) this] show ?thesis by (auto split: prod.splits)
qed

end
