(* ===== verification/Daemon_Loop.thy ===== *)
theory Daemon_Loop
  imports Daemon Secret Config
begin

text \<open>
  \<open>syncLoop\<close> of \<open>daemon/remote.go\<close>: the events the loop selects on, the reload of the configuration before a cycle,
  and the timer that gathers pushes. What the file, the keyring and the clock give at an event are arguments.
\<close>

section \<open>Configuration at hand\<close>

text \<open>\<open>loadSyncConf\<close>; \<open>pd\<close> is \<open>time.ParseDuration\<close>.\<close>

definition load_sync_conf :: "toml \<Rightarrow> (string \<Rightarrow> int option) \<Rightarrow> config_file \<Rightarrow> sync_conf" where
  "load_sync_conf T pd fl =
    (let c = fst (config_load T fl)
     in \<lparr>sc_url = cf_server_url c, sc_pin = cf_server_pin c, sc_epoch = key_epoch_d pd c,
         sc_prompts = cf_sync_prompts c, sc_keep = remote_keep_n c\<rparr>)"

text \<open>What the surroundings give at an event: the two readings of \<open>config.toml\<close>, the keyring and the secret files,
  whether the cache file opens, the order of the hosts in a pull, the time.\<close>

record around =
  ar_file :: config_file
  ar_again :: config_file
  ar_backend :: backend
  ar_ring :: ring_fate
  ar_vault :: vault
  ar_opens :: bool
  ar_order :: "string list"
  ar_now :: int

text \<open>The device key \<open>newSyncer\<close> finds.\<close>

definition key_at_hand :: "cbox \<Rightarrow> around \<Rightarrow> device_key option" where
  "key_at_hand X a = (case load_device_key X (ar_backend a) (ar_ring a) (ar_vault a) of Inl _ \<Rightarrow> None | Inr k \<Rightarrow> Some k)"


section \<open>The loop\<close>

record ('w, 'b, 'r, 'c) sync_loop =
  lo_node :: "('w, 'b, 'r, 'c) node"
  lo_conf :: sync_conf
  lo_debounce :: int
  lo_pending :: bool
  lo_armed :: bool
  lo_tick :: int

text \<open>\<open>syncLoop\<close> up to its first \<open>select\<close>; \<open>lo_armed\<close> is whether the push timer runs.\<close>

definition loop_start ::
  "toml \<Rightarrow> (string \<Rightarrow> int option) \<Rightarrow> config_file \<Rightarrow> sync_conf \<Rightarrow> ('w, 'b, 'r, 'c) node \<Rightarrow> ('w, 'b, 'r, 'c) sync_loop" where
  "loop_start T pd fl sc n =
    (let c = fst (config_load T fl)
     in \<lparr>lo_node = n, lo_conf = sc, lo_debounce = push_debounce_d pd c, lo_pending = False, lo_armed = False,
         lo_tick = sync_tick (node_enabled n) (sync_interval_d pd c)\<rparr>)"

text \<open>The closure \<open>reload\<close>.\<close>

definition loop_reload ::
  "('w, 'b, 'p, 'r, 'c) gear \<Rightarrow> toml \<Rightarrow> (string \<Rightarrow> int option) \<Rightarrow> around \<Rightarrow> ('w, 'b, 'r, 'c) sync_loop
    \<Rightarrow> ('w, 'b, 'r, 'c) sync_loop" where
  "loop_reload G T pd a l =
    (let sc = load_sync_conf T pd (ar_file a) in
     if sc = lo_conf l then l
     else let n = snd (reload (ge_hist G) (ge_streams G) (ge_cursors G) (ar_opens a) (key_at_hand (ge_box G) a)
                    (lo_conf l) sc (lo_node l));
              c = fst (config_load T (ar_again a))
          in l\<lparr>lo_node := n, lo_conf := sc, lo_debounce := push_debounce_d pd c,
              lo_tick := sync_tick (node_enabled n) (sync_interval_d pd c)\<rparr>)"

definition loop_cycle ::
  "('w, 'b, 'p, 'r, 'c) gear \<Rightarrow> around \<Rightarrow> ('w, 'b, 'r, 'c) sync_loop \<Rightarrow> ('w, 'b, 'r, 'c) sync_loop" where
  "loop_cycle G a l = l\<lparr>lo_node := fst (do_sync G (ar_order a) (ar_now a) (lo_node l))\<rparr>"

text \<open>The cases of the \<open>select\<close>: \<open>first\<close>, \<open>tick\<close> and \<open>syncWake\<close> do the same.\<close>

datatype loop_event = Due | PushWake | PushTimer

definition loop_step ::
  "('w, 'b, 'p, 'r, 'c) gear \<Rightarrow> toml \<Rightarrow> (string \<Rightarrow> int option) \<Rightarrow> around \<Rightarrow> loop_event \<Rightarrow> ('w, 'b, 'r, 'c) sync_loop
    \<Rightarrow> ('w, 'b, 'r, 'c) sync_loop" where
  "loop_step G T pd a ev l =
    (case ev of
       Due \<Rightarrow> loop_cycle G a (loop_reload G T pd a l)
     | PushWake \<Rightarrow>
         (case push_arm (lo_debounce l) (lo_pending l) of
            (arm, pending) \<Rightarrow> if arm then l\<lparr>lo_armed := True, lo_pending := pending\<rparr> else l)
     | PushTimer \<Rightarrow> loop_cycle G a (l\<lparr>lo_armed := False, lo_pending := False\<rparr>))"

text \<open>The run of the loop. The timer fires only when it is armed; between its events the daemon changes the store and
  serves explicit cycles.\<close>

inductive loop_run ::
  "('w, 'b, 'p, 'r, 'c) gear \<Rightarrow> toml \<Rightarrow> (string \<Rightarrow> int option) \<Rightarrow> ('w, 'b, 'r, 'c) sync_loop \<Rightarrow> ('w, 'b, 'r, 'c) sync_loop
    \<Rightarrow> bool" for G T pd where
  Begun: "loop_run G T pd l l"
| Event: "loop_run G T pd l m \<Longrightarrow> ev = PushTimer \<longrightarrow> lo_armed m \<Longrightarrow> loop_run G T pd l (loop_step G T pd a ev m)"
| Asked: "loop_run G T pd l m \<Longrightarrow> loop_run G T pd l (loop_cycle G a m)"
| Stored: "loop_run G T pd l m \<Longrightarrow> loop_run G T pd l (m\<lparr>lo_node := (lo_node m)\<lparr>nd_daemon := d\<rparr>\<rparr>)"


section \<open>The push timer\<close>

text \<open>The timer that gathers pushes is armed once for a burst: whatever the loop has seen since it began, a push is
  pending exactly while the timer runs; it is only reset while it is idle; and further records change nothing until
  it has fired.\<close>

theorem push_timer_once:
  assumes "loop_run G T pd (loop_start T pd fl sc n) l"
  shows "lo_pending l = lo_armed l \<and> (fst (push_arm (lo_debounce l) (lo_pending l)) \<longrightarrow> \<not> lo_armed l \<and> 0 < lo_debounce l) \<and>
    (lo_armed l \<longrightarrow> loop_step G T pd a PushWake l = l)"
proof -
  have keeps: "lo_pending (loop_reload G T pd a l) = lo_pending l" "lo_armed (loop_reload G T pd a l) = lo_armed l" for a l
    by (simp_all add: loop_reload_def Let_def)
  from assms have "lo_pending l = lo_armed l"
    by (induction "loop_start T pd fl sc n" l rule: loop_run.induct)
      (auto simp: loop_start_def loop_step_def loop_cycle_def keeps push_arm_def Let_def split: loop_event.split)
  then show ?thesis by (simp add: push_arm_def loop_step_def)
qed


section \<open>Edits of the configuration\<close>

lemma loop_reload_same: "load_sync_conf T pd (ar_file a) = lo_conf l \<Longrightarrow> loop_reload G T pd a l = l"
  by (simp add: loop_reload_def)

lemma loop_reload_conf: "lo_conf (loop_reload G T pd a l) = load_sync_conf T pd (ar_file a)"
  by (simp add: loop_reload_def Let_def)


text \<open>A key that comes late is not noticed. When sync is configured but the device key could not be read as the
  daemon looked (a keyring that did not answer in time), sync stays off for good: as long as the configuration file
  says the same, no event of the loop looks for the key again, however readable it has become.\<close>

theorem late_key_not_noticed:
  assumes "\<not> node_enabled (lo_node l)"
    and "list_all (\<lambda>(a, ev). load_sync_conf T pd (ar_file a) = lo_conf l) evs"
  shows "lo_node (foldl (\<lambda>m (a, ev). loop_step G T pd a ev m) l evs) = lo_node l"
proof -
  have "lo_node (foldl (\<lambda>m (a, ev). loop_step G T pd a ev m) m evs) = lo_node l"
    if "lo_node m = lo_node l" "lo_conf m = lo_conf l" for m
    using assms(2) that
  proof (induction evs arbitrary: m)
    case (Cons e evs)
    obtain a ev where e: "e = (a, ev)" by (cases e)
    have "load_sync_conf T pd (ar_file a) = lo_conf m" using Cons.prems by (simp add: e)
    then have "lo_node (loop_step G T pd a ev m) = lo_node l" "lo_conf (loop_step G T pd a ev m) = lo_conf l"
      using Cons.prems assms(1)
      by (auto simp: loop_step_def loop_reload_same loop_cycle_def do_sync_def push_arm_def split: loop_event.split)
    with Cons.IH Cons.prems(1) show ?case by (simp add: e)
  qed simp
  then show ?thesis by simp
qed

text \<open>A changed interval is not noticed. Setting the interval of the cycles or the delay of a push is accepted and
  stored, but the loop compares only what concerns the server: its reload leaves everything as it was.\<close>

theorem interval_edit_not_noticed:
  assumes "toml_ok T" and "key \<in> {''sync_interval'', ''push_debounce''}" and "config_load T fl = (c, None)"
    and "config_set T True key value fl = (fl', None)" and "printable (with_field key (CStr value) c)"
    and "load_sync_conf T pd fl = lo_conf l" and "ar_file a = fl'"
  shows "field_by_key (fst (config_load T fl')) key = Some (CStr value) \<and> loop_reload G T pd a l = l"
proof -
  obtain s where f: "field_by_key c key = Some (CStr s)"
    using assms(2) by (elim insertE emptyE) (simp_all add: field_by_key_def config_fields_def)
  then have a: "v = CStr value" if "field_by_key c key = Some old" "assign_field old value = Some v" for old v
    using that by (simp add: assign_field_def)
  have ok: "printable (with_field key v c)" if "field_by_key c key = Some old" "assign_field old value = Some v" for old v
    using a [OF that] assms(5) by simp
  obtain old v where v: "field_by_key c key = Some old" "assign_field old value = Some v"
      "config_load T fl' = (with_field key v c, None)" "same_kind old v"
    by (rule config_set_effect [OF assms(1,4,3) ok])
  have new: "v = CStr value" by (rule a [OF v(1,2)])
  have "load_sync_conf T pd fl' = load_sync_conf T pd fl"
    using assms(2)
    by (elim insertE emptyE)
      (simp_all add: load_sync_conf_def v(3) assms(3) with_field_def key_epoch_d_def remote_keep_n_def Let_def)
  then have "loop_reload G T pd a l = l" using assms(6,7) by (intro loop_reload_same) simp
  moreover have "field_by_key (fst (config_load T fl')) key = Some (CStr value)"
    using with_field_get [OF v(1,4), of key] by (simp add: v(3) new)
  ultimately show ?thesis by blast
qed

text \<open>A configuration to run on: a file that names the server \<open>s\<close>, another that names \<open>t\<close>.\<close>

definition named :: "string \<Rightarrow> config_file" where
  "named u = Contents (tm_encode demo_toml (config_defaults\<lparr>cf_server_url := u\<rparr>) @ [CHR 0x0A])"

definition here_now :: "config_file \<Rightarrow> around" where
  "here_now fl = \<lparr>ar_file = fl, ar_again = fl, ar_backend = BackendFile, ar_ring = RingWorks, ar_vault = empty_vault,
     ar_opens = True, ar_order = [], ar_now = 0\<rparr>"

definition demo_loop :: "(nat, hrec blob log_bucket, pull_record blob log_bucket log_bucket, string log_bucket) sync_loop" where
  "demo_loop = loop_start demo_toml (\<lambda>_. None) (named ''s'') (load_sync_conf demo_toml (\<lambda>_. None) (named ''s'')) warm_node"

lemma load_named:
  "list_all (\<lambda>x. 32 \<le> byte x \<and> byte x < 127) u \<Longrightarrow> config_load demo_toml (named u) = (config_defaults\<lparr>cf_server_url := u\<rparr>, None)"
proof -
  assume "list_all (\<lambda>x. 32 \<le> byte x \<and> byte x < 127) u"
  then have "printable (config_defaults\<lparr>cf_server_url := u\<rparr>)"
    by (simp add: printable_def int64_def conf_strings_def config_fields_def config_defaults_def)
  with demo_toml_ok show ?thesis by (simp add: toml_ok_def config_load_def named_def)
qed


lemma push_timer_once_witness:
  "lo_armed (loop_step (no_gear Transport) demo_toml (\<lambda>_. Some 7) (here_now NoFile) PushWake
     (loop_start demo_toml (\<lambda>_. Some 7) NoFile demo_conf warm_node))"
proof -
  let ?l = "loop_start demo_toml (\<lambda>_. Some 7) NoFile demo_conf warm_node"
  let ?step = "loop_step (no_gear Transport) demo_toml (\<lambda>_. Some 7) (here_now NoFile) PushWake"
  have "loop_run (no_gear Transport) demo_toml (\<lambda>_. Some 7) ?l (?step ?l)"
    by (rule loop_run.Event [OF loop_run.Begun]) simp
  from push_timer_once [OF this] have "lo_pending (?step ?l) = lo_armed (?step ?l)" by simp
  moreover have "lo_pending (?step ?l)"
    by (simp add: loop_step_def loop_start_def push_arm_def push_debounce_d_def dur_or_def Let_def)
  ultimately show ?thesis by simp
qed

lemma late_key_not_noticed_witness:
  "\<not> node_enabled (lo_node (foldl (\<lambda>m (a, ev). loop_step (no_gear Transport) demo_toml (\<lambda>_. None) a ev m)
     (loop_start demo_toml (\<lambda>_. None) NoFile (load_sync_conf demo_toml (\<lambda>_. None) NoFile)
        (warm_node\<lparr>nd_sync := None\<rparr>)) [(here_now NoFile, Due), (here_now NoFile, PushWake)]))"
proof -
  let ?l = "loop_start demo_toml (\<lambda>_. None) NoFile (load_sync_conf demo_toml (\<lambda>_. None) NoFile) (warm_node\<lparr>nd_sync := None\<rparr>)"
  let ?evs = "[(here_now NoFile, Due), (here_now NoFile, PushWake)]"
  have off: "\<not> node_enabled (lo_node ?l)" by (simp add: loop_start_def node_enabled_def Let_def)
  have same: "list_all (\<lambda>(a, ev). load_sync_conf demo_toml (\<lambda>_. None) (ar_file a) = lo_conf ?l) ?evs"
    by (simp add: loop_start_def here_now_def Let_def)
  show ?thesis unfolding late_key_not_noticed [OF off same] by (rule off)
qed

lemma interval_edit_not_noticed_witness:
  "\<exists>fl'. config_set demo_toml True ''push_debounce'' ''5s'' NoFile = (fl', None) \<and>
    lo_debounce (loop_reload (no_gear Transport) demo_toml (\<lambda>s. if s = ''5s'' then Some 5 else None) (here_now fl')
      (loop_start demo_toml (\<lambda>s. if s = ''5s'' then Some 5 else None) NoFile
        (load_sync_conf demo_toml (\<lambda>s. if s = ''5s'' then Some 5 else None) NoFile) warm_node)) = 0"
proof -
  let ?pd = "\<lambda>s. if s = ''5s'' then Some 5 else None"
  let ?l = "loop_start demo_toml ?pd NoFile (load_sync_conf demo_toml ?pd NoFile) warm_node"
  obtain fl' where s: "config_set demo_toml True ''push_debounce'' ''5s'' NoFile = (fl', None)"
    by (simp add: config_set_def demo_load field_by_key_def config_fields_def assign_field_def config_save_def)
  have p: "printable (with_field ''push_debounce'' (CStr ''5s'') config_defaults)"
    by (simp add: with_field_def printable_def int64_def conf_strings_def config_fields_def config_defaults_def byte_def)
  have conf: "load_sync_conf demo_toml ?pd NoFile = lo_conf ?l" by (simp add: loop_start_def Let_def)
  have "loop_reload (no_gear Transport) demo_toml ?pd (here_now fl') ?l = ?l"
    by (rule interval_edit_not_noticed [OF demo_toml_ok _ demo_load(1) s p conf, THEN conjunct2]) (simp_all add: here_now_def)
  then show ?thesis using s
    by (simp add: loop_start_def demo_load push_debounce_d_def dur_or_def config_defaults_def Let_def)
qed

end
