(* ===== verification/Mcp_Report.thy ===== *)
theory Mcp_Report
  imports Match Risk History_Record
begin

text \<open>
  \<open>mcp/format.go\<close> and the summaries of \<open>mcp/resources.go\<close>: how rows become the text of a report, and the groupings by
  session and by prompt behind them. Times are shown relative to \<open>now\<close>; \<open>day\<close> is what \<open>Format("Jan 2")\<close> makes of an
  older one in the local time zone.
\<close>

section \<open>Pieces of text\<close>

definition newline :: string where "newline = [CHR 0x0A]"
definition unknown_mark :: string where "unknown_mark = [CHR 0xC2, CHR 0xB7]"
definition ellipsis :: string where "ellipsis = [CHR 0xE2, CHR 0x80, CHR 0xA6]"

definition show_nat :: "nat \<Rightarrow> string" where "show_nat n = format_int (int n)"

text \<open>\<open>%5d\<close> and \<open>%-16s\<close>: padding counts runes.\<close>

definition pad_left :: "nat \<Rightarrow> string \<Rightarrow> string" where "pad_left w s = replicate (w - length (runes s)) CHR '' '' @ s"
definition pad_right :: "nat \<Rightarrow> string \<Rightarrow> string" where "pad_right w s = s @ replicate (w - length (runes s)) CHR '' ''"

definition exit_glyph :: "hrec \<Rightarrow> string" where
  "exit_glyph r =
    (case r_exit r of
       None \<Rightarrow> unknown_mark
     | Some e \<Rightarrow> if e = 0 then [CHR 0xE2, CHR 0x9C, CHR 0x93] else [CHR 0xE2, CHR 0x9C, CHR 0x97] @ format_int e)"

definition tally_exits :: "hrec list \<Rightarrow> nat \<times> nat \<times> nat" where
  "tally_exits rows =
    (length (filter (\<lambda>r. r_exit r = Some 0) rows),
     length (filter (\<lambda>r. r_exit r \<noteq> None \<and> r_exit r \<noteq> Some 0) rows),
     length (filter (\<lambda>r. r_exit r = None) rows))"

text \<open>\<open>oneLine\<close>: a string cut to \<open>n\<close> runes is encoded again.\<close>

definition one_line :: "string \<Rightarrow> nat \<Rightarrow> string" where
  "one_line str n =
    (let s = join_with '' '' (str_fields (map (\<lambda>c. if c = CHR 0x0A then CHR '' '' else c) str)); r = runes s
     in if 0 < n \<and> n < length r then concat (map encode_rune (take (n - 1) r)) @ ellipsis else s)"

definition short_id :: "string \<Rightarrow> string" where
  "short_id i =
    (let s = foldl trim_prefix i [''claude-'', ''cursor-'', ''opencode-'', ''codex-'']
     in if 8 < length s then take 8 s else if s = [] then unknown_mark else s)"

definition exec_label :: "string \<Rightarrow> string" where
  "exec_label tag = (if tag = [] then ''(you)'' else tag)"

definition rel_time :: "int \<Rightarrow> (int \<Rightarrow> string) \<Rightarrow> int \<Rightarrow> string" where
  "rel_time now day ms =
    (if ms \<le> 0 then unknown_mark
     else let d = now - ms
          in if d < 60000 then ''now''
             else if d < 3600000 then format_int (d div 60000) @ ''m''
             else if d < 24 * 3600000 then format_int (d div 3600000) @ ''h''
             else if d < 7 * 24 * 3600000 then format_int (d div (24 * 3600000)) @ ''d''
             else day ms)"

definition row_tail :: "string \<Rightarrow> hrec \<Rightarrow> string list" where
  "row_tail here r =
    (if r_executor r \<noteq> [] then [r_executor r] else []) @
    (if r_tags r \<noteq> [] then [''#'' @ join_with '' #'' (r_tags r)] else []) @
    (if r_cwd r \<noteq> [] then [r_cwd r] else []) @
    (if r_hostname r \<noteq> [] \<and> r_hostname r \<noteq> here then [''@'' @ r_hostname r] else [])"

definition format_command_list ::
  "(int \<Rightarrow> string) \<Rightarrow> string \<Rightarrow> hrec list \<Rightarrow> string \<Rightarrow> string" where
  "format_command_list rel title rows here =
    title @ newline @ newline @
    (if rows = [] then ''(none)'' @ newline
     else concat (map (\<lambda>r. rel (r_start_ms r) @ ''  '' @ exit_glyph r @ ''  '' @ one_line (r_cmd r) 120 @
            (if row_tail here r \<noteq> []
             then ''  ['' @ join_with ('' '' @ unknown_mark @ '' '') (row_tail here r) @ '']'' else []) @ newline) rows))"

definition format_chronological :: "(int \<Rightarrow> string) \<Rightarrow> string \<Rightarrow> hrec list \<Rightarrow> string" where
  "format_chronological rel title rows =
    title @ '': '' @ show_nat (length rows) @ '' command(s)'' @ newline @ newline @
    concat (map (\<lambda>r. rel (r_start_ms r) @ ''  '' @ exit_glyph r @ ''  '' @ one_line (r_cmd r) 120 @
      (if r_cwd r \<noteq> [] then ''  ('' @ r_cwd r @ '')'' else []) @ newline) rows)"


section \<open>Grouping\<close>

text \<open>The map from keys to groups together with the order in which the keys came up, as every grouping keeps them:
  a row opens the group of its key if there is none, and is added to it.\<close>

type_synonym 'a groups = "(string \<Rightarrow> 'a option) \<times> string list"

definition add_row :: "('r \<Rightarrow> string) \<Rightarrow> ('r \<Rightarrow> 'a) \<Rightarrow> ('r \<Rightarrow> 'a \<Rightarrow> 'a) \<Rightarrow> 'a groups \<Rightarrow> 'r \<Rightarrow> 'a groups" where
  "add_row key new upd g r =
    (case g of (by, order) \<Rightarrow>
       (case by (key r) of
          None \<Rightarrow> (by(key r \<mapsto> upd r (new r)), order @ [key r])
        | Some a \<Rightarrow> (by(key r \<mapsto> upd r a), order)))"

definition listed :: "'a groups \<Rightarrow> 'a list" where
  "listed g = (case g of (by, order) \<Rightarrow> map (\<lambda>k. the (by k)) order)"

record session_agg =
  sa_id :: string
  sa_executor :: string
  sa_host :: string
  sa_count :: nat
  sa_ok :: nat
  sa_fail :: nat
  sa_first_ms :: int
  sa_last_ms :: int
  sa_first_prompt :: string
  sa_dirs :: "string list"

definition new_session :: "hrec \<Rightarrow> session_agg" where
  "new_session r =
    \<lparr>sa_id = r_session r, sa_executor = r_executor r, sa_host = r_hostname r, sa_count = 0, sa_ok = 0, sa_fail = 0,
     sa_first_ms = r_start_ms r, sa_last_ms = r_start_ms r, sa_first_prompt = [], sa_dirs = []\<rparr>"

definition add_to_session :: "hrec \<Rightarrow> session_agg \<Rightarrow> session_agg" where
  "add_to_session r a =
    a\<lparr>sa_count := sa_count a + 1,
      sa_first_ms := (if r_start_ms r < sa_first_ms a then r_start_ms r else sa_first_ms a),
      sa_last_ms := (if r_start_ms r > sa_last_ms a then r_start_ms r else sa_last_ms a),
      sa_dirs := (if r_cwd r \<noteq> [] then r_cwd r # sa_dirs a else sa_dirs a),
      sa_first_prompt := (if r_prompt r \<noteq> [] \<and> sa_first_prompt a = [] then r_prompt r else sa_first_prompt a),
      sa_ok := (if r_exit r = Some 0 then sa_ok a + 1 else sa_ok a),
      sa_fail := (if r_exit r \<noteq> None \<and> r_exit r \<noteq> Some 0 then sa_fail a + 1 else sa_fail a)\<rparr>"

definition in_session :: "string \<Rightarrow> hrec \<Rightarrow> bool" where
  "in_session executor r \<longleftrightarrow> r_session r \<noteq> [] \<and> \<not> deleted r \<and> (executor = [] \<or> r_executor r = executor)"

definition group_sessions :: "hrec list \<Rightarrow> string \<Rightarrow> session_agg list" where
  "group_sessions rows executor =
    stable_sort (\<lambda>a b. sa_last_ms a > sa_last_ms b)
      (listed (foldl (add_row r_session new_session add_to_session) (Map.empty, []) (filter (in_session executor) rows)))"

record prompt_agg =
  pa_id :: string
  pa_text :: string
  pa_executor :: string
  pa_session :: string
  pa_count :: nat
  pa_ok :: nat
  pa_fail :: nat
  pa_first_ms :: int
  pa_last_ms :: int
  pa_cmds :: "hrec list"

definition new_prompt :: "string \<Rightarrow> hrec \<Rightarrow> prompt_agg" where
  "new_prompt i r =
    \<lparr>pa_id = i, pa_text = r_prompt r, pa_executor = r_executor r, pa_session = r_session r, pa_count = 0, pa_ok = 0,
     pa_fail = 0, pa_first_ms = r_start_ms r, pa_last_ms = r_start_ms r, pa_cmds = []\<rparr>"

definition add_to_prompt :: "hrec \<Rightarrow> prompt_agg \<Rightarrow> prompt_agg" where
  "add_to_prompt r a =
    a\<lparr>pa_text := (if pa_text a = [] then r_prompt r else pa_text a),
      pa_executor := (if pa_executor a = [] then r_executor r else pa_executor a),
      pa_count := pa_count a + 1, pa_cmds := pa_cmds a @ [r],
      pa_first_ms := (if r_start_ms r < pa_first_ms a then r_start_ms r else pa_first_ms a),
      pa_last_ms := (if r_start_ms r > pa_last_ms a then r_start_ms r else pa_last_ms a),
      pa_ok := (if r_exit r = Some 0 then pa_ok a + 1 else pa_ok a),
      pa_fail := (if r_exit r \<noteq> None \<and> r_exit r \<noteq> Some 0 then pa_fail a + 1 else pa_fail a)\<rparr>"

definition older_row :: "hrec \<Rightarrow> hrec \<Rightarrow> bool" where
  "older_row a b \<longleftrightarrow> r_start_ms a < r_start_ms b"

text \<open>The end of both prompt groupings: the commands of a group oldest first, the groups newest first.\<close>

definition ranked :: "prompt_agg groups \<Rightarrow> prompt_agg list" where
  "ranked g =
    stable_sort (\<lambda>a b. pa_last_ms a > pa_last_ms b) (map (\<lambda>a. a\<lparr>pa_cmds := stable_sort older_row (pa_cmds a)\<rparr>) (listed g))"

text \<open>The seeding with prompt records: a group of the same id is replaced and listed again.\<close>

definition seed_prompt :: "prompt_agg groups \<Rightarrow> hrec \<Rightarrow> prompt_agg groups" where
  "seed_prompt g r = (case g of (by, order) \<Rightarrow> (by(r_id r \<mapsto> new_prompt (r_id r) r), order @ [r_id r]))"

definition from_who :: "string \<Rightarrow> string \<Rightarrow> hrec \<Rightarrow> bool" where
  "from_who executor session r \<longleftrightarrow>
    \<not> deleted r \<and> (executor = [] \<or> r_executor r = executor) \<and> (session = [] \<or> r_session r = session)"

definition group_prompts :: "hrec list \<Rightarrow> hrec list \<Rightarrow> string \<Rightarrow> string \<Rightarrow> string \<Rightarrow> prompt_agg list" where
  "group_prompts rows prompts executor session dir =
    (let seeds = (if dir = [] then filter (\<lambda>r. r_id r \<noteq> [] \<and> from_who executor session r) prompts else []);
         kept = filter (\<lambda>r. r_prompt_id r \<noteq> [] \<and> from_who executor session r \<and> (dir = [] \<or> r_cwd r = dir)) rows
     in ranked (foldl (add_row r_prompt_id (\<lambda>r. new_prompt (r_prompt_id r) r) add_to_prompt)
          (foldl seed_prompt (Map.empty, []) seeds) kept))"

text \<open>A directory and what lies under it.\<close>

definition under_prefix :: "string \<Rightarrow> string \<Rightarrow> bool" where
  "under_prefix cwd dir \<longleftrightarrow> cwd = dir \<or> has_prefix cwd (trim_right_byte CHR ''/'' dir @ ''/'')"

definition failed_in :: "string \<Rightarrow> int \<Rightarrow> hrec \<Rightarrow> bool" where
  "failed_in dir cutoff r \<longleftrightarrow>
    \<not> deleted r \<and> r_exit r \<noteq> None \<and> r_exit r \<noteq> Some 0 \<and> cutoff \<le> r_start_ms r \<and> (dir = [] \<or> under_prefix (r_cwd r) dir)"

definition failure_key :: "hrec \<Rightarrow> string" where
  "failure_key r = (if r_prompt_id r = [] then ''session:'' @ r_session r else r_prompt_id r)"

definition add_failure :: "hrec \<Rightarrow> prompt_agg \<Rightarrow> prompt_agg" where
  "add_failure r a =
    a\<lparr>pa_text := (if pa_text a = [] then r_prompt r else pa_text a), pa_count := pa_count a + 1, pa_fail := pa_fail a + 1,
      pa_cmds := pa_cmds a @ [r], pa_last_ms := (if r_start_ms r > pa_last_ms a then r_start_ms r else pa_last_ms a)\<rparr>"

definition group_failures :: "hrec list \<Rightarrow> string \<Rightarrow> int \<Rightarrow> prompt_agg list" where
  "group_failures rows dir cutoff =
    ranked (foldl (add_row failure_key (\<lambda>r. new_prompt (failure_key r) r) add_failure) (Map.empty, [])
      (filter (failed_in dir cutoff) rows))"


section \<open>Statistics\<close>

definition cutoff_ms :: "int \<Rightarrow> int \<Rightarrow> int" where
  "cutoff_ms now days = (if days \<le> 0 then 0 else wrap64 (now - days * 86400000))"

definition first_token :: "string \<Rightarrow> string" where
  "first_token cmd = (case str_fields cmd of [] \<Rightarrow> [] | t # _ \<Rightarrow> t)"

text \<open>\<open>Sprintf("%.0f%%", 100 * float64(ok) / float64(known))\<close>: the quotient, rounded to an integer, a tie to the even
  one; exact as long as the counts stay below \<open>2 ^ 40\<close>.\<close>

definition percent :: "nat \<Rightarrow> nat \<Rightarrow> string" where
  "percent ok known =
    (let q = (200 * ok + known) div (2 * known)
     in show_nat (if (200 * ok + known) mod (2 * known) = 0 \<and> odd q then q - 1 else q) @ ''%'')"

definition success_rate :: "nat \<Rightarrow> nat \<Rightarrow> string" where
  "success_rate ok known = (if 0 < known then percent ok known else ''n/a'')"

text \<open>A count per name; \<open>writeTop\<close> ranks them by count, then by name, so the order of the map does not show.\<close>

definition tally :: "string list \<Rightarrow> (string \<times> nat) list" where
  "tally xs = map (\<lambda>k. (k, count_list xs k)) (remdups xs)"

definition top_first :: "string \<times> nat \<Rightarrow> string \<times> nat \<Rightarrow> bool" where
  "top_first a b \<longleftrightarrow> (if snd a \<noteq> snd b then snd a > snd b else fst a < fst b)"

definition top_rows :: nat where "top_rows = 8"

definition write_top :: "string \<Rightarrow> (string \<times> nat) list \<Rightarrow> string" where
  "write_top title m =
    title @ '':'' @ newline @
    concat (map (\<lambda>(k, v). ''  '' @ pad_left 5 (show_nat v) @ ''  '' @ k @ newline) (take top_rows (stable_sort top_first m))) @
    newline"

definition in_stats :: "int \<Rightarrow> string \<Rightarrow> (string \<Rightarrow> bool) \<Rightarrow> hrec \<Rightarrow> bool" where
  "in_stats cutoff dir excl r \<longleftrightarrow>
    \<not> deleted r \<and> cutoff \<le> r_start_ms r \<and> (dir = [] \<or> under_prefix (r_cwd r) dir) \<and> \<not> excl (r_cwd r)"

definition named_by :: "(hrec \<Rightarrow> string) \<Rightarrow> hrec list \<Rightarrow> string list" where
  "named_by f rows = filter (\<lambda>s. s \<noteq> []) (map f rows)"

definition format_stats :: "int \<Rightarrow> hrec list \<Rightarrow> string \<Rightarrow> int \<Rightarrow> (string \<Rightarrow> bool) \<Rightarrow> string" where
  "format_stats now rows dir days excl =
    (let rs = filter (in_stats (cutoff_ms now days) dir excl) rows;
         known = length (filter (\<lambda>r. r_exit r \<noteq> None) rs);
         ok = length (filter (\<lambda>r. r_exit r = Some 0) rs);
         hosts = tally (named_by r_hostname rs);
         window = (if 0 < days then ''last '' @ format_int days @ ''d'' else ''all history'')
     in ''Stats ('' @ window @ '')'' @ newline @ newline @
        ''Total '' @ show_nat (length rs) @ '' '' @ unknown_mark @ '' Success '' @ success_rate ok known @ '' '' @ unknown_mark @
        '' Hosts '' @ show_nat (length hosts) @ newline @ newline @
        write_top ''Top programs'' (tally (named_by (\<lambda>r. first_token (r_cmd r)) rs)) @
        write_top ''Top directories'' (tally (named_by r_cwd rs)) @
        write_top ''By executor'' (tally (map (\<lambda>r. exec_label (r_executor r)) rs)) @
        (if 1 < length hosts then write_top ''By host'' hosts else []))"

text \<open>\<open>formatRiskSummary\<close> and \<open>formatAgentActivity\<close>.\<close>

definition by_agent :: "hrec \<Rightarrow> bool" where
  "by_agent r \<longleftrightarrow> \<not> deleted r \<and> r_executor r \<noteq> []"

definition format_risk_summary :: "hrec list \<Rightarrow> ruleset \<Rightarrow> string" where
  "format_risk_summary rows rs =
    (let judged = map (\<lambda>r. (assess_command rs (r_cmd r), r)) (filter by_agent rows);
         n = (\<lambda>l. show_nat (length (filter (\<lambda>(a, _). as_level a = l) judged)));
         flagged = filter (\<lambda>(a, _). level_num High \<le> level_num (as_level a)) judged;
         dot = '' '' @ unknown_mark @ '' ''
     in ''Risk summary (recent agent commands)'' @ newline @ newline @
        ''critical '' @ n Critical @ dot @ ''high '' @ n High @ dot @ ''medium '' @ n Medium @ dot @ ''low '' @ n Low @ dot @
        ''safe '' @ n LNone @ newline @
        (if flagged = [] then []
         else newline @ ''High/critical:'' @ newline @
           concat (map (\<lambda>(a, r). ''  ['' @ level_string (as_level a) @ ''] '' @ one_line (r_cmd r) 80 @ '': '' @ as_reason a @ newline)
             (take 15 (stable_sort (\<lambda>x y. level_num (as_level (fst x)) > level_num (as_level (fst y))) flagged)))))"

record activity =
  ac_name :: string
  ac_count :: nat
  ac_ok :: nat
  ac_known :: nat

definition add_activity :: "hrec \<Rightarrow> activity \<Rightarrow> activity" where
  "add_activity r a =
    a\<lparr>ac_count := ac_count a + 1, ac_known := (if r_exit r \<noteq> None then ac_known a + 1 else ac_known a),
      ac_ok := (if r_exit r = Some 0 then ac_ok a + 1 else ac_ok a)\<rparr>"

definition agent_activity :: "hrec list \<Rightarrow> activity list" where
  "agent_activity rows =
    stable_sort (\<lambda>a b. ac_count a > ac_count b)
      (listed (foldl (add_row r_executor (\<lambda>r. \<lparr>ac_name = r_executor r, ac_count = 0, ac_ok = 0, ac_known = 0\<rparr>) add_activity)
        (Map.empty, []) (filter by_agent rows)))"

definition format_agent_activity :: "hrec list \<Rightarrow> string" where
  "format_agent_activity rows =
    ''Agent activity'' @ newline @ newline @
    (if agent_activity rows = [] then ''(no agent commands)'' @ newline
     else concat (map (\<lambda>a. pad_right 16 (ac_name a) @ '' '' @ pad_left 5 (show_nat (ac_count a)) @ '' cmds  success '' @
       success_rate (ac_ok a) (ac_known a) @ newline) (agent_activity rows)))"


section \<open>What a grouping holds\<close>

text \<open>A grouping splits the rows by key: the keys in order of appearance, each with its rows folded into a new group.\<close>

definition of_key :: "('r \<Rightarrow> string) \<Rightarrow> string \<Rightarrow> 'r list \<Rightarrow> 'r list" where
  "of_key key k rows = filter (\<lambda>r. key r = k) rows"

lemma grouped:
  assumes "foldl (add_row key new upd) (Map.empty, []) rows = (by, order)"
  shows "distinct order \<and> set order = key ` set rows \<and>
    (\<forall>k. by k = (case of_key key k rows of [] \<Rightarrow> None | r # rs \<Rightarrow> Some (foldl (\<lambda>a r. upd r a) (new r) (r # rs))))"
  using assms
proof (induction rows arbitrary: "by" order rule: rev_induct)
  case (snoc x rows)
  obtain b o' where p: "foldl (add_row key new upd) (Map.empty, []) rows = (b, o')"
    by (cases "foldl (add_row key new upd) (Map.empty, []) rows")
  have step: "add_row key new upd (b, o') x = (by, order)" using snoc.prems p by simp
  have app: "of_key key k (rows @ [x]) = of_key key k rows @ (if key x = k then [x] else [])" for k
    by (simp add: of_key_def)
  note IH = snoc.IH [OF p]
  show ?case
  proof (cases "b (key x)")
    case None
    with IH have none: "of_key key (key x) rows = []" by (cases "of_key key (key x) rows") auto
    then have "key x \<notin> key ` set rows" by (auto simp: of_key_def filter_empty_conv)
    with IH none show ?thesis using step None unfolding app by (auto simp: add_row_def)
  next
    case (Some a)
    with IH obtain r rs where rs: "of_key key (key x) rows = r # rs" "a = foldl (\<lambda>a r. upd r a) (new r) (r # rs)"
      by (cases "of_key key (key x) rows") auto
    then have "r \<in> set (of_key key (key x) rows)" by simp
    then have "key x \<in> key ` set rows" by (auto simp: of_key_def intro: image_eqI [of _ _ r])
    with IH rs show ?thesis using step Some unfolding app by (auto simp: add_row_def)
  qed
qed (simp add: of_key_def)

lemma listed_grouped:
  assumes "foldl (add_row key new upd) (Map.empty, []) rows = g"
  obtains ks where "distinct ks" "set ks = key ` set rows"
    "listed g = map (\<lambda>k. foldl (\<lambda>a r. upd r a) (new (hd (of_key key k rows))) (of_key key k rows)) ks"
proof -
  obtain b ks where g: "g = (b, ks)" by (cases g)
  note gr = grouped [OF assms [unfolded g]]
  have "the (b k) = foldl (\<lambda>a r. upd r a) (new (hd (of_key key k rows))) (of_key key k rows)" if "k \<in> set ks" for k
  proof -
    from that gr have "of_key key k rows \<noteq> []" by (auto simp: of_key_def filter_empty_conv)
    with gr show ?thesis by (auto simp: neq_Nil_conv)
  qed
  with gr that [of ks] show thesis by (auto simp: listed_def g)
qed

lemma session_folded:
  "foldl (\<lambda>a r. add_to_session r a) (new_session r) xs = a \<Longrightarrow>
    sa_id a = r_session r \<and> sa_executor a = r_executor r \<and> sa_host a = r_hostname r \<and> sa_count a = length xs \<and>
    sa_ok a = length (filter (\<lambda>x. r_exit x = Some 0) xs) \<and>
    sa_fail a = length (filter (\<lambda>x. r_exit x \<noteq> None \<and> r_exit x \<noteq> Some 0) xs) \<and>
    sa_first_ms a = Min (insert (r_start_ms r) (r_start_ms ` set xs)) \<and>
    sa_last_ms a = Max (insert (r_start_ms r) (r_start_ms ` set xs)) \<and>
    set (sa_dirs a) = r_cwd ` set xs - {[]}"
proof (induction xs arbitrary: a rule: rev_induct)
  case (snoc x xs)
  define b where "b = foldl (\<lambda>a r. add_to_session r a) (new_session r) xs"
  have a: "a = add_to_session x b" using snoc.prems by (simp add: b_def)
  note IH = snoc.IH [OF b_def [symmetric]]
  have fin: "finite (insert (r_start_ms r) (r_start_ms ` set xs))" "insert (r_start_ms r) (r_start_ms ` set xs) \<noteq> {}" by auto
  have ins: "insert (r_start_ms r) (r_start_ms ` set (xs @ [x])) = insert (r_start_ms x) (insert (r_start_ms r) (r_start_ms ` set xs))"
    by auto
  have f: "sa_first_ms a = min (r_start_ms x) (sa_first_ms b)" "sa_last_ms a = max (r_start_ms x) (sa_last_ms b)"
    "set (sa_dirs a) = insert (r_cwd x) (set (sa_dirs b)) - {[]}" if "[] \<notin> set (sa_dirs b)"
    using that by (auto simp: a add_to_session_def)
  have n: "sa_id a = sa_id b" "sa_executor a = sa_executor b" "sa_host a = sa_host b" "sa_count a = Suc (sa_count b)"
    "sa_ok a = sa_ok b + length (filter (\<lambda>x. r_exit x = Some 0) [x])"
    "sa_fail a = sa_fail b + length (filter (\<lambda>x. r_exit x \<noteq> None \<and> r_exit x \<noteq> Some 0) [x])"
    by (simp_all add: a add_to_session_def)
  from IH have ne: "[] \<notin> set (sa_dirs b)" by blast
  have dirs: "set (sa_dirs a) = r_cwd ` set (xs @ [x]) - {[]}" using f(3) [OF ne] IH by auto
  show ?case
    unfolding ins Min_insert [OF fin] Max_insert [OF fin] dirs f(1,2) [OF ne] n
    using IH by (simp del: filter.simps add: filter_append)
qed (simp add: new_session_def)

lemma newest_first_weak: "strict_weak (\<lambda>a b. f a > (f b :: int))"
  by (auto simp: strict_weak_def)

text \<open>C27 Sessions are accounted for in full. Of the rows that belong to a session (of the executor asked for, if one is),
  each session makes one summary; it counts exactly its rows, its successes and its failures, and it spans from its
  earliest row to its latest; the sessions active last come first.\<close>

theorem sessions_account:
  "let kept = filter (in_session ex) rows; out = group_sessions rows ex
   in distinct (map sa_id out) \<and> sa_id ` set out = r_session ` set kept \<and>
      sorted_wrt (\<lambda>a b. sa_last_ms a \<ge> sa_last_ms b) out \<and>
      list_all (\<lambda>a. let mine = filter (\<lambda>r. r_session r = sa_id a) kept
        in sa_count a = length mine \<and> sa_ok a = length (filter (\<lambda>r. r_exit r = Some 0) mine) \<and>
           sa_fail a = length (filter (\<lambda>r. r_exit r \<noteq> None \<and> r_exit r \<noteq> Some 0) mine) \<and>
           sa_first_ms a = Min (r_start_ms ` set mine) \<and> sa_last_ms a = Max (r_start_ms ` set mine) \<and>
           set (sa_dirs a) = r_cwd ` set mine - {[]} \<and> sa_executor a = r_executor (hd mine)) out"
proof -
  let ?kept = "filter (in_session ex) rows"
  obtain ks where ks: "distinct ks" "set ks = r_session ` set ?kept"
    "listed (foldl (add_row r_session new_session add_to_session) (Map.empty, []) ?kept) =
      map (\<lambda>k. foldl (\<lambda>a r. add_to_session r a) (new_session (hd (of_key r_session k ?kept))) (of_key r_session k ?kept)) ks"
    (is "?listed = map ?agg ks") by (rule listed_grouped [OF refl])
  have agg: "sa_id (?agg k) = k \<and> sa_count (?agg k) = length (of_key r_session k ?kept) \<and>
      sa_ok (?agg k) = length (filter (\<lambda>r. r_exit r = Some 0) (of_key r_session k ?kept)) \<and>
      sa_fail (?agg k) = length (filter (\<lambda>r. r_exit r \<noteq> None \<and> r_exit r \<noteq> Some 0) (of_key r_session k ?kept)) \<and>
      sa_first_ms (?agg k) = Min (r_start_ms ` set (of_key r_session k ?kept)) \<and>
      sa_last_ms (?agg k) = Max (r_start_ms ` set (of_key r_session k ?kept)) \<and>
      set (sa_dirs (?agg k)) = r_cwd ` set (of_key r_session k ?kept) - {[]} \<and>
      sa_executor (?agg k) = r_executor (hd (of_key r_session k ?kept))" if "k \<in> set ks" for k
  proof -
    let ?mine = "of_key r_session k ?kept"
    from that ks(2) have ne: "?mine \<noteq> []" by (auto simp: of_key_def filter_empty_conv)
    then have hd: "hd ?mine \<in> set ?mine" by simp
    then have "r_session (hd ?mine) = k" unfolding of_key_def by simp
    moreover have "insert (r_start_ms (hd ?mine)) (r_start_ms ` set ?mine) = r_start_ms ` set ?mine" using hd by (simp add: insert_absorb)
    ultimately show ?thesis using session_folded [OF refl, of "hd ?mine" ?mine] by simp
  qed
  have m: "mset (group_sessions rows ex) = mset (map ?agg ks)" by (simp only: group_sessions_def mset_stable_sort ks(3))
  have s: "set (group_sessions rows ex) = ?agg ` set ks"
    using mset_eq_setD [OF m] by (simp only: set_map)
  have i: "sa_id (?agg k) = k" if "k \<in> set ks" for k by (rule agg [OF that, THEN conjunct1])
  have ids: "map sa_id (map ?agg ks) = ks" unfolding map_map comp_def by (rule map_idI) (rule i)
  have "mset (map sa_id (group_sessions rows ex)) = mset ks" by (simp only: mset_map [of sa_id] m ids flip: mset_map)
  then have d: "distinct (map sa_id (group_sessions rows ex))"
    by (simp only: mset_eq_imp_distinct_iff [OF \<open>mset (map sa_id (group_sessions rows ex)) = mset ks\<close>] ks(1))
  have "sa_id ` set (group_sessions rows ex) = set (map sa_id (map ?agg ks))" unfolding s by (simp only: set_map)
  with d have "distinct (map sa_id (group_sessions rows ex))" "sa_id ` set (group_sessions rows ex) = r_session ` set ?kept"
    unfolding ids ks(2) by blast+
  moreover have "sorted_wrt (\<lambda>a b. sa_last_ms a \<ge> sa_last_ms b) (group_sessions rows ex)"
    using stable_sort_ordered [OF newest_first_weak [of sa_last_ms]]
    by (simp add: group_sessions_def not_less)
  moreover have "list_all (\<lambda>a. let mine = filter (\<lambda>r. r_session r = sa_id a) ?kept
        in sa_count a = length mine \<and> sa_ok a = length (filter (\<lambda>r. r_exit r = Some 0) mine) \<and>
           sa_fail a = length (filter (\<lambda>r. r_exit r \<noteq> None \<and> r_exit r \<noteq> Some 0) mine) \<and>
           sa_first_ms a = Min (r_start_ms ` set mine) \<and> sa_last_ms a = Max (r_start_ms ` set mine) \<and>
           set (sa_dirs a) = r_cwd ` set mine - {[]} \<and> sa_executor a = r_executor (hd mine)) (group_sessions rows ex)"
    unfolding list_all_iff s Let_def
  proof (rule ballI)
    fix a assume "a \<in> ?agg ` set ks"
    then obtain k where k: "k \<in> set ks" "a = ?agg k" by blast
    from agg [OF k(1)] have i: "sa_id a = k" unfolding k(2) by blast
    from agg [OF k(1), folded k(2), unfolded of_key_def] show
      "sa_count a = length (filter (\<lambda>r. r_session r = sa_id a) ?kept) \<and>
       sa_ok a = length (filter (\<lambda>r. r_exit r = Some 0) (filter (\<lambda>r. r_session r = sa_id a) ?kept)) \<and>
       sa_fail a = length (filter (\<lambda>r. r_exit r \<noteq> None \<and> r_exit r \<noteq> Some 0) (filter (\<lambda>r. r_session r = sa_id a) ?kept)) \<and>
       sa_first_ms a = Min (r_start_ms ` set (filter (\<lambda>r. r_session r = sa_id a) ?kept)) \<and>
       sa_last_ms a = Max (r_start_ms ` set (filter (\<lambda>r. r_session r = sa_id a) ?kept)) \<and>
       set (sa_dirs a) = r_cwd ` set (filter (\<lambda>r. r_session r = sa_id a) ?kept) - {[]} \<and>
       sa_executor a = r_executor (hd (filter (\<lambda>r. r_session r = sa_id a) ?kept))"
      unfolding i by blast
  qed
  ultimately show ?thesis unfolding Let_def by blast
qed
end
